(* ===== verification/JsBase.thy ===== *)
theory JsBase
  imports Complex_Main "HOL-Library.Char_ord" "HOL-Library.Multiset"
begin

text \<open>
  The prelude: what the modelled TypeScript uses of its language and standard library.

  Strings are lists of characters. A character stands for one UTF-16 code unit below 256
  (Latin-1), so \<open>length\<close>, slicing and searching count what JavaScript counts on such
  strings; text outside that range is not represented. Numbers are exact rationals with
  the three special values; rounding to binary64, signed zero and overflow to infinity
  are not represented. A value of type \<open>unknown\<close>, such as a parsed JSON body, is a
  \<open>jv\<close>; an object is the list of its own properties in insertion order.
\<close>

named_theorems js_simps \<open>evaluation rules of the string and list helpers\<close>

section \<open>Characters and strings\<close>

text \<open>The regular-expression class \<open>\s\<close>, which is also what \<open>trim\<close> removes.\<close>

definition is_ws :: "char \<Rightarrow> bool" where
  "is_ws c \<longleftrightarrow> c = CHR '' '' \<or> c = CHR 0x09 \<or> c = CHR 0x0A \<or> c = CHR 0x0B
     \<or> c = CHR 0x0C \<or> c = CHR 0x0D \<or> c = CHR 0xA0"

definition is_digit :: "char \<Rightarrow> bool" where
  "is_digit c \<longleftrightarrow> c \<in> set ''0123456789''"

definition is_lower :: "char \<Rightarrow> bool" where
  "is_lower c \<longleftrightarrow> c \<in> set ''abcdefghijklmnopqrstuvwxyz''"

definition is_upper :: "char \<Rightarrow> bool" where
  "is_upper c \<longleftrightarrow> c \<in> set ''ABCDEFGHIJKLMNOPQRSTUVWXYZ''"

definition is_alnum :: "char \<Rightarrow> bool" where
  "is_alnum c \<longleftrightarrow> is_lower c \<or> is_upper c \<or> is_digit c"

text \<open>\<open>toLowerCase\<close> on one Latin-1 code unit: the ASCII capitals and the accented ones.\<close>

definition char_lower :: "char \<Rightarrow> char" where
  "char_lower c =
     (let n = of_char c :: nat
      in if (65 \<le> n \<and> n \<le> 90) \<or> (192 \<le> n \<and> n \<le> 222 \<and> n \<noteq> 215)
         then char_of (n + 32) else c)"

definition to_lower :: "string \<Rightarrow> string" where
  "to_lower s = map char_lower s"

definition trim_start :: "string \<Rightarrow> string" where
  "trim_start s = dropWhile is_ws s"

definition trim_end :: "string \<Rightarrow> string" where
  "trim_end s = rev (dropWhile is_ws (rev s))"

definition trim :: "string \<Rightarrow> string" where
  "trim s = trim_end (trim_start s)"

definition starts_with :: "string \<Rightarrow> string \<Rightarrow> bool" where
  "starts_with p s \<longleftrightarrow> take (length p) s = p"

definition ends_with :: "string \<Rightarrow> string \<Rightarrow> bool" where
  "ends_with p s \<longleftrightarrow> starts_with (rev p) (rev s)"

fun str_includes :: "string \<Rightarrow> string \<Rightarrow> bool" where
  "str_includes p [] = (p = [])"
| "str_includes p (c # s) = (starts_with p (c # s) \<or> str_includes p s)"

text \<open>\<open>indexOf\<close>, with \<open>None\<close> for the \<open>-1\<close> of an absent needle.\<close>

fun index_of :: "string \<Rightarrow> string \<Rightarrow> nat option" where
  "index_of p [] = (if p = [] then Some 0 else None)"
| "index_of p (c # s) =
     (if starts_with p (c # s) then Some 0 else map_option Suc (index_of p s))"

text \<open>\<open>split\<close> at one character: never empty, and an empty piece between two separators.\<close>

fun split_on :: "char \<Rightarrow> string \<Rightarrow> string list" where
  "split_on d [] = [[]]"
| "split_on d (c # cs) =
     (if c = d then [] # split_on d cs
      else case split_on d cs of [] \<Rightarrow> [[c]] | w # ws \<Rightarrow> (c # w) # ws)"

fun join_with :: "string \<Rightarrow> string list \<Rightarrow> string" where
  "join_with sep [] = []"
| "join_with sep [w] = w"
| "join_with sep (w # v # ws) = w @ sep @ join_with sep (v # ws)"

lemma split_on_nonempty [simp]: "split_on d s \<noteq> []"
  by (induction s) (auto split: list.splits)

lemma split_on_clean [js_simps]: "d \<notin> set w \<Longrightarrow> split_on d w = [w]"
  by (induction w) auto

lemma split_on_append [js_simps]:
  "d \<notin> set w \<Longrightarrow> split_on d (w @ d # s) = w # split_on d s"
  by (induction w) auto

lemma split_on_pieces: "w \<in> set (split_on d s) \<Longrightarrow> d \<notin> set w \<and> set w \<subseteq> set s"
proof (induction s arbitrary: w)
  case Nil
  then show ?case by simp
next
  case (Cons c cs)
  show ?case
  proof (cases "split_on d cs")
    case Nil
    then show ?thesis by simp
  next
    case (Cons v vs)
    then have "d \<notin> set v \<and> set v \<subseteq> set cs" using Cons.IH [of v] by simp
    moreover have "u \<in> set vs \<Longrightarrow> d \<notin> set u \<and> set u \<subseteq> set cs" for u
      using Cons.IH [of u] Cons by simp
    ultimately show ?thesis using Cons.prems Cons by (auto split: if_splits)
  qed
qed

lemma split_join [js_simps]:
  "ws \<noteq> [] \<Longrightarrow> \<forall>w \<in> set ws. d \<notin> set w \<Longrightarrow> split_on d (join_with [d] ws) = ws"
  by (induction "[d]" ws rule: join_with.induct) (auto simp: js_simps)

lemma join_split [js_simps]: "join_with [d] (split_on d s) = s"
proof (induction s)
  case Nil
  then show ?case by simp
next
  case (Cons c cs)
  obtain w ws where "split_on d cs = w # ws" by (cases "split_on d cs") auto
  with Cons show ?case by (cases ws) auto
qed

lemma set_join: "set (join_with sep ws) \<subseteq> set sep \<union> \<Union> (set ` set ws)"
  by (induction sep ws rule: join_with.induct) auto

lemma join_with_eq_Nil: "\<forall>w \<in> set ws. w \<noteq> [] \<Longrightarrow> join_with sep ws = [] \<longleftrightarrow> ws = []"
  by (induction sep ws rule: join_with.induct) auto

lemma starts_with_append [simp]: "starts_with p (p @ s)"
  by (simp add: starts_with_def)

lemma starts_with_iff: "starts_with p s \<longleftrightarrow> (\<exists>t. s = p @ t)"
  by (metis append_take_drop_id starts_with_append starts_with_def)

lemma index_of_bound: "index_of p s = Some i \<Longrightarrow> i + length p \<le> length s"
proof (induction s arbitrary: i)
  case (Cons c s)
  then show ?case
    by (auto split: if_splits simp: starts_with_def) (metis length_Cons length_take min.cobounded1)
qed (simp split: if_splits)

lemma dropWhile_none: "\<forall>x \<in> set xs. \<not> P x \<Longrightarrow> dropWhile P xs = xs"
  by (cases xs) auto

lemma trim_no_ws: "\<forall>c \<in> set s. \<not> is_ws c \<Longrightarrow> trim s = s"
  by (simp add: trim_def trim_start_def trim_end_def dropWhile_none)

lemma set_trim: "set (trim s) \<subseteq> set s"
  unfolding trim_def trim_start_def trim_end_def
  by (metis set_dropWhileD set_rev subsetI)

lemma dropWhile_idem: "dropWhile P (dropWhile P xs) = dropWhile P xs"
  by (induction xs) auto

lemma trim_end_prefix: "\<exists>t. s = trim_end s @ t"
  by (metis rev_append rev_rev_ident takeWhile_dropWhile_id trim_end_def)

lemma trim_idem [simp]: "trim (trim s) = trim s"
proof (cases "trim s")
  case Nil
  show ?thesis unfolding Nil by (simp add: trim_def trim_start_def trim_end_def)
next
  case (Cons c cs)
  obtain t where t: "trim_start s = trim s @ t" using trim_end_prefix [of "trim_start s"] by (auto simp: trim_def)
  then have "\<not> is_ws c"
    using Cons by (auto simp: trim_start_def dropWhile_eq_Cons_conv)
  then have "trim_start (trim s) = trim s" by (simp add: trim_start_def Cons)
  moreover have "trim_end (trim s) = trim s" by (simp add: trim_def trim_end_def dropWhile_idem)
  ultimately show ?thesis unfolding trim_def [of "trim s"] by simp
qed

section \<open>Lists\<close>

text \<open>\<open>[...new Set(xs)]\<close>: the first occurrence of each element, in order.\<close>

fun dedup :: "'a list \<Rightarrow> 'a list" where
  "dedup [] = []"
| "dedup (x # xs) = x # removeAll x (dedup xs)"

lemma set_dedup [simp]: "set (dedup xs) = set xs"
  by (induction xs) auto

lemma distinct_dedup [simp]: "distinct (dedup xs)"
  by (induction xs) (auto simp: distinct_removeAll)

lemma dedup_distinct [js_simps]: "distinct xs \<Longrightarrow> dedup xs = xs"
  by (induction xs) auto

text \<open>\<open>flatMap\<close> over an optional result, and \<open>indexOf\<close>/\<open>findIndex\<close> on arrays.\<close>

fun find_index :: "('a \<Rightarrow> bool) \<Rightarrow> 'a list \<Rightarrow> nat option" where
  "find_index P [] = None"
| "find_index P (x # xs) = (if P x then Some 0 else map_option Suc (find_index P xs))"

lemma find_index_bound: "find_index P xs = Some i \<Longrightarrow> i < length xs \<and> P (xs ! i)"
  by (induction xs arbitrary: i) (auto split: if_splits)

lemma find_Some_mem: "List.find P xs = Some x \<Longrightarrow> x \<in> set xs \<and> P x"
  by (induction xs) (auto split: if_splits)

lemma find_index_None: "find_index P xs = None \<longleftrightarrow> (\<forall>x \<in> set xs. \<not> P x)"
  by (induction xs) auto

text \<open>\<open>xs[i]\<close> on an array: \<open>None\<close> stands for the \<open>undefined\<close> of an index out of range.\<close>

definition at_index :: "'a list \<Rightarrow> nat \<Rightarrow> 'a option" where
  "at_index xs i = (if i < length xs then Some (xs ! i) else None)"

text \<open>A stable sort by a comparison, as \<open>Array.prototype.sort\<close> is.\<close>

fun insert_by :: "('a \<Rightarrow> 'a \<Rightarrow> bool) \<Rightarrow> 'a \<Rightarrow> 'a list \<Rightarrow> 'a list" where
  "insert_by le x [] = [x]"
| "insert_by le x (y # ys) = (if le x y then x # y # ys else y # insert_by le x ys)"

definition sort_by :: "('a \<Rightarrow> 'a \<Rightarrow> bool) \<Rightarrow> 'a list \<Rightarrow> 'a list" where
  "sort_by le xs = foldr (insert_by le) xs []"

lemma mset_insert_by [simp]: "mset (insert_by le x ys) = add_mset x (mset ys)"
  by (induction ys) auto

lemma mset_sort_by [simp]: "mset (sort_by le xs) = mset xs"
  by (induction xs) (simp_all add: sort_by_def)

lemma set_sort_by [simp]: "set (sort_by le xs) = set xs"
  by (metis mset_sort_by set_mset_mset)

lemma length_filter_mset: "mset xs = mset ys \<Longrightarrow> length (filter P xs) = length (filter P ys)"
  by (metis mset_filter size_mset)

lemma sorted_insert_by:
  assumes "\<And>a b c. le a b \<Longrightarrow> le b c \<Longrightarrow> le a c" and "\<And>a b. \<not> le a b \<Longrightarrow> le b a"
    and "sorted_wrt le ys"
  shows "sorted_wrt le (insert_by le x ys)"
  using assms(3)
proof (induction ys)
  case (Cons y ys)
  have "set (insert_by le x ys) = insert x (set ys)"
    by (metis mset_insert_by set_mset_add_mset_insert set_mset_mset)
  moreover have "sorted_wrt le (x # y # ys)" if "le x y"
    using that Cons.prems assms(1) by auto
  moreover have "le y x" if "\<not> le x y" using that assms(2) by blast
  ultimately show ?case using Cons by auto
qed simp

lemma sorted_sort_by:
  assumes "\<And>a b c. le a b \<Longrightarrow> le b c \<Longrightarrow> le a c" and "\<And>a b. \<not> le a b \<Longrightarrow> le b a"
  shows "sorted_wrt le (sort_by le xs)"
proof (induction xs)
  case Nil
  show ?case by (simp add: sort_by_def)
next
  case (Cons x xs)
  have "sorted_wrt le (insert_by le x (sort_by le xs))"
    by (rule sorted_insert_by [OF _ _ Cons.IH]) (fact assms(1), fact assms(2))
  then show ?case by (simp add: sort_by_def)
qed

text \<open>\<open>Map.set\<close>: in place when the key is there, at the end when it is new.\<close>

fun map_put :: "'k \<Rightarrow> 'v \<Rightarrow> ('k \<times> 'v) list \<Rightarrow> ('k \<times> 'v) list" where
  "map_put k v [] = [(k, v)]"
| "map_put k v ((j, w) # ps) = (if j = k then (k, v) # ps else (j, w) # map_put k v ps)"

lemma map_put_keys: "fst ` set (map_put k v ps) = insert k (fst ` set ps)"
  by (induction k v ps rule: map_put.induct) auto

lemma map_put_distinct: "distinct (map fst ps) \<Longrightarrow> distinct (map fst (map_put k v ps))"
proof (induction k v ps rule: map_put.induct)
  case (2 k v j w ps)
  then show ?case using map_put_keys [of k v ps] by auto
qed simp

lemma map_put_lookup: "map_of (map_put k v ps) = (map_of ps)(k \<mapsto> v)"
  by (induction k v ps rule: map_put.induct) auto

section \<open>Numbers\<close>

datatype jsnum = NaN | PosInf | NegInf | Fin rat

definition digit_val :: "char \<Rightarrow> nat" where
  "digit_val c = of_char c - 48"

definition digits_val :: "string \<Rightarrow> nat" where
  "digits_val s = foldl (\<lambda>n c. 10 * n + digit_val c) 0 s"

text \<open>\<open>String(n)\<close> of an integer below 1e21.\<close>

definition digit_char :: "nat \<Rightarrow> char" where
  "digit_char d = ''0123456789'' ! d"

fun nat_str :: "nat \<Rightarrow> string" where
  "nat_str n = (if n < 10 then [digit_char n] else nat_str (n div 10) @ [digit_char (n mod 10)])"

declare nat_str.simps [simp del]

definition int_str :: "int \<Rightarrow> string" where
  "int_str i = (if i < 0 then CHR ''-'' # nat_str (nat (- i)) else nat_str (nat i))"

lemma less_10_cases:
  "(d::nat) < 10 \<Longrightarrow> d = 0 \<or> d = 1 \<or> d = 2 \<or> d = 3 \<or> d = 4 \<or> d = 5 \<or> d = 6 \<or> d = 7 \<or> d = 8 \<or> d = 9"
  by arith

lemma is_digit_char_of: "d < 10 \<Longrightarrow> is_digit (digit_char d)"
  by (drule less_10_cases) (elim disjE; simp add: is_digit_def digit_char_def)

lemma digit_val_char_of: "d < 10 \<Longrightarrow> digit_val (digit_char d) = d"
  by (drule less_10_cases) (elim disjE; simp add: digit_val_def digit_char_def)

lemma nat_str_digits: "c \<in> set (nat_str n) \<Longrightarrow> is_digit c"
proof (induction n rule: nat_str.induct)
  case (1 n)
  then show ?case
    by (subst (asm) nat_str.simps) (auto split: if_splits simp: is_digit_char_of)
qed

lemma nat_str_nonempty [simp]: "nat_str n \<noteq> []"
  by (subst nat_str.simps) simp

lemma digits_val_nat_str [simp]: "digits_val (nat_str n) = n"
proof (induction n rule: nat_str.induct)
  case (1 n)
  show ?case
  proof (cases "n < 10")
    case True
    then show ?thesis by (simp add: nat_str.simps [of n] digits_val_def digit_val_char_of)
  next
    case False
    then have "digits_val (nat_str (n div 10)) = n div 10" using 1 by simp
    with False show ?thesis
      by (simp add: nat_str.simps [of n] digits_val_def digit_val_char_of)
  qed
qed

lemma int_str_nonempty [simp]: "int_str i \<noteq> []"
  by (simp add: int_str_def)

text \<open>
  \<open>Number(s)\<close>: white space around is ignored, the empty string is 0, and a decimal literal
  has a sign, digits with an optional point and an optional exponent. The literals in
  base 2, 8 and 16 take no sign. Anything else is \<open>NaN\<close>.
\<close>

definition exponent_of :: "string \<Rightarrow> int option" where
  "exponent_of s =
     (case s of [] \<Rightarrow> Some 0
      | c # r \<Rightarrow>
          if c = CHR ''e'' \<or> c = CHR ''E'' then
            (let neg = starts_with ''-'' r;
                 ds = (if neg \<or> starts_with ''+'' r then tl r else r)
             in if ds \<noteq> [] \<and> list_all is_digit ds
                then Some (if neg then - int (digits_val ds) else int (digits_val ds))
                else None)
          else None)"

definition scale10 :: "nat \<Rightarrow> int \<Rightarrow> rat" where
  "scale10 m e = (if 0 \<le> e then of_nat m * 10 ^ nat e else of_nat m / 10 ^ nat (- e))"

definition unsigned_decimal :: "string \<Rightarrow> jsnum" where
  "unsigned_decimal s =
     (if s = ''Infinity'' then PosInf
      else
        let i = takeWhile is_digit s; r = dropWhile is_digit s;
            pt = starts_with ''.'' r;
            f = (if pt then takeWhile is_digit (tl r) else []);
            r' = (if pt then dropWhile is_digit (tl r) else r)
        in if i = [] \<and> f = [] then NaN
           else case exponent_of r' of None \<Rightarrow> NaN
                | Some e \<Rightarrow> Fin (scale10 (digits_val (i @ f)) (e - int (length f))))"

definition neg_num :: "jsnum \<Rightarrow> jsnum" where
  "neg_num x = (case x of NaN \<Rightarrow> NaN | PosInf \<Rightarrow> NegInf | NegInf \<Rightarrow> PosInf | Fin q \<Rightarrow> Fin (- q))"

definition hex_val :: "char \<Rightarrow> nat option" where
  "hex_val c = find_index (\<lambda>d. d = char_lower c) ''0123456789abcdef''"

fun radix_val :: "nat \<Rightarrow> nat \<Rightarrow> string \<Rightarrow> nat option" where
  "radix_val b acc [] = Some acc"
| "radix_val b acc (c # cs) =
     (case hex_val c of None \<Rightarrow> None
      | Some d \<Rightarrow> if d < b then radix_val b (b * acc + d) cs else None)"

definition radix_literal :: "nat \<Rightarrow> string \<Rightarrow> jsnum" where
  "radix_literal b s =
     (if s = [] then NaN
      else case radix_val b 0 s of None \<Rightarrow> NaN | Some n \<Rightarrow> Fin (of_nat n))"

definition js_Number :: "string \<Rightarrow> jsnum" where
  "js_Number s =
     (let t = trim s in
      case t of
        [] \<Rightarrow> Fin 0
      | c # r \<Rightarrow>
          let p = to_lower (take 2 t) in
          if p = ''0x'' then radix_literal 16 (drop 2 t)
          else if p = ''0o'' then radix_literal 8 (drop 2 t)
          else if p = ''0b'' then radix_literal 2 (drop 2 t)
          else if c = CHR ''-'' then neg_num (unsigned_decimal r)
          else if c = CHR ''+'' then unsigned_decimal r
          else unsigned_decimal t)"

text \<open>\<open>Number.isInteger\<close>, giving the integer.\<close>

definition as_integer :: "jsnum \<Rightarrow> int option" where
  "as_integer x =
     (case x of Fin q \<Rightarrow> if q = of_int \<lfloor>q\<rfloor> then Some \<lfloor>q\<rfloor> else None | _ \<Rightarrow> None)"

text \<open>\<open>Math.round\<close>: halves go up.\<close>

definition js_round :: "rat \<Rightarrow> int" where
  "js_round x = \<lfloor>x + 1 / 2\<rfloor>"

lemma is_digit_facts:
  assumes "is_digit c"
  shows "\<not> is_ws c" "c \<noteq> CHR ''-''" "c \<noteq> CHR ''+''" "c \<noteq> CHR ''x''" "c \<noteq> CHR ''.''"
    "char_lower c = c" "c \<noteq> CHR ''o''" "c \<noteq> CHR ''b''" "c \<noteq> CHR ''I''" "c \<noteq> CHR '',''"
    "c \<noteq> CHR ''\"''" "c \<noteq> CHR 0x5C"
  using assms by (auto simp: is_digit_def is_ws_def char_lower_def)

lemma unsigned_decimal_nat_str: "unsigned_decimal (nat_str n) = Fin (of_nat n)"
proof -
  have d: "\<forall>c \<in> set (nat_str n). is_digit c" by (auto dest: nat_str_digits)
  then have tk: "takeWhile is_digit (nat_str n) = nat_str n" "dropWhile is_digit (nat_str n) = []"
    by (simp_all add: takeWhile_eq_all_conv dropWhile_eq_Nil_conv)
  have "nat_str n \<noteq> ''Infinity''" using d is_digit_facts(9) by fastforce
  then show ?thesis
    by (simp add: tk unsigned_decimal_def Let_def starts_with_def exponent_of_def scale10_def)
qed

lemma js_Number_minus:
  assumes "trim s = CHR ''-'' # r"
  shows "js_Number s = neg_num (unsigned_decimal r)"
proof -
  have "char_lower (CHR ''-'') = CHR ''-''" by (simp add: char_lower_def)
  then show ?thesis by (simp add: js_Number_def assms to_lower_def)
qed

lemma digits_no_radix:
  assumes "\<forall>c \<in> set u. is_digit c"
  shows "u \<noteq> ''0x''" "u \<noteq> ''0o''" "u \<noteq> ''0b''"
proof -
  have "\<not> is_digit (CHR ''x'')" "\<not> is_digit (CHR ''o'')" "\<not> is_digit (CHR ''b'')"
    by (simp_all add: is_digit_def)
  with assms show "u \<noteq> ''0x''" "u \<noteq> ''0o''" "u \<noteq> ''0b''"
    by (metis list.set_intros)+
qed

lemma js_Number_digits:
  assumes t: "trim s = s" and s: "s \<noteq> []" and d: "\<forall>c \<in> set s. is_digit c"
  shows "js_Number s = unsigned_decimal s"
proof -
  obtain c r where cr: "s = c # r" using s by (cases s) auto
  have dt: "\<forall>c \<in> set (take 2 s). is_digit c" using d by (meson in_set_takeD)
  then have l: "to_lower (take 2 s) = take 2 s"
    unfolding to_lower_def by (intro map_idI) (blast intro: is_digit_facts(6))
  note nr = digits_no_radix [OF dt]
  have c: "c \<noteq> CHR ''-''" "c \<noteq> CHR ''+''"
    using d cr by (simp_all add: is_digit_facts)
  show ?thesis
    unfolding js_Number_def Let_def t l
    unfolding if_not_P [OF nr(1)] if_not_P [OF nr(2)] if_not_P [OF nr(3)]
    using c by (simp add: cr)
qed

lemma js_Number_int_str [js_simps]: "js_Number (int_str i) = Fin (of_int i)"
proof -
  have d: "\<forall>c \<in> set (nat_str m). is_digit c" for m by (auto dest: nat_str_digits)
  have nw: "\<forall>c \<in> set (nat_str m). \<not> is_ws c" for m using d is_digit_facts(1) by blast
  show ?thesis
  proof (cases "i < 0")
    case True
    then have s: "int_str i = CHR ''-'' # nat_str (nat (- i))" by (simp add: int_str_def)
    have "\<forall>c \<in> set (int_str i). \<not> is_ws c"
      unfolding s using nw by (simp add: is_ws_def)
    then have "trim (int_str i) = CHR ''-'' # nat_str (nat (- i))"
      using trim_no_ws s by metis
    then have "js_Number (int_str i) = neg_num (unsigned_decimal (nat_str (nat (- i))))"
      by (rule js_Number_minus)
    with True show ?thesis by (simp add: unsigned_decimal_nat_str neg_num_def)
  next
    case False
    then have s: "int_str i = nat_str (nat i)" by (simp add: int_str_def)
    have "js_Number (nat_str (nat i)) = unsigned_decimal (nat_str (nat i))"
      by (rule js_Number_digits) (use d nw in \<open>simp_all add: trim_no_ws\<close>)
    with False s show ?thesis by (simp add: unsigned_decimal_nat_str)
  qed
qed

section \<open>Values of type unknown\<close>

datatype jv =
    JUndef
  | JNull
  | JBool bool
  | JNum jsnum
  | JStr string
  | JArr "jv list"
  | JObj "(string \<times> jv) list"

text \<open>Property access on a value that is not \<open>null\<close> or \<open>undefined\<close>.\<close>

definition pget :: "string \<Rightarrow> jv \<Rightarrow> jv" where
  "pget k v = (case v of JObj ps \<Rightarrow> (case map_of ps k of None \<Rightarrow> JUndef | Some w \<Rightarrow> w) | _ \<Rightarrow> JUndef)"

definition truthy :: "jv \<Rightarrow> bool" where
  "truthy v = (case v of JUndef \<Rightarrow> False | JNull \<Rightarrow> False | JBool b \<Rightarrow> b
     | JNum x \<Rightarrow> x \<noteq> NaN \<and> x \<noteq> Fin 0 | JStr s \<Rightarrow> s \<noteq> [] | JArr _ \<Rightarrow> True | JObj _ \<Rightarrow> True)"

text \<open>\<open>value && typeof value === 'object'\<close>: an array or an object, not \<open>null\<close>.\<close>

definition is_object :: "jv \<Rightarrow> bool" where
  "is_object v = (case v of JArr _ \<Rightarrow> True | JObj _ \<Rightarrow> True | _ \<Rightarrow> False)"

text \<open>
  \<open>String(v)\<close>. The decimal expansion of a number is exact: it is what JavaScript prints for
  magnitudes from 1e-6 up to 1e21 with at most 15 significant digits. An array joins its
  elements with commas, \<open>null\<close> and \<open>undefined\<close> among them printing as nothing.
\<close>

fun frac_digits :: "nat \<Rightarrow> rat \<Rightarrow> string" where
  "frac_digits 0 r = []"
| "frac_digits (Suc n) r =
     (if r = 0 then []
      else let d = nat \<lfloor>10 * r\<rfloor> in digit_char d # frac_digits n (10 * r - of_nat d))"

definition num_str :: "jsnum \<Rightarrow> string" where
  "num_str x =
     (case x of NaN \<Rightarrow> ''NaN'' | PosInf \<Rightarrow> ''Infinity'' | NegInf \<Rightarrow> ''-Infinity''
      | Fin q \<Rightarrow>
          if q = of_int \<lfloor>q\<rfloor> then int_str \<lfloor>q\<rfloor>
          else (if q < 0 then ''-'' else []) @ nat_str (nat \<lfloor>\<bar>q\<bar>\<rfloor>) @ ''.'' @
               frac_digits 17 (\<bar>q\<bar> - of_int \<lfloor>\<bar>q\<bar>\<rfloor>))"

lemma num_str_int [simp]: "num_str (Fin (of_int i)) = int_str i"
  by (simp add: num_str_def)

fun js_str :: "jv \<Rightarrow> string" where
  "js_str JUndef = ''undefined''"
| "js_str JNull = ''null''"
| "js_str (JBool b) = (if b then ''true'' else ''false'')"
| "js_str (JNum x) = num_str x"
| "js_str (JStr s) = s"
| "js_str (JArr vs) =
     join_with '','' (map (\<lambda>v. if v = JUndef \<or> v = JNull then [] else js_str v) vs)"
| "js_str (JObj _) = ''[object Object]''"

text \<open>\<open>Array.join\<close>: \<open>null\<close> and \<open>undefined\<close> print as nothing.\<close>

definition join_jvs :: "string \<Rightarrow> jv list \<Rightarrow> string" where
  "join_jvs sep vs = join_with sep (map (\<lambda>v. if v = JUndef \<or> v = JNull then [] else js_str v) vs)"

section \<open>Splitting at a string, replacing a character\<close>

text \<open>\<open>split\<close> at a non-empty separator string, and \<open>replace\<close> of every occurrence of a character.\<close>

function split_str :: "string \<Rightarrow> string \<Rightarrow> string list" where
  "split_str sep s =
     (case index_of sep s of None \<Rightarrow> [s]
      | Some i \<Rightarrow> if sep = [] then [s]
                  else take i s # split_str sep (drop (i + length sep) s))"
  by pat_completeness auto
termination
  by (relation "measure (\<lambda>(sep, s). length s)") (auto dest!: index_of_bound simp flip: length_greater_0_conv)

declare split_str.simps [simp del]

definition replace_char :: "char \<Rightarrow> string \<Rightarrow> string \<Rightarrow> string" where
  "replace_char d r s = concat (map (\<lambda>c. if c = d then r else [c]) s)"

section \<open>Exceptions\<close>

datatype js_exn = TypeError | RangeError | SyntaxError | OtherExn

fun sbind :: "'e + 'a \<Rightarrow> ('a \<Rightarrow> 'e + 'b) \<Rightarrow> 'e + 'b" where
  "sbind (Inl e) f = Inl e"
| "sbind (Inr a) f = f a"

text \<open>
  Reading a key of an object literal that inherits from \<open>Object.prototype\<close>: an inherited
  name that is no own property still yields a value, and a truthy one.
\<close>

definition OBJECT_PROTOTYPE :: "string list" where
  "OBJECT_PROTOTYPE =
     [''constructor'', ''__defineGetter__'', ''__defineSetter__'', ''hasOwnProperty'',
      ''__lookupGetter__'', ''__lookupSetter__'', ''isPrototypeOf'', ''propertyIsEnumerable'',
      ''toString'', ''valueOf'', ''__proto__'', ''toLocaleString'']"

datatype 'a lookup = Own 'a | Inherited | Missing

definition obj_lookup :: "(string \<times> 'a) list \<Rightarrow> string \<Rightarrow> 'a lookup" where
  "obj_lookup ps k =
     (case map_of ps k of Some v \<Rightarrow> Own v
      | None \<Rightarrow> if k \<in> set OBJECT_PROTOTYPE then Inherited else Missing)"

text \<open>Writing a key of an object: in place when it is there, at the end when it is new.\<close>

fun obj_put :: "string \<Rightarrow> 'a \<Rightarrow> (string \<times> 'a) list \<Rightarrow> (string \<times> 'a) list" where
  "obj_put k v [] = [(k, v)]"
| "obj_put k v ((j, w) # ps) = (if j = k then (k, v) # ps else (j, w) # obj_put k v ps)"

lemma map_of_obj_put [js_simps]: "map_of (obj_put k v ps) = (map_of ps)(k \<mapsto> v)"
  by (induction k v ps rule: obj_put.induct) auto

lemma keys_obj_put: "set (map fst (obj_put k v ps)) = insert k (set (map fst ps))"
  by (induction k v ps rule: obj_put.induct) auto

lemma distinct_obj_put: "distinct (map fst ps) \<Longrightarrow> distinct (map fst (obj_put k v ps))"
proof (induction k v ps rule: obj_put.induct)
  case (2 k v j w ps)
  then show ?case using keys_obj_put [of k v ps] by auto
qed simp

definition from_entries :: "(string \<times> 'a) list \<Rightarrow> (string \<times> 'a) list" where
  "from_entries es = foldl (\<lambda>ps (k, v). obj_put k v ps) [] es"

end
