(* ===== verification/ClientErrors.thy ===== *)
theory ClientErrors
  imports JsBase
begin

text \<open>
  \<open>packages/client/src/errors.ts\<close> and \<open>result.ts\<close>: the closed error union, one
  constructor for each \<open>kind\<close>, the field errors it may carry, and the \<open>Result\<close> type.
  A \<open>message\<close> is a \<open>jv\<close>: the code copies it out of an unvalidated body, so at run time
  it need not be a string.
\<close>

section \<open>Field errors\<close>

datatype field_error_code = Required | Invalid | Already_exists | Too_short | Too_long | Custom

definition FIELD_ERROR_CODES :: "(string \<times> field_error_code) list" where
  "FIELD_ERROR_CODES =
     [(''required'', Required), (''invalid'', Invalid), (''already_exists'', Already_exists),
      (''too_short'', Too_short), (''too_long'', Too_long), (''custom'', Custom)]"

record field_error =
  fe_field :: string
  fe_code :: field_error_code
  fe_message :: "string option"

section \<open>The error union\<close>

datatype network_reason = Timeout | Unreachable

datatype rustrak_error =
    Validation int jv "field_error list option"
  | Unauthenticated int jv "field_error list option"
  | Forbidden int jv "field_error list option"
  | Not_found int jv "field_error list option"
  | Conflict int jv "field_error list option"
  | Gone int jv "field_error list option"
  | Payload_too_large int jv "field_error list option"
  | Rate_limited int jv "int option" "field_error list option"
  | Client_error int jv "field_error list option"
  | Invalid_request jv
  | Server_error int jv "string option"
  | Network jv network_reason
  | Invalid_response jv

datatype error_kind =
    K_validation | K_unauthenticated | K_forbidden | K_not_found | K_conflict | K_gone
  | K_payload_too_large | K_rate_limited | K_client_error | K_invalid_request
  | K_server_error | K_network | K_invalid_response

fun err_kind :: "rustrak_error \<Rightarrow> error_kind" where
  "err_kind (Validation _ _ _) = K_validation"
| "err_kind (Unauthenticated _ _ _) = K_unauthenticated"
| "err_kind (Forbidden _ _ _) = K_forbidden"
| "err_kind (Not_found _ _ _) = K_not_found"
| "err_kind (Conflict _ _ _) = K_conflict"
| "err_kind (Gone _ _ _) = K_gone"
| "err_kind (Payload_too_large _ _ _) = K_payload_too_large"
| "err_kind (Rate_limited _ _ _ _) = K_rate_limited"
| "err_kind (Client_error _ _ _) = K_client_error"
| "err_kind (Invalid_request _) = K_invalid_request"
| "err_kind (Server_error _ _ _) = K_server_error"
| "err_kind (Network _ _) = K_network"
| "err_kind (Invalid_response _) = K_invalid_response"

fun err_message :: "rustrak_error \<Rightarrow> jv" where
  "err_message (Validation _ m _) = m"
| "err_message (Unauthenticated _ m _) = m"
| "err_message (Forbidden _ m _) = m"
| "err_message (Not_found _ m _) = m"
| "err_message (Conflict _ m _) = m"
| "err_message (Gone _ m _) = m"
| "err_message (Payload_too_large _ m _) = m"
| "err_message (Rate_limited _ m _ _) = m"
| "err_message (Client_error _ m _) = m"
| "err_message (Invalid_request m) = m"
| "err_message (Server_error _ m _) = m"
| "err_message (Network m _) = m"
| "err_message (Invalid_response m) = m"

text \<open>\<open>'fields' in error\<close>: the key is absent, not \<open>undefined\<close>, when there are none.\<close>

fun err_fields :: "rustrak_error \<Rightarrow> field_error list option" where
  "err_fields (Validation _ _ f) = f"
| "err_fields (Unauthenticated _ _ f) = f"
| "err_fields (Forbidden _ _ f) = f"
| "err_fields (Not_found _ _ f) = f"
| "err_fields (Conflict _ _ f) = f"
| "err_fields (Gone _ _ f) = f"
| "err_fields (Payload_too_large _ _ f) = f"
| "err_fields (Rate_limited _ _ _ f) = f"
| "err_fields (Client_error _ _ f) = f"
| "err_fields _ = None"

fun err_status :: "rustrak_error \<Rightarrow> int option" where
  "err_status (Validation s _ _) = Some s"
| "err_status (Unauthenticated s _ _) = Some s"
| "err_status (Forbidden s _ _) = Some s"
| "err_status (Not_found s _ _) = Some s"
| "err_status (Conflict s _ _) = Some s"
| "err_status (Gone s _ _) = Some s"
| "err_status (Payload_too_large s _ _) = Some s"
| "err_status (Rate_limited s _ _ _) = Some s"
| "err_status (Client_error s _ _) = Some s"
| "err_status (Server_error s _ _) = Some s"
| "err_status _ = None"

definition SERVER_ERROR_MESSAGE :: string where
  "SERVER_ERROR_MESSAGE = ''The server failed to handle the request.''"

definition NETWORK_ERROR_MESSAGE :: string where
  "NETWORK_ERROR_MESSAGE = ''The request could not reach the server.''"

definition TIMEOUT_ERROR_MESSAGE :: string where
  "TIMEOUT_ERROR_MESSAGE = ''The request timed out.''"

definition isRetryable :: "rustrak_error \<Rightarrow> bool" where
  "isRetryable e \<longleftrightarrow>
     err_kind e = K_network \<or> err_kind e = K_server_error \<or> err_kind e = K_rate_limited"

section \<open>Results\<close>

datatype ('t, 'e) result = Ok 't | Err 'e

definition unwrapOr :: "('t, 'e) result \<Rightarrow> 't \<Rightarrow> 't" where
  "unwrapOr r fallback = (case r of Ok d \<Rightarrow> d | Err _ \<Rightarrow> fallback)"

definition mapResult :: "('t, 'e) result \<Rightarrow> ('t \<Rightarrow> 'u) \<Rightarrow> ('u, 'e) result" where
  "mapResult r fn = (case r of Ok d \<Rightarrow> Ok (fn d) | Err e \<Rightarrow> Err e)"

lemma mapResult_comp: "mapResult (mapResult r f) g = mapResult r (g \<circ> f)"
  by (cases r) (simp_all add: mapResult_def)

end
