(* ===== verification/ClientHttp.thy ===== *)
theory ClientHttp
  imports ClientErrors
begin

text \<open>
  \<open>packages/client/src/utils/http.ts\<close> and the \<open>toResult\<close> boundary of \<open>client.ts\<close>.

  The module-level set \<open>warnedFieldErrorCodes\<close> and the console are a state that is passed
  along. \<open>Date.parse\<close> on a header that is not ISO 8601 is left to the engine by the
  language standard, so it is the parameter \<open>date_parse\<close> (\<open>None\<close> is \<open>NaN\<close>); \<open>now\<close> is
  \<open>Date.now()\<close>. The network is a function from the number of a try to what that try meets.
\<close>

section \<open>Reading an error body\<close>

text \<open>\<open>readErrorMessage\<close>: the result is the value found, which need not be a string.\<close>

definition js_or :: "jv \<Rightarrow> jv \<Rightarrow> jv" where
  "js_or a b = (if truthy a then a else b)"

definition readErrorMessage :: "jv \<Rightarrow> int \<Rightarrow> jv" where
  "readErrorMessage body status =
     (let fallback = JStr (''HTTP '' @ int_str status @ '' error'') in
      if is_object body then
        (let error = pget ''error'' body;
             message = pget ''message'' body;
             nested = (if is_object error \<or> error = JNull then pget ''message'' error else error)
         in js_or (js_or nested message) fallback)
      else fallback)"

record warn_state =
  warned :: "string list"
  console :: "(string \<times> string) list"

definition warnUnknownFieldErrorCode :: "string \<Rightarrow> string \<Rightarrow> warn_state \<Rightarrow> warn_state" where
  "warnUnknownFieldErrorCode c f w =
     (if c \<in> set (warned w) then w
      else w\<lparr>warned := warned w @ [c], console := console w @ [(c, f)]\<rparr>)"

definition readIncidentId :: "jv \<Rightarrow> string option" where
  "readIncidentId body =
     (let raw = (if is_object body then pget ''incident_id'' (pget ''error'' body) else JUndef)
      in case raw of JStr s \<Rightarrow> (if s \<noteq> [] then Some s else None) | _ \<Rightarrow> None)"

definition readFieldError :: "jv \<Rightarrow> warn_state \<Rightarrow> field_error option \<times> warn_state" where
  "readFieldError entry w =
     (if \<not> is_object entry then (None, w)
      else case pget ''field'' entry of
        JStr f \<Rightarrow>
          (case pget ''code'' entry of
             JStr c \<Rightarrow>
               (case map_of FIELD_ERROR_CODES c of
                  None \<Rightarrow> (None, warnUnknownFieldErrorCode c f w)
                | Some k \<Rightarrow>
                    (case pget ''message'' entry of
                       JStr m \<Rightarrow>
                         (Some \<lparr>fe_field = f, fe_code = k,
                                fe_message = (if k = Custom then Some m else None)\<rparr>, w)
                     | _ \<Rightarrow> (Some \<lparr>fe_field = f, fe_code = k, fe_message = None\<rparr>, w)))
           | _ \<Rightarrow> (None, w))
      | _ \<Rightarrow> (None, w))"

fun readFieldEntries :: "jv list \<Rightarrow> warn_state \<Rightarrow> field_error list \<times> warn_state" where
  "readFieldEntries [] w = ([], w)"
| "readFieldEntries (e # es) w =
     (let (r, w1) = readFieldError e w; (rs, w2) = readFieldEntries es w1
      in (case r of None \<Rightarrow> rs | Some x \<Rightarrow> x # rs, w2))"

definition readFieldErrors :: "jv \<Rightarrow> warn_state \<Rightarrow> field_error list option \<times> warn_state" where
  "readFieldErrors body w =
     (let raw = (if is_object body then pget ''fields'' (pget ''error'' body) else JUndef)
      in case raw of
           JArr es \<Rightarrow>
             (let (fs, w') = readFieldEntries es w in (if fs \<noteq> [] then Some fs else None, w'))
         | _ \<Rightarrow> (None, w))"

record response =
  r_status :: int
  r_headers :: "(string \<times> string) list"
  r_body :: "string option"

text \<open>Header names are held in lower case, as \<open>Headers\<close> compares them.\<close>

definition readRetryAfter :: "(string \<Rightarrow> int option) \<Rightarrow> int \<Rightarrow> response \<Rightarrow> int option" where
  "readRetryAfter date_parse now r =
     (case map_option trim (map_of (r_headers r) ''retry-after'') of
        None \<Rightarrow> None
      | Some h \<Rightarrow>
          if h = [] then None
          else if list_all is_digit h then Some (int (digits_val h))
          else if hd h \<in> {CHR ''+'', CHR ''-''} \<and> tl h \<noteq> [] \<and> list_all is_digit (tl h) then None
          else case date_parse h of
                 None \<Rightarrow> None
               | Some d \<Rightarrow> Some (max 0 (- ((now - d) div 1000))))"

definition transformHttpError ::
  "(string \<Rightarrow> int option) \<Rightarrow> int \<Rightarrow> response \<Rightarrow> jv \<Rightarrow> warn_state \<Rightarrow> rustrak_error \<times> warn_state"
where
  "transformHttpError date_parse now r body w =
     (let status = r_status r in
      if 500 \<le> status then
        (Server_error status (JStr SERVER_ERROR_MESSAGE) (readIncidentId body), w)
      else
        let message = readErrorMessage body status;
            (fields, w') = readFieldErrors body w
        in (if status = 400 then Validation status message fields
            else if status = 401 then Unauthenticated status message fields
            else if status = 403 then Forbidden status message fields
            else if status = 404 then Not_found status message fields
            else if status = 409 then Conflict status message fields
            else if status = 410 then Gone status message fields
            else if status = 413 then Payload_too_large status message fields
            else if status = 429 then
              Rate_limited status message (readRetryAfter date_parse now r) fields
            else Client_error status message fields, w'))"

section \<open>The fetch every request goes through\<close>

definition NULL_BODY :: "int list" where "NULL_BODY = [101, 103, 204, 205, 304]"

definition RETRY_STATUSES :: "int list" where "RETRY_STATUSES = [408, 500, 502, 503, 504]"

definition RETRY_METHODS :: "string list" where
  "RETRY_METHODS = [''GET'', ''HEAD'', ''PUT'', ''DELETE'']"

text \<open>
  What one try meets: a response with its body, or a rejection of \<open>fetch\<close> or of reading
  the body, with whether it is a \<open>TimeoutError\<close> and whether the caller's own signal is
  aborted by then. A status from outside 200 to 599 is one \<open>new Response\<close> throws a \<open>RangeError\<close> for,
  inside the same \<open>try\<close>; when the caller's signal is aborted just then, the try is \<open>Rejects False True\<close>.
\<close>

datatype fetch_try =
    Responds response
  | Rejects bool bool  \<comment> \<open>is a TimeoutError; \<open>request.signal.aborted\<close>\<close>

datatype attempt_outcome = Got response | Failed network_reason | Aborted

definition attempt :: "fetch_try \<Rightarrow> attempt_outcome" where
  "attempt t =
     (case t of
        Responds r \<Rightarrow>
          if r_status r < 200 \<or> 599 < r_status r then Failed Unreachable
          else Got (r\<lparr>r_body := (if r_status r \<in> set NULL_BODY then None else r_body r),
                      r_headers := filter (\<lambda>(k, _). k \<noteq> ''content-length'') (r_headers r)\<rparr>)
      | Rejects is_timeout aborted \<Rightarrow>
          if aborted then Aborted else if is_timeout then Failed Timeout else Failed Unreachable)"

datatype fetch_end = Returned response | Transport_failure rustrak_error | Rethrown

definition network_error :: "network_reason \<Rightarrow> rustrak_error" where
  "network_error reason =
     Network (JStr (case reason of Timeout \<Rightarrow> TIMEOUT_ERROR_MESSAGE
                    | Unreachable \<Rightarrow> NETWORK_ERROR_MESSAGE)) reason"

definition sleep_ms :: "nat \<Rightarrow> nat" where
  "sleep_ms n = 300 * 2 ^ n"

definition retryable_outcome :: "attempt_outcome \<Rightarrow> bool" where
  "retryable_outcome out =
     (case out of Got r \<Rightarrow> r_status r \<in> set RETRY_STATUSES
      | Failed reason \<Rightarrow> reason = Unreachable | Aborted \<Rightarrow> False)"

definition settle_attempt :: "attempt_outcome \<Rightarrow> fetch_end" where
  "settle_attempt out =
     (case out of Got r \<Rightarrow> Returned r | Failed reason \<Rightarrow> Transport_failure (network_error reason)
      | Aborted \<Rightarrow> Rethrown)"

text \<open>The loop from try \<open>n\<close> on: how it ends, and the delays it slept, in order.\<close>

function fetch_loop :: "nat \<Rightarrow> (nat \<Rightarrow> fetch_try) \<Rightarrow> nat \<Rightarrow> fetch_end \<times> nat list" where
  "fetch_loop retries env n =
     (let out = attempt (env n) in
      if n < retries \<and> retryable_outcome out
      then (let (e, ds) = fetch_loop retries env (Suc n) in (e, sleep_ms n # ds))
      else (settle_attempt out, []))"
  by pat_completeness auto
termination
  by (relation "measure (\<lambda>(retries, env, n). retries - n)") auto

declare fetch_loop.simps [simp del]

record client_config =
  cfg_timeout :: "nat option"
  cfg_maxRetries :: "nat option"

definition createFetch ::
  "client_config \<Rightarrow> string \<Rightarrow> (nat \<Rightarrow> fetch_try) \<Rightarrow> fetch_end \<times> nat list" where
  "createFetch cfg request_method env =
     (let maxRetries = (case cfg_maxRetries cfg of None \<Rightarrow> 2 | Some n \<Rightarrow> n);
          retries = (if request_method \<in> set RETRY_METHODS then maxRetries else 0)
      in fetch_loop retries env 0)"

section \<open>The boundary: toResult\<close>

text \<open>
  What the generated client puts in \<open>error\<close>. The parsed body is a plain value; the others
  are \<open>Error\<close> instances, of which only the own property \<open>message\<close> can be read as data.
\<close>

datatype gen_error =
    Plain jv
  | Transport rustrak_error
  | Zod_error string
  | Syntax_error string
  | Other_error string

fun error_value :: "gen_error \<Rightarrow> jv" where
  "error_value (Plain v) = v"
| "error_value (Transport e) = JObj [(''message'', err_message e)]"
| "error_value (Zod_error m) = JObj [(''message'', JStr m)]"
| "error_value (Syntax_error m) = JObj [(''message'', JStr m)]"
| "error_value (Other_error m) = JObj [(''message'', JStr m)]"

definition response_ok :: "response \<Rightarrow> bool" where
  "response_ok r \<longleftrightarrow> 200 \<le> r_status r \<and> r_status r \<le> 299"

text \<open>\<open>Inl\<close> is the final \<open>throw error\<close>.\<close>

definition toResult ::
  "(string \<Rightarrow> int option) \<Rightarrow> int \<Rightarrow> 'd \<Rightarrow> gen_error \<Rightarrow> response option \<Rightarrow> warn_state \<Rightarrow>
   (gen_error + ('d, rustrak_error) result) \<times> warn_state" where
  "toResult date_parse now d err resp w =
     (if err = Plain JUndef then (Inr (Ok d), w)
      else case err of
        Transport e \<Rightarrow> (Inr (Err e), w)
      | _ \<Rightarrow>
        (case resp of
           Some r \<Rightarrow>
             if \<not> response_ok r then
               (let (e, w') = transformHttpError date_parse now r (error_value err) w
                in (Inr (Err e), w'))
             else
               (case err of
                  Syntax_error _ \<Rightarrow>
                    (Inr (Err (Invalid_response
                       (JStr ''The server returned a body that is not valid JSON.''))), w)
                | Zod_error _ \<Rightarrow>
                    (Inr (Err (Invalid_response
                       (JStr ''The server response did not match the expected schema.''))), w)
                | _ \<Rightarrow> (Inl err, w))
         | None \<Rightarrow>
             (case err of
                Zod_error _ \<Rightarrow>
                  (Inr (Err (Invalid_request
                     (JStr ''The request input did not match the expected schema.''))), w)
              | _ \<Rightarrow> (Inl err, w))))"

section \<open>Which kind a status becomes\<close>

text \<open>The table the code promises: one kind for each status, whatever the body holds.\<close>

definition kind_of_status :: "int \<Rightarrow> error_kind" where
  "kind_of_status s =
     (if 500 \<le> s then K_server_error
      else case map_of [(400, K_validation), (401, K_unauthenticated), (403, K_forbidden),
             (404, K_not_found), (409, K_conflict), (410, K_gone), (413, K_payload_too_large),
             (429, K_rate_limited)] s of
             Some k \<Rightarrow> k | None \<Rightarrow> K_client_error)"

lemmas transform_defs = transformHttpError_def Let_def split_beta

lemma transform_server [simp]:
  "500 \<le> r_status r \<Longrightarrow> transformHttpError dp now r body w =
     (Server_error (r_status r) (JStr SERVER_ERROR_MESSAGE) (readIncidentId body), w)"
  by (simp add: transformHttpError_def)

lemma transform_fields:
  "r_status r < 500 \<Longrightarrow>
     err_fields (fst (transformHttpError dp now r body w)) = fst (readFieldErrors body w) \<and>
     snd (transformHttpError dp now r body w) = snd (readFieldErrors body w) \<and>
     err_message (fst (transformHttpError dp now r body w)) = readErrorMessage body (r_status r)"
  by (simp add: transform_defs)

lemma readIncidentId_nonempty: "readIncidentId body \<noteq> Some []"
  by (auto simp: readIncidentId_def Let_def split: jv.splits)

text \<open>
  C2: an HTTP error response becomes the error kind its status alone decides, with that
  status, whatever the body is; and from 500 up nothing of the body gets through except a
  non-empty incident id, so two bodies with the same id are indistinguishable.
\<close>

theorem transform_total_and_redacts:
  "err_kind (fst (transformHttpError dp now r body w)) = kind_of_status (r_status r) \<and>
   err_status (fst (transformHttpError dp now r body w)) = Some (r_status r) \<and>
   (500 \<le> r_status r \<longrightarrow>
      transformHttpError dp now r body w =
        (Server_error (r_status r) (JStr SERVER_ERROR_MESSAGE) (readIncidentId body), w) \<and>
      readIncidentId body \<noteq> Some [])"
  by (simp add: transform_defs kind_of_status_def readIncidentId_nonempty)

theorem transform_total_and_redacts_witness:
  "transformHttpError (\<lambda>_. None) 0 \<lparr>r_status = 503, r_headers = [], r_body = None\<rparr>
     (JObj [(''error'', JObj [(''message'', JStr ''db at 10.0.0.7''), (''incident_id'', JStr ''i7'')])])
     \<lparr>warned = [], console = []\<rparr>
   = (Server_error 503 (JStr SERVER_ERROR_MESSAGE) (Some ''i7''), \<lparr>warned = [], console = []\<rparr>)"
  using transform_total_and_redacts
    [of "\<lambda>_. None" 0 "\<lparr>r_status = 503, r_headers = [], r_body = None\<rparr>"
        "JObj [(''error'', JObj [(''message'', JStr ''db at 10.0.0.7''), (''incident_id'', JStr ''i7'')])]"
        "\<lparr>warned = [], console = []\<rparr>"]
  by (simp add: readIncidentId_def pget_def is_object_def)

section \<open>Field errors are validated one by one\<close>

text \<open>Reading one entry does not depend on what was warned about before.\<close>

lemma readFieldError_pure: "fst (readFieldError e w) = fst (readFieldError e w')"
  by (simp add: readFieldError_def split: jv.splits option.splits)

text \<open>What an admitted entry looks like in the body.\<close>

definition admits :: "jv \<Rightarrow> field_error \<Rightarrow> bool" where
  "admits e f \<longleftrightarrow>
     pget ''field'' e = JStr (fe_field f) \<and>
     (\<exists>(c, k) \<in> set FIELD_ERROR_CODES. pget ''code'' e = JStr c \<and> k = fe_code f) \<and>
     (case fe_message f of None \<Rightarrow> True
      | Some m \<Rightarrow> fe_code f = Custom \<and> pget ''message'' e = JStr m)"

lemma readFieldError_admits: "fst (readFieldError e w) = Some f \<Longrightarrow> admits e f"
  unfolding readFieldError_def admits_def
  by (auto split: jv.splits option.splits if_splits dest!: map_of_SomeD)

lemma readFieldEntries_admits:
  "f \<in> set (fst (readFieldEntries es w)) \<Longrightarrow> \<exists>e \<in> set es. admits e f"
proof (induction es arbitrary: w)
  case Nil
  then show ?case by simp
next
  case (Cons e es)
  obtain r w1 where r: "readFieldError e w = (r, w1)" by (cases "readFieldError e w")
  from Cons.prems r have "r = Some f \<or> f \<in> set (fst (readFieldEntries es w1))"
    by (auto simp: split_beta split: option.splits)
  then show ?case
  proof
    assume "r = Some f"
    with r have "admits e f" by (intro readFieldError_admits [of e w]) simp
    then show ?thesis by simp
  next
    assume "f \<in> set (fst (readFieldEntries es w1))"
    then show ?thesis using Cons.IH by auto
  qed
qed

text \<open>
  C24: the \<open>fields\<close> of an error are never an empty list, and each of them comes from an
  entry of the body's \<open>error.fields\<close> array whose code is one of the six known ones; a
  message survives only on \<open>custom\<close>.
\<close>

theorem fields_are_admitted:
  assumes "err_fields (fst (transformHttpError dp now r body w)) = Some fs"
  shows "fs \<noteq> [] \<and>
    (\<exists>es. pget ''fields'' (pget ''error'' body) = JArr es \<and> (\<forall>f \<in> set fs. \<exists>e \<in> set es. admits e f))"
proof -
  have low: "r_status r < 500"
    using assms by (cases "r_status r < 500") (simp_all add: not_less)
  with assms have rf: "fst (readFieldErrors body w) = Some fs"
    by (simp add: transform_fields)
  then obtain es where es: "pget ''fields'' (pget ''error'' body) = JArr es"
      and fs: "fst (readFieldEntries es w) = fs" "fs \<noteq> []"
    by (auto simp: readFieldErrors_def Let_def split_beta split: if_splits jv.splits)
  then show ?thesis using readFieldEntries_admits by metis
qed

theorem fields_are_admitted_witness:
  "\<exists>es. pget ''fields'' (pget ''error'' (JObj [(''error'', JObj [(''fields'',
       JArr [JObj [(''field'', JStr ''slug''), (''code'', JStr ''already_exists'')], JNull])])])) = JArr es \<and>
     (\<exists>e \<in> set es. admits e \<lparr>fe_field = ''slug'', fe_code = Already_exists, fe_message = None\<rparr>)"
  using fields_are_admitted
    [of "\<lambda>_. None" 0 "\<lparr>r_status = 409, r_headers = [], r_body = None\<rparr>"
        "JObj [(''error'', JObj [(''fields'',
           JArr [JObj [(''field'', JStr ''slug''), (''code'', JStr ''already_exists'')], JNull])])]"
        "\<lparr>warned = [], console = []\<rparr>"
        "[\<lparr>fe_field = ''slug'', fe_code = Already_exists, fe_message = None\<rparr>]"]
  by (simp add: transform_defs readFieldErrors_def readFieldError_def pget_def is_object_def
      FIELD_ERROR_CODES_def)

section \<open>Unknown codes are announced once\<close>

definition warn_inv :: "warn_state \<Rightarrow> bool" where
  "warn_inv w \<longleftrightarrow> distinct (warned w) \<and> map fst (console w) = warned w"

lemma warn_inv_step: "warn_inv w \<Longrightarrow> warn_inv (warnUnknownFieldErrorCode c f w)"
  by (auto simp: warn_inv_def warnUnknownFieldErrorCode_def)

lemma warned_step: "set (warned (warnUnknownFieldErrorCode c f w)) = insert c (set (warned w))"
  by (auto simp: warnUnknownFieldErrorCode_def)

lemma readFieldError_state:
  "snd (readFieldError e w) = w \<or>
   (\<exists>c f. snd (readFieldError e w) = warnUnknownFieldErrorCode c f w \<and>
          map_of FIELD_ERROR_CODES c = None)"
  by (auto simp: readFieldError_def split: jv.splits option.splits)

lemma readFieldEntries_inv: "warn_inv w \<Longrightarrow> warn_inv (snd (readFieldEntries es w))"
proof (induction es arbitrary: w)
  case (Cons e es)
  have "warn_inv (snd (readFieldError e w))"
    using readFieldError_state [of e w] Cons.prems warn_inv_step by metis
  then show ?case using Cons.IH by (simp add: split_beta)
qed simp

lemma transform_inv: "warn_inv w \<Longrightarrow> warn_inv (snd (transformHttpError dp now r body w))"
  by (cases "r_status r < 500")
    (auto simp: transform_fields readFieldErrors_def Let_def split_beta readFieldEntries_inv
       split: jv.splits)

text \<open>Every error response of a session, one after the other.\<close>

fun transform_all ::
  "(string \<Rightarrow> int option) \<Rightarrow> int \<Rightarrow> (response \<times> jv) list \<Rightarrow> warn_state \<Rightarrow> warn_state" where
  "transform_all dp now [] w = w"
| "transform_all dp now ((r, b) # rs) w =
     transform_all dp now rs (snd (transformHttpError dp now r b w))"

text \<open>
  over any sequence of error responses the console warns at most once for each
  unrecognised code, and exactly for the codes recorded as warned.
\<close>

theorem warned_once:
  "distinct (map fst (console (transform_all dp now rs \<lparr>warned = [], console = []\<rparr>))) \<and>
   map fst (console (transform_all dp now rs \<lparr>warned = [], console = []\<rparr>)) =
     warned (transform_all dp now rs \<lparr>warned = [], console = []\<rparr>)"
proof -
  have "warn_inv w \<Longrightarrow> warn_inv (transform_all dp now rs w)" for w
    by (induction dp now rs w rule: transform_all.induct) (auto simp: transform_inv)
  then have "warn_inv (transform_all dp now rs \<lparr>warned = [], console = []\<rparr>)"
    by (simp add: warn_inv_def)
  then show ?thesis by (simp add: warn_inv_def)
qed

section \<open>Retries\<close>

definition max_tries :: "client_config \<Rightarrow> string \<Rightarrow> nat" where
  "max_tries cfg m =
     (if m \<in> set RETRY_METHODS then (case cfg_maxRetries cfg of None \<Rightarrow> 2 | Some n \<Rightarrow> n) else 0)"

lemma createFetch_loop: "createFetch cfg m env = fetch_loop (max_tries cfg m) env 0"
  by (simp add: createFetch_def max_tries_def Let_def)

lemma fetch_loop_spec:
  assumes "n \<le> retries"
  shows "\<exists>k. fetch_loop retries env n = (settle_attempt (attempt (env (n + k))), map sleep_ms [n..<n + k]) \<and>
    n + k \<le> retries \<and> (\<forall>i<k. retryable_outcome (attempt (env (n + i)))) \<and>
    (n + k = retries \<or> \<not> retryable_outcome (attempt (env (n + k))))"
  using assms
proof (induction retries env n rule: fetch_loop.induct)
  case (1 retries env n)
  show ?case
  proof (cases "n < retries \<and> retryable_outcome (attempt (env n))")
    case True
    then obtain k where k:
      "fetch_loop retries env (Suc n) =
         (settle_attempt (attempt (env (Suc n + k))), map sleep_ms [Suc n..<Suc n + k])"
      "Suc n + k \<le> retries" "\<forall>i<k. retryable_outcome (attempt (env (Suc n + i)))"
      "Suc n + k = retries \<or> \<not> retryable_outcome (attempt (env (Suc n + k)))"
      using 1 by (auto simp: Let_def)
    have "\<forall>i<Suc k. retryable_outcome (attempt (env (n + i)))"
      using True k(3) by (auto simp: less_Suc_eq_0_disj)
    moreover have "fetch_loop retries env n =
        (settle_attempt (attempt (env (n + Suc k))), map sleep_ms [n..<n + Suc k])"
      using True k(1)
      by (simp add: fetch_loop.simps [of retries env n] upt_conv_Cons [of n "Suc (n + k)"] del: upt_Suc)
    ultimately show ?thesis using k(2,4) by (intro exI [of _ "Suc k"]) simp
  next
    case False
    then have "fetch_loop retries env n = (settle_attempt (attempt (env n)), [])"
      by (auto simp: fetch_loop.simps [of retries env n] Let_def)
    with False 1 show ?thesis by (intro exI [of _ 0]) auto
  qed
qed

text \<open>
  C3: a request is tried again exactly while its outcome is retryable and tries are left.
  The delays are 300, 600, 1200 ms and so on, there are at most \<open>maxRetries\<close> of them and
  none for a method that is not safe to repeat, every outcome slept on was retryable (so a
  timeout or an abort is final), and the outcome reported is that of the last try.
\<close>

theorem createFetch_retries:
  "case createFetch cfg m env of (e, ds) \<Rightarrow>
     ds = map sleep_ms [0..<length ds] \<and>
     length ds \<le> max_tries cfg m \<and>
     (\<forall>i<length ds. retryable_outcome (attempt (env i))) \<and>
     e = settle_attempt (attempt (env (length ds))) \<and>
     (retryable_outcome (attempt (env (length ds))) \<longrightarrow> length ds = max_tries cfg m)"
proof -
  obtain k where k:
    "createFetch cfg m env = (settle_attempt (attempt (env k)), map sleep_ms [0..<k])"
    "k \<le> max_tries cfg m" "\<forall>i<k. retryable_outcome (attempt (env i))"
    "k = max_tries cfg m \<or> \<not> retryable_outcome (attempt (env k))"
    using fetch_loop_spec [of 0 "max_tries cfg m" env] by (auto simp: createFetch_loop)
  then show ?thesis by auto
qed

theorem createFetch_retries_witness:
  "createFetch \<lparr>cfg_timeout = None, cfg_maxRetries = None\<rparr> ''GET'' (\<lambda>_. Rejects False False) =
     (Transport_failure (network_error Unreachable), [300, 600]) \<and>
   length (snd (createFetch \<lparr>cfg_timeout = None, cfg_maxRetries = None\<rparr> ''POST'' (\<lambda>_. Rejects False False)))
     = 0"
  using createFetch_retries
    [of "\<lparr>cfg_timeout = None, cfg_maxRetries = None\<rparr>" "''POST''" "\<lambda>_. Rejects False False"]
  by (simp add: createFetch_def RETRY_METHODS_def fetch_loop.simps attempt_def retryable_outcome_def
      settle_attempt_def sleep_ms_def max_tries_def split_beta)

section \<open>What crosses the boundary\<close>

text \<open>
  \<open>toResult\<close> reports success exactly when there is no error, and rethrows exactly the
  values it does not recognise: with a successful response everything but a schema or
  syntax failure, with no response everything but a schema failure.
\<close>

theorem toResult_boundary:
  "(fst (toResult dp now d err resp w) = Inr (Ok d) \<longleftrightarrow> err = Plain JUndef) \<and>
   (fst (toResult dp now d err resp w) = Inl err \<longleftrightarrow>
      err \<noteq> Plain JUndef \<and> (\<forall>e. err \<noteq> Transport e) \<and>
      (case resp of
         None \<Rightarrow> (\<forall>m. err \<noteq> Zod_error m)
       | Some r \<Rightarrow> response_ok r \<and> (\<forall>m. err \<noteq> Zod_error m \<and> err \<noteq> Syntax_error m)))"
  by (cases err; cases resp) (auto simp: toResult_def split_beta)

end
