(* ===== verification/FilterQuery.thy ===== *)
theory FilterQuery
  imports JsBase
begin

text \<open>
  \<open>packages/ui/src/components/data-table/query.ts\<close>: the one string that carries a table's
  filters and free text, and the four URL parameters of a table. A filter's value is a
  \<open>jv\<close>, as the state's \<open>unknown\<close> is; the map of variants is an object literal, so reading
  it by a typed key also sees the names every object inherits.
\<close>

datatype variant = V_options | V_text | V_range

record col_filter =
  fl_id :: string
  fl_value :: jv

record sorting = so_id :: string so_desc :: bool

record table_query =
  tq_sorting :: "sorting list"
  tq_filters :: "col_filter list"
  tq_search :: string
  tq_pageIndex :: int
  tq_pageSize :: int

type_synonym variants = "(string \<times> variant) list"

definition DEFAULT_PAGE_SIZE :: int where "DEFAULT_PAGE_SIZE = 50"

definition emptyTableQuery :: "int \<Rightarrow> table_query" where
  "emptyTableQuery pageSize =
     \<lparr>tq_sorting = [], tq_filters = [], tq_search = [], tq_pageIndex = 0, tq_pageSize = pageSize\<rparr>"

section \<open>Tokens and quoting\<close>

function tok :: "string \<Rightarrow> string \<Rightarrow> bool \<Rightarrow> string list" where
  "tok [] current quoted = (if current \<noteq> [] then [current] else [])"
| "tok (c # cs) current quoted =
     (if quoted \<and> c = CHR 0x5C \<and> cs \<noteq> [] \<and> (hd cs = CHR 0x22 \<or> hd cs = CHR 0x5C)
      then tok (tl cs) (current @ [hd cs]) quoted
      else if c = CHR 0x22 then tok cs current (\<not> quoted)
      else if c = CHR '' '' \<and> \<not> quoted
      then (if current \<noteq> [] then current # tok cs [] quoted else tok cs [] quoted)
      else tok cs (current @ [c]) quoted)"
  by pat_completeness auto
termination
  by (relation "measure (\<lambda>(s, current, quoted). length s)") auto

definition tokenize :: "string \<Rightarrow> string list" where
  "tokenize input = tok input [] False"

definition needsQuoting :: "string \<Rightarrow> bool" where
  "needsQuoting value = list_ex (\<lambda>c. is_ws c \<or> c = CHR 0x22 \<or> c = CHR 0x5C) value"

definition quoteValue :: "string \<Rightarrow> string" where
  "quoteValue value =
     [CHR 0x22] @
     replace_char (CHR 0x22) [CHR 0x5C, CHR 0x22]
       (replace_char (CHR 0x5C) [CHR 0x5C, CHR 0x5C] value) @
     [CHR 0x22]"

definition quoted :: "string \<Rightarrow> string" where
  "quoted value = (if needsQuoting value then quoteValue value else value)"

definition parseBound :: "string \<Rightarrow> jsnum option" where
  "parseBound s = (if s = [] then None else Some (js_Number s))"

definition parseRange :: "string \<Rightarrow> (jsnum option \<times> jsnum option) option" where
  "parseRange raw =
     (case split_str ''..'' raw of
        [p0, p1] \<Rightarrow>
          let mn = parseBound p0; mx = parseBound p1
          in if mn = Some NaN then None
             else if mx = Some NaN then None
             else if mn = None \<and> mx = None then None
             else Some (mn, mx)
      | _ \<Rightarrow> None)"

section \<open>The three codecs\<close>

datatype parsed_value = PV_filter jv | PV_text | PV_drop

definition optionsCodec_parse :: "string \<Rightarrow> parsed_value" where
  "optionsCodec_parse raw =
     (let values = filter (\<lambda>v. v \<noteq> []) (split_on (CHR '','') raw)
      in if values \<noteq> [] then PV_filter (JArr (map JStr values)) else PV_drop)"

definition optionsCodec_format :: "jv \<Rightarrow> string option" where
  "optionsCodec_format value =
     (case value of JArr vs \<Rightarrow> (if vs \<noteq> [] then Some (quoted (js_str (JArr vs))) else None)
      | _ \<Rightarrow> None)"

definition num_or_null :: "jsnum option \<Rightarrow> jv" where
  "num_or_null b = (case b of None \<Rightarrow> JNull | Some x \<Rightarrow> JNum x)"

definition rangeCodec_parse :: "string \<Rightarrow> parsed_value" where
  "rangeCodec_parse raw =
     (case parseRange raw of
        Some (mn, mx) \<Rightarrow> PV_filter (JArr [num_or_null mn, num_or_null mx])
      | None \<Rightarrow> PV_text)"

text \<open>
  Destructuring an array gives \<open>undefined\<close> past its end; \<open>x ?? ''\<close> prints nothing for
  \<open>null\<close> and \<open>undefined\<close>.
\<close>

definition nth_or_undef :: "jv list \<Rightarrow> nat \<Rightarrow> jv" where
  "nth_or_undef vs i = (if i < length vs then vs ! i else JUndef)"

definition show_bound :: "jv \<Rightarrow> string" where
  "show_bound v = (if v = JNull \<or> v = JUndef then [] else js_str v)"

definition rangeCodec_format :: "jv \<Rightarrow> string option" where
  "rangeCodec_format value =
     (case value of
        JArr vs \<Rightarrow>
          let mn = nth_or_undef vs 0; mx = nth_or_undef vs 1
          in if mn = JNull \<and> mx = JNull then None
             else Some (show_bound mn @ ''..'' @ show_bound mx)
      | _ \<Rightarrow> None)"

definition textCodec_parse :: "string \<Rightarrow> parsed_value" where
  "textCodec_parse raw = PV_filter (JStr raw)"

definition textCodec_format :: "jv \<Rightarrow> string option" where
  "textCodec_format value =
     (case value of JStr s \<Rightarrow> (if s \<noteq> [] then Some (quoted s) else None) | _ \<Rightarrow> None)"

fun codec_parse :: "variant \<Rightarrow> string \<Rightarrow> parsed_value" where
  "codec_parse V_options = optionsCodec_parse"
| "codec_parse V_range = rangeCodec_parse"
| "codec_parse V_text = textCodec_parse"

fun codec_format :: "variant \<Rightarrow> jv \<Rightarrow> string option" where
  "codec_format V_options = optionsCodec_format"
| "codec_format V_range = rangeCodec_format"
| "codec_format V_text = textCodec_format"

section \<open>The query string\<close>

definition is_key_char :: "char \<Rightarrow> bool" where
  "is_key_char c \<longleftrightarrow> is_alnum c \<or> c = CHR ''_'' \<or> c = CHR ''.'' \<or> c = CHR ''-''"

definition is_line_end :: "char \<Rightarrow> bool" where
  "is_line_end c \<longleftrightarrow> c = CHR 0x0A \<or> c = CHR 0x0D"

text \<open>The regular expression \<open>TOKEN\<close>: \<open>.\<close> matches no line terminator.\<close>

definition match_TOKEN :: "string \<Rightarrow> (string \<times> string) option" where
  "match_TOKEN token =
     (let key = takeWhile is_key_char token; rest = dropWhile is_key_char token
      in if key \<noteq> [] \<and> starts_with '':'' rest \<and> \<not> list_ex is_line_end (tl rest)
         then Some (key, tl rest) else None)"

datatype parsed_token = PT_filter string jv | PT_text | PT_drop

text \<open>
  An inherited name finds no codec, and calling \<open>parse\<close> of \<open>undefined\<close> is a \<open>TypeError\<close>.
\<close>

definition parseToken :: "string \<Rightarrow> variants \<Rightarrow> js_exn + parsed_token" where
  "parseToken token variants =
     (case match_TOKEN token of
        None \<Rightarrow> Inr PT_text
      | Some (key, raw) \<Rightarrow>
          (case obj_lookup variants key of
             Missing \<Rightarrow> Inr PT_text
           | Inherited \<Rightarrow> if raw = [] then Inr PT_drop else Inl TypeError
           | Own v \<Rightarrow>
               if raw = [] then Inr PT_drop
               else (case codec_parse v raw of
                       PV_filter value \<Rightarrow> Inr (PT_filter key value)
                     | PV_text \<Rightarrow> Inr PT_text
                     | PV_drop \<Rightarrow> Inr PT_drop)))"

fun is_array :: "jv \<Rightarrow> bool" where
  "is_array (JArr _) = True"
| "is_array _ = False"

fun array_items :: "jv \<Rightarrow> jv list" where
  "array_items (JArr vs) = vs"
| "array_items _ = []"

text \<open>One step of the loop of \<open>mergeFilters\<close>: the first filter of that id is updated in place.\<close>

fun merge_one :: "col_filter list \<Rightarrow> col_filter \<Rightarrow> col_filter list" where
  "merge_one [] f = [f]"
| "merge_one (g # gs) f =
     (if fl_id g = fl_id f
      then (if is_array (fl_value g) \<and> is_array (fl_value f)
            then g\<lparr>fl_value := JArr (dedup (array_items (fl_value g) @ array_items (fl_value f)))\<rparr>
            else g\<lparr>fl_value := fl_value f\<rparr>) # gs
      else g # merge_one gs f)"

definition mergeFilters :: "col_filter list \<Rightarrow> col_filter list" where
  "mergeFilters filters = foldl merge_one [] filters"

fun parse_tokens ::
  "string list \<Rightarrow> variants \<Rightarrow> col_filter list \<Rightarrow> string list \<Rightarrow>
   js_exn + (col_filter list \<times> string list)" where
  "parse_tokens [] variants filters text = Inr (filters, text)"
| "parse_tokens (t # ts) variants filters text =
     sbind (parseToken t variants) (\<lambda>parsed.
       case parsed of
         PT_text \<Rightarrow> parse_tokens ts variants filters (text @ [t])
       | PT_filter key value \<Rightarrow>
           parse_tokens ts variants (filters @ [\<lparr>fl_id = key, fl_value = value\<rparr>]) text
       | PT_drop \<Rightarrow> parse_tokens ts variants filters text)"

definition parseFilterQuery :: "string \<Rightarrow> variants \<Rightarrow> js_exn + (col_filter list \<times> string)" where
  "parseFilterQuery input variants =
     sbind (parse_tokens (tokenize input) variants [] [])
       (\<lambda>(filters, text). Inr (mergeFilters filters, join_with '' '' text))"

definition format_one :: "variants \<Rightarrow> col_filter \<Rightarrow> js_exn + string option" where
  "format_one variants f =
     (case obj_lookup variants (fl_id f) of
        Missing \<Rightarrow> Inr None
      | Inherited \<Rightarrow> Inl TypeError
      | Own v \<Rightarrow> Inr (map_option (\<lambda>s. fl_id f @ '':'' @ s) (codec_format v (fl_value f))))"

fun format_tokens :: "col_filter list \<Rightarrow> variants \<Rightarrow> js_exn + string list" where
  "format_tokens [] variants = Inr []"
| "format_tokens (f # fs) variants =
     sbind (format_one variants f) (\<lambda>t.
       sbind (format_tokens fs variants) (\<lambda>ts.
         Inr (case t of None \<Rightarrow> ts | Some s \<Rightarrow> s # ts)))"

definition formatFilterQuery :: "col_filter list \<Rightarrow> string \<Rightarrow> variants \<Rightarrow> js_exn + string" where
  "formatFilterQuery filters search variants =
     sbind (format_tokens filters variants) (\<lambda>tokens.
       Inr (join_with '' '' (tokens @ (if search \<noteq> [] then [quoted search] else []))))"

section \<open>The URL\<close>

type_synonym params = "(string \<times> string) list"

definition param_number :: "params \<Rightarrow> string \<Rightarrow> int option" where
  "param_number ps k =
     (case map_of ps k of None \<Rightarrow> Some 0 | Some s \<Rightarrow> as_integer (js_Number s))"

definition parseSort :: "string \<Rightarrow> sorting list" where
  "parseSort s =
     map (\<lambda>part. if starts_with ''-'' part then \<lparr>so_id = tl part, so_desc = True\<rparr>
                 else \<lparr>so_id = part, so_desc = False\<rparr>)
       (filter (\<lambda>p. p \<noteq> []) (split_on (CHR '','') s))"

definition parseTableQuery :: "params \<Rightarrow> variants \<Rightarrow> int \<Rightarrow> js_exn + table_query" where
  "parseTableQuery ps variants pageSize =
     (let query = emptyTableQuery pageSize in
      sbind (case map_of ps ''q'' of
               None \<Rightarrow> Inr query
             | Some q \<Rightarrow>
                 if q = [] then Inr query
                 else sbind (parseFilterQuery q variants)
                        (\<lambda>(fs, s). Inr (query\<lparr>tq_filters := fs, tq_search := s\<rparr>)))
        (\<lambda>query.
          let query = (case map_of ps ''sort'' of
                         None \<Rightarrow> query
                       | Some s \<Rightarrow> if s = [] then query else query\<lparr>tq_sorting := parseSort s\<rparr>);
              query = (case param_number ps ''page'' of
                         Some page \<Rightarrow> if 1 < page then query\<lparr>tq_pageIndex := page - 1\<rparr> else query
                       | None \<Rightarrow> query);
              query = (case param_number ps ''per'' of
                         Some per \<Rightarrow> if 0 < per then query\<lparr>tq_pageSize := per\<rparr> else query
                       | None \<Rightarrow> query)
          in Inr query))"

definition formatSort :: "sorting list \<Rightarrow> string" where
  "formatSort so = join_with '','' (map (\<lambda>s. if so_desc s then ''-'' @ so_id s else so_id s) so)"

definition serializeTableQuery :: "table_query \<Rightarrow> variants \<Rightarrow> int \<Rightarrow> js_exn + params" where
  "serializeTableQuery query variants pageSize =
     sbind (formatFilterQuery (tq_filters query) (tq_search query) variants) (\<lambda>q.
       Inr ((if q \<noteq> [] then [(''q'', q)] else []) @
            (if tq_sorting query \<noteq> [] then [(''sort'', formatSort (tq_sorting query))] else []) @
            (if 0 < tq_pageIndex query then [(''page'', int_str (tq_pageIndex query + 1))] else []) @
            (if tq_pageSize query \<noteq> pageSize then [(''per'', int_str (tq_pageSize query))] else [])))"

end
