(* ===== verification/FilterQueryFacts.thy ===== *)
theory FilterQueryFacts
  imports FilterQuery
begin

text \<open>
  What the filter query promises: a state written by \<open>formatFilterQuery\<close> or
  \<open>serializeTableQuery\<close> is read back unchanged, parsing never invents a key or repeats
  one, and where the two fall short. The three codecs share the interface \<open>filter_codec\<close>:
  what a codec writes, quoted, is one token whose text it reads back.
\<close>

section \<open>Pieces of a query that read as one token\<close>

definition piece_ok :: "string \<Rightarrow> string \<Rightarrow> bool" where
  "piece_ok p t \<longleftrightarrow> (\<forall>cs cur. tok (p @ cs) cur False = tok cs (cur @ t) False)"

definition esc :: "string \<Rightarrow> string" where
  "esc v = replace_char (CHR 0x22) [CHR 0x5C, CHR 0x22]
     (replace_char (CHR 0x5C) [CHR 0x5C, CHR 0x5C] v)"

lemma esc_simps [simp]:
  "esc [] = []"
  "esc (c # v) =
     (if c = CHR 0x5C then [CHR 0x5C, CHR 0x5C]
      else if c = CHR 0x22 then [CHR 0x5C, CHR 0x22] else [c]) @ esc v"
  by (simp_all add: esc_def replace_char_def)

lemma tok_esc: "tok (esc v @ CHR 0x22 # cs) cur True = tok cs (cur @ v) False"
  by (induction v arbitrary: cur) simp_all

lemma piece_quoteValue: "piece_ok (quoteValue v) v"
  unfolding piece_ok_def quoteValue_def esc_def [symmetric] by (simp add: tok_esc)

lemma piece_plain: "\<not> needsQuoting p \<Longrightarrow> piece_ok p p"
  unfolding piece_ok_def needsQuoting_def
  by (induction p) (auto simp: is_ws_def)

lemma piece_quoted: "piece_ok (quoted v) v"
  by (simp add: quoted_def piece_quoteValue piece_plain)

lemma piece_append: "piece_ok p t \<Longrightarrow> piece_ok q u \<Longrightarrow> piece_ok (p @ q) (t @ u)"
  by (simp add: piece_ok_def)

lemma tokenize_pieces:
  assumes "list_all2 piece_ok ps ts" and "\<forall>t \<in> set ts. t \<noteq> []"
  shows "tokenize (join_with '' '' ps) = ts"
  using assms
proof (induction "'' ''" ps arbitrary: ts rule: join_with.induct)
  case 1
  then show ?case by (simp add: tokenize_def)
next
  case (2 w)
  then obtain t where "ts = [t]" "piece_ok w t" "t \<noteq> []"
    by (auto simp: list_all2_Cons1)
  then show ?case using piece_ok_def [of w t] by (auto simp: tokenize_def dest: spec [of _ "[]"])
next
  case (3 w v ws)
  then obtain t us where ts: "ts = t # us" "piece_ok w t" "t \<noteq> []"
      and us: "list_all2 piece_ok (v # ws) us" "\<forall>t \<in> set us. t \<noteq> []"
    by (auto simp: list_all2_Cons1)
  have "tokenize (join_with '' '' (w # v # ws)) = t # tokenize (join_with '' '' (v # ws))"
    using ts(2,3) by (simp add: tokenize_def piece_ok_def)
  with 3(1) us ts(1) show ?case by simp
qed

lemma not_key_char:
  "c = CHR '':'' \<or> is_ws c \<or> c = CHR 0x22 \<or> c = CHR 0x5C \<Longrightarrow> \<not> is_key_char c"
  unfolding is_ws_def
  by (elim disjE)
    (simp_all add: is_key_char_def is_alnum_def is_lower_def is_upper_def is_digit_def)

lemma key_char_clean: "is_key_char c \<Longrightarrow> \<not> is_ws c \<and> c \<noteq> CHR 0x22 \<and> c \<noteq> CHR 0x5C"
  using not_key_char by blast

section \<open>The interface of a codec\<close>

locale filter_codec =
  fixes cparse :: "string \<Rightarrow> parsed_value"
    and cformat :: "jv \<Rightarrow> string option"
    and good :: "jv \<Rightarrow> bool"
  assumes format_good:
    "good v \<Longrightarrow> \<exists>raw. cformat v = Some (quoted raw) \<and> raw \<noteq> [] \<and>
       \<not> list_ex is_line_end raw \<and> cparse raw = PV_filter v"
begin

lemma token_read_back:
  assumes "good v" and "k \<noteq> []" and "list_all is_key_char k"
  shows "\<exists>s raw. cformat v = Some s \<and> piece_ok (k @ '':'' @ s) (k @ '':'' @ raw) \<and>
    match_TOKEN (k @ '':'' @ raw) = Some (k, raw) \<and> raw \<noteq> [] \<and> cparse raw = PV_filter v"
proof -
  obtain raw where raw: "cformat v = Some (quoted raw)" "raw \<noteq> []" "\<not> list_ex is_line_end raw"
      "cparse raw = PV_filter v"
    using format_good assms(1) by blast
  have colon: "\<not> is_key_char (CHR '':'')"
    by (simp add: not_key_char)
  have "takeWhile is_key_char (k @ '':'' @ raw) = k" "dropWhile is_key_char (k @ '':'' @ raw) = '':'' @ raw"
    using assms(3) colon by (induction k) auto
  then have "match_TOKEN (k @ '':'' @ raw) = Some (k, raw)"
    using assms(2) raw(3) by (simp add: match_TOKEN_def starts_with_def)
  moreover have "\<not> needsQuoting (k @ '':'')"
    using assms(3) key_char_clean by (auto simp: needsQuoting_def list_ex_iff list_all_iff is_ws_def)
  then have "piece_ok ((k @ '':'') @ quoted raw) ((k @ '':'') @ raw)"
    by (intro piece_append piece_plain piece_quoted)
  ultimately show ?thesis using raw by (intro exI [of _ "quoted raw"] exI [of _ raw]) simp
qed

end

section \<open>The values each codec carries faithfully\<close>

fun good_option :: "jv \<Rightarrow> bool" where
  "good_option (JStr w) = (w \<noteq> [] \<and> CHR '','' \<notin> set w \<and> \<not> list_ex is_line_end w)"
| "good_option _ = False"

definition good_options :: "jv \<Rightarrow> bool" where
  "good_options v = (is_array v \<and> array_items v \<noteq> [] \<and> list_all good_option (array_items v))"

fun good_bound :: "jv \<Rightarrow> bool" where
  "good_bound JNull = True"
| "good_bound (JNum (Fin q)) = (q = of_int \<lfloor>q\<rfloor>)"
| "good_bound _ = False"

definition good_range :: "jv \<Rightarrow> bool" where
  "good_range v =
     (case v of JArr [a, b] \<Rightarrow> good_bound a \<and> good_bound b \<and> \<not> (a = JNull \<and> b = JNull)
      | _ \<Rightarrow> False)"

definition good_text :: "jv \<Rightarrow> bool" where
  "good_text v = (case v of JStr s \<Rightarrow> s \<noteq> [] \<and> \<not> list_ex is_line_end s | _ \<Rightarrow> False)"

fun codec_good :: "variant \<Rightarrow> jv \<Rightarrow> bool" where
  "codec_good V_options = good_options"
| "codec_good V_range = good_range"
| "codec_good V_text = good_text"

lemma good_options_strings:
  assumes "good_options v"
  obtains ws where "v = JArr (map JStr ws)" "ws \<noteq> []"
    "\<forall>w \<in> set ws. w \<noteq> [] \<and> CHR '','' \<notin> set w \<and> \<not> list_ex is_line_end w"
proof -
  obtain vs where vs: "v = JArr vs" "vs \<noteq> []" "list_all good_option vs"
    using assms by (cases v) (auto simp: good_options_def)
  have "\<exists>ws. vs = map JStr ws \<and>
      (\<forall>w \<in> set ws. w \<noteq> [] \<and> CHR '','' \<notin> set w \<and> \<not> list_ex is_line_end w)"
    using vs(3)
  proof (induction vs)
    case (Cons x xs)
    then obtain ws where ws: "xs = map JStr ws"
        "\<forall>w \<in> set ws. w \<noteq> [] \<and> CHR '','' \<notin> set w \<and> \<not> list_ex is_line_end w"
      by auto
    with Cons.prems show ?case
      by (cases x) (auto intro!: exI [of _ "_ # ws"])
  qed simp
  with vs that show ?thesis by auto
qed

lemma js_str_strings: "js_str (JArr (map JStr ws)) = join_with '','' ws"
  by (simp add: comp_def)

lemma filter_nonempty_id: "\<forall>w \<in> set ws. w \<noteq> [] \<Longrightarrow> filter (\<lambda>v. v \<noteq> []) ws = ws"
  by (induction ws) auto

interpretation oc: filter_codec optionsCodec_parse optionsCodec_format good_options
proof unfold_locales
  fix v assume "good_options v"
  then obtain ws where ws: "v = JArr (map JStr ws)" "ws \<noteq> []"
    "\<forall>w \<in> set ws. w \<noteq> [] \<and> CHR '','' \<notin> set w \<and> \<not> list_ex is_line_end w"
    by (rule good_options_strings)
  let ?raw = "join_with '','' ws"
  have f: "optionsCodec_format v = Some (quoted ?raw)"
    using ws(1,2) js_str_strings [of ws] by (simp add: optionsCodec_format_def)
  have n: "?raw \<noteq> []" using ws(2,3) by (simp add: join_with_eq_Nil)
  have l: "\<not> list_ex is_line_end ?raw"
    using set_join [of "'',''" ws] ws(3) by (auto simp: list_ex_iff is_line_end_def subset_iff)
  have "split_on (CHR '','') ?raw = ws" using ws by (intro split_join) auto
  then have "optionsCodec_parse ?raw = PV_filter v"
    using ws filter_nonempty_id [of ws] by (simp add: optionsCodec_parse_def)
  with f n l show "\<exists>raw. optionsCodec_format v = Some (quoted raw) \<and> raw \<noteq> [] \<and>
      \<not> list_ex is_line_end raw \<and> optionsCodec_parse raw = PV_filter v" by blast
qed

lemma int_str_chars: "c \<in> set (int_str i) \<Longrightarrow> is_digit c \<or> c = CHR ''-''"
  by (auto simp: int_str_def dest: nat_str_digits split: if_splits)

lemma int_str_clean: "\<forall>c \<in> set (int_str i). c \<noteq> CHR ''.'' \<and> \<not> is_ws c \<and> c \<noteq> CHR 0x22 \<and>
    c \<noteq> CHR 0x5C \<and> \<not> is_line_end c"
proof
  fix c assume "c \<in> set (int_str i)"
  then consider "is_digit c" | "c = CHR ''-''" using int_str_chars by blast
  then show "c \<noteq> CHR ''.'' \<and> \<not> is_ws c \<and> c \<noteq> CHR 0x22 \<and> c \<noteq> CHR 0x5C \<and> \<not> is_line_end c"
  proof cases
    case 1
    then show ?thesis using is_digit_facts [of c] by (simp add: is_line_end_def is_ws_def)
  next
    case 2
    then show ?thesis by (simp add: is_ws_def is_line_end_def)
  qed
qed

lemma index_of_dots:
  "CHR ''.'' \<notin> set a \<Longrightarrow> index_of ''..'' (a @ ''..'' @ b) = Some (length a)"
  by (induction a) (auto simp: starts_with_def)

lemma index_of_none: "CHR ''.'' \<notin> set b \<Longrightarrow> index_of ''..'' b = None"
  by (induction b) (auto simp: starts_with_def)

lemma split_dots:
  "CHR ''.'' \<notin> set a \<Longrightarrow> CHR ''.'' \<notin> set b \<Longrightarrow> split_str ''..'' (a @ ''..'' @ b) = [a, b]"
  by (subst split_str.simps, subst index_of_dots, assumption)
    (simp add: split_str.simps [of _ b] index_of_none)

lemma good_bound_cases:
  assumes "good_bound v"
  obtains "v = JNull" | i where "v = JNum (Fin (of_int i))"
  using assms by (cases v rule: good_bound.cases) auto

lemma show_bound_clean:
  assumes "good_bound v"
  shows "\<forall>c \<in> set (show_bound v). c \<noteq> CHR ''.'' \<and> \<not> is_ws c \<and> c \<noteq> CHR 0x22 \<and>
    c \<noteq> CHR 0x5C \<and> \<not> is_line_end c"
  using assms by (cases rule: good_bound_cases) (auto simp: show_bound_def int_str_clean)

lemma parseBound_show: "good_bound v \<Longrightarrow> num_or_null (parseBound (show_bound v)) = v \<and>
    parseBound (show_bound v) \<noteq> Some NaN \<and> (parseBound (show_bound v) = None \<longleftrightarrow> v = JNull)"
  by (erule good_bound_cases) (simp_all add: show_bound_def parseBound_def num_or_null_def js_Number_int_str)

interpretation rc: filter_codec rangeCodec_parse rangeCodec_format good_range
proof unfold_locales
  fix v assume "good_range v"
  then obtain a b where v: "v = JArr [a, b]" and g: "good_bound a" "good_bound b"
      and nn: "\<not> (a = JNull \<and> b = JNull)"
    by (auto simp: good_range_def split: jv.splits list.splits)
  let ?raw = "show_bound a @ ''..'' @ show_bound b"
  note ca = show_bound_clean [OF g(1)] and cb = show_bound_clean [OF g(2)]
  have q: "\<not> needsQuoting ?raw"
    using ca cb by (auto simp: needsQuoting_def list_ex_iff is_ws_def)
  have f: "rangeCodec_format v = Some (quoted ?raw)"
    using nn q v by (simp add: rangeCodec_format_def nth_or_undef_def quoted_def del: append.simps)
  have l: "\<not> list_ex is_line_end ?raw"
    using ca cb by (auto simp: list_ex_iff is_line_end_def)
  have s: "split_str ''..'' ?raw = [show_bound a, show_bound b]"
    using ca cb by (intro split_dots) auto
  have "rangeCodec_parse ?raw = PV_filter v"
    unfolding rangeCodec_parse_def parseRange_def s
    using parseBound_show [OF g(1)] parseBound_show [OF g(2)] nn v by (auto simp: Let_def)
  with f l show "\<exists>raw. rangeCodec_format v = Some (quoted raw) \<and> raw \<noteq> [] \<and>
      \<not> list_ex is_line_end raw \<and> rangeCodec_parse raw = PV_filter v"
    by (intro exI [of _ ?raw]) simp
qed

interpretation tc: filter_codec textCodec_parse textCodec_format good_text
  by unfold_locales
    (auto simp: good_text_def textCodec_format_def textCodec_parse_def split: jv.splits)

text \<open>What the dispatch table \<open>CODECS\<close> inherits from the three.\<close>

lemma codec_token:
  assumes "codec_good x v" and "k \<noteq> []" and "list_all is_key_char k"
  shows "\<exists>s raw. codec_format x v = Some s \<and> piece_ok (k @ '':'' @ s) (k @ '':'' @ raw) \<and>
    match_TOKEN (k @ '':'' @ raw) = Some (k, raw) \<and> raw \<noteq> [] \<and> codec_parse x raw = PV_filter v"
  using assms oc.token_read_back rc.token_read_back tc.token_read_back by (cases x) simp_all

section \<open>Filters and search read back\<close>

definition wf_filter :: "variants \<Rightarrow> col_filter \<Rightarrow> bool" where
  "wf_filter vars f \<longleftrightarrow> fl_id f \<noteq> [] \<and> list_all is_key_char (fl_id f) \<and>
     (case obj_lookup vars (fl_id f) of Own v \<Rightarrow> codec_good v (fl_value f) | _ \<Rightarrow> False)"

definition wf_filters :: "variants \<Rightarrow> col_filter list \<Rightarrow> bool" where
  "wf_filters vars fs \<longleftrightarrow> distinct (map fl_id fs) \<and> list_all (wf_filter vars) fs"

text \<open>Free text that no column claims: as one token it is text.\<close>

definition wf_search :: "variants \<Rightarrow> string \<Rightarrow> bool" where
  "wf_search vars s \<longleftrightarrow> s = [] \<or> parseToken s vars = Inr PT_text"

lemma wf_filter_token:
  assumes "wf_filter vars f"
  shows "\<exists>s t. format_one vars f = Inr (Some s) \<and> piece_ok s t \<and> t \<noteq> [] \<and>
    parseToken t vars = Inr (PT_filter (fl_id f) (fl_value f))"
proof -
  obtain v where own: "obj_lookup vars (fl_id f) = Own v" and good: "codec_good v (fl_value f)"
    using assms by (auto simp: wf_filter_def split: lookup.splits)
  obtain s raw where s: "codec_format v (fl_value f) = Some s"
      "piece_ok (fl_id f @ '':'' @ s) (fl_id f @ '':'' @ raw)"
      "match_TOKEN (fl_id f @ '':'' @ raw) = Some (fl_id f, raw)" "raw \<noteq> []"
      "codec_parse v raw = PV_filter (fl_value f)"
    using codec_token [OF good, of "fl_id f"] assms by (auto simp: wf_filter_def)
  then have "format_one vars f = Inr (Some (fl_id f @ '':'' @ s))"
    using own by (simp add: format_one_def)
  moreover have "parseToken (fl_id f @ '':'' @ raw) vars = Inr (PT_filter (fl_id f) (fl_value f))"
    unfolding parseToken_def s(3) using own s(4,5) by simp
  ultimately show ?thesis using s(2) by blast
qed

lemma wf_filters_tokens:
  assumes "list_all (wf_filter vars) fs"
  shows "\<exists>ss ts. length ts = length fs \<and> format_tokens fs vars = Inr ss \<and>
    list_all2 piece_ok ss ts \<and> (\<forall>t \<in> set ts. t \<noteq> []) \<and>
    (\<forall>acc rest tx. parse_tokens (ts @ rest) vars acc tx = parse_tokens rest vars (acc @ fs) tx)"
  using assms
proof (induction fs)
  case Nil
  then show ?case by (intro exI [of _ "[]"]) simp
next
  case (Cons f fs)
  then obtain ss ts where len: "length ts = length fs" and IH: "format_tokens fs vars = Inr ss" "list_all2 piece_ok ss ts"
      "\<forall>t \<in> set ts. t \<noteq> []"
      "\<And>acc rest tx. parse_tokens (ts @ rest) vars acc tx = parse_tokens rest vars (acc @ fs) tx"
    by auto
  obtain s t where s: "format_one vars f = Inr (Some s)" "piece_ok s t" "t \<noteq> []"
      "parseToken t vars = Inr (PT_filter (fl_id f) (fl_value f))"
    using Cons.prems wf_filter_token by force
  have eq: "\<lparr>fl_id = fl_id f, fl_value = fl_value f\<rparr> = f" by simp
  have "parse_tokens ((t # ts) @ rest) vars acc tx = parse_tokens rest vars (acc @ f # fs) tx"
    for acc rest tx using s(4) IH(4) by (simp add: eq)
  then show ?case
    using s IH len by (intro exI [of _ "s # ss"] exI [of _ "t # ts"]) simp
qed

lemma merge_one_fresh: "fl_id f \<notin> fl_id ` set gs \<Longrightarrow> merge_one gs f = gs @ [f]"
  by (induction gs) auto

lemma merge_distinct:
  "distinct (map fl_id (gs @ fs)) \<Longrightarrow> foldl merge_one gs fs = gs @ fs"
proof (induction fs arbitrary: gs)
  case (Cons f fs)
  then have "merge_one gs f = gs @ [f]" by (intro merge_one_fresh) auto
  with Cons show ?case by simp
qed simp

lemma mergeFilters_distinct: "distinct (map fl_id fs) \<Longrightarrow> mergeFilters fs = fs"
  using merge_distinct [of "[]" fs] by (simp add: mergeFilters_def)

lemma format_then_parse:
  assumes "wf_filters vars fs" and "wf_search vars s"
  shows "\<exists>q. formatFilterQuery fs s vars = Inr q \<and> parseFilterQuery q vars = Inr (fs, s) \<and>
    (q = [] \<longleftrightarrow> fs = [] \<and> s = [])"
proof -
  from assms(1) have d: "distinct (map fl_id fs)" and w: "list_all (wf_filter vars) fs"
    by (simp_all add: wf_filters_def)
  obtain ss ts where len: "length ts = length fs" and st: "format_tokens fs vars = Inr ss" "list_all2 piece_ok ss ts"
      "\<forall>t \<in> set ts. t \<noteq> []"
      "\<And>acc rest tx. parse_tokens (ts @ rest) vars acc tx = parse_tokens rest vars (acc @ fs) tx"
    using wf_filters_tokens [OF w] by blast
  define qs where "qs = (if s \<noteq> [] then [quoted s] else [])"
  define us where "us = (if s \<noteq> [] then [s] else [])"
  have q: "formatFilterQuery fs s vars = Inr (join_with '' '' (ss @ qs))"
    using st(1) by (simp add: formatFilterQuery_def qs_def)
  have "list_all2 piece_ok (ss @ qs) (ts @ us)"
    using st(2) piece_quoted by (simp add: list_all2_appendI qs_def us_def)
  then have t: "tokenize (join_with '' '' (ss @ qs)) = ts @ us"
    using st(3) by (intro tokenize_pieces) (auto simp: us_def)
  have "parse_tokens us vars fs [] = Inr (fs, us)"
    using assms(2) by (auto simp: us_def wf_search_def)
  then have "parseFilterQuery (join_with '' '' (ss @ qs)) vars = Inr (fs, join_with '' '' us)"
    using t st(4) [of us "[]" "[]"] d by (simp add: parseFilterQuery_def mergeFilters_distinct)
  moreover have "join_with '' '' us = s" by (simp add: us_def)
  moreover have "fs = [] \<and> s = []" if e: "join_with '' '' (ss @ qs) = []"
  proof -
    have "ts @ us = tokenize []" using t by (simp only: e)
    then have "ts = [] \<and> us = []" by (simp add: tokenize_def)
    then show ?thesis using len by (simp add: us_def split: if_splits)
  qed
  moreover have "join_with '' '' (ss @ qs) = []" if "fs = [] \<and> s = []"
  proof -
    have "ss = []" using st(1) that by (simp del: sum.simps) (metis format_tokens.simps(1) sum.inject(2))
    then show ?thesis using that by (simp add: qs_def)
  qed
  ultimately show ?thesis using q by metis
qed

text \<open>
  C1: filters of known columns with distinct keys and faithful values, and free text no
  column claims, survive the round trip through the query string exactly.
\<close>

theorem filter_query_roundtrip:
  assumes "wf_filters vars fs" and "wf_search vars s"
  shows "sbind (formatFilterQuery fs s vars) (\<lambda>q. parseFilterQuery q vars) = Inr (fs, s)"
  using format_then_parse [OF assms] by auto

definition sample_variants :: variants where
  "sample_variants = [(''level'', V_options), (''events'', V_range), (''release'', V_text)]"

theorem filter_query_roundtrip_witness:
  "sbind (formatFilterQuery
      [\<lparr>fl_id = ''level'', fl_value = JArr [JStr ''error'', JStr ''not found'']\<rparr>] ''time out''
      sample_variants) (\<lambda>q. parseFilterQuery q sample_variants) =
   Inr ([\<lparr>fl_id = ''level'', fl_value = JArr [JStr ''error'', JStr ''not found'']\<rparr>], ''time out'')"
  by (rule filter_query_roundtrip)
    (simp_all add: wf_filters_def wf_filter_def wf_search_def sample_variants_def obj_lookup_def
      good_options_def is_line_end_def parseToken_def match_TOKEN_def is_key_char_def is_alnum_def
      is_lower_def is_upper_def is_digit_def starts_with_def)

section \<open>No phantom and no repeated key\<close>

lemma merge_one_ids: "set (map fl_id (merge_one gs f)) = insert (fl_id f) (set (map fl_id gs))"
  by (induction gs) auto

lemma merge_one_distinct: "distinct (map fl_id gs) \<Longrightarrow> distinct (map fl_id (merge_one gs f))"
proof (induction gs)
  case (Cons g gs)
  then show ?case using merge_one_ids [of gs f] by auto
qed simp

lemma foldl_merge_distinct:
  "distinct (map fl_id gs) \<Longrightarrow> distinct (map fl_id (foldl merge_one gs fs))"
  by (induction fs arbitrary: gs) (auto simp: merge_one_distinct)

lemma foldl_merge_ids:
  "set (map fl_id (foldl merge_one gs fs)) = set (map fl_id gs) \<union> set (map fl_id fs)"
proof (induction fs arbitrary: gs)
  case (Cons f fs)
  then show ?case using merge_one_ids [of gs f] by auto
qed simp

lemma parseToken_own: "parseToken t vars = Inr (PT_filter k v) \<Longrightarrow> \<exists>x. map_of vars k = Some x"
  by (auto simp: parseToken_def obj_lookup_def
      split: option.splits prod.splits lookup.splits if_splits parsed_value.splits)

lemma parse_tokens_own:
  "parse_tokens ts vars acc tx = Inr (fs, us) \<Longrightarrow>
     \<forall>f \<in> set fs. f \<in> set acc \<or> (\<exists>x. map_of vars (fl_id f) = Some x)"
proof (induction ts arbitrary: acc tx)
  case (Cons t ts)
  then show ?case
    by (cases "parseToken t vars"; fastforce split: parsed_token.splits dest: parseToken_own)
qed simp

lemma parse_keys:
  assumes "parseFilterQuery input vars = Inr (fs, s)"
  shows "distinct (map fl_id fs) \<and> (\<forall>f \<in> set fs. \<exists>x. map_of vars (fl_id f) = Some x)"
proof -
  obtain gs us where p: "parse_tokens (tokenize input) vars [] [] = Inr (gs, us)"
    using assms by (cases "parse_tokens (tokenize input) vars [] []") (auto simp: parseFilterQuery_def)
  then have fs: "fs = foldl merge_one [] gs"
    using assms by (simp add: parseFilterQuery_def mergeFilters_def)
  have "set (map fl_id fs) = set (map fl_id gs)" using foldl_merge_ids [of "[]" gs] fs by simp
  moreover have "\<forall>f \<in> set gs. \<exists>x. map_of vars (fl_id f) = Some x"
    using parse_tokens_own [OF p] by simp
  ultimately have "\<forall>f \<in> set fs. \<exists>x. map_of vars (fl_id f) = Some x"
    by (auto simp: image_iff set_eq_iff) metis
  then show ?thesis using foldl_merge_distinct [of "[]" gs] fs by simp
qed

text \<open>
  whatever is typed, the filters read from it have distinct keys, and every key is a
  column's own: text before a colon never becomes a filter the table does not have.
\<close>

theorem parse_keys_known_and_distinct:
  assumes "parseFilterQuery input vars = Inr (fs, s)"
  shows "distinct (map fl_id fs) \<and> (\<forall>f \<in> set fs. \<exists>x. map_of vars (fl_id f) = Some x)"
  using assms by (rule parse_keys)

theorem parse_keys_known_and_distinct_witness:
  "parseFilterQuery ''level:a error: level:b'' sample_variants =
     Inr ([\<lparr>fl_id = ''level'', fl_value = JArr [JStr ''a'', JStr ''b'']\<rparr>], ''error:'') \<and>
   distinct (map fl_id [\<lparr>fl_id = ''level'', fl_value = JArr [JStr ''a'', JStr ''b'']\<rparr>])"
proof -
  have p: "parseFilterQuery ''level:a error: level:b'' sample_variants =
     Inr ([\<lparr>fl_id = ''level'', fl_value = JArr [JStr ''a'', JStr ''b'']\<rparr>], ''error:'')"
    by code_simp
  show ?thesis using p parse_keys_known_and_distinct [OF p] by blast
qed

section \<open>When reading a query throws\<close>

definition inherited_token :: "variants \<Rightarrow> string \<Rightarrow> bool" where
  "inherited_token vars t \<longleftrightarrow>
     (case match_TOKEN t of None \<Rightarrow> False
      | Some (k, raw) \<Rightarrow> raw \<noteq> [] \<and> map_of vars k = None \<and> k \<in> set OBJECT_PROTOTYPE)"

lemma parseToken_throws:
  "parseToken t vars = Inl e \<longleftrightarrow> e = TypeError \<and> inherited_token vars t"
  by (auto simp: parseToken_def obj_lookup_def inherited_token_def
      split: option.splits prod.splits lookup.splits if_splits parsed_value.splits)

lemma parse_tokens_throws:
  "parse_tokens ts vars acc tx = Inl e \<longleftrightarrow> e = TypeError \<and> list_ex (inherited_token vars) ts"
proof (induction ts arbitrary: acc tx)
  case (Cons t ts)
  show ?case
  proof (cases "parseToken t vars")
    case (Inl e')
    then show ?thesis using parseToken_throws [of t vars e'] by auto
  next
    case (Inr p)
    then have "\<not> inherited_token vars t" using parseToken_throws [of t vars TypeError] by auto
    with Inr Cons.IH show ?thesis by (auto split: parsed_token.splits)
  qed
qed simp

text \<open>
  reading a query throws in one case only, and then always: some token uses as its key
  a name that every object inherits and that no column has, with text after the colon.
  So \<open>toString:x\<close> typed into the bar, or put in the address, is a \<open>TypeError\<close>.
\<close>

theorem parse_throws_iff:
  "parseFilterQuery input vars = Inl e \<longleftrightarrow>
     e = TypeError \<and> list_ex (inherited_token vars) (tokenize input)"
proof (cases "parse_tokens (tokenize input) vars [] []")
  case (Inl e')
  then show ?thesis
    using parse_tokens_throws [of "tokenize input" vars "[]" "[]" e'] by (auto simp: parseFilterQuery_def)
next
  case (Inr p)
  then have "\<not> list_ex (inherited_token vars) (tokenize input)"
    using parse_tokens_throws [of "tokenize input" vars "[]" "[]" TypeError] by auto
  with Inr show ?thesis by (auto simp: parseFilterQuery_def split_beta)
qed

section \<open>Two ranges on one column\<close>

text \<open>
  A second range on the same column is merged as if both were lists of options: the
  state holds up to four numbers where a range has two, and writing it back keeps only the
  first range.
\<close>

theorem second_range_is_lost:
  assumes "a \<noteq> b"
  shows "mergeFilters [\<lparr>fl_id = k, fl_value = JArr [a, b]\<rparr>, \<lparr>fl_id = k, fl_value = JArr [c, d]\<rparr>]
       = [\<lparr>fl_id = k, fl_value = JArr (dedup [a, b, c, d])\<rparr>] \<and>
    rangeCodec_format (JArr (dedup [a, b, c, d])) = rangeCodec_format (JArr [a, b])"
proof -
  have "take 2 (dedup [a, b, c, d]) = [a, b]" using assms by auto
  moreover have "2 \<le> length (dedup [a, b, c, d])" using assms by auto
  ultimately have "dedup [a, b, c, d] ! 0 = a \<and> dedup [a, b, c, d] ! 1 = b"
    by (auto dest!: arg_cong [of _ _ "\<lambda>l. (l ! 0, l ! 1)"])
  then show ?thesis
    using assms \<open>2 \<le> length (dedup [a, b, c, d])\<close>
    by (simp add: mergeFilters_def rangeCodec_format_def nth_or_undef_def)
qed

theorem second_range_is_lost_witness:
  "parseFilterQuery ''events:1..2 events:3..4'' sample_variants =
     Inr ([\<lparr>fl_id = ''events'', fl_value = JArr [JNum (Fin 1), JNum (Fin 2), JNum (Fin 3), JNum (Fin 4)]\<rparr>], []) \<and>
   rangeCodec_format (JArr (dedup [JNum (Fin 1), JNum (Fin 2), JNum (Fin 3), JNum (Fin 4)])) =
   rangeCodec_format (JArr [JNum (Fin 1), JNum (Fin 2)])"
proof -
  have "parseFilterQuery ''events:1..2 events:3..4'' sample_variants =
     Inr ([\<lparr>fl_id = ''events'', fl_value = JArr [JNum (Fin 1), JNum (Fin 2), JNum (Fin 3), JNum (Fin 4)]\<rparr>], [])"
    by code_simp
  moreover have ne: "JNum (Fin 1) \<noteq> JNum (Fin 2)" by simp
  ultimately show ?thesis
    using second_range_is_lost [OF ne, of "''events''" "JNum (Fin 3)" "JNum (Fin 4)"] by blast
qed

section \<open>The URL\<close>

definition wf_sort :: "sorting \<Rightarrow> bool" where
  "wf_sort s \<longleftrightarrow> so_id s \<noteq> [] \<and> CHR '','' \<notin> set (so_id s) \<and> \<not> starts_with ''-'' (so_id s)"

definition wf_query :: "variants \<Rightarrow> table_query \<Rightarrow> bool" where
  "wf_query vars q \<longleftrightarrow> wf_filters vars (tq_filters q) \<and> wf_search vars (tq_search q) \<and>
     list_all wf_sort (tq_sorting q) \<and> 0 \<le> tq_pageIndex q \<and> 0 < tq_pageSize q"

definition sort_part :: "sorting \<Rightarrow> string" where
  "sort_part s = (if so_desc s then ''-'' @ so_id s else so_id s)"

lemma sort_roundtrip:
  assumes "list_all wf_sort so" and "so \<noteq> []"
  shows "parseSort (formatSort so) = so" and "formatSort so \<noteq> []"
proof -
  have parts: "\<forall>w \<in> set (map sort_part so). w \<noteq> [] \<and> CHR '','' \<notin> set w"
    using assms(1) by (auto simp: list_all_iff wf_sort_def sort_part_def)
  have f: "formatSort so = join_with '','' (map sort_part so)"
    by (simp add: formatSort_def sort_part_def [abs_def])
  have s: "split_on (CHR '','') (formatSort so) = map sort_part so"
    unfolding f using parts assms(2) by (intro split_join) auto
  have "filter (\<lambda>p. p \<noteq> []) (map sort_part so) = map sort_part so"
    using parts by (intro filter_nonempty_id) auto
  moreover have "map (\<lambda>part. if starts_with ''-'' part then \<lparr>so_id = tl part, so_desc = True\<rparr>
                 else \<lparr>so_id = part, so_desc = False\<rparr>) (map sort_part so) = so"
    using assms(1)
    by (induction so) (auto simp: wf_sort_def sort_part_def starts_with_def)
  ultimately show "parseSort (formatSort so) = so" by (simp add: parseSort_def s)
  show "formatSort so \<noteq> []"
    unfolding f using parts assms(2) by (subst join_with_eq_Nil) auto
qed

lemma param_int: "as_integer (js_Number (int_str i)) = Some i"
  by (simp add: js_Number_int_str as_integer_def)

text \<open>
  A table's whole state (filters, search, sort, page and page size) survives the URL:
  what \<open>serializeTableQuery\<close> writes, \<open>parseTableQuery\<close> reads back exactly.
\<close>

theorem table_query_reads_back:
  assumes "wf_query vars q"
  shows "sbind (serializeTableQuery q vars pageSize) (\<lambda>ps. parseTableQuery ps vars pageSize) = Inr q"
proof -
  obtain s where s: "formatFilterQuery (tq_filters q) (tq_search q) vars = Inr s"
      "parseFilterQuery s vars = Inr (tq_filters q, tq_search q)"
      "s = [] \<longleftrightarrow> tq_filters q = [] \<and> tq_search q = []"
    using format_then_parse [of vars "tq_filters q" "tq_search q"] assms by (auto simp: wf_query_def)
  have so: "tq_sorting q \<noteq> [] \<Longrightarrow> parseSort (formatSort (tq_sorting q)) = tq_sorting q \<and>
      formatSort (tq_sorting q) \<noteq> []"
    using assms sort_roundtrip by (simp add: wf_query_def)
  define q1 where "q1 = (emptyTableQuery pageSize)\<lparr>tq_filters := tq_filters q, tq_search := tq_search q\<rparr>"
  define ps where "ps = (if s \<noteq> [] then [(''q'', s)] else []) @
            (if tq_sorting q \<noteq> [] then [(''sort'', formatSort (tq_sorting q))] else []) @
            (if 0 < tq_pageIndex q then [(''page'', int_str (tq_pageIndex q + 1))] else []) @
            (if tq_pageSize q \<noteq> pageSize then [(''per'', int_str (tq_pageSize q))] else [])"
  have ser: "serializeTableQuery q vars pageSize = Inr ps"
    by (simp add: serializeTableQuery_def s(1) ps_def)
  have mq: "map_of ps ''q'' = (if s \<noteq> [] then Some s else None)"
    and ms: "map_of ps ''sort'' = (if tq_sorting q \<noteq> [] then Some (formatSort (tq_sorting q)) else None)"
    and mp: "map_of ps ''page'' = (if 0 < tq_pageIndex q then Some (int_str (tq_pageIndex q + 1)) else None)"
    and mr: "map_of ps ''per'' = (if tq_pageSize q \<noteq> pageSize then Some (int_str (tq_pageSize q)) else None)"
    by (auto simp: ps_def)
  have pq: "(case map_of ps ''q'' of None \<Rightarrow> Inr (emptyTableQuery pageSize)
      | Some t \<Rightarrow> if t = [] then Inr (emptyTableQuery pageSize)
          else sbind (parseFilterQuery t vars)
            (\<lambda>(fs, u). Inr ((emptyTableQuery pageSize)\<lparr>tq_filters := fs, tq_search := u\<rparr>))) = Inr q1"
    using s(2,3) by (simp add: mq q1_def emptyTableQuery_def)
  have pp: "param_number ps ''page'' = Some (if 0 < tq_pageIndex q then tq_pageIndex q + 1 else 0)"
    and pr: "param_number ps ''per'' = Some (if tq_pageSize q \<noteq> pageSize then tq_pageSize q else 0)"
    by (simp_all add: param_number_def mp mr param_int)
  have "0 \<le> tq_pageIndex q" "0 < tq_pageSize q" using assms by (simp_all add: wf_query_def)
  then show ?thesis
    unfolding ser sbind.simps parseTableQuery_def Let_def pq ms pp pr
    using so by (simp add: q1_def emptyTableQuery_def)
qed

theorem table_query_reads_back_example:
  "sbind (serializeTableQuery \<lparr>tq_sorting = [\<lparr>so_id = ''events'', so_desc = True\<rparr>],
        tq_filters = [\<lparr>fl_id = ''events'', fl_value = JArr [JNum (Fin 100), JNull]\<rparr>],
        tq_search = ''timeout'', tq_pageIndex = 2, tq_pageSize = 25\<rparr> sample_variants 50)
     (\<lambda>ps. parseTableQuery ps sample_variants 50) =
   Inr \<lparr>tq_sorting = [\<lparr>so_id = ''events'', so_desc = True\<rparr>],
        tq_filters = [\<lparr>fl_id = ''events'', fl_value = JArr [JNum (Fin 100), JNull]\<rparr>],
        tq_search = ''timeout'', tq_pageIndex = 2, tq_pageSize = 25\<rparr>"
  by (rule table_query_reads_back)
    (simp add: wf_query_def wf_filters_def wf_filter_def wf_search_def sample_variants_def
      obj_lookup_def good_range_def parseToken_def match_TOKEN_def is_key_char_def is_alnum_def
      is_lower_def is_upper_def is_digit_def starts_with_def wf_sort_def)

end
