(* ===== verification/QueryBar.thy ===== *)
theory QueryBar
  imports FilterQueryFacts
begin

text \<open>
  \<open>packages/ui/src/components/query-bar\<close>: the fields read off a table's columns, the phase
  the draft is in (\<open>query-bar-parts.ts\<close>), and the bar's behaviour as a state machine
  (\<open>use-query-bar.ts\<close> and the input's handlers in \<open>query-bar.tsx\<close>). The state holds the
  hook's React state together with the filters and the search of the owner, who adopts
  what \<open>onChange\<close> hands out before the next render. Moving the focus and scrolling are the
  browser's; \<open>Focused\<close> and \<open>Blurred\<close> are events of their own. The cache of loaded
  options is read by its own keys: a column keyed like an inherited object member is not
  considered there.
\<close>

section \<open>Fields\<close>

record filter_option =
  fo_value :: string
  fo_label :: string

record query_field =
  qf_key :: string
  qf_label :: string
  qf_variant :: variant
  qf_options :: "filter_option list option"
  qf_loads :: bool  \<comment> \<open>\<open>loadOptions\<close> is given\<close>
  qf_multiple :: "bool option"

record filter_spec =
  fs_variant :: variant
  fs_options :: "filter_option list option"
  fs_loads :: bool
  fs_multiple :: "bool option"

record column_def =
  cd_id :: "string option"
  cd_accessorKey :: "string option"
  cd_header :: "string option"  \<comment> \<open>when it is text\<close>
  cd_label :: "string option"
  cd_filter :: "filter_spec option"

definition or_else :: "'a option \<Rightarrow> 'a option \<Rightarrow> 'a option" where
  "or_else a b = (case a of Some _ \<Rightarrow> a | None \<Rightarrow> b)"

definition query_field_of :: "column_def \<Rightarrow> query_field option" where
  "query_field_of column =
     (let i = or_else (cd_id column)
                (map_option (replace_char (CHR ''.'') ''_'') (cd_accessorKey column))
      in case (cd_filter column, i) of
           (Some spec, Some key) \<Rightarrow>
             if key = [] then None
             else
               let label = (case or_else (cd_label column) (cd_header column) of Some l \<Rightarrow> l | None \<Rightarrow> key)
               in if fs_variant spec = V_options
                  then Some \<lparr>qf_key = key, qf_label = label, qf_variant = V_options,
                             qf_options = fs_options spec, qf_loads = fs_loads spec,
                             qf_multiple = fs_multiple spec\<rparr>
                  else Some \<lparr>qf_key = key, qf_label = label, qf_variant = fs_variant spec,
                             qf_options = None, qf_loads = False, qf_multiple = None\<rparr>
         | _ \<Rightarrow> None)"

definition queryFieldsFromColumns :: "column_def list \<Rightarrow> query_field list" where
  "queryFieldsFromColumns columns = List.map_filter query_field_of columns"

definition variantsFromFields :: "query_field list \<Rightarrow> variants" where
  "variantsFromFields fds = from_entries (map (\<lambda>f. (qf_key f, qf_variant f)) fds)"

section \<open>The phase of the draft\<close>

text \<open>The run of non-space characters at the end, and what stands before it.\<close>

definition last_word :: "string \<Rightarrow> string" where
  "last_word s = rev (takeWhile (\<lambda>c. \<not> is_ws c) (rev s))"

definition before_word :: "string \<Rightarrow> string" where
  "before_word s = rev (dropWhile (\<lambda>c. \<not> is_ws c) (rev s))"

lemma before_last_word [simp]: "before_word s @ last_word s = s"
  unfolding before_word_def last_word_def
  by (metis rev_append rev_rev_ident takeWhile_dropWhile_id)

text \<open>
  \<open>/(^|\s)([A-Za-z0-9_.-]+):(\S*)$/\<close>: the key, the text after the colon. The match can only
  start at the last word, so what precedes the key is \<open>before_word\<close>.
\<close>

definition match_key_at_end :: "string \<Rightarrow> (string \<times> string) option" where
  "match_key_at_end draft =
     (let w = last_word draft; key = takeWhile is_key_char w; rest = dropWhile is_key_char w
      in if key \<noteq> [] \<and> starts_with '':'' rest then Some (key, tl rest) else None)"

record query_phase =
  ph_typedField :: "query_field option"
  ph_pickedField :: "query_field option"
  ph_activeField :: "query_field option"
  ph_valueFragment :: string
  ph_fieldNeedle :: string
  ph_prefix :: string

definition find_field :: "query_field list \<Rightarrow> string \<Rightarrow> query_field option" where
  "find_field fds key = List.find (\<lambda>f. qf_key f = key) fds"

definition detectPhase :: "string \<Rightarrow> query_field list \<Rightarrow> string option \<Rightarrow> query_phase" where
  "detectPhase draft fds pickedKey =
     (let tokenMatch = match_key_at_end draft;
          typedField = (case tokenMatch of Some (k, _) \<Rightarrow> find_field fds k | None \<Rightarrow> None);
          pickedField = (case pickedKey of
             Some k \<Rightarrow> if k = [] then None else find_field fds k | None \<Rightarrow> None);
          activeField = or_else pickedField typedField;
          fragment = last_word draft;
          valueFragment =
            (if pickedField \<noteq> None then fragment
             else if typedField \<noteq> None then (case tokenMatch of Some (_, v) \<Rightarrow> v | None \<Rightarrow> [])
             else [])
      in \<lparr>ph_typedField = typedField, ph_pickedField = pickedField, ph_activeField = activeField,
          ph_valueFragment = valueFragment,
          ph_fieldNeedle = (if activeField \<noteq> None then [] else to_lower fragment),
          ph_prefix = before_word draft\<rparr>)"

section \<open>State\<close>

record bar =
  b_draft :: string
  b_open :: bool
  b_pickedKey :: "string option"
  b_highlighted :: nat
  b_loadedOptions :: "(string \<times> filter_option list) list"
  b_failedKey :: "string option"
  b_lastSearch :: string
  b_filters :: "col_filter list"  \<comment> \<open>the owner's\<close>
  b_search :: string  \<comment> \<open>the owner's\<close>

definition init_bar :: "col_filter list \<Rightarrow> string \<Rightarrow> bar" where
  "init_bar filters search =
     \<lparr>b_draft = search, b_open = False, b_pickedKey = None, b_highlighted = 0,
      b_loadedOptions = [], b_failedKey = None, b_lastSearch = search,
      b_filters = filters, b_search = search\<rparr>"

text \<open>What a render does to the state: adopt a search that changed outside.\<close>

definition render :: "bar \<Rightarrow> bar" where
  "render b =
     (if b_search b \<noteq> b_lastSearch b
      then b\<lparr>b_lastSearch := b_search b, b_draft := b_search b\<rparr> else b)"

definition bar_phase :: "query_field list \<Rightarrow> bar \<Rightarrow> query_phase" where
  "bar_phase fds b = detectPhase (b_draft b) fds (b_pickedKey b)"

definition fieldOptions :: "query_field list \<Rightarrow> bar \<Rightarrow> filter_option list option" where
  "fieldOptions fds b =
     (case ph_activeField (bar_phase fds b) of None \<Rightarrow> None
      | Some f \<Rightarrow> or_else (qf_options f) (map_of (b_loadedOptions b) (qf_key f)))"

definition pendingKey :: "query_field list \<Rightarrow> bar \<Rightarrow> string option" where
  "pendingKey fds b =
     (case ph_activeField (bar_phase fds b) of None \<Rightarrow> None
      | Some f \<Rightarrow>
          if qf_loads f \<and> qf_options f = None \<and> fieldOptions fds b = None
          then Some (qf_key f) else None)"

definition optionsPending :: "query_field list \<Rightarrow> bar \<Rightarrow> bool" where
  "optionsPending fds b \<longleftrightarrow>
     (case pendingKey fds b of Some k \<Rightarrow> k \<noteq> [] \<and> b_failedKey b \<noteq> Some k | None \<Rightarrow> False)"

section \<open>Suggestions\<close>

datatype suggestion =
    S_field query_field
  | S_value query_field filter_option
  | S_search string

definition selectedValues :: "bar \<Rightarrow> string \<Rightarrow> jv list" where
  "selectedValues b key =
     (case List.find (\<lambda>f. fl_id f = key) (b_filters b) of
        Some f \<Rightarrow> array_items (fl_value f) | None \<Rightarrow> [])"

definition suggestions :: "query_field list \<Rightarrow> bar \<Rightarrow> suggestion list" where
  "suggestions fds b =
     (let ph = bar_phase fds b in
      case ph_activeField ph of
        Some f \<Rightarrow>
          if qf_variant f \<noteq> V_options then []
          else
            let needle = to_lower (last (split_on (CHR '','') (ph_valueFragment ph)))
            in map (S_value f)
                 (filter (\<lambda>opt. needle = [] \<or> str_includes needle (to_lower (fo_label opt))
                    \<or> str_includes needle (to_lower (fo_value opt)))
                   (case fieldOptions fds b of None \<Rightarrow> [] | Some opts \<Rightarrow> opts))
      | None \<Rightarrow>
          let needle = ph_fieldNeedle ph;
              matches = map S_field
                (filter (\<lambda>f. needle = [] \<or> str_includes needle (to_lower (qf_label f))
                   \<or> str_includes needle (to_lower (qf_key f))) fds)
          in if trim (b_draft b) \<noteq> [] then matches @ [S_search (trim (b_draft b))] else matches)"

definition highlightIndex :: "query_field list \<Rightarrow> bar \<Rightarrow> nat" where
  "highlightIndex fds b =
     min (b_highlighted b) (length (suggestions fds b) - 1)"

section \<open>Commits\<close>

definition nextSelection :: "jv list \<Rightarrow> jv \<Rightarrow> bool \<Rightarrow> jv list" where
  "nextSelection selected value multiple =
     (let has = (value \<in> set selected) in
      if \<not> multiple then (if has then [] else [value])
      else if has then filter (\<lambda>v. v \<noteq> value) selected else selected @ [value])"

definition commitDraft :: "query_field list \<Rightarrow> string \<Rightarrow> bar \<Rightarrow> js_exn + bar" where
  "commitDraft fds next b =
     sbind (parseFilterQuery next (variantsFromFields fds)) (\<lambda>(fs, s).
       Inr (b\<lparr>b_filters :=
                filter (\<lambda>f. \<not> list_ex (\<lambda>g. fl_id g = fl_id f) fs) (b_filters b) @ fs,
              b_search := s, b_draft := s\<rparr>))"

definition kept_prefix :: "string \<Rightarrow> string" where
  "kept_prefix prefix = (if trim_end prefix \<noteq> [] then trim_end prefix @ '' '' else [])"

definition toggleValue ::
  "query_field list \<Rightarrow> query_field \<Rightarrow> filter_option \<Rightarrow> bar \<Rightarrow> js_exn + bar" where
  "toggleValue fds field option b =
     (let multiple = (case qf_multiple field of None \<Rightarrow> True | Some m \<Rightarrow> m);
          nextValues = nextSelection (selectedValues b (qf_key field)) (JStr (fo_value option)) multiple;
          rest = filter (\<lambda>f. fl_id f \<noteq> qf_key field) (b_filters b);
          prefix = ph_prefix (bar_phase fds b)
      in sbind (parseFilterQuery prefix (variantsFromFields fds)) (\<lambda>(_, nextSearch).
           let b1 = b\<lparr>b_lastSearch := nextSearch,
                      b_filters := (if nextValues \<noteq> []
                         then rest @ [\<lparr>fl_id = qf_key field, fl_value = JArr nextValues\<rparr>] else rest),
                      b_search := nextSearch,
                      b_draft := kept_prefix prefix\<rparr>
           in Inr (if multiple then b1\<lparr>b_pickedKey := Some (qf_key field)\<rparr>
                   else b1\<lparr>b_pickedKey := None, b_open := False\<rparr>)))"

definition apply_suggestion :: "query_field list \<Rightarrow> suggestion \<Rightarrow> bar \<Rightarrow> js_exn + bar" where
  "apply_suggestion fds s b =
     (case s of
        S_field f \<Rightarrow>
          let kept = kept_prefix (ph_prefix (bar_phase fds b));
              b1 = (if qf_variant f = V_options
                    then b\<lparr>b_pickedKey := Some (qf_key f), b_draft := kept\<rparr>
                    else b\<lparr>b_draft := kept @ qf_key f @ '':''\<rparr>)
          in Inr (b1\<lparr>b_highlighted := 0\<rparr>)
      | S_value f opt \<Rightarrow> toggleValue fds f opt b
      | S_search _ \<Rightarrow>
          sbind (commitDraft fds (b_draft b) b) (\<lambda>b1.
            Inr (b1\<lparr>b_open := False, b_pickedKey := None\<rparr>)))"

definition removeFilter :: "query_field list \<Rightarrow> string \<Rightarrow> bar \<Rightarrow> js_exn + bar" where
  "removeFilter fds key b =
     sbind (parseFilterQuery (b_draft b) (variantsFromFields fds)) (\<lambda>(_, s).
       Inr (b\<lparr>b_filters := filter (\<lambda>f. fl_id f \<noteq> key) (b_filters b), b_search := s\<rparr>))"

definition clearAll :: "bar \<Rightarrow> bar" where
  "clearAll b = b\<lparr>b_filters := [], b_search := [], b_draft := []\<rparr>"

section \<open>Keyboard\<close>

definition moveHighlight :: "query_field list \<Rightarrow> int \<Rightarrow> bar \<Rightarrow> bar" where
  "moveHighlight fds delta b =
     (if \<not> b_open b then b\<lparr>b_open := True\<rparr>
      else
        let n = length (suggestions fds b)
        in b\<lparr>b_highlighted :=
               nat ((int (highlightIndex fds b) + delta + int n) mod int (max n 1))\<rparr>)"

definition current_suggestion :: "query_field list \<Rightarrow> bar \<Rightarrow> suggestion option" where
  "current_suggestion fds b = at_index (suggestions fds b) (highlightIndex fds b)"

definition commitOrApply :: "query_field list \<Rightarrow> bar \<Rightarrow> js_exn + bar" where
  "commitOrApply fds b =
     (case (b_open b, current_suggestion fds b) of
        (True, Some s) \<Rightarrow> apply_suggestion fds s b
      | _ \<Rightarrow>
          sbind (commitDraft fds (b_draft b) b) (\<lambda>b1.
            Inr (b1\<lparr>b_open := False, b_pickedKey := None\<rparr>)))"

definition completeField :: "query_field list \<Rightarrow> bar \<Rightarrow> js_exn + bar" where
  "completeField fds b =
     (case current_suggestion fds b of
        Some (S_field f) \<Rightarrow> apply_suggestion fds (S_field f) b
      | _ \<Rightarrow> Inr b)"

definition dismiss :: "bar \<Rightarrow> bar" where
  "dismiss b =
     (if b_open b then b\<lparr>b_open := False, b_pickedKey := None\<rparr>
      else if b_draft b = [] then b
      else
        let b1 = b\<lparr>b_draft := []\<rparr>
        in if b_search b \<noteq> [] then b1\<lparr>b_search := []\<rparr> else b1)"

definition stepBack :: "query_field list \<Rightarrow> bar \<Rightarrow> js_exn + bar" where
  "stepBack fds b =
     (case b_pickedKey b of
        Some k \<Rightarrow>
          if k \<noteq> [] then Inr (b\<lparr>b_pickedKey := None\<rparr>)
          else if b_filters b = [] then Inr b
          else removeFilter fds (fl_id (last (b_filters b))) b
      | None \<Rightarrow>
          if b_filters b = [] then Inr b
          else removeFilter fds (fl_id (last (b_filters b))) b)"

datatype key = ArrowDown | ArrowUp | Enter | Tab | Escape | Backspace | OtherKey

fun onKeyDown :: "query_field list \<Rightarrow> key \<Rightarrow> bar \<Rightarrow> js_exn + bar" where
  "onKeyDown fds ArrowDown b = Inr (moveHighlight fds 1 b)"
| "onKeyDown fds ArrowUp b = Inr (moveHighlight fds (-1) b)"
| "onKeyDown fds Enter b = commitOrApply fds b"
| "onKeyDown fds Tab b = (if b_open b then completeField fds b else Inr b)"
| "onKeyDown fds Escape b = Inr (dismiss b)"
| "onKeyDown fds Backspace b = (if b_draft b = [] then stepBack fds b else Inr b)"
| "onKeyDown fds OtherKey b = Inr b"

section \<open>Events\<close>

text \<open>
  \<open>Loaded\<close> and \<open>LoadFailed\<close> settle the load of the field that is pending; a load whose field
  is no longer the pending one was cancelled by the effect's clean-up.
\<close>

datatype bar_event =
    Typed string
  | Focused
  | Blurred
  | Pressed key
  | Hovered nat
  | Clicked nat
  | RemovedChip string
  | ClearedAll
  | Loaded "filter_option list"
  | LoadFailed
  | OwnerSet "col_filter list" string

fun bar_handle :: "query_field list \<Rightarrow> bar_event \<Rightarrow> bar \<Rightarrow> js_exn + bar" where
  "bar_handle fds (Typed s) b = Inr (b\<lparr>b_draft := s, b_highlighted := 0, b_open := True\<rparr>)"
| "bar_handle fds Focused b = Inr (b\<lparr>b_open := True\<rparr>)"
| "bar_handle fds Blurred b = Inr (b\<lparr>b_open := False, b_pickedKey := None\<rparr>)"
| "bar_handle fds (Pressed k) b = onKeyDown fds k b"
| "bar_handle fds (Hovered i) b = Inr (b\<lparr>b_highlighted := i\<rparr>)"
| "bar_handle fds (Clicked i) b =
     (case at_index (suggestions fds b) i of
        Some s \<Rightarrow> if b_open b then apply_suggestion fds s b else Inr b
      | None \<Rightarrow> Inr b)"
| "bar_handle fds (RemovedChip k) b = removeFilter fds k b"
| "bar_handle fds ClearedAll b = Inr (clearAll b)"
| "bar_handle fds (Loaded opts) b =
     (case pendingKey fds b of
        Some k \<Rightarrow> Inr (b\<lparr>b_loadedOptions := obj_put k opts (b_loadedOptions b)\<rparr>)
      | None \<Rightarrow> Inr b)"
| "bar_handle fds LoadFailed b =
     (case pendingKey fds b of Some k \<Rightarrow> Inr (b\<lparr>b_failedKey := Some k\<rparr>) | None \<Rightarrow> Inr b)"
| "bar_handle fds (OwnerSet fs s) b = Inr (b\<lparr>b_filters := fs, b_search := s\<rparr>)"

definition bar_step :: "query_field list \<Rightarrow> bar_event \<Rightarrow> bar \<Rightarrow> js_exn + bar" where
  "bar_step fds ev b = sbind (bar_handle fds ev b) (\<lambda>b1. Inr (render b1))"

section \<open>Chips\<close>

definition chip_of :: "query_field list \<Rightarrow> col_filter \<Rightarrow> js_exn + (string \<times> string \<times> string) option" where
  "chip_of fds f =
     (case find_field fds (fl_id f) of None \<Rightarrow> Inr None
      | Some field \<Rightarrow>
          sbind (formatFilterQuery [f] [] (variantsFromFields fds)) (\<lambda>tx.
            let value = (if starts_with (fl_id f @ '':'') tx then drop (length (fl_id f) + 1) tx else tx)
            in Inr (if value = [] then None else Some (fl_id f, qf_label field, value))))"

primrec chips_of :: "query_field list \<Rightarrow> col_filter list \<Rightarrow> js_exn + (string \<times> string \<times> string) list" where
  "chips_of fds [] = Inr []"
| "chips_of fds (f # fs) =
     sbind (chip_of fds f) (\<lambda>c. sbind (chips_of fds fs) (\<lambda>cs.
       Inr (case c of None \<Rightarrow> cs | Some x \<Rightarrow> x # cs)))"

definition chips :: "query_field list \<Rightarrow> bar \<Rightarrow> js_exn + (string \<times> string \<times> string) list" where
  "chips fds b = chips_of fds (b_filters b)"

definition showClear :: "query_field list \<Rightarrow> bar \<Rightarrow> js_exn + bool" where
  "showClear fds b =
     sbind (chips fds b) (\<lambda>cs. Inr (cs \<noteq> [] \<or> b_search b \<noteq> [] \<or> b_draft b \<noteq> []))"

section \<open>What the bar keeps true\<close>

lemma typed_key_split:
  "match_key_at_end draft = Some (k, v) \<Longrightarrow> draft = before_word draft @ k @ '':'' @ v \<and> k \<noteq> []"
proof -
  assume m: "match_key_at_end draft = Some (k, v)"
  then have k: "k = takeWhile is_key_char (last_word draft)" "k \<noteq> []"
    and r: "starts_with '':'' (dropWhile is_key_char (last_word draft))"
      "v = tl (dropWhile is_key_char (last_word draft))"
    by (auto simp: match_key_at_end_def Let_def split: if_splits)
  from r have "dropWhile is_key_char (last_word draft) = '':'' @ v"
    by (cases "dropWhile is_key_char (last_word draft)") (auto simp: starts_with_def)
  then have "last_word draft = k @ '':'' @ v" using k(1) by (metis takeWhile_dropWhile_id)
  then show ?thesis using k(2) by (metis before_last_word)
qed

lemma distinct_filter_ids: "distinct (map fl_id fs) \<Longrightarrow> distinct (map fl_id (filter P fs))"
  by (induction fs) auto

lemma commitDraft_distinct:
  assumes "commitDraft fds next b = Inr b'" and "distinct (map fl_id (b_filters b))"
  shows "distinct (map fl_id (b_filters b'))"
proof -
  obtain fs s where p: "parseFilterQuery next (variantsFromFields fds) = Inr (fs, s)"
    using assms(1) by (cases "parseFilterQuery next (variantsFromFields fds)") (auto simp: commitDraft_def)
  then have "distinct (map fl_id fs)" using parse_keys by blast
  moreover have "b_filters b' =
      filter (\<lambda>f. \<not> list_ex (\<lambda>g. fl_id g = fl_id f) fs) (b_filters b) @ fs"
    using assms(1) p by (auto simp: commitDraft_def)
  ultimately show ?thesis
    using distinct_filter_ids [OF assms(2)] by (auto simp: list_ex_iff)
qed

lemma toggleValue_filters:
  assumes "toggleValue fds field opt b = Inr b'"
  shows "b_filters b' =
    (let vs = nextSelection (selectedValues b (qf_key field)) (JStr (fo_value opt))
                (case qf_multiple field of None \<Rightarrow> True | Some m \<Rightarrow> m);
         rest = filter (\<lambda>f. fl_id f \<noteq> qf_key field) (b_filters b)
     in if vs \<noteq> [] then rest @ [\<lparr>fl_id = qf_key field, fl_value = JArr vs\<rparr>] else rest)"
  using assms
  by (cases "parseFilterQuery (ph_prefix (bar_phase fds b)) (variantsFromFields fds)")
    (auto simp: toggleValue_def Let_def split: if_splits option.splits)

lemma toggleValue_distinct:
  assumes "toggleValue fds field opt b = Inr b'" and "distinct (map fl_id (b_filters b))"
  shows "distinct (map fl_id (b_filters b'))"
  using toggleValue_filters [OF assms(1)] distinct_filter_ids [OF assms(2)] by (auto simp: Let_def)

text \<open>
  The invariant: one filter per key, a draft in step with the owner's search, and a picked
  field only while the list is open.
\<close>

definition bar_inv :: "bar \<Rightarrow> bool" where
  "bar_inv b \<longleftrightarrow> distinct (map fl_id (b_filters b)) \<and> b_lastSearch b = b_search b \<and>
     (\<not> b_open b \<longrightarrow> b_pickedKey b = None)"

text \<open>The part a handler keeps before the render, which restores the rest.\<close>

definition bar_pre :: "bar \<Rightarrow> bool" where
  "bar_pre b \<longleftrightarrow> distinct (map fl_id (b_filters b)) \<and> (\<not> b_open b \<longrightarrow> b_pickedKey b = None)"

lemma bar_inv_render: "bar_pre b \<Longrightarrow> bar_inv (render b)"
  by (auto simp: bar_pre_def bar_inv_def render_def)

lemma bar_pre_inv: "bar_inv b \<Longrightarrow> bar_pre b"
  by (simp add: bar_pre_def bar_inv_def)

lemma toggleValue_pre:
  "toggleValue fds f opt b = Inr b' \<Longrightarrow> bar_pre b \<Longrightarrow> b_open b \<Longrightarrow> bar_pre b'"
  using toggleValue_distinct [of fds f opt b b']
  by (cases "parseFilterQuery (ph_prefix (bar_phase fds b)) (variantsFromFields fds)")
    (auto simp: bar_pre_def toggleValue_def Let_def split: if_splits)

lemma commit_close_pre:
  "sbind (commitDraft fds s b) (\<lambda>b1. Inr (b1\<lparr>b_open := False, b_pickedKey := None\<rparr>)) = Inr b' \<Longrightarrow>
   bar_pre b \<Longrightarrow> bar_pre b'"
  using commitDraft_distinct [of fds s b] by (cases "commitDraft fds s b") (auto simp: bar_pre_def)

lemma apply_pre:
  "apply_suggestion fds s b = Inr b' \<Longrightarrow> bar_pre b \<Longrightarrow> b_open b \<Longrightarrow> bar_pre b'"
  by (cases s)
    (auto simp: apply_suggestion_def Let_def bar_pre_def split: if_splits
      dest: toggleValue_pre [unfolded bar_pre_def] commit_close_pre [unfolded bar_pre_def])

lemma removeFilter_pre: "removeFilter fds k b = Inr b' \<Longrightarrow> bar_pre b \<Longrightarrow> bar_pre b'"
  by (cases "parseFilterQuery (b_draft b) (variantsFromFields fds)")
    (auto simp: removeFilter_def bar_pre_def distinct_filter_ids)

lemma commitOrApply_pre: "commitOrApply fds b = Inr b' \<Longrightarrow> bar_pre b \<Longrightarrow> bar_pre b'"
  unfolding commitOrApply_def
  by (auto split: bool.splits option.splits intro: apply_pre commit_close_pre)

lemma completeField_pre: "completeField fds b = Inr b' \<Longrightarrow> bar_pre b \<Longrightarrow> b_open b \<Longrightarrow> bar_pre b'"
  by (auto simp: completeField_def split: option.splits suggestion.splits intro: apply_pre)

lemma stepBack_pre: "stepBack fds b = Inr b' \<Longrightarrow> bar_pre b \<Longrightarrow> bar_pre b'"
  by (auto simp: stepBack_def split: option.splits if_splits dest: removeFilter_pre)
    (simp add: bar_pre_def)

lemma onKeyDown_pre: "onKeyDown fds k b = Inr b' \<Longrightarrow> bar_pre b \<Longrightarrow> bar_pre b'"
  by (cases k)
    (auto intro: commitOrApply_pre completeField_pre stepBack_pre split: if_splits
      simp: moveHighlight_def dismiss_def bar_pre_def Let_def
      dest: commitOrApply_pre [unfolded bar_pre_def] completeField_pre [unfolded bar_pre_def]
        stepBack_pre [unfolded bar_pre_def])

fun event_ok :: "bar_event \<Rightarrow> bool" where
  "event_ok (OwnerSet fs s) = distinct (map fl_id fs)"
| "event_ok _ = True"

lemma bar_handle_pre:
  assumes "bar_handle fds ev b = Inr b'" and "bar_pre b" and "event_ok ev"
  shows "bar_pre b'"
proof (cases ev)
  case (Pressed k)
  then show ?thesis using assms onKeyDown_pre by simp
next
  case (Clicked i)
  then show ?thesis using assms by (auto split: option.splits if_splits intro: apply_pre)
next
  case (RemovedChip k)
  then show ?thesis using assms removeFilter_pre by simp
qed (use assms in \<open>auto simp: bar_pre_def clearAll_def split: option.splits\<close>)

inductive bar_reachable :: "query_field list \<Rightarrow> bar \<Rightarrow> bool" for fds where
  start: "distinct (map fl_id fs) \<Longrightarrow> bar_reachable fds (init_bar fs s)"
| step: "bar_reachable fds b \<Longrightarrow> event_ok ev \<Longrightarrow> bar_step fds ev b = Inr b' \<Longrightarrow> bar_reachable fds b'"

text \<open>
  C23: whatever is typed, pressed, clicked or set from outside, in any order, the bar keeps
  one filter per key, its draft in step with the owner's search, and a picked field only
  while its list is open.
\<close>

theorem query_bar_invariant:
  assumes "bar_reachable fds b"
  shows "distinct (map fl_id (b_filters b)) \<and> b_lastSearch b = b_search b \<and>
    (\<not> b_open b \<longrightarrow> b_pickedKey b = None)"
proof -
  from assms have "bar_inv b"
  proof (induction rule: bar_reachable.induct)
    case (start fs s)
    then show ?case by (simp add: bar_inv_def init_bar_def)
  next
    case (step b ev b')
    then obtain b1 where "bar_handle fds ev b = Inr b1" "b' = render b1"
      by (cases "bar_handle fds ev b") (auto simp: bar_step_def)
    with step show ?case using bar_handle_pre bar_pre_inv bar_inv_render by blast
  qed
  then show ?thesis by (simp add: bar_inv_def)
qed

definition level_field :: query_field where
  "level_field = \<lparr>qf_key = ''level'', qf_label = ''Level'', qf_variant = V_options,
     qf_options = Some [\<lparr>fo_value = ''error'', fo_label = ''Error''\<rparr>], qf_loads = False,
     qf_multiple = None\<rparr>"

theorem query_bar_invariant_witness:
  "b_filters (clearAll (init_bar [] ''x'')) = [] \<and>
   distinct (map fl_id (b_filters (init_bar [\<lparr>fl_id = ''level'', fl_value = JArr [JStr ''error'']\<rparr>] ''x'')))"
  using query_bar_invariant
    [OF bar_reachable.start [of "[\<lparr>fl_id = ''level'', fl_value = JArr [JStr ''error'']\<rparr>]" "[level_field]" "''x''"]]
  by (simp add: clearAll_def)

section \<open>Pasting a query\<close>

text \<open>
  Committing a draft that is a written query (pasted, say) replaces exactly the
  filters it names, keeps the others, and leaves its free text as search and draft.
\<close>

theorem commit_written_query:
  assumes "wf_filters (variantsFromFields fds) fs" and "wf_search (variantsFromFields fds) s"
  shows "sbind (formatFilterQuery fs s (variantsFromFields fds)) (\<lambda>q. commitDraft fds q b) =
    Inr (b\<lparr>b_filters := filter (\<lambda>f. \<not> list_ex (\<lambda>g. fl_id g = fl_id f) fs) (b_filters b) @ fs,
           b_search := s, b_draft := s\<rparr>)"
proof -
  obtain q where "formatFilterQuery fs s (variantsFromFields fds) = Inr q"
      "parseFilterQuery q (variantsFromFields fds) = Inr (fs, s)"
    using format_then_parse [OF assms] by blast
  then show ?thesis by (simp add: commitDraft_def)
qed

lemma level_variants: "variantsFromFields [level_field] = [(''level'', V_options)]"
  by (simp add: variantsFromFields_def level_field_def from_entries_def)

theorem commit_written_query_witness:
  "sbind (formatFilterQuery [\<lparr>fl_id = ''level'', fl_value = JArr [JStr ''error'']\<rparr>] ''oops''
      (variantsFromFields [level_field])) (\<lambda>q. commitDraft [level_field] q (init_bar [] [])) =
    Inr ((init_bar [] [])\<lparr>b_filters := [\<lparr>fl_id = ''level'', fl_value = JArr [JStr ''error'']\<rparr>],
           b_search := ''oops'', b_draft := ''oops''\<rparr>)"
proof -
  have w: "wf_filters (variantsFromFields [level_field]) [\<lparr>fl_id = ''level'', fl_value = JArr [JStr ''error'']\<rparr>]"
      "wf_search (variantsFromFields [level_field]) ''oops''"
    by (simp_all add: level_variants wf_filters_def wf_filter_def wf_search_def obj_lookup_def
        good_options_def is_line_end_def parseToken_def match_TOKEN_def is_key_char_def is_alnum_def
        is_lower_def is_upper_def is_digit_def starts_with_def)
  show ?thesis using commit_written_query [OF w, of "init_bar [] []"] by (simp add: init_bar_def)
qed

section \<open>Ticking a value\<close>

lemma find_append_none: "\<forall>x \<in> set xs. \<not> P x \<Longrightarrow> List.find P (xs @ [y]) = (if P y then Some y else None)"
  by (induction xs) auto

lemma find_filter_other: "(\<And>x. P x \<Longrightarrow> Q x) \<Longrightarrow> List.find P (filter Q xs) = List.find P xs"
  by (induction xs) auto

lemma find_append: "List.find P (xs @ ys) = (case List.find P xs of Some x \<Rightarrow> Some x | None \<Rightarrow> List.find P ys)"
  by (induction xs) auto

text \<open>
  Ticking an option changes the values of its field as \<open>nextSelection\<close> says (ticked if
  it was not, unticked if it was, alone if the field takes one value) and leaves the
  values of every other field as they were.
\<close>

theorem toggle_changes_only_its_field:
  assumes "toggleValue fds field opt b = Inr b'"
  shows "selectedValues b' (qf_key field) =
      nextSelection (selectedValues b (qf_key field)) (JStr (fo_value opt))
        (case qf_multiple field of None \<Rightarrow> True | Some m \<Rightarrow> m) \<and>
    (k \<noteq> qf_key field \<longrightarrow> selectedValues b' k = selectedValues b k)"
proof -
  have none: "List.find (\<lambda>f. fl_id f = qf_key field)
      (filter (\<lambda>f. fl_id f \<noteq> qf_key field) (b_filters b)) = None"
    by (simp add: find_None_iff)
  have other: "List.find (\<lambda>f. fl_id f = k) (filter (\<lambda>f. fl_id f \<noteq> qf_key field) (b_filters b)) =
      List.find (\<lambda>f. fl_id f = k) (b_filters b)" if "k \<noteq> qf_key field"
    using that by (intro find_filter_other) auto
  show ?thesis
    using toggleValue_filters [OF assms] none other
    by (auto simp: selectedValues_def find_append Let_def split: option.splits)
qed

theorem toggle_changes_only_its_field_witness:
  "\<exists>b'. toggleValue [level_field] level_field \<lparr>fo_value = ''error'', fo_label = ''Error''\<rparr> (init_bar [] []) = Inr b' \<and>
     selectedValues b' ''level'' = [JStr ''error'']"
proof -
  have t: "toggleValue [level_field] level_field \<lparr>fo_value = ''error'', fo_label = ''Error''\<rparr> (init_bar [] []) =
     Inr ((init_bar [] [])\<lparr>b_filters := [\<lparr>fl_id = ''level'', fl_value = JArr [JStr ''error'']\<rparr>],
        b_pickedKey := Some ''level''\<rparr>)"
    by (simp add: toggleValue_def level_field_def selectedValues_def init_bar_def nextSelection_def
        bar_phase_def detectPhase_def match_key_at_end_def last_word_def before_word_def or_else_def
        parseFilterQuery_def tokenize_def mergeFilters_def kept_prefix_def trim_end_def starts_with_def
        Let_def)
  show ?thesis
    using t toggle_changes_only_its_field [OF t, of "''level''"]
    by (simp add: level_field_def nextSelection_def selectedValues_def init_bar_def)
qed

section \<open>Moving the highlight\<close>

lemma highlightIndex_bound:
  "suggestions fds b \<noteq> [] \<Longrightarrow> highlightIndex fds b < length (suggestions fds b)"
  by (cases "suggestions fds b") (auto simp: highlightIndex_def)

end
