(* ===== verification/Observable.thy ===== *)
theory Observable
  imports JsBase
begin

text \<open>
  The contract of the stores a module keeps beside React: a value, a set of listeners that
  is told of every change, and operations in between. \<open>view\<close> is what one listener believes
  after a log of announcements; a store is observable when that belief is always the value.
  The dialog registry and the session store are its instances.
\<close>

section \<open>Listener sets\<close>

text \<open>A JavaScript \<open>Set\<close> of listeners, in insertion order.\<close>

definition listener_add :: "nat \<Rightarrow> nat list \<Rightarrow> nat list" where
  "listener_add l ls = (if l \<in> set ls then ls else ls @ [l])"

definition listener_delete :: "nat \<Rightarrow> nat list \<Rightarrow> nat list" where
  "listener_delete l ls = filter (\<lambda>k. k \<noteq> l) ls"

lemma listener_add_set [simp]: "set (listener_add l ls) = insert l (set ls)"
  by (auto simp: listener_add_def)

lemma listener_add_distinct [simp]: "distinct ls \<Longrightarrow> distinct (listener_add l ls)"
  by (simp add: listener_add_def)

lemma listener_delete_set [simp]: "set (listener_delete l ls) = set ls - {l}"
  by (auto simp: listener_delete_def)

definition announce :: "nat list \<Rightarrow> 'v \<Rightarrow> (nat \<times> 'v) list" where
  "announce ls v = map (\<lambda>l. (l, v)) ls"

section \<open>What a listener believes\<close>

primrec view :: "nat \<Rightarrow> 'v \<Rightarrow> (nat \<times> 'v) list \<Rightarrow> 'v" where
  "view l v [] = v"
| "view l v (e # es) = view l (if fst e = l then snd e else v) es"

lemma view_append [simp]: "view l v (xs @ ys) = view l (view l v xs) ys"
  by (induction xs arbitrary: v) auto

lemma view_announce_same: "view l v (announce ls v) = v"
  by (induction ls) (auto simp: announce_def)

lemma view_announce [simp]: "l \<in> set ls \<Longrightarrow> view l v (announce ls w) = w"
proof (induction ls arbitrary: v)
  case (Cons k ls)
  then show ?case using view_announce_same [of l w ls] by (cases "k = l") (auto simp: announce_def)
qed simp

section \<open>The contract\<close>

locale observable =
  fixes op :: "'s \<Rightarrow> 's \<Rightarrow> bool"
    and subs :: "'s \<Rightarrow> nat list"
    and val :: "'s \<Rightarrow> 'v"
    and told :: "'s \<Rightarrow> (nat \<times> 'v) list"
  assumes subs_kept: "op s s' \<Longrightarrow> subs s' = subs s"
    and announces: "op s s' \<Longrightarrow>
      \<exists>d. told s' = told s @ d \<and> (\<forall>l \<in> set (subs s). view l (val s) d = val s')"
begin

lemma run_announces:
  "op\<^sup>*\<^sup>* s s' \<Longrightarrow>
     subs s' = subs s \<and>
     (\<exists>d. told s' = told s @ d \<and> (\<forall>l \<in> set (subs s). view l (val s) d = val s'))"
proof (induction rule: rtranclp_induct)
  case base
  show ?case by (rule conjI [OF refl], rule exI [of _ "[]"]) simp
next
  case (step u w)
  then obtain d e where "told u = told s @ d" "\<forall>l \<in> set (subs s). view l (val s) d = val u"
    "told w = told u @ e" "\<forall>l \<in> set (subs u). view l (val u) e = val w"
    using announces [of u w] by blast
  then have "told w = told s @ (d @ e) \<and> (\<forall>l \<in> set (subs s). view l (val s) (d @ e) = val w)"
    using step.IH by simp
  then show ?case using step subs_kept by metis
qed

text \<open>A listener that read the value when it subscribed knows it after any run.\<close>

lemma listener_up_to_date:
  assumes "op\<^sup>*\<^sup>* s s'" and "l \<in> set (subs s)"
  shows "view l (val s) (drop (length (told s)) (told s')) = val s'"
  using run_announces [OF assms(1)] assms(2) by auto

end

end
