(* ===== verification/DialogStore.thy ===== *)
theory DialogStore
  imports Observable
begin

text \<open>
  \<open>packages/ui/src/components/dialog/dialog-store.ts\<close>: the registry of open modals. A
  modal is opened by a call whose promise is settled when the modal closes; closing happens
  in two beats, marking and removing. The module's variables are one record, together with
  what its operations do to the outside: promises resolved, listeners told, warnings logged.
  A definition's \<open>openId\<close> is an entry of \<open>ds_openIds\<close>, and \<open>settle\<close> closes over the
  definition and the id, which are kept in the entry. Listeners do not call the registry
  back while they are told, as React's do not.
\<close>

section \<open>State\<close>

record dialog_options =
  do_size :: "string option"
  do_alert :: bool

record entry =
  en_id :: nat
  en_dialog :: nat  \<comment> \<open>the definition whose \<open>openId\<close> its \<open>settle\<close> resets\<close>
  en_props :: jv
  en_options :: dialog_options
  en_open :: bool

record dialogs =
  ds_nextId :: nat
  ds_entries :: "entry list"
  ds_mounted :: int
  ds_listeners :: "nat list"
  ds_openIds :: "nat \<Rightarrow> nat option"
  ds_settled :: "(nat \<times> jv) list"  \<comment> \<open>the promises resolved, in order\<close>
  ds_told :: "(nat \<times> entry list) list"
  ds_warnings :: nat

definition no_dialogs :: dialogs where
  "no_dialogs = \<lparr>ds_nextId = 0, ds_entries = [], ds_mounted = 0, ds_listeners = [],
     ds_openIds = (\<lambda>_. None), ds_settled = [], ds_told = [], ds_warnings = 0\<rparr>"

section \<open>Operations\<close>

definition emit :: "dialogs \<Rightarrow> dialogs" where
  "emit s = s\<lparr>ds_told := ds_told s @ announce (ds_listeners s) (ds_entries s)\<rparr>"

definition subscribe :: "nat \<Rightarrow> dialogs \<Rightarrow> dialogs" where
  "subscribe l s = s\<lparr>ds_listeners := listener_add l (ds_listeners s)\<rparr>"

definition unsubscribe :: "nat \<Rightarrow> dialogs \<Rightarrow> dialogs" where
  "unsubscribe l s = s\<lparr>ds_listeners := listener_delete l (ds_listeners s)\<rparr>"

definition getSnapshot :: "dialogs \<Rightarrow> entry list" where
  "getSnapshot s = ds_entries s"

definition push :: "entry \<Rightarrow> dialogs \<Rightarrow> dialogs" where
  "push e s = emit (s\<lparr>ds_entries := ds_entries s @ [e]\<rparr>)"

text \<open>\<open>resolve\<close> of a promise that is resolved already does nothing.\<close>

definition settle :: "entry \<Rightarrow> jv \<Rightarrow> dialogs \<Rightarrow> dialogs" where
  "settle e result s =
     (let s1 = (if ds_openIds s (en_dialog e) = Some (en_id e)
                then s\<lparr>ds_openIds := (ds_openIds s)(en_dialog e := None)\<rparr> else s)
      in if en_id e \<in> set (map fst (ds_settled s1)) then s1
         else s1\<lparr>ds_settled := ds_settled s1 @ [(en_id e, result)]\<rparr>)"

definition close_id :: "nat \<Rightarrow> jv \<Rightarrow> dialogs \<Rightarrow> dialogs" where
  "close_id i result s =
     (case List.find (\<lambda>item. en_id item = i) (ds_entries s) of
        None \<Rightarrow> s
      | Some e \<Rightarrow>
          if \<not> en_open e then s
          else settle e result (emit (s\<lparr>ds_entries :=
                 map (\<lambda>item. if en_id item = i then item\<lparr>en_open := False\<rparr> else item) (ds_entries s)\<rparr>)))"

definition remove_id :: "nat \<Rightarrow> dialogs \<Rightarrow> dialogs" where
  "remove_id i s = emit (s\<lparr>ds_entries := filter (\<lambda>item. en_id item \<noteq> i) (ds_entries s)\<rparr>)"

definition registerHost :: "dialogs \<Rightarrow> dialogs" where
  "registerHost s = s\<lparr>ds_mounted := ds_mounted s + 1\<rparr>"

definition unregisterHost :: "dialogs \<Rightarrow> dialogs" where
  "unregisterHost s = s\<lparr>ds_mounted := ds_mounted s - 1\<rparr>"

text \<open>\<open>createDialog\<close>'s \<open>open\<close>: the promise is named by the id it is opened under.\<close>

definition open_dialog :: "bool \<Rightarrow> nat \<Rightarrow> dialog_options \<Rightarrow> jv \<Rightarrow> dialogs \<Rightarrow> nat \<times> dialogs" where
  "open_dialog production d opts props s =
     (let s1 = (if \<not> production \<and> ds_mounted s = 0 then s\<lparr>ds_warnings := ds_warnings s + 1\<rparr> else s);
          i = ds_nextId s1;
          s2 = s1\<lparr>ds_nextId := i + 1, ds_openIds := (ds_openIds s1)(d := Some i)\<rparr>
      in (i, push \<lparr>en_id = i, en_dialog = d,
                   en_props = (case props of JUndef \<Rightarrow> JObj [] | JNull \<Rightarrow> JObj [] | p \<Rightarrow> p),
                   en_options = opts, en_open = True\<rparr> s2))"

definition close_dialog :: "nat \<Rightarrow> dialogs \<Rightarrow> dialogs" where
  "close_dialog d s =
     (case ds_openIds s d of Some i \<Rightarrow> close_id i JUndef s | None \<Rightarrow> s)"

text \<open>The loop runs over the array \<open>entries\<close> held when it began.\<close>

definition closeAllDialogs :: "dialogs \<Rightarrow> dialogs" where
  "closeAllDialogs s = fold (\<lambda>e. close_id (en_id e) JUndef) (ds_entries s) s"

section \<open>Lemmas on single operations\<close>

lemma emit_simps [simp]:
  "ds_nextId (emit s) = ds_nextId s" "ds_entries (emit s) = ds_entries s"
  "ds_mounted (emit s) = ds_mounted s" "ds_listeners (emit s) = ds_listeners s"
  "ds_openIds (emit s) = ds_openIds s" "ds_settled (emit s) = ds_settled s"
  "ds_told (emit s) = ds_told s @ announce (ds_listeners s) (ds_entries s)"
  "ds_warnings (emit s) = ds_warnings s"
  by (simp_all add: emit_def)

lemma settle_simps [simp]:
  "ds_nextId (settle e r s) = ds_nextId s" "ds_entries (settle e r s) = ds_entries s"
  "ds_listeners (settle e r s) = ds_listeners s" "ds_told (settle e r s) = ds_told s"
  "ds_openIds (settle e r s) =
     (if ds_openIds s (en_dialog e) = Some (en_id e) then (ds_openIds s)(en_dialog e := None)
      else ds_openIds s)"
  "ds_settled (settle e r s) =
     (if en_id e \<in> set (map fst (ds_settled s)) then ds_settled s else ds_settled s @ [(en_id e, r)])"
  by (simp_all add: settle_def Let_def)

definition mark_closed :: "nat \<Rightarrow> entry list \<Rightarrow> entry list" where
  "mark_closed i es = map (\<lambda>item. if en_id item = i then item\<lparr>en_open := False\<rparr> else item) es"

lemma mark_closed_ids [simp]: "map en_id (mark_closed i es) = map en_id es"
  by (simp add: mark_closed_def comp_def)

lemma mark_closed_open:
  "e \<in> set (mark_closed i es) \<and> en_open e \<longleftrightarrow> e \<in> set es \<and> en_open e \<and> en_id e \<noteq> i"
  by (auto simp: mark_closed_def image_iff)

section \<open>The invariant\<close>

text \<open>
  Ids are fresh and unique, and every promise handed out is in exactly one of two places:
  resolved, once, or held by an open entry. A definition's \<open>openId\<close> names an open entry of
  its own.
\<close>

definition open_ids :: "dialogs \<Rightarrow> nat set" where
  "open_ids s = {en_id e | e. e \<in> set (ds_entries s) \<and> en_open e}"

definition dialogs_inv :: "dialogs \<Rightarrow> bool" where
  "dialogs_inv s \<longleftrightarrow>
     distinct (map en_id (ds_entries s)) \<and>
     (\<forall>e \<in> set (ds_entries s). en_id e < ds_nextId s) \<and>
     distinct (map fst (ds_settled s)) \<and>
     fst ` set (ds_settled s) \<inter> open_ids s = {} \<and>
     fst ` set (ds_settled s) \<union> open_ids s = {i. i < ds_nextId s} \<and>
     (\<forall>d i. ds_openIds s d = Some i \<longrightarrow>
        (\<exists>e \<in> set (ds_entries s). en_id e = i \<and> en_dialog e = d \<and> en_open e))"

datatype dialog_event =
    Open bool nat dialog_options jv
  | Close nat jv
  | Remove nat
  | CloseDialog nat
  | CloseAll
  | MountHost
  | UnmountHost
  | Subscribe nat
  | Unsubscribe nat

fun dialog_step :: "dialog_event \<Rightarrow> dialogs \<Rightarrow> dialogs" where
  "dialog_step (Open p d opts props) s = snd (open_dialog p d opts props s)"
| "dialog_step (Close i r) s = close_id i r s"
| "dialog_step (Remove i) s = remove_id i s"
| "dialog_step (CloseDialog d) s = close_dialog d s"
| "dialog_step CloseAll s = closeAllDialogs s"
| "dialog_step MountHost s = registerHost s"
| "dialog_step UnmountHost s = unregisterHost s"
| "dialog_step (Subscribe l) s = subscribe l s"
| "dialog_step (Unsubscribe l) s = unsubscribe l s"

text \<open>The provider removes an entry when its exit animation ends, so after it is closed.\<close>

fun dialog_allowed :: "dialog_event \<Rightarrow> dialogs \<Rightarrow> bool" where
  "dialog_allowed (Remove i) s = (i \<notin> open_ids s)"
| "dialog_allowed _ s = True"

lemma inv_frame:
  assumes "dialogs_inv s" and "ds_nextId s' = ds_nextId s" and "ds_entries s' = ds_entries s"
    and "ds_settled s' = ds_settled s" and "ds_openIds s' = ds_openIds s"
  shows "dialogs_inv s'"
  using assms by (simp add: dialogs_inv_def open_ids_def)

lemma find_by_id:
  "distinct (map en_id es) \<Longrightarrow> e \<in> set es \<Longrightarrow> List.find (\<lambda>x. en_id x = en_id e) es = Some e"
  by (induction es) (auto simp: image_iff)

lemma open_ids_mem: "e \<in> set (ds_entries s) \<Longrightarrow> en_open e \<Longrightarrow> en_id e \<in> open_ids s"
  by (auto simp: open_ids_def)

text \<open>Closing: either nothing, or exactly one open entry is marked and its promise resolved.\<close>

lemma close_id_cases:
  assumes "dialogs_inv s"
  shows "i \<notin> open_ids s \<and> close_id i r s = s \<or>
    (\<exists>e. e \<in> set (ds_entries s) \<and> en_open e \<and> en_id e = i \<and>
       close_id i r s = settle e r (emit (s\<lparr>ds_entries := mark_closed i (ds_entries s)\<rparr>)) \<and>
       i \<notin> fst ` set (ds_settled s))"
proof -
  have dist: "distinct (map en_id (ds_entries s))" using assms by (simp add: dialogs_inv_def)
  show ?thesis
  proof (cases "\<exists>e \<in> set (ds_entries s). en_open e \<and> en_id e = i")
    case True
    then obtain e where e: "e \<in> set (ds_entries s)" "en_open e" "en_id e = i" by blast
    have "List.find (\<lambda>x. en_id x = i) (ds_entries s) = Some e" using find_by_id [OF dist e(1)] e(3) by simp
    moreover have "i \<notin> fst ` set (ds_settled s)"
      using assms open_ids_mem [OF e(1,2)] e(3) by (auto simp: dialogs_inv_def)
    ultimately show ?thesis using e by (auto simp: close_id_def mark_closed_def)
  next
    case False
    then have "i \<notin> open_ids s" by (auto simp: open_ids_def)
    moreover have "close_id i r s = s"
      using False by (auto simp: close_id_def split: option.splits dest: find_Some_mem)
    ultimately show ?thesis by blast
  qed
qed

lemma close_id_settled:
  assumes "dialogs_inv s"
  shows "ds_settled (close_id i r s) = ds_settled s @ (if i \<in> open_ids s then [(i, r)] else [])"
    and "open_ids (close_id i r s) = open_ids s - {i}"
    and "ds_nextId (close_id i r s) = ds_nextId s"
    and "map en_id (ds_entries (close_id i r s)) = map en_id (ds_entries s)"
  using close_id_cases [OF assms, of i r]
  by (auto simp: open_ids_def mark_closed_open image_iff; metis mark_closed_open)+

lemma close_id_inv:
  assumes "dialogs_inv s"
  shows "dialogs_inv (close_id i r s)"
proof (cases "i \<in> open_ids s")
  case False
  then show ?thesis using close_id_cases [OF assms, of i r] assms by (auto dest: open_ids_mem)
next
  case True
  then obtain e where e: "e \<in> set (ds_entries s)" "en_open e" "en_id e = i"
      "close_id i r s = settle e r (emit (s\<lparr>ds_entries := mark_closed i (ds_entries s)\<rparr>))"
      "i \<notin> fst ` set (ds_settled s)"
    using close_id_cases [OF assms, of i r] by blast
  have opens: "\<exists>x \<in> set (mark_closed i (ds_entries s)). en_id x = j \<and> en_dialog x = d \<and> en_open x"
    if "ds_openIds (close_id i r s) d = Some j" for d j
  proof -
    from that have "ds_openIds s d = Some j" using e(4) by (auto split: if_splits)
    then obtain x where x: "x \<in> set (ds_entries s)" "en_id x = j" "en_dialog x = d" "en_open x"
      using assms unfolding dialogs_inv_def by blast
    have "j \<noteq> i"
    proof
      assume "j = i"
      then have "x = e" using x e assms
        by (auto simp: dialogs_inv_def distinct_map inj_on_def)
      then show False using that x e \<open>ds_openIds s d = Some j\<close> by (auto split: if_splits)
    qed
    then show ?thesis using x mark_closed_open by metis
  qed
  have ids: "(\<forall>x \<in> set (ds_entries (close_id i r s)). en_id x < ds_nextId s)"
    using close_id_settled(4) [OF assms, of i r] assms
    by (metis (no_types, lifting) dialogs_inv_def image_eqI image_iff list.set_map)
  have ents: "ds_entries (close_id i r s) = mark_closed i (ds_entries s)" using e(4) by simp
  show ?thesis
    unfolding dialogs_inv_def
    using assms close_id_settled [OF assms, of i r] ids opens True ents
    by (auto simp: dialogs_inv_def)
qed

lemma close_all_fold:
  assumes "dialogs_inv s"
  shows "dialogs_inv (fold (\<lambda>e. close_id (en_id e) JUndef) es s) \<and>
    open_ids (fold (\<lambda>e. close_id (en_id e) JUndef) es s) = open_ids s - en_id ` set es"
  using assms
proof (induction es arbitrary: s)
  case (Cons e es)
  then show ?case
    using Cons.IH [OF close_id_inv [OF Cons.prems]] close_id_settled(2) [OF Cons.prems] by auto
qed simp

lemma closeAll_inv: "dialogs_inv s \<Longrightarrow> dialogs_inv (closeAllDialogs s)"
  unfolding closeAllDialogs_def using close_all_fold by blast

lemma open_ids_entries: "open_ids s \<subseteq> en_id ` set (ds_entries s)"
  by (auto simp: open_ids_def)

lemma closeAll_open: "dialogs_inv s \<Longrightarrow> open_ids (closeAllDialogs s) = {}"
  using close_all_fold [of s "ds_entries s"] open_ids_entries [of s]
  by (auto simp: closeAllDialogs_def)

lemma open_dialog_state:
  "open_dialog p d opts props s = (i, s') \<Longrightarrow> i = ds_nextId s \<and> ds_nextId s' = i + 1 \<and>
     (\<exists>e. ds_entries s' = ds_entries s @ [e] \<and> en_id e = i \<and> en_dialog e = d \<and> en_open e) \<and>
     ds_openIds s' = (ds_openIds s)(d := Some i) \<and> ds_settled s' = ds_settled s"
  by (auto simp: open_dialog_def Let_def push_def)

lemma open_dialog_inv:
  assumes "dialogs_inv s" and "open_dialog p d opts props s = (i, s')"
  shows "dialogs_inv s'"
proof -
  obtain e where e: "i = ds_nextId s" "ds_nextId s' = i + 1" "ds_entries s' = ds_entries s @ [e]"
      "en_id e = i" "en_dialog e = d" "en_open e"
      "ds_openIds s' = (ds_openIds s)(d := Some i)" "ds_settled s' = ds_settled s"
    using open_dialog_state [OF assms(2)] by blast
  have o: "open_ids s' = insert i (open_ids s)"
    using e(3,4,6) unfolding open_ids_def by auto
  have "i \<notin> fst ` set (ds_settled s)" using assms(1) e(1) by (auto simp: dialogs_inv_def)
  then show ?thesis
    using assms(1) e o by (auto simp: dialogs_inv_def less_Suc_eq)
qed

lemma remove_id_inv:
  assumes "dialogs_inv s" and "i \<notin> open_ids s"
  shows "dialogs_inv (remove_id i s)"
proof -
  have "open_ids (remove_id i s) = open_ids s"
    using assms(2) by (auto simp: open_ids_def remove_id_def)
  moreover have "distinct (map en_id (filter (\<lambda>item. en_id item \<noteq> i) (ds_entries s)))"
    using assms(1) by (simp add: dialogs_inv_def distinct_map_filter)
  ultimately show ?thesis
    using assms by (auto simp: dialogs_inv_def remove_id_def open_ids_def) metis
qed

lemma dialog_step_inv:
  assumes "dialogs_inv s" and "dialog_allowed ev s"
  shows "dialogs_inv (dialog_step ev s)"
proof (cases ev)
  case (Open p d opts props)
  then show ?thesis using open_dialog_inv [OF assms(1)] by (metis dialog_step.simps(1) prod.collapse)
next
  case (Remove i)
  then show ?thesis using assms remove_id_inv by simp
next
  case (CloseDialog d)
  then show ?thesis using assms close_id_inv by (auto simp: close_dialog_def split: option.splits)
qed (use assms close_id_inv closeAll_inv in \<open>auto simp: registerHost_def unregisterHost_def
       subscribe_def unsubscribe_def intro: inv_frame [OF assms(1)]\<close>)

inductive dialogs_reachable :: "dialogs \<Rightarrow> bool" where
  start: "dialogs_reachable no_dialogs"
| step: "dialogs_reachable s \<Longrightarrow> dialog_allowed ev s \<Longrightarrow> dialogs_reachable (dialog_step ev s)"

lemma no_dialogs_inv: "dialogs_inv no_dialogs"
  by (simp add: dialogs_inv_def no_dialogs_def open_ids_def)

lemma reachable_inv: "dialogs_reachable s \<Longrightarrow> dialogs_inv s"
  by (induction rule: dialogs_reachable.induct) (simp_all add: no_dialogs_inv dialog_step_inv)

section \<open>The promises\<close>

text \<open>
  C10: whatever is opened, closed and removed, every promise handed out is resolved at most
  once, and it is unresolved exactly while its modal is an open entry: no answer is lost,
  and none is given twice.
\<close>

theorem dialog_promises_accounted:
  assumes "dialogs_reachable s" and "i < ds_nextId s"
  shows "length (filter (\<lambda>p. fst p = i) (ds_settled s)) =
    (if \<exists>e \<in> set (ds_entries s). en_id e = i \<and> en_open e then 0 else 1)"
proof -
  have inv: "dialogs_inv s" using reachable_inv [OF assms(1)] .
  have len: "length (filter (\<lambda>p. fst p = i) ps) = (if i \<in> fst ` set ps then 1 else 0)"
    if "distinct (map fst ps)" for ps :: "(nat \<times> jv) list"
    using that by (induction ps) (auto simp: image_iff)
  have "(i \<in> fst ` set (ds_settled s)) = (i \<notin> open_ids s)"
    using inv assms(2) unfolding dialogs_inv_def by blast
  then show ?thesis using len inv by (auto simp: dialogs_inv_def open_ids_def)
qed

definition two_opened :: dialogs where
  "two_opened = dialog_step (Open True 0 \<lparr>do_size = None, do_alert = False\<rparr> JUndef)
     (dialog_step (Open True 0 \<lparr>do_size = None, do_alert = False\<rparr> JUndef) no_dialogs)"

lemma two_opened_reachable: "dialogs_reachable two_opened"
  unfolding two_opened_def by (intro dialogs_reachable.intros) simp_all

lemma two_opened_state:
  "ds_nextId two_opened = 2" "ds_settled two_opened = []"
  "map en_id (filter en_open (ds_entries two_opened)) = [0, 1]"
  by (simp_all add: two_opened_def open_dialog_def push_def no_dialogs_def Let_def)

theorem dialog_promises_accounted_witness:
  "length (filter (\<lambda>p. fst p = 1) (ds_settled (dialog_step (CloseDialog 0) two_opened))) = 1"
proof -
  have "dialogs_reachable (dialog_step (CloseDialog 0) two_opened)"
    by (rule dialogs_reachable.step [OF two_opened_reachable]) simp
  from dialog_promises_accounted [OF this, of 1] show ?thesis
    by (simp add: two_opened_def open_dialog_def push_def no_dialogs_def Let_def
        close_dialog_def close_id_def split: if_splits)
qed

lemma closeAll_settled_fold:
  assumes "dialogs_inv s" and "distinct (map en_id es)"
  shows "ds_settled (fold (\<lambda>e. close_id (en_id e) JUndef) es s) =
    ds_settled s @ map (\<lambda>e. (en_id e, JUndef)) (filter (\<lambda>e. en_id e \<in> open_ids s) es)"
  using assms
proof (induction es arbitrary: s)
  case (Cons e es)
  note step = close_id_settled [OF Cons.prems(1), of "en_id e" JUndef]
  have "filter (\<lambda>x. en_id x \<in> open_ids s - {en_id e}) es = filter (\<lambda>x. en_id x \<in> open_ids s) es"
    using Cons.prems(2) by (intro filter_cong) (auto simp: image_iff)
  then show ?case
    using Cons.IH [OF close_id_inv [OF Cons.prems(1)]] Cons.prems(2) step by simp
qed simp

lemma open_entries:
  assumes "distinct (map en_id (ds_entries s))"
  shows "filter (\<lambda>e. en_id e \<in> open_ids s) (ds_entries s) = filter en_open (ds_entries s)"
  using assms by (intro filter_cong) (auto simp: open_ids_def distinct_map inj_on_def)

text \<open>
  Closing everything answers every pending promise with \<open>undefined\<close>, in the order the
  modals were opened, leaves the answered ones alone, and leaves nothing open.
\<close>

theorem close_all_dialogs:
  assumes "dialogs_reachable s"
  shows "ds_settled (closeAllDialogs s) =
      ds_settled s @ map (\<lambda>e. (en_id e, JUndef)) (filter en_open (ds_entries s)) \<and>
    filter en_open (ds_entries (closeAllDialogs s)) = []"
proof -
  have inv: "dialogs_inv s" using reachable_inv [OF assms] .
  then have d: "distinct (map en_id (ds_entries s))" by (simp add: dialogs_inv_def)
  have "open_ids (closeAllDialogs s) = {}" using closeAll_open [OF inv] .
  then have "filter en_open (ds_entries (closeAllDialogs s)) = []"
    by (auto simp: open_ids_def filter_empty_conv)
  then show ?thesis
    using closeAll_settled_fold [OF inv d] open_entries [OF d] by (simp add: closeAllDialogs_def)
qed

theorem close_all_dialogs_witness:
  "ds_settled (closeAllDialogs two_opened) = [(0, JUndef), (1, JUndef)]"
proof -
  have m: "map (\<lambda>e. (en_id e, JUndef)) (filter en_open (ds_entries two_opened)) =
      map (\<lambda>i. (i, JUndef)) (map en_id (filter en_open (ds_entries two_opened)))"
    by simp
  show ?thesis
    using close_all_dialogs [OF two_opened_reachable] unfolding m two_opened_state by simp
qed

text \<open>
  A definition closes the last instance it opened: with two open, closing twice leaves the
  first one open, and its promise pending.
\<close>

lemma close_dialog_forgets_the_first:
  "filter en_open (ds_entries (close_dialog 0 (close_dialog 0 two_opened))) =
     [\<lparr>en_id = 0, en_dialog = 0, en_props = JObj [], en_options = \<lparr>do_size = None, do_alert = False\<rparr>,
       en_open = True\<rparr>]"
  by (simp add: two_opened_def open_dialog_def push_def no_dialogs_def Let_def
      close_dialog_def close_id_def)

section \<open>The listeners\<close>

text \<open>The operations that change what is shown, subscriptions aside.\<close>

inductive dialogs_op :: "dialogs \<Rightarrow> dialogs \<Rightarrow> bool" where
  op_open: "dialogs_op s (snd (open_dialog p d opts props s))"
| op_close: "dialogs_op s (close_id i r s)"
| op_remove: "dialogs_op s (remove_id i s)"
| op_mount: "dialogs_op s (registerHost s)"
| op_unmount: "dialogs_op s (unregisterHost s)"

inductive_cases dialogs_opE: "dialogs_op s s'"

lemma op_announces:
  assumes "dialogs_op s s'"
  shows "ds_listeners s' = ds_listeners s \<and>
    (\<exists>d. ds_told s' = ds_told s @ d \<and>
       (\<forall>l \<in> set (ds_listeners s). view l (ds_entries s) d = ds_entries s'))"
  using assms
proof cases
  case (op_open p d opts props)
  then show ?thesis by (auto simp: open_dialog_def push_def Let_def)
next
  case (op_close i r)
  then show ?thesis
    by (cases "List.find (\<lambda>item. en_id item = i) (ds_entries s)") (auto simp: close_id_def)
next
  case (op_remove i)
  then show ?thesis by (auto simp: remove_id_def)
qed (auto simp: registerHost_def unregisterHost_def)

interpretation dialogs_store: observable dialogs_op ds_listeners getSnapshot ds_told
  by unfold_locales (simp_all add: op_announces getSnapshot_def)

text \<open>
  a listener that read the registry when it subscribed has been told of the stack of
  modals as it is, after any run of openings, closings and removals.
\<close>

theorem dialog_listeners_up_to_date:
  assumes "dialogs_op\<^sup>*\<^sup>* s s'" and "l \<in> set (ds_listeners s)"
  shows "view l (getSnapshot s) (drop (length (ds_told s)) (ds_told s')) = getSnapshot s'"
  using assms by (rule dialogs_store.listener_up_to_date)

theorem dialog_listeners_up_to_date_witness:
  "view 7 [] (ds_told (snd (open_dialog True 0 \<lparr>do_size = None, do_alert = False\<rparr> JUndef
       (subscribe 7 no_dialogs)))) =
   [\<lparr>en_id = 0, en_dialog = 0, en_props = JObj [], en_options = \<lparr>do_size = None, do_alert = False\<rparr>,
     en_open = True\<rparr>]"
proof -
  let ?s = "subscribe 7 no_dialogs"
  have "7 \<in> set (ds_listeners ?s)" by (simp add: subscribe_def)
  moreover have "dialogs_op\<^sup>*\<^sup>* ?s (snd (open_dialog True 0 \<lparr>do_size = None, do_alert = False\<rparr> JUndef ?s))"
    using op_open by (rule r_into_rtranclp)
  ultimately show ?thesis
    using dialog_listeners_up_to_date [of ?s _ 7]
    by (fastforce simp: subscribe_def no_dialogs_def open_dialog_def push_def Let_def getSnapshot_def)
qed

end
