(* ===== verification/Session.thy ===== *)
theory Session
  imports ClientErrors Observable
begin

text \<open>
  Who is reading the dashboard: \<open>apps/dashboard/src/shared/api/session.ts\<close>, the session read
  once and shared by the router's guards, the language and the account screens. Promises are named by numbers; the callbacks a promise runs later are events of
  their own, so every order of answers and reactions is a run.
\<close>

section \<open>The current user\<close>

record user_response =
  ur_id :: int
  ur_row :: jv  \<comment> \<open>the other columns\<close>

datatype current_user =
    Authenticated user_response
  | Anonymous
  | Unavailable rustrak_error

definition getCurrentUser :: "(user_response, rustrak_error) result \<Rightarrow> current_user" where
  "getCurrentUser r =
     (case r of
        Ok u \<Rightarrow> Authenticated u
      | Err e \<Rightarrow> if err_kind e = K_unauthenticated then Anonymous else Unavailable e)"

section \<open>The store\<close>

text \<open>
  A request of \<open>ensure\<close>: the read under way; answered and published (\<open>None\<close>: rejected), with
  the reaction that may forget it still queued; and finished.
\<close>

datatype request =
    Reading
  | Answered "current_user option"
  | Finished "current_user option"

record session_store =
  ss_next :: nat
  ss_requests :: "nat \<Rightarrow> request option"
  ss_inFlight :: "nat option"
  ss_settled :: "current_user option"
  ss_listeners :: "nat list"
  ss_told :: "(nat \<times> current_user option) list"

definition createSessionStore :: session_store where
  "createSessionStore = \<lparr>ss_next = 0, ss_requests = (\<lambda>_. None), ss_inFlight = None,
     ss_settled = None, ss_listeners = [], ss_told = []\<rparr>"

definition publish :: "current_user \<Rightarrow> session_store \<Rightarrow> session_store" where
  "publish u s = s\<lparr>ss_settled := Some u, ss_told := ss_told s @ announce (ss_listeners s) (Some u)\<rparr>"

definition ensure_session :: "session_store \<Rightarrow> nat \<times> session_store" where
  "ensure_session s =
     (case ss_inFlight s of
        Some r \<Rightarrow> (r, s)
      | None \<Rightarrow>
          let r = ss_next s
          in (r, s\<lparr>ss_next := r + 1, ss_requests := (ss_requests s)(r \<mapsto> Reading),
                   ss_inFlight := Some r\<rparr>))"

text \<open>\<open>read().then(publish)\<close>: the answer is published whoever asked, and the request settles.\<close>

definition answer :: "nat \<Rightarrow> current_user option \<Rightarrow> session_store \<Rightarrow> session_store" where
  "answer r a s =
     (let s1 = (case a of Some u \<Rightarrow> publish u s | None \<Rightarrow> s)
      in s1\<lparr>ss_requests := (ss_requests s1)(r \<mapsto> Answered a)\<rparr>)"

definition forget :: "nat \<Rightarrow> session_store \<Rightarrow> session_store" where
  "forget r s = (if ss_inFlight s = Some r then s\<lparr>ss_inFlight := None\<rparr> else s)"

definition is_unavailable :: "current_user \<Rightarrow> bool" where
  "is_unavailable u = (case u of Unavailable _ \<Rightarrow> True | _ \<Rightarrow> False)"

definition react :: "nat \<Rightarrow> current_user option \<Rightarrow> session_store \<Rightarrow> session_store" where
  "react r a s =
     (let s1 = (case a of Some u \<Rightarrow> if is_unavailable u then forget r s else s | None \<Rightarrow> forget r s)
      in s1\<lparr>ss_requests := (ss_requests s1)(r \<mapsto> Finished a)\<rparr>)"

definition peek :: "session_store \<Rightarrow> current_user option" where
  "peek s = ss_settled s"

definition set_session :: "current_user \<Rightarrow> session_store \<Rightarrow> session_store" where
  "set_session u s =
     publish u (s\<lparr>ss_next := ss_next s + 1,
                  ss_requests := (ss_requests s)(ss_next s \<mapsto> Finished (Some u)),
                  ss_inFlight := Some (ss_next s)\<rparr>)"

definition clear_session :: "session_store \<Rightarrow> session_store" where
  "clear_session s = publish Anonymous (s\<lparr>ss_inFlight := None\<rparr>)"

definition subscribe_session :: "nat \<Rightarrow> session_store \<Rightarrow> session_store" where
  "subscribe_session l s = s\<lparr>ss_listeners := listener_add l (ss_listeners s)\<rparr>"

definition unsubscribe_session :: "nat \<Rightarrow> session_store \<Rightarrow> session_store" where
  "unsubscribe_session l s = s\<lparr>ss_listeners := listener_delete l (ss_listeners s)\<rparr>"

lemma publish_simps [simp]:
  "ss_next (publish u s) = ss_next s" "ss_requests (publish u s) = ss_requests s"
  "ss_inFlight (publish u s) = ss_inFlight s" "ss_settled (publish u s) = Some u"
  "ss_listeners (publish u s) = ss_listeners s"
  "ss_told (publish u s) = ss_told s @ announce (ss_listeners s) (Some u)"
  by (simp_all add: publish_def)

lemma forget_simps [simp]:
  "ss_next (forget r s) = ss_next s" "ss_requests (forget r s) = ss_requests s"
  "ss_settled (forget r s) = ss_settled s" "ss_listeners (forget r s) = ss_listeners s"
  "ss_told (forget r s) = ss_told s"
  "ss_inFlight (forget r s) = (if ss_inFlight s = Some r then None else ss_inFlight s)"
  by (simp_all add: forget_def)

section \<open>Runs\<close>

text \<open>
  \<open>quiet\<close> steps are the guards' and the network's; a sign-in or a sign-out is not. A
  session that is set is one a sign-in proved, so never \<open>Unavailable\<close>.
\<close>

inductive quiet_step :: "session_store \<Rightarrow> session_store \<Rightarrow> bool" where
  ensures: "quiet_step s (snd (ensure_session s))"
| answers: "ss_requests s r = Some Reading \<Longrightarrow> quiet_step s (answer r a s)"
| reacts: "ss_requests s r = Some (Answered a) \<Longrightarrow> quiet_step s (react r a s)"

inductive session_step :: "session_store \<Rightarrow> session_store \<Rightarrow> bool" where
  quiet: "quiet_step s s' \<Longrightarrow> session_step s s'"
| sets: "\<not> is_unavailable u \<Longrightarrow> session_step s (set_session u s)"
| clears: "session_step s (clear_session s)"

inductive_cases quiet_stepE: "quiet_step s s'"
inductive_cases session_stepE: "session_step s s'"

definition session_started :: "nat list \<Rightarrow> session_store" where
  "session_started ls = fold subscribe_session ls createSessionStore"

lemma session_started_state:
  "ss_next (session_started ls) = 0 \<and> ss_requests (session_started ls) = (\<lambda>_. None) \<and>
   ss_inFlight (session_started ls) = None \<and> ss_settled (session_started ls) = None"
proof -
  have "ss_next (fold subscribe_session ls s) = ss_next s \<and>
      ss_requests (fold subscribe_session ls s) = ss_requests s \<and>
      ss_inFlight (fold subscribe_session ls s) = ss_inFlight s \<and>
      ss_settled (fold subscribe_session ls s) = ss_settled s" for s
    by (induction ls arbitrary: s) (simp_all add: subscribe_session_def)
  then show ?thesis by (simp add: session_started_def createSessionStore_def)
qed

lemma step_announces:
  assumes "session_step s s'"
  shows "ss_listeners s' = ss_listeners s \<and>
    (\<exists>d. ss_told s' = ss_told s @ d \<and>
       (\<forall>l \<in> set (ss_listeners s). view l (ss_settled s) d = ss_settled s'))"
  using assms
proof cases
  case quiet
  then show ?thesis
  proof cases
    case ensures
    then show ?thesis by (auto simp: ensure_session_def Let_def split: option.splits)
  next
    case (answers r a)
    then show ?thesis by (auto simp: answer_def Let_def split: option.splits)
  next
    case (reacts r a)
    then show ?thesis by (auto simp: react_def Let_def split: option.splits)
  qed
qed (auto simp: set_session_def clear_session_def)

interpretation sessions: observable session_step ss_listeners peek ss_told
  by unfold_locales (simp_all add: step_announces peek_def)

section \<open>What the memo holds\<close>

definition memo_inv :: "session_store \<Rightarrow> bool" where
  "memo_inv s \<longleftrightarrow>
     (\<forall>r \<ge> ss_next s. ss_requests s r = None) \<and>
     (\<forall>r. ss_inFlight s = Some r \<longrightarrow>
        (case ss_requests s r of
           None \<Rightarrow> False
         | Some Reading \<Rightarrow> True
         | Some (Answered _) \<Rightarrow> True
         | Some (Finished None) \<Rightarrow> False
         | Some (Finished (Some u)) \<Rightarrow> \<not> is_unavailable u))"

lemma memo_step:
  assumes "session_step s s'" and "memo_inv s"
  shows "memo_inv s'"
  using assms(1)
proof cases
  case quiet
  then show ?thesis
  proof cases
    case ensures
    then show ?thesis using assms(2)
      by (auto simp: ensure_session_def Let_def memo_inv_def split: option.splits)
  next
    case (answers r a)
    then have "r < ss_next s" using assms(2) by (metis memo_inv_def not_less option.distinct(1))
    then show ?thesis using assms(2) answers
      by (auto simp: answer_def Let_def memo_inv_def split: option.splits)
  next
    case (reacts r a)
    then have "r < ss_next s" using assms(2) by (metis memo_inv_def not_less option.distinct(1))
    then show ?thesis using assms(2) reacts
      by (auto simp: react_def Let_def memo_inv_def split: option.splits)
  qed
next
  case (sets u)
  then show ?thesis using assms(2) by (auto simp: set_session_def memo_inv_def)
next
  case clears
  then show ?thesis using assms(2) by (auto simp: clear_session_def memo_inv_def)
qed

lemma memo_run: "session_step\<^sup>*\<^sup>* (session_started ls) s \<Longrightarrow> memo_inv s"
proof (induction rule: rtranclp_induct)
  case base
  show ?case using session_started_state [of ls] by (simp add: memo_inv_def)
qed (rule memo_step)

text \<open>
  a failure to ask is not remembered. Whatever happened before, \<open>ensure\<close> gives a read
  that is under way, an answer whose reaction is about to run, or an answer that is not
  \<open>Unavailable\<close>; never a rejected or an unavailable one from before.
\<close>

theorem ensure_never_remembers_failure:
  assumes "session_step\<^sup>*\<^sup>* (session_started ls) s" and "ensure_session s = (r, s')"
  shows "case ss_requests s' r of
      None \<Rightarrow> False
    | Some Reading \<Rightarrow> True
    | Some (Answered _) \<Rightarrow> ss_inFlight s = Some r
    | Some (Finished a) \<Rightarrow> (\<exists>u. a = Some u \<and> \<not> is_unavailable u)"
proof (cases "ss_inFlight s")
  case None
  then show ?thesis using assms(2) by (auto simp: ensure_session_def Let_def)
next
  case (Some q)
  then have "q = r" "s' = s" using assms(2) by (auto simp: ensure_session_def)
  then show ?thesis
    using Some memo_run [OF assms(1)] unfolding memo_inv_def
    by (fastforce split: option.splits request.splits)
qed

definition unavailable_answer :: current_user where
  "unavailable_answer = Unavailable (Network (JStr NETWORK_ERROR_MESSAGE) Unreachable)"

definition after_failure :: session_store where
  "after_failure = react 0 (Some unavailable_answer)
     (answer 0 (Some unavailable_answer) (snd (ensure_session (session_started []))))"

lemma started_nil: "session_started [] = createSessionStore"
  by (simp add: session_started_def)

lemma after_failure_run: "session_step\<^sup>*\<^sup>* (session_started []) after_failure"
proof -
  let ?a = "snd (ensure_session (session_started []))"
  let ?b = "answer 0 (Some unavailable_answer) ?a"
  have "session_step (session_started []) ?a" by (rule session_step.quiet [OF quiet_step.ensures])
  moreover have "session_step ?a ?b"
    by (rule session_step.quiet, rule quiet_step.answers)
      (simp add: ensure_session_def started_nil createSessionStore_def Let_def)
  moreover have "session_step ?b after_failure"
    unfolding after_failure_def
    by (rule session_step.quiet, rule quiet_step.reacts) (simp add: answer_def Let_def)
  ultimately show ?thesis by (meson rtranclp.rtrancl_into_rtrancl rtranclp.rtrancl_refl)
qed

theorem ensure_never_remembers_failure_witness:
  "fst (ensure_session after_failure) = 1 \<and>
   (case ss_requests (snd (ensure_session after_failure)) 1 of Some Reading \<Rightarrow> True | _ \<Rightarrow> False)"
proof -
  have e: "ensure_session after_failure = (1, snd (ensure_session after_failure))"
    by (simp add: after_failure_def react_def answer_def ensure_session_def started_nil Let_def
        createSessionStore_def unavailable_answer_def is_unavailable_def)
  show ?thesis
    using ensure_never_remembers_failure [OF after_failure_run e] e
    by (auto simp: after_failure_def react_def answer_def ensure_session_def started_nil Let_def
        createSessionStore_def unavailable_answer_def is_unavailable_def)
qed

section \<open>One request\<close>

definition single_inv :: "session_store \<Rightarrow> bool" where
  "single_inv s \<longleftrightarrow> (\<forall>r. ss_requests s r = Some Reading \<longrightarrow> ss_inFlight s = Some r)"

lemma single_step:
  assumes "quiet_step s s'" and "single_inv s"
  shows "single_inv s'"
  using assms(1)
proof cases
  case ensures
  then show ?thesis using assms(2)
    by (auto simp: single_inv_def ensure_session_def Let_def split: option.splits)
next
  case (answers r a)
  then show ?thesis using assms(2) by (auto simp: single_inv_def answer_def Let_def split: option.splits)
next
  case (reacts r a)
  then show ?thesis using assms(2)
    by (auto simp: single_inv_def react_def Let_def split: option.splits)
qed

text \<open>
  until someone signs in or out, the guards share one request: while a read is under
  way it is the only one, and asking again gives its promise and starts nothing.
\<close>

theorem guards_share_one_read:
  assumes "quiet_step\<^sup>*\<^sup>* (session_started ls) s" and "ss_requests s r = Some Reading"
  shows "ensure_session s = (r, s) \<and> (\<forall>q. ss_requests s q = Some Reading \<longrightarrow> q = r)"
proof -
  from assms(1) have "single_inv s"
  proof (induction rule: rtranclp_induct)
    case base
    show ?case using session_started_state [of ls] by (simp add: single_inv_def)
  qed (rule single_step)
  then have "ss_requests s q = Some Reading \<Longrightarrow> ss_inFlight s = Some q" for q
    by (simp add: single_inv_def)
  from this [OF assms(2)] this show ?thesis by (auto simp: ensure_session_def)
qed

theorem guards_share_one_read_witness:
  "ensure_session (snd (ensure_session (session_started [3]))) =
     (0, snd (ensure_session (session_started [3])))"
  using guards_share_one_read
    [OF r_into_rtranclp [where r = quiet_step, OF quiet_step.ensures [of "session_started [3]"]], of 0]
  by (simp add: ensure_session_def session_started_def subscribe_session_def createSessionStore_def Let_def)

text \<open>
  A read under way when someone signs in still publishes what it was answered: the
  session that is shown is then the stale one, while \<open>ensure\<close> gives the one just proved,
  and starts no read that would settle the difference.
\<close>

theorem stale_read_overwrites:
  assumes "session_step\<^sup>*\<^sup>* (session_started ls) s" and "ss_requests s r = Some Reading"
  shows "let s' = answer r (Some old) (set_session u s) in
      peek s' = Some old \<and> snd (ensure_session s') = s' \<and>
      ss_requests s' (fst (ensure_session s')) = Some (Finished (Some u))"
proof -
  have "r < ss_next s"
    using memo_run [OF assms(1)] assms(2) by (metis memo_inv_def not_less option.distinct(1))
  then show ?thesis
    by (simp add: answer_def set_session_def ensure_session_def peek_def Let_def)
qed

theorem stale_read_overwrites_witness:
  "peek (answer 0 (Some Anonymous) (set_session (Authenticated \<lparr>ur_id = 7, ur_row = JNull\<rparr>)
     (snd (ensure_session (session_started []))))) = Some Anonymous"
  using stale_read_overwrites
    [OF r_into_rtranclp [where r = session_step,
        OF session_step.quiet [OF quiet_step.ensures [of "session_started []"]]],
      of 0 Anonymous "Authenticated \<lparr>ur_id = 7, ur_row = JNull\<rparr>"]
  by (simp add: ensure_session_def started_nil createSessionStore_def Let_def)

section \<open>Every request settles\<close>

text \<open>
  An infinite run that is fair to the network and to the queue of reactions: a read under way
  is answered some time, and the reaction to an answer runs some time.
\<close>

definition fair_run :: "nat list \<Rightarrow> (nat \<Rightarrow> session_store) \<Rightarrow> bool" where
  "fair_run ls run \<longleftrightarrow>
     run 0 = session_started ls
     \<and> (\<forall>i. session_step (run i) (run (Suc i)) \<or> run (Suc i) = run i)
     \<and> (\<forall>i r. ss_requests (run i) r = Some Reading \<longrightarrow> (\<exists>j \<ge> i. ss_requests (run j) r \<noteq> Some Reading))
     \<and> (\<forall>i r a. ss_requests (run i) r = Some (Answered a) \<longrightarrow> (\<exists>j \<ge> i. ss_requests (run j) r \<noteq> Some (Answered a)))"

definition moves_on :: "request \<Rightarrow> request option \<Rightarrow> bool" where
  "moves_on q q' \<longleftrightarrow>
     q' = Some q \<or> (q = Reading \<and> (\<exists>a. q' = Some (Answered a))) \<or> (\<exists>a. q = Answered a \<and> q' = Some (Finished a))"

lemma request_moves_on:
  assumes "session_step s s'" "memo_inv s" "ss_requests s r = Some q"
  shows "moves_on q (ss_requests s' r)"
proof -
  have fresh: "ss_requests s (ss_next s) = None" using assms(2) by (simp add: memo_inv_def)
  from assms(1) show ?thesis
  proof cases
    case quiet
    then show ?thesis
    proof cases
      case ensures
      then show ?thesis using assms(3) fresh
        by (auto simp: ensure_session_def Let_def moves_on_def split: option.splits)
    next
      case (answers p a)
      then show ?thesis using assms(3) by (auto simp: answer_def Let_def moves_on_def split: option.splits)
    next
      case (reacts p a)
      then show ?thesis using assms(3) by (auto simp: react_def Let_def moves_on_def split: option.splits)
    qed
  next
    case (sets u)
    then show ?thesis using assms(3) fresh by (auto simp: set_session_def moves_on_def)
  next
    case clears
    then show ?thesis using assms(3) by (auto simp: clear_session_def moves_on_def)
  qed
qed

lemma fair_run_memo: "fair_run ls run \<Longrightarrow> memo_inv (run i)"
proof (induction i)
  case 0
  then show ?case using memo_run [of ls "run 0"] by (simp add: fair_run_def)
next
  case (Suc i)
  then have "session_step (run i) (run (Suc i)) \<or> run (Suc i) = run i" by (simp add: fair_run_def)
  with Suc show ?case using memo_step by metis
qed

lemma fair_run_moves:
  assumes "fair_run ls run" "ss_requests (run i) r = Some q"
  shows "moves_on q (ss_requests (run (Suc i)) r)"
proof -
  have "session_step (run i) (run (Suc i)) \<or> run (Suc i) = run i" using assms(1) by (simp add: fair_run_def)
  then show ?thesis
    using request_moves_on [OF _ fair_run_memo [OF assms(1)] assms(2)] assms(2) by (auto simp: moves_on_def)
qed

text \<open>Leaving a phase that ends some time: the first moment it is over is the next phase.\<close>

lemma phase_ends:
  assumes run: "fair_run ls run" and q: "ss_requests (run i) r = Some q"
    and ends: "\<exists>j \<ge> i. ss_requests (run j) r \<noteq> Some q"
  shows "\<exists>j \<ge> i. \<exists>q'. ss_requests (run j) r = Some q' \<and> q' \<noteq> q \<and> moves_on q (Some q')"
proof -
  from ends obtain d where "ss_requests (run (i + d)) r \<noteq> Some q"
    using le_Suc_ex by blast
  then show ?thesis
  proof (induction d)
    case 0
    with q show ?case by simp
  next
    case (Suc d)
    show ?case
    proof (cases "ss_requests (run (i + d)) r = Some q")
      case True
      have m: "moves_on q (ss_requests (run (i + Suc d)) r)" using fair_run_moves [OF run True] by simp
      with Suc.prems obtain q' where "ss_requests (run (i + Suc d)) r = Some q'" "q' \<noteq> q"
        by (auto simp: moves_on_def)
      with m show ?thesis by (intro exI [of _ "i + Suc d"]) simp
    qed (rule Suc.IH)
  qed
qed

lemma finished_stays:
  assumes "fair_run ls run" "ss_requests (run j) r = Some (Finished a)" "j \<le> k"
  shows "ss_requests (run k) r = Some (Finished a)"
  using assms(3)
proof (induction k rule: dec_induct)
  case (step k)
  then show ?case using fair_run_moves [OF assms(1), of k r "Finished a"] by (simp add: moves_on_def)
qed (rule assms(2))

lemma fair_phases:
  assumes "fair_run ls run"
  shows "ss_requests (run i) r = Some Reading \<Longrightarrow> \<exists>j \<ge> i. \<exists>a. ss_requests (run j) r = Some (Answered a)"
    "ss_requests (run i) r = Some (Answered a) \<Longrightarrow> \<exists>j \<ge> i. ss_requests (run j) r = Some (Finished a)"
proof -
  show "\<exists>j \<ge> i. \<exists>a. ss_requests (run j) r = Some (Answered a)" if "ss_requests (run i) r = Some Reading"
    using phase_ends [OF assms that] assms that by (auto simp: fair_run_def moves_on_def)
  show "\<exists>j \<ge> i. ss_requests (run j) r = Some (Finished a)" if "ss_requests (run i) r = Some (Answered a)"
    using phase_ends [OF assms that] assms that by (auto simp: fair_run_def moves_on_def)
qed

text \<open>
  C8: No guard waits for ever: where the network answers and queued reactions run, every
  request that was ever handed out ends with an answer and keeps it, and one that ended
  without knowing who is signed in is not handed out again.
\<close>

theorem every_request_settles:
  assumes run: "fair_run ls run" and r: "ss_requests (run i) r = Some q"
  shows "\<exists>j \<ge> i. \<exists>a. \<forall>k \<ge> j. ss_requests (run k) r = Some (Finished a)
     \<and> (a = None \<or> is_unavailable (the a) \<longrightarrow> fst (ensure_session (run k)) \<noteq> r)"
proof -
  obtain j a where j: "i \<le> j" "ss_requests (run j) r = Some (Finished a)"
  proof (cases q)
    case Reading
    then show ?thesis using fair_phases [OF run] r that by (meson le_trans)
  next
    case (Answered b)
    then show ?thesis using fair_phases(2) [OF run] r that by blast
  next
    case (Finished b)
    then show ?thesis using r that by blast
  qed
  have "fst (ensure_session (run k)) \<noteq> r" if "j \<le> k" "a = None \<or> is_unavailable (the a)" for k
  proof -
    have f: "ss_requests (run k) r = Some (Finished a)" by (rule finished_stays [OF run j(2) that(1)])
    have m: "memo_inv (run k)" by (rule fair_run_memo [OF run])
    have "ss_inFlight (run k) \<noteq> Some r"
      using m f that(2) by (auto simp: memo_inv_def split: option.splits)
    moreover have "ss_next (run k) \<noteq> r" using m f by (auto simp: memo_inv_def)
    ultimately show ?thesis by (auto simp: ensure_session_def Let_def split: option.splits)
  qed
  then show ?thesis using j finished_stays [OF run j(2)] by blast
qed

text \<open>A run in which the first request fails and the run then rests.\<close>

definition failing_run :: "nat \<Rightarrow> session_store" where
  "failing_run i =
     (if i = 0 then session_started []
      else if i = 1 then snd (ensure_session (session_started []))
      else if i = 2 then answer 0 (Some unavailable_answer) (snd (ensure_session (session_started [])))
      else after_failure)"

lemma failing_run_requests:
  "ss_requests (failing_run i) =
     (if i = 0 then (\<lambda>_. None) else if i = 1 then [0 \<mapsto> Reading]
      else if i = 2 then [0 \<mapsto> Answered (Some unavailable_answer)] else [0 \<mapsto> Finished (Some unavailable_answer)])"
  by (auto simp: failing_run_def after_failure_def react_def answer_def ensure_session_def started_nil Let_def
      createSessionStore_def fun_eq_iff)

lemma failing_run_fair: "fair_run [] failing_run"
proof -
  have "session_step (failing_run i) (failing_run (Suc i)) \<or> failing_run (Suc i) = failing_run i" for i
  proof -
    consider "i = 0" | "i = 1" | "i = 2" | "i \<ge> 3" by linarith
    then show ?thesis
    proof cases
      case 1
      then show ?thesis by (simp add: failing_run_def session_step.quiet quiet_step.ensures)
    next
      case 2
      have "ss_requests (failing_run 1) 0 = Some Reading" by (simp add: failing_run_requests)
      from quiet_step.answers [OF this, of "Some unavailable_answer"] show ?thesis
        using 2 by (simp add: failing_run_def session_step.quiet numeral_2_eq_2)
    next
      case 3
      have "ss_requests (failing_run 2) 0 = Some (Answered (Some unavailable_answer))"
        by (simp add: failing_run_requests)
      from quiet_step.reacts [OF this] show ?thesis
        using 3 by (simp add: failing_run_def session_step.quiet after_failure_def)
    next
      case 4
      then show ?thesis by (simp add: failing_run_def)
    qed
  qed
  moreover have "\<exists>j \<ge> i. ss_requests (failing_run j) r = Some (Finished (Some unavailable_answer))
      \<or> ss_requests (failing_run j) r = None" for i r
    by (intro exI [of _ "i + 3"]) (simp add: failing_run_requests)
  ultimately show ?thesis
    unfolding fair_run_def by (intro conjI allI impI) (simp add: failing_run_def, blast, metis option.distinct(1) option.inject request.distinct, metis option.distinct(1) option.inject request.distinct)
qed

lemma every_request_settles_witness:
  "\<exists>j \<ge> 1. \<exists>a. \<forall>k \<ge> j. ss_requests (failing_run k) 0 = Some (Finished a)"
proof -
  have "ss_requests (failing_run 1) 0 = Some Reading" by (simp add: failing_run_requests)
  from every_request_settles [OF failing_run_fair this] show ?thesis by blast
qed

end
