(* ===== verification/ReaderCache.thy ===== *)
theory ReaderCache
  imports Session
begin

text \<open>
  What the dashboard keeps for the reader across screens: the cache that is emptied when the
  reader changes and the clock that moves when data arrives (\<open>shared/api/query.ts\<close>), and the
  address a sign-in goes back to (\<open>shared/api/return-path.ts\<close>). The query client is
  TanStack's: of its cache only what \<open>clear()\<close> does is used, that nothing is left in it.
\<close>

section \<open>Failures as exceptions\<close>

definition orThrow :: "('t, rustrak_error) result \<Rightarrow> rustrak_error + 't" where
  "orThrow r = (case r of Ok d \<Rightarrow> Inr d | Err e \<Rightarrow> Inl e)"

section \<open>The cache and the reader\<close>

text \<open>A cached query remembers here who was reading when it was filled.\<close>

record reader_cache =
  rc_session :: session_store
  rc_last :: "int option"
  rc_cache :: "(jv list \<times> int option) list"

definition reader :: "session_store \<Rightarrow> int option" where
  "reader s = (case peek s of Some (Authenticated u) \<Rightarrow> Some (ur_id u) | _ \<Rightarrow> None)"

text \<open>Subscribing notes who is reading, and leaves the client it is given as it is.\<close>

definition clearOnUserChange :: "(jv list \<times> int option) list \<Rightarrow> session_store \<Rightarrow> reader_cache" where
  "clearOnUserChange cache s = \<lparr>rc_session = s, rc_last = reader s, rc_cache = cache\<rparr>"

definition on_session :: "reader_cache \<Rightarrow> reader_cache" where
  "on_session c =
     (let next = reader (rc_session c)
      in if next = rc_last c then c else c\<lparr>rc_last := next, rc_cache := []\<rparr>)"

text \<open>
  A step of the session runs the listener when it publishes. One that does not publish
  leaves the session as it was, and there the listener does nothing.
\<close>

inductive cache_step :: "reader_cache \<Rightarrow> reader_cache \<Rightarrow> bool" where
  session_moves: "session_step (rc_session c) s' \<Longrightarrow> cache_step c (on_session (c\<lparr>rc_session := s'\<rparr>))"
| fetched: "cache_step c (c\<lparr>rc_cache := (key, reader (rc_session c)) # rc_cache c\<rparr>)"

inductive_cases cache_stepE: "cache_step c c'"

lemma quiet_without_answer:
  "quiet_step s s' \<Longrightarrow> ss_told s' = ss_told s \<Longrightarrow> ss_listeners s \<noteq> [] \<Longrightarrow> peek s' = peek s"
  by (auto elim!: quiet_stepE simp: ensure_session_def answer_def react_def announce_def peek_def Let_def
      split: option.splits)

text \<open>
  C34: nothing one reader was shown is in the cache for another: over a client that holds nothing of
  another reader when it is handed over (the application's is new and empty), after any run of answers,
  sign-ins, sign-outs and reads, every cached query was filled for the reader of now.
\<close>

theorem cache_belongs_to_reader:
  assumes "cache_step\<^sup>*\<^sup>* (clearOnUserChange cache s) c" and "\<forall>(k, who) \<in> set cache. who = reader s"
  shows "rc_last c = reader (rc_session c) \<and> (\<forall>(k, who) \<in> set (rc_cache c). who = reader (rc_session c))"
  using assms(1)
proof (induction rule: rtranclp_induct)
  case base
  show ?case using assms(2) by (simp add: clearOnUserChange_def)
next
  case (step c c')
  from step.hyps(2) show ?case
    using step.IH by cases (auto simp: on_session_def Let_def)
qed

theorem cache_belongs_to_reader_witness:
  "let c = on_session ((clearOnUserChange [([JStr ''instance''], None)] createSessionStore)
       \<lparr>rc_session := set_session (Authenticated \<lparr>ur_id = 7, ur_row = JNull\<rparr>) createSessionStore\<rparr>)
   in reader (rc_session c) = Some 7 \<and> rc_last c = Some 7 \<and> (\<forall>(k, who) \<in> set (rc_cache c). who = Some 7)"
proof -
  let ?u = "Authenticated \<lparr>ur_id = 7, ur_row = JNull\<rparr>"
  let ?c = "clearOnUserChange [([JStr ''instance''], None)] createSessionStore"
  have s: "session_step (rc_session ?c) (set_session ?u createSessionStore)"
    by (simp add: clearOnUserChange_def session_step.sets is_unavailable_def)
  have n: "\<forall>(k, who) \<in> set [([JStr ''instance''], None)]. who = reader createSessionStore"
    by (simp add: reader_def peek_def createSessionStore_def)
  have r: "reader (set_session ?u createSessionStore) = Some 7"
    by (simp add: reader_def peek_def set_session_def Let_def)
  from cache_belongs_to_reader [OF r_into_rtranclp [where r = cache_step,
        OF cache_step.session_moves [OF s]] n]
  have "rc_last (on_session (?c\<lparr>rc_session := set_session ?u createSessionStore\<rparr>)) = Some 7"
    "\<forall>(k, who) \<in> set (rc_cache (on_session (?c\<lparr>rc_session := set_session ?u createSessionStore\<rparr>))). who = Some 7"
    using r by (simp_all add: on_session_def Let_def split: if_splits)
  then show ?thesis using r by (simp add: on_session_def Let_def)
qed

section \<open>The clock\<close>

text \<open>A success queues one move; the microtask runs it.\<close>

record now_clock =
  nc_queued :: bool
  nc_moves :: nat

datatype cache_event = Success | OtherUpdate | Microtask

fun refreshNowOnData :: "cache_event \<Rightarrow> now_clock \<Rightarrow> now_clock" where
  "refreshNowOnData Success c = (if nc_queued c then c else c\<lparr>nc_queued := True\<rparr>)"
| "refreshNowOnData OtherUpdate c = c"
| "refreshNowOnData Microtask c =
     (if nc_queued c then c\<lparr>nc_queued := False, nc_moves := nc_moves c + 1\<rparr> else c)"

lemma clock_run_to_microtask:
  "Microtask \<notin> set evs \<Longrightarrow>
     fold refreshNowOnData evs c = c\<lparr>nc_queued := nc_queued c \<or> Success \<in> set evs\<rparr>"
proof (induction evs arbitrary: c)
  case (Cons e evs)
  then show ?case by (cases e) auto
qed simp

lemma clock_moves_once_per_tick:
  "Microtask \<notin> set evs \<Longrightarrow> \<not> nc_queued c \<Longrightarrow>
     fold refreshNowOnData (evs @ [Microtask]) c =
       c\<lparr>nc_moves := nc_moves c + (if Success \<in> set evs then 1 else 0)\<rparr>"
  by (auto simp: clock_run_to_microtask)

section \<open>The way back\<close>

text \<open>
  The tab's \<open>sessionStorage\<close>: it may refuse to be touched at all, or its quota may be
  spent, and then it refuses the write alone. Only the return path's own key is kept.
\<close>

record tab_storage =
  ts_refused :: bool
  ts_full :: bool
  ts_returnPath :: "string option"

definition remember :: "string \<Rightarrow> tab_storage \<Rightarrow> tab_storage" where
  "remember href st =
     (if ts_refused st then st
      else if ts_full st then st\<lparr>ts_returnPath := None\<rparr>
      else st\<lparr>ts_returnPath := Some href\<rparr>)"

text \<open>\<open>new URL(stored, base)\<close> is the platform's parser: an argument, \<open>None\<close> when it throws.\<close>

record parsed_url =
  pu_origin :: string
  pu_pathname :: string
  pu_search :: string
  pu_hash :: string

definition ORIGIN :: string where
  "ORIGIN = ''http://rustrak.invalid''"

definition is_local_path :: "string \<Rightarrow> bool" where
  "is_local_path path \<longleftrightarrow>
     starts_with ''/'' path \<and> \<not> starts_with ''//'' path \<and> \<not> starts_with [CHR ''/'', CHR 0x5C] path"

definition resumablePath ::
  "(string \<Rightarrow> string \<Rightarrow> parsed_url option) \<Rightarrow> string option \<Rightarrow> string option" where
  "resumablePath parse_url stored =
     (case stored of
        None \<Rightarrow> None
      | Some s \<Rightarrow>
          if \<not> starts_with ''/'' s then None
          else (case parse_url s ORIGIN of
                  None \<Rightarrow> None
                | Some url \<Rightarrow>
                    if pu_origin url \<noteq> ORIGIN then None
                    else let path = pu_pathname url @ pu_search url @ pu_hash url
                         in if is_local_path path then Some path else None))"

definition take_path ::
  "(string \<Rightarrow> string \<Rightarrow> parsed_url option) \<Rightarrow> tab_storage \<Rightarrow> string option \<times> tab_storage" where
  "take_path parse_url st =
     (if ts_refused st then (None, st)
      else (resumablePath parse_url (ts_returnPath st), st\<lparr>ts_returnPath := None\<rparr>))"

datatype path_event = Remember string | Take

fun path_run :: "(string \<Rightarrow> string \<Rightarrow> parsed_url option) \<Rightarrow> path_event list \<Rightarrow> tab_storage \<Rightarrow> string option list" where
  "path_run parse_url [] st = []"
| "path_run parse_url (Remember h # evs) st = path_run parse_url evs (remember h st)"
| "path_run parse_url (Take # evs) st =
     (let (p, st') = take_path parse_url st in p # path_run parse_url evs st')"

text \<open>
  Which addresses a browser follows without leaving the origin, from the URL standard and not from the
  code: leading control characters and spaces are stripped and tabs and line ends removed; of what is
  left, one slash and not two opens a path, where for the schemes of the web a backslash is a slash.
\<close>

definition url_input :: "string \<Rightarrow> string" where
  "url_input s = filter (\<lambda>c. c \<notin> {CHR 0x09, CHR 0x0A, CHR 0x0D}) (dropWhile (\<lambda>c. (of_char c :: nat) \<le> 32) s)"

definition stays_on_origin :: "string \<Rightarrow> bool" where
  "stays_on_origin s =
     (let slash = (\<lambda>c. c = CHR ''/'' \<or> c = CHR 0x5C)
      in case url_input s of
           [] \<Rightarrow> False
         | [c] \<Rightarrow> slash c
         | c # d # _ \<Rightarrow> slash c \<and> \<not> slash d)"

text \<open>What the code relies on of the parser: what it returns is encoded, with no tab and no line end left in it.\<close>

definition url_text :: "parsed_url \<Rightarrow> string" where
  "url_text url = pu_pathname url @ pu_search url @ pu_hash url"

definition documented_parser :: "(string \<Rightarrow> string \<Rightarrow> parsed_url option) \<Rightarrow> bool" where
  "documented_parser parse_url \<longleftrightarrow>
     (\<forall>s url. parse_url s ORIGIN = Some url \<longrightarrow> list_all (\<lambda>c. c \<notin> {CHR 0x09, CHR 0x0A, CHR 0x0D}) (url_text url))"

text \<open>What may be resumed of a remembered address, and what is.\<close>

definition safe_return :: "(string \<Rightarrow> string \<Rightarrow> parsed_url option) \<Rightarrow> string \<Rightarrow> string option" where
  "safe_return parse_url h =
     (case parse_url h ORIGIN of
        None \<Rightarrow> None
      | Some url \<Rightarrow>
          if take 1 h = ''/'' \<and> pu_origin url = ''http://rustrak.invalid'' \<and> take 1 (url_text url) = ''/''
             \<and> stays_on_origin (url_text url)
          then Some (url_text url) else None)"

lemma stays_when_clean:
  assumes "list_all (\<lambda>c. c \<notin> {CHR 0x09, CHR 0x0A, CHR 0x0D}) s" "take 1 s = ''/''"
  shows "stays_on_origin s \<longleftrightarrow> (case s of _ # c # _ \<Rightarrow> c \<noteq> CHR ''/'' \<and> c \<noteq> CHR 0x5C | _ \<Rightarrow> True)"
proof -
  obtain r where r: "s = CHR ''/'' # r" using assms(2) by (cases s) auto
  have "filter (\<lambda>c. c \<notin> {CHR 0x09, CHR 0x0A, CHR 0x0D}) s = s" using assms(1) by (simp add: list_all_iff)
  then have "url_input s = s" by (simp add: url_input_def r)
  then show ?thesis by (simp add: stays_on_origin_def r split: list.splits)
qed

lemma local_path_stays:
  assumes "list_all (\<lambda>c. c \<notin> {CHR 0x09, CHR 0x0A, CHR 0x0D}) s"
  shows "is_local_path s \<longleftrightarrow> take 1 s = ''/'' \<and> stays_on_origin s"
proof (cases "take 1 s = ''/''")
  case True
  then obtain r where r: "s = CHR ''/'' # r" by (cases s) auto
  show ?thesis
    using stays_when_clean [OF assms True] True by (cases r) (auto simp: r is_local_path_def starts_with_def)
qed (simp add: is_local_path_def starts_with_def)

lemma resumed_is_safe:
  assumes "documented_parser parse_url"
  shows "resumablePath parse_url stored = (case stored of None \<Rightarrow> None | Some h \<Rightarrow> safe_return parse_url h)"
proof (cases stored)
  case (Some h)
  show ?thesis
  proof (cases "parse_url h ORIGIN")
    case u: (Some url)
    have "list_all (\<lambda>c. c \<notin> {CHR 0x09, CHR 0x0A, CHR 0x0D}) (url_text url)"
      using assms u unfolding documented_parser_def by blast
    note same = local_path_stays [OF this]
    have "resumablePath parse_url stored = (if take 1 h = ''/'' \<and> pu_origin url = ORIGIN \<and> is_local_path (url_text url)
        then Some (url_text url) else None)"
      by (simp add: Some u resumablePath_def url_text_def Let_def starts_with_def)
    also have "\<dots> = safe_return parse_url h"
      unfolding same by (auto simp: safe_return_def u ORIGIN_def [symmetric])
    finally show ?thesis by (simp add: Some)
  qed (simp add: Some resumablePath_def safe_return_def)
qed (simp add: resumablePath_def)

text \<open>How many addresses were left, and which.\<close>

fun remembered :: "path_event list \<Rightarrow> string list" where
  "remembered [] = []"
| "remembered (Remember h # evs) = h # remembered evs"
| "remembered (Take # evs) = remembered evs"

definition kept_path :: "tab_storage \<Rightarrow> string list" where
  "kept_path st = (case ts_returnPath st of None \<Rightarrow> [] | Some h \<Rightarrow> [h])"

lemma path_run_safe:
  assumes "documented_parser parse_url" and "Some p \<in> set (path_run parse_url evs st)"
  shows "\<exists>h \<in> set (kept_path st @ remembered evs). safe_return parse_url h = Some p"
  using assms(2)
proof (induction evs arbitrary: st)
  case (Cons e evs)
  show ?case
  proof (cases e)
    case (Remember h)
    then show ?thesis
      using Cons.IH [of "remember h st"] Cons.prems by (auto simp: kept_path_def remember_def split: if_splits)
  next
    case Take
    then show ?thesis
      using Cons.IH [of "snd (take_path parse_url st)"] Cons.prems
      by (auto simp: kept_path_def take_path_def resumed_is_safe [OF assms(1)] split: if_splits option.splits)
  qed
qed simp

lemma path_run_once:
  "length (filter (\<lambda>r. r \<noteq> None) (path_run parse_url evs st)) \<le> length (kept_path st @ remembered evs)"
proof (induction evs arbitrary: st)
  case (Cons e evs)
  show ?case
  proof (cases e)
    case (Remember h)
    then show ?thesis
      using Cons.IH [of "remember h st"] by (auto simp: kept_path_def remember_def split: if_splits option.splits)
  next
    case Take
    then show ?thesis
      using Cons.IH [of "snd (take_path parse_url st)"]
      by (auto simp: kept_path_def take_path_def resumablePath_def split: if_splits option.splits)
  qed
qed simp

lemma list_all_some:
  assumes "\<And>p. Some p \<in> set rs \<Longrightarrow> Q p"
  shows "list_all (\<lambda>r. case r of None \<Rightarrow> True | Some p \<Rightarrow> Q p) rs"
  using assms by (auto simp: list_all_iff split: option.splits)

text \<open>
  C35: no address that \<open>/\<close> resumes leaves the origin: in any order of leaving and taking, every address
  resumed is one that was left, as the URL parser read it, when the parser put it on this origin and a
  browser that follows it stays there, by the rules of the URL standard. No address is resumed more
  often than one was left, and one just left that is safe to follow is resumed. The parser is the
  platform's: of it only that its result holds no tab and no line end is assumed.
\<close>

theorem resumed_paths_are_local:
  assumes "documented_parser parse_url"
  shows "list_all (\<lambda>r. case r of None \<Rightarrow> True
        | Some p \<Rightarrow> stays_on_origin p
            \<and> (\<exists>h url. h \<in> set (kept_path st @ remembered evs) \<and> take 1 h = ''/'' \<and> parse_url h ORIGIN = Some url
                 \<and> pu_origin url = ''http://rustrak.invalid'' \<and> p = url_text url)) (path_run parse_url evs st)
    \<and> length (filter (\<lambda>r. r \<noteq> None) (path_run parse_url evs st)) \<le> length (kept_path st @ remembered evs)
    \<and> path_run parse_url [Remember h, Take, Take] \<lparr>ts_refused = False, ts_full = False, ts_returnPath = older\<rparr>
        = [safe_return parse_url h, None]"
proof -
  have "stays_on_origin p \<and> (\<exists>h url. h \<in> set (kept_path st @ remembered evs) \<and> take 1 h = ''/''
      \<and> parse_url h ORIGIN = Some url \<and> pu_origin url = ''http://rustrak.invalid'' \<and> p = url_text url)"
    if "Some p \<in> set (path_run parse_url evs st)" for p
  proof -
    obtain h where "h \<in> set (kept_path st @ remembered evs)" "safe_return parse_url h = Some p"
      using path_run_safe [OF assms \<open>Some p \<in> _\<close>] by blast
    then show ?thesis by (auto simp: safe_return_def split: option.splits if_splits)
  qed
  then have "list_all (\<lambda>r. case r of None \<Rightarrow> True
        | Some p \<Rightarrow> stays_on_origin p
            \<and> (\<exists>h url. h \<in> set (kept_path st @ remembered evs) \<and> take 1 h = ''/'' \<and> parse_url h ORIGIN = Some url
                 \<and> pu_origin url = ''http://rustrak.invalid'' \<and> p = url_text url)) (path_run parse_url evs st)"
    by (rule list_all_some)
  moreover have "path_run parse_url [Remember h, Take, Take] \<lparr>ts_refused = False, ts_full = False, ts_returnPath = older\<rparr>
        = [safe_return parse_url h, None]"
    using resumed_is_safe [OF assms] by (simp add: remember_def take_path_def)
  ultimately show ?thesis using path_run_once by blast
qed

text \<open>A parser of three addresses, for the witness: the second is the dot segment of the source's comment.\<close>

definition sample_url :: "string \<Rightarrow> string \<Rightarrow> parsed_url option" where
  "sample_url s base =
     (if s = ''//evil/x'' then Some \<lparr>pu_origin = ''http://evil'', pu_pathname = ''/x'', pu_search = [], pu_hash = []\<rparr>
      else if s = ''/.//evil/x'' then Some \<lparr>pu_origin = base, pu_pathname = ''//evil/x'', pu_search = [], pu_hash = []\<rparr>
      else if s = ''/issues/4'' then Some \<lparr>pu_origin = base, pu_pathname = s, pu_search = [], pu_hash = []\<rparr>
      else None)"

theorem resumed_paths_are_local_witness:
  "stays_on_origin ''/issues/4'' \<and> \<not> stays_on_origin ''//evil/x'' \<and>
   path_run sample_url [Remember ''//evil/x'', Take, Remember ''/.//evil/x'', Take, Remember ''/issues/4'', Take, Take]
     \<lparr>ts_refused = False, ts_full = False, ts_returnPath = None\<rparr> = [None, None, Some ''/issues/4'', None]"
proof -
  let ?evs = "[Remember ''//evil/x'', Take, Remember ''/.//evil/x'', Take, Remember ''/issues/4'', Take, Take]"
  let ?st = "\<lparr>ts_refused = False, ts_full = False, ts_returnPath = None\<rparr> :: tab_storage"
  have d: "documented_parser sample_url"
    by (auto simp: documented_parser_def sample_url_def url_text_def split: if_splits)
  have r: "path_run sample_url ?evs ?st = [None, None, Some ''/issues/4'', None]" by code_simp
  have "stays_on_origin ''/issues/4''"
    using resumed_paths_are_local [OF d, where evs = ?evs and st = ?st, unfolded r] by simp
  moreover have "\<not> stays_on_origin ''//evil/x''" by code_simp
  ultimately show ?thesis using r by simp
qed

text \<open>An address is resumed once, and a spent quota leaves no older one behind.\<close>

lemma taken_once: "take_path pu (snd (take_path pu st)) = (None, snd (take_path pu st))"
  by (simp add: take_path_def resumablePath_def)

lemma full_storage_forgets:
  "ts_full st \<Longrightarrow> fst (take_path pu (remember h st)) = None"
  by (simp add: take_path_def remember_def resumablePath_def)

end
