(* ===== verification/Permissions.thy ===== *)
theory Permissions
  imports JsBase
begin

text \<open>
  What a reader may do and how an editor changes it: \<open>shared/lib/permissions.ts\<close> (the
  questions every screen asks) and \<open>shared/lib/permission-matrix.ts\<close> (the rows of the
  editor). Resources are strings, as the catalog names them.
\<close>

section \<open>What the reader may do\<close>

datatype action = Read | Create | Update | Delete

record permission =
  pm_resource :: string
  pm_action :: action

record project_access =
  pa_project :: int
  pa_permissions :: "permission list"

record my_access =
  ma_owner :: bool
  ma_instance :: "permission list"
  ma_all :: "permission list"
  ma_projects :: "project_access list"

definition NO_PERMISSIONS :: my_access where
  "NO_PERMISSIONS = \<lparr>ma_owner = False, ma_instance = [], ma_all = [], ma_projects = []\<rparr>"

definition hasPermission :: "permission list \<Rightarrow> string \<Rightarrow> action \<Rightarrow> bool" where
  "hasPermission ps resource a \<longleftrightarrow> list_ex (\<lambda>p. pm_resource p = resource \<and> pm_action p = a) ps"

definition local_permissions :: "my_access \<Rightarrow> int \<Rightarrow> permission list" where
  "local_permissions me pid =
     (case List.find (\<lambda>p. pa_project p = pid) (ma_projects me) of
        Some p \<Rightarrow> pa_permissions p | None \<Rightarrow> [])"

definition canCreateProject :: "my_access \<Rightarrow> bool" where
  "canCreateProject me \<longleftrightarrow>
     ma_owner me \<or>
     hasPermission (ma_instance me) ''projects'' Create \<and> (ma_all me \<noteq> [] \<or> ma_projects me \<noteq> [])"

definition can :: "my_access \<Rightarrow> string \<Rightarrow> action \<Rightarrow> int option \<Rightarrow> bool" where
  "can me resource a pid \<longleftrightarrow>
     (if ma_owner me \<or> hasPermission (ma_instance me) resource a then True
      else case pid of
        None \<Rightarrow> False
      | Some p \<Rightarrow>
          if resource = ''project'' \<and> a = Read
          then ma_all me \<noteq> [] \<or> local_permissions me p \<noteq> []
          else hasPermission (ma_all me) resource a \<or> hasPermission (local_permissions me p) resource a)"

definition canAnywhere :: "my_access \<Rightarrow> string \<Rightarrow> action \<Rightarrow> bool" where
  "canAnywhere me resource a \<longleftrightarrow>
     ma_owner me \<or> hasPermission (ma_instance me) resource a \<or> hasPermission (ma_all me) resource a \<or>
     list_ex (\<lambda>p. hasPermission (pa_permissions p) resource a) (ma_projects me)"

definition canEverywhere :: "my_access \<Rightarrow> string \<Rightarrow> action \<Rightarrow> bool" where
  "canEverywhere me resource a \<longleftrightarrow>
     ma_owner me \<or> hasPermission (ma_instance me) resource a \<or> hasPermission (ma_all me) resource a"

lemma hasPermission_iff:
  "hasPermission ps r a \<longleftrightarrow> \<lparr>pm_resource = r, pm_action = a\<rparr> \<in> set ps"
proof -
  have "pm_resource p = r \<and> pm_action p = a \<longleftrightarrow> p = \<lparr>pm_resource = r, pm_action = a\<rparr>" for p
    by (cases p) auto
  then show ?thesis by (simp add: hasPermission_def list_ex_iff)
qed

text \<open>The contract: what is held on a project, any of which lets the project be seen.\<close>

definition held_on :: "my_access \<Rightarrow> int \<Rightarrow> permission set" where
  "held_on me pid = set (ma_all me) \<union>
     \<Union> (set ` pa_permissions ` {p \<in> set (ma_projects me). pa_project p = pid})"

definition implied :: "permission set \<Rightarrow> permission set" where
  "implied ps = ps \<union> (if ps = {} then {} else {\<lparr>pm_resource = ''project'', pm_action = Read\<rparr>})"

lemma find_project:
  "distinct (map pa_project ps) \<Longrightarrow> p \<in> set ps \<Longrightarrow>
     List.find (\<lambda>q. pa_project q = pa_project p) ps = Some p"
  by (induction ps) (auto simp: image_iff)

lemma local_permissions_set:
  assumes "distinct (map pa_project (ma_projects me))"
  shows "set (local_permissions me pid) =
    \<Union> (set ` pa_permissions ` {p \<in> set (ma_projects me). pa_project p = pid})"
proof (cases "\<exists>p \<in> set (ma_projects me). pa_project p = pid")
  case True
  then obtain p where p: "p \<in> set (ma_projects me)" "pa_project p = pid" by blast
  then have "{q \<in> set (ma_projects me). pa_project q = pid} = {p}"
    using assms by (auto simp: distinct_map inj_on_def)
  then show ?thesis using find_project [OF assms p(1)] p(2) by (simp add: local_permissions_def)
next
  case False
  then have "List.find (\<lambda>q. pa_project q = pid) (ma_projects me) = None" by (auto simp: find_None_iff)
  then show ?thesis using False by (auto simp: local_permissions_def)
qed

lemma can_contract:
  assumes "distinct (map pa_project (ma_projects me))"
  shows "can me r a (Some pid) \<longleftrightarrow>
      ma_owner me \<or> \<lparr>pm_resource = r, pm_action = a\<rparr> \<in> set (ma_instance me) \<union> implied (held_on me pid)"
    and "can me r a None \<longleftrightarrow> ma_owner me \<or> \<lparr>pm_resource = r, pm_action = a\<rparr> \<in> set (ma_instance me)"
proof -
  have h: "held_on me pid = set (ma_all me) \<union> set (local_permissions me pid)"
    using local_permissions_set [OF assms] by (simp add: held_on_def)
  show "can me r a (Some pid) \<longleftrightarrow>
      ma_owner me \<or> \<lparr>pm_resource = r, pm_action = a\<rparr> \<in> set (ma_instance me) \<union> implied (held_on me pid)"
    unfolding h by (cases "ma_all me"; cases "local_permissions me pid")
      (auto simp: can_def hasPermission_iff implied_def)
  show "can me r a None \<longleftrightarrow> ma_owner me \<or> \<lparr>pm_resource = r, pm_action = a\<rparr> \<in> set (ma_instance me)"
    by (simp add: can_def hasPermission_iff)
qed

text \<open>
  C36: on a project the reader may do exactly what being the owner, a workspace permission,
  or a permission held on that project (any of which implies seeing it) allows; without a
  project, exactly what the first two do.
\<close>

theorem can_is_the_contract:
  assumes "distinct (map pa_project (ma_projects me))"
  shows "(can me r a (Some pid) \<longleftrightarrow>
       ma_owner me \<or> \<lparr>pm_resource = r, pm_action = a\<rparr> \<in> set (ma_instance me) \<union> implied (held_on me pid)) \<and>
    (can me r a None \<longleftrightarrow> ma_owner me \<or> \<lparr>pm_resource = r, pm_action = a\<rparr> \<in> set (ma_instance me))"
  using can_contract [OF assms] by blast

definition sample_access :: my_access where
  "sample_access = \<lparr>ma_owner = False, ma_instance = [],
     ma_all = [], ma_projects = [\<lparr>pa_project = 4,
       pa_permissions = [\<lparr>pm_resource = ''alerts'', pm_action = Create\<rparr>]\<rparr>]\<rparr>"

theorem can_is_the_contract_witness:
  "can sample_access ''project'' Read (Some 4) \<and> \<not> can sample_access ''project'' Read (Some 5)"
proof -
  have d: "distinct (map pa_project (ma_projects sample_access))" by (simp add: sample_access_def)
  show ?thesis
    using can_is_the_contract [OF d, of "''project''" Read 4]
      can_is_the_contract [OF d, of "''project''" Read 5]
    by (simp add: sample_access_def implied_def held_on_def)
qed

text \<open>
  The three questions are ordered: what is possible everywhere is possible on every
  project, and what is possible on some project is possible somewhere, except that seeing a
  project asks for no permission of that name. Somewhere means some project, or the
  workspace.
\<close>

theorem can_questions_ordered:
  assumes "distinct (map pa_project (ma_projects me))"
  shows "(canEverywhere me r a \<longrightarrow> (\<forall>pid. can me r a (Some pid))) \<and>
    ((r, a) \<noteq> (''project'', Read) \<longrightarrow>
       (canAnywhere me r a \<longleftrightarrow> can me r a None \<or> (\<exists>pid. can me r a (Some pid)))) \<and>
    (canAnywhere me r a \<longrightarrow> can me r a None \<or> (\<exists>pid. can me r a (Some pid)))"
proof -
  note can = can_contract [OF assms]
  have some: "\<exists>pid. can me r a (Some pid)" if "canAnywhere me r a"
  proof -
    consider "ma_owner me \<or> hasPermission (ma_instance me) r a \<or> hasPermission (ma_all me) r a"
      | p where "p \<in> set (ma_projects me)" "hasPermission (pa_permissions p) r a"
      using \<open>canAnywhere me r a\<close> by (auto simp: canAnywhere_def list_ex_iff)
    then show ?thesis
    proof cases
      case 2
      then have "can me r a (Some (pa_project p))"
        unfolding can by (auto simp: implied_def held_on_def hasPermission_iff)
      then show ?thesis ..
    qed (auto simp: can implied_def held_on_def hasPermission_iff)
  qed
  moreover have "canAnywhere me r a" if "(r, a) \<noteq> (''project'', Read)" "can me r a (Some pid)" for pid
    using that unfolding can
    by (auto simp: canAnywhere_def list_ex_iff hasPermission_iff implied_def held_on_def split: if_splits)
  moreover have "canAnywhere me r a" if "can me r a None"
    using that unfolding can by (auto simp: canAnywhere_def hasPermission_iff)
  moreover have "can me r a (Some pid)" if "canEverywhere me r a" for pid
    using that unfolding can by (auto simp: canEverywhere_def hasPermission_iff implied_def held_on_def)
  ultimately show ?thesis by blast
qed

theorem can_questions_ordered_witness:
  "canAnywhere sample_access ''alerts'' Create \<and> (\<exists>pid. can sample_access ''alerts'' Create (Some pid))"
proof -
  have d: "distinct (map pa_project (ma_projects sample_access))" by (simp add: sample_access_def)
  have "canAnywhere sample_access ''alerts'' Create"
    by (simp add: canAnywhere_def sample_access_def hasPermission_def)
  moreover have "\<not> can sample_access ''alerts'' Create None"
    by (simp add: can_def sample_access_def hasPermission_def)
  ultimately show ?thesis using can_questions_ordered [OF d, of "''alerts''" Create] by blast
qed

section \<open>The permission matrix\<close>

datatype scope = Scope_instance | Scope_project

record catalog_resource =
  cr_key :: string
  cr_module :: string
  cr_scope :: scope
  cr_actions :: "action list"

definition ACTIONS :: "action list" where
  "ACTIONS = [Read, Create, Update, Delete]"

definition MODULE_ORDER :: "string list" where
  "MODULE_ORDER = [''workspace'', ''settings'', ''issues'', ''monitoring'', ''releases'', ''alerts'', ''project'']"

definition module_rank :: "string \<Rightarrow> nat" where
  "module_rank m = (case find_index (\<lambda>x. x = m) MODULE_ORDER of Some i \<Rightarrow> i | None \<Rightarrow> length MODULE_ORDER)"

definition modulesOf :: "catalog_resource list \<Rightarrow> (string \<times> catalog_resource list) list" where
  "modulesOf catalog =
     map (\<lambda>m. (m, filter (\<lambda>r. cr_module r = m) catalog))
       (sort_key module_rank (dedup (map cr_module catalog)))"

definition grantable :: "catalog_resource list \<Rightarrow> (string \<Rightarrow> action \<Rightarrow> bool) \<Rightarrow> catalog_resource list" where
  "grantable catalog may =
     filter (\<lambda>r. cr_actions r \<noteq> [])
       (map (\<lambda>r. r\<lparr>cr_actions := filter (may (cr_key r)) (cr_actions r)\<rparr>) catalog)"

definition toggle :: "permission list \<Rightarrow> string \<Rightarrow> action \<Rightarrow> permission list" where
  "toggle ps resource a =
     (if hasPermission ps resource a
      then filter (\<lambda>p. \<not> (pm_resource p = resource \<and> pm_action p = a)) ps
      else ps @ [\<lparr>pm_resource = resource, pm_action = a\<rparr>])"

datatype row_state = None_held | Some_held | All_held

definition rowState :: "permission list \<Rightarrow> catalog_resource \<Rightarrow> row_state" where
  "rowState ps resource =
     (let held = length (filter (hasPermission ps (cr_key resource)) (cr_actions resource))
      in if held = 0 then None_held
         else if held = length (cr_actions resource) then All_held else Some_held)"

definition toggleRow :: "permission list \<Rightarrow> catalog_resource \<Rightarrow> permission list" where
  "toggleRow ps resource =
     (let shown = set (cr_actions resource);
          rest = filter (\<lambda>p. \<not> (pm_resource p = cr_key resource \<and> pm_action p \<in> shown)) ps
      in if rowState ps resource = All_held then rest
         else rest @ map (\<lambda>a. \<lparr>pm_resource = cr_key resource, pm_action = a\<rparr>) (cr_actions resource))"

lemma hasPermission_toggle:
  "hasPermission (toggle ps r a) r' a' \<longleftrightarrow>
     (if r' = r \<and> a' = a then \<not> hasPermission ps r a else hasPermission ps r' a')"
  by (auto simp: toggle_def hasPermission_def list_ex_iff)

lemma rowState_cases:
  "rowState ps row = None_held \<longleftrightarrow> (\<forall>a \<in> set (cr_actions row). \<not> hasPermission ps (cr_key row) a)"
  "cr_actions row \<noteq> [] \<Longrightarrow>
     rowState ps row = All_held \<longleftrightarrow> (\<forall>a \<in> set (cr_actions row). hasPermission ps (cr_key row) a)"
proof -
  have full: "length (filter P xs) = length xs \<longleftrightarrow> (\<forall>x \<in> set xs. P x)" for P and xs :: "action list"
    by (induction xs) (auto simp: le_imp_less_Suc less_imp_neq)
  show "rowState ps row = None_held \<longleftrightarrow> (\<forall>a \<in> set (cr_actions row). \<not> hasPermission ps (cr_key row) a)"
    by (auto simp: rowState_def Let_def filter_empty_conv)
  show "cr_actions row \<noteq> [] \<Longrightarrow>
     rowState ps row = All_held \<longleftrightarrow> (\<forall>a \<in> set (cr_actions row). hasPermission ps (cr_key row) a)"
    using full [of "hasPermission ps (cr_key row)" "cr_actions row"]
    by (auto simp: rowState_def Let_def filter_empty_conv)
qed

lemma hasPermission_toggleRow:
  "hasPermission (toggleRow ps row) r a \<longleftrightarrow>
     (if r = cr_key row \<and> a \<in> set (cr_actions row) then rowState ps row \<noteq> All_held
      else hasPermission ps r a)"
  by (auto simp: toggleRow_def Let_def hasPermission_iff)

text \<open>
  a row's own switch turns a row that has all of its actions off and any other row on,
  and changes no permission the row does not show: a narrowed editor keeps what it hides.
\<close>

theorem toggle_row_switches:
  assumes "cr_actions row \<noteq> []"
  shows "rowState (toggleRow ps row) row = (if rowState ps row = All_held then None_held else All_held) \<and>
    (\<forall>r a. \<not> (r = cr_key row \<and> a \<in> set (cr_actions row)) \<longrightarrow>
       hasPermission (toggleRow ps row) r a = hasPermission ps r a)"
  using rowState_cases(1) [of "toggleRow ps row" row]
    rowState_cases(2) [OF assms, of "toggleRow ps row"]
  by (auto simp: hasPermission_toggleRow)

theorem toggle_row_switches_witness:
  "rowState (toggleRow [\<lparr>pm_resource = ''alerts'', pm_action = Create\<rparr>]
     \<lparr>cr_key = ''alerts'', cr_module = ''alerts'', cr_scope = Scope_project, cr_actions = [Read, Create]\<rparr>)
     \<lparr>cr_key = ''alerts'', cr_module = ''alerts'', cr_scope = Scope_project, cr_actions = [Read, Create]\<rparr> = All_held"
  using toggle_row_switches [of
      "\<lparr>cr_key = ''alerts'', cr_module = ''alerts'', cr_scope = Scope_project, cr_actions = [Read, Create]\<rparr>"
      "[\<lparr>pm_resource = ''alerts'', pm_action = Create\<rparr>]"]
  by (simp add: rowState_def Let_def hasPermission_def)

lemma modules_cover:
  "distinct ms \<Longrightarrow> cr_module ` set catalog \<subseteq> set ms \<Longrightarrow>
     mset (concat (map (\<lambda>m. filter (\<lambda>r. cr_module r = m) catalog) ms)) = mset catalog"
proof (induction ms arbitrary: catalog)
  case (Cons m ms)
  have "mset (concat (map (\<lambda>k. filter (\<lambda>r. cr_module r = k) catalog) ms)) =
      mset (concat (map (\<lambda>k. filter (\<lambda>r. cr_module r = k) (filter (\<lambda>r. cr_module r \<noteq> m) catalog)) ms))"
    using Cons.prems(1) by (intro arg_cong [of _ _ "\<lambda>x. mset (concat x)"] map_cong)
      (auto simp: filter_filter intro!: filter_cong)
  also have "\<dots> = mset (filter (\<lambda>r. cr_module r \<noteq> m) catalog)"
    using Cons.prems by (intro Cons.IH) auto
  finally show ?case using multiset_partition [of "mset catalog" "\<lambda>r. cr_module r = m"]
    by (simp add: mset_filter)
qed auto

text \<open>The modules hold every resource of the catalog once, in the order of \<open>MODULE_ORDER\<close>.\<close>

lemma modules_partition:
  "mset (concat (map snd (modulesOf catalog))) = mset catalog \<and>
   sorted (map (module_rank \<circ> fst) (modulesOf catalog)) \<and> distinct (map fst (modulesOf catalog))"
  using modules_cover [of "sort_key module_rank (dedup (map cr_module catalog))" catalog]
    sorted_sort_key [of module_rank "dedup (map cr_module catalog)"]
  by (simp add: modulesOf_def comp_def)

end
