(* ===== verification/Assignments.thy ===== *)
theory Assignments
  imports Permissions "HOL-Library.List_Lexorder" "HOL-Library.Char_ord"
begin

text \<open>
  \<open>features/user/model/assignments.ts\<close>: a member's access as the lines of an editor
  (\<open>rowsFrom\<close>), as the request that saves it (\<open>toSetAccess\<close>), and whether two such requests
  say the same (\<open>sameAccess\<close>); and \<open>shared/lib/scope-actions.ts\<close>, the menu that narrows a list
  to one value. Strings are ordered by their characters, as \<open>sort()\<close> orders them.
\<close>

section \<open>Lines of access\<close>

datatype role_choice = Role int | Personal | NoRole

record access_row =
  ar_role :: role_choice
  ar_projects :: "int list option"  \<comment> \<open>\<open>None\<close>: every project, those created later too\<close>

record held_role =
  hr_role :: int
  hr_name :: string
  hr_project :: "int option"
  hr_personal :: bool

definition role_of :: "held_role \<Rightarrow> role_choice" where
  "role_of a = (if hr_personal a then Personal else Role (hr_role a))"

definition row_add :: "int option \<Rightarrow> access_row \<Rightarrow> access_row" where
  "row_add project row =
     (case project of
        None \<Rightarrow> row\<lparr>ar_projects := None\<rparr>
      | Some p \<Rightarrow> row\<lparr>ar_projects := map_option (\<lambda>ps. ps @ [p]) (ar_projects row)\<rparr>)"

fun add_to_row :: "role_choice \<Rightarrow> int option \<Rightarrow> access_row list \<Rightarrow> access_row list" where
  "add_to_row role project [] = [\<lparr>ar_role = role, ar_projects = map_option (\<lambda>p. [p]) project\<rparr>]"
| "add_to_row role project (row # rows) =
     (if ar_role row = role then row_add project row # rows
      else row # add_to_row role project rows)"

definition rowsFrom :: "held_role list \<Rightarrow> access_row list" where
  "rowsFrom assignments = fold (\<lambda>a. add_to_row (role_of a) (hr_project a)) assignments []"

record set_access =
  sa_assignments :: "(int \<times> int option) list"
  sa_personal :: "(permission list \<times> int list option) option"

definition row_assignments :: "access_row \<Rightarrow> (int \<times> int option) list" where
  "row_assignments row =
     (case ar_role row of
        Role r \<Rightarrow> map (\<lambda>p. (r, p))
                    (case ar_projects row of None \<Rightarrow> [None] | Some ps \<Rightarrow> map Some ps)
      | _ \<Rightarrow> [])"

definition toSetAccess :: "access_row list \<Rightarrow> permission list \<Rightarrow> set_access" where
  "toSetAccess rows personalPermissions =
     \<lparr>sa_assignments = concat (map row_assignments rows),
      sa_personal =
        (case List.find (\<lambda>r. ar_role r = Personal) rows of
           Some personal \<Rightarrow> Some (personalPermissions, ar_projects personal)
         | None \<Rightarrow> None)\<rparr>"

text \<open>What one role reaches in a list of held roles: everything, or these projects in order.\<close>

definition reach :: "role_choice \<Rightarrow> held_role list \<Rightarrow> int list option" where
  "reach role hs =
     (if \<exists>h \<in> set hs. role_of h = role \<and> hr_project h = None then None
      else Some (List.map_filter hr_project (filter (\<lambda>h. role_of h = role) hs)))"

lemma roles_add [simp]:
  "ar_role ` set (add_to_row role p rows) = insert role (ar_role ` set rows)"
  by (induction rows) (auto simp: row_add_def split: option.splits)

lemma distinct_roles_add:
  "distinct (map ar_role rows) \<Longrightarrow> distinct (map ar_role (add_to_row role p rows))"
proof (induction rows)
  case (Cons row rows)
  then show ?case by (auto simp: row_add_def split: option.splits)
qed simp

text \<open>A line with role \<open>role\<close> is what the held roles reach with it, and there is one per role.\<close>

definition rows_for :: "held_role list \<Rightarrow> access_row list \<Rightarrow> bool" where
  "rows_for hs rows \<longleftrightarrow>
     distinct (map ar_role rows) \<and> ar_role ` set rows = role_of ` set hs \<and>
     (\<forall>row \<in> set rows. ar_projects row = reach (ar_role row) hs)"

lemma reach_snoc:
  "reach role (hs @ [h]) =
     (if role_of h \<noteq> role then reach role hs
      else case hr_project h of None \<Rightarrow> None | Some p \<Rightarrow> map_option (\<lambda>ps. ps @ [p]) (reach role hs))"
  by (auto simp: reach_def map_filter_def split: option.splits)

lemma add_to_row_mem:
  assumes "distinct (map ar_role rows)" and "row \<in> set (add_to_row role p rows)"
  shows "(ar_role row \<noteq> role \<and> row \<in> set rows) \<or>
    (ar_role row = role \<and>
       ((\<exists>old \<in> set rows. ar_role old = role \<and> row = row_add p old) \<or>
        (role \<notin> ar_role ` set rows \<and> ar_projects row = map_option (\<lambda>p. [p]) p)))"
  using assms
proof (induction rows)
  case (Cons r rows)
  have same: "ar_role (row_add p r) = ar_role r" by (simp add: row_add_def split: option.splits)
  show ?case
  proof (cases "ar_role r = role")
    case True
    then show ?thesis using Cons.prems same by (auto simp: image_iff)
  next
    case False
    then show ?thesis using Cons by auto
  qed
qed auto

lemma rows_for_add:
  assumes "rows_for hs rows"
  shows "rows_for (hs @ [h]) (add_to_row (role_of h) (hr_project h) rows)"
proof -
  have d: "distinct (map ar_role rows)" and r: "ar_role ` set rows = role_of ` set hs"
    and p: "\<And>row. row \<in> set rows \<Longrightarrow> ar_projects row = reach (ar_role row) hs"
    using assms by (auto simp: rows_for_def)
  have "ar_projects row = reach (ar_role row) (hs @ [h])"
    if m: "row \<in> set (add_to_row (role_of h) (hr_project h) rows)" for row
  proof -
    consider "ar_role row \<noteq> role_of h" "row \<in> set rows"
      | old where "ar_role row = role_of h" "old \<in> set rows" "ar_role old = role_of h"
          "row = row_add (hr_project h) old"
      | "ar_role row = role_of h" "role_of h \<notin> ar_role ` set rows"
          "ar_projects row = map_option (\<lambda>p. [p]) (hr_project h)"
      using add_to_row_mem [OF d m] by blast
    then show ?thesis
    proof cases
      case 1
      then show ?thesis using p by (simp add: reach_snoc)
    next
      case 2
      then show ?thesis using p [OF 2(2)] by (auto simp: reach_snoc row_add_def split: option.splits)
    next
      case 3
      then have "\<forall>x \<in> set hs. role_of x \<noteq> role_of h" using r by (metis image_eqI)
      then have "reach (role_of h) hs = Some []" by (simp add: reach_def map_filter_def filter_empty_conv)
      then show ?thesis using 3 by (simp add: reach_snoc split: option.splits)
    qed
  qed
  moreover have "ar_role ` set (add_to_row (role_of h) (hr_project h) rows) = role_of ` set (hs @ [h])"
    using r by simp
  ultimately show ?thesis using distinct_roles_add [OF d] by (simp add: rows_for_def)
qed

lemma rowsFrom_rows: "rows_for hs (rowsFrom hs)"
proof (induction hs rule: rev_induct)
  case Nil
  show ?case by (simp add: rows_for_def rowsFrom_def)
next
  case (snoc h hs)
  then show ?case using rows_for_add by (simp add: rowsFrom_def)
qed

lemma row_mem:
  "(r, project) \<in> set (row_assignments row) \<longleftrightarrow> ar_role row = Role r \<and>
     (case ar_projects row of None \<Rightarrow> project = None | Some ps \<Rightarrow> project \<in> Some ` set ps)"
  by (cases "ar_role row"; cases "ar_projects row") (auto simp: row_assignments_def)

lemma reach_Some:
  "reach role hs = Some ps \<Longrightarrow> p \<in> set ps \<longleftrightarrow> (\<exists>h \<in> set hs. role_of h = role \<and> hr_project h = Some p)"
  by (force simp: reach_def map_filter_def split: if_splits)

lemma reach_None: "reach role hs = None \<longleftrightarrow> (\<exists>h \<in> set hs. role_of h = role \<and> hr_project h = None)"
  by (simp add: reach_def)

lemma role_of_personal: "role_of h = Personal \<longleftrightarrow> hr_personal h"
  by (simp add: role_of_def)

lemma map_filter_all: "\<forall>x \<in> set xs. f x \<noteq> None \<Longrightarrow> List.map_filter f xs = map (\<lambda>x. the (f x)) xs"
  by (induction xs) (auto simp: map_filter_simps)

lemma reach_personal:
  "reach Personal hs =
     (if list_ex (\<lambda>h. hr_personal h \<and> hr_project h = None) hs then None
      else Some (map (\<lambda>h. the (hr_project h)) (filter hr_personal hs)))"
proof (cases "list_ex (\<lambda>h. hr_personal h \<and> hr_project h = None) hs")
  case True
  then show ?thesis by (auto simp: reach_def role_of_personal list_ex_iff)
next
  case False
  then have "\<forall>h \<in> set (filter hr_personal hs). hr_project h \<noteq> None" by (auto simp: list_ex_iff)
  then have "List.map_filter hr_project (filter hr_personal hs) = map (\<lambda>h. the (hr_project h)) (filter hr_personal hs)"
    by (rule map_filter_all)
  then show ?thesis using False by (auto simp: reach_def role_of_personal list_ex_iff)
qed

lemma personal_saved:
  "sa_personal (toSetAccess (rowsFrom hs) own) =
     (if list_ex hr_personal hs
      then Some (own, if list_ex (\<lambda>h. hr_personal h \<and> hr_project h = None) hs then None
                      else Some (map (\<lambda>h. the (hr_project h)) (filter hr_personal hs)))
      else None)"
proof (cases "List.find (\<lambda>r. ar_role r = Personal) (rowsFrom hs)")
  case None
  then have "Personal \<notin> ar_role ` set (rowsFrom hs)" by (auto simp: find_None_iff)
  then have "Personal \<notin> role_of ` set hs" using rowsFrom_rows [of hs] unfolding rows_for_def by metis
  then have "\<not> list_ex hr_personal hs" using role_of_personal by (metis image_eqI list_ex_iff)
  then show ?thesis by (simp add: toSetAccess_def None)
next
  case (Some row)
  then have row: "row \<in> set (rowsFrom hs)" "ar_role row = Personal" using find_Some_mem [OF Some] by auto
  then have "Personal \<in> role_of ` set hs" "ar_projects row = reach Personal hs"
    using rowsFrom_rows [of hs] unfolding rows_for_def by (metis image_eqI)+
  moreover from this have "list_ex hr_personal hs" using role_of_personal by (metis (no_types, lifting) imageE list_ex_iff)
  ultimately show ?thesis by (simp add: toSetAccess_def Some reach_personal)
qed

text \<open>
  C37: opening a member's access in the editor and saving it unchanged asks for exactly what
  they hold: a role everywhere if it is held everywhere, and otherwise on the projects it is
  held on. Their own permissions are sent as they are, when they have a role of their own and
  only then: everywhere if it is held everywhere, and otherwise on its projects in their order.
\<close>

theorem access_saved_unchanged:
  "((r, project) \<in> set (sa_assignments (toSetAccess (rowsFrom hs) own)) \<longleftrightarrow>
     (\<exists>h \<in> set hs. \<not> hr_personal h \<and> hr_role h = r \<and> hr_project h = project) \<and>
     (project \<noteq> None \<longrightarrow> \<not> (\<exists>h \<in> set hs. \<not> hr_personal h \<and> hr_role h = r \<and> hr_project h = None)))
   \<and> sa_personal (toSetAccess (rowsFrom hs) own) =
       (if list_ex hr_personal hs
        then Some (own, if list_ex (\<lambda>h. hr_personal h \<and> hr_project h = None) hs then None
                        else Some (map (\<lambda>h. the (hr_project h)) (filter hr_personal hs)))
        else None)"
proof (rule conjI [OF _ personal_saved])
  have rows: "distinct (map ar_role (rowsFrom hs))" "ar_role ` set (rowsFrom hs) = role_of ` set hs"
    "\<And>row. row \<in> set (rowsFrom hs) \<Longrightarrow> ar_projects row = reach (ar_role row) hs"
    using rowsFrom_rows [of hs] by (auto simp: rows_for_def)
  have role: "role_of h = Role r \<longleftrightarrow> \<not> hr_personal h \<and> hr_role h = r" for h
    by (simp add: role_of_def)
  have row_of_role: "(\<exists>row \<in> set (rowsFrom hs). ar_role row = role \<and> Q (ar_projects row)) \<longleftrightarrow>
      role \<in> ar_role ` set (rowsFrom hs) \<and> Q (reach role hs)" for role Q
    using rows(3) by (auto simp: image_iff)
  have "(r, project) \<in> set (sa_assignments (toSetAccess (rowsFrom hs) own)) \<longleftrightarrow>
      (\<exists>row \<in> set (rowsFrom hs). ar_role row = Role r \<and>
         (case ar_projects row of None \<Rightarrow> project = None | Some ps \<Rightarrow> project \<in> Some ` set ps))"
    using row_mem by (simp add: toSetAccess_def)
  also have "\<dots> \<longleftrightarrow> Role r \<in> role_of ` set hs \<and>
      (case reach (Role r) hs of None \<Rightarrow> project = None | Some ps \<Rightarrow> project \<in> Some ` set ps)"
    unfolding rows(2) [symmetric] by (rule row_of_role)
  also have "\<dots> \<longleftrightarrow> (\<exists>h \<in> set hs. role_of h = Role r \<and> hr_project h = project) \<and>
      (project \<noteq> None \<longrightarrow> \<not> (\<exists>h \<in> set hs. role_of h = Role r \<and> hr_project h = None))"
  proof (cases "reach (Role r) hs")
    case None
    then show ?thesis using reach_None [of "Role r" hs] by (cases project) (auto simp: image_iff intro: sym)
  next
    case (Some ps)
    then show ?thesis
      using reach_Some [OF Some] reach_None [of "Role r" hs]
      by (cases project) (auto simp: image_iff intro: sym)
  qed
  finally show "(r, project) \<in> set (sa_assignments (toSetAccess (rowsFrom hs) own)) \<longleftrightarrow>
     (\<exists>h \<in> set hs. \<not> hr_personal h \<and> hr_role h = r \<and> hr_project h = project) \<and>
     (project \<noteq> None \<longrightarrow> \<not> (\<exists>h \<in> set hs. \<not> hr_personal h \<and> hr_role h = r \<and> hr_project h = None))"
    by (simp only: role conj_assoc)
qed

definition sample_held :: "held_role list" where
  "sample_held =
     [\<lparr>hr_role = 2, hr_name = ''Triage'', hr_project = Some 4, hr_personal = False\<rparr>,
      \<lparr>hr_role = 2, hr_name = ''Triage'', hr_project = None, hr_personal = False\<rparr>,
      \<lparr>hr_role = 9, hr_name = ''Own'', hr_project = Some 6, hr_personal = True\<rparr>,
      \<lparr>hr_role = 3, hr_name = ''Reader'', hr_project = Some 5, hr_personal = False\<rparr>]"

theorem access_saved_unchanged_witness:
  "(3, Some 5) \<in> set (sa_assignments (toSetAccess (rowsFrom sample_held) [])) \<and>
   (2, Some 4) \<notin> set (sa_assignments (toSetAccess (rowsFrom sample_held) [])) \<and>
   sa_personal (toSetAccess (rowsFrom sample_held) []) = Some ([], Some [6])"
  using access_saved_unchanged [of 3 "Some 5" sample_held "[]"] access_saved_unchanged [of 2 "Some 4" sample_held "[]"]
  by (simp add: sample_held_def)

section \<open>The same access\<close>

definition assignment_key :: "int \<times> int option \<Rightarrow> string" where
  "assignment_key a =
     int_str (fst a) @ '':'' @ (case snd a of Some p \<Rightarrow> int_str p | None \<Rightarrow> [])"

fun action_str :: "action \<Rightarrow> string" where
  "action_str Read = ''read''"
| "action_str Create = ''create''"
| "action_str Update = ''update''"
| "action_str Delete = ''delete''"

definition permission_key :: "permission \<Rightarrow> string" where
  "permission_key p = pm_resource p @ '':'' @ action_str (pm_action p)"

text \<open>
  The canonical form is compared as JSON; two of these forms have the same JSON exactly when
  they are equal (a missing \<open>permissions\<close> is left out, a missing \<open>projects\<close> is \<open>null\<close>).
\<close>

record canonical_access =
  ca_assignments :: "string list"
  ca_projects :: "int list option"
  ca_permissions :: "string list option"

definition canonical :: "set_access \<Rightarrow> canonical_access" where
  "canonical access =
     \<lparr>ca_assignments = sort (map assignment_key (sa_assignments access)),
      ca_projects = (case sa_personal access of
         Some (_, Some ps) \<Rightarrow> Some (sort_key int_str ps) | _ \<Rightarrow> None),
      ca_permissions = map_option (\<lambda>(ps, _). sort (map permission_key ps)) (sa_personal access)\<rparr>"

definition sameAccess :: "set_access \<Rightarrow> set_access \<Rightarrow> bool" where
  "sameAccess a b \<longleftrightarrow> canonical a = canonical b"

lemma int_str_inj: "int_str i = int_str j \<longleftrightarrow> i = j"
  by (metis js_Number_int_str jsnum.inject of_int_eq_iff)

lemma nat_str_no_colon: "CHR '':'' \<notin> set (nat_str n)"
  using nat_str_digits [of "CHR '':''" n] by (auto simp: is_digit_def)

lemma int_str_no_colon: "CHR '':'' \<notin> set (int_str i)"
  using nat_str_no_colon by (simp add: int_str_def)

lemma append_sep_inj:
  "d \<notin> set xs \<Longrightarrow> d \<notin> set xs' \<Longrightarrow> xs @ [d] @ ys = xs' @ [d] @ ys' \<longleftrightarrow> xs = xs' \<and> ys = ys'"
proof (induction xs arbitrary: xs')
  case Nil
  then show ?case by (cases xs') auto
next
  case (Cons x xs)
  then show ?case by (cases xs') auto
qed

lemma assignment_key_inj: "inj assignment_key"
proof (rule injI)
  fix a b
  assume "assignment_key a = assignment_key b"
  then have k: "int_str (fst a) = int_str (fst b)"
    "(case snd a of Some p \<Rightarrow> int_str p | None \<Rightarrow> []) = (case snd b of Some p \<Rightarrow> int_str p | None \<Rightarrow> [])"
    unfolding assignment_key_def
    using append_sep_inj [OF int_str_no_colon [of "fst a"] int_str_no_colon [of "fst b"]] by simp_all
  have "snd a = snd b"
    using k(2) int_str_inj
    by (cases "snd a"; cases "snd b") (simp_all add: int_str_nonempty int_str_nonempty [symmetric])
  with k(1) show "a = b" by (simp add: int_str_inj prod_eq_iff)
qed

lemma action_str_facts: "CHR '':'' \<notin> set (action_str a)" "action_str a = action_str b \<longleftrightarrow> a = b"
  by (cases a; simp) (cases a; cases b; simp)

lemma permission_key_inj: "inj permission_key"
proof (rule injI)
  fix p q
  assume "permission_key p = permission_key q"
  then have "rev (action_str (pm_action p)) @ [CHR '':''] @ rev (pm_resource p) =
      rev (action_str (pm_action q)) @ [CHR '':''] @ rev (pm_resource q)"
    by (metis append.assoc permission_key_def rev_append rev_singleton_conv)
  then have "action_str (pm_action p) = action_str (pm_action q) \<and> pm_resource p = pm_resource q"
    using append_sep_inj [of "CHR '':''" "rev (action_str (pm_action p))" "rev (action_str (pm_action q))"]
      action_str_facts(1) by simp
  then show "p = q" by (simp add: action_str_facts(2))
qed

lemma sort_key_eq_iff: "inj f \<Longrightarrow> sort_key f xs = sort_key f ys \<longleftrightarrow> mset xs = mset ys"
  by (metis mset_sort sort_key_eq_sort_key inj_on_subset subset_UNIV)

lemma sort_map_eq_iff: "inj f \<Longrightarrow> sort (map f xs) = sort (map f ys) \<longleftrightarrow> mset xs = mset ys"
proof -
  assume "inj f"
  have "sort (map f xs) = sort (map f ys) \<longleftrightarrow> mset (map f xs) = mset (map f ys)"
    by (metis mset_sort properties_for_sort sorted_sort)
  also have "\<dots> \<longleftrightarrow> mset xs = mset ys"
    using multiset.inj_map [OF \<open>inj f\<close>] by (simp add: inj_eq)
  finally show ?thesis .
qed

text \<open>
  two requests count as the same access exactly when they give the same roles on the
  same projects, and the same permissions of the member's own on the same projects, whatever
  the order: the strings that are compared lose nothing.
\<close>

theorem same_access_iff:
  "sameAccess a b =
     (mset (sa_assignments a) = mset (sa_assignments b) \<and>
      map_option (\<lambda>(ps, pr). (mset ps, map_option mset pr)) (sa_personal a) =
      map_option (\<lambda>(ps, pr). (mset ps, map_option mset pr)) (sa_personal b))"
proof -
  have i: "inj int_str" using int_str_inj by (simp add: inj_def)
  show ?thesis
    unfolding sameAccess_def canonical_def
    by (cases "sa_personal a"; cases "sa_personal b")
      (auto simp: sort_map_eq_iff [OF assignment_key_inj] sort_map_eq_iff [OF permission_key_inj]
        sort_key_eq_iff [OF i] split: option.splits, metis map_option_eq_Some)
qed

section \<open>What a line can choose\<close>

record role =
  rl_id :: int
  rl_name :: string
  rl_description :: string
  rl_permissions :: "permission list"

record role_option =
  ro_id :: int
  ro_name :: string
  ro_description :: string

definition reachesProjects :: "permission list \<Rightarrow> catalog_resource list \<Rightarrow> bool" where
  "reachesProjects ps catalog \<longleftrightarrow>
     list_ex (\<lambda>p. case List.find (\<lambda>r. cr_key r = pm_resource p) catalog of
                    Some r \<Rightarrow> cr_scope r = Scope_project | None \<Rightarrow> False) ps"

definition isUnlisted :: "role_choice \<Rightarrow> int list \<Rightarrow> bool" where
  "isUnlisted role roles \<longleftrightarrow> (case role of Role r \<Rightarrow> r \<notin> set roles | _ \<Rightarrow> False)"

definition roleChoices :: "role list \<Rightarrow> held_role list \<Rightarrow> (permission \<Rightarrow> bool) \<Rightarrow> role_option list" where
  "roleChoices roles held canGive =
     (let holds = (\<lambda>i. list_ex (\<lambda>h. hr_role h = i) held);
          listed = filter (\<lambda>r. holds (rl_id r) \<or> list_all canGive (rl_permissions r)) roles;
          unlisted = filter (\<lambda>h. \<not> hr_personal h \<and> \<not> list_ex (\<lambda>r. rl_id r = hr_role h) roles) held
      in map (\<lambda>r. \<lparr>ro_id = rl_id r, ro_name = rl_name r, ro_description = rl_description r\<rparr>) listed @
         map (\<lambda>h. \<lparr>ro_id = hr_role h, ro_name = hr_name h, ro_description = []\<rparr>) unlisted)"

text \<open>Every role a line of the editor shows can be chosen there, listed or not.\<close>

lemma held_roles_choosable:
  assumes "row \<in> set (rowsFrom held)" and "ar_role row = Role r"
  shows "\<exists>c \<in> set (roleChoices roles held canGive). ro_id c = r"
proof -
  have "Role r \<in> role_of ` set held"
    using assms rowsFrom_rows [of held] unfolding rows_for_def by (metis image_eqI)
  then obtain h where h: "h \<in> set held" "\<not> hr_personal h" "hr_role h = r"
    by (auto simp: role_of_def split: if_splits)
  show ?thesis
  proof (cases "\<exists>x \<in> set roles. rl_id x = r")
    case True
    then obtain x where "x \<in> set roles" "rl_id x = r" by blast
    then show ?thesis
      using h by (intro bexI [of _ "\<lparr>ro_id = rl_id x, ro_name = rl_name x, ro_description = rl_description x\<rparr>"])
        (auto simp: roleChoices_def Let_def list_ex_iff)
  next
    case False
    then show ?thesis
      using h by (intro bexI [of _ "\<lparr>ro_id = hr_role h, ro_name = hr_name h, ro_description = []\<rparr>"])
        (auto simp: roleChoices_def Let_def list_ex_iff)
  qed
qed

section \<open>The menu of a scope\<close>

record menu_action =
  mn_id :: string
  mn_label :: string
  mn_selected :: "bool option"
  mn_disabled :: bool
  mn_separated :: bool
  mn_selects :: "string option option"  \<comment> \<open>what \<open>onSelect\<close> is called with, when it is there\<close>

definition option_actions :: "string list \<Rightarrow> string option \<Rightarrow> menu_action list" where
  "option_actions opts value =
     map (\<lambda>(index, option).
            \<lparr>mn_id = option, mn_label = option, mn_selected = Some (value = Some option),
             mn_disabled = False, mn_separated = (index = 0), mn_selects = Some (Some option)\<rparr>)
       (enumerate 0 opts)"

definition scopeActions :: "string list \<Rightarrow> string option \<Rightarrow> string \<Rightarrow> string \<Rightarrow> menu_action list" where
  "scopeActions opts value allLabel emptyLabel =
     \<lparr>mn_id = ''*'', mn_label = allLabel, mn_selected = Some (value = None), mn_disabled = False,
      mn_separated = False, mn_selects = Some None\<rparr> #
     (if opts = []
      then [\<lparr>mn_id = ''-'', mn_label = emptyLabel, mn_selected = None, mn_disabled = True,
             mn_separated = True, mn_selects = None\<rparr>]
      else option_actions opts value)"

text \<open>The menu marks what choosing it would select: the value it has, and nothing else.\<close>

lemma scope_menu_marks_value:
  "e \<in> set (scopeActions opts value a b) \<Longrightarrow> mn_selected e = Some m \<Longrightarrow>
     m \<longleftrightarrow> mn_selects e = Some value"
  by (auto simp: scopeActions_def option_actions_def split: if_splits)

end
