(* ===== verification/Json.thy ===== *)
theory Json
  imports JsBase
begin

text \<open>
  \<open>JSON.parse\<close> and \<open>JSON.stringify\<close>, which the dashboard reads payloads with: a recursive
  descent over the grammar with fuel (the length of the text is always enough, as each
  call consumes a character), and the printer. A number that overflows a double, and the
  order JavaScript gives keys that look like array indices, are not modelled; an escape of
  a character beyond Latin-1 is read as a question mark.
\<close>

section \<open>Printing\<close>

definition hex_digit :: "nat \<Rightarrow> char" where
  "hex_digit n = ''0123456789abcdef'' ! n"

definition json_char :: "char \<Rightarrow> string" where
  "json_char c =
     (if c = CHR 0x22 then [CHR 0x5C, CHR 0x22]
      else if c = CHR 0x5C then [CHR 0x5C, CHR 0x5C]
      else if c = CHR 0x08 then [CHR 0x5C, CHR ''b'']
      else if c = CHR 0x0C then [CHR 0x5C, CHR ''f'']
      else if c = CHR 0x0A then [CHR 0x5C, CHR ''n'']
      else if c = CHR 0x0D then [CHR 0x5C, CHR ''r'']
      else if c = CHR 0x09 then [CHR 0x5C, CHR ''t'']
      else if (of_char c :: nat) < 32
      then [CHR 0x5C, CHR ''u'', CHR ''0'', CHR ''0'', hex_digit (of_char c div 16),
            hex_digit (of_char c mod 16)]
      else [c])"

definition json_quote :: "string \<Rightarrow> string" where
  "json_quote s = CHR 0x22 # concat (map json_char s) @ [CHR 0x22]"

text \<open>
  \<open>undefined\<close> prints as nothing at the top (\<open>None\<close>) and as \<open>null\<close> in an array, and a member
  that is \<open>undefined\<close> is left out.
\<close>

fun json_text :: "jv \<Rightarrow> string" where
  "json_text JUndef = ''null''"
| "json_text JNull = ''null''"
| "json_text (JBool b) = (if b then ''true'' else ''false'')"
| "json_text (JNum x) = (case x of Fin _ \<Rightarrow> num_str x | _ \<Rightarrow> ''null'')"
| "json_text (JStr s) = json_quote s"
| "json_text (JArr vs) = ''['' @ join_with '','' (map json_text vs) @ '']''"
| "json_text (JObj ps) = ''{'' @ join_with '',''
     (map (\<lambda>(k, v). json_quote k @ '':'' @ json_text v) (filter (\<lambda>(k, v). v \<noteq> JUndef) ps)) @ ''}''"

definition json_stringify :: "jv \<Rightarrow> string option" where
  "json_stringify v = (if v = JUndef then None else Some (json_text v))"

section \<open>Parsing\<close>

definition json_ws :: "string \<Rightarrow> string" where
  "json_ws s = dropWhile (\<lambda>c. c \<in> {CHR '' '', CHR 0x09, CHR 0x0A, CHR 0x0D}) s"

definition escape_char :: "char \<Rightarrow> char option" where
  "escape_char e =
     (if e = CHR 0x22 \<or> e = CHR 0x5C \<or> e = CHR ''/'' then Some e
      else if e = CHR ''b'' then Some (CHR 0x08)
      else if e = CHR ''f'' then Some (CHR 0x0C)
      else if e = CHR ''n'' then Some (CHR 0x0A)
      else if e = CHR ''r'' then Some (CHR 0x0D)
      else if e = CHR ''t'' then Some (CHR 0x09)
      else None)"

definition hex4 :: "char \<Rightarrow> char \<Rightarrow> char \<Rightarrow> char \<Rightarrow> char option" where
  "hex4 a b c d =
     (case (hex_val a, hex_val b, hex_val c, hex_val d) of
        (Some w, Some x, Some y, Some z) \<Rightarrow>
          let n = ((w * 16 + x) * 16 + y) * 16 + z
          in Some (if n < 256 then char_of n else CHR ''?'')
      | _ \<Rightarrow> None)"

definition cons_char :: "char \<Rightarrow> (string \<times> string) option \<Rightarrow> (string \<times> string) option" where
  "cons_char c r = map_option (\<lambda>(s, rest). (c # s, rest)) r"

fun p_chars :: "string \<Rightarrow> (string \<times> string) option" where
  "p_chars [] = None"
| "p_chars (c # r) =
     (if c = CHR 0x22 then Some ([], r)
      else if c = CHR 0x5C then
        (case r of
           [] \<Rightarrow> None
         | e # r' \<Rightarrow>
             if e = CHR ''u'' then
               (case r' of
                  h1 # h2 # h3 # h4 # r'' \<Rightarrow>
                    (case hex4 h1 h2 h3 h4 of None \<Rightarrow> None | Some d \<Rightarrow> cons_char d (p_chars r''))
                | _ \<Rightarrow> None)
             else (case escape_char e of None \<Rightarrow> None | Some d \<Rightarrow> cons_char d (p_chars r')))
      else if (of_char c :: nat) < 32 then None
      else cons_char c (p_chars r))"

text \<open>The lexeme of a number, and what follows it.\<close>

definition number_fraction :: "string \<Rightarrow> string \<times> string" where
  "number_fraction s =
     (if starts_with ''.'' s \<and> takeWhile is_digit (tl s) \<noteq> []
      then (CHR ''.'' # takeWhile is_digit (tl s), dropWhile is_digit (tl s)) else ([], s))"

definition number_exponent :: "string \<Rightarrow> string \<times> string" where
  "number_exponent s =
     (case s of [] \<Rightarrow> ([], s)
      | e # r \<Rightarrow>
          let sign = (if starts_with ''-'' r \<or> starts_with ''+'' r then [hd r] else []);
              ds = takeWhile is_digit (drop (length sign) r)
          in if (e = CHR ''e'' \<or> e = CHR ''E'') \<and> ds \<noteq> []
             then (e # sign @ ds, drop (1 + length sign + length ds) s) else ([], s))"

definition p_number :: "string \<Rightarrow> (jv \<times> string) option" where
  "p_number s =
     (let sign = (if starts_with ''-'' s then ''-'' else []);
          s1 = drop (length sign) s;
          i = (if starts_with ''0'' s1 then ''0'' else takeWhile is_digit s1);
          (f, s3) = number_fraction (drop (length i) s1);
          (e, s4) = number_exponent s3
      in if i = [] then None else Some (JNum (js_Number (sign @ i @ f @ e)), s4))"

fun p_value :: "nat \<Rightarrow> string \<Rightarrow> (jv \<times> string) option"
  and p_items :: "nat \<Rightarrow> string \<Rightarrow> (jv list \<times> string) option"
  and p_members :: "nat \<Rightarrow> (string \<times> jv) list \<Rightarrow> string \<Rightarrow> ((string \<times> jv) list \<times> string) option"
where
  "p_value 0 s = None"
| "p_value (Suc n) s =
     (case json_ws s of
        [] \<Rightarrow> None
      | c # r \<Rightarrow>
          if c = CHR 0x22 then map_option (\<lambda>(t, rest). (JStr t, rest)) (p_chars r)
          else if c = CHR ''['' then
            (if starts_with '']'' (json_ws r) then Some (JArr [], tl (json_ws r))
             else map_option (\<lambda>(vs, rest). (JArr vs, rest)) (p_items n r))
          else if c = CHR ''{'' then
            (if starts_with ''}'' (json_ws r) then Some (JObj [], tl (json_ws r))
             else map_option (\<lambda>(ps, rest). (JObj ps, rest)) (p_members n [] r))
          else if starts_with ''null'' (c # r) then Some (JNull, drop 4 (c # r))
          else if starts_with ''true'' (c # r) then Some (JBool True, drop 4 (c # r))
          else if starts_with ''false'' (c # r) then Some (JBool False, drop 5 (c # r))
          else p_number (c # r))"
| "p_items 0 s = None"
| "p_items (Suc n) s =
     (case p_value n s of
        None \<Rightarrow> None
      | Some (v, rest) \<Rightarrow>
          (case json_ws rest of
             [] \<Rightarrow> None
           | c # r \<Rightarrow>
               if c = CHR '']'' then Some ([v], r)
               else if c = CHR '','' then map_option (\<lambda>(vs, rest'). (v # vs, rest')) (p_items n r)
               else None))"
| "p_members 0 acc s = None"
| "p_members (Suc n) acc s =
     (case json_ws s of
        [] \<Rightarrow> None
      | q # r \<Rightarrow>
          if q \<noteq> CHR 0x22 then None
          else (case p_chars r of
             None \<Rightarrow> None
           | Some (k, r1) \<Rightarrow>
               if \<not> starts_with '':'' (json_ws r1) then None
               else (case p_value n (tl (json_ws r1)) of
                  None \<Rightarrow> None
                | Some (v, r2) \<Rightarrow>
                    (case json_ws r2 of
                       [] \<Rightarrow> None
                     | c # r3 \<Rightarrow>
                         if c = CHR ''}'' then Some (obj_put k v acc, r3)
                         else if c = CHR '','' then p_members n (obj_put k v acc) r3
                         else None))))"

text \<open>\<open>None\<close> is the \<open>SyntaxError\<close>.\<close>

definition json_parse :: "string \<Rightarrow> jv option" where
  "json_parse s =
     (case p_value (Suc (length s)) s of
        Some (v, rest) \<Rightarrow> if json_ws rest = [] then Some v else None
      | None \<Rightarrow> None)"

section \<open>The round trip\<close>

lemma hex_val_digit: "n < 16 \<Longrightarrow> hex_val (hex_digit n) = Some n"
proof -
  have "\<forall>n \<in> set [0..<16]. hex_val (hex_digit n) = Some n" by code_simp
  then show "n < 16 \<Longrightarrow> hex_val (hex_digit n) = Some n" by simp
qed

lemma hex4_control:
  assumes "(of_char c :: nat) < 32"
  shows "hex4 (CHR ''0'') (CHR ''0'') (hex_digit (of_char c div 16)) (hex_digit (of_char c mod 16)) = Some c"
proof -
  have z: "hex_val (CHR ''0'') = Some 0" by code_simp
  have "hex_val (hex_digit (of_char c div 16)) = Some (of_char c div 16)"
    using assms by (intro hex_val_digit) simp
  moreover have "hex_val (hex_digit (of_char c mod 16)) = Some (of_char c mod 16)"
    by (intro hex_val_digit) simp
  ultimately show ?thesis using assms z by (simp add: hex4_def Let_def)
qed

lemma p_chars_json_char: "p_chars (json_char c @ r) = cons_char c (p_chars r)"
  using hex4_control [of c] by (simp add: json_char_def escape_char_def)

lemma p_chars_quoted: "p_chars (concat (map json_char s) @ CHR 0x22 # r) = Some (s, r)"
  by (induction s) (simp_all add: p_chars_json_char cons_char_def)

lemma json_ws_stop: "c \<notin> {CHR '' '', CHR 0x09, CHR 0x0A, CHR 0x0D} \<Longrightarrow> json_ws (c # r) = c # r"
  by (simp add: json_ws_def)

text \<open>Values without \<open>undefined\<close>, with whole numbers and distinct keys: those that come back.\<close>

fun json_wf :: "jv \<Rightarrow> bool" where
  "json_wf JUndef = False"
| "json_wf JNull = True"
| "json_wf (JBool b) = True"
| "json_wf (JNum x) = (as_integer x \<noteq> None)"
| "json_wf (JStr s) = True"
| "json_wf (JArr vs) = (\<forall>v \<in> set vs. json_wf v)"
| "json_wf (JObj ps) = (distinct (map fst ps) \<and> (\<forall>p \<in> set ps. json_wf (snd p)))"

text \<open>What may follow a value: not a character that would continue a number.\<close>

definition json_end :: "string \<Rightarrow> bool" where
  "json_end r \<longleftrightarrow> (case r of [] \<Rightarrow> True | c # _ \<Rightarrow>
     \<not> is_digit c \<and> c \<noteq> CHR ''.'' \<and> c \<noteq> CHR ''e'' \<and> c \<noteq> CHR ''E'')"

lemma json_end_simps [simp]: "json_end []" "json_end (CHR '','' # r)" "json_end (CHR '']'' # r)"
  "json_end (CHR ''}'' # r)"
  by (simp_all add: json_end_def is_digit_def)

lemma fraction_exponent_end: "json_end r \<Longrightarrow> number_fraction r = ([], r) \<and> number_exponent r = ([], r)"
  by (cases r) (auto simp: json_end_def number_fraction_def number_exponent_def starts_with_def Let_def)

lemma nat_str_head: "nat_str n = c # r \<Longrightarrow> c = CHR ''0'' \<Longrightarrow> n = 0"
proof (induction n arbitrary: r rule: nat_str.induct)
  case (1 n)
  show ?case
  proof (cases "n < 10")
    case True
    then have "digit_char n = CHR ''0''" using 1 by (simp add: nat_str.simps [of n])
    then show ?thesis using True digit_val_char_of [of n] by (simp add: digit_val_def)
  next
    case False
    obtain d ds where d: "nat_str (n div 10) = d # ds" by (cases "nat_str (n div 10)") auto
    have "nat_str n = (d # ds) @ [digit_char (n mod 10)]"
      using False d by (simp add: nat_str.simps [of n])
    then have "d = CHR ''0''" using 1(2,3) by simp
    then have "n div 10 = 0" using 1(1) [OF False, of ds] 1(3) d by simp
    then show ?thesis using False by simp
  qed
qed

lemma nat_lexeme:
  assumes "json_end r"
  shows "(if starts_with ''0'' (nat_str n @ r) then ''0'' else takeWhile is_digit (nat_str n @ r)) = nat_str n"
proof -
  obtain c ds where cs: "nat_str n = c # ds" by (cases "nat_str n") auto
  show ?thesis
  proof (cases "c = CHR ''0''")
    case True
    then have "n = 0" using nat_str_head cs by blast
    then show ?thesis by (simp add: nat_str.simps [of 0] digit_char_def starts_with_def)
  next
    case False
    have "takeWhile is_digit r = []" using assms by (cases r) (auto simp: json_end_def)
    moreover have "\<forall>x \<in> set (nat_str n). is_digit x" using nat_str_digits by blast
    ultimately have "takeWhile is_digit (nat_str n @ r) = nat_str n" by (simp add: takeWhile_append2)
    then show ?thesis using False cs by (simp add: starts_with_def)
  qed
qed

lemma p_number_int:
  assumes "json_end r"
  shows "p_number (int_str i @ r) = Some (JNum (Fin (of_int i)), r)"
proof -
  define m where "m = nat \<bar>i\<bar>"
  define sg where "sg = (if i < 0 then ''-'' else [])"
  have s: "int_str i = sg @ nat_str m" by (simp add: int_str_def m_def sg_def)
  obtain c ds where cs: "nat_str m = c # ds" by (cases "nat_str m") auto
  then have "is_digit c" using nat_str_digits [of c m] by simp
  then have "c \<noteq> CHR ''-''" by (rule is_digit_facts)
  then have sgn: "(if starts_with ''-'' (int_str i @ r) then ''-'' else []) = sg"
    by (simp add: s sg_def cs starts_with_def)
  have rest: "drop (length sg) (int_str i @ r) = nat_str m @ r" by (simp add: s)
  have "p_number (int_str i @ r) = Some (JNum (js_Number (sg @ nat_str m)), r)"
    unfolding p_number_def sgn Let_def rest nat_lexeme [OF assms, of m]
    using fraction_exponent_end [OF assms] by simp
  then show ?thesis using s js_Number_int_str [of i] by simp
qed

lemma json_text_head:
  assumes "json_wf v"
  obtains c r where "json_text v = c # r" "c \<notin> {CHR '' '', CHR 0x09, CHR 0x0A, CHR 0x0D}"
    "c \<noteq> CHR '']''" "c \<noteq> CHR ''}''"
proof (cases v)
  case (JNum x)
  then obtain i where x: "x = Fin (of_int i)"
    using assms by (cases x) (auto simp: as_integer_def split: if_splits)
  obtain c r where cr: "int_str i = c # r" by (cases "int_str i") (auto simp: int_str_def split: if_splits)
  have "c = CHR ''-'' \<or> is_digit c"
    using cr nat_str_digits by (auto simp: int_str_def split: if_splits) (metis list.set_intros(1))
  then show thesis using that [of c r] x cr JNum by (auto simp: is_digit_def)
next
  case (JBool b)
  then show thesis using that by (cases b) auto
qed (use assms that in \<open>auto simp: json_quote_def\<close>)

lemma json_text_nonempty: "json_wf v \<Longrightarrow> json_text v \<noteq> []"
  by (metis json_text_head list.distinct(1))

lemma join_cons: "vs \<noteq> [] \<Longrightarrow> join_with sep (v # vs) = v @ sep @ join_with sep vs"
  by (cases vs) auto

lemma obj_put_new: "k \<notin> fst ` set ps \<Longrightarrow> obj_put k v ps = ps @ [(k, v)]"
  by (induction k v ps rule: obj_put.induct) auto

text \<open>The two lists, given that each element is read back.\<close>

lemma p_items_text:
  assumes "vs \<noteq> []" and "\<forall>v \<in> set vs. json_wf v \<and>
      (\<forall>n r. json_end r \<longrightarrow> length (json_text v) < n \<longrightarrow> p_value n (json_text v @ r) = Some (v, r))"
    and "length (join_with '','' (map json_text vs)) + 1 < n"
  shows "p_items n (join_with '','' (map json_text vs) @ '']'' @ r) = Some (vs, r)"
  using assms
proof (induction vs arbitrary: n)
  case (Cons v vs)
  obtain m where m: "n = Suc m" using Cons.prems(3) by (cases n) auto
  show ?case
  proof (cases "vs = []")
    case True
    then have "p_value m (json_text v @ '']'' @ r) = Some (v, '']'' @ r)"
      using Cons.prems m by simp
    then show ?thesis using True m by (simp add: json_ws_stop)
  next
    case False
    have j: "join_with '','' (json_text v # map json_text vs) = json_text v @ '','' @ join_with '','' (map json_text vs)"
      using False by (simp add: join_cons)
    have "p_value m (json_text v @ '','' @ join_with '','' (map json_text vs) @ '']'' @ r) =
        Some (v, '','' @ join_with '','' (map json_text vs) @ '']'' @ r)"
      using Cons.prems(2,3) m j by simp
    moreover have "p_items m (join_with '','' (map json_text vs) @ '']'' @ r) = Some (vs, r)"
      using Cons.prems m False by (intro Cons.IH) (simp_all add: j)
    ultimately show ?thesis using m by (simp add: j json_ws_stop del: join_with.simps)
  qed
qed simp

definition member_text :: "string \<times> jv \<Rightarrow> string" where
  "member_text p = json_quote (fst p) @ '':'' @ json_text (snd p)"

lemma p_members_text:
  assumes "ps \<noteq> []" and "\<forall>p \<in> set ps. json_wf (snd p) \<and>
      (\<forall>n r. json_end r \<longrightarrow> length (json_text (snd p)) < n \<longrightarrow>
         p_value n (json_text (snd p) @ r) = Some (snd p, r))"
    and "length (join_with '','' (map member_text ps)) + 1 < n"
    and "distinct (map fst acc @ map fst ps)"
  shows "p_members n acc (join_with '','' (map member_text ps) @ ''}'' @ r) = Some (acc @ ps, r)"
  using assms
proof (induction ps arbitrary: n acc)
  case (Cons p ps)
  obtain k v where p: "p = (k, v)" by (cases p)
  obtain m where m: "n = Suc m" using Cons.prems(3) by (cases n) auto
  have put: "obj_put k v acc = acc @ [(k, v)]"
    using Cons.prems(4) p by (intro obj_put_new) auto
  define tail where "tail = (if ps = [] then ''}'' @ r
    else '','' @ join_with '','' (map member_text ps) @ ''}'' @ r)"
  have whole: "join_with '','' (map member_text (p # ps)) @ ''}'' @ r =
      json_quote k @ '':'' @ json_text v @ tail"
    by (simp add: tail_def p join_cons member_text_def)
  have inner: "join_with '','' (map member_text (p # ps)) = json_quote k @ '':'' @ json_text v @
      (if ps = [] then [] else '','' @ join_with '','' (map member_text ps))"
    by (simp add: p join_cons member_text_def)
  have len: "length (json_text v) < m" "ps \<noteq> [] \<Longrightarrow> length (join_with '','' (map member_text ps)) + 1 < m"
    using Cons.prems(3) unfolding m inner by simp_all
  have v: "p_value m (json_text v @ tail) = Some (v, tail)"
    using Cons.prems(2) len(1) p by (simp add: tail_def)
  have read: "p_members n acc (json_quote k @ '':'' @ json_text v @ tail) =
    (case json_ws tail of [] \<Rightarrow> None
     | c # r3 \<Rightarrow> if c = CHR ''}'' then Some (obj_put k v acc, r3)
                 else if c = CHR '','' then p_members m (obj_put k v acc) r3 else None)"
    by (simp add: m json_quote_def json_ws_stop p_chars_quoted v starts_with_def)
  show ?case
  proof (cases "ps = []")
    case True
    then show ?thesis unfolding whole read by (simp add: tail_def json_ws_stop put p)
  next
    case False
    have "p_members m (acc @ [(k, v)]) (join_with '','' (map member_text ps) @ ''}'' @ r) =
        Some ((acc @ [(k, v)]) @ ps, r)"
      using Cons.prems False len(2) p by (intro Cons.IH) auto
    then show ?thesis unfolding whole read using False
      by (simp add: tail_def json_ws_stop put p)
  qed
qed simp

lemma not_closing:
  assumes "json_wf v"
  shows "\<not> starts_with '']'' (json_ws (json_text v @ r))"
proof -
  obtain c t where "json_text v = c # t" "c \<notin> {CHR '' '', CHR 0x09, CHR 0x0A, CHR 0x0D}" "c \<noteq> CHR '']''"
    using json_text_head [OF assms] by metis
  then show ?thesis by (simp add: json_ws_stop starts_with_def)
qed

lemma p_value_number:
  assumes "json_end r"
  shows "p_value (Suc n) (int_str i @ r) = Some (JNum (Fin (of_int i)), r)"
proof -
  obtain c s where cs: "int_str i = c # s"
    by (cases "int_str i") (auto simp: int_str_def split: if_splits)
  have "c = CHR ''-'' \<or> is_digit c"
    using cs nat_str_digits by (auto simp: int_str_def split: if_splits) (metis list.set_intros(1))
  then have "c \<notin> {CHR '' '', CHR 0x09, CHR 0x0A, CHR 0x0D, CHR 0x22, CHR ''['', CHR ''{'',
      CHR ''n'', CHR ''t'', CHR ''f''}"
    by (auto simp: is_digit_def)
  then have "p_value (Suc n) (int_str i @ r) = p_number (int_str i @ r)"
    by (simp add: cs json_ws_stop starts_with_def)
  then show ?thesis using p_number_int [OF assms] by simp
qed

lemma p_value_text:
  "json_wf v \<Longrightarrow> json_end r \<Longrightarrow> length (json_text v) < n \<Longrightarrow> p_value n (json_text v @ r) = Some (v, r)"
proof (induction v arbitrary: n r)
  case (JNum x)
  then obtain i where "x = Fin (of_int i)" by (cases x) (auto simp: as_integer_def split: if_splits)
  then show ?case using JNum p_value_number by (cases n) auto
next
  case (JStr s)
  then show ?case by (cases n) (simp_all add: json_quote_def json_ws_stop p_chars_quoted)
next
  case (JArr vs)
  obtain m where m: "n = Suc m" using JArr.prems(3) by (cases n) auto
  show ?case
  proof (cases "vs = []")
    case True
    then show ?thesis by (simp add: m json_ws_stop starts_with_def)
  next
    case False
    have "p_items m (join_with '','' (map json_text vs) @ '']'' @ r) = Some (vs, r)"
      using JArr m False by (intro p_items_text) auto
    moreover have "\<not> starts_with '']'' (json_ws (join_with '','' (map json_text vs) @ '']'' @ r))"
    proof -
      obtain w ws where w: "vs = w # ws" using False by (cases vs) auto
      then have "\<exists>t. join_with '','' (map json_text vs) @ '']'' @ r = json_text w @ t"
        by (cases ws) auto
      moreover have "json_wf w" using JArr.prems(1) w by simp
      ultimately show ?thesis using not_closing by metis
    qed
    ultimately show ?thesis by (simp add: m json_ws_stop)
  qed
next
  case (JObj ps)
  obtain m where m: "n = Suc m" using JObj.prems(3) by (cases n) auto
  have nu: "filter (\<lambda>(k, v). v \<noteq> JUndef) ps = ps"
    using JObj.prems(1) by (intro filter_True) auto
  have mt: "(\<lambda>(k, v). json_quote k @ '':'' @ json_text v) = member_text"
    by (auto simp: member_text_def)
  have tx: "json_text (JObj ps) = ''{'' @ join_with '','' (map member_text ps) @ ''}''"
    by (simp only: json_text.simps nu mt)
  show ?case
  proof (cases "ps = []")
    case True
    then show ?thesis by (simp add: m json_ws_stop starts_with_def)
  next
    case False
    have "length (join_with '','' (map member_text ps)) + 1 < m" using JObj.prems(3) tx m by simp
    moreover have "p_value k (json_text (snd p) @ r') = Some (snd p, r')"
      if "p \<in> set ps" "json_end r'" "length (json_text (snd p)) < k" for p k r'
      using that JObj.prems(1) by (intro JObj.IH [of p "snd p"]) (auto simp: prod_set_defs)
    ultimately have "p_members m [] (join_with '','' (map member_text ps) @ ''}'' @ r) = Some ([] @ ps, r)"
      using JObj.prems(1) False by (intro p_members_text) auto
    moreover have "\<not> starts_with ''}'' (json_ws (join_with '','' (map member_text ps) @ ''}'' @ r))"
      using False by (cases ps; cases "tl ps")
        (auto simp: member_text_def json_quote_def json_ws_stop starts_with_def)
    ultimately show ?thesis unfolding tx by (simp add: m json_ws_stop)
  qed
next
  case JNull
  then show ?case by (cases n) (simp_all add: json_ws_stop starts_with_def)
next
  case (JBool b)
  then show ?case by (cases n; cases b) (simp_all add: json_ws_stop starts_with_def)
qed simp

lemma json_roundtrip: "json_wf v \<Longrightarrow> json_parse (json_text v) = Some v"
  using p_value_text [of v "[]" "Suc (length (json_text v))"] by (simp add: json_parse_def json_ws_def)

end
