(* ===== verification/GenAi.thy ===== *)
theory GenAi
  imports Json
begin

text \<open>
  \<open>features/agent-trace/model/gen-ai.ts\<close>: reading the \<open>gen_ai.*\<close> attributes of a span: its
  input and output, the tools it was given, its token counts reconciled between the two
  conventions providers follow, and a conversation as chat messages. Counts are exact
  rationals: the rounding of doubles is not modelled. \<open>String(role)\<close> of an object whose own
  \<open>toString\<close> is no function throws in JavaScript; here it prints as any object does.
\<close>

section \<open>Attributes\<close>

type_synonym attributes = "(string \<times> jv) list"

definition attr :: "attributes \<Rightarrow> string \<Rightarrow> jv" where
  "attr a k = (case map_of a k of Some v \<Rightarrow> v | None \<Rightarrow> JUndef)"

fun num :: "attributes \<Rightarrow> string list \<Rightarrow> rat" where
  "num a [] = 0"
| "num a (k # ks) =
     (case attr a k of
        JNum (Fin q) \<Rightarrow> q
      | JStr s \<Rightarrow>
          (if trim s \<noteq> [] then (case js_Number s of Fin q \<Rightarrow> q | _ \<Rightarrow> num a ks) else num a ks)
      | _ \<Rightarrow> num a ks)"

fun str :: "attributes \<Rightarrow> string list \<Rightarrow> string option" where
  "str a [] = None"
| "str a (k # ks) =
     (case attr a k of
        JStr s \<Rightarrow> (if s \<noteq> [] then Some s else str a ks)
      | JArr vs \<Rightarrow> Some (json_text (JArr vs))
      | JObj ps \<Rightarrow> Some (json_text (JObj ps))
      | _ \<Rightarrow> str a ks)"

record ai_input =
  ai_messages :: string
  ai_systemInstructions :: "string option"

definition aiInput :: "attributes \<Rightarrow> ai_input option" where
  "aiInput a =
     (case str a [''gen_ai.input.messages'', ''gen_ai.request.messages'', ''ai.input_messages'',
                  ''ai.prompt'', ''gen_ai.tool.call.arguments'', ''gen_ai.tool.input'',
                  ''gen_ai.embeddings.input''] of
        None \<Rightarrow> None
      | Some messages \<Rightarrow>
          Some \<lparr>ai_messages = messages, ai_systemInstructions = str a [''gen_ai.system_instructions'']\<rparr>)"

record ai_output =
  ao_text :: "string option"
  ao_object :: "string option"
  ao_toolCalls :: "string option"

definition aiOutput :: "attributes \<Rightarrow> ai_output option" where
  "aiOutput a =
     (let t = str a [''gen_ai.output.messages'', ''gen_ai.response.text'',
                     ''gen_ai.tool.call.result'', ''gen_ai.tool.output''];
          obj = str a [''gen_ai.response.object''];
          toolCalls = str a [''gen_ai.response.tool_calls'']
      in if t = None \<and> obj = None \<and> toolCalls = None then None
         else Some \<lparr>ao_text = t, ao_object = obj, ao_toolCalls = toolCalls\<rparr>)"

definition tool_name :: "jv \<Rightarrow> string option" where
  "tool_name tool = (case pget ''name'' tool of JStr s \<Rightarrow> Some s | _ \<Rightarrow> None)"

definition availableTools :: "attributes \<Rightarrow> string list option" where
  "availableTools a =
     (case str a [''gen_ai.tool.definitions'', ''gen_ai.request.available_tools''] of
        None \<Rightarrow> None
      | Some raw \<Rightarrow>
          (case json_parse raw of
             Some (JArr tools) \<Rightarrow>
               let names = List.map_filter tool_name tools
               in if names \<noteq> [] then Some names else None
           | _ \<Rightarrow> None))"

section \<open>Tokens\<close>

definition cachedInputTokens :: "attributes \<Rightarrow> rat" where
  "cachedInputTokens a =
     num a [''gen_ai.usage.cache_read.input_tokens'', ''gen_ai.usage.input_tokens.cached'']"

definition adjustedInput :: "rat \<Rightarrow> rat \<Rightarrow> rat \<Rightarrow> rat \<Rightarrow> rat" where
  "adjustedInput inp cached out tot =
     (if cached \<le> 0 then inp
      else
        let without = inp + out; withCached = without + cached
        in if \<bar>withCached - tot\<bar> < \<bar>without - tot\<bar> then inp + cached else inp)"

definition adjustedOutput :: "rat \<Rightarrow> rat \<Rightarrow> rat \<Rightarrow> rat \<Rightarrow> rat" where
  "adjustedOutput inp out reasoning tot =
     (if reasoning \<le> 0 then out
      else
        let without = inp + out; withReasoning = without + reasoning
        in if \<bar>withReasoning - tot\<bar> < \<bar>without - tot\<bar> then out + reasoning else out)"

record usage =
  us_total :: rat
  us_input :: rat
  us_output :: rat
  us_cached :: rat
  us_reasoning :: rat

definition rawUsage :: "attributes \<Rightarrow> usage" where
  "rawUsage a =
     (let inp = num a [''gen_ai.usage.input_tokens''];
          out = num a [''gen_ai.usage.output_tokens''];
          reported = num a [''gen_ai.usage.total_tokens'']
      in \<lparr>us_total = (if reported \<noteq> 0 then reported else inp + out), us_input = inp, us_output = out,
          us_cached = cachedInputTokens a,
          us_reasoning = num a [''gen_ai.usage.reasoning.output_tokens'',
                               ''gen_ai.usage.output_tokens.reasoning'']\<rparr>)"

definition reportsUsage :: "usage \<Rightarrow> bool" where
  "reportsUsage u \<longleftrightarrow> us_total u \<noteq> 0 \<or> us_input u \<noteq> 0 \<or> us_output u \<noteq> 0"

record token_breakdown =
  tb_netNewInput :: rat
  tb_cached :: rat
  tb_output :: rat
  tb_total :: rat

definition tokenBreakdown :: "attributes \<Rightarrow> token_breakdown option" where
  "tokenBreakdown a =
     (let u = rawUsage a in
      if \<not> reportsUsage u then None
      else
        let inp = adjustedInput (us_input u) (us_cached u) (us_output u) (us_total u);
            out = adjustedOutput inp (us_output u) (us_reasoning u) (us_total u)
        in Some \<lparr>tb_netNewInput = (if us_cached u > 0 then max 0 (inp - us_cached u) else inp),
                 tb_cached = us_cached u, tb_output = out, tb_total = us_total u\<rparr>)"

definition hasTokenMismatch :: "attributes \<Rightarrow> bool" where
  "hasTokenMismatch a =
     (let u = rawUsage a in
      if \<not> reportsUsage u then False
      else if us_input u < 0 \<or> us_output u < 0 \<or> us_total u < 0 \<or> us_cached u < 0 \<or> us_reasoning u < 0
      then True
      else
        let inp = adjustedInput (us_input u) (us_cached u) (us_output u) (us_total u);
            out = adjustedOutput inp (us_output u) (us_reasoning u) (us_total u);
            netNewInput = (if us_cached u > 0 then max 0 (inp - us_cached u) else inp);
            tolerance = max 1 (us_total u * (1 / 100))
        in \<bar>inp + out - us_total u\<bar> > tolerance \<or>
           \<bar>netNewInput + us_cached u + out - us_total u\<bar> > tolerance)"

text \<open>
  where no warning is shown, the figures that are add up: none is negative, and fresh
  input, cached input and output together miss the total by at most one token or one per
  cent of it.
\<close>

theorem shown_tokens_add_up:
  assumes "tokenBreakdown a = Some b" and "\<not> hasTokenMismatch a"
  shows "0 \<le> tb_netNewInput b \<and> 0 \<le> tb_cached b \<and> 0 \<le> tb_output b \<and>
    \<bar>tb_netNewInput b + tb_cached b + tb_output b - tb_total b\<bar> \<le> max 1 (tb_total b / 100)"
proof -
  define u where "u = rawUsage a"
  define inp where "inp = adjustedInput (us_input u) (us_cached u) (us_output u) (us_total u)"
  define out where "out = adjustedOutput inp (us_output u) (us_reasoning u) (us_total u)"
  define net where "net = (if us_cached u > 0 then max 0 (inp - us_cached u) else inp)"
  have b: "b = \<lparr>tb_netNewInput = net, tb_cached = us_cached u, tb_output = out, tb_total = us_total u\<rparr>"
    and rep: "reportsUsage u"
    using assms(1) by (auto simp: tokenBreakdown_def Let_def u_def inp_def out_def net_def split: if_splits)
  have m: "us_input u \<ge> 0" "us_output u \<ge> 0" "us_cached u \<ge> 0" "us_reasoning u \<ge> 0"
    "\<bar>net + us_cached u + out - us_total u\<bar> \<le> max 1 (us_total u * (1 / 100))"
    using assms(2) rep
    unfolding hasTokenMismatch_def Let_def u_def [symmetric] inp_def [symmetric] out_def [symmetric]
      net_def [symmetric]
    by (auto simp: not_less le_max_iff_disj split: if_splits)
  have "0 \<le> inp" using m(1,3) by (simp add: inp_def adjustedInput_def Let_def)
  moreover have "0 \<le> out" using m(2,4) by (simp add: out_def adjustedOutput_def Let_def)
  ultimately show ?thesis using m b by (simp add: net_def)
qed

definition usage_attributes :: "int \<Rightarrow> int \<Rightarrow> int \<Rightarrow> int \<Rightarrow> int \<Rightarrow> attributes" where
  "usage_attributes i ou c r t =
     [(''gen_ai.usage.input_tokens'', JNum (Fin (of_int i))),
      (''gen_ai.usage.output_tokens'', JNum (Fin (of_int ou))),
      (''gen_ai.usage.cache_read.input_tokens'', JNum (Fin (of_int c))),
      (''gen_ai.usage.reasoning.output_tokens'', JNum (Fin (of_int r))),
      (''gen_ai.usage.total_tokens'', JNum (Fin (of_int t)))]"

lemma rawUsage_attributes:
  "rawUsage (usage_attributes i ou c r t) =
     \<lparr>us_total = (if t \<noteq> 0 then of_int t else of_int i + of_int ou), us_input = of_int i,
      us_output = of_int ou, us_cached = of_int c, us_reasoning = of_int r\<rparr>"
  by (simp add: rawUsage_def cachedInputTokens_def usage_attributes_def attr_def Let_def)

theorem shown_tokens_add_up_witness:
  "tb_netNewInput (the (tokenBreakdown (usage_attributes 10 5 4 2 15))) = 6 \<and>
   0 \<le> tb_netNewInput (the (tokenBreakdown (usage_attributes 10 5 4 2 15)))"
proof -
  let ?a = "usage_attributes 10 5 4 2 15"
  have t: "tokenBreakdown ?a = Some \<lparr>tb_netNewInput = 6, tb_cached = 4, tb_output = 5, tb_total = 15\<rparr>"
    by (simp add: tokenBreakdown_def rawUsage_attributes reportsUsage_def adjustedInput_def
        adjustedOutput_def Let_def)
  have "\<not> hasTokenMismatch ?a"
    by (simp add: hasTokenMismatch_def rawUsage_attributes reportsUsage_def adjustedInput_def
        adjustedOutput_def Let_def)
  from shown_tokens_add_up [OF t this] show ?thesis by (simp add: t)
qed

text \<open>
  both conventions give the same picture. Whether a provider counts cached tokens in
  its input and reasoning in its output, or reports them beside, the breakdown shows the
  fresh input, the cached input and the whole output, and no warning.
\<close>

theorem conventions_reconciled:
  assumes "0 \<le> fresh" and "0 < cached" and "0 \<le> prose" and "0 \<le> reasoning" and "reasoning < cached"
    and "t = fresh + cached + prose + reasoning"
    and "rawUsage a = \<lparr>us_total = t, us_input = fresh + cached, us_output = prose + reasoning,
           us_cached = cached, us_reasoning = reasoning\<rparr> \<or>
         rawUsage a = \<lparr>us_total = t, us_input = fresh, us_output = prose,
           us_cached = cached, us_reasoning = reasoning\<rparr>"
  shows "tokenBreakdown a = Some \<lparr>tb_netNewInput = fresh, tb_cached = cached,
      tb_output = prose + reasoning, tb_total = t\<rparr> \<and> \<not> hasTokenMismatch a"
proof -
  have "adjustedInput (fresh + cached) cached (prose + reasoning) t = fresh + cached"
    using assms by (simp add: adjustedInput_def Let_def)
  moreover have "adjustedOutput (fresh + cached) (prose + reasoning) reasoning t = prose + reasoning"
    using assms by (simp add: adjustedOutput_def Let_def)
  moreover have "adjustedInput fresh cached prose t = fresh + cached"
    using assms by (simp add: adjustedInput_def Let_def)
  moreover have "adjustedOutput (fresh + cached) prose reasoning t = prose + reasoning"
    using assms by (simp add: adjustedOutput_def Let_def)
  ultimately show ?thesis
    using assms by (auto simp: tokenBreakdown_def hasTokenMismatch_def reportsUsage_def Let_def)
qed

theorem conventions_reconciled_witness:
  "tokenBreakdown (usage_attributes 10 5 4 2 21) =
     Some \<lparr>tb_netNewInput = 10, tb_cached = 4, tb_output = 7, tb_total = 21\<rparr>"
  using conventions_reconciled [of 10 4 5 2 21 "usage_attributes 10 5 4 2 21"]
  by (simp add: rawUsage_attributes)

section \<open>Chat messages\<close>

record chat_message =
  cm_role :: string
  cm_content :: string

definition part_text :: "jv \<Rightarrow> string" where
  "part_text part = (case pget ''text'' part of JStr s \<Rightarrow> s | _ \<Rightarrow> json_text part)"

definition messageText :: "jv \<Rightarrow> string" where
  "messageText body =
     (case body of
        JStr s \<Rightarrow> s
      | JArr parts \<Rightarrow> join_with [CHR 0x0A] (map part_text parts)
      | JUndef \<Rightarrow> []
      | JNull \<Rightarrow> []
      | _ \<Rightarrow> json_text body)"

definition chat_message_of :: "jv \<Rightarrow> chat_message option" where
  "chat_message_of item =
     (case item of
        JObj ps \<Rightarrow>
          (case map_of ps ''role'' of
             None \<Rightarrow> None
           | Some role \<Rightarrow>
               let body = (case attr ps ''parts'' of JArr parts \<Rightarrow> JArr parts | _ \<Rightarrow> attr ps ''content'');
                   calls = (case attr ps ''tool_calls'' of
                      JArr (c # cs) \<Rightarrow> json_text (JArr (c # cs)) | _ \<Rightarrow> [])
               in Some \<lparr>cm_role = js_str role,
                        cm_content = join_with [CHR 0x0A]
                          (filter (\<lambda>t. t \<noteq> []) [messageText body, calls])\<rparr>)
      | _ \<Rightarrow> None)"

fun read_messages :: "jv list \<Rightarrow> chat_message list option" where
  "read_messages [] = Some []"
| "read_messages (item # items) =
     (case chat_message_of item of
        None \<Rightarrow> None
      | Some m \<Rightarrow> map_option (\<lambda>ms. m # ms) (read_messages items))"

definition chatMessages :: "string \<Rightarrow> chat_message list option" where
  "chatMessages raw =
     (case json_parse raw of
        Some (JArr (item # items)) \<Rightarrow> read_messages (item # items)
      | _ \<Rightarrow> None)"

text \<open>A message as OpenAI's SDK sends it, and as OTel's does, in two text parts.\<close>

definition openai_message :: "chat_message \<Rightarrow> jv" where
  "openai_message m = JObj [(''role'', JStr (cm_role m)), (''content'', JStr (cm_content m))]"

definition otel_message :: "string \<Rightarrow> string list \<Rightarrow> jv" where
  "otel_message role texts = JObj [(''role'', JStr role),
     (''parts'', JArr (map (\<lambda>t. JObj [(''type'', JStr ''text''), (''text'', JStr t)]) texts))]"

lemma read_openai: "read_messages (map openai_message ms) = Some ms"
proof (induction ms)
  case (Cons m ms)
  have "chat_message_of (openai_message m) = Some m"
    by (cases "cm_content m") (simp_all add: openai_message_def chat_message_of_def attr_def messageText_def Let_def)
  then show ?case using Cons by simp
qed simp

text \<open>
  C38: a conversation sent as OpenAI messages is read back as it was, role by role and text
  by text, whatever characters the texts hold.
\<close>

theorem chat_roundtrip:
  assumes "ms \<noteq> []"
  shows "chatMessages (json_text (JArr (map openai_message ms))) = Some ms"
proof -
  have "json_wf (JArr (map openai_message ms))" by (auto simp: openai_message_def)
  then have "json_parse (json_text (JArr (map openai_message ms))) = Some (JArr (map openai_message ms))"
    by (rule json_roundtrip)
  then show ?thesis using read_openai [of ms] assms by (cases ms) (auto simp: chatMessages_def)
qed

theorem chat_roundtrip_witness:
  "chatMessages (json_text (JArr [openai_message \<lparr>cm_role = ''user'', cm_content = ''Why?''\<rparr>])) =
     Some [\<lparr>cm_role = ''user'', cm_content = ''Why?''\<rparr>]"
  using chat_roundtrip [of "[\<lparr>cm_role = ''user'', cm_content = ''Why?''\<rparr>]"] by simp

lemma otel_read:
  "chat_message_of (otel_message role texts) =
     Some \<lparr>cm_role = role, cm_content = join_with [CHR 0x0A] texts\<rparr>"
proof -
  have "map part_text (map (\<lambda>t. JObj [(''type'', JStr ''text''), (''text'', JStr t)]) texts) = texts"
    by (induction texts) (simp_all add: part_text_def pget_def)
  then show ?thesis
    by (simp add: otel_message_def chat_message_of_def attr_def messageText_def Let_def del: map_map)
qed

lemma read_messages_length: "read_messages items = Some ms \<Longrightarrow> length ms = length items"
  by (induction items arbitrary: ms) (auto split: option.splits)

end
