(* ===== verification/AgentTrace.thy ===== *)
theory AgentTrace
  imports GenAi
begin

text \<open>
  \<open>features/agent-trace/model\<close>: \<open>filters.ts\<close> (the window a dashboard is read through, empty
  buckets, the span that opens) and \<open>trace-summary.ts\<close> (the header and the waterfall's
  rows). The
  platform's \<open>Date.parse\<close> and \<open>localeCompare\<close>, which depend on its formats and its locale,
  are arguments: \<open>date_parse\<close> gives \<open>None\<close> for \<open>NaN\<close>, \<open>collate_le\<close> is \<open>localeCompare(...) <= 0\<close>.
  Objects are told apart by their contents, of which a span's row id is part.
\<close>

section \<open>Spans\<close>

record span =
  sp_id :: string
  sp_span_id :: "string option"
  sp_parent :: "string option"
  sp_op :: "string option"
  sp_description :: "string option"
  sp_start :: "string option"
  sp_end :: "string option"
  sp_status :: "string option"
  sp_operation :: "string option"
  sp_agent :: "string option"
  sp_request_model :: "string option"
  sp_response_model :: "string option"
  sp_tool :: "string option"
  sp_tokens :: "int option"

text \<open>A string that is there and not empty.\<close>

definition given :: "string option \<Rightarrow> string option" where
  "given s = (case s of Some [] \<Rightarrow> None | _ \<Rightarrow> s)"

definition or_else_opt :: "'a option \<Rightarrow> 'a option \<Rightarrow> 'a option" where
  "or_else_opt a b = (case a of Some _ \<Rightarrow> a | None \<Rightarrow> b)"

definition failed :: "string option \<Rightarrow> bool" where
  "failed status \<longleftrightarrow> status \<noteq> None \<and> status \<noteq> Some ''ok''"

section \<open>The window\<close>

datatype agent_period = P_1h | P_24h | P_7d | P_30d

fun period_str :: "agent_period \<Rightarrow> string" where
  "period_str P_1h = ''1h''"
| "period_str P_24h = ''24h''"
| "period_str P_7d = ''7d''"
| "period_str P_30d = ''30d''"

definition AGENT_PERIODS :: "agent_period list" where
  "AGENT_PERIODS = [P_1h, P_24h, P_7d, P_30d]"

fun PERIOD_HOURS :: "agent_period \<Rightarrow> int" where
  "PERIOD_HOURS P_1h = 1"
| "PERIOD_HOURS P_24h = 24"
| "PERIOD_HOURS P_7d = 24 * 7"
| "PERIOD_HOURS P_30d = 24 * 30"

fun PERIOD_INTERVAL_HOURS :: "agent_period \<Rightarrow> int" where
  "PERIOD_INTERVAL_HOURS P_1h = 1"
| "PERIOD_INTERVAL_HOURS P_24h = 1"
| "PERIOD_INTERVAL_HOURS P_7d = 6"
| "PERIOD_INTERVAL_HOURS P_30d = 24"

definition agent_period_of :: "string option \<Rightarrow> agent_period option" where
  "agent_period_of s =
     (case s of None \<Rightarrow> None | Some v \<Rightarrow> List.find (\<lambda>p. period_str p = v) AGENT_PERIODS)"

definition DEFAULT_AGENT_PERIOD :: agent_period where
  "DEFAULT_AGENT_PERIOD = P_24h"

record agent_filters =
  af_period :: "agent_period option"
  af_periodHours :: "int option"
  af_intervalHours :: int
  af_environment :: "string option"

definition agentPeriodParam :: "agent_period option \<Rightarrow> string option" where
  "agentPeriodParam period =
     (case period of None \<Rightarrow> Some ''all''
      | Some p \<Rightarrow> if p = DEFAULT_AGENT_PERIOD then None else Some (period_str p))"

definition resolveAgentFilters :: "string option \<Rightarrow> string option \<Rightarrow> agent_filters" where
  "resolveAgentFilters pparam environment =
     (let period = (if pparam = Some ''all'' then None
                    else case agent_period_of pparam of Some p \<Rightarrow> Some p | None \<Rightarrow> Some DEFAULT_AGENT_PERIOD)
      in \<lparr>af_period = period, af_periodHours = map_option PERIOD_HOURS period,
          af_intervalHours = (case period of Some p \<Rightarrow> PERIOD_INTERVAL_HOURS p | None \<Rightarrow> 24),
          af_environment = given environment\<rparr>)"

lemma agent_period_roundtrip:
  "af_period (resolveAgentFilters (agentPeriodParam p) env) = p"
  by (cases p; cases "the p")
    (simp_all add: resolveAgentFilters_def agentPeriodParam_def agent_period_of_def AGENT_PERIODS_def
      DEFAULT_AGENT_PERIOD_def)

section \<open>Empty buckets\<close>

function bucket_steps :: "int \<Rightarrow> int \<Rightarrow> int \<Rightarrow> int list" where
  "bucket_steps at_ms newest step =
     (if step \<le> 0 \<or> newest < at_ms then [] else at_ms # bucket_steps (at_ms + step) newest step)"
  by auto
termination by (relation "measure (\<lambda>(at_ms, newest, step). nat (newest - at_ms + 1))") auto

declare bucket_steps.simps [simp del]

definition align :: "int \<Rightarrow> int \<Rightarrow> int" where
  "align step ms = (ms div step) * step"

text \<open>
  \<open>ms_of\<close> is \<open>Date.parse(p.bucket)\<close> of a point, which the server writes as an ISO time, and
  \<open>blank\<close> (the code's \<open>empty\<close>) makes a point of the instant \<open>new Date(at)\<close> prints.
\<close>

definition byBucket :: "int \<Rightarrow> ('p \<Rightarrow> int) \<Rightarrow> 'p list \<Rightarrow> (int \<times> 'p) list" where
  "byBucket step ms_of points = foldl (\<lambda>m p. map_put (align step (ms_of p)) p m) [] points"

definition fillBuckets ::
  "('p \<Rightarrow> int) \<Rightarrow> 'p list \<Rightarrow> int \<Rightarrow> int option \<Rightarrow> (int \<Rightarrow> 'p) \<Rightarrow> int \<Rightarrow> 'p list" where
  "fillBuckets ms_of points intervalHours periodHours blank now =
     (let step = intervalHours * 3600000;
          by = byBucket step ms_of points;
          busy = map fst by
      in if busy = [] \<and> periodHours = None then points
         else
           let first = (case periodHours of
                          Some h \<Rightarrow> align step (now - h * 3600000)
                        | None \<Rightarrow> Min (set busy));
               newest = align step now;
               filled = map (\<lambda>t. case map_of by t of Some p \<Rightarrow> p | None \<Rightarrow> blank t)
                          (bucket_steps first newest step);
               ahead = sort (filter (\<lambda>t. newest < t) busy)
           in filled @ List.map_filter (map_of by) ahead)"

lemma byBucket_keys:
  "distinct (map fst (byBucket step ms_of points)) \<and>
   fst ` set (byBucket step ms_of points) = (align step \<circ> ms_of) ` set points"
proof (induction points rule: rev_induct)
  case (snoc p ps)
  then show ?case by (simp add: byBucket_def map_put_keys map_put_distinct)
qed (simp add: byBucket_def)

lemma bucket_steps_set:
  assumes "0 < step" and "step dvd a"
  shows "set (bucket_steps a newest step) = {t. a \<le> t \<and> t \<le> newest \<and> step dvd t} \<and>
    sorted_wrt (<) (bucket_steps a newest step)"
  using assms
proof (induction a newest step rule: bucket_steps.induct)
  case (1 a newest step)
  show ?case
  proof (cases "newest < a")
    case True
    then show ?thesis by (auto simp: bucket_steps.simps [of a])
  next
    case False
    have ih: "set (bucket_steps (a + step) newest step) = {t. a + step \<le> t \<and> t \<le> newest \<and> step dvd t}"
      "sorted_wrt (<) (bucket_steps (a + step) newest step)"
      using 1 False by auto
    have unf: "bucket_steps a newest step = a # bucket_steps (a + step) newest step"
      using 1 False by (simp add: bucket_steps.simps [of a])
    have "a + step \<le> t" if "a \<le> t" "t \<noteq> a" "step dvd t" for t
    proof -
      have "step dvd (t - a)" using that 1(3) by simp
      then show ?thesis using that zdvd_imp_le [of step "t - a"] by simp
    qed
    then have "{t. a \<le> t \<and> t \<le> newest \<and> step dvd t} = insert a {t. a + step \<le> t \<and> t \<le> newest \<and> step dvd t}"
      using 1 False by auto
    then show ?thesis using ih unf 1(2) by auto
  qed
qed

lemma map_filter_total: "(\<And>x. x \<in> set xs \<Longrightarrow> f x = Some (g x)) \<Longrightarrow> List.map_filter f xs = map g xs"
  by (induction xs) (auto simp: map_filter_def)

text \<open>
  a filled series has one point for every bucket from its start to now and for every
  busy bucket past it, in order of time, and no other: the point the server sent where it
  sent one, an empty one elsewhere.
\<close>

theorem filled_series:
  assumes "0 < intervalHours" and "points \<noteq> [] \<or> periodHours \<noteq> None"
    and "step = intervalHours * 3600000"
    and "first = (case periodHours of Some h \<Rightarrow> align step (now - h * 3600000)
                 | None \<Rightarrow> Min ((align step \<circ> ms_of) ` set points))"
  shows "\<exists>ats. fillBuckets ms_of points intervalHours periodHours blank now =
      map (\<lambda>t. case map_of (byBucket step ms_of points) t of Some p \<Rightarrow> p | None \<Rightarrow> blank t) ats \<and>
    sorted_wrt (<) ats \<and>
    set ats = {t. first \<le> t \<and> t \<le> align step now \<and> step dvd t} \<union>
      {t. align step now < t \<and> t \<in> (align step \<circ> ms_of) ` set points}"
proof -
  define B where "B = byBucket step ms_of points"
  define busy where "busy = map fst B"
  define newest where "newest = align step now"
  define ahead where "ahead = sort (filter (\<lambda>t. newest < t) busy)"
  define point where "point = (\<lambda>t. case map_of B t of Some p \<Rightarrow> p | None \<Rightarrow> blank t)"
  have step: "0 < step" using assms(1,3) by simp
  have keys: "distinct busy" "set busy = (align step \<circ> ms_of) ` set points"
    using byBucket_keys [of step ms_of points] by (simp_all add: B_def busy_def)
  have al: "step dvd align step ms" for ms by (simp add: align_def)
  have first: "step dvd first"
  proof (cases periodHours)
    case None
    then have "set points \<noteq> {}" using assms(2) by simp
    then have "Min ((align step \<circ> ms_of) ` set points) \<in> (align step \<circ> ms_of) ` set points"
      by (intro Min_in) auto
    then show ?thesis using None assms(4) al by auto
  qed (simp add: assms(4) al)
  have busyfirst: "first = (case periodHours of Some h \<Rightarrow> align step (now - h * 3600000) | None \<Rightarrow> Min (set busy))"
    unfolding assms(4) keys(2) ..
  have "List.map_filter (map_of B) ahead = map point ahead"
  proof (rule map_filter_total)
    fix t assume "t \<in> set ahead"
    then have "t \<in> fst ` set B" by (auto simp: ahead_def busy_def)
    then have "map_of B t \<noteq> None" by (simp add: map_of_eq_None_iff)
    then show "map_of B t = Some (point t)" by (auto simp: point_def)
  qed
  moreover have "\<not> (busy = [] \<and> periodHours = None)"
    using assms(2) keys(2) by auto
  ultimately have "fillBuckets ms_of points intervalHours periodHours blank now =
      map point (bucket_steps first newest step @ ahead)"
    unfolding fillBuckets_def Let_def assms(3) [symmetric] B_def [symmetric] busy_def [symmetric]
      busyfirst [symmetric] newest_def [symmetric] ahead_def [symmetric] point_def
    by auto
  moreover have "sorted_wrt (<) (bucket_steps first newest step @ ahead)"
  proof -
    have "sorted_wrt (<) ahead"
      using keys(1) by (simp add: ahead_def strict_sorted_iff)
    then show ?thesis
      using bucket_steps_set [OF step first, of newest] by (auto simp: sorted_wrt_append ahead_def)
  qed
  moreover have "set (bucket_steps first newest step @ ahead) =
      {t. first \<le> t \<and> t \<le> newest \<and> step dvd t} \<union> {t. newest < t \<and> t \<in> (align step \<circ> ms_of) ` set points}"
    using bucket_steps_set [OF step first, of newest] keys(2) by (auto simp: ahead_def)
  ultimately show ?thesis unfolding point_def B_def newest_def by blast
qed

theorem filled_series_witness:
  "fillBuckets id [3600000 * 5] 1 (Some 2) (\<lambda>t. t) (3600000 * 6 + 17) =
     [3600000 * 4, 3600000 * 5, 3600000 * 6] \<and>
   (\<exists>ats. fillBuckets id [3600000 * 5] 1 (Some 2) (\<lambda>t. t) (3600000 * 6 + 17) =
      map (\<lambda>t. case map_of (byBucket 3600000 id [3600000 * 5]) t of Some p \<Rightarrow> p | None \<Rightarrow> t) ats)"
proof
  show "fillBuckets id [3600000 * 5] 1 (Some 2) (\<lambda>t. t) (3600000 * 6 + 17) =
      [3600000 * 4, 3600000 * 5, 3600000 * 6]"
    by (simp add: fillBuckets_def byBucket_def align_def bucket_steps.simps map_filter_def)
  show "\<exists>ats. fillBuckets id [3600000 * 5] 1 (Some 2) (\<lambda>t. t) (3600000 * 6 + 17) =
      map (\<lambda>t. case map_of (byBucket 3600000 id [3600000 * 5]) t of Some p \<Rightarrow> p | None \<Rightarrow> t) ats"
    using filled_series [where intervalHours = 1 and points = "[3600000 * 5]" and periodHours = "Some 2"
        and step = 3600000 and now = "3600000 * 6 + 17" and ms_of = id and blank = "\<lambda>t. t"]
    by auto
qed

section \<open>The span that opens\<close>

text \<open>A start that is missing or unreadable is \<open>Infinity\<close>, here \<open>None\<close>; it sorts last.\<close>

definition sortableStart :: "(string \<Rightarrow> int option) \<Rightarrow> string option \<Rightarrow> int option" where
  "sortableStart date_parse v = (case v of None \<Rightarrow> None | Some s \<Rightarrow> date_parse s)"

definition start_le :: "int option \<Rightarrow> int option \<Rightarrow> bool" where
  "start_le a b =
     (case (a, b) of (Some x, Some y) \<Rightarrow> x \<le> y | (None, Some _) \<Rightarrow> False | _ \<Rightarrow> True)"

definition by_start :: "(string \<Rightarrow> int option) \<Rightarrow> span list \<Rightarrow> span list" where
  "by_start date_parse spans =
     sort_by (\<lambda>a b. start_le (sortableStart date_parse (sp_start a)) (sortableStart date_parse (sp_start b))) spans"

definition defaultSelectedSpanId :: "(string \<Rightarrow> int option) \<Rightarrow> span list \<Rightarrow> string option" where
  "defaultSelectedSpanId date_parse spans =
     (if spans = [] then None
      else
        let inOrder = by_start date_parse spans
        in case List.find (\<lambda>s. sp_operation s = Some ''ai_client'') inOrder of
             Some s \<Rightarrow> Some (sp_id s)
           | None \<Rightarrow>
               (case List.find (\<lambda>s. sp_operation s \<noteq> None) inOrder of
                  Some s \<Rightarrow> Some (sp_id s)
                | None \<Rightarrow> map_option sp_id (at_index inOrder 0)))"

record selected_span =
  ss_selectedSpanId :: "string option"
  ss_requestedMissing :: bool

definition resolveSelectedSpan ::
  "(string \<Rightarrow> int option) \<Rightarrow> span list \<Rightarrow> string option \<Rightarrow> selected_span" where
  "resolveSelectedSpan date_parse spans requested =
     (case requested of
        None \<Rightarrow> \<lparr>ss_selectedSpanId = defaultSelectedSpanId date_parse spans, ss_requestedMissing = False\<rparr>
      | Some r \<Rightarrow>
          let inTrace = list_ex (\<lambda>s. sp_id s = r) spans
          in \<lparr>ss_selectedSpanId = (if inTrace then Some r else None), ss_requestedMissing = (\<not> inTrace)\<rparr>)"

lemma set_by_start [simp]: "set (by_start date_parse spans) = set spans"
  by (simp add: by_start_def)

lemma start_le_trans: "start_le a b \<Longrightarrow> start_le b c \<Longrightarrow> start_le a c"
  by (auto simp: start_le_def split: option.splits)

lemma start_le_total: "\<not> start_le a b \<Longrightarrow> start_le b a"
  by (auto simp: start_le_def split: option.splits)

lemma sorted_by_start:
  "sorted_wrt (\<lambda>a b. start_le (sortableStart date_parse (sp_start a)) (sortableStart date_parse (sp_start b)))
     (by_start date_parse spans)"
  unfolding by_start_def
  by (rule sorted_sort_by) (fact start_le_trans, fact start_le_total)

lemma find_earliest:
  assumes "sorted_wrt le xs" and "\<And>a. le a a" and "List.find P xs = Some x"
  shows "x \<in> set xs \<and> P x \<and> (\<forall>y \<in> set xs. P y \<longrightarrow> le x y)"
  using assms by (induction xs) (auto split: if_splits)

text \<open>
  With nothing asked for, the panel of a trace opens on its earliest model call if it
  has one, and on some span of it in any case; an id that is asked for is shown only when
  the trace holds it.
\<close>

theorem selected_span_in_trace:
  assumes "spans \<noteq> []"
  shows "(\<exists>s \<in> set spans. ss_selectedSpanId (resolveSelectedSpan date_parse spans None) = Some (sp_id s) \<and>
      ((\<exists>c \<in> set spans. sp_operation c = Some ''ai_client'') \<longrightarrow>
         sp_operation s = Some ''ai_client'' \<and>
         (\<forall>c \<in> set spans. sp_operation c = Some ''ai_client'' \<longrightarrow>
            start_le (sortableStart date_parse (sp_start s)) (sortableStart date_parse (sp_start c))))) \<and>
    (ss_selectedSpanId (resolveSelectedSpan date_parse spans (Some r)) =
       (if r \<in> sp_id ` set spans then Some r else None))"
proof -
  let ?call = "\<lambda>s. sp_operation s = Some ''ai_client''"
  let ?o = "by_start date_parse spans"
  have d: "ss_selectedSpanId (resolveSelectedSpan date_parse spans None) =
      (case List.find ?call ?o of Some s \<Rightarrow> Some (sp_id s)
       | None \<Rightarrow> (case List.find (\<lambda>s. sp_operation s \<noteq> None) ?o of Some s \<Rightarrow> Some (sp_id s)
                 | None \<Rightarrow> map_option sp_id (at_index ?o 0)))"
    using assms by (simp add: resolveSelectedSpan_def defaultSelectedSpanId_def Let_def)
  have "\<exists>s \<in> set spans. ss_selectedSpanId (resolveSelectedSpan date_parse spans None) = Some (sp_id s) \<and>
      ((\<exists>c \<in> set spans. ?call c) \<longrightarrow> ?call s \<and> (\<forall>c \<in> set spans. ?call c \<longrightarrow>
         start_le (sortableStart date_parse (sp_start s)) (sortableStart date_parse (sp_start c))))"
  proof (cases "List.find ?call ?o")
    case (Some s)
    have refl: "start_le a a" for a by (simp add: start_le_def split: option.splits)
    have "s \<in> set ?o \<and> ?call s \<and> (\<forall>c \<in> set ?o. ?call c \<longrightarrow>
         start_le (sortableStart date_parse (sp_start s)) (sortableStart date_parse (sp_start c)))"
      by (rule find_earliest [OF sorted_by_start _ Some]) (rule refl)
    then show ?thesis using Some d by auto
  next
    case None
    then have nocall: "\<forall>c \<in> set spans. \<not> ?call c" by (simp add: find_None_iff)
    show ?thesis
    proof (cases "List.find (\<lambda>s. sp_operation s \<noteq> None) ?o")
      case (Some s)
      then have "s \<in> set spans" by (metis find_Some_iff nth_mem set_by_start)
      then show ?thesis using nocall None Some d by auto
    next
      case none: None
      have "?o \<noteq> []" using assms by (metis set_by_start set_empty)
      then have "at_index ?o 0 = Some (?o ! 0)" "?o ! 0 \<in> set spans"
        using nth_mem [of 0 ?o] by (simp_all add: at_index_def)
      then show ?thesis using nocall None none d by auto
    qed
  qed
  moreover have "ss_selectedSpanId (resolveSelectedSpan date_parse spans (Some r)) =
      (if r \<in> sp_id ` set spans then Some r else None)"
    by (auto simp: resolveSelectedSpan_def Let_def list_ex_iff)
  ultimately show ?thesis by blast
qed

definition sample_span :: "string \<Rightarrow> string \<Rightarrow> string option \<Rightarrow> span" where
  "sample_span i operation start =
     \<lparr>sp_id = i, sp_span_id = Some i, sp_parent = None, sp_op = None, sp_description = None,
      sp_start = start, sp_end = None, sp_status = None, sp_operation = Some operation,
      sp_agent = Some ''planner'', sp_request_model = Some ''m1'', sp_response_model = None,
      sp_tool = Some ''search'', sp_tokens = Some 3\<rparr>"

theorem selected_span_in_trace_witness:
  "ss_selectedSpanId (resolveSelectedSpan (\<lambda>_. None)
     [sample_span ''a'' ''agent'' None, sample_span ''b'' ''ai_client'' None] None) = Some ''b''"
  using selected_span_in_trace [of "[sample_span ''a'' ''agent'' None, sample_span ''b'' ''ai_client'' None]"
      "\<lambda>_. None" "''b''"]
  by (auto simp: sample_span_def)

section \<open>The header\<close>

definition epochMs :: "(string \<Rightarrow> int option) \<Rightarrow> string option \<Rightarrow> int option" where
  "epochMs date_parse t = (case given t of None \<Rightarrow> None | Some s \<Rightarrow> date_parse s)"

record trace_summary =
  tr_agentName :: "string option"
  tr_duration :: "int option"
  tr_startedAt :: "int option"
  tr_totalTokens :: int
  tr_toolCallCount :: nat
  tr_llmCallCount :: nat
  tr_errorCount :: nat
  tr_models :: "string list"

definition span_model :: "span \<Rightarrow> string option" where
  "span_model s = or_else_opt (sp_response_model s) (sp_request_model s)"

definition summarizeTrace :: "(string \<Rightarrow> int option) \<Rightarrow> span list \<Rightarrow> trace_summary" where
  "summarizeTrace date_parse spans =
     (let starts = List.map_filter (\<lambda>s. epochMs date_parse (sp_start s)) spans;
          ends = List.map_filter (\<lambda>s. epochMs date_parse (sp_end s)) spans
      in \<lparr>tr_agentName = (case List.find (\<lambda>s. given (sp_agent s) \<noteq> None) spans of
             Some s \<Rightarrow> sp_agent s | None \<Rightarrow> None),
          tr_duration = (if starts \<noteq> [] \<and> ends \<noteq> [] then Some (Max (set ends) - Min (set starts)) else None),
          tr_startedAt = (if starts \<noteq> [] then Some (Min (set starts)) else None),
          tr_totalTokens = sum_list (map (\<lambda>s. case sp_tokens s of Some t \<Rightarrow> t | None \<Rightarrow> 0)
             (filter (\<lambda>s. sp_operation s \<noteq> Some ''agent'') spans)),
          tr_toolCallCount = length (filter (\<lambda>s. sp_operation s = Some ''tool'') spans),
          tr_llmCallCount = length (filter (\<lambda>s. sp_operation s = Some ''ai_client'') spans),
          tr_errorCount = length (filter (\<lambda>s. failed (sp_status s)) spans),
          tr_models = dedup (List.map_filter (\<lambda>s. given (span_model s)) spans)\<rparr>)"

section \<open>The waterfall's rows\<close>

record waterfall_row =
  wr_id :: string
  wr_parentId :: "string option"
  wr_op :: "string option"
  wr_description :: "string option"
  wr_startMs :: int
  wr_endMs :: int
  wr_status :: "string option"
  wr_operationType :: "string option"

definition spanName :: "span \<Rightarrow> string option" where
  "spanName s =
     (if sp_operation s = Some ''agent'' then sp_agent s
      else if sp_operation s = Some ''ai_client'' then span_model s
      else if sp_operation s = Some ''tool'' then sp_tool s
      else None)"

text \<open>A \<open>Map\<close> made of entries: the last one of a key holds.\<close>

definition row_of :: "span list \<Rightarrow> string \<Rightarrow> string option" where
  "row_of spans = map_of (rev (List.map_filter
     (\<lambda>s. map_option (\<lambda>k. (k, sp_id s)) (given (sp_span_id s))) spans))"

definition start_of :: "(string \<Rightarrow> int option) \<Rightarrow> span list \<Rightarrow> string \<Rightarrow> int option" where
  "start_of date_parse spans = map_of (rev (List.map_filter
     (\<lambda>s. case (given (sp_span_id s), epochMs date_parse (sp_start s)) of
            (Some k, Some start) \<Rightarrow> Some (k, start) | _ \<Rightarrow> None) spans))"

definition waterfall_row_of :: "(string \<Rightarrow> int option) \<Rightarrow> span list \<Rightarrow> span \<Rightarrow> waterfall_row" where
  "waterfall_row_of date_parse spans s =
     (let start = epochMs date_parse (sp_start s);
          en = epochMs date_parse (sp_end s);
          parentStart = (case given (sp_parent s) of Some p \<Rightarrow> start_of date_parse spans p | None \<Rightarrow> None);
          traceStart = (case tr_startedAt (summarizeTrace date_parse spans) of Some t \<Rightarrow> t | None \<Rightarrow> 0);
          at_ms = (case or_else_opt (or_else_opt start en) parentStart of Some t \<Rightarrow> t | None \<Rightarrow> traceStart)
      in \<lparr>wr_id = sp_id s,
          wr_parentId = given (case given (sp_parent s) of Some p \<Rightarrow> row_of spans p | None \<Rightarrow> None),
          wr_op = sp_op s,
          wr_description = or_else_opt (spanName s) (sp_description s),
          wr_startMs = at_ms,
          wr_endMs = (case (start, en) of (Some _, Some e) \<Rightarrow> e | _ \<Rightarrow> at_ms),
          wr_status = sp_status s,
          wr_operationType = sp_operation s\<rparr>)"

definition waterfallSpans :: "(string \<Rightarrow> int option) \<Rightarrow> span list \<Rightarrow> waterfall_row list" where
  "waterfallSpans date_parse spans = map (waterfall_row_of date_parse spans) spans"

lemma map_filter_mem: "y \<in> set (List.map_filter f xs) \<longleftrightarrow> (\<exists>x \<in> set xs. f x = Some y)"
  by (induction xs) (auto simp: map_filter_def split: option.splits)

lemma row_of_in: "row_of spans p = Some i \<Longrightarrow> \<exists>s \<in> set spans. sp_id s = i"
  unfolding row_of_def by (drule map_of_SomeD) (auto simp: map_filter_mem)

lemma started_at_least:
  assumes "s \<in> set spans" and "epochMs date_parse (sp_start s) = Some t"
  shows "\<exists>m. tr_startedAt (summarizeTrace date_parse spans) = Some m \<and> m \<le> t"
proof -
  have "t \<in> set (List.map_filter (\<lambda>s. epochMs date_parse (sp_start s)) spans)"
    using assms by (auto simp: map_filter_mem)
  then show ?thesis by (auto simp: summarizeTrace_def Let_def intro: Min_le)
qed

lemma given_Some: "given v = Some p \<Longrightarrow> v = Some p"
  by (auto simp: given_def split: option.splits list.splits)

lemma parent_is_a_row:
  "wr_parentId (waterfall_row_of date_parse spans s) = Some p \<Longrightarrow> \<exists>q. row_of spans q = Some p"
  by (auto simp: waterfall_row_of_def Let_def split: option.splits dest: given_Some)

text \<open>
  every span of a trace is one row, linked to rows of the same trace only, and none that
  has a start is drawn before the trace begins.
\<close>

theorem waterfall_is_the_trace:
  "map wr_id (waterfallSpans date_parse spans) = map sp_id spans \<and>
   (\<forall>row \<in> set (waterfallSpans date_parse spans). \<forall>p.
      wr_parentId row = Some p \<longrightarrow> p \<in> sp_id ` set spans) \<and>
   (\<forall>s \<in> set spans. \<forall>t. epochMs date_parse (sp_start s) = Some t \<longrightarrow>
      (\<exists>m. tr_startedAt (summarizeTrace date_parse spans) = Some m \<and> m \<le> t \<and>
         wr_startMs (waterfall_row_of date_parse spans s) = t))"
proof (intro conjI ballI allI impI)
  show "map wr_id (waterfallSpans date_parse spans) = map sp_id spans"
    by (simp add: waterfallSpans_def waterfall_row_of_def Let_def)
next
  fix row p
  assume "row \<in> set (waterfallSpans date_parse spans)" "wr_parentId row = Some p"
  then obtain s where "wr_parentId (waterfall_row_of date_parse spans s) = Some p"
    by (auto simp: waterfallSpans_def)
  then obtain q where "row_of spans q = Some p"
    using parent_is_a_row by blast
  then show "p \<in> sp_id ` set spans" using row_of_in by (metis image_eqI)
next
  fix s t
  assume s: "s \<in> set spans" "epochMs date_parse (sp_start s) = Some t"
  then obtain m where "tr_startedAt (summarizeTrace date_parse spans) = Some m" "m \<le> t"
    using started_at_least by blast
  then show "\<exists>m. tr_startedAt (summarizeTrace date_parse spans) = Some m \<and> m \<le> t \<and>
      wr_startMs (waterfall_row_of date_parse spans s) = t"
    using s(2) by (auto simp: waterfall_row_of_def Let_def or_else_opt_def)
qed

theorem waterfall_is_the_trace_witness:
  "map wr_id (waterfallSpans (\<lambda>_. Some 5) [sample_span ''a'' ''agent'' (Some ''t'')]) = [''a'']"
  using waterfall_is_the_trace [of "\<lambda>_. Some 5" "[sample_span ''a'' ''agent'' (Some ''t'')]"]
  by (simp add: sample_span_def)

end
