(* ===== verification/AgentGraph.thy ===== *)
theory AgentGraph
  imports AgentTrace
begin

text \<open>
  \<open>features/agent-trace/model/conversation.ts\<close>: a conversation's spans as turns, one per
  trace, and a trace as a graph of its agents with the models and tools each used and the
  handoffs between them. The walk to a span's agent follows parent links the SDKs send
  unchecked; it ends because a span seen twice ends it.
\<close>

section \<open>Turns\<close>

record conversation_span =
  cv_trace :: string
  cv_start :: "string option"
  cv_operation :: "string option"
  cv_agent :: "string option"
  cv_input :: "string option"
  cv_output :: "string option"
  cv_status :: "string option"
  cv_tokens :: "int option"

record turn =
  tn_traceId :: string
  tn_startedAt :: "string option"
  tn_agents :: "string list"
  tn_question :: "string option"
  tn_answer :: "string option"
  tn_tools :: "conversation_span list"
  tn_tokens :: int
  tn_errors :: nat

text \<open>The groups in the order their traces first come, as a \<open>Map\<close> keeps them.\<close>

definition add_to_group :: "conversation_span \<Rightarrow> (string \<times> conversation_span list) list \<Rightarrow>
    (string \<times> conversation_span list) list" where
  "add_to_group s groups =
     map_put (cv_trace s) ((case map_of groups (cv_trace s) of Some ss \<Rightarrow> ss | None \<Rightarrow> []) @ [s]) groups"

definition turn_groups :: "conversation_span list \<Rightarrow> (string \<times> conversation_span list) list" where
  "turn_groups spans = foldl (\<lambda>groups s. add_to_group s groups) [] spans"

definition lastSaid :: "string \<Rightarrow> string \<Rightarrow> string option" where
  "lastSaid raw role =
     (case chatMessages raw of
        None \<Rightarrow> Some raw
      | Some messages \<Rightarrow>
          (case rev (filter (\<lambda>m. cm_role m = role) messages) of
             [] \<Rightarrow> None | m # _ \<Rightarrow> Some (cm_content m)))"

definition call_question :: "conversation_span \<Rightarrow> string option" where
  "call_question s =
     (case given (cv_input s) of None \<Rightarrow> None | Some raw \<Rightarrow> given (lastSaid raw ''user''))"

definition span_tokens :: "conversation_span \<Rightarrow> int" where
  "span_tokens s =
     (if cv_operation s = Some ''agent'' then 0 else case cv_tokens s of Some t \<Rightarrow> t | None \<Rightarrow> 0)"

definition turn_of :: "string \<Rightarrow> conversation_span list \<Rightarrow> turn" where
  "turn_of traceId inTurn =
     (let calls = filter (\<lambda>s. cv_operation s = Some ''ai_client'') inTurn;
          output = (case rev (List.map_filter (\<lambda>s. given (cv_output s)) calls) of
                      [] \<Rightarrow> None | out # _ \<Rightarrow> Some out)
      in \<lparr>tn_traceId = traceId,
          tn_startedAt = (case inTurn of [] \<Rightarrow> None | s # _ \<Rightarrow> cv_start s),
          tn_agents = dedup (List.map_filter
             (\<lambda>s. if cv_operation s = Some ''agent'' then given (cv_agent s) else None) inTurn),
          tn_question = (case List.map_filter call_question calls of [] \<Rightarrow> None | q # _ \<Rightarrow> Some q),
          tn_answer = (case output of None \<Rightarrow> None | Some raw \<Rightarrow> lastSaid raw ''assistant''),
          tn_tools = filter (\<lambda>s. cv_operation s = Some ''tool'') inTurn,
          tn_tokens = sum_list (map span_tokens inTurn),
          tn_errors = length (filter (\<lambda>s. failed (cv_status s)) inTurn)\<rparr>)"

definition conversationTurns :: "conversation_span list \<Rightarrow> turn list" where
  "conversationTurns spans = map (\<lambda>(traceId, inTurn). turn_of traceId inTurn) (turn_groups spans)"

lemma map_of_pairs: "map_of (map (\<lambda>t. (t, f t)) ks) k = (if k \<in> set ks then Some (f k) else None)"
  by (induction ks) auto

lemma map_put_pairs:
  "distinct ks \<Longrightarrow> map_put k (g k) (map (\<lambda>t. (t, f t)) ks) =
     map (\<lambda>t. (t, if t = k then g t else f t)) (if k \<in> set ks then ks else ks @ [k])"
  by (induction ks) auto

lemma dedup_snoc: "dedup (xs @ [x]) = (if x \<in> set xs then dedup xs else dedup xs @ [x])"
  by (induction xs) auto

lemma turn_groups_eq:
  "turn_groups spans =
     map (\<lambda>t. (t, filter (\<lambda>s. cv_trace s = t) spans)) (dedup (map cv_trace spans))"
proof (induction spans rule: rev_induct)
  case (snoc s ss)
  let ?ks = "dedup (map cv_trace ss)"
  have e: "(case map_of (turn_groups ss) (cv_trace s) of Some xs \<Rightarrow> xs | None \<Rightarrow> []) =
      filter (\<lambda>x. cv_trace x = cv_trace s) ss"
    unfolding snoc map_of_pairs by (auto simp: empty_filter_conv image_iff)
  have "turn_groups (ss @ [s]) =
      map_put (cv_trace s) (filter (\<lambda>x. cv_trace x = cv_trace s) ss @ [s]) (turn_groups ss)"
  proof -
    have "turn_groups (ss @ [s]) = add_to_group s (turn_groups ss)" by (simp add: turn_groups_def)
    then show ?thesis by (simp only: add_to_group_def e)
  qed
  also have "\<dots> = map (\<lambda>t. (t, if t = cv_trace s then filter (\<lambda>x. cv_trace x = t) ss @ [s]
        else filter (\<lambda>x. cv_trace x = t) ss)) (if cv_trace s \<in> set ?ks then ?ks else ?ks @ [cv_trace s])"
    unfolding snoc by (subst map_put_pairs [where g = "\<lambda>t. filter (\<lambda>x. cv_trace x = t) ss @ [s]"]) simp_all
  also have "\<dots> = map (\<lambda>t. (t, filter (\<lambda>x. cv_trace x = t) (ss @ [s]))) (dedup (map cv_trace (ss @ [s])))"
    by (auto simp: dedup_snoc)
  finally show ?case .
qed (simp add: turn_groups_def)

lemma sum_by_trace:
  "distinct ks \<Longrightarrow> cv_trace ` set spans \<subseteq> set ks \<Longrightarrow>
     sum_list (map (\<lambda>t. sum_list (map f (filter (\<lambda>s. cv_trace s = t) spans))) ks) =
     (sum_list (map f spans) :: int)"
proof (induction spans)
  case (Cons s ss)
  have "sum_list (map (\<lambda>t. if t = cv_trace s then f s else 0) ks) = f s"
    using Cons.prems by (simp add: sum_list_map_eq_sum_count2 [symmetric] sum_list_distinct_conv_sum_set)
  moreover have "sum_list (map (\<lambda>t. sum_list (map f (filter (\<lambda>x. cv_trace x = t) (s # ss)))) ks) =
      sum_list (map (\<lambda>t. (if t = cv_trace s then f s else 0) +
        sum_list (map f (filter (\<lambda>x. cv_trace x = t) ss))) ks)"
    by (intro arg_cong [of _ _ sum_list] map_cong) auto
  ultimately show ?case using Cons by (simp add: sum_list_addf)
qed simp

lemma length_filter_sum: "int (length (filter P xs)) = sum_list (map (\<lambda>x. if P x then 1 else 0) xs)"
  by (induction xs) auto

text \<open>
  the turns are the traces of the conversation, in the order they began, and nothing is
  counted twice or lost: their tokens add up to those of the spans that are no agent's, and
  their errors to the failed spans.
\<close>

theorem turns_partition_conversation:
  "map tn_traceId (conversationTurns spans) = dedup (map cv_trace spans) \<and>
   sum_list (map tn_tokens (conversationTurns spans)) = sum_list (map span_tokens spans) \<and>
   sum_list (map (int \<circ> tn_errors) (conversationTurns spans)) =
     int (length (filter (\<lambda>s. failed (cv_status s)) spans))"
proof -
  let ?g = "\<lambda>t. filter (\<lambda>s. cv_trace s = t) spans"
  have c: "conversationTurns spans = map (\<lambda>t. turn_of t (?g t)) (dedup (map cv_trace spans))"
    by (simp add: conversationTurns_def turn_groups_eq comp_def)
  have d: "distinct (dedup (map cv_trace spans))" "cv_trace ` set spans \<subseteq> set (dedup (map cv_trace spans))"
    by simp_all
  have "map tn_traceId (conversationTurns spans) = dedup (map cv_trace spans)"
    unfolding c by (simp add: turn_of_def Let_def comp_def)
  moreover have "sum_list (map tn_tokens (conversationTurns spans)) = sum_list (map span_tokens spans)"
    using sum_by_trace [OF d, of span_tokens] unfolding c by (simp add: turn_of_def Let_def comp_def)
  moreover have "sum_list (map (int \<circ> tn_errors) (conversationTurns spans)) =
      int (length (filter (\<lambda>s. failed (cv_status s)) spans))"
    using sum_by_trace [OF d, of "\<lambda>s. if failed (cv_status s) then 1 else 0"]
    unfolding c by (simp add: turn_of_def Let_def comp_def length_filter_sum del: filter_filter)
  ultimately show ?thesis by blast
qed

section \<open>The graph\<close>

record use =
  us_name :: string
  us_calls :: nat
  us_errors :: nat

record graph_agent =
  ga_name :: string
  ga_runs :: nat
  ga_errors :: nat
  ga_models :: "use list"
  ga_tools :: "use list"

record handoff =
  ho_from :: string
  ho_to :: string
  ho_count :: nat

fun count_use :: "use list \<Rightarrow> string \<Rightarrow> bool \<Rightarrow> use list" where
  "count_use [] name err = [\<lparr>us_name = name, us_calls = 1, us_errors = (if err then 1 else 0)\<rparr>]"
| "count_use (u # us) name err =
     (if us_name u = name
      then u\<lparr>us_calls := us_calls u + 1, us_errors := us_errors u + (if err then 1 else 0)\<rparr> # us
      else u # count_use us name err)"

text \<open>\<open>agentOf(name)\<close>, changed by \<open>f\<close>: the agent of that name, made if there is none.\<close>

fun update_agent :: "string \<Rightarrow> (graph_agent \<Rightarrow> graph_agent) \<Rightarrow> graph_agent list \<Rightarrow> graph_agent list" where
  "update_agent name f [] =
     [f \<lparr>ga_name = name, ga_runs = 0, ga_errors = 0, ga_models = [], ga_tools = []\<rparr>]"
| "update_agent name f (a # as) =
     (if ga_name a = name then f a # as else a # update_agent name f as)"

definition agent_name :: "span \<Rightarrow> string option" where
  "agent_name s = (if sp_operation s = Some ''agent'' then given (sp_agent s) else None)"

definition by_span_id :: "span list \<Rightarrow> string \<Rightarrow> span option" where
  "by_span_id inOrder = map_of (rev (List.map_filter
     (\<lambda>s. map_option (\<lambda>k. (k, s)) (given (sp_span_id s))) inOrder))"

text \<open>
  The walk up the parents over the spans not seen yet; \<open>None\<close> when it ends without an agent.
\<close>

function owner_walk :: "(string \<Rightarrow> span option) \<Rightarrow> span list \<Rightarrow> span \<Rightarrow> string option" where
  "owner_walk byId unseen s =
     (if s \<notin> set unseen then None
      else case agent_name s of
        Some name \<Rightarrow> Some name
      | None \<Rightarrow>
          (case given (sp_parent s) of
             None \<Rightarrow> None
           | Some p \<Rightarrow>
               (case byId p of
                  None \<Rightarrow> None
                | Some parent \<Rightarrow> owner_walk byId (removeAll s unseen) parent)))"
  by pat_completeness auto
termination
  by (relation "measure (\<lambda>(byId, unseen, s). length unseen)") (auto simp: length_removeAll_less)

declare owner_walk.simps [simp del]

definition owner :: "span list \<Rightarrow> span \<Rightarrow> string option" where
  "owner inOrder s =
     (case owner_walk (by_span_id inOrder) inOrder s of
        Some name \<Rightarrow> Some name | None \<Rightarrow> sp_agent s)"

definition attribute :: "span list \<Rightarrow> graph_agent list \<Rightarrow> span \<Rightarrow> graph_agent list" where
  "attribute inOrder agents s =
     (let err = failed (sp_status s) in
      case agent_name s of
        Some name \<Rightarrow>
          update_agent name (\<lambda>a. a\<lparr>ga_runs := ga_runs a + 1,
            ga_errors := ga_errors a + (if err then 1 else 0)\<rparr>) agents
      | None \<Rightarrow>
          (case given (owner inOrder s) of
             None \<Rightarrow> agents
           | Some name \<Rightarrow>
               if sp_operation s = Some ''ai_client'' then
                 (case given (span_model s) of
                    None \<Rightarrow> agents
                  | Some model \<Rightarrow>
                      update_agent name (\<lambda>a. a\<lparr>ga_models := count_use (ga_models a) model err\<rparr>) agents)
               else if sp_operation s = Some ''tool'' then
                 (case given (sp_tool s) of
                    None \<Rightarrow> agents
                  | Some tool \<Rightarrow>
                      update_agent name (\<lambda>a. a\<lparr>ga_tools := count_use (ga_tools a) tool err\<rparr>) agents)
               else agents))"

text \<open>The order \<open>>=\<close> puts strings in, by their characters.\<close>

fun str_le :: "string \<Rightarrow> string \<Rightarrow> bool" where
  "str_le [] t = True"
| "str_le (c # s) [] = False"
| "str_le (c # s) (d # t) =
     (if c = d then str_le s t else (of_char c :: nat) < of_char d)"

definition start_str :: "span \<Rightarrow> string" where
  "start_str s = (case sp_start s of Some t \<Rightarrow> t | None \<Rightarrow> [])"

fun add_handoff :: "string \<Rightarrow> string \<Rightarrow> handoff list \<Rightarrow> handoff list" where
  "add_handoff from to [] = [\<lparr>ho_from = from, ho_to = to, ho_count = 1\<rparr>]"
| "add_handoff from to (h # hs) =
     (if ho_from h = from \<and> ho_to h = to then h\<lparr>ho_count := ho_count h + 1\<rparr> # hs
      else h # add_handoff from to hs)"

definition handoff_of :: "span list \<Rightarrow> span \<Rightarrow> (string \<times> string) option" where
  "handoff_of inOrder s =
     (if sp_operation s \<noteq> Some ''handoff'' then None
      else case given (sp_agent s) of
        None \<Rightarrow> None
      | Some from \<Rightarrow>
          (case List.find (\<lambda>a. agent_name a \<noteq> None \<and> agent_name a \<noteq> Some from \<and>
                             str_le (start_str s) (start_str a)) inOrder of
             None \<Rightarrow> None
           | Some a \<Rightarrow> map_option (\<lambda>to. (from, to)) (agent_name a)))"

definition handoffsOf :: "span list \<Rightarrow> handoff list" where
  "handoffsOf inOrder =
     foldl (\<lambda>hs s. case handoff_of inOrder s of None \<Rightarrow> hs | Some (from, to) \<Rightarrow> add_handoff from to hs)
       [] inOrder"

record agent_graph =
  ag_agents :: "graph_agent list"
  ag_handoffs :: "handoff list"

definition in_order :: "(string \<Rightarrow> string \<Rightarrow> bool) \<Rightarrow> span list \<Rightarrow> span list" where
  "in_order collate_le spans = sort_by (\<lambda>a b. collate_le (start_str a) (start_str b)) spans"

definition agentGraph :: "(string \<Rightarrow> string \<Rightarrow> bool) \<Rightarrow> span list \<Rightarrow> agent_graph" where
  "agentGraph collate_le spans =
     (let inOrder = in_order collate_le spans
      in \<lparr>ag_agents = foldl (attribute inOrder) [] inOrder, ag_handoffs = handoffsOf inOrder\<rparr>)"

section \<open>Every call once\<close>

definition total_of :: "(graph_agent \<Rightarrow> nat) \<Rightarrow> graph_agent list \<Rightarrow> nat" where
  "total_of m agents = sum_list (map m agents)"

definition model_calls :: "graph_agent \<Rightarrow> nat" where
  "model_calls a = sum_list (map us_calls (ga_models a))"

definition tool_calls :: "graph_agent \<Rightarrow> nat" where
  "tool_calls a = sum_list (map us_calls (ga_tools a))"

lemma count_use_calls: "sum_list (map us_calls (count_use us name err)) = sum_list (map us_calls us) + 1"
  by (induction us) auto

lemma update_agent_total:
  assumes "\<And>a. m (f a) = m a + k"
    and "m \<lparr>ga_name = name, ga_runs = 0, ga_errors = 0, ga_models = [], ga_tools = []\<rparr> = 0"
  shows "total_of m (update_agent name f agents) = total_of m agents + k"
  using assms by (induction agents) (simp_all add: total_of_def)

lemma update_agent_names:
  assumes "\<And>a. ga_name (f a) = ga_name a"
  shows "ga_name ` set (update_agent name f agents) = insert name (ga_name ` set agents)"
    and "distinct (map ga_name agents) \<Longrightarrow> distinct (map ga_name (update_agent name f agents))"
proof -
  show names: "ga_name ` set (update_agent name f agents) = insert name (ga_name ` set agents)" for agents
    using assms by (induction agents) auto
  show "distinct (map ga_name agents) \<Longrightarrow> distinct (map ga_name (update_agent name f agents))"
    using assms names by (induction agents) auto
qed

definition is_model_call :: "span list \<Rightarrow> span \<Rightarrow> bool" where
  "is_model_call inOrder s \<longleftrightarrow> sp_operation s = Some ''ai_client'' \<and>
     given (owner inOrder s) \<noteq> None \<and> given (span_model s) \<noteq> None"

definition is_tool_call :: "span list \<Rightarrow> span \<Rightarrow> bool" where
  "is_tool_call inOrder s \<longleftrightarrow> sp_operation s = Some ''tool'' \<and>
     given (owner inOrder s) \<noteq> None \<and> given (sp_tool s) \<noteq> None"

lemmas attribute_totals =
  update_agent_total [of ga_runs] update_agent_total [of model_calls] update_agent_total [of tool_calls]

lemma attribute_counts:
  "total_of ga_runs (attribute o1 agents s) =
     total_of ga_runs agents + (if agent_name s \<noteq> None then 1 else 0)"
  "total_of model_calls (attribute o1 agents s) =
     total_of model_calls agents + (if is_model_call o1 s then 1 else 0)"
  "total_of tool_calls (attribute o1 agents s) =
     total_of tool_calls agents + (if is_tool_call o1 s then 1 else 0)"
proof -
  have k [simp]: "total_of m (update_agent name f agents) = total_of m agents + k"
    if "\<And>a. m (f a) = m a + k"
      "m \<lparr>ga_name = name, ga_runs = 0, ga_errors = 0, ga_models = [], ga_tools = []\<rparr> = 0" for m f name k
    using that by (rule update_agent_total)
  have nc: "\<not> is_model_call o1 s \<and> \<not> is_tool_call o1 s" if "agent_name s = Some n" for n
    using that by (auto simp: agent_name_def is_model_call_def is_tool_call_def split: if_splits)
  note defs = attribute_def Let_def model_calls_def tool_calls_def count_use_calls
  show "total_of ga_runs (attribute o1 agents s) =
      total_of ga_runs agents + (if agent_name s \<noteq> None then 1 else 0)"
    by (auto simp: defs k [where k = 1] k [where k = 0] split: option.splits)
  show "total_of model_calls (attribute o1 agents s) =
      total_of model_calls agents + (if is_model_call o1 s then 1 else 0)"
    using nc by (auto simp: defs is_model_call_def k [where k = 1] k [where k = 0] split: option.splits)
  show "total_of tool_calls (attribute o1 agents s) =
      total_of tool_calls agents + (if is_tool_call o1 s then 1 else 0)"
    using nc by (auto simp: defs is_tool_call_def k [where k = 1] k [where k = 0] split: option.splits)
qed

lemma attribute_names:
  "distinct (map ga_name agents) \<Longrightarrow> distinct (map ga_name (attribute o1 agents s))"
  by (auto simp: attribute_def Let_def split: option.splits intro!: update_agent_names(2))

lemma attribute_fold:
  "total_of ga_runs (foldl (attribute o1) agents ss) =
     total_of ga_runs agents + length (filter (\<lambda>s. agent_name s \<noteq> None) ss) \<and>
   total_of model_calls (foldl (attribute o1) agents ss) =
     total_of model_calls agents + length (filter (is_model_call o1) ss) \<and>
   total_of tool_calls (foldl (attribute o1) agents ss) =
     total_of tool_calls agents + length (filter (is_tool_call o1) ss) \<and>
   (distinct (map ga_name agents) \<longrightarrow> distinct (map ga_name (foldl (attribute o1) agents ss)))"
  by (induction ss arbitrary: agents) (simp_all add: attribute_counts attribute_names)

text \<open>
  the graph counts every span of the trace once: each run of a named agent, and each
  model or tool call that has a name and an agent; there is one node per agent. The order
  the spans come in changes neither.
\<close>

theorem graph_counts_once:
  "distinct (map ga_name (ag_agents (agentGraph collate_le spans))) \<and>
   total_of ga_runs (ag_agents (agentGraph collate_le spans)) =
     length (filter (\<lambda>s. agent_name s \<noteq> None) spans) \<and>
   total_of model_calls (ag_agents (agentGraph collate_le spans)) =
     length (filter (is_model_call (in_order collate_le spans)) spans) \<and>
   total_of tool_calls (ag_agents (agentGraph collate_le spans)) =
     length (filter (is_tool_call (in_order collate_le spans)) spans)"
proof -
  have m: "mset (in_order collate_le spans) = mset spans" by (simp add: in_order_def)
  have z: "total_of k [] = 0" for k by (simp add: total_of_def)
  show ?thesis
    using attribute_fold [of "in_order collate_le spans" "[]" "in_order collate_le spans"]
    by (simp add: agentGraph_def Let_def z length_filter_mset [OF m])
qed

section \<open>Handoffs\<close>

definition handoff_key :: "handoff \<Rightarrow> string \<times> string" where
  "handoff_key h = (ho_from h, ho_to h)"

definition edge_ok :: "span list \<Rightarrow> handoff \<Rightarrow> bool" where
  "edge_ok inOrder h \<longleftrightarrow> ho_from h \<noteq> ho_to h \<and> 1 \<le> ho_count h \<and>
     (\<exists>a \<in> set inOrder. agent_name a = Some (ho_to h))"

fun handoffs_ok :: "span list \<Rightarrow> handoff list \<Rightarrow> bool" where
  "handoffs_ok inOrder [] = True"
| "handoffs_ok inOrder (h # hs) =
     (handoff_key h \<notin> handoff_key ` set hs \<and> edge_ok inOrder h \<and> handoffs_ok inOrder hs)"

lemma handoffs_ok_iff:
  "handoffs_ok o1 hs \<longleftrightarrow> distinct (map handoff_key hs) \<and> (\<forall>h \<in> set hs. edge_ok o1 h)"
  by (induction hs) auto

lemma add_handoff_keys:
  "handoff_key ` set (add_handoff f t hs) = insert (f, t) (handoff_key ` set hs)"
  by (induction f t hs rule: add_handoff.induct) (auto simp: handoff_key_def)

lemma edge_counted:
  "edge_ok o1 h \<Longrightarrow> edge_ok o1 (h\<lparr>ho_count := ho_count h + 1\<rparr>)"
  "handoff_key (h\<lparr>ho_count := n\<rparr>) = handoff_key h"
  by (simp_all add: edge_ok_def handoff_key_def)

lemma add_handoff_ok:
  assumes "handoffs_ok o1 hs" and "f \<noteq> t" and "\<exists>a \<in> set o1. agent_name a = Some t"
  shows "handoffs_ok o1 (add_handoff f t hs)"
  using assms
proof (induction f t hs rule: add_handoff.induct)
  case (1 f t)
  then show ?case by (simp add: edge_ok_def)
next
  case (2 f t h hs)
  show ?case
  proof (cases "ho_from h = f \<and> ho_to h = t")
    case True
    then show ?thesis using 2(2) edge_counted by simp
  next
    case False
    then have "handoff_key h \<noteq> (f, t)" by (simp add: handoff_key_def)
    then show ?thesis using 2 False add_handoff_keys [of f t hs] by auto
  qed
qed

lemma handoff_of_ok:
  assumes "handoff_of o1 s = Some (f, t)"
  shows "f \<noteq> t \<and> (\<exists>a \<in> set o1. agent_name a = Some t)"
proof -
  obtain a where a: "List.find (\<lambda>a. agent_name a \<noteq> None \<and> agent_name a \<noteq> Some f \<and>
      str_le (start_str s) (start_str a)) o1 = Some a" "agent_name a = Some t"
    using assms by (auto simp: handoff_of_def split: if_splits option.splits)
  then have "a \<in> set o1 \<and> agent_name a \<noteq> Some f"
    using find_Some_mem [OF a(1)] by simp
  then show ?thesis using a(2) by auto
qed

lemma handoffsOf_ok: "handoffs_ok o1 (handoffsOf o1)"
proof -
  have "handoffs_ok o1 (foldl (\<lambda>hs s. case handoff_of o1 s of None \<Rightarrow> hs
      | Some (f, t) \<Rightarrow> add_handoff f t hs) hs ss)" if "handoffs_ok o1 hs" for hs ss
    using that
  proof (induction ss arbitrary: hs)
    case (Cons s ss)
    show ?case
    proof (cases "handoff_of o1 s")
      case None
      then show ?thesis using Cons by simp
    next
      case (Some ft)
      obtain f t where ft: "ft = (f, t)" by (cases ft)
      then have "handoffs_ok o1 (add_handoff f t hs)"
        using Some handoff_of_ok [of o1 s f t] Cons.prems by (intro add_handoff_ok) auto
      then show ?thesis using Some ft Cons.IH by simp
    qed
  qed simp
  from this [of "[]" o1] show ?thesis by (simp add: handoffsOf_def)
qed

text \<open>
  handoffs lead from an agent to another one that ran, and each pair is one edge with a
  count of at least one.
\<close>

theorem handoffs_lead_elsewhere:
  assumes "h \<in> set (ag_handoffs (agentGraph collate_le spans))"
  shows "ho_from h \<noteq> ho_to h \<and> 1 \<le> ho_count h \<and>
    (\<exists>a \<in> set spans. agent_name a = Some (ho_to h)) \<and>
    length (filter (\<lambda>g. ho_from g = ho_from h \<and> ho_to g = ho_to h)
      (ag_handoffs (agentGraph collate_le spans))) = 1"
proof -
  let ?hs = "ag_handoffs (agentGraph collate_le spans)"
  have ok: "handoffs_ok (in_order collate_le spans) ?hs"
    using handoffsOf_ok by (simp add: agentGraph_def Let_def)
  have one: "length (filter (\<lambda>g. handoff_key g = handoff_key h) hs) = 1"
    if "distinct (map handoff_key hs)" "h \<in> set hs" for hs
    using that
  proof (induction hs)
    case (Cons a hs)
    show ?case
    proof (cases "handoff_key a = handoff_key h")
      case True
      then have "handoff_key h \<notin> handoff_key ` set hs" using Cons.prems(1) by simp
      then have "filter (\<lambda>g. handoff_key g = handoff_key h) hs = []"
        by (metis (mono_tags, lifting) filter_False image_eqI)
      then show ?thesis using True by simp
    next
      case False
      then show ?thesis using Cons by auto
    qed
  qed simp
  have k: "(handoff_key g = handoff_key h) = (ho_from g = ho_from h \<and> ho_to g = ho_to h)" for g
    by (simp add: handoff_key_def)
  have "edge_ok (in_order collate_le spans) h" "distinct (map handoff_key ?hs)"
    using ok assms by (auto simp: handoffs_ok_iff)
  then show ?thesis
    using one [OF _ assms, unfolded k] by (auto simp: edge_ok_def in_order_def)
qed

definition handoff_trace :: "span list" where
  "handoff_trace =
     [(sample_span ''a'' ''handoff'' (Some ''1''))\<lparr>sp_agent := Some ''planner''\<rparr>,
      (sample_span ''b'' ''agent'' (Some ''2''))\<lparr>sp_agent := Some ''coder''\<rparr>]"

theorem handoffs_lead_elsewhere_witness:
  "\<lparr>ho_from = ''planner'', ho_to = ''coder'', ho_count = 1\<rparr> \<in> set (ag_handoffs (agentGraph str_le handoff_trace)) \<and>
   (\<exists>a \<in> set handoff_trace. agent_name a = Some ''coder'')"
proof -
  have m: "\<lparr>ho_from = ''planner'', ho_to = ''coder'', ho_count = 1\<rparr> \<in> set (ag_handoffs (agentGraph str_le handoff_trace))"
    by (simp add: agentGraph_def in_order_def sort_by_def handoff_trace_def sample_span_def start_str_def
        handoffsOf_def handoff_of_def agent_name_def given_def Let_def)
  from handoffs_lead_elsewhere [OF m] m show ?thesis by simp
qed

end
