(* ===== verification/Retention.thy ===== *)
theory Retention
  imports JsBase
begin

text \<open>
  \<open>features/storage/model/retention.ts\<close> and \<open>formatBytes\<close> of \<open>shared/lib/utils.ts\<close>: the windows
  data is kept for, what the next cleanup deletes of each age bucket, what the instance
  holds, and when its status is read again. Averages and shares are exact rationals. The
  message lookup \<open>t\<close> and \<open>Date.parse\<close> are arguments; \<open>date_parse\<close> gives \<open>None\<close> for \<open>NaN\<close>.
\<close>

section \<open>Kinds and windows\<close>

datatype kind = Events | Transactions | Logs

definition KINDS :: "kind list" where
  "KINDS = [Events, Transactions, Logs]"

text \<open>
  The three fields a kind names (\<open>WINDOW_FIELD\<close>, \<open>BYTES_FIELD\<close>, \<open>COUNT_FIELD\<close>) are functions
  of the kind.
\<close>

type_synonym windows = "kind \<Rightarrow> int option"

record retention_settings =
  rs_defaults :: windows
  rs_overrides :: "(int \<times> windows) list"

definition PRESETS :: "int option list" where
  "PRESETS = [Some 7, Some 14, Some 30, Some 90, Some 180, Some 365, None]"

definition presetsWith :: "int option \<Rightarrow> int option list" where
  "presetsWith days =
     (if days \<in> set PRESETS then PRESETS
      else map Some (sort (List.map_filter id PRESETS @ (case days of Some d \<Rightarrow> [d] | None \<Rightarrow> []))) @ [None])"

definition windowsFor :: "retention_settings \<Rightarrow> int \<Rightarrow> windows" where
  "windowsFor settings projectId =
     (case List.find (\<lambda>(p, w). p = projectId) (rs_overrides settings) of
        None \<Rightarrow> rs_defaults settings | Some (p, w) \<Rightarrow> w)"

definition deletesAnything :: "retention_settings \<Rightarrow> bool" where
  "deletesAnything settings \<longleftrightarrow>
     list_ex (\<lambda>w. list_ex (\<lambda>k. w k \<noteq> None) KINDS) (rs_defaults settings # map snd (rs_overrides settings))"

definition bucketGoes :: "nat \<Rightarrow> int option \<Rightarrow> int list \<Rightarrow> rat" where
  "bucketGoes index days bounds =
     (case days of
        None \<Rightarrow> 0
      | Some d \<Rightarrow>
          let start = (if index = 0 then 0 else case at_index bounds (index - 1) of Some b \<Rightarrow> b | None \<Rightarrow> 0)
          in if start \<ge> d then 1
             else case at_index bounds index of
                None \<Rightarrow> 0
              | Some stop \<Rightarrow>
                  if stop \<le> d then 0 else of_int (stop - d) / of_int (stop - start))"

section \<open>What the instance holds\<close>

record project_storage =
  ps_id :: int
  ps_name :: string
  ps_bytes :: "kind \<Rightarrow> int"
  ps_count :: "kind \<Rightarrow> int"

record storage_data =
  sd_projects :: "project_storage list"
  sd_bucketDays :: "int list"
  sd_age :: "(int \<times> (kind \<Rightarrow> int list)) list"
  sd_mapFiles :: int
  sd_mapBytes :: int
  sd_settings :: retention_settings

record age_bucket =
  ab_bytes :: "kind \<Rightarrow> int"
  ab_goes :: "kind \<Rightarrow> int"

record project_share =
  pj_id :: int
  pj_name :: string
  pj_bytes :: int
  pj_share :: rat
  pj_byKind :: "kind \<Rightarrow> int"
  pj_custom :: bool

record summary =
  su_bytes :: int
  su_kindBytes :: "kind \<Rightarrow> int"
  su_kindRows :: "kind \<Rightarrow> int"
  su_mapFiles :: int
  su_mapBytes :: int
  su_buckets :: "age_bucket list"
  su_frees :: int
  su_projects :: "project_share list"

definition add_weight :: "kind \<Rightarrow> int \<Rightarrow> int \<Rightarrow> age_bucket \<Rightarrow> age_bucket" where
  "add_weight k weight goes b =
     b\<lparr>ab_bytes := (ab_bytes b)(k := ab_bytes b k + weight),
       ab_goes := (ab_goes b)(k := ab_goes b k + goes)\<rparr>"

fun add_counts :: "kind \<Rightarrow> rat \<Rightarrow> (nat \<Rightarrow> rat) \<Rightarrow> nat \<Rightarrow> int list \<Rightarrow> age_bucket list \<Rightarrow> age_bucket list" where
  "add_counts k perRow share i [] bs = bs"
| "add_counts k perRow share i (c # cs) [] = []"
| "add_counts k perRow share i (c # cs) (b # bs) =
     (let weight = js_round (of_int c * perRow)
      in add_weight k weight (js_round (of_int weight * share i)) b #
         add_counts k perRow share (i + 1) cs bs)"

definition perRow_of :: "project_storage \<Rightarrow> kind \<Rightarrow> rat" where
  "perRow_of p k = (if ps_count p k > 0 then of_int (ps_bytes p k) / of_int (ps_count p k) else 0)"

definition addToBuckets :: "storage_data \<Rightarrow> project_storage \<Rightarrow> age_bucket list \<Rightarrow> age_bucket list" where
  "addToBuckets data p buckets =
     (let age = map_of (sd_age data) (ps_id p);
          w = windowsFor (sd_settings data) (ps_id p)
      in case age of
           None \<Rightarrow> buckets
         | Some counts \<Rightarrow>
             fold (\<lambda>k. add_counts k (perRow_of p k) (\<lambda>i. bucketGoes i (w k) (sd_bucketDays data)) 0 (counts k))
               KINDS buckets)"

definition kind_sum :: "(kind \<Rightarrow> int) \<Rightarrow> int" where
  "kind_sum f = sum_list (map f KINDS)"

definition project_share_of :: "storage_data \<Rightarrow> int \<Rightarrow> project_storage \<Rightarrow> project_share" where
  "project_share_of data tot p =
     \<lparr>pj_id = ps_id p, pj_name = ps_name p, pj_bytes = kind_sum (ps_bytes p),
      pj_share = (if tot > 0 then of_int (kind_sum (ps_bytes p)) / of_int tot else 0),
      pj_byKind = ps_bytes p,
      pj_custom = list_ex (\<lambda>o1. fst o1 = ps_id p) (rs_overrides (sd_settings data))\<rparr>"

definition no_bytes :: age_bucket where
  "no_bytes = \<lparr>ab_bytes = (\<lambda>_. 0), ab_goes = (\<lambda>_. 0)\<rparr>"

definition summarize :: "storage_data \<Rightarrow> summary" where
  "summarize data =
     (let buckets = fold (addToBuckets data) (sd_projects data)
                      (replicate (length (sd_bucketDays data) + 1) no_bytes);
          tot = sum_list (map (\<lambda>p. kind_sum (ps_bytes p)) (sd_projects data))
      in \<lparr>su_bytes = tot + sd_mapBytes data,
          su_kindBytes = (\<lambda>k. sum_list (map (\<lambda>p. ps_bytes p k) (sd_projects data))),
          su_kindRows = (\<lambda>k. sum_list (map (\<lambda>p. ps_count p k) (sd_projects data))),
          su_mapFiles = sd_mapFiles data, su_mapBytes = sd_mapBytes data,
          su_buckets = buckets,
          su_frees = sum_list (map (\<lambda>b. kind_sum (ab_goes b)) buckets),
          su_projects = sort_by (\<lambda>a b. pj_bytes b \<le> pj_bytes a)
            (map (project_share_of data tot) (sd_projects data))\<rparr>)"

section \<open>Words\<close>

record cleanup_counts =
  cc_events :: int
  cc_transactions :: int
  cc_logs :: int
  cc_spans :: int
  cc_issues :: int
  cc_maps :: int

fun count_of :: "cleanup_counts \<Rightarrow> kind \<Rightarrow> int" where
  "count_of c Events = cc_events c"
| "count_of c Transactions = cc_transactions c"
| "count_of c Logs = cc_logs c"

definition estimateBytes :: "cleanup_counts \<Rightarrow> project_storage list \<Rightarrow> int" where
  "estimateBytes counts projects =
     js_round (sum_list (map (\<lambda>k.
       let bytes = sum_list (map (\<lambda>p. ps_bytes p k) projects);
           rows = sum_list (map (\<lambda>p. ps_count p k) projects)
       in if rows > 0 then of_int (count_of counts k * bytes) / of_int rows else 0) KINDS))"

definition UNITS :: "string list" where
  "UNITS = [''B'', ''KB'', ''MB'', ''GB'', ''TB'', ''PB'']"

text \<open>The largest power of 1024 not above the bytes, at most that of the last unit.\<close>

fun size_exponent :: "nat \<Rightarrow> int \<Rightarrow> nat" where
  "size_exponent 0 bytes = 0"
| "size_exponent (Suc n) bytes = (if bytes < 1024 then 0 else Suc (size_exponent n (bytes div 1024)))"

definition toFixed1 :: "rat \<Rightarrow> string" where
  "toFixed1 x = (let n = js_round (10 * x) in int_str (n div 10) @ ''.'' @ int_str (n mod 10))"

definition formatBytes :: "int \<Rightarrow> string" where
  "formatBytes bytes =
     (if bytes \<le> 0 then ''0 B''
      else
        let e = size_exponent (length UNITS - 1) bytes
        in (if e = 0 then int_str bytes else toFixed1 (of_int bytes / 1024 ^ e)) @ '' '' @ UNITS ! e)"

text \<open>\<open>None\<close> is the ellipsis shown while the projects are not in yet.\<close>

definition estimateSize :: "cleanup_counts \<Rightarrow> project_storage list option \<Rightarrow> int \<Rightarrow> string option" where
  "estimateSize counts projects extra =
     map_option (\<lambda>ps. formatBytes (estimateBytes counts ps + extra)) projects"

definition removedParts :: "cleanup_counts \<Rightarrow> (string \<Rightarrow> int \<Rightarrow> string) \<Rightarrow> string list" where
  "removedParts removed t =
     map (\<lambda>(count, k). t k count)
       (filter (\<lambda>(count, k). count > 0)
         [(cc_events removed, ''unit.errors''), (cc_transactions removed, ''unit.transactions''),
          (cc_spans removed, ''unit.spans''), (cc_logs removed, ''unit.logs''),
          (cc_issues removed, ''unit.emptyIssues''), (cc_maps removed, ''unit.sourceMaps'')])"

record retention_run =
  rr_status :: string
  rr_started :: string
  rr_finished :: "string option"
  rr_error :: "string option"
  rr_removed :: "cleanup_counts option"

record retention_response =
  rp_settings :: retention_settings
  rp_next :: "string option"
  rp_last :: "retention_run option"

record status_line =
  sl_key :: string
  sl_at :: "string option"
  sl_values :: "(string \<times> string) list"

definition last_line :: "retention_run \<Rightarrow> (string \<Rightarrow> int \<Rightarrow> string) \<Rightarrow> status_line" where
  "last_line run t =
     (if rr_status run = ''running''
      then \<lparr>sl_key = ''status.lastRunRunning'', sl_at = Some (rr_started run), sl_values = []\<rparr>
      else
        let shown_at = (case rr_finished run of Some f \<Rightarrow> f | None \<Rightarrow> rr_started run)
        in if rr_status run = ''error''
           then \<lparr>sl_key = ''status.lastRunFailed'', sl_at = Some shown_at,
                 sl_values = [(''error'', case rr_error run of Some e \<Rightarrow> e | None \<Rightarrow> [])]\<rparr>
           else
             let parts = (case rr_removed run of Some r \<Rightarrow> removedParts r t | None \<Rightarrow> [])
             in if parts \<noteq> []
                then \<lparr>sl_key = ''status.lastRunRemoved'', sl_at = Some shown_at,
                      sl_values = [(''parts'', join_with '', '' parts)]\<rparr>
                else \<lparr>sl_key = ''status.lastRunNothing'', sl_at = Some shown_at, sl_values = []\<rparr>)"

definition runStatus ::
  "retention_response \<Rightarrow> (string \<Rightarrow> int \<Rightarrow> string) \<Rightarrow> status_line \<times> status_line option" where
  "runStatus state t =
     (let next = (if \<not> deletesAnything (rp_settings state)
                  then \<lparr>sl_key = ''status.off'', sl_at = None, sl_values = []\<rparr>
                  else case rp_next state of
                    Some (c # cs) \<Rightarrow> \<lparr>sl_key = ''status.nextRun'', sl_at = Some (c # cs), sl_values = []\<rparr>
                  | _ \<Rightarrow> \<lparr>sl_key = ''status.nextRunPending'', sl_at = None, sl_values = []\<rparr>)
      in (next, map_option (\<lambda>run. last_line run t) (rp_last state)))"

section \<open>Reading again\<close>

definition POLL_MS :: int where
  "POLL_MS = 15000"

definition MAX_TIMEOUT_MS :: int where
  "MAX_TIMEOUT_MS = 2147483647"

text \<open>A next run the server writes as an ISO time, so \<open>run_at\<close> gives its instant.\<close>

definition nextReadIn :: "(string \<Rightarrow> int) \<Rightarrow> retention_response \<Rightarrow> int \<Rightarrow> int option" where
  "nextReadIn run_at state now =
     (if (case rp_last state of Some run \<Rightarrow> rr_status run = ''running'' | None \<Rightarrow> False) then Some POLL_MS
      else if \<not> deletesAnything (rp_settings state) then None
      else case rp_next state of
        Some (c # cs) \<Rightarrow> Some (min (max (run_at (c # cs) - now) POLL_MS) MAX_TIMEOUT_MS)
      | _ \<Rightarrow> Some POLL_MS)"

datatype 't impact = Counting | Impact_failed | Ready 't

definition impactOf :: "'t option \<Rightarrow> bool \<Rightarrow> bool \<Rightarrow> 't impact" where
  "impactOf data isError isFetching =
     (case data of Some d \<Rightarrow> Ready d
      | None \<Rightarrow> if isError \<and> \<not> isFetching then Impact_failed else Counting)"

definition impactState :: "'t impact \<Rightarrow> string" where
  "impactState i = (case i of Impact_failed \<Rightarrow> ''failed'' | Counting \<Rightarrow> ''counting'' | Ready _ \<Rightarrow> ''ready'')"

definition pad2 :: "string \<Rightarrow> string" where
  "pad2 s = replicate (2 - length s) (CHR ''0'') @ s"

definition elapsed :: "(string \<Rightarrow> int option) \<Rightarrow> string option \<Rightarrow> int \<Rightarrow> string" where
  "elapsed date_parse since now =
     (case since of
        Some (c # cs) \<Rightarrow>
          (case date_parse (c # cs) of
             None \<Rightarrow> ''NaN:NaN''
           | Some t \<Rightarrow>
               let seconds = max 0 ((now - t) div 1000)
               in int_str (seconds div 60) @ '':'' @ pad2 (int_str (seconds mod 60)))
      | _ \<Rightarrow> ''0:00'')"

lemma next_read_bounds:
  "nextReadIn run_at state now = Some ms \<Longrightarrow> POLL_MS \<le> ms \<and> ms \<le> MAX_TIMEOUT_MS"
  by (auto simp: nextReadIn_def POLL_MS_def MAX_TIMEOUT_MS_def split: if_splits option.splits list.splits)

lemma presets_hold_window: "days \<in> set (presetsWith days) \<and> last (presetsWith days) = None"
  by (auto simp: presetsWith_def PRESETS_def split: option.splits)

section \<open>What a window deletes\<close>

text \<open>The bounds ascend, as the server's bucket days do.\<close>

definition bucket_start :: "int list \<Rightarrow> nat \<Rightarrow> int" where
  "bucket_start bounds i = (if i = 0 then 0 else bounds ! (i - 1))"

lemma bucketGoes_eq:
  assumes "i \<le> length bounds"
  shows "bucketGoes i (Some d) bounds =
    (if bucket_start bounds i \<ge> d then 1
     else if i = length bounds \<or> bounds ! i \<le> d then 0
     else of_int (bounds ! i - d) / of_int (bounds ! i - bucket_start bounds i))"
  using assms by (cases i) (auto simp: bucketGoes_def bucket_start_def at_index_def Let_def)

lemma start_below_end:
  assumes "sorted_wrt (<) (0 # bounds)" and "i < length bounds"
  shows "bucket_start bounds i < bounds ! i"
proof -
  have "(0 # bounds) ! i = bucket_start bounds i" by (cases i) (simp_all add: bucket_start_def)
  then show ?thesis
    using sorted_wrt_nth_less [OF assms(1), of i "Suc i"] assms(2) by simp
qed

lemma goes_range:
  assumes "sorted_wrt (<) (0 # bounds)" and "i \<le> length bounds"
  shows "0 \<le> bucketGoes i days bounds \<and> bucketGoes i days bounds \<le> 1"
proof (cases days)
  case (Some d)
  then show ?thesis
    using start_below_end [OF assms(1), of i] bucketGoes_eq [OF assms(2), of d] assms(2)
    by (auto simp: divide_le_eq_1)
qed (simp add: bucketGoes_def)

lemma goes_antitone:
  assumes "sorted_wrt (<) (0 # bounds)" and "i \<le> length bounds" and "d \<le> e"
  shows "bucketGoes i (Some e) bounds \<le> bucketGoes i (Some d) bounds"
proof (cases "bucket_start bounds i \<ge> d \<or> i = length bounds \<or> bounds ! i \<le> e")
  case True
  then show ?thesis
    using goes_range [OF assms(1,2), of "Some e"] goes_range [OF assms(1,2), of "Some d"]
      bucketGoes_eq [OF assms(2)] assms(3)
    by auto
next
  case False
  then have "bucketGoes i (Some x) bounds =
      of_int (bounds ! i - x) / of_int (bounds ! i - bucket_start bounds i)" if "x = d \<or> x = e" for x
    using that bucketGoes_eq [OF assms(2), of x] assms(3) by auto
  then show ?thesis
    using False assms start_below_end [OF assms(1), of i] by (simp add: divide_right_mono)
qed

lemma goes_older:
  assumes "sorted_wrt (<) (0 # bounds)" and "i < length bounds"
  shows "bucketGoes i (Some d) bounds \<le> bucketGoes (i + 1) (Some d) bounds"
proof (cases "bounds ! i \<ge> d")
  case True
  then have "bucketGoes (i + 1) (Some d) bounds = 1"
    using bucketGoes_eq [of "i + 1" bounds d] assms(2) by (simp add: bucket_start_def)
  then show ?thesis using goes_range [OF assms(1), of i] assms(2) by simp
next
  case False
  then have "bucketGoes i (Some d) bounds = 0"
    using bucketGoes_eq [of i bounds d] assms start_below_end [OF assms] by simp
  then show ?thesis using goes_range [OF assms(1), of "i + 1" "Some d"] assms(2) by simp
qed

text \<open>
  What a window deletes of an age bucket is a share of it: between nothing and all,
  never more for a longer window, and never less for an older bucket.
\<close>

theorem bucket_goes_is_a_share:
  assumes "sorted_wrt (<) (0 # bounds)" and "i < length bounds" and "d \<le> e"
  shows "0 \<le> bucketGoes i (Some d) bounds \<and> bucketGoes i (Some d) bounds \<le> 1 \<and>
    bucketGoes i (Some e) bounds \<le> bucketGoes i (Some d) bounds \<and>
    bucketGoes i (Some d) bounds \<le> bucketGoes (i + 1) (Some d) bounds"
  using goes_range [OF assms(1), of i "Some d"] goes_antitone [OF assms(1) _ assms(3), of i]
    goes_older [OF assms(1,2), of d] assms(2)
  by simp

theorem bucket_goes_is_a_share_witness:
  "bucketGoes 1 (Some 10) [7, 14, 30] = 4 / 7 \<and>
   bucketGoes 1 (Some 12) [7, 14, 30] \<le> bucketGoes 1 (Some 10) [7, 14, 30]"
  using bucket_goes_is_a_share [of "[7, 14, 30]" 1 10 12]
  by (simp add: bucketGoes_def at_index_def)

section \<open>The figures agree\<close>

definition bucket_ok :: "age_bucket \<Rightarrow> bool" where
  "bucket_ok b \<longleftrightarrow> (\<forall>k. 0 \<le> ab_goes b k \<and> ab_goes b k \<le> ab_bytes b k)"

lemma round_share:
  assumes "0 \<le> w" and "0 \<le> s" and "s \<le> 1"
  shows "0 \<le> js_round (of_int w * s) \<and> js_round (of_int w * s) \<le> w"
proof -
  have "of_int w * s \<le> of_int w" using assms by (simp add: mult_left_le)
  then have "of_int w * s + 1 / 2 < of_int (w + 1)" by simp
  then have "js_round (of_int w * s) < w + 1" by (simp only: js_round_def floor_less_iff)
  moreover have "0 \<le> of_int w * s" using assms by simp
  ultimately show ?thesis by (simp add: js_round_def)
qed

lemma add_counts_ok:
  assumes "\<forall>b \<in> set bs. bucket_ok b" and "\<forall>c \<in> set cs. 0 \<le> c" and "0 \<le> perRow"
    and "\<forall>j < length bs. 0 \<le> share (i + j) \<and> share (i + j) \<le> 1"
  shows "(\<forall>b \<in> set (add_counts k perRow share i cs bs). bucket_ok b) \<and>
    length (add_counts k perRow share i cs bs) = length bs"
  using assms
proof (induction k perRow share i cs bs rule: add_counts.induct)
  case (3 k perRow share i c cs b bs)
  have sh: "\<forall>j < length bs. 0 \<le> share (i + 1 + j) \<and> share (i + 1 + j) \<le> 1"
    using 3(5) by (metis Suc_less_eq add_Suc_right add_Suc_shift length_Cons Suc_eq_plus1)
  have s0: "0 \<le> share i \<and> share i \<le> 1" using 3(5) by (metis add_0_right length_Cons zero_less_Suc)
  have w: "0 \<le> js_round (of_int c * perRow)" using 3(3,4) by (simp add: js_round_def)
  have "bucket_ok (add_weight k (js_round (of_int c * perRow))
      (js_round (of_int (js_round (of_int c * perRow)) * share i)) b)"
    using round_share [OF w, of "share i"] s0 3(2) by (auto simp: bucket_ok_def add_weight_def add_mono)
  then show ?case using 3 sh by (simp add: Let_def)
qed auto

text \<open>What \<open>summarize\<close> is given: bounds that ascend, and no negative figure.\<close>

definition storage_ok :: "storage_data \<Rightarrow> bool" where
  "storage_ok data \<longleftrightarrow> sorted_wrt (<) (0 # sd_bucketDays data) \<and>
     (\<forall>p \<in> set (sd_projects data). \<forall>k. 0 \<le> ps_bytes p k) \<and>
     (\<forall>a \<in> set (sd_age data). \<forall>k. \<forall>c \<in> set (snd a k). 0 \<le> c)"

lemma add_project_ok:
  assumes "storage_ok data" and "p \<in> set (sd_projects data)"
    and "\<forall>b \<in> set bs. bucket_ok b" and "length bs = length (sd_bucketDays data) + 1"
  shows "(\<forall>b \<in> set (addToBuckets data p bs). bucket_ok b) \<and>
    length (addToBuckets data p bs) = length (sd_bucketDays data) + 1"
proof (cases "map_of (sd_age data) (ps_id p)")
  case None
  then show ?thesis using assms by (simp add: addToBuckets_def)
next
  case (Some counts)
  let ?g = "\<lambda>k i. bucketGoes i (windowsFor (sd_settings data) (ps_id p) k) (sd_bucketDays data)"
  have "0 \<le> perRow_of p k" for k
    using assms(1,2) by (simp add: perRow_of_def storage_ok_def)
  moreover have "\<forall>c \<in> set (counts k). 0 \<le> c" for k
    using map_of_SomeD [OF Some] assms(1) by (fastforce simp: storage_ok_def)
  moreover have "\<forall>j < length (sd_bucketDays data) + 1. 0 \<le> ?g k (0 + j) \<and> ?g k (0 + j) \<le> 1" for k
    using goes_range assms(1) by (simp add: storage_ok_def)
  ultimately have step: "(\<forall>b \<in> set (add_counts k (perRow_of p k) (?g k) 0 (counts k) xs). bucket_ok b) \<and>
      length (add_counts k (perRow_of p k) (?g k) 0 (counts k) xs) = length (sd_bucketDays data) + 1"
    if "(\<forall>b \<in> set xs. bucket_ok b) \<and> length xs = length (sd_bucketDays data) + 1" for k xs
    using that add_counts_ok [of xs "counts k" "perRow_of p k" "?g k" 0] by simp
  have "(\<forall>b \<in> set (fold (\<lambda>k. add_counts k (perRow_of p k) (?g k) 0 (counts k)) ks bs). bucket_ok b) \<and>
      length (fold (\<lambda>k. add_counts k (perRow_of p k) (?g k) 0 (counts k)) ks bs) =
        length (sd_bucketDays data) + 1" for ks
    using assms(3,4)
  proof (induction ks arbitrary: bs)
    case (Cons k ks)
    show ?case
      unfolding fold_simps using step [of bs k] Cons.prems by (intro Cons.IH) blast+
  qed simp
  then show ?thesis unfolding addToBuckets_def Let_def Some option.case by blast
qed

lemma buckets_ok:
  assumes "storage_ok data"
  shows "\<forall>b \<in> set (su_buckets (summarize data)). bucket_ok b"
proof -
  have all: "(\<forall>b \<in> set (fold (addToBuckets data) ps bs). bucket_ok b) \<and>
      length (fold (addToBuckets data) ps bs) = length (sd_bucketDays data) + 1"
    if "set ps \<subseteq> set (sd_projects data)" "\<forall>b \<in> set bs. bucket_ok b"
      "length bs = length (sd_bucketDays data) + 1" for ps bs
    using that
  proof (induction ps arbitrary: bs)
    case (Cons p ps)
    show ?case
      unfolding fold_simps using add_project_ok [OF assms, of p bs] Cons.prems
      by (intro Cons.IH) auto
  qed simp
  have "bucket_ok no_bytes" by (simp add: bucket_ok_def no_bytes_def)
  then have z: "\<forall>b \<in> set (replicate (length (sd_bucketDays data) + 1) no_bytes). bucket_ok b"
    by (metis in_set_replicate)
  have su: "su_buckets (summarize data) = fold (addToBuckets data) (sd_projects data)
      (replicate (length (sd_bucketDays data) + 1) no_bytes)"
    by (simp only: summarize_def Let_def summary.simps)
  show ?thesis unfolding su by (rule conjunct1 [OF all [OF subset_refl z length_replicate]])
qed

lemma kind_sum_mono: "(\<And>k. f k \<le> g k) \<Longrightarrow> kind_sum f \<le> kind_sum g"
  by (simp add: kind_sum_def KINDS_def add_mono)

lemma sum_list_divide: "(\<Sum>x\<leftarrow>xs. f x / c) = (\<Sum>x\<leftarrow>xs. f x) / (c :: rat)"
  by (induction xs) (simp_all add: add_divide_distrib)

lemma of_int_sum_list: "(\<Sum>x\<leftarrow>xs. of_int (f x)) = (of_int (\<Sum>x\<leftarrow>xs. f x) :: rat)"
  by (induction xs) simp_all

lemma sum_list_mset_eq: "mset xs = mset ys \<Longrightarrow> sum_list (map f xs) = (sum_list (map f ys) :: 'a::comm_monoid_add)"
  by (metis mset_map sum_mset_sum_list)

text \<open>
  the summary's figures agree. The kinds and the source maps make up the total, the
  projects' shares make up the whole, the projects come largest first, and the next cleanup
  frees no more than the buckets hold, kind by kind.
\<close>

theorem summary_figures_agree:
  assumes "storage_ok data"
  shows "su_bytes (summarize data) = kind_sum (su_kindBytes (summarize data)) + sd_mapBytes data \<and>
    (su_bytes (summarize data) > sd_mapBytes data \<longrightarrow>
       sum_list (map pj_share (su_projects (summarize data))) = 1) \<and>
    sorted_wrt (\<lambda>a b. pj_bytes b \<le> pj_bytes a) (su_projects (summarize data)) \<and>
    0 \<le> su_frees (summarize data) \<and>
    su_frees (summarize data) \<le> sum_list (map (\<lambda>b. kind_sum (ab_bytes b)) (su_buckets (summarize data)))"
proof -
  let ?s = "summarize data" and ?ps = "sd_projects data"
  define tot where "tot = sum_list (map (\<lambda>p. kind_sum (ps_bytes p)) ?ps)"
  have kinds: "tot = kind_sum (su_kindBytes ?s)"
    by (simp add: tot_def summarize_def Let_def kind_sum_def KINDS_def sum_list_addf)
  have bytes: "su_bytes ?s = tot + sd_mapBytes data"
    by (simp add: summarize_def Let_def tot_def)
  have pr: "mset (su_projects ?s) = mset (map (project_share_of data tot) ?ps)"
    by (simp add: summarize_def Let_def tot_def)
  have "sum_list (map pj_share (su_projects ?s)) = 1" if "tot > 0"
  proof -
    have "sum_list (map pj_share (su_projects ?s)) =
        sum_list (map (\<lambda>p. of_int (kind_sum (ps_bytes p)) / of_int tot) ?ps)"
      using sum_list_mset_eq [OF pr, of pj_share] that by (simp add: project_share_of_def comp_def)
    also have "\<dots> = of_int tot / of_int tot"
      by (simp add: sum_list_divide of_int_sum_list tot_def)
    finally show ?thesis using that by simp
  qed
  moreover have "sorted_wrt (\<lambda>a b. pj_bytes b \<le> pj_bytes a) (su_projects ?s)"
    unfolding summarize_def Let_def by (simp, rule sorted_sort_by) auto
  moreover have "0 \<le> su_frees ?s \<and>
      su_frees ?s \<le> sum_list (map (\<lambda>b. kind_sum (ab_bytes b)) (su_buckets ?s))"
  proof -
    have f: "su_frees ?s = sum_list (map (\<lambda>b. kind_sum (ab_goes b)) (su_buckets ?s))"
      by (simp add: summarize_def Let_def)
    have "0 \<le> kind_sum (ab_goes b) \<and> kind_sum (ab_goes b) \<le> kind_sum (ab_bytes b)"
      if "b \<in> set (su_buckets ?s)" for b
      using buckets_ok [OF assms] that kind_sum_mono [of "\<lambda>_. 0" "ab_goes b"]
        kind_sum_mono [of "ab_goes b" "ab_bytes b"]
      by (auto simp: bucket_ok_def kind_sum_def KINDS_def)
    then show ?thesis
      unfolding f by (auto intro!: sum_list_nonneg sum_list_mono)
  qed
  ultimately show ?thesis using kinds bytes by auto
qed

definition sample_storage :: storage_data where
  "sample_storage = \<lparr>sd_projects = [\<lparr>ps_id = 1, ps_name = ''a'', ps_bytes = (\<lambda>_. 100), ps_count = (\<lambda>_. 10)\<rparr>],
     sd_bucketDays = [7, 14], sd_age = [(1, \<lambda>_. [4, 3, 3])], sd_mapFiles = 0, sd_mapBytes = 5,
     sd_settings = \<lparr>rs_defaults = (\<lambda>_. Some 10), rs_overrides = []\<rparr>\<rparr>"

theorem summary_figures_agree_witness:
  "su_bytes (summarize sample_storage) = 305 \<and>
   sum_list (map pj_share (su_projects (summarize sample_storage))) = 1"
proof -
  have ok: "storage_ok sample_storage" by (simp add: storage_ok_def sample_storage_def)
  have "su_bytes (summarize sample_storage) = 305"
    by (simp add: summarize_def sample_storage_def Let_def kind_sum_def KINDS_def)
  with summary_figures_agree [OF ok] show ?thesis by (simp add: sample_storage_def)
qed

end
