(* ===== verification/DataTable.thy ===== *)
theory DataTable
  imports FilterQueryFacts Json
begin

text \<open>
  The table of \<open>packages/ui/src/components/data-table\<close>: what its header menus, filter panels,
  pager, checkboxes and keys do to the query its owner keeps, the rows that stay ticked, and
  the layout kept in the browser (\<open>use-data-table.tsx\<close>, \<open>column-header.tsx\<close>,
  \<open>filter-panel.tsx\<close>, \<open>pagination.tsx\<close>, \<open>data-table.tsx\<close>, \<open>features.ts\<close>). TanStack Table, which
  turns a gesture into an updater of one slice of the state, is the argument \<open>engine\<close>.
\<close>

section \<open>The query a gesture proposes\<close>

text \<open>
  Any change of sort, filters or search rewinds to the first page in the same update; a
  search set to \<open>undefined\<close> is the empty one.
\<close>

definition onSortingChange :: "(sorting list \<Rightarrow> sorting list) \<Rightarrow> table_query \<Rightarrow> table_query" where
  "onSortingChange u previous =
     previous\<lparr>tq_sorting := u (tq_sorting previous), tq_pageIndex := 0\<rparr>"

definition onColumnFiltersChange ::
  "(col_filter list \<Rightarrow> col_filter list) \<Rightarrow> table_query \<Rightarrow> table_query" where
  "onColumnFiltersChange u previous =
     previous\<lparr>tq_filters := u (tq_filters previous), tq_pageIndex := 0\<rparr>"

definition onGlobalFilterChange ::
  "(string \<Rightarrow> string option) \<Rightarrow> table_query \<Rightarrow> table_query" where
  "onGlobalFilterChange u previous =
     previous\<lparr>tq_search := (case u (tq_search previous) of None \<Rightarrow> [] | Some s \<Rightarrow> s),
              tq_pageIndex := 0\<rparr>"

definition onPaginationChange ::
  "(int \<times> int \<Rightarrow> int \<times> int) \<Rightarrow> table_query \<Rightarrow> table_query" where
  "onPaginationChange u previous =
     (let (index, size) = u (tq_pageIndex previous, tq_pageSize previous)
      in previous\<lparr>tq_pageIndex := index, tq_pageSize := size\<rparr>)"

section \<open>The state of a table\<close>

type_synonym selection = "(string \<times> bool) list"

text \<open>\<open>dt_data\<close> are the rows of the page, by what \<open>getRowId\<close> gives for them.\<close>

record table_state =
  dt_query :: table_query
  dt_data :: "string list"
  dt_rowCount :: int
  dt_rowSelection :: selection
  dt_visibility :: jv
  dt_sizing :: jv

text \<open>The effect that runs after the rows change: a row that left the page loses its tick.\<close>

definition prune :: "string list \<Rightarrow> selection \<Rightarrow> selection" where
  "prune data previous =
     (let kept = filter (\<lambda>i. i \<in> set data) (map fst previous)
      in if length kept = length previous then previous else map (\<lambda>i. (i, True)) kept)"

section \<open>The layout kept between visits\<close>

definition layout_key :: "string \<Rightarrow> string" where
  "layout_key key = ''rustrak:table:'' @ key"

text \<open>
  \<open>storage\<close> is \<open>None\<close> when the browser refuses to be asked. What is stored is not checked; the
  result \<open>JNull\<close> stands for nothing saved.
\<close>

definition readLayout :: "(string \<Rightarrow> string option) option \<Rightarrow> string option \<Rightarrow> jv" where
  "readLayout storage key =
     (case key of None \<Rightarrow> JNull
      | Some k \<Rightarrow>
          if k = [] then JNull
          else case storage of None \<Rightarrow> JNull
            | Some st \<Rightarrow>
                (case st (layout_key k) of None \<Rightarrow> JNull
                 | Some raw \<Rightarrow>
                     if raw = [] then JNull
                     else (case json_parse raw of None \<Rightarrow> JNull | Some v \<Rightarrow> v)))"

definition layout_part :: "string \<Rightarrow> jv \<Rightarrow> jv \<Rightarrow> jv" where
  "layout_part name stored fallback =
     (let v = (if stored = JNull then JUndef else pget name stored)
      in if v = JUndef \<or> v = JNull then fallback else v)"

definition initial_visibility :: "(string \<Rightarrow> string option) option \<Rightarrow> string option \<Rightarrow> jv \<Rightarrow> jv" where
  "initial_visibility storage key initialVisibility =
     layout_part ''visibility'' (readLayout storage key) initialVisibility"

definition initial_sizing :: "(string \<Rightarrow> string option) option \<Rightarrow> string option \<Rightarrow> jv" where
  "initial_sizing storage key = layout_part ''sizing'' (readLayout storage key) (JObj [])"

text \<open>The effect that writes it; a write that is refused changes nothing.\<close>

definition writeLayout ::
  "string option \<Rightarrow> table_state \<Rightarrow> (string \<Rightarrow> string option) option \<Rightarrow> (string \<Rightarrow> string option) option" where
  "writeLayout key s storage =
     (case key of None \<Rightarrow> storage
      | Some k \<Rightarrow>
          if k = [] then storage
          else map_option (\<lambda>st. st(layout_key k \<mapsto>
                 json_text (JObj [(''visibility'', dt_visibility s), (''sizing'', dt_sizing s)]))) storage)"

lemma layout_reads_back:
  assumes "json_wf (dt_visibility s)" "json_wf (dt_sizing s)" "k \<noteq> []"
  shows "readLayout (writeLayout (Some k) s (Some st)) (Some k)
     = JObj [(''visibility'', dt_visibility s), (''sizing'', dt_sizing s)]"
proof -
  have wf: "json_wf (JObj [(''visibility'', dt_visibility s), (''sizing'', dt_sizing s)])"
    using assms by simp
  then show ?thesis
    using json_roundtrip [OF wf] json_text_nonempty [OF wf] assms(3)
    by (simp add: readLayout_def writeLayout_def del: json_text.simps)
qed

section \<open>What the engine makes of a gesture\<close>

text \<open>
  One field for each function of a column, a row or the table that the components call, as
  the updater of the slice it changes; the first two read the state. Visibility and widths
  are objects.
\<close>

datatype direction = Asc | Desc

record engine =
  getIsSorted :: "string \<Rightarrow> sorting list \<Rightarrow> direction option"
  getFilterValue :: "string \<Rightarrow> col_filter list \<Rightarrow> jv option"
  toggleSorting :: "string \<Rightarrow> bool \<Rightarrow> sorting list \<Rightarrow> sorting list"
  clearSorting :: "string \<Rightarrow> sorting list \<Rightarrow> sorting list"
  setFilterValue :: "string \<Rightarrow> jv option \<Rightarrow> col_filter list \<Rightarrow> col_filter list"
  setColumnFilters :: "col_filter list \<Rightarrow> col_filter list \<Rightarrow> col_filter list"
  setGlobalFilter :: "string \<Rightarrow> string \<Rightarrow> string option"
  toggleVisibility :: "string \<Rightarrow> bool option \<Rightarrow> jv \<Rightarrow> jv"
  toggleSelected :: "string \<Rightarrow> bool option \<Rightarrow> selection \<Rightarrow> selection"
  toggleAllPageRowsSelected :: "string list \<Rightarrow> selection \<Rightarrow> selection"
  clearSelection :: "selection \<Rightarrow> selection"
  setPageSize :: "int \<Rightarrow> int \<times> int \<Rightarrow> int \<times> int"
  previousPage :: "int \<times> int \<Rightarrow> int \<times> int"
  nextPage :: "int \<Rightarrow> int \<times> int \<Rightarrow> int \<times> int"  \<comment> \<open>given the number of rows there are\<close>

section \<open>The filter panels\<close>

text \<open>Choosing the standing sort again clears it.\<close>

definition sort_section_click :: "engine \<Rightarrow> string \<Rightarrow> direction \<Rightarrow> table_query \<Rightarrow> table_query" where
  "sort_section_click eng i dir q =
     (if getIsSorted eng i (tq_sorting q) = Some dir then onSortingChange (clearSorting eng i) q
      else onSortingChange (toggleSorting eng i (dir = Desc)) q)"

definition selected_values :: "engine \<Rightarrow> string \<Rightarrow> col_filter list \<Rightarrow> jv list" where
  "selected_values eng i fs = (case getFilterValue eng i fs of Some (JArr vs) \<Rightarrow> vs | _ \<Rightarrow> [])"

text \<open>\<open>toggle\<close> of the options panel.\<close>

definition option_toggle :: "engine \<Rightarrow> string \<Rightarrow> bool option \<Rightarrow> string \<Rightarrow> table_query \<Rightarrow> table_query" where
  "option_toggle eng i multiple_given v q =
     (let selected = selected_values eng i (tq_filters q);
          multiple = (case multiple_given of None \<Rightarrow> True | Some m \<Rightarrow> m);
          has = JStr v \<in> set selected;
          next_values = (if multiple then (if has then filter (\<lambda>w. w \<noteq> JStr v) selected else selected @ [JStr v])
                  else if has then [] else [JStr v])
      in onColumnFiltersChange
           (setFilterValue eng i (if next_values \<noteq> [] then Some (JArr next_values) else None)) q)"

text \<open>\<open>commit\<close> of the text panel: what is typed, or no filter when nothing is.\<close>

definition text_commit :: "engine \<Rightarrow> string \<Rightarrow> string \<Rightarrow> table_query \<Rightarrow> table_query" where
  "text_commit eng i draft q =
     onColumnFiltersChange (setFilterValue eng i (if draft \<noteq> [] then Some (JStr draft) else None)) q"

text \<open>\<open>commit\<close> of the range panel: a bound that is no number commits nothing.\<close>

definition bound_of :: "string \<Rightarrow> jsnum option" where
  "bound_of s = (if s = [] then None else Some (js_Number s))"

definition range_commit :: "engine \<Rightarrow> string \<Rightarrow> string \<Rightarrow> string \<Rightarrow> table_query \<Rightarrow> table_query" where
  "range_commit eng i mn mx q =
     (let low = bound_of mn; high = bound_of mx
      in if low = Some NaN \<or> high = Some NaN then q
         else onColumnFiltersChange
           (setFilterValue eng i (if low = None \<and> high = None then None
              else Some (JArr [num_or_null low, num_or_null high]))) q)"

text \<open>The options a panel lists for what is typed in its own finder.\<close>

definition options_visible :: "string \<Rightarrow> (string \<times> string) list \<Rightarrow> (string \<times> string) list" where
  "options_visible search options =
     filter (\<lambda>(v, label). search = [] \<or> str_includes (to_lower search) (to_lower label)
                \<or> str_includes (to_lower search) (to_lower v)) options"

section \<open>Widths\<close>

text \<open>No column is dragged narrower than \<open>MIN_WIDTH\<close>.\<close>

definition MIN_WIDTH :: int where "MIN_WIDTH = 48"
definition FLEX_MIN_WIDTH :: rat where "FLEX_MIN_WIDTH = 320"

definition put_prop :: "string \<Rightarrow> jv \<Rightarrow> jv \<Rightarrow> jv" where
  "put_prop k v obj = (case obj of JObj ps \<Rightarrow> JObj (obj_put k v ps) | _ \<Rightarrow> JObj [(k, v)])"

definition drop_prop :: "string \<Rightarrow> jv \<Rightarrow> jv" where
  "drop_prop k obj = (case obj of JObj ps \<Rightarrow> JObj (filter (\<lambda>p. fst p \<noteq> k) ps) | _ \<Rightarrow> JObj [])"

definition resize :: "string \<Rightarrow> rat \<Rightarrow> jv \<Rightarrow> jv" where
  "resize i next previous = put_prop i (JNum (Fin (of_int (max MIN_WIDTH (js_round next))))) previous"

record column =
  cl_id :: string
  cl_width :: "rat option"

definition sizedWidth :: "jv \<Rightarrow> column \<Rightarrow> rat option" where
  "sizedWidth sizing c =
     (case pget (cl_id c) sizing of JNum (Fin w) \<Rightarrow> Some w | _ \<Rightarrow> cl_width c)"

definition anyFlexible :: "jv \<Rightarrow> column list \<Rightarrow> bool" where
  "anyFlexible sizing columns =
     list_ex (\<lambda>c. cl_id c \<noteq> ''select'' \<and> cl_id c \<noteq> ''actions'' \<and> sizedWidth sizing c = None) columns"

definition widthOf :: "jv \<Rightarrow> column list \<Rightarrow> column \<Rightarrow> rat option" where
  "widthOf sizing columns c =
     (if cl_id c = ''select'' then Some 40
      else if cl_id c = ''actions'' then (if anyFlexible sizing columns then Some 48 else None)
      else sizedWidth sizing c)"

definition minWidth :: "jv \<Rightarrow> column list \<Rightarrow> rat" where
  "minWidth sizing columns =
     foldl (\<lambda>s c. s + (case widthOf sizing columns c of Some w \<Rightarrow> w
                     | None \<Rightarrow> if cl_id c = ''actions'' then 48 else FLEX_MIN_WIDTH)) 0 columns"

section \<open>The foot of the table\<close>

definition PAGE_SIZES :: "int list" where
  "PAGE_SIZES = [25, 50, 100]"

definition first_shown :: "int \<Rightarrow> table_query \<Rightarrow> int" where
  "first_shown rowCount q = (if rowCount = 0 then 0 else tq_pageIndex q * tq_pageSize q + 1)"

definition last_shown :: "int \<Rightarrow> table_query \<Rightarrow> int" where
  "last_shown rowCount q = min ((tq_pageIndex q + 1) * tq_pageSize q) rowCount"

section \<open>Keys\<close>

datatype row_key_action = Focus_next | Focus_previous | Toggle_row | Open_row | Leave_key

definition handleRowKey :: "bool \<Rightarrow> string \<Rightarrow> bool \<Rightarrow> row_key_action" where
  "handleRowKey modified key can_select =
     (if modified then Leave_key
      else if key = ''ArrowDown'' \<or> key = ''j'' then Focus_next
      else if key = ''ArrowUp'' \<or> key = ''k'' then Focus_previous
      else if key = ''x'' \<and> can_select then Toggle_row
      else if key = ''Enter'' \<or> key = '' '' then Open_row
      else Leave_key)"

section \<open>The table as a machine\<close>

datatype gesture =
    Sort_click string direction
  | Option_click string "bool option" string
  | Text_commit string string
  | Range_commit string string string
  | Clear_filter string
  | Clear_filters
  | Hide_column string
  | Show_or_hide string
  | Page_size int
  | Previous_page
  | Next_page
  | Tick string bool
  | Row_key bool string string
  | Tick_page
  | Clear_selection
  | Drag string rat
  | Reset_width string
  | Rows_arrive "string list" int

definition on_query :: "(table_query \<Rightarrow> table_query) \<Rightarrow> table_state \<Rightarrow> table_state" where
  "on_query f s = s\<lparr>dt_query := f (dt_query s)\<rparr>"

fun gesture_step :: "engine \<Rightarrow> table_state \<Rightarrow> gesture \<Rightarrow> table_state" where
  "gesture_step eng s (Sort_click i dir) = on_query (sort_section_click eng i dir) s"
| "gesture_step eng s (Option_click i multiple v) = on_query (option_toggle eng i multiple v) s"
| "gesture_step eng s (Text_commit i draft) = on_query (text_commit eng i draft) s"
| "gesture_step eng s (Range_commit i mn mx) = on_query (range_commit eng i mn mx) s"
| "gesture_step eng s (Clear_filter i) = on_query (onColumnFiltersChange (setFilterValue eng i None)) s"
| "gesture_step eng s Clear_filters =
     on_query (onGlobalFilterChange (setGlobalFilter eng [])) (on_query (onColumnFiltersChange (setColumnFilters eng [])) s)"
| "gesture_step eng s (Hide_column i) = s\<lparr>dt_visibility := toggleVisibility eng i (Some False) (dt_visibility s)\<rparr>"
| "gesture_step eng s (Show_or_hide i) = s\<lparr>dt_visibility := toggleVisibility eng i None (dt_visibility s)\<rparr>"
| "gesture_step eng s (Page_size n) = on_query (onPaginationChange (setPageSize eng n)) s"
| "gesture_step eng s Previous_page = on_query (onPaginationChange (previousPage eng)) s"
| "gesture_step eng s Next_page = on_query (onPaginationChange (nextPage eng (dt_rowCount s))) s"
| "gesture_step eng s (Tick i checked) =
     s\<lparr>dt_rowSelection := toggleSelected eng i (Some checked) (dt_rowSelection s)\<rparr>"
| "gesture_step eng s (Row_key modified key i) =
     (if handleRowKey modified key True = Toggle_row
      then s\<lparr>dt_rowSelection := toggleSelected eng i None (dt_rowSelection s)\<rparr> else s)"
| "gesture_step eng s Tick_page =
     s\<lparr>dt_rowSelection := toggleAllPageRowsSelected eng (dt_data s) (dt_rowSelection s)\<rparr>"
| "gesture_step eng s Clear_selection = s\<lparr>dt_rowSelection := clearSelection eng (dt_rowSelection s)\<rparr>"
| "gesture_step eng s (Drag i next) = s\<lparr>dt_sizing := resize i next (dt_sizing s)\<rparr>"
| "gesture_step eng s (Reset_width i) = s\<lparr>dt_sizing := drop_prop i (dt_sizing s)\<rparr>"
| "gesture_step eng s (Rows_arrive rows n) =
     s\<lparr>dt_data := rows, dt_rowCount := n, dt_rowSelection := prune rows (dt_rowSelection s)\<rparr>"

definition gestures :: "engine \<Rightarrow> table_state \<Rightarrow> gesture list \<Rightarrow> table_state" where
  "gestures eng = foldl (gesture_step eng)"

section \<open>Runs\<close>

text \<open>
  What the engine is relied on for: a filter's value is the one in the state, sorting touches one column, a filter is set or removed on
  one column and the others stay, ticking touches the rows it is asked about, the pager
  stays at or past the first page and a page size is the one asked for.
\<close>

definition sorting_ok :: "engine \<Rightarrow> bool" where
  "sorting_ok eng \<longleftrightarrow>
     (\<forall>i d so. list_all (\<lambda>s. s \<in> set so \<or> so_id s = i) (toggleSorting eng i d so)) \<and>
     (\<forall>i so. set (clearSorting eng i so) \<subseteq> set so)"

definition filters_ok :: "engine \<Rightarrow> bool" where
  "filters_ok eng \<longleftrightarrow>
     (\<forall>i fs w. getFilterValue eng i fs = Some w \<longrightarrow> \<lparr>fl_id = i, fl_value = w\<rparr> \<in> set fs) \<and>
     (\<forall>i v fs. filter (\<lambda>f. fl_id f \<noteq> i) (setFilterValue eng i v fs) = filter (\<lambda>f. fl_id f \<noteq> i) fs \<and>
        (filter (\<lambda>f. fl_id f = i) (setFilterValue eng i v fs) = [] \<or>
         (\<exists>w. v = Some w \<and> filter (\<lambda>f. fl_id f = i) (setFilterValue eng i v fs) = [\<lparr>fl_id = i, fl_value = w\<rparr>]))) \<and>
     (\<forall>fs. setColumnFilters eng [] fs = []) \<and>
     (\<forall>s. setGlobalFilter eng [] s = None \<or> setGlobalFilter eng [] s = Some [])"

definition paging_ok :: "engine \<Rightarrow> bool" where
  "paging_ok eng \<longleftrightarrow>
     (\<forall>n i k. 0 \<le> i \<longrightarrow> 0 < k \<longrightarrow> 0 \<le> fst (setPageSize eng n (i, k)) \<and> snd (setPageSize eng n (i, k)) = n) \<and>
     (\<forall>i k. 0 \<le> i \<longrightarrow> 0 \<le> fst (previousPage eng (i, k)) \<and> snd (previousPage eng (i, k)) = k) \<and>
     (\<forall>r i k. 0 \<le> i \<longrightarrow> 0 \<le> fst (nextPage eng r (i, k)) \<and> snd (nextPage eng r (i, k)) = k)"

definition ticked :: "selection \<Rightarrow> string set" where
  "ticked sel = set (map fst sel)"

definition ticking_ok :: "engine \<Rightarrow> bool" where
  "ticking_ok eng \<longleftrightarrow>
     (\<forall>i c sel. ticked (toggleSelected eng i c sel) \<subseteq> insert i (ticked sel)) \<and>
     (\<forall>rows sel. ticked (toggleAllPageRowsSelected eng rows sel) \<subseteq> set rows \<union> ticked sel) \<and>
     (\<forall>sel. ticked (clearSelection eng sel) \<subseteq> ticked sel)"

definition engine_ok :: "engine \<Rightarrow> bool" where
  "engine_ok eng \<longleftrightarrow> sorting_ok eng \<and> filters_ok eng \<and> paging_ok eng \<and> ticking_ok eng \<and>
     (\<forall>i b v. json_wf v \<longrightarrow> json_wf (toggleVisibility eng i b v))"

definition column_key :: "variants \<Rightarrow> string \<Rightarrow> variant \<Rightarrow> bool" where
  "column_key vars i v \<longleftrightarrow> i \<noteq> [] \<and> list_all is_key_char i \<and> obj_lookup vars i = Own v"

definition whole_or_no_number :: "string \<Rightarrow> bool" where
  "whole_or_no_number s \<longleftrightarrow> s = [] \<or> js_Number s = NaN \<or> good_bound (JNum (js_Number s))"

text \<open>
  The gestures a table offers: on its own columns, with the panel of the column's kind, a
  text of one line, bounds that are whole where they are numbers, on rows of the page.
\<close>

fun offered :: "variants \<Rightarrow> table_state \<Rightarrow> gesture \<Rightarrow> bool" where
  "offered vars s (Sort_click i dir) = wf_sort \<lparr>so_id = i, so_desc = False\<rparr>"
| "offered vars s (Option_click i multiple v) = (column_key vars i V_options \<and> good_option (JStr v))"
| "offered vars s (Text_commit i draft) = (column_key vars i V_text \<and> \<not> list_ex is_line_end draft)"
| "offered vars s (Range_commit i mn mx) =
     (column_key vars i V_range \<and> whole_or_no_number mn \<and> whole_or_no_number mx)"
| "offered vars s (Page_size n) = (n \<in> set PAGE_SIZES)"
| "offered vars s (Tick i checked) = (i \<in> set (dt_data s))"
| "offered vars s (Row_key modified key i) = (i \<in> set (dt_data s))"
| "offered vars s _ = True"

inductive table_run :: "variants \<Rightarrow> engine \<Rightarrow> table_state \<Rightarrow> table_state \<Rightarrow> bool"
  for vars :: variants and eng :: engine and s :: table_state where
  start: "table_run vars eng s s"
| gesture: "table_run vars eng s s' \<Longrightarrow> offered vars s' g \<Longrightarrow> table_run vars eng s (gesture_step eng s' g)"

text \<open>A run given by its gestures.\<close>

fun offered_all :: "variants \<Rightarrow> engine \<Rightarrow> table_state \<Rightarrow> gesture list \<Rightarrow> bool" where
  "offered_all vars eng s [] = True"
| "offered_all vars eng s (g # gs) = (offered vars s g \<and> offered_all vars eng (gesture_step eng s g) gs)"

lemma run_of_gestures:
  assumes "offered_all vars eng s' gs" "table_run vars eng s s'"
  shows "table_run vars eng s (gestures eng s' gs)"
  using assms by (induction gs arbitrary: s') (auto simp: gestures_def intro: table_run.gesture)

section \<open>The address of a table\<close>

lemma distinct_by_filters:
  "distinct (map fl_id fs) \<longleftrightarrow> (\<forall>i. length (filter (\<lambda>f. fl_id f = i) fs) \<le> 1)"
proof (induction fs)
  case (Cons f fs)
  have none: "filter (\<lambda>g. fl_id g = fl_id f) fs = [] \<longleftrightarrow> fl_id f \<notin> set (map fl_id fs)"
    by (induction fs) auto
  show ?case
  proof
    assume d: "distinct (map fl_id (f # fs))"
    then have "filter (\<lambda>g. fl_id g = fl_id f) fs = []" using none by simp
    then show "\<forall>i. length (filter (\<lambda>g. fl_id g = i) (f # fs)) \<le> 1"
      using d Cons.IH by auto
  next
    assume l: "\<forall>i. length (filter (\<lambda>g. fl_id g = i) (f # fs)) \<le> 1"
    have "\<forall>i. length (filter (\<lambda>g. fl_id g = i) fs) \<le> 1"
    proof
      fix i show "length (filter (\<lambda>g. fl_id g = i) fs) \<le> 1"
        using l [rule_format, of i] by (auto split: if_splits)
    qed
    moreover have "filter (\<lambda>g. fl_id g = fl_id f) fs = []"
      using l [rule_format, of "fl_id f"] by simp
    ultimately show "distinct (map fl_id (f # fs))" using none Cons.IH by simp
  qed
qed simp

lemma set_filter_wf:
  assumes ok: "filters_ok eng" and wf: "wf_filters vars fs"
    and v: "\<And>w. v = Some w \<Longrightarrow> wf_filter vars \<lparr>fl_id = i, fl_value = w\<rparr>"
  shows "wf_filters vars (setFilterValue eng i v fs)"
proof -
  let ?r = "setFilterValue eng i v fs"
  have others: "filter (\<lambda>f. fl_id f \<noteq> i) ?r = filter (\<lambda>f. fl_id f \<noteq> i) fs"
    and own: "filter (\<lambda>f. fl_id f = i) ?r = [] \<or>
      (\<exists>w. v = Some w \<and> filter (\<lambda>f. fl_id f = i) ?r = [\<lparr>fl_id = i, fl_value = w\<rparr>])"
    using ok by (simp_all add: filters_ok_def)
  have "length (filter (\<lambda>f. fl_id f = j) ?r) \<le> 1" for j
  proof (cases "j = i")
    case True then show ?thesis using own by auto
  next
    case False
    have "filter (\<lambda>f. fl_id f = j) xs = filter (\<lambda>f. fl_id f = j) (filter (\<lambda>f. fl_id f \<noteq> i) xs)" for xs :: "col_filter list"
      using False by (induction xs) auto
    then have "filter (\<lambda>f. fl_id f = j) ?r = filter (\<lambda>f. fl_id f = j) fs"
      using others by metis
    then show ?thesis using wf distinct_by_filters by (auto simp: wf_filters_def)
  qed
  then have "distinct (map fl_id ?r)" by (simp add: distinct_by_filters)
  moreover have "wf_filter vars f" if f: "f \<in> set ?r" for f
  proof (cases "fl_id f = i")
    case True
    then have "f \<in> set (filter (\<lambda>f. fl_id f = i) ?r)" using f by simp
    then obtain w where "v = Some w" "f = \<lparr>fl_id = i, fl_value = w\<rparr>"
      using own by (metis empty_iff empty_set list.set_cases set_ConsD)
    then show ?thesis using v by simp
  next
    case False
    then have "f \<in> set (filter (\<lambda>f. fl_id f \<noteq> i) ?r)" using f by simp
    then have "f \<in> set fs" using others by simp
    then show ?thesis using wf by (simp add: wf_filters_def list_all_iff)
  qed
  ultimately show ?thesis by (simp add: wf_filters_def list_all_iff)
qed

lemma key_filter_wf: "column_key vars i v \<Longrightarrow> codec_good v w \<Longrightarrow> wf_filter vars \<lparr>fl_id = i, fl_value = w\<rparr>"
  by (simp add: column_key_def wf_filter_def)

lemma selected_values_good:
  assumes ok: "filters_ok eng" and wf: "wf_filters vars fs" and key: "column_key vars i V_options"
  shows "list_all good_option (selected_values eng i fs)"
proof (cases "getFilterValue eng i fs")
  case (Some w)
  then have "\<lparr>fl_id = i, fl_value = w\<rparr> \<in> set fs" using ok by (simp add: filters_ok_def)
  then have "good_options w" using wf key by (auto simp: wf_filters_def list_all_iff wf_filter_def column_key_def)
  then show ?thesis using Some by (cases w) (auto simp: selected_values_def good_options_def)
qed (simp add: selected_values_def)

text \<open>A query's part of \<open>wf_query\<close> that a change of filters leaves.\<close>

lemma filters_change_wf:
  assumes "wf_query vars q" "wf_filters vars (u (tq_filters q))"
  shows "wf_query vars (onColumnFiltersChange u q)"
  using assms by (simp add: wf_query_def onColumnFiltersChange_def)

lemma option_toggle_wf:
  assumes ok: "filters_ok eng" and wf: "wf_query vars q" and key: "column_key vars i V_options"
    and v: "good_option (JStr v)"
  shows "wf_query vars (option_toggle eng i multiple v q)"
proof -
  have fs: "wf_filters vars (tq_filters q)" using wf by (simp add: wf_query_def)
  let ?sel = "selected_values eng i (tq_filters q)"
  have sel: "list_all good_option ?sel" by (rule selected_values_good [OF ok fs key])
  have good: "wf_filter vars \<lparr>fl_id = i, fl_value = JArr ws\<rparr>"
    if "list_all good_option ws" "ws \<noteq> []" for ws
    using that by (intro key_filter_wf [OF key]) (simp add: good_options_def)
  have parts: "list_all good_option (?sel @ [JStr v])" "list_all good_option (filter (\<lambda>w. w \<noteq> JStr v) ?sel)"
    "list_all good_option [JStr v]"
    using sel v by (auto simp: list_all_iff)
  show ?thesis unfolding option_toggle_def Let_def
    by (intro filters_change_wf [OF wf] set_filter_wf [OF ok fs])
       (use parts good in \<open>auto simp del: good_option.simps split: if_splits option.splits\<close>)
qed

lemma text_commit_wf:
  assumes "filters_ok eng" "wf_query vars q" "column_key vars i V_text" "\<not> list_ex is_line_end draft"
  shows "wf_query vars (text_commit eng i draft q)"
  unfolding text_commit_def using assms
  by (intro filters_change_wf set_filter_wf key_filter_wf)
     (auto simp: wf_query_def good_text_def split: if_splits)

lemma bound_good:
  assumes "whole_or_no_number s" "bound_of s \<noteq> Some NaN"
  shows "good_bound (num_or_null (bound_of s))" "num_or_null (bound_of s) = JNull \<longleftrightarrow> bound_of s = None"
  using assms by (auto simp: whole_or_no_number_def bound_of_def num_or_null_def)

lemma range_commit_wf:
  assumes ok: "filters_ok eng" and wf: "wf_query vars q" and key: "column_key vars i V_range"
    and mn: "whole_or_no_number mn" and mx: "whole_or_no_number mx"
  shows "wf_query vars (range_commit eng i mn mx q)"
proof (cases "bound_of mn = Some NaN \<or> bound_of mx = Some NaN")
  case True then show ?thesis using wf by (simp add: range_commit_def Let_def)
next
  case False
  have fs: "wf_filters vars (tq_filters q)" using wf by (simp add: wf_query_def)
  have "wf_filter vars \<lparr>fl_id = i, fl_value = JArr [num_or_null (bound_of mn), num_or_null (bound_of mx)]\<rparr>"
    if "\<not> (bound_of mn = None \<and> bound_of mx = None)"
    using that False bound_good [OF mn] bound_good [OF mx]
    by (intro key_filter_wf [OF key]) (auto simp: good_range_def)
  then have "wf_query vars (onColumnFiltersChange (setFilterValue eng i (if bound_of mn = None \<and> bound_of mx = None
      then None else Some (JArr [num_or_null (bound_of mn), num_or_null (bound_of mx)]))) q)"
    by (intro filters_change_wf [OF wf] set_filter_wf [OF ok fs]) (auto split: if_splits)
  then show ?thesis using False by (simp add: range_commit_def Let_def)
qed

lemma wf_sort_direction: "wf_sort \<lparr>so_id = so_id s, so_desc = d\<rparr> \<longleftrightarrow> wf_sort s"
  by (simp add: wf_sort_def)

lemma sort_click_wf:
  assumes ok: "sorting_ok eng" and wf: "wf_query vars q" and i: "wf_sort \<lparr>so_id = i, so_desc = False\<rparr>"
  shows "wf_query vars (sort_section_click eng i dir q)"
proof -
  have so: "list_all wf_sort (tq_sorting q)" using wf by (simp add: wf_query_def)
  have "list_all wf_sort (clearSorting eng i (tq_sorting q))"
    using ok so unfolding sorting_ok_def list_all_iff by blast
  moreover have "list_all wf_sort (toggleSorting eng i d (tq_sorting q))" for d
  proof -
    have "wf_sort x" if "x \<in> set so'" "so' = toggleSorting eng i d (tq_sorting q)" for x so'
    proof -
      have "x \<in> set (tq_sorting q) \<or> so_id x = i"
        using ok that by (simp add: sorting_ok_def list_all_iff)
      then show ?thesis using so i by (auto simp: wf_sort_def list_all_iff)
    qed
    then show ?thesis by (auto simp: list_all_iff)
  qed
  ultimately show ?thesis using wf
    by (simp add: wf_query_def sort_section_click_def onSortingChange_def)
qed

lemma paging_wf:
  assumes "wf_query vars q" "0 \<le> fst (u (tq_pageIndex q, tq_pageSize q))" "0 < snd (u (tq_pageIndex q, tq_pageSize q))"
  shows "wf_query vars (onPaginationChange u q)"
  using assms by (simp add: wf_query_def onPaginationChange_def case_prod_beta Let_def)

lemma clear_filters_wf:
  assumes ok: "filters_ok eng" and wf: "wf_query vars q"
  shows "wf_query vars (onGlobalFilterChange (setGlobalFilter eng []) (onColumnFiltersChange (setColumnFilters eng []) q))"
proof -
  have "setGlobalFilter eng [] (tq_search q) \<in> {None, Some []}" "setColumnFilters eng [] (tq_filters q) = []"
    using ok by (simp_all add: filters_ok_def)
  then show ?thesis using wf
    by (auto simp: wf_query_def onGlobalFilterChange_def onColumnFiltersChange_def wf_filters_def wf_search_def)
qed

lemma step_wf:
  assumes eng: "engine_ok eng" and wf: "wf_query vars (dt_query s)" and g: "offered vars s g"
  shows "wf_query vars (dt_query (gesture_step eng s g))"
proof -
  have ok: "sorting_ok eng" "filters_ok eng" "paging_ok eng" using eng by (simp_all add: engine_ok_def)
  have q: "0 \<le> tq_pageIndex (dt_query s)" "0 < tq_pageSize (dt_query s)" "wf_filters vars (tq_filters (dt_query s))"
    using wf by (simp_all add: wf_query_def)
  show ?thesis
  proof (cases g)
    case (Clear_filter i)
    have "wf_filters vars (setFilterValue eng i None (tq_filters (dt_query s)))"
      by (intro set_filter_wf [OF ok(2) q(3)]) simp
    then show ?thesis using Clear_filter filters_change_wf [OF wf] by (simp add: on_query_def)
  next
    case (Page_size n)
    then have "0 < n" using g by (auto simp: PAGE_SIZES_def)
    then show ?thesis using Page_size paging_wf [OF wf] ok(3) q by (simp add: on_query_def paging_ok_def)
  qed (use g wf q ok in \<open>simp_all add: on_query_def sort_click_wf option_toggle_wf text_commit_wf
        range_commit_wf clear_filters_wf paging_wf paging_ok_def\<close>)
qed

lemma run_wf:
  assumes "table_run vars eng s s'" "engine_ok eng" "wf_query vars (dt_query s)"
  shows "wf_query vars (dt_query s')"
  using assms by (induction rule: table_run.induct) (simp_all add: step_wf)

section \<open>What the table promises\<close>

text \<open>An engine with the documented behaviour, for the witnesses.\<close>

definition plain_set_filter :: "string \<Rightarrow> jv option \<Rightarrow> col_filter list \<Rightarrow> col_filter list" where
  "plain_set_filter i v fs =
     filter (\<lambda>f. fl_id f \<noteq> i) fs @ (case v of None \<Rightarrow> [] | Some w \<Rightarrow> [\<lparr>fl_id = i, fl_value = w\<rparr>])"

definition plain_engine :: engine where
  "plain_engine =
     \<lparr>getIsSorted = (\<lambda>i so. map_option (\<lambda>s. if so_desc s then Desc else Asc) (List.find (\<lambda>s. so_id s = i) so)),
      getFilterValue = (\<lambda>i fs. map_option fl_value (List.find (\<lambda>f. fl_id f = i) fs)),
      toggleSorting = (\<lambda>i d so. [\<lparr>so_id = i, so_desc = d\<rparr>]),
      clearSorting = (\<lambda>i so. filter (\<lambda>s. so_id s \<noteq> i) so),
      setFilterValue = plain_set_filter,
      setColumnFilters = (\<lambda>fs _. fs),
      setGlobalFilter = (\<lambda>s _. Some s),
      toggleVisibility = (\<lambda>i b v. put_prop i (JBool (case b of Some x \<Rightarrow> x | None \<Rightarrow> pget i v = JBool False)) v),
      toggleSelected = (\<lambda>i c sel. if c = Some False \<or> (c = None \<and> i \<in> set (map fst sel))
                          then filter (\<lambda>p. fst p \<noteq> i) sel else obj_put i True sel),
      toggleAllPageRowsSelected = (\<lambda>rows sel. if \<forall>r \<in> set rows. r \<in> set (map fst sel)
                          then filter (\<lambda>p. fst p \<notin> set rows) sel
                          else fold (\<lambda>r. obj_put r True) rows sel),
      clearSelection = (\<lambda>sel. []),
      setPageSize = (\<lambda>n p. (fst p * snd p div max 1 n, n)),
      previousPage = (\<lambda>p. (max 0 (fst p - 1), snd p)),
      nextPage = (\<lambda>r p. (fst p + 1, snd p))\<rparr>"

lemma ticked_put: "ticked (obj_put i b sel) = insert i (ticked sel)"
  using keys_obj_put [of i b sel] by (simp add: ticked_def)

lemma ticked_puts: "ticked (fold (\<lambda>r. obj_put r True) rows sel) = set rows \<union> ticked sel"
  by (induction rows arbitrary: sel) (auto simp: ticked_put)

lemma ticked_filter: "ticked (filter P sel) \<subseteq> ticked sel"
  by (auto simp: ticked_def)

lemma wf_put_prop: "json_wf v \<Longrightarrow> json_wf w \<Longrightarrow> json_wf (put_prop k w v)"
proof (cases v)
  case (JObj ps)
  assume v: "json_wf v" and w: "json_wf w"
  have "snd p = w \<or> p \<in> set ps" if "p \<in> set (obj_put k w ps)" for p
    using that by (induction k w ps rule: obj_put.induct) (auto split: if_splits)
  then show ?thesis using v w JObj distinct_obj_put [of ps k w]
    by (fastforce simp: put_prop_def)
qed (auto simp: put_prop_def)

lemma wf_drop_prop: "json_wf v \<Longrightarrow> json_wf (drop_prop k v)"
  by (cases v) (auto simp: drop_prop_def distinct_map_filter)

lemma plain_engine_ok: "engine_ok plain_engine"
proof -
  have "sorting_ok plain_engine" by (auto simp: sorting_ok_def plain_engine_def)
  moreover have "\<lparr>fl_id = i, fl_value = fl_value z\<rparr> \<in> set fs"
    if "List.find (\<lambda>f. fl_id f = i) fs = Some z" for i fs z
    using find_Some_mem [OF that] by (cases z) auto
  then have "filters_ok plain_engine"
    by (auto simp: filters_ok_def plain_engine_def plain_set_filter_def filter_empty_conv split: option.splits)
  moreover have "paging_ok plain_engine"
    by (auto simp: paging_ok_def plain_engine_def div_int_pos_iff)
  moreover have "ticking_ok plain_engine"
    using ticked_filter by (auto simp: ticking_ok_def plain_engine_def ticked_put ticked_puts) (auto simp: ticked_def)
  ultimately show ?thesis
    by (simp add: engine_ok_def plain_engine_def wf_put_prop)
qed

text \<open>
  C25: Whatever is done to a table from a state its address can hold (sorting, ticking the
  options of a filter, typing a text or bounds, clearing, paging), the state it reaches is
  written to the address and read back from there unchanged.
\<close>

theorem table_address_reads_back:
  assumes "engine_ok eng" and "table_run vars eng s s'" and "wf_query vars (dt_query s)"
  shows "sbind (serializeTableQuery (dt_query s') vars pageSize) (\<lambda>ps. parseTableQuery ps vars pageSize)
    = Inr (dt_query s')"
  by (rule table_query_reads_back [OF run_wf [OF assms(2,1,3)]])

definition opened_table :: table_state where
  "opened_table =
     \<lparr>dt_query = emptyTableQuery 50, dt_data = [''a'', ''b''], dt_rowCount = 2, dt_rowSelection = [],
      dt_visibility = JObj [], dt_sizing = JObj []\<rparr>"

definition some_gestures :: "gesture list" where
  "some_gestures =
     [Option_click ''level'' None ''error'', Option_click ''level'' None ''fatal'', Range_commit ''events'' ''10'' [],
      Sort_click ''events'' Desc, Page_size 100, Tick ''b'' True, Rows_arrive [''a''] 1, Next_page]"

theorem table_address_reads_back_witness:
  "let q = dt_query (gestures plain_engine opened_table some_gestures)
   in tq_pageIndex q = 1 \<and> length (tq_filters q) = 2 \<and>
      sbind (serializeTableQuery q sample_variants 50) (\<lambda>ps. parseTableQuery ps sample_variants 50) = Inr q"
proof -
  have keys: "column_key sample_variants ''level'' V_options" "column_key sample_variants ''events'' V_range"
    by (simp_all add: column_key_def sample_variants_def obj_lookup_def is_key_char_def is_alnum_def
        is_lower_def is_upper_def is_digit_def)
  have "int_str 10 = ''10''" by code_simp
  then have ten: "js_Number ''10'' = Fin 10" using js_Number_int_str [of 10] by simp
  then have bound: "whole_or_no_number ''10''" by (simp add: whole_or_no_number_def)
  have offered: "offered_all sample_variants plain_engine opened_table some_gestures"
    using keys bound
    by (simp add: some_gestures_def whole_or_no_number_def [of "[]"] wf_sort_def starts_with_def PAGE_SIZES_def
        is_line_end_def opened_table_def on_query_def)
  have wf: "wf_query sample_variants (dt_query opened_table)"
    by (simp add: opened_table_def emptyTableQuery_def wf_query_def wf_filters_def wf_search_def)
  have "sbind (serializeTableQuery (dt_query (gestures plain_engine opened_table some_gestures)) sample_variants 50)
      (\<lambda>ps. parseTableQuery ps sample_variants 50) = Inr (dt_query (gestures plain_engine opened_table some_gestures))"
    by (rule table_address_reads_back [OF plain_engine_ok run_of_gestures [OF offered table_run.start] wf])
  then show ?thesis using ten
    by (simp add: gestures_def some_gestures_def opened_table_def emptyTableQuery_def plain_engine_def
        on_query_def option_toggle_def onColumnFiltersChange_def plain_set_filter_def selected_values_def
        range_commit_def bound_of_def sort_section_click_def onSortingChange_def onPaginationChange_def)
qed

lemma ticked_prune: "ticked (prune data sel) \<subseteq> set data \<inter> ticked sel"
proof (cases "length (filter (\<lambda>i. i \<in> set data) (map fst sel)) = length sel")
  case True
  have "i \<in> set data" if "i \<in> set (map fst sel)" for i
  proof (rule ccontr)
    assume "i \<notin> set data"
    from length_filter_less [where P = "\<lambda>i. i \<in> set data", OF that this] show False using True by simp
  qed
  then have "set (map fst sel) \<subseteq> set data" by blast
  then show ?thesis using True by (simp add: prune_def ticked_def)
qed (auto simp: prune_def ticked_def)

lemma step_ticked:
  assumes eng: "engine_ok eng" and g: "offered vars s g"
    and t: "ticked (dt_rowSelection s) \<subseteq> set (dt_data s)"
  shows "ticked (dt_rowSelection (gesture_step eng s g)) \<subseteq> set (dt_data (gesture_step eng s g))"
proof -
  have ok: "ticked (toggleSelected eng i c sel) \<subseteq> insert i (ticked sel)"
    "ticked (toggleAllPageRowsSelected eng rows sel) \<subseteq> set rows \<union> ticked sel"
    "ticked (clearSelection eng sel) \<subseteq> ticked sel" for i c rows sel
    using eng by (simp_all add: engine_ok_def ticking_ok_def)
  show ?thesis
  proof (cases g)
    case (Tick i c)
    then show ?thesis using g t ok(1) [of i "Some c" "dt_rowSelection s"] by auto
  next
    case (Row_key modified key i)
    then show ?thesis using g t ok(1) [of i None "dt_rowSelection s"] by auto
  next
    case Tick_page
    then show ?thesis using t ok(2) [of "dt_data s" "dt_rowSelection s"] by auto
  next
    case Clear_selection
    then show ?thesis using t ok(3) [of "dt_rowSelection s"] by auto
  next
    case (Rows_arrive rows n)
    then show ?thesis using ticked_prune [of rows "dt_rowSelection s"] by auto
  qed (use t in \<open>simp_all add: on_query_def\<close>)
qed

text \<open>
  At every moment the rows that are ticked are rows of the page: rows that a new page, a
  narrower filter or a refetch takes away lose their tick, so an action on the selection never
  touches a row nobody sees.
\<close>

theorem ticked_rows_are_on_the_page:
  assumes "engine_ok eng" and "table_run vars eng s s'" and "ticked (dt_rowSelection s) \<subseteq> set (dt_data s)"
  shows "ticked (dt_rowSelection s') \<subseteq> set (dt_data s')"
  using assms(2,1,3) by (induction rule: table_run.induct) (simp_all add: step_ticked)

theorem ticked_rows_are_on_the_page_witness:
  "let s = gestures plain_engine opened_table [Tick_page, Tick ''a'' False, Rows_arrive [''b'', ''c''] 3, Row_key False ''x'' ''c'']
   in ticked (dt_rowSelection s) = {''b'', ''c''} \<and> ticked (dt_rowSelection s) \<subseteq> set (dt_data s)"
proof -
  let ?gs = "[Tick_page, Tick ''a'' False, Rows_arrive [''b'', ''c''] 3, Row_key False ''x'' ''c'']"
  have offered: "offered_all sample_variants plain_engine opened_table ?gs"
    by (simp add: opened_table_def)
  have "ticked (dt_rowSelection (gestures plain_engine opened_table ?gs))
      \<subseteq> set (dt_data (gestures plain_engine opened_table ?gs))"
    by (rule ticked_rows_are_on_the_page [OF plain_engine_ok run_of_gestures [OF offered table_run.start]])
       (simp add: opened_table_def ticked_def)
  moreover have "ticked (dt_rowSelection (gestures plain_engine opened_table ?gs)) = {''b'', ''c''}"
    by (auto simp: gestures_def opened_table_def plain_engine_def prune_def handleRowKey_def ticked_def)
  ultimately show ?thesis by simp
qed

text \<open>A new question is asked from its first page, with the page size that stood.\<close>

definition question :: "table_query \<Rightarrow> sorting list \<times> col_filter list \<times> string" where
  "question q = (tq_sorting q, tq_filters q, tq_search q)"

lemma new_question_rewinds:
  assumes "question (dt_query (gesture_step eng s g)) \<noteq> question (dt_query s)"
  shows "tq_pageIndex (dt_query (gesture_step eng s g)) = 0
     \<and> tq_pageSize (dt_query (gesture_step eng s g)) = tq_pageSize (dt_query s)"
  using assms
  by (cases g) (auto simp: on_query_def sort_section_click_def option_toggle_def text_commit_def range_commit_def
      onSortingChange_def onColumnFiltersChange_def onGlobalFilterChange_def onPaginationChange_def question_def
      Let_def case_prod_beta split: if_splits)

section \<open>The layout of the next visit\<close>

definition layout_wf :: "table_state \<Rightarrow> bool" where
  "layout_wf s \<longleftrightarrow> json_wf (dt_visibility s) \<and> dt_visibility s \<noteq> JNull
     \<and> json_wf (dt_sizing s) \<and> dt_sizing s \<noteq> JNull"

lemma resize_wf: "json_wf v \<Longrightarrow> json_wf (resize i n v)"
  unfolding resize_def by (intro wf_put_prop) (simp_all add: as_integer_def)

lemma object_not_null: "resize i n v \<noteq> JNull" "drop_prop i v \<noteq> JNull"
  by (cases v; simp add: resize_def put_prop_def drop_prop_def)+

lemma width_at_least: "\<exists>w. pget i (resize i n v) = JNum (Fin (of_int w)) \<and> MIN_WIDTH \<le> w"
  by (cases v) (auto simp: resize_def put_prop_def pget_def map_of_obj_put intro!: exI [of _ "max MIN_WIDTH (js_round n)"])

lemma step_layout_wf:
  assumes "engine_ok eng" "\<And>i b v. toggleVisibility eng i b v \<noteq> JNull" "layout_wf s"
  shows "layout_wf (gesture_step eng s g)"
  using assms
  by (cases g) (auto simp: layout_wf_def on_query_def engine_ok_def resize_wf wf_drop_prop object_not_null)

lemma run_layout_wf:
  assumes "table_run vars eng s s'" "engine_ok eng" "\<And>i b v. toggleVisibility eng i b v \<noteq> JNull" "layout_wf s"
  shows "layout_wf s'"
  using assms by (induction rule: table_run.induct) (simp_all add: step_layout_wf)

text \<open>Which columns are hidden and how wide the others were dragged is what the next visit opens with.\<close>

lemma layout_survives_the_visit:
  assumes "table_run vars eng s s'" "engine_ok eng" "\<And>i b v. toggleVisibility eng i b v \<noteq> JNull" "layout_wf s"
    and "k \<noteq> []"
  shows "initial_visibility (writeLayout (Some k) s' (Some st)) (Some k) fallback = dt_visibility s'"
    "initial_sizing (writeLayout (Some k) s' (Some st)) (Some k) = dt_sizing s'"
proof -
  have wf: "layout_wf s'" by (rule run_layout_wf [OF assms(1-4)])
  then have "readLayout (writeLayout (Some k) s' (Some st)) (Some k)
      = JObj [(''visibility'', dt_visibility s'), (''sizing'', dt_sizing s')]"
    by (intro layout_reads_back) (simp_all add: layout_wf_def assms(5))
  then show "initial_visibility (writeLayout (Some k) s' (Some st)) (Some k) fallback = dt_visibility s'"
    "initial_sizing (writeLayout (Some k) s' (Some st)) (Some k) = dt_sizing s'"
    using wf by (cases "dt_visibility s'"; cases "dt_sizing s'";
        simp add: initial_visibility_def initial_sizing_def layout_part_def pget_def layout_wf_def)+
qed

text \<open>The figures in the foot agree on a page that exists.\<close>

lemma shown_range:
  assumes "0 < tq_pageSize q" "0 \<le> tq_pageIndex q" "tq_pageIndex q * tq_pageSize q < n"
  shows "1 \<le> first_shown n q" "first_shown n q \<le> last_shown n q" "last_shown n q \<le> n"
    "last_shown n q - first_shown n q < tq_pageSize q"
proof -
  define x where "x = tq_pageIndex q * tq_pageSize q"
  have x: "0 \<le> x" "x < n" "(tq_pageIndex q + 1) * tq_pageSize q = x + tq_pageSize q"
    using assms by (simp_all add: x_def algebra_simps)
  then show "1 \<le> first_shown n q" "first_shown n q \<le> last_shown n q" "last_shown n q \<le> n"
    "last_shown n q - first_shown n q < tq_pageSize q"
    using assms(1) unfolding first_shown_def last_shown_def x(3) x_def [symmetric] by auto
qed

end
