(* ===== verification/MessageTemplate.thy ===== *)
theory MessageTemplate
  imports Json
begin

text \<open>
  The custom webhook's message body: \<open>features/alert/model/message-template.ts\<close> (the fields
  and the bodies the editor offers), \<open>features/alert/lib/format-template.ts\<close> (indenting a
  body whose expressions are set aside), \<open>template-diagnostic.ts\<close> (where an error message
  points), \<open>template-completion.ts\<close> (the expression the caret is in) and
  \<open>template-pills.ts\<close> (the expressions of a body).
\<close>

section \<open>Fields and bodies\<close>

datatype variable_group = G_issue | G_project | G_alert

record template_variable =
  tv_path :: string
  tv_snippet :: string
  tv_detail :: string
  tv_descriptionKey :: string
  tv_example :: string
  tv_group :: variable_group

definition variable :: "variable_group \<Rightarrow> string \<Rightarrow> string \<Rightarrow> string \<Rightarrow> template_variable" where
  "variable grp path detail example =
     \<lparr>tv_path = path, tv_snippet = ''{{ '' @ path @ '' }}'', tv_detail = detail,
      tv_descriptionKey = path, tv_example = example, tv_group = grp\<rparr>"

definition TEMPLATE_VARIABLES :: "template_variable list" where
  "TEMPLATE_VARIABLES =
     [variable G_issue ''issue.title'' ''string'' ''Sample issue'',
      variable G_issue ''issue.short_id'' ''string'' ''SAMPLE-1'',
      variable G_issue ''issue.level'' ''string | null'' ''error'',
      variable G_issue ''issue.event_count'' ''number'' ''1'',
      variable G_issue ''issue_url'' ''string'' ''https://rustrak.example/issues/sample'',
      variable G_issue ''issue.id'' ''string'' ''00000000-0000-0000-0000-000000000000'',
      variable G_issue ''issue.first_seen'' ''timestamp'' ''2026-01-01T00:00:00Z'',
      variable G_issue ''issue.last_seen'' ''timestamp'' ''2026-01-01T00:00:00Z'',
      variable G_project ''project.name'' ''string'' ''Sample Project'',
      variable G_project ''project.slug'' ''string'' ''sample-project'',
      variable G_project ''project.id'' ''number'' ''1'',
      variable G_alert ''alert_type'' ''string'' ''new_issue'',
      variable G_alert ''alert_id'' ''string'' ''00000000-0000-0000-0000-000000000000'',
      variable G_alert ''triggered_at'' ''timestamp'' ''2026-01-01T00:00:00Z'',
      variable G_alert ''actor'' ''string'' ''Rustrak'']"

definition TEMPLATE_VARIABLE_GROUPS :: "variable_group list" where
  "TEMPLATE_VARIABLE_GROUPS = [G_issue, G_project, G_alert]"

definition isKnownVariable :: "string \<Rightarrow> bool" where
  "isKnownVariable path \<longleftrightarrow> path \<in> set (map tv_path TEMPLATE_VARIABLES)"

record template_preset =
  tp_id :: string
  tp_name :: string
  tp_descriptionKey :: string
  tp_body :: string

definition preset :: "string \<Rightarrow> string \<Rightarrow> string \<Rightarrow> template_preset" where
  "preset i name body = \<lparr>tp_id = i, tp_name = name, tp_descriptionKey = i, tp_body = body\<rparr>"

text \<open>The bodies line by line; \<open>bn\<close> is the escape of a line end inside a JSON string.\<close>

definition bn :: string where
  "bn = [CHR 0x5C, CHR ''n'']"

definition body_minimal :: string where
  "body_minimal = join_with [CHR 0x0A]
     [''{'',
      ''  \"text\": \"Rustrak: {{ issue.title }} ({{ issue.short_id }})'' @ bn @ ''{{ issue_url }}\"'',
      ''}'']"

definition body_slack :: string where
  "body_slack = join_with [CHR 0x0A]
     [''{'',
      ''  \"text\": \"*{{ issue.title }}* ({{ issue.short_id }})'' @ bn @ ''{{ issue_url }}\"'',
      ''}'']"

definition body_discord :: string where
  "body_discord = join_with [CHR 0x0A]
     [''{'',
      ''  \"content\": \"**{{ issue.title }}** ({{ issue.short_id }})'' @ bn @ ''{{ issue_url }}\"'',
      ''}'']"

definition body_teams :: string where
  "body_teams = join_with [CHR 0x0A]
     [''{'',
      ''  \"type\": \"message\",'',
      ''  \"attachments\": ['',
      ''    {'',
      ''      \"contentType\": \"application/vnd.microsoft.card.adaptive\",'',
      ''      \"content\": {'',
      ''        \"type\": \"AdaptiveCard\",'',
      ''        \"version\": \"1.4\",'',
      ''        \"body\": ['',
      ''          {'',
      ''            \"type\": \"TextBlock\",'',
      ''            \"text\": \"{{ issue.title }}\",'',
      ''            \"weight\": \"Bolder\",'',
      ''            \"size\": \"Medium\",'',
      ''            \"wrap\": true'',
      ''          },'',
      ''          {'',
      ''            \"type\": \"TextBlock\",'',
      ''            \"text\": \"{{ project.name }} '' @ [CHR 0xB7] @ '' {{ issue.short_id }} '' @ [CHR 0xB7] @ '' {{ issue.event_count }} events\",'',
      ''            \"isSubtle\": true,'',
      ''            \"wrap\": true'',
      ''          }'',
      ''        ],'',
      ''        \"actions\": ['',
      ''          {'',
      ''            \"type\": \"Action.OpenUrl\",'',
      ''            \"title\": \"View issue\",'',
      ''            \"url\": \"{{ issue_url }}\"'',
      ''          }'',
      ''        ]'',
      ''      }'',
      ''    }'',
      ''  ]'',
      ''}'']"

definition body_wecom :: string where
  "body_wecom = join_with [CHR 0x0A]
     [''{'',
      ''  \"msgtype\": \"text\",'',
      ''  \"text\": {'',
      ''    \"content\": \"Rustrak: {{ issue.title }} ({{ issue.short_id }})'' @ bn @ ''{{ issue_url }}\"'',
      ''  }'',
      ''}'']"

definition body_wecomMarkdown :: string where
  "body_wecomMarkdown = join_with [CHR 0x0A]
     [''{'',
      ''  \"msgtype\": \"markdown\",'',
      ''  \"markdown\": {'',
      ''    \"content\": \"### {{ issue.title }}'' @ bn @ ''> Project: {{ project.name }}'' @ bn @ ''> Level: {{ issue.level }}'' @ bn @ ''> [View issue]({{ issue_url }})\"'',
      ''  }'',
      ''}'']"

definition body_dingtalk :: string where
  "body_dingtalk = join_with [CHR 0x0A]
     [''{'',
      ''  \"msgtype\": \"text\",'',
      ''  \"text\": {'',
      ''    \"content\": \"Rustrak: {{ issue.title }} ({{ issue.short_id }})'' @ bn @ ''{{ issue_url }}\"'',
      ''  }'',
      ''}'']"

definition body_feishu :: string where
  "body_feishu = join_with [CHR 0x0A]
     [''{'',
      ''  \"msg_type\": \"text\",'',
      ''  \"content\": {'',
      ''    \"text\": \"Rustrak: {{ issue.title }} ({{ issue.short_id }})'' @ bn @ ''{{ issue_url }}\"'',
      ''  }'',
      ''}'']"

definition body_structured :: string where
  "body_structured = join_with [CHR 0x0A]
     [''{'',
      ''  \"source\": \"rustrak\",'',
      ''  \"event\": {{ alert_type }},'',
      ''  \"severity\": {{ issue.level }},'',
      ''  \"title\": {{ issue.title }},'',
      ''  \"url\": {{ issue_url }},'',
      ''  \"occurrences\": {{ issue.event_count }},'',
      ''  \"project\": {{ project.slug }}'',
      ''}'']"

definition TEMPLATE_PRESETS :: "template_preset list" where
  "TEMPLATE_PRESETS =
     [preset ''minimal'' ''Minimal'' body_minimal,
      preset ''slack'' ''Slack-compatible'' body_slack,
      preset ''discord'' ''Discord'' body_discord,
      preset ''teams'' ''Microsoft Teams'' body_teams,
      preset ''wecom'' ''WeCom'' body_wecom,
      preset ''wecomMarkdown'' ''WeCom markdown'' body_wecomMarkdown,
      preset ''dingtalk'' ''DingTalk'' body_dingtalk,
      preset ''feishu'' ''Feishu / Lark'' body_feishu,
      preset ''structured'' ''Structured JSON'' body_structured]"

section \<open>Setting expressions aside\<close>

text \<open>
  What the scan makes of a body: text it keeps (one character, or an escape inside a
  string) and expressions, each with the token that stands for it.
\<close>

datatype piece = Keep string | Expr string string

definition stringToken :: "nat \<Rightarrow> string" where
  "stringToken index = ''__rustrak_str_'' @ nat_str index @ ''__''"

definition valueToken :: "nat \<Rightarrow> string" where
  "valueToken index = CHR 0x22 # ''__rustrak_val_'' @ nat_str index @ ''__'' @ [CHR 0x22]"

function park :: "bool \<Rightarrow> nat \<Rightarrow> string \<Rightarrow> piece list" where
  "park inString n [] = []"
| "park inString n (c # r) =
     (if inString \<and> c = CHR 0x5C then Keep (c # take 1 r) # park inString n (drop 1 r)
      else
        let inString' = (if c = CHR 0x22 then \<not> inString else inString)
        in case (if c = CHR 0x7B \<and> starts_with [CHR 0x7B] r
                 then index_of [CHR 0x7D, CHR 0x7D] (tl r) else None) of
             None \<Rightarrow> Keep [c] # park inString' n r
           | Some i \<Rightarrow>
               Expr (take (i + 4) (c # r)) (if inString' then stringToken n else valueToken n) #
                 park inString' (n + 1) (drop (i + 4) (c # r)))"
  by pat_completeness auto
termination by (relation "measure (\<lambda>(q, n, s). length s)") auto

declare park.simps [simp del]

fun piece_source :: "piece \<Rightarrow> string" where
  "piece_source (Keep s) = s"
| "piece_source (Expr t token) = t"

fun piece_parked :: "piece \<Rightarrow> string" where
  "piece_parked (Keep s) = s"
| "piece_parked (Expr t token) = token"

fun piece_expression :: "piece \<Rightarrow> (string \<times> string) option" where
  "piece_expression (Keep s) = None"
| "piece_expression (Expr t token) = Some (t, token)"

definition parkExpressions :: "string \<Rightarrow> string \<times> (string \<times> string) list" where
  "parkExpressions template =
     (let ps = park False 0 template
      in (concat (map piece_parked ps), List.map_filter piece_expression ps))"

definition templateParses :: "string \<Rightarrow> bool" where
  "templateParses template \<longleftrightarrow> json_parse (fst (parkExpressions template)) \<noteq> None"

section \<open>Formatting\<close>

text \<open>\<open>JSON.stringify(v, null, 2)\<close>.\<close>

definition indent :: "nat \<Rightarrow> string" where
  "indent d = replicate (2 * d) (CHR '' '')"

fun json_pretty :: "nat \<Rightarrow> jv \<Rightarrow> string" where
  "json_pretty d (JArr vs) =
     (if vs = [] then ''[]''
      else ''['' @ [CHR 0x0A] @
           join_with ('','' @ [CHR 0x0A]) (map (\<lambda>v. indent (d + 1) @ json_pretty (d + 1) v) vs) @
           [CHR 0x0A] @ indent d @ '']'')"
| "json_pretty d (JObj ps) =
     (if ps = [] then [CHR 0x7B, CHR 0x7D]
      else [CHR 0x7B, CHR 0x0A] @
           join_with ('','' @ [CHR 0x0A])
             (map (\<lambda>(k, v). indent (d + 1) @ json_quote k @ '': '' @ json_pretty (d + 1) v) ps) @
           [CHR 0x0A] @ indent d @ [CHR 0x7D])"
| "json_pretty d v = json_text v"

text \<open>
  \<open>text.replace(pattern, replacement)\<close> with strings: the first occurrence, and in the
  replacement a dollar sign followed by \<open>$\<close>, \<open>&\<close>, a backquote or a quote means itself, the
  match, what precedes it and what follows it.
\<close>

fun substitution :: "string \<Rightarrow> string \<Rightarrow> string \<Rightarrow> string \<Rightarrow> string" where
  "substitution before pat after [] = []"
| "substitution before pat after (c # r) =
     (if c = CHR ''$'' then
        (case r of
           [] \<Rightarrow> [c]
         | d # r' \<Rightarrow>
             if d = CHR ''$'' then CHR ''$'' # substitution before pat after r'
             else if d = CHR ''&'' then pat @ substitution before pat after r'
             else if d = CHR 0x60 then before @ substitution before pat after r'
             else if d = CHR 0x27 then after @ substitution before pat after r'
             else c # substitution before pat after (d # r'))
      else c # substitution before pat after r)"

definition replace_first :: "string \<Rightarrow> string \<Rightarrow> string \<Rightarrow> string" where
  "replace_first s pat rep =
     (case index_of pat s of
        None \<Rightarrow> s
      | Some i \<Rightarrow>
          take i s @ substitution (take i s) pat (drop (i + length pat) s) rep @ drop (i + length pat) s)"

definition formatTemplate :: "string \<Rightarrow> string" where
  "formatTemplate template =
     (let (parked, expressions) = parkExpressions template
      in case json_parse parked of
           None \<Rightarrow> template
         | Some v \<Rightarrow> foldl (\<lambda>s (t, token). replace_first s token t) (json_pretty 0 v) expressions)"

lemma park_sources: "concat (map piece_source (park q n s)) = s"
proof (induction q n s rule: park.induct)
  case (2 q n c r)
  show ?case
  proof (cases "q \<and> c = CHR 0x5C")
    case True
    then show ?thesis using 2(1) by (simp add: park.simps(2))
  next
    case False
    define e where "e = (if c = CHR 0x7B \<and> starts_with [CHR 0x7B] r
        then index_of [CHR 0x7D, CHR 0x7D] (tl r) else None)"
    note unf = park.simps(2) [of q n c r, unfolded if_not_P [OF False] Let_def, folded e_def]
    show ?thesis
    proof (cases e)
      case None
      then show ?thesis using 2(2) [OF False refl e_def [symmetric, THEN trans]] unf by simp
    next
      case (Some i)
      then show ?thesis using 2(3) [OF False refl e_def [symmetric, THEN trans]] unf by simp
    qed
  qed
qed (simp add: park.simps)

lemma parked_text: "fst (parkExpressions template) = concat (map piece_parked (park False 0 template))"
  by (simp add: parkExpressions_def Let_def)

lemma format_unparsed: "\<not> templateParses template \<Longrightarrow> formatTemplate template = template"
  by (auto simp: templateParses_def formatTemplate_def split: prod.splits option.splits)

text \<open>
  Formatting rewrites an expression that holds two dollar signs: they are a pattern of the
  replacement, and one is left.
\<close>

lemma format_halves_dollars:
  "formatTemplate ''{{ price ~ $$ }}'' = ''{{ price ~ $ }}''"
  by code_simp

section \<open>Where an error points\<close>

record range =
  rg_from :: nat
  rg_to :: nat

definition newline :: string where
  "newline = [CHR 0x0A]"

text \<open>\<open>doc.indexOf(newline, offset)\<close>.\<close>

definition newline_from :: "string \<Rightarrow> nat \<Rightarrow> nat option" where
  "newline_from doc offset = map_option (\<lambda>i. offset + i) (index_of newline (drop offset doc))"

fun skip_lines :: "string \<Rightarrow> nat \<Rightarrow> nat \<Rightarrow> nat option" where
  "skip_lines doc offset 0 = (if offset \<le> length doc then Some offset else None)"
| "skip_lines doc offset (Suc n) =
     (case newline_from doc offset of None \<Rightarrow> None | Some next \<Rightarrow> skip_lines doc (next + 1) n)"

definition lineStart :: "string \<Rightarrow> nat \<Rightarrow> nat option" where
  "lineStart doc line = skip_lines doc 0 (line - 1)"

definition wholeLine :: "string \<Rightarrow> nat \<Rightarrow> range" where
  "wholeLine doc line =
     (case lineStart doc line of
        None \<Rightarrow> \<lparr>rg_from = length doc, rg_to = length doc\<rparr>
      | Some from \<Rightarrow>
          \<lparr>rg_from = from,
           rg_to = (case newline_from doc from of None \<Rightarrow> length doc | Some n \<Rightarrow> n)\<rparr>)"

definition characterAt :: "string \<Rightarrow> nat \<Rightarrow> nat \<Rightarrow> range" where
  "characterAt doc line column =
     (case lineStart doc line of
        None \<Rightarrow> \<lparr>rg_from = length doc, rg_to = length doc\<rparr>
      | Some start \<Rightarrow>
          let from = min (start + (column - 1)) (length doc)
          in \<lparr>rg_from = from, rg_to = min (from + 1) (length doc)\<rparr>)"

text \<open>\<open>/line (\d+) column (\d+)/\<close> at the start of a text, and its first match in a message.\<close>

definition line_column_here :: "string \<Rightarrow> (nat \<times> nat) option" where
  "line_column_here s =
     (if \<not> starts_with ''line '' s then None
      else
        let l = takeWhile is_digit (drop 5 s); r = dropWhile is_digit (drop 5 s);
            c = takeWhile is_digit (drop 8 r)
        in if l \<noteq> [] \<and> starts_with '' column '' r \<and> c \<noteq> [] then Some (digits_val l, digits_val c) else None)"

fun line_column :: "string \<Rightarrow> (nat \<times> nat) option" where
  "line_column [] = None"
| "line_column (c # s) =
     (case line_column_here (c # s) of Some m \<Rightarrow> Some m | None \<Rightarrow> line_column s)"

definition is_word :: "char \<Rightarrow> bool" where
  "is_word c \<longleftrightarrow> is_alnum c \<or> c = CHR ''_''"

text \<open>\<open>/\bbody:(\d+)/\<close>: the flag says whether the character before is a word's.\<close>

fun body_line :: "bool \<Rightarrow> string \<Rightarrow> nat option" where
  "body_line after [] = None"
| "body_line after (c # s) =
     (if \<not> after \<and> starts_with ''body:'' (c # s) \<and> takeWhile is_digit (drop 5 (c # s)) \<noteq> []
      then Some (digits_val (takeWhile is_digit (drop 5 (c # s))))
      else body_line (is_word c) s)"

definition locateTemplateError :: "string \<Rightarrow> string \<Rightarrow> range" where
  "locateTemplateError doc message =
     (case line_column message of
        Some (line, column) \<Rightarrow> characterAt doc line column
      | None \<Rightarrow>
          (case body_line False message of
             Some line \<Rightarrow> wholeLine doc line
           | None \<Rightarrow> \<lparr>rg_from = 0, rg_to = length doc\<rparr>))"

lemma newline_from_bound: "newline_from doc offset = Some n \<Longrightarrow> offset \<le> n \<and> n < length doc"
  using index_of_bound [of newline "drop offset doc"] by (auto simp: newline_from_def newline_def)

lemma skip_lines_bound: "skip_lines doc offset n = Some from \<Longrightarrow> from \<le> length doc"
  by (induction doc offset n rule: skip_lines.induct) (auto split: if_splits option.splits)

lemma newline_from_first:
  assumes "newline_from doc offset = Some n" and "offset \<le> i" and "i < n"
  shows "doc ! i \<noteq> CHR 0x0A"
proof -
  have first: "index_of newline s = Some k \<Longrightarrow> j < k \<Longrightarrow> s ! j \<noteq> CHR 0x0A" for s j k
    by (induction s arbitrary: j k)
      (auto simp: newline_def starts_with_def nth_Cons split: if_splits nat.splits)
  obtain k where "index_of newline (drop offset doc) = Some k" "n = offset + k"
    using assms(1) by (auto simp: newline_from_def)
  then show ?thesis
    using first [of "drop offset doc" k "i - offset"] assms newline_from_bound [OF assms(1)] by simp
qed

text \<open>
  An error is located inside the body, whatever the message says: the range begins
  before it ends and ends with the body at the latest, marks at most one character for a
  line and a column, and never runs over a line end for a line.
\<close>

theorem error_located_in_body:
  "rg_from (locateTemplateError doc message) \<le> rg_to (locateTemplateError doc message) \<and>
   rg_to (locateTemplateError doc message) \<le> length doc \<and>
   (line_column message \<noteq> None \<longrightarrow>
      rg_to (locateTemplateError doc message) \<le> rg_from (locateTemplateError doc message) + 1) \<and>
   (line_column message = None \<and> body_line False message \<noteq> None \<longrightarrow>
      (\<forall>i. rg_from (locateTemplateError doc message) \<le> i \<and> i < rg_to (locateTemplateError doc message) \<and>
         newline_from doc (rg_from (locateTemplateError doc message)) \<noteq> None \<longrightarrow> doc ! i \<noteq> CHR 0x0A))"
proof -
  have ch: "rg_from (characterAt doc l c) \<le> rg_to (characterAt doc l c) \<and>
      rg_to (characterAt doc l c) \<le> length doc \<and>
      rg_to (characterAt doc l c) \<le> rg_from (characterAt doc l c) + 1" for l c
    by (auto simp: characterAt_def Let_def split: option.splits)
  have wl: "rg_from (wholeLine doc l) \<le> rg_to (wholeLine doc l) \<and> rg_to (wholeLine doc l) \<le> length doc" for l
    using skip_lines_bound newline_from_bound
    by (fastforce simp: wholeLine_def lineStart_def split: option.splits)
  have nl: "doc ! i \<noteq> CHR 0x0A"
    if "rg_from (wholeLine doc l) \<le> i" "i < rg_to (wholeLine doc l)"
      "newline_from doc (rg_from (wholeLine doc l)) \<noteq> None" for l i
    using that newline_from_first [of doc] by (auto simp: wholeLine_def split: option.splits)
  show ?thesis
    using ch wl nl unfolding locateTemplateError_def
    by (cases "line_column message"; cases "body_line False message") (auto split: prod.splits)
qed

theorem error_located_in_body_witness:
  "locateTemplateError ''ab'' ''unexpected end at line 1 column 9'' = \<lparr>rg_from = 2, rg_to = 2\<rparr> \<and>
   rg_to (locateTemplateError ''ab'' ''unexpected end at line 1 column 9'') \<le> length ''ab''"
proof -
  have "locateTemplateError ''ab'' ''unexpected end at line 1 column 9'' = \<lparr>rg_from = 2, rg_to = 2\<rparr>"
    by code_simp
  with error_located_in_body [of "''ab''" "''unexpected end at line 1 column 9''"] show ?thesis by simp
qed

section \<open>The expression at the caret\<close>

record open_expression =
  oe_from :: nat
  oe_word :: string
  oe_fresh :: bool

definition is_path_char :: "char \<Rightarrow> bool" where
  "is_path_char c \<longleftrightarrow> is_word c \<or> c = CHR ''.''"

text \<open>\<open>doc.lastIndexOf('{{', caret)\<close>: the last start at or before the caret.\<close>

fun last_open :: "string \<Rightarrow> nat \<Rightarrow> nat option" where
  "last_open doc 0 = (if starts_with [CHR 0x7B, CHR 0x7B] doc then Some 0 else None)"
| "last_open doc (Suc i) =
     (if starts_with [CHR 0x7B, CHR 0x7B] (drop (Suc i) doc) then Some (Suc i) else last_open doc i)"

fun word_start :: "string \<Rightarrow> nat \<Rightarrow> nat \<Rightarrow> nat" where
  "word_start doc lo 0 = 0"
| "word_start doc lo (Suc i) =
     (if lo < Suc i \<and> i < length doc \<and> is_path_char (doc ! i) then word_start doc lo i else Suc i)"

definition slice :: "nat \<Rightarrow> nat \<Rightarrow> string \<Rightarrow> string" where
  "slice a b s = take (b - a) (drop a s)"

definition expressionAt :: "string \<Rightarrow> nat \<Rightarrow> open_expression option" where
  "expressionAt doc caret =
     (case last_open doc caret of
        None \<Rightarrow> None
      | Some op \<Rightarrow>
          let close = map_option (\<lambda>i. op + i) (index_of [CHR 0x7D, CHR 0x7D] (drop op doc))
          in if (case close of Some c \<Rightarrow> c < caret | None \<Rightarrow> False) then None
             else
               let from = word_start doc (op + 2) caret;
                   word = slice from caret doc
               in Some \<lparr>oe_from = from, oe_word = word,
                        oe_fresh = (word = [] \<and> trim (slice (op + 2) caret doc) = [])\<rparr>)"

lemma word_start_le: "word_start doc lo i \<le> i"
  by (induction doc lo i rule: word_start.induct) auto

lemma word_start_chars:
  "word_start doc lo i \<le> j \<Longrightarrow> j < i \<Longrightarrow> j < length doc \<and> is_path_char (doc ! j)"
proof (induction doc lo i rule: word_start.induct)
  case (2 doc lo i)
  then show ?case by (cases "j = i") (auto split: if_splits)
qed simp

lemma open_word_is_path:
  assumes "expressionAt doc caret = Some e"
  shows "oe_from e + length (oe_word e) = caret \<and> (\<forall>c \<in> set (oe_word e). is_path_char c)"
proof -
  obtain op where e: "oe_from e = word_start doc (op + 2) caret"
      "oe_word e = slice (word_start doc (op + 2) caret) caret doc"
    using assms by (auto simp: expressionAt_def Let_def split: option.splits if_splits)
  let ?f = "word_start doc (op + 2) caret"
  have inside: "j < length doc \<and> is_path_char (doc ! j)" if "?f \<le> j" "j < caret" for j
    using word_start_chars that by blast
  have "?f = caret \<or> caret \<le> length doc"
    using inside [of "caret - 1"] word_start_le [of doc "op + 2" caret] by (cases caret) auto
  then have len: "length (oe_word e) = caret - ?f" using e(2) by (auto simp: slice_def)
  moreover have "\<forall>c \<in> set (oe_word e). is_path_char c"
  proof
    fix c assume "c \<in> set (oe_word e)"
    then obtain k where "k < caret - ?f" "c = oe_word e ! k" using len by (metis in_set_conv_nth)
    then show "is_path_char c" using inside [of "?f + k"] e(2) by (simp add: slice_def less_diff_conv add.commute)
  qed
  ultimately show ?thesis using e(1) word_start_le [of doc "op + 2" caret] by simp
qed

text \<open>A caret that stands before the opening braces counts as inside them.\<close>

lemma caret_before_braces:
  "expressionAt ''{{ a }}'' 0 = Some \<lparr>oe_from = 0, oe_word = [], oe_fresh = True\<rparr>"
  by code_simp

section \<open>The expressions of a body\<close>

record template_expression =
  te_from :: nat
  te_to :: nat
  te_path :: "string option"

text \<open>\<open>/^\s*([A-Za-z_][\w.]*)\s*$/\<close>.\<close>

definition field_path :: "string \<Rightarrow> string option" where
  "field_path inner =
     (let s = dropWhile is_ws inner; p = takeWhile is_path_char s; r = dropWhile is_path_char s
      in if p \<noteq> [] \<and> is_word (hd p) \<and> \<not> is_digit (hd p) \<and> list_all is_ws r then Some p else None)"

function expressions_from :: "nat \<Rightarrow> string \<Rightarrow> template_expression list" where
  "expressions_from i [] = []"
| "expressions_from i (c # s) =
     (case (if starts_with [CHR 0x7B, CHR 0x7B] (c # s) \<and> \<not> starts_with [CHR 0x7B] (drop 1 s)
            then index_of [CHR 0x7D, CHR 0x7D] (drop 1 s) else None) of
        None \<Rightarrow> expressions_from (i + 1) s
      | Some k \<Rightarrow>
          \<lparr>te_from = i, te_to = i + k + 4, te_path = field_path (take k (drop 1 s))\<rparr> #
            expressions_from (i + k + 4) (drop (k + 3) s))"
  by pat_completeness auto
termination by (relation "measure (\<lambda>(i, s). length s)") auto

declare expressions_from.simps [simp del]

definition findExpressions :: "string \<Rightarrow> template_expression list" where
  "findExpressions doc = expressions_from 0 doc"

end
