(* ===== verification/AlertRouting.thy ===== *)
theory AlertRouting
  imports JsBase
begin

text \<open>
  \<open>features/alert/lib/routing.ts\<close> and \<open>features/alert/lib/credentials.ts\<close>: what a rule stores
  to reroute a channel, per provider: which inputs it shows, why it cannot be saved, what
  is sent, and how a stored override is read back into the inputs. The message lookup \<open>t\<close>
  and the scheme the platform's URL parser reads (\<open>protocol\<close>, \<open>None\<close> when it throws) are
  arguments. Objects keyed by an integration's id are maps in the order they were written. Beside it,
  the server's check of what a rule stores, \<open>validate_routing_override\<close> of \<open>apps/server/src/routes/alerts.rs\<close>.
\<close>

section \<open>Data\<close>

datatype provider = Slack | Email | Webhook | Custom_webhook

record integration =
  ig_id :: int
  ig_name :: string
  ig_provider :: provider
  ig_credentials :: jv

type_synonym routing = "(string \<times> string) list"
type_synonym override = "(string \<times> jv) list"
type_synonym translate = "string \<Rightarrow> string \<Rightarrow> string"

record routing_needs =
  rn_channel :: bool
  rn_recipients :: bool
  rn_url :: bool
  rn_hasFields :: bool

definition getSlackMethod :: "integration \<Rightarrow> jv" where
  "getSlackMethod i =
     (case pget ''method'' (ig_credentials i) of
        JUndef \<Rightarrow> JStr ''webhook'' | JNull \<Rightarrow> JStr ''webhook'' | v \<Rightarrow> v)"

definition stringFields :: "override \<Rightarrow> routing" where
  "stringFields o1 =
     from_entries (List.map_filter (\<lambda>(k, v). case v of JStr s \<Rightarrow> Some (k, s) | _ \<Rightarrow> None) o1)"

definition isBlank :: "string option \<Rightarrow> bool" where
  "isBlank v \<longleftrightarrow> (case v of None \<Rightarrow> True | Some s \<Rightarrow> trim s = [])"

definition isHttpUrl :: "(string \<Rightarrow> string option) \<Rightarrow> string \<Rightarrow> bool" where
  "isHttpUrl protocol url \<longleftrightarrow> (protocol url = Some ''http:'' \<or> protocol url = Some ''https:'')"

definition storedUrl :: "integration \<Rightarrow> jv" where
  "storedUrl i = pget ''url'' (ig_credentials i)"

definition recipientList :: "string \<Rightarrow> string list" where
  "recipientList line = filter (\<lambda>a. a \<noteq> []) (map trim (split_on (CHR '','') line))"

text \<open>A field that is there and not empty.\<close>

definition filled :: "string \<Rightarrow> routing \<Rightarrow> string option" where
  "filled k r = (case map_of r k of Some (c # cs) \<Rightarrow> Some (c # cs) | _ \<Rightarrow> None)"

section \<open>Behaviour by provider\<close>

definition isBot :: "integration \<Rightarrow> bool" where
  "isBot i \<longleftrightarrow> getSlackMethod i = JStr ''bot_token''"

definition slack_needs :: "integration \<Rightarrow> routing_needs" where
  "slack_needs i = \<lparr>rn_channel = isBot i, rn_recipients = False, rn_url = False, rn_hasFields = isBot i\<rparr>"

definition slack_validate :: "integration \<Rightarrow> routing \<Rightarrow> translate \<Rightarrow> string option" where
  "slack_validate i r t =
     (if \<not> isBot i then None
      else if isBlank (map_of r ''channel'') then Some (t ''routing.slackChannelRequired'' (ig_name i))
      else None)"

definition slack_override :: "integration \<Rightarrow> routing \<Rightarrow> override" where
  "slack_override i r =
     (if \<not> isBot i then []
      else case filled ''channel'' r of None \<Rightarrow> [] | Some c \<Rightarrow> [(''channel'', JStr (trim c))])"

definition email_needs :: routing_needs where
  "email_needs = \<lparr>rn_channel = False, rn_recipients = True, rn_url = False, rn_hasFields = True\<rparr>"

definition email_validate :: "integration \<Rightarrow> routing \<Rightarrow> translate \<Rightarrow> string option" where
  "email_validate i r t =
     (if isBlank (map_of r ''recipients'') then Some (t ''routing.recipientsRequired'' (ig_name i))
      else
        let addresses = recipientList (case map_of r ''recipients'' of Some l \<Rightarrow> l | None \<Rightarrow> [])
        in if addresses = [] \<or> list_ex (\<lambda>a. CHR ''@'' \<notin> set a) addresses
           then Some (t ''routing.invalidRecipients'' (ig_name i)) else None)"

definition email_override :: "routing \<Rightarrow> override" where
  "email_override r =
     (case filled ''recipients'' r of
        None \<Rightarrow> [] | Some l \<Rightarrow> [(''recipients'', JArr (map JStr (recipientList l)))])"

definition email_read :: "override \<Rightarrow> routing" where
  "email_read o1 =
     (case map_of o1 ''recipients'' of
        Some (JArr rs) \<Rightarrow>
          [(''recipients'', join_with '', '' (map (\<lambda>v. if v = JUndef \<or> v = JNull then [] else js_str v) rs))]
      | _ \<Rightarrow> [])"

definition webhook_needs :: "integration \<Rightarrow> routing_needs" where
  "webhook_needs i =
     \<lparr>rn_channel = False, rn_recipients = False, rn_url = (\<not> truthy (storedUrl i)), rn_hasFields = True\<rparr>"

definition webhook_validate ::
  "(string \<Rightarrow> string option) \<Rightarrow> integration \<Rightarrow> routing \<Rightarrow> translate \<Rightarrow> string option" where
  "webhook_validate protocol i r t =
     (let routeUrl = (case map_of r ''url'' of Some u \<Rightarrow> trim u | None \<Rightarrow> [])
      in if \<not> truthy (storedUrl i) \<and> routeUrl = [] then Some (t ''routing.webhookUrlRequired'' (ig_name i))
         else if routeUrl \<noteq> [] \<and> \<not> isHttpUrl protocol routeUrl
         then Some (t ''routing.invalidOverrideUrl'' (ig_name i))
         else None)"

definition webhook_override :: "routing \<Rightarrow> override" where
  "webhook_override r = (case filled ''url'' r of None \<Rightarrow> [] | Some u \<Rightarrow> [(''url'', JStr (trim u))])"

section \<open>The table\<close>

definition routesByUrlOverride :: "integration \<Rightarrow> bool" where
  "routesByUrlOverride i \<longleftrightarrow> ig_provider i = Webhook \<or> ig_provider i = Custom_webhook"

definition routingNeedsOf :: "integration \<Rightarrow> routing_needs" where
  "routingNeedsOf i =
     (case ig_provider i of Slack \<Rightarrow> slack_needs i | Email \<Rightarrow> email_needs
      | Webhook \<Rightarrow> webhook_needs i | Custom_webhook \<Rightarrow> webhook_needs i)"

definition overrideOf :: "integration \<Rightarrow> routing \<Rightarrow> override" where
  "overrideOf i r =
     (case ig_provider i of Slack \<Rightarrow> slack_override i r | Email \<Rightarrow> email_override r
      | Webhook \<Rightarrow> webhook_override r | Custom_webhook \<Rightarrow> webhook_override r)"

definition readRoutingOverride :: "integration option \<Rightarrow> override \<Rightarrow> routing" where
  "readRoutingOverride i o1 =
     (case i of
        None \<Rightarrow> stringFields o1
      | Some x \<Rightarrow> (if ig_provider x = Email then email_read o1 else stringFields o1))"

definition validateRoutingForIntegration ::
  "(string \<Rightarrow> string option) \<Rightarrow> integration \<Rightarrow> routing \<Rightarrow> translate \<Rightarrow> string option" where
  "validateRoutingForIntegration protocol i r t =
     (case ig_provider i of Slack \<Rightarrow> slack_validate i r t | Email \<Rightarrow> email_validate i r t
      | Webhook \<Rightarrow> webhook_validate protocol i r t
      | Custom_webhook \<Rightarrow> webhook_validate protocol i r t)"

text \<open>A \<open>Map\<close> by id: of two integrations with one id the later holds.\<close>

definition by_id :: "integration list \<Rightarrow> int \<Rightarrow> integration option" where
  "by_id is = map_of (rev (map (\<lambda>i. (ig_id i, i)) is))"

definition routing_at :: "(int \<times> routing) list \<Rightarrow> int \<Rightarrow> routing" where
  "routing_at m i = (case map_of m i of Some r \<Rightarrow> r | None \<Rightarrow> [])"

definition collectRoutingErrors ::
  "(string \<Rightarrow> string option) \<Rightarrow> int list \<Rightarrow> (int \<times> routing) list \<Rightarrow> integration list \<Rightarrow> translate \<Rightarrow>
     (int \<times> string) list" where
  "collectRoutingErrors protocol selectedIds routingMap integrations t =
     foldl (\<lambda>errors i.
        case by_id integrations i of
          None \<Rightarrow> errors
        | Some x \<Rightarrow>
            (case validateRoutingForIntegration protocol x (routing_at routingMap i) t of
               Some (c # cs) \<Rightarrow> map_put i (c # cs) errors
             | _ \<Rightarrow> errors)) [] selectedIds"

definition buildChannelsPayload ::
  "int list \<Rightarrow> (int \<times> routing) list \<Rightarrow> integration list \<Rightarrow> (int \<times> override) list" where
  "buildChannelsPayload selectedIds routingMap integrations =
     List.map_filter (\<lambda>i. map_option (\<lambda>x. (i, overrideOf x (routing_at routingMap i)))
       (by_id integrations i)) selectedIds"

definition filledCredentials :: "(string \<times> jv) list \<Rightarrow> (string \<times> jv) list" where
  "filledCredentials values =
     from_entries (filter (\<lambda>(k, v). v \<noteq> JNull \<and> v \<noteq> JUndef \<and>
       (case v of JStr s \<Rightarrow> trim s \<noteq> [] | _ \<Rightarrow> True)) values)"

section \<open>Trimming\<close>

lemma trim_space [simp]: "trim (CHR '' '' # s) = trim s"
  by (simp add: trim_def trim_start_def is_ws_def)

section \<open>What the server takes\<close>

text \<open>
  The other half of the contract is the server's own: \<open>validate_routing_override\<close>
  (\<open>apps/server/src/routes/alerts.rs\<close>) is run on every channel of a rule that is saved and on
  every test. It is translated from the Rust, and shares nothing with the editor's checks above.
  \<open>headers_ok\<close> is \<open>validate_headers\<close> on headers that are given, whose names and values the \<open>http\<close>
  crate parses.
\<close>

definition cred_str :: "string \<Rightarrow> integration \<Rightarrow> string option" where
  "cred_str k i = (case pget k (ig_credentials i) of JStr s \<Rightarrow> Some s | _ \<Rightarrow> None)"

text \<open>An \<open>Option<String>\<close> field with a default, as serde reads it; \<open>None\<close> when it refuses the object.\<close>

definition serde_opt_string :: "override \<Rightarrow> string \<Rightarrow> string option option" where
  "serde_opt_string o1 k =
     (case map_of o1 k of
        None \<Rightarrow> Some None | Some JUndef \<Rightarrow> Some None | Some JNull \<Rightarrow> Some None
      | Some (JStr s) \<Rightarrow> Some (Some s) | Some _ \<Rightarrow> None)"

fun serde_strings :: "jv list \<Rightarrow> string list option" where
  "serde_strings [] = Some []"
| "serde_strings (JStr s # vs) = map_option ((#) s) (serde_strings vs)"
| "serde_strings (v # vs) = None"

definition serde_recipients :: "override \<Rightarrow> string list option" where
  "serde_recipients o1 =
     (case map_of o1 ''recipients'' of
        None \<Rightarrow> Some [] | Some JUndef \<Rightarrow> Some [] | Some (JArr vs) \<Rightarrow> serde_strings vs | Some _ \<Rightarrow> None)"

definition serde_headers :: "override \<Rightarrow> (string \<times> string) list option option" where
  "serde_headers o1 =
     (case map_of o1 ''extra_headers'' of
        None \<Rightarrow> Some None | Some JUndef \<Rightarrow> Some None | Some JNull \<Rightarrow> Some None
      | Some (JObj ps) \<Rightarrow> map_option (\<lambda>vs. Some (zip (map fst ps) vs)) (serde_strings (map snd ps))
      | Some _ \<Rightarrow> None)"

text \<open>What Rust's \<open>trim\<close> takes off: besides what JavaScript's does, the next-line character.\<close>

definition rust_ws :: "char \<Rightarrow> bool" where
  "rust_ws c \<longleftrightarrow>
     c \<in> {CHR '' '', CHR 0x09, CHR 0x0A, CHR 0x0B, CHR 0x0C, CHR 0x0D, CHR 0x85, CHR 0xA0}"

definition http_text :: "string \<Rightarrow> bool" where
  "http_text u \<longleftrightarrow> starts_with ''http://'' u \<or> starts_with ''https://'' u"

definition validate_routing_override :: "((string \<times> string) list \<Rightarrow> bool) \<Rightarrow> integration \<Rightarrow> override \<Rightarrow> bool" where
  "validate_routing_override headers_ok i o1 =
     (case ig_provider i of
        Slack \<Rightarrow>
          cred_str ''method'' i = Some ''bot_token'' \<longrightarrow>
            (case (serde_opt_string o1 ''channel'', serde_opt_string o1 ''username'', serde_opt_string o1 ''icon_emoji'') of
               (Some ch, Some _, Some _) \<Rightarrow>
                 let effective = (case ch of Some c \<Rightarrow> c
                                  | None \<Rightarrow> (case cred_str ''channel'' i of Some c \<Rightarrow> c | None \<Rightarrow> []))
                 in \<not> list_all rust_ws effective
             | _ \<Rightarrow> False)
      | Email \<Rightarrow>
          (case serde_recipients o1 of
             None \<Rightarrow> False
           | Some rs \<Rightarrow> rs \<noteq> [] \<and> list_all (\<lambda>a. CHR ''@'' \<in> set a) rs)
      | _ \<Rightarrow>
          (case (serde_opt_string o1 ''url'', serde_headers o1) of
             (Some u, Some hs) \<Rightarrow>
               \<not> (cred_str ''url'' i = None \<and> u = None)
               \<and> (case u of None \<Rightarrow> True | Some url \<Rightarrow> http_text url)
               \<and> (case hs of None \<Rightarrow> True | Some h \<Rightarrow> headers_ok h)
           | _ \<Rightarrow> False))"

text \<open>
  The three overrides the editor's checks let through and the server refuses: a Slack channel of
  next-line characters only, a URL that is empty because spaces were typed over an integration that has
  one, and a URL whose scheme the browser's parser reads as http while its text does not begin with
  \<open>http://\<close> or \<open>https://\<close> in lower case.
\<close>

definition editor_misses :: "(string \<Rightarrow> string option) \<Rightarrow> integration \<Rightarrow> override \<Rightarrow> bool" where
  "editor_misses protocol i o1 \<longleftrightarrow>
     (case ig_provider i of
        Slack \<Rightarrow> isBot i \<and> (\<exists>c. o1 = [(''channel'', JStr c)] \<and> c \<noteq> [] \<and> list_all rust_ws c)
      | Email \<Rightarrow> False
      | _ \<Rightarrow> o1 = [(''url'', JStr [])] \<and> truthy (storedUrl i)
            \<or> (\<exists>u. o1 = [(''url'', JStr u)] \<and> isHttpUrl protocol u \<and> \<not> http_text u))"

text \<open>As the client types it, the URL in an integration's credentials is a string when there is one.\<close>

definition typed_url :: "integration \<Rightarrow> bool" where
  "typed_url i \<longleftrightarrow> truthy (storedUrl i) \<longrightarrow> (\<exists>u. storedUrl i = JStr u)"

section \<open>What is saved is what the server takes\<close>

lemma filled_eq: "filled k r = (case map_of r k of Some s \<Rightarrow> if s = [] then None else Some s | None \<Rightarrow> None)"
  by (auto simp: filled_def split: option.splits list.splits)

lemma recipients_trimmed: "a \<in> set (recipientList l) \<Longrightarrow> trim a = a \<and> a \<noteq> []"
  by (auto simp: recipientList_def)

lemma trim_Nil [simp]: "trim [] = []"
  by (simp add: trim_def trim_start_def trim_end_def)

lemma trim_nonempty: "trim s \<noteq> [] \<Longrightarrow> s \<noteq> []"
  by auto

lemma serde_strings_JStr [simp]: "serde_strings (map JStr rs) = Some rs"
  by (induction rs) simp_all

lemma bot_method: "cred_str ''method'' i = Some ''bot_token'' \<longleftrightarrow> isBot i"
  by (auto simp: cred_str_def isBot_def getSlackMethod_def split: jv.splits)

lemma given_url_taken:
  assumes "typed_url i" "truthy (storedUrl i)" shows "cred_str ''url'' i \<noteq> None"
  using assms by (auto simp: typed_url_def cred_str_def storedUrl_def)

lemmas server_simps = validate_routing_override_def editor_misses_def serde_opt_string_def serde_headers_def

lemma webhook_taken:
  assumes "webhook_validate protocol i r t = None" and "typed_url i" and p: "ig_provider i \<in> {Webhook, Custom_webhook}"
  shows "validate_routing_override headers_ok i (webhook_override r) \<noteq> editor_misses protocol i (webhook_override r)"
proof -
  have v: "ig_provider i = Webhook \<or> ig_provider i = Custom_webhook" using p by simp
  show ?thesis
  proof (cases "filled ''url'' r")
    case None
    then have "truthy (storedUrl i)"
      using assms(1) by (auto simp: webhook_validate_def filled_eq split: if_splits option.splits)
    then have "cred_str ''url'' i \<noteq> None" using given_url_taken assms(2) by simp
    then show ?thesis using None v by (elim disjE) (auto simp: webhook_override_def server_simps)
  next
    case (Some u)
    then have u: "map_of r ''url'' = Some u" by (auto simp: filled_eq split: option.splits if_splits)
    have o1: "webhook_override r = [(''url'', JStr (trim u))]" by (simp add: webhook_override_def Some)
    show ?thesis
    proof (cases "trim u = []")
      case True
      then have "truthy (storedUrl i)" using assms(1) u by (auto simp: webhook_validate_def split: if_splits)
      then show ?thesis unfolding o1 using True v
        by (elim disjE) (simp_all add: server_simps http_text_def starts_with_def)
    next
      case False
      then have "isHttpUrl protocol (trim u)" using assms(1) u by (auto simp: webhook_validate_def Let_def split: if_splits)
      then show ?thesis unfolding o1 using False v by (elim disjE) (simp_all add: server_simps)
    qed
  qed
qed

lemma email_taken:
  assumes "email_validate i r t = None" and p: "ig_provider i = Email"
  shows "validate_routing_override headers_ok i (email_override r) \<noteq> editor_misses protocol i (email_override r)"
proof -
  obtain l where l: "map_of r ''recipients'' = Some l" "trim l \<noteq> []"
      "recipientList l \<noteq> []" "\<forall>a \<in> set (recipientList l). CHR ''@'' \<in> set a"
    using assms by (auto simp: email_validate_def isBlank_def Let_def list_ex_iff split: if_splits option.splits)
  then have "filled ''recipients'' r = Some l" by (auto simp: filled_eq)
  then show ?thesis using l p
    by (simp add: email_override_def server_simps serde_recipients_def list_all_iff)
qed

lemma slack_taken:
  assumes "slack_validate i r t = None" and p: "ig_provider i = Slack"
  shows "validate_routing_override headers_ok i (slack_override i r) \<noteq> editor_misses protocol i (slack_override i r)"
proof (cases "isBot i")
  case True
  then obtain c where "map_of r ''channel'' = Some c" "trim c \<noteq> []"
    using assms by (auto simp: slack_validate_def isBlank_def split: if_splits option.splits)
  then have "slack_override i r = [(''channel'', JStr (trim c))]" "trim c \<noteq> []"
    using True by (auto simp: slack_override_def filled_eq)
  then show ?thesis using True p by (simp add: server_simps bot_method)
qed (use p in \<open>simp add: slack_override_def server_simps bot_method\<close>)

lemma valid_taken:
  assumes "validateRoutingForIntegration protocol i r t = None" and "typed_url i"
  shows "validate_routing_override headers_ok i (overrideOf i r) \<noteq> editor_misses protocol i (overrideOf i r)"
  using assms slack_taken [of i r t] email_taken [of i r t] webhook_taken [of protocol i r t]
  by (cases "ig_provider i") (simp_all add: validateRoutingForIntegration_def overrideOf_def)

lemma errors_put:
  "i \<in> fst ` set (foldl (\<lambda>es j. case f j of None \<Rightarrow> es | Some m \<Rightarrow> map_put j m es) es js) \<longleftrightarrow>
     i \<in> fst ` set es \<or> (i \<in> set js \<and> f i \<noteq> None)"
  by (induction js arbitrary: es) (auto simp: map_put_keys split: option.splits)

definition routing_error ::
  "(string \<Rightarrow> string option) \<Rightarrow> (int \<times> routing) list \<Rightarrow> integration list \<Rightarrow> translate \<Rightarrow> int \<Rightarrow> string option" where
  "routing_error protocol routingMap integrations t i =
     (case by_id integrations i of
        None \<Rightarrow> None
      | Some x \<Rightarrow>
          (case validateRoutingForIntegration protocol x (routing_at routingMap i) t of
             Some (c # cs) \<Rightarrow> Some (c # cs) | _ \<Rightarrow> None))"

lemma collect_eq:
  "collectRoutingErrors protocol ids m is t =
     foldl (\<lambda>es j. case routing_error protocol m is t j of None \<Rightarrow> es | Some e \<Rightarrow> map_put j e es) [] ids"
  unfolding collectRoutingErrors_def routing_error_def
  by (intro arg_cong [of _ _ "\<lambda>f. foldl f [] ids"] ext) (auto split: option.splits list.splits)

text \<open>
  When no selected channel has a routing error, the server takes everything that is sent, but for the
  three overrides named above; and every selected integration that exists is sent.
\<close>

lemma no_errors_taken:
  assumes "collectRoutingErrors protocol ids routingMap integrations t = []"
    and "\<And>k n. t k n \<noteq> []" and typed: "\<And>i x. by_id integrations i = Some x \<Longrightarrow> typed_url x"
  shows "map fst (buildChannelsPayload ids routingMap integrations) =
      filter (\<lambda>i. by_id integrations i \<noteq> None) ids \<and>
    (\<forall>(i, o1) \<in> set (buildChannelsPayload ids routingMap integrations).
       \<exists>x. by_id integrations i = Some x \<and> validate_routing_override headers_ok x o1 \<noteq> editor_misses protocol x o1)"
proof -
  have none: "routing_error protocol routingMap integrations t i = None" if "i \<in> set ids" for i
    using assms(1) that errors_put [of i "routing_error protocol routingMap integrations t" "[]" ids]
    by (simp add: collect_eq)
  have said: "validateRoutingForIntegration protocol x r t \<noteq> Some []" for x r
    using assms(2)
    by (auto simp: validateRoutingForIntegration_def slack_validate_def email_validate_def
        webhook_validate_def Let_def split: provider.splits)
  have "validate_routing_override headers_ok x (overrideOf x (routing_at routingMap i))
      \<noteq> editor_misses protocol x (overrideOf x (routing_at routingMap i))"
    if "i \<in> set ids" "by_id integrations i = Some x" for i x
  proof (rule valid_taken [OF _ typed [OF that(2)]])
    show "validateRoutingForIntegration protocol x (routing_at routingMap i) t = None"
      using none [OF that(1)] that(2) said
      by (auto simp: routing_error_def split: option.splits list.splits)
  qed
  moreover have "map fst (buildChannelsPayload ids routingMap integrations) =
      filter (\<lambda>i. by_id integrations i \<noteq> None) ids"
    by (induction ids) (auto simp: buildChannelsPayload_def map_filter_def)
  ultimately show ?thesis
    by (fastforce simp: buildChannelsPayload_def map_filter_def split: option.splits)
qed

definition mail :: integration where
  "mail = \<lparr>ig_id = 3, ig_name = ''Mail'', ig_provider = Email, ig_credentials = JObj []\<rparr>"

lemma mail_line: "recipientList ''a@b, c@d'' = [''a@b'', ''c@d'']"
  by code_simp

lemma mail_override:
  "overrideOf mail [(''recipients'', ''a@b, c@d'')] =
     [(''recipients'', JArr [JStr ''a@b'', JStr ''c@d''])]"
  by (simp add: overrideOf_def mail_def email_override_def filled_def mail_line)

lemma no_errors_taken_example:
  "buildChannelsPayload [3, 9] [(3, [(''recipients'', ''a@b, c@d'')])] [mail] =
     [(3, [(''recipients'', JArr [JStr ''a@b'', JStr ''c@d''])])] \<and>
   validate_routing_override headers_ok mail [(''recipients'', JArr [JStr ''a@b'', JStr ''c@d''])]"
proof -
  have b: "by_id [mail] 3 = Some mail" "by_id [mail] 9 = None" by (simp_all add: by_id_def mail_def)
  have "validate_routing_override headers_ok mail [(''recipients'', JArr [JStr ''a@b'', JStr ''c@d''])]"
    by (simp add: server_simps serde_recipients_def mail_def)
  then show ?thesis
    by (simp add: buildChannelsPayload_def map_filter_def b routing_at_def mail_override)
qed

section \<open>Read back and saved again\<close>

lemma split_comma_join:
  assumes "ws \<noteq> []" and "\<forall>w \<in> set ws. CHR '','' \<notin> set w" and "CHR '','' \<notin> set pre"
  shows "split_on (CHR '','') (pre @ join_with '', '' ws) = (pre @ hd ws) # map (\<lambda>w. CHR '' '' # w) (tl ws)"
  using assms
proof (induction ws arbitrary: pre)
  case (Cons w ws)
  show ?case
  proof (cases ws)
    case Nil
    then show ?thesis using Cons.prems by (simp add: split_on_clean)
  next
    case (Cons v vs)
    have "split_on (CHR '','') ((pre @ w) @ CHR '','' # ('' '' @ join_with '', '' ws)) =
        (pre @ w) # split_on (CHR '','') ('' '' @ join_with '', '' ws)"
      using Cons.prems by (intro split_on_append) auto
    moreover have "split_on (CHR '','') ('' '' @ join_with '', '' ws) =
        ('' '' @ hd ws) # map (\<lambda>w. CHR '' '' # w) (tl ws)"
      using Cons Cons.prems by (intro Cons.IH) auto
    ultimately show ?thesis using Cons by simp
  qed
qed simp

lemma recipients_roundtrip:
  assumes "ws \<noteq> []" and "\<forall>w \<in> set ws. CHR '','' \<notin> set w \<and> trim w = w \<and> w \<noteq> []"
  shows "recipientList (join_with '', '' ws) = ws"
proof -
  obtain w vs where w: "ws = w # vs" using assms(1) by (cases ws) auto
  have "split_on (CHR '','') (join_with '', '' ws) = w # map (\<lambda>w. CHR '' '' # w) vs"
    using split_comma_join [OF assms(1), of "[]"] assms(2) w by simp
  moreover have "map trim vs = vs" using assms(2) w by (simp add: map_idI)
  moreover have "filter (\<lambda>a. a \<noteq> []) ws = ws" using assms(2) by (simp add: filter_True)
  ultimately show ?thesis using assms(2) w by (simp add: recipientList_def comp_def)
qed

lemma recipient_pieces: "a \<in> set (recipientList l) \<Longrightarrow> CHR '','' \<notin> set a \<and> trim a = a \<and> a \<noteq> []"
proof -
  assume "a \<in> set (recipientList l)"
  then obtain p where "p \<in> set (split_on (CHR '','') l)" "a = trim p" "a \<noteq> []"
    by (auto simp: recipientList_def)
  then show ?thesis using split_on_pieces [of p "CHR '',''" l] set_trim [of p] by auto
qed

lemma show_recipients:
  "map (\<lambda>v. if v = JUndef \<or> v = JNull then [] else js_str v) (map JStr rs) = rs"
  by (induction rs) simp_all

lemma email_stable:
  assumes "email_validate i r t = None"
  shows "email_override (email_read (email_override r)) = email_override r"
proof -
  obtain l where l: "map_of r ''recipients'' = Some l" "recipientList l \<noteq> []" "l \<noteq> []"
    using assms by (auto simp: email_validate_def isBlank_def Let_def dest: trim_nonempty split: if_splits option.splits)
  have o1: "email_override r = [(''recipients'', JArr (map JStr (recipientList l)))]"
    using l by (simp add: email_override_def filled_eq)
  have r: "email_read (email_override r) = [(''recipients'', join_with '', '' (recipientList l))]"
    unfolding o1 using show_recipients [of "recipientList l"] by (simp add: email_read_def del: map_map)
  have "join_with '', '' (recipientList l) \<noteq> []"
    using l(2) recipient_pieces [of _ l] join_with_eq_Nil [of "recipientList l" "'', ''"] by blast
  moreover have "recipientList (join_with '', '' (recipientList l)) = recipientList l"
    using recipients_roundtrip [OF l(2)] recipient_pieces [of _ l] by blast
  ultimately show ?thesis unfolding r by (simp add: o1 email_override_def [of "[_]"] filled_eq)
qed

lemma one_field_read: "stringFields [(k, JStr s)] = [(k, s)]"
  by (simp add: stringFields_def map_filter_def from_entries_def)

lemma slack_stable:
  assumes "slack_validate i r t = None"
  shows "slack_override i (stringFields (slack_override i r)) = slack_override i r"
proof (cases "isBot i")
  case True
  then obtain c where c: "map_of r ''channel'' = Some c" "trim c \<noteq> []" "c \<noteq> []"
    using assms by (auto simp: slack_validate_def isBlank_def dest: trim_nonempty split: if_splits option.splits)
  then have "slack_override i r = [(''channel'', JStr (trim c))]"
    using True by (simp add: slack_override_def filled_eq)
  then show ?thesis using True c by (simp add: one_field_read slack_override_def filled_eq)
qed (simp add: slack_override_def)

lemma webhook_stable:
  assumes "map_of r ''url'' \<noteq> None \<longrightarrow> \<not> isBlank (map_of r ''url'')"
  shows "webhook_override (stringFields (webhook_override r)) = webhook_override r"
proof (cases "map_of r ''url''")
  case None
  then show ?thesis
    by (simp add: webhook_override_def filled_eq stringFields_def map_filter_def from_entries_def)
next
  case (Some u)
  then have u: "trim u \<noteq> []" using assms by (simp add: isBlank_def)
  then have "webhook_override r = [(''url'', JStr (trim u))]"
    using Some by (auto simp: webhook_override_def filled_eq)
  then show ?thesis using u by (simp add: one_field_read webhook_override_def filled_eq)
qed

text \<open>
  A valid rule that is opened and saved unchanged is stored as it was: reading an
  override into the inputs and writing it again gives the same override, unless a URL was
  typed as spaces only.
\<close>

lemma override_stable:
  assumes "validateRoutingForIntegration protocol i r t = None"
    and "map_of r ''url'' \<noteq> None \<longrightarrow> \<not> isBlank (map_of r ''url'')"
  shows "overrideOf i (readRoutingOverride (Some i) (overrideOf i r)) = overrideOf i r"
  using assms slack_stable [of i r t] email_stable [of i r t] webhook_stable [of r]
  by (cases "ig_provider i")
    (simp_all add: validateRoutingForIntegration_def overrideOf_def readRoutingOverride_def)

lemma override_stable_example:
  "overrideOf mail (readRoutingOverride (Some mail) (overrideOf mail [(''recipients'', ''a@b, c@d'')])) =
     [(''recipients'', JArr [JStr ''a@b'', JStr ''c@d''])]"
proof -
  have blank: "\<not> isBlank (Some ''a@b, c@d'')" by code_simp
  have "validateRoutingForIntegration (\<lambda>_. None) mail [(''recipients'', ''a@b, c@d'')] (\<lambda>_ _. ''bad'') = None"
    using blank by (simp add: validateRoutingForIntegration_def mail_def email_validate_def mail_line Let_def)
  from override_stable [OF this] show ?thesis by (simp add: mail_override)
qed

text \<open>A stored override with one value per field, read into the inputs: its strings, field by field.\<close>

lemma puts_lookup: "map_of (foldl (\<lambda>ps (k, v). obj_put k v ps) acc es) = map_of acc ++ map_of (rev es)"
  by (induction es arbitrary: acc) (auto simp: map_of_obj_put)

lemma strings_lookup:
  fixes o1 :: override
  defines "f \<equiv> \<lambda>(k, v). case v of JStr s \<Rightarrow> Some (k, s) | _ \<Rightarrow> None"
  assumes "distinct (map fst o1)"
  shows "fst ` set (List.map_filter f o1) \<subseteq> fst ` set o1" "distinct (map fst (List.map_filter f o1))"
    "map_of (List.map_filter f o1) k = (case map_of o1 k of Some (JStr s) \<Rightarrow> Some s | _ \<Rightarrow> None)"
  using assms(2)
proof (induction o1)
  case (Cons x o1)
  obtain j v where x: "x = (j, v)" by (cases x)
  { case 1 then show ?case using Cons.IH(1) by (auto simp: x map_filter_simps f_def split: jv.splits) }
  { case 2 then show ?case using Cons.IH(1,2) by (auto simp: x map_filter_simps f_def split: jv.splits) }
  { case 3
    have "j \<notin> fst ` set (List.map_filter f o1)" using 3 Cons.IH(1) by (auto simp: x)
    then have "map_of (List.map_filter f o1) j = None" by (simp add: map_of_eq_None_iff)
    then show ?case using 3 Cons.IH(3) by (auto simp: x map_filter_simps f_def split: jv.splits) }
qed (simp_all add: map_filter_simps)

lemma read_string:
  assumes "distinct (map fst o1)"
  shows "map_of (stringFields o1) k = (case map_of o1 k of Some (JStr s) \<Rightarrow> Some s | _ \<Rightarrow> None)"
proof -
  let ?es = "List.map_filter (\<lambda>(k, v). case v of JStr s \<Rightarrow> Some (k, s) | _ \<Rightarrow> None) o1"
  have "map_of (rev ?es) = map_of ?es"
    using strings_lookup(2) [OF assms] by (subst map_of_inject_set) (simp_all add: rev_map [symmetric])
  then show ?thesis
    using strings_lookup(3) [OF assms, of k] by (simp add: stringFields_def from_entries_def puts_lookup)
qed

text \<open>
  A webhook whose integration has a URL accepts a line of spaces as its override, and sends it as an
  empty one in place of the integration's, which the server refuses.
\<close>

lemma blank_url_is_sent:
  assumes "ig_provider i = Webhook" and "truthy (storedUrl i)"
  shows "validateRoutingForIntegration protocol i [(''url'', ''  '')] t = None \<and>
    overrideOf i [(''url'', ''  '')] = [(''url'', JStr [])] \<and>
    \<not> validate_routing_override headers_ok i [(''url'', JStr [])]"
  using assms by (simp add: validateRoutingForIntegration_def webhook_validate_def overrideOf_def
      webhook_override_def filled_def Let_def server_simps http_text_def starts_with_def)

text \<open>A URL the browser reads as http, which the server refuses for the case of its scheme.\<close>

lemma upper_case_scheme_is_sent:
  assumes "ig_provider i = Webhook" and "protocol ''HTTP://hook.example/a'' = Some ''http:''"
  shows "validateRoutingForIntegration protocol i [(''url'', ''HTTP://hook.example/a'')] t = None \<and>
    overrideOf i [(''url'', ''HTTP://hook.example/a'')] = [(''url'', JStr ''HTTP://hook.example/a'')] \<and>
    \<not> validate_routing_override headers_ok i [(''url'', JStr ''HTTP://hook.example/a'')]"
proof -
  have "trim ''HTTP://hook.example/a'' = ''HTTP://hook.example/a''" by code_simp
  then show ?thesis using assms
    by (simp add: validateRoutingForIntegration_def webhook_validate_def overrideOf_def isHttpUrl_def
      webhook_override_def filled_def Let_def server_simps http_text_def starts_with_def)
qed

end
