(* ===== verification/FormErrors.thy ===== *)
theory FormErrors
  imports ClientErrors
begin

text \<open>
  \<open>shared/lib/error-copy.ts\<close> and \<open>shared/lib/form-errors.ts\<close>: the sentence a failure is told
  in, and how the reasons of a refused request are put on the inputs of a form. The
  translator \<open>t\<close> is a parameter; of react-hook-form the code reads the two registries below
  and calls \<open>clearErrors\<close> and \<open>setError\<close>, which are kept as the sequence of calls made.
\<close>

section \<open>The copy of an error\<close>

text \<open>A value interpolated by the translator; \<open>T_member\<close> is an inherited object member.\<close>

datatype tval = T_str string | T_int int | T_member

type_synonym translate = "string \<Rightarrow> (string \<times> tval) list \<Rightarrow> string"

text \<open>\<open>Math.round(n / d)\<close> of whole numbers: halves go up.\<close>

definition round_div :: "int \<Rightarrow> int \<Rightarrow> int" where
  "round_div n d = (2 * n + d) div (2 * d)"

definition retryWindow :: "int option \<Rightarrow> translate \<Rightarrow> string" where
  "retryWindow retryAfter t =
     (case retryAfter of None \<Rightarrow> t ''error.retry.moments'' []
      | Some s \<Rightarrow>
          if s \<le> 0 then t ''error.retry.moments'' []
          else if s < 60 then t ''error.retry.seconds'' [(''count'', T_int s)]
          else let minutes = round_div s 60
               in if minutes < 60 then t ''error.retry.minutes'' [(''count'', T_int minutes)]
                  else t ''error.retry.hours'' [(''count'', T_int (round_div s 3600))])"

fun describeError :: "rustrak_error \<Rightarrow> translate \<Rightarrow> jv" where
  "describeError (Network _ r) t =
     JStr (if r = Timeout then t ''error.describe.networkTimeout'' []
           else t ''error.describe.networkUnreachable'' [])"
| "describeError (Server_error _ _ _) t = JStr (t ''error.describe.serverError'' [])"
| "describeError (Forbidden _ _ _) t = JStr (t ''error.describe.forbidden'' [])"
| "describeError (Rate_limited _ _ retryAfter _) t =
     JStr (t ''error.describe.rateLimited'' [(''window'', T_str (retryWindow retryAfter t))])"
| "describeError (Invalid_response _) t = JStr (t ''error.describe.invalidResponse'' [])"
| "describeError e t = err_message e"

fun errorGuidance :: "error_kind \<Rightarrow> translate \<Rightarrow> string option" where
  "errorGuidance K_network t = Some (t ''error.guidance.network'' [])"
| "errorGuidance K_server_error t = Some (t ''error.guidance.network'' [])"
| "errorGuidance K_rate_limited t = Some (t ''error.guidance.rateLimited'' [])"
| "errorGuidance K_forbidden t = Some (t ''error.guidance.forbidden'' [])"
| "errorGuidance K_invalid_response t = Some (t ''error.guidance.invalidResponse'' [])"
| "errorGuidance K_not_found t = Some (t ''error.guidance.notFound'' [])"
| "errorGuidance _ t = None"

fun errorHeadline :: "error_kind \<Rightarrow> translate \<Rightarrow> string" where
  "errorHeadline K_network t = t ''error.headline.network'' []"
| "errorHeadline K_server_error t = t ''error.headline.network'' []"
| "errorHeadline K_forbidden t = t ''error.headline.forbidden'' []"
| "errorHeadline K_rate_limited t = t ''error.headline.rateLimited'' []"
| "errorHeadline K_invalid_response t = t ''error.headline.invalidResponse'' []"
| "errorHeadline K_not_found t = t ''error.headline.notFound'' []"
| "errorHeadline _ t = t ''error.headline.other'' []"

lemma round_div_bounds: "0 < d \<Longrightarrow> d * (2 * round_div n d - 1) \<le> 2 * n \<and> 2 * n < d * (2 * round_div n d + 1)"
proof -
  assume d: "0 < d"
  let ?q = "(2 * n + d) div (2 * d)"
  have "2 * d * ?q + (2 * n + d) mod (2 * d) = 2 * n + d" by (rule mult_div_mod_eq)
  moreover have "0 \<le> (2 * n + d) mod (2 * d)" and "(2 * n + d) mod (2 * d) < 2 * d"
    using d by simp_all
  ultimately have "2 * d * ?q \<le> 2 * n + d" and "2 * n + d < 2 * d * ?q + 2 * d" by linarith+
  then show ?thesis by (simp add: round_div_def algebra_simps)
qed

section \<open>A form as the code sees it\<close>

definition SERVER_ERROR_PATH :: string where
  "SERVER_ERROR_PATH = ''root.serverError''"

text \<open>
  \<open>control._fields\<close>: nested objects, DOM nodes (with their \<open>isConnected\<close>), and anything
  else. \<open>control._names.mount\<close> is \<open>None\<close> when it is not a set.
\<close>

datatype field_node =
    F_obj "(string \<times> field_node) list"
  | F_dom bool
  | F_other

record form_control =
  names_mount :: "string set option"
  fields_tree :: field_node

datatype form_call = ClearErrors string | SetError string jv

fun walk_fields :: "field_node \<Rightarrow> string list \<Rightarrow> field_node option" where
  "walk_fields node [] = Some node"
| "walk_fields node (segment # rest) =
     (case node of F_other \<Rightarrow> None
      | F_dom _ \<Rightarrow> walk_fields F_other rest
      | F_obj ps \<Rightarrow> walk_fields (case map_of ps segment of None \<Rightarrow> F_other | Some n \<Rightarrow> n) rest)"

definition own_node :: "string \<Rightarrow> field_node \<Rightarrow> field_node" where
  "own_node k node =
     (case node of F_obj ps \<Rightarrow> (case map_of ps k of None \<Rightarrow> F_other | Some n \<Rightarrow> n) | _ \<Rightarrow> F_other)"

definition fieldRef :: "field_node \<Rightarrow> string \<Rightarrow> field_node" where
  "fieldRef fs name =
     (case walk_fields fs (split_on (CHR ''.'') name) of None \<Rightarrow> F_other
      | Some node \<Rightarrow> own_node ''ref'' (own_node ''_f'' node))"

definition canMark :: "form_control \<Rightarrow> string \<Rightarrow> bool" where
  "canMark form name =
     (case names_mount form of None \<Rightarrow> False
      | Some mount \<Rightarrow>
          if name \<notin> mount then False
          else (case fieldRef (fields_tree form) name of F_dom is_connected \<Rightarrow> is_connected | _ \<Rightarrow> True))"

section \<open>Putting the reasons on the form\<close>

definition label_of :: "(string \<times> string) list \<Rightarrow> string option \<Rightarrow> tval option" where
  "label_of labels name =
     (case name of None \<Rightarrow> None
      | Some n \<Rightarrow> (case obj_lookup labels n of Own l \<Rightarrow> Some (T_str l) | Inherited \<Rightarrow> Some T_member
                  | Missing \<Rightarrow> None))"

definition copyFor :: "field_error_code \<Rightarrow> tval option \<Rightarrow> string option \<Rightarrow> translate \<Rightarrow> string" where
  "copyFor code label serverMessage t =
     (if code = Custom then
        (case serverMessage of Some m \<Rightarrow> m | None \<Rightarrow> t ''formErrors.rejected'' [])
      else
        let subject = (case label of Some l \<Rightarrow> l | None \<Rightarrow> T_str (t ''formErrors.defaultSubject'' []))
        in case code of
             Required \<Rightarrow> t ''formErrors.required'' [(''subject'', subject)]
           | Invalid \<Rightarrow> t ''formErrors.invalid'' [(''subject'', subject)]
           | Already_exists \<Rightarrow> t ''formErrors.alreadyExists'' [(''subject'', subject)]
           | Too_short \<Rightarrow> t ''formErrors.tooShort'' [(''subject'', subject)]
           | Too_long \<Rightarrow> t ''formErrors.tooLong'' [(''subject'', subject)])"

text \<open>
  \<open>map[field] ?? field\<close>. An inherited member of the map (\<open>None\<close>) is no registered name and
  has no label.
\<close>

definition form_name :: "(string \<times> string) list \<Rightarrow> string \<Rightarrow> string option" where
  "form_name fmap field =
     (case obj_lookup fmap field of Own n \<Rightarrow> Some n | Inherited \<Rightarrow> None | Missing \<Rightarrow> Some field)"

definition reason_of ::
  "(string \<times> string) list \<Rightarrow> (string \<times> string) list \<Rightarrow> translate \<Rightarrow> field_error \<Rightarrow> string" where
  "reason_of fmap labels t fe =
     copyFor (fe_code fe) (label_of labels (form_name fmap (fe_field fe))) (fe_message fe) t"

fun apply_fields ::
  "form_control \<Rightarrow> (string \<times> string) list \<Rightarrow> (string \<times> string) list \<Rightarrow> translate \<Rightarrow> field_error list
   \<Rightarrow> form_call list \<times> string list \<times> string list \<Rightarrow> form_call list \<times> string list \<times> string list" where
  "apply_fields form fmap labels t [] s = s"
| "apply_fields form fmap labels t (fe # fes) (calls, marked, unattributed) =
     (let message = reason_of fmap labels t fe
      in case form_name fmap (fe_field fe) of
           Some name \<Rightarrow>
             if \<not> canMark form name \<or> name \<in> set marked
             then apply_fields form fmap labels t fes (calls, marked, unattributed @ [message])
             else apply_fields form fmap labels t fes
                    (calls @ [SetError name (JStr message)], marked @ [name], unattributed)
         | None \<Rightarrow> apply_fields form fmap labels t fes (calls, marked, unattributed @ [message]))"

record applied =
  marked_names :: "string list"
  formLevel :: "string option"

definition applyServerFieldErrors ::
  "form_control \<Rightarrow> rustrak_error \<Rightarrow> (string \<times> string) list \<Rightarrow> (string \<times> string) list \<Rightarrow> translate
   \<Rightarrow> form_call list \<times> applied" where
  "applyServerFieldErrors form err fmap labels t =
     (let fs = (case err_fields err of None \<Rightarrow> [] | Some fs \<Rightarrow> fs)
      in case apply_fields form fmap labels t fs ([ClearErrors SERVER_ERROR_PATH], [], []) of
           (calls, marked, strs) \<Rightarrow>
             let unattributed = map JStr strs @ (if fs = [] then [describeError err t] else [])
             in if unattributed = [] then (calls, \<lparr>marked_names = marked, formLevel = None\<rparr>)
                else let level = join_jvs '' '' unattributed
                     in (calls @ [SetError SERVER_ERROR_PATH (JStr level)],
                         \<lparr>marked_names = marked, formLevel = Some level\<rparr>))"

section \<open>What is on screen afterwards\<close>

text \<open>
  What react-hook-form documents of the two calls: \<open>setError\<close> replaces the message of a name,
  \<open>clearErrors\<close> removes it.
\<close>

fun shown :: "form_call list \<Rightarrow> string \<Rightarrow> jv option" where
  "shown [] = (\<lambda>_. None)"
| "shown (ClearErrors n # cs) = shown cs"
| "shown (SetError n m # cs) = (\<lambda>k. case shown cs k of Some v \<Rightarrow> Some v | None \<Rightarrow> if k = n then Some m else None)"

text \<open>The reasons the failure has: one a field error, or the failure itself.\<close>

definition reasons ::
  "rustrak_error \<Rightarrow> (string \<times> string) list \<Rightarrow> (string \<times> string) list \<Rightarrow> translate \<Rightarrow> jv list" where
  "reasons err fmap labels t =
     (case err_fields err of None \<Rightarrow> [describeError err t]
      | Some fs \<Rightarrow> if fs = [] then [describeError err t] else map (JStr \<circ> reason_of fmap labels t) fs)"

lemma shown_append:
  "shown (xs @ ys) k = (case shown ys k of Some v \<Rightarrow> Some v | None \<Rightarrow> shown xs k)"
  by (induction xs rule: shown.induct) (auto split: option.splits)

lemma shown_none: "\<forall>m. SetError n m \<notin> set cs \<Longrightarrow> shown cs n = None"
  by (induction cs rule: shown.induct) (auto split: option.splits)

text \<open>
  The loop's invariant: the names marked are those set, each once, each markable; and the
  messages on them with the ones left over are the reasons read so far.
\<close>

definition marks_ok ::
  "form_control \<Rightarrow> string list \<Rightarrow> form_call list \<times> string list \<times> string list \<Rightarrow> bool" where
  "marks_ok form rs = (\<lambda>(calls, marked, unattributed).
     distinct marked \<and> list_all (canMark form) marked
     \<and> (\<forall>k. shown calls k \<noteq> None \<longleftrightarrow> k \<in> set marked)
     \<and> mset (map JStr rs) = mset (map (the \<circ> shown calls) marked) + mset (map JStr unattributed))"

lemma marks_ok_left:
  "marks_ok form rs (calls, marked, un) \<Longrightarrow> marks_ok form (rs @ [m]) (calls, marked, un @ [m])"
  by (simp add: marks_ok_def)

lemma marks_ok_mark:
  assumes ok: "marks_ok form rs (calls, marked, un)" and new: "n \<notin> set marked" and can: "canMark form n"
  shows "marks_ok form (rs @ [m]) (calls @ [SetError n (JStr m)], marked @ [n], un)"
proof -
  have s: "shown (calls @ [SetError n (JStr m)]) k = (if k = n then Some (JStr m) else shown calls k)" for k
    by (simp add: shown_append)
  have "map (the \<circ> shown (calls @ [SetError n (JStr m)])) marked = map (the \<circ> shown calls) marked"
    using new by (auto simp: s)
  then have old: "image_mset (the \<circ> shown (calls @ [SetError n (JStr m)])) (mset marked)
      = image_mset (the \<circ> shown calls) (mset marked)"
    by (metis mset_map)
  show ?thesis using assms unfolding marks_ok_def by (auto simp: s old)
qed

lemma apply_fields_ok:
  "marks_ok form rs s \<Longrightarrow>
   marks_ok form (rs @ map (reason_of fmap labels t) fes) (apply_fields form fmap labels t fes s)"
proof (induction fes arbitrary: rs s)
  case (Cons fe fes)
  obtain calls marked un where s: "s = (calls, marked, un)" by (cases s) auto
  have left: "marks_ok form (rs @ [reason_of fmap labels t fe]) (calls, marked, un @ [reason_of fmap labels t fe])"
    using Cons.prems by (simp add: s marks_ok_left)
  have mark: "marks_ok form (rs @ [reason_of fmap labels t fe])
      (calls @ [SetError n (JStr (reason_of fmap labels t fe))], marked @ [n], un)"
    if "canMark form n" "n \<notin> set marked" for n
    using Cons.prems that by (simp add: s marks_ok_mark)
  show ?case
    using Cons.IH [OF left] Cons.IH [OF mark] by (auto simp: s Let_def split: option.splits)
qed simp

lemma marks_ok_start: "marks_ok form [] ([ClearErrors p], [], [])"
  by (simp add: marks_ok_def)

lemma reasons_eq:
  "reasons err fmap labels t =
     (let fs = (case err_fields err of None \<Rightarrow> [] | Some fs \<Rightarrow> fs)
      in map JStr (map (reason_of fmap labels t) fs) @ (if fs = [] then [describeError err t] else []))"
  by (auto simp: reasons_def split: option.splits)

text \<open>
  C5: Whatever the server refused, every reason is on screen exactly once: on an input
  of the form that is registered and connected, no input getting two, or else in the
  form-level message, which is there just when some reason found no input of its own.
\<close>

theorem every_reason_is_shown:
  assumes slot: "\<not> canMark form SERVER_ERROR_PATH"
  shows "\<exists>calls res rest.
     applyServerFieldErrors form err fmap labels t = (calls, res)
     \<and> mset (reasons err fmap labels t) = mset (map (the \<circ> shown calls) (marked_names res)) + mset rest
     \<and> formLevel res = (if rest = [] then None else Some (join_jvs '' '' rest))
     \<and> shown calls SERVER_ERROR_PATH = map_option JStr (formLevel res)
     \<and> distinct (marked_names res) \<and> list_all (canMark form) (marked_names res)
     \<and> (\<forall>k. shown calls k \<noteq> None \<longleftrightarrow> k \<in> set (marked_names res) \<or> (k = SERVER_ERROR_PATH \<and> rest \<noteq> []))"
proof -
  define fs where "fs = (case err_fields err of None \<Rightarrow> [] | Some fs \<Rightarrow> fs)"
  obtain calls marked strs where run:
    "apply_fields form fmap labels t fs ([ClearErrors SERVER_ERROR_PATH], [], []) = (calls, marked, strs)"
    by (metis prod_cases3)
  have ok: "marks_ok form (map (reason_of fmap labels t) fs) (calls, marked, strs)"
    using apply_fields_ok [OF marks_ok_start, of form fmap labels t fs SERVER_ERROR_PATH] run by simp
  have free: "SERVER_ERROR_PATH \<notin> set marked"
    using ok slot by (auto simp: marks_ok_def list_all_iff)
  define rest where "rest = map JStr strs @ (if fs = [] then [describeError err t] else [])"
  define all_calls where
    "all_calls = (if rest = [] then calls else calls @ [SetError SERVER_ERROR_PATH (JStr (join_jvs '' '' rest))])"
  have res: "applyServerFieldErrors form err fmap labels t =
      (all_calls, \<lparr>marked_names = marked, formLevel = if rest = [] then None else Some (join_jvs '' '' rest)\<rparr>)"
    unfolding applyServerFieldErrors_def fs_def [symmetric] run rest_def [symmetric] all_calls_def Let_def prod.case
    by (cases "rest = []") simp_all
  have shown_all: "shown all_calls k =
      (if k = SERVER_ERROR_PATH \<and> rest \<noteq> [] then Some (JStr (join_jvs '' '' rest)) else shown calls k)" for k
    by (simp add: all_calls_def shown_append)
  have keep: "map (the \<circ> shown all_calls) marked = map (the \<circ> shown calls) marked"
    using free by (auto simp: shown_all)
  have none: "shown calls SERVER_ERROR_PATH = None"
    using ok free by (auto simp: marks_ok_def)
  have "mset (reasons err fmap labels t) = mset (map (the \<circ> shown all_calls) marked) + mset rest"
    using ok unfolding reasons_eq fs_def [symmetric] Let_def keep rest_def marks_ok_def
    by (simp del: map_map)
  moreover have "\<forall>k. shown all_calls k \<noteq> None \<longleftrightarrow> k \<in> set marked \<or> (k = SERVER_ERROR_PATH \<and> rest \<noteq> [])"
    using ok by (auto simp: shown_all marks_ok_def)
  moreover have "distinct marked" "list_all (canMark form) marked" using ok by (simp_all add: marks_ok_def)
  ultimately show ?thesis
    unfolding res
    by (intro exI [of _ all_calls]
          exI [of _ "\<lparr>marked_names = marked, formLevel = if rest = [] then None else Some (join_jvs '' '' rest)\<rparr>"]
          exI [of _ rest])
       (simp add: shown_all none)
qed

definition slack_form :: form_control where
  "slack_form = \<lparr>names_mount = Some {''webhook_url'', ''token''},
     fields_tree = F_obj [(''webhook_url'', F_obj [(''_f'', F_obj [(''ref'', F_dom False)])]),
                          (''token'', F_obj [(''_f'', F_obj [(''ref'', F_dom True)])])]\<rparr>"

lemma every_reason_is_shown_witness:
  "\<not> canMark slack_form SERVER_ERROR_PATH \<and> \<not> canMark slack_form ''webhook_url''
   \<and> canMark slack_form ''token''
   \<and> (\<exists>calls res rest.
       applyServerFieldErrors slack_form
         (Validation 400 (JStr ''no'') (Some [\<lparr>fe_field = ''credentials.token'', fe_code = Required, fe_message = None\<rparr>]))
         [(''credentials.token'', ''token'')] [] (\<lambda>k _. k) = (calls, res)
       \<and> formLevel res = (if rest = [] then None else Some (join_jvs '' '' rest)))"
proof -
  have slot: "\<not> canMark slack_form SERVER_ERROR_PATH" by (simp add: canMark_def slack_form_def SERVER_ERROR_PATH_def)
  show ?thesis
    using slot every_reason_is_shown [OF slot, of
        "Validation 400 (JStr ''no'') (Some [\<lparr>fe_field = ''credentials.token'', fe_code = Required, fe_message = None\<rparr>])"
        "[(''credentials.token'', ''token'')]" "[]" "\<lambda>k _. k"]
    by (auto simp: canMark_def slack_form_def fieldRef_def own_node_def)
qed

text \<open>The wait a reader is told is off by at most half a unit of what it is told in.\<close>

lemma retry_window_minutes:
  "60 \<le> s \<Longrightarrow> s < 3570 \<Longrightarrow>
   \<exists>n. \<bar>s - 60 * n\<bar> \<le> 30 \<and> retryWindow (Some s) t = t ''error.retry.minutes'' [(''count'', T_int n)]"
  using round_div_bounds [of 60 s] by (intro exI [of _ "round_div s 60"]) (auto simp: retryWindow_def Let_def)

lemma retry_window_hours:
  "3570 \<le> s \<Longrightarrow>
   \<exists>n. \<bar>s - 3600 * n\<bar> \<le> 1800 \<and> retryWindow (Some s) t = t ''error.retry.hours'' [(''count'', T_int n)]"
  using round_div_bounds [of 60 s] round_div_bounds [of 3600 s]
  by (intro exI [of _ "round_div s 3600"]) (auto simp: retryWindow_def Let_def)

end
