(* ===== verification/AlertForms.thy ===== *)
theory AlertForms
  imports AlertRouting FormErrors
begin

text \<open>
  What the alert dialogs collect: \<open>features/alert/model/integration-forms.ts\<close> (custom headers,
  the provider forms and what an existing integration puts in them),
  \<open>shared/lib/rule-conditions.ts\<close> (a rule's filters to and from the form) and
  \<open>rule-summary.ts\<close>. A schema is what it accepts; the third-party email check and the
  platform's URL parser (protocol and host name, \<open>None\<close> when it throws) are arguments.
\<close>

section \<open>Where a server error belongs\<close>

definition WEBHOOK_FIELD_MAP :: "(string \<times> string) list" where
  "WEBHOOK_FIELD_MAP = [(''credentials.url'', ''url''), (''credentials.secret'', ''secret'')]"

definition SLACK_FIELD_MAP :: "(string \<times> string) list" where
  "SLACK_FIELD_MAP = [(''credentials.webhook_url'', ''webhook_url''), (''credentials.token'', ''token'')]"

definition EMAIL_FIELD_MAP :: "(string \<times> string) list" where
  "EMAIL_FIELD_MAP =
     [(''credentials.smtp_host'', ''smtp_host''), (''credentials.smtp_port'', ''smtp_port''),
      (''credentials.smtp_username'', ''smtp_username''), (''credentials.smtp_password'', ''smtp_password''),
      (''credentials.from_address'', ''from_address'')]"

definition CUSTOM_WEBHOOK_FIELD_MAP :: "(string \<times> string) list" where
  "CUSTOM_WEBHOOK_FIELD_MAP =
     [(''credentials.url'', ''url''), (''credentials.secret'', ''secret''), (''credentials.template'', ''template'')]"

text \<open>A server error about a credential lands on its own input when that input is on screen.\<close>

lemma credential_error_marks_input:
  assumes "map_of fmap path = Some input" "canMark form input"
  shows "marked_names (snd (applyServerFieldErrors form
      (Validation status m (Some [\<lparr>fe_field = path, fe_code = Invalid, fe_message = None\<rparr>])) fmap labels t)) = [input]
    \<and> formLevel (snd (applyServerFieldErrors form
      (Validation status m (Some [\<lparr>fe_field = path, fe_code = Invalid, fe_message = None\<rparr>])) fmap labels t)) = None"
  using assms by (simp add: applyServerFieldErrors_def form_name_def obj_lookup_def Let_def)

section \<open>Custom headers\<close>

record header_row =
  hr_name :: string
  hr_value :: string

definition is_token_char :: "char \<Rightarrow> bool" where
  "is_token_char c \<longleftrightarrow> is_alnum c \<or> c \<in> set ''!#$%&*+-.^_`|~'' \<or> c = CHR 0x27"

definition HEADER_NAME :: "string \<Rightarrow> bool" where
  "HEADER_NAME s \<longleftrightarrow> s \<noteq> [] \<and> list_all is_token_char s"

definition isBlankRow :: "header_row \<Rightarrow> bool" where
  "isBlankRow row \<longleftrightarrow> trim (hr_name row) = [] \<and> trim (hr_value row) = []"

datatype header_issue = Name_required | Name_invalid | Name_duplicate

text \<open>The issues, each with the index of its row; \<open>seen\<close> holds the lower-cased names so far.\<close>

fun header_issues :: "nat \<Rightarrow> string list \<Rightarrow> header_row list \<Rightarrow> (nat \<times> header_issue) list" where
  "header_issues index seen [] = []"
| "header_issues index seen (row # rows) =
     (if isBlankRow row then header_issues (index + 1) seen rows
      else
        let name = trim (hr_name row);
            rest = header_issues (index + 1) (to_lower name # seen) rows
        in if name = [] then (index, Name_required) # rest
           else if \<not> HEADER_NAME name then (index, Name_invalid) # rest
           else if to_lower name \<in> set seen then (index, Name_duplicate) # rest
           else rest)"

definition headersSchema :: "header_row list \<Rightarrow> (nat \<times> header_issue) list" where
  "headersSchema rows = header_issues 0 [] rows"

definition headersFromRows :: "header_row list \<Rightarrow> (string \<times> string) list" where
  "headersFromRows rows =
     from_entries (map (\<lambda>r. (trim (hr_name r), trim (hr_value r))) (filter (\<lambda>r. \<not> isBlankRow r) rows))"

definition headerRows :: "(string \<times> string) list option \<Rightarrow> header_row list" where
  "headerRows headers =
     (case headers of None \<Rightarrow> [] | Some hs \<Rightarrow> map (\<lambda>(n, v). \<lparr>hr_name = n, hr_value = v\<rparr>) hs)"

definition entry_of :: "header_row \<Rightarrow> string \<times> string" where
  "entry_of r = (trim (hr_name r), trim (hr_value r))"

definition entries_of :: "header_row list \<Rightarrow> (string \<times> string) list" where
  "entries_of rows = map entry_of (filter (\<lambda>r. \<not> isBlankRow r) rows)"

lemma entries_of_simps [simp]:
  "entries_of [] = []"
  "entries_of (row # rows) = (if isBlankRow row then entries_of rows else entry_of row # entries_of rows)"
  by (simp_all add: entries_of_def)

lemma fst_entry [simp]: "fst (entry_of r) = trim (hr_name r)"
  by (simp add: entry_of_def)

lemma no_issues:
  "header_issues i seen rows = [] \<Longrightarrow>
   distinct (map (to_lower \<circ> fst) (entries_of rows)) \<and> list_all (HEADER_NAME \<circ> fst) (entries_of rows)
   \<and> set (map (to_lower \<circ> fst) (entries_of rows)) \<inter> set seen = {}"
proof (induction i seen rows rule: header_issues.induct)
  case (2 index seen row rows)
  show ?case
  proof (cases "isBlankRow row")
    case True
    then show ?thesis using 2 by simp
  next
    case False
    have ok: "HEADER_NAME (trim (hr_name row))" "to_lower (trim (hr_name row)) \<notin> set seen"
      "header_issues (index + 1) (to_lower (trim (hr_name row)) # seen) rows = []"
      using 2(3) False by (auto simp: Let_def split: if_splits)
    have "distinct (map (to_lower \<circ> fst) (entries_of rows)) \<and> list_all (HEADER_NAME \<circ> fst) (entries_of rows)
       \<and> set (map (to_lower \<circ> fst) (entries_of rows)) \<inter> set (to_lower (trim (hr_name row)) # seen) = {}"
      by (rule 2(2) [OF False refl ok(3)])
    then show ?thesis using ok(1,2) False by (auto simp: comp_def simp del: set_map)
  qed
qed simp

lemma obj_put_fresh: "k \<notin> set (map fst ps) \<Longrightarrow> obj_put k v ps = ps @ [(k, v)]"
  by (induction k v ps rule: obj_put.induct) auto

lemma from_entries_distinct: "distinct (map fst es) \<Longrightarrow> from_entries es = es"
proof (induction es rule: rev_induct)
  case (snoc e es)
  then show ?case by (cases e) (simp add: from_entries_def obj_put_fresh)
qed (simp add: from_entries_def)

lemma headers_are_entries:
  assumes "headersSchema rows = []"
  shows "headersFromRows rows = entries_of rows"
proof -
  have "distinct (map to_lower (map fst (entries_of rows)))"
    using no_issues [of 0 "[]" rows] assms by (simp add: headersSchema_def)
  then have "distinct (map fst (entries_of rows))" by (simp only: distinct_map)
  then show ?thesis
    by (simp add: headersFromRows_def from_entries_distinct entries_of_def entry_of_def [abs_def])
qed

lemma entry_trimmed: "e \<in> set (entries_of rows) \<Longrightarrow> trim (fst e) = fst e \<and> trim (snd e) = snd e \<and> e \<noteq> ([], [])"
  by (auto simp: entries_of_def entry_of_def isBlankRow_def)

text \<open>
  Header rows the form accepts are posted as they read, one header for each row that is
  not blank and none twice whatever the case, and opening the saved integration and saving
  it again posts the same headers.
\<close>

theorem headers_roundtrip:
  assumes "headersSchema rows = []"
  shows "headersFromRows rows = entries_of rows
     \<and> distinct (map (to_lower \<circ> fst) (headersFromRows rows))
     \<and> list_all (HEADER_NAME \<circ> fst) (headersFromRows rows)
     \<and> headersFromRows (headerRows (Some (headersFromRows rows))) = headersFromRows rows"
proof -
  note h = headers_are_entries [OF assms]
  have n: "distinct (map (to_lower \<circ> fst) (entries_of rows))" "list_all (HEADER_NAME \<circ> fst) (entries_of rows)"
    using no_issues [of 0 "[]" rows] assms by (simp_all add: headersSchema_def)
  define reopened where "reopened = headerRows (Some (entries_of rows))"
  have nb: "filter (\<lambda>r. \<not> isBlankRow r) reopened = reopened"
    using entry_trimmed by (fastforce simp: reopened_def headerRows_def isBlankRow_def filter_id_conv)
  have "map (\<lambda>r. (trim (hr_name r), trim (hr_value r))) reopened = entries_of rows"
    using entry_trimmed by (auto simp: reopened_def headerRows_def intro!: map_idI)
  moreover have "distinct (map fst (entries_of rows))"
    using n(1) by (metis distinct_map map_map)
  ultimately have "headersFromRows reopened = entries_of rows"
    by (simp add: headersFromRows_def nb from_entries_distinct)
  then show ?thesis using n by (simp add: h reopened_def)
qed

lemma headers_roundtrip_witness:
  "headersFromRows (headerRows (Some (headersFromRows
      [\<lparr>hr_name = '' X-Env '', hr_value = ''prod ''\<rparr>, \<lparr>hr_name = '' '', hr_value = []\<rparr>])))
   = [(''X-Env'', ''prod'')]"
proof -
  let ?rows = "[\<lparr>hr_name = '' X-Env '', hr_value = ''prod ''\<rparr>, \<lparr>hr_name = '' '', hr_value = []\<rparr>]"
  have t: "trim ''X-Env '' = ''X-Env''" "trim ''prod '' = ''prod''"
    by (simp_all add: trim_def trim_start_def trim_end_def is_ws_def)
  have "HEADER_NAME ''X-Env''"
    by (simp add: HEADER_NAME_def is_token_char_def is_alnum_def is_lower_def is_upper_def)
  then have "headersSchema ?rows = []" by (simp add: headersSchema_def isBlankRow_def t Let_def)
  note posted = headers_roundtrip [OF this]
  have "entries_of ?rows = [(''X-Env'', ''prod'')]" by (simp add: entry_of_def isBlankRow_def t)
  then show ?thesis using posted by (elim conjE) (simp only:)
qed

section \<open>The provider forms\<close>

definition name_ok :: "string \<Rightarrow> bool" where
  "name_ok s \<longleftrightarrow> 1 \<le> length s \<and> length s \<le> 255"

record webhook_form =
  wh_name :: string
  wh_url :: "string option"
  wh_secret :: "string option"
  wh_headers :: "header_row list"
  wh_is_enabled :: bool

definition http_url_ok :: "string option \<Rightarrow> bool" where
  "http_url_ok v =
     (case v of None \<Rightarrow> True
      | Some s \<Rightarrow> s = [] \<or> trim s = [] \<or> starts_with ''http://'' s \<or> starts_with ''https://'' s)"

definition webhookFormSchema :: "webhook_form \<Rightarrow> bool" where
  "webhookFormSchema f \<longleftrightarrow> name_ok (wh_name f) \<and> http_url_ok (wh_url f) \<and> headersSchema (wh_headers f) = []"

record custom_webhook_form = webhook_form +
  cw_template :: string

definition customWebhookFormSchema :: "custom_webhook_form \<Rightarrow> bool" where
  "customWebhookFormSchema f \<longleftrightarrow>
     name_ok (wh_name f) \<and> http_url_ok (wh_url f) \<and> 1 \<le> length (cw_template f) \<and> headersSchema (wh_headers f) = []"

datatype slack_method = By_webhook | By_token

record slack_form =
  sk_name :: string
  sk_method :: slack_method
  sk_is_edit :: bool
  sk_webhook_url :: "string option"
  sk_token :: "string option"
  sk_is_enabled :: bool

datatype slack_problem =
  Webhook_url_required | Valid_url | Slack_webhook_url | Bot_token_required | Bot_token_prefix

text \<open>The URL parser gives the protocol and the host name.\<close>

definition slackWebhookUrlProblem :: "(string \<Rightarrow> (string \<times> string) option) \<Rightarrow> string option \<Rightarrow> slack_problem option" where
  "slackWebhookUrlProblem parse_url url =
     (case url of None \<Rightarrow> Some Webhook_url_required
      | Some u \<Rightarrow>
          if u = [] \<or> trim u = [] then Some Webhook_url_required
          else (case parse_url u of None \<Rightarrow> Some Valid_url
                | Some (protocol, hostname) \<Rightarrow>
                    if protocol \<noteq> ''https:'' \<or> hostname \<noteq> ''hooks.slack.com'' then Some Slack_webhook_url else None))"

definition slackTokenProblem :: "string option \<Rightarrow> bool \<Rightarrow> slack_problem option" where
  "slackTokenProblem token isEdit =
     (case token of None \<Rightarrow> if isEdit then None else Some Bot_token_required
      | Some t \<Rightarrow>
          if t = [] \<or> trim t = [] then (if isEdit then None else Some Bot_token_required)
          else if \<not> starts_with ''xoxb-'' t then Some Bot_token_prefix else None)"

definition slackFormSchema :: "(string \<Rightarrow> (string \<times> string) option) \<Rightarrow> slack_form \<Rightarrow> bool \<times> (string \<times> slack_problem) option" where
  "slackFormSchema parse_url f =
     (name_ok (sk_name f),
      if sk_method f = By_webhook
      then map_option (Pair ''webhook_url'') (slackWebhookUrlProblem parse_url (sk_webhook_url f))
      else map_option (Pair ''token'') (slackTokenProblem (sk_token f) (sk_is_edit f)))"

text \<open>Only the input of the chosen method is ever marked.\<close>

lemma slack_marks_the_visible_input:
  "snd (slackFormSchema parse_url f) = Some (path, problem) \<Longrightarrow>
   path = (if sk_method f = By_webhook then ''webhook_url'' else ''token'')"
  by (auto simp: slackFormSchema_def split: if_splits)

lemma slack_accepts_only_slack:
  "snd (slackFormSchema parse_url f) = None \<Longrightarrow> sk_method f = By_webhook \<Longrightarrow>
   \<exists>u. sk_webhook_url f = Some u \<and> parse_url u = Some (''https:'', ''hooks.slack.com'')"
  by (auto simp: slackFormSchema_def slackWebhookUrlProblem_def split: option.splits if_splits)

record email_form =
  em_name :: string
  em_smtp_host :: string
  em_smtp_port :: rat
  em_smtp_username :: "string option"
  em_smtp_password :: "string option"
  em_from_address :: string
  em_is_enabled :: bool

definition emailFormSchema :: "(string \<Rightarrow> bool) \<Rightarrow> email_form \<Rightarrow> bool" where
  "emailFormSchema is_email f \<longleftrightarrow>
     name_ok (em_name f) \<and> 1 \<le> length (em_smtp_host f)
     \<and> em_smtp_port f = of_int \<lfloor>em_smtp_port f\<rfloor> \<and> 1 \<le> em_smtp_port f \<and> em_smtp_port f \<le> 65535
     \<and> is_email (em_from_address f)"

section \<open>What an existing integration puts in the form\<close>

definition or_empty :: "string option \<Rightarrow> string" where
  "or_empty s = (case s of None \<Rightarrow> [] | Some v \<Rightarrow> v)"

text \<open>The stored credentials, by the types the code gives them.\<close>

record credentials =
  cr_url :: "string option"
  cr_secret :: "string option"
  cr_template :: "string option"
  cr_headers :: "(string \<times> string) list option"
  cr_method :: "slack_method option"
  cr_webhook_url :: "string option"
  cr_smtp_host :: "string option"
  cr_smtp_port :: "rat option"
  cr_smtp_username :: "string option"
  cr_from_address :: "string option"

record stored_integration =
  si_name :: string
  si_is_enabled :: bool
  si_credentials :: "credentials option"

definition no_credentials :: credentials where
  "no_credentials = \<lparr>cr_url = None, cr_secret = None, cr_template = None, cr_headers = None, cr_method = None,
     cr_webhook_url = None, cr_smtp_host = None, cr_smtp_port = None, cr_smtp_username = None, cr_from_address = None\<rparr>"

definition creds_of :: "stored_integration option \<Rightarrow> credentials" where
  "creds_of i = (case Option.bind i si_credentials of None \<Rightarrow> no_credentials | Some c \<Rightarrow> c)"

definition seed_name :: "stored_integration option \<Rightarrow> string" where
  "seed_name i = or_empty (map_option si_name i)"

definition seed_enabled :: "stored_integration option \<Rightarrow> bool" where
  "seed_enabled i = (case i of None \<Rightarrow> True | Some x \<Rightarrow> si_is_enabled x)"

definition webhookDefaults :: "stored_integration option \<Rightarrow> webhook_form" where
  "webhookDefaults i =
     \<lparr>wh_name = seed_name i, wh_url = Some (or_empty (cr_url (creds_of i))),
      wh_secret = Some (or_empty (cr_secret (creds_of i))), wh_headers = headerRows (cr_headers (creds_of i)),
      wh_is_enabled = seed_enabled i\<rparr>"

definition customWebhookDefaults :: "stored_integration option \<Rightarrow> custom_webhook_form" where
  "customWebhookDefaults i =
     \<lparr>wh_name = seed_name i, wh_url = Some (or_empty (cr_url (creds_of i))),
      wh_secret = Some (or_empty (cr_secret (creds_of i))), wh_headers = headerRows (cr_headers (creds_of i)),
      wh_is_enabled = seed_enabled i, cw_template = or_empty (cr_template (creds_of i))\<rparr>"

definition slackDefaults :: "stored_integration option \<Rightarrow> slack_form" where
  "slackDefaults i =
     \<lparr>sk_name = seed_name i, sk_method = (case cr_method (creds_of i) of None \<Rightarrow> By_webhook | Some m \<Rightarrow> m),
      sk_is_edit = (i \<noteq> None), sk_webhook_url = Some (or_empty (cr_webhook_url (creds_of i))),
      sk_token = Some [], sk_is_enabled = seed_enabled i\<rparr>"

definition emailDefaults :: "stored_integration option \<Rightarrow> email_form" where
  "emailDefaults i =
     \<lparr>em_name = seed_name i, em_smtp_host = or_empty (cr_smtp_host (creds_of i)),
      em_smtp_port = (case cr_smtp_port (creds_of i) of None \<Rightarrow> 587 | Some p \<Rightarrow> p),
      em_smtp_username = Some (or_empty (cr_smtp_username (creds_of i))), em_smtp_password = Some [],
      em_from_address = or_empty (cr_from_address (creds_of i)), em_is_enabled = seed_enabled i\<rparr>"

text \<open>An untouched bot integration is accepted: its token is left alone.\<close>

lemma untouched_bot_is_accepted:
  "i = Some x \<Longrightarrow> cr_method (creds_of i) = Some By_token \<Longrightarrow> name_ok (si_name x) \<Longrightarrow>
   slackFormSchema parse_url (slackDefaults i) = (True, None)"
  by (simp add: slackFormSchema_def slackDefaults_def slackTokenProblem_def seed_name_def or_empty_def)

section \<open>A rule's filters\<close>

datatype level = L_debug | L_info | L_warning | L_error | L_fatal

datatype alert_type = New_issue | Regression | Unmute | New_feedback

text \<open>The stored conditions: an object whose keys are absent when a filter is at its default.\<close>

record conditions =
  cd_min_level :: "level option"
  cd_environments :: "string list option"
  cd_min_events :: "int option"

record filter_fields =
  ff_min_level :: "level option"
  ff_environments :: string
  ff_min_events :: int

datatype environments_input = Typed string | Picked "string list"

text \<open>\<open>ff_min_level\<close> is \<open>None\<close> for \<open>'any'\<close>.\<close>

definition conditionsFromForm :: "level option \<Rightarrow> int \<Rightarrow> alert_type \<Rightarrow> environments_input \<Rightarrow> conditions" where
  "conditionsFromForm min_level min_events alert_type environments =
     (let names = (case environments of Typed line \<Rightarrow> split_on (CHR '','') line | Picked ns \<Rightarrow> ns);
          envs = filter (\<lambda>e. e \<noteq> []) (map trim names)
      in \<lparr>cd_min_level = (if min_level \<noteq> None \<and> alert_type \<noteq> New_feedback then min_level else None),
          cd_environments = (if envs \<noteq> [] then Some envs else None),
          cd_min_events = (if alert_type = New_issue \<and> min_events > 1 then Some min_events else None)\<rparr>)"

definition environmentsOf :: "conditions \<Rightarrow> string list" where
  "environmentsOf c = (case cd_environments c of None \<Rightarrow> [] | Some es \<Rightarrow> es)"

definition formFromConditions :: "conditions \<Rightarrow> filter_fields" where
  "formFromConditions c =
     \<lparr>ff_min_level = cd_min_level c, ff_environments = join_with '', '' (environmentsOf c),
      ff_min_events = (case cd_min_events c of None \<Rightarrow> 1 | Some n \<Rightarrow> n)\<rparr>"

text \<open>Conditions as the form saves them for a rule of one type.\<close>

definition conditions_ok :: "alert_type \<Rightarrow> conditions \<Rightarrow> bool" where
  "conditions_ok t c \<longleftrightarrow>
     (t = New_feedback \<longrightarrow> cd_min_level c = None)
     \<and> (case cd_environments c of None \<Rightarrow> True
        | Some es \<Rightarrow> es \<noteq> [] \<and> list_all (\<lambda>e. trim e = e \<and> e \<noteq> []) es)
     \<and> (case cd_min_events c of None \<Rightarrow> True | Some n \<Rightarrow> t = New_issue \<and> n > 1)"

lemma saved_conditions_ok: "conditions_ok t (conditionsFromForm l n t e)"
  by (auto simp: conditions_ok_def conditionsFromForm_def Let_def list_all_iff split: option.splits)

text \<open>
  A rule's filters survive the dialog: what any form saves is read back and saved again as
  it was, with the environments picked name by name whatever they hold, and typed as one line
  where no name holds a comma.
\<close>

theorem conditions_roundtrip:
  assumes "conditions_ok t c"
  shows "conditionsFromForm (ff_min_level (formFromConditions c)) (ff_min_events (formFromConditions c)) t
           (Picked (environmentsOf c)) = c
     \<and> (list_all (\<lambda>e. CHR '','' \<notin> set e) (environmentsOf c) \<longrightarrow>
         conditionsFromForm (ff_min_level (formFromConditions c)) (ff_min_events (formFromConditions c)) t
           (Typed (ff_environments (formFromConditions c))) = c)"
proof (intro conjI impI)
  obtain l es n where c: "c = \<lparr>cd_min_level = l, cd_environments = es, cd_min_events = n\<rparr>" by (cases c)
  have e: "filter (\<lambda>e. e \<noteq> []) (map trim (environmentsOf c)) = environmentsOf c"
    using assms by (auto simp: conditions_ok_def environmentsOf_def list_all_iff c filter_id_conv
        intro!: map_idI split: option.splits)
  show "conditionsFromForm (ff_min_level (formFromConditions c)) (ff_min_events (formFromConditions c)) t
      (Picked (environmentsOf c)) = c"
    unfolding conditionsFromForm_def Let_def environments_input.case e
    using assms by (auto simp: formFromConditions_def conditions_ok_def environmentsOf_def c split: option.splits)
  assume commas: "list_all (\<lambda>e. CHR '','' \<notin> set e) (environmentsOf c)"
  have "filter (\<lambda>e. e \<noteq> []) (map trim (split_on (CHR '','') (join_with '', '' (environmentsOf c)))) = environmentsOf c"
  proof (cases "environmentsOf c = []")
    case True
    then show ?thesis by simp
  next
    case False
    have "\<forall>w \<in> set (environmentsOf c). CHR '','' \<notin> set w \<and> trim w = w \<and> w \<noteq> []"
      using assms commas by (auto simp: conditions_ok_def environmentsOf_def list_all_iff split: option.splits)
    from recipients_roundtrip [OF False this] show ?thesis by (simp add: recipientList_def)
  qed
  then have e2: "filter (\<lambda>e. e \<noteq> []) (map trim (split_on (CHR '','') (ff_environments (formFromConditions c)))) = environmentsOf c"
    by (simp add: formFromConditions_def)
  show "conditionsFromForm (ff_min_level (formFromConditions c)) (ff_min_events (formFromConditions c)) t
      (Typed (ff_environments (formFromConditions c))) = c"
    unfolding conditionsFromForm_def Let_def environments_input.case e2
    using assms by (auto simp: formFromConditions_def conditions_ok_def environmentsOf_def c split: option.splits)
qed

lemma conditions_roundtrip_witness:
  "conditionsFromForm (Some L_error) 10 New_issue (Typed ''prod, staging'') =
    \<lparr>cd_min_level = Some L_error, cd_environments = Some [''prod'', ''staging''], cd_min_events = Some 10\<rparr>"
proof -
  let ?c = "\<lparr>cd_min_level = Some L_error, cd_environments = Some [''prod'', ''staging''], cd_min_events = Some 10\<rparr>"
  have "trim ''prod'' = ''prod''" "trim ''staging'' = ''staging''"
    by (simp_all add: trim_def trim_start_def trim_end_def is_ws_def)
  then have "conditions_ok New_issue ?c" by (simp add: conditions_ok_def)
  from conditions_roundtrip [OF this] show ?thesis
    by (simp add: formFromConditions_def environmentsOf_def)
qed

text \<open>A level left from another rule type is not sent for feedback, nor a count for anything but new issues.\<close>

lemma meaningless_filters_dropped:
  "cd_min_level (conditionsFromForm l n New_feedback e) = None"
  "t \<noteq> New_issue \<Longrightarrow> cd_min_events (conditionsFromForm l n t e) = None"
  by (simp_all add: conditionsFromForm_def Let_def)

section \<open>The rule in a sentence\<close>

definition COOLDOWN_PRESETS :: "int list" where
  "COOLDOWN_PRESETS = [0, 5, 60, 1440]"

definition DEFAULT_COOLDOWN :: int where
  "DEFAULT_COOLDOWN = 60"

datatype cooldown_unit = Cd_minute | Cd_hour | Cd_day

definition cooldownUnit :: "int \<Rightarrow> (cooldown_unit \<times> int) option" where
  "cooldownUnit minutes =
     (if minutes \<le> 0 then None
      else if minutes mod 1440 = 0 then Some (Cd_day, minutes div 1440)
      else if minutes mod 60 = 0 then Some (Cd_hour, minutes div 60)
      else Some (Cd_minute, minutes))"

fun unit_minutes :: "cooldown_unit \<Rightarrow> int" where
  "unit_minutes Cd_minute = 1"
| "unit_minutes Cd_hour = 60"
| "unit_minutes Cd_day = 1440"

lemma cooldown_is_exact: "cooldownUnit m = Some (u, n) \<Longrightarrow> n * unit_minutes u = m \<and> 0 < n"
  by (auto simp: cooldownUnit_def split: if_splits)

record rule_response =
  rr_alert_type :: alert_type
  rr_conditions :: conditions
  rr_cooldown_minutes :: int
  rr_integration_ids :: "int list"

record channel =
  ch_id :: int
  ch_name :: string
  ch_is_enabled :: bool

record rule_shape =
  rs_type :: alert_type
  rs_environments :: "string list"
  rs_minLevel :: "level option"
  rs_minEvents :: int
  rs_cooldownMinutes :: int
  rs_channels :: "string list"

definition ruleShape :: "rule_response \<Rightarrow> channel list \<Rightarrow> rule_shape" where
  "ruleShape rule integrations =
     (let filters = formFromConditions (rr_conditions rule)
      in \<lparr>rs_type = rr_alert_type rule, rs_environments = environmentsOf (rr_conditions rule),
          rs_minLevel = ff_min_level filters, rs_minEvents = ff_min_events filters,
          rs_cooldownMinutes = rr_cooldown_minutes rule,
          rs_channels = map ch_name (filter (\<lambda>i. ch_is_enabled i \<and> ch_id i \<in> set (rr_integration_ids rule)) integrations)\<rparr>)"

end
