(* ===== verification/Timestamps.thy ===== *)
theory Timestamps
  imports JsBase
begin

text \<open>
  \<open>shared/lib/protocol-timestamp.ts\<close>: a timestamp of the event protocol read as epoch
  seconds. The calendar is that of ECMAScript's \<open>Date\<close>; \<open>Date.parse\<close> is modelled on the
  date-time format the standard fixes, and the argument \<open>other\<close> stands for what an engine
  makes of any other text (milliseconds, or \<open>None\<close> for \<open>NaN\<close>).
\<close>

section \<open>The calendar of Date\<close>

definition DayFromYear :: "int \<Rightarrow> int" where
  "DayFromYear y = 365 * (y - 1970) + (y - 1969) div 4 - (y - 1901) div 100 + (y - 1601) div 400"

definition is_leap :: "int \<Rightarrow> bool" where
  "is_leap y \<longleftrightarrow> 4 dvd y \<and> (\<not> 100 dvd y \<or> 400 dvd y)"

definition month_lengths :: "int \<Rightarrow> int list" where
  "month_lengths y = [31, if is_leap y then 29 else 28, 31, 30, 31, 30, 31, 31, 30, 31, 30, 31]"

definition MakeDay :: "int \<Rightarrow> int \<Rightarrow> int \<Rightarrow> int" where
  "MakeDay year month date =
     (let ym = year + month div 12
      in DayFromYear ym + sum_list (take (nat (month mod 12)) (month_lengths ym)) + date - 1)"

lemma div_Suc_int:
  assumes k: "0 < (k::int)"
  shows "(n + 1) div k = n div k + (if k dvd n + 1 then 1 else 0)"
proof (cases "k dvd n + 1")
  case True
  then obtain q where q: "n + 1 = k * q" by (rule dvdE)
  have "n div k = q - 1"
    by (rule int_div_pos_eq [where r = "k - 1"]) (use q k in \<open>simp_all add: algebra_simps\<close>)
  then show ?thesis using q k by simp
next
  case False
  have r: "0 \<le> n mod k" "n mod k < k" using k by simp_all
  have e: "n + 1 = k * (n div k) + (n mod k + 1)" using mult_div_mod_eq [of k n] by simp
  have "n mod k + 1 \<noteq> k"
  proof
    assume "n mod k + 1 = k"
    with e have "n + 1 = k * (n div k) + k" by simp
    then have "n + 1 = k * (n div k + 1)" by (simp add: distrib_left)
    with False show False by (metis dvd_triv_left)
  qed
  then have "(n + 1) div k = n div k"
    by (intro int_div_pos_eq [where r = "n mod k + 1"]) (use e r in simp_all)
  with False show ?thesis by simp
qed

lemma dvd_shift: "k dvd c \<Longrightarrow> k dvd (y::int) - c \<longleftrightarrow> k dvd y"
  by (simp add: dvd_diff_left_iff)

lemma days_of_year: "DayFromYear (y + 1) = DayFromYear y + sum_list (month_lengths y)"
proof -
  define A where "A = (4 dvd y)"
  define B where "B = (100 dvd y)"
  define C where "C = (400 dvd y)"
  have "(y - 1969 + 1) div 4 = (y - 1969) div 4 + (if A then 1 else 0)"
    unfolding A_def using div_Suc_int [of 4 "y - 1969"] dvd_shift [of 4 1968 y] by simp
  moreover have "(y - 1901 + 1) div 100 = (y - 1901) div 100 + (if B then 1 else 0)"
    unfolding B_def using div_Suc_int [of 100 "y - 1901"] dvd_shift [of 100 1900 y] by simp
  moreover have "(y - 1601 + 1) div 400 = (y - 1601) div 400 + (if C then 1 else 0)"
    unfolding C_def using div_Suc_int [of 400 "y - 1601"] dvd_shift [of 400 1600 y] by simp
  moreover have "y + 1 - 1969 = y - 1969 + 1" "y + 1 - 1901 = y - 1901 + 1" "y + 1 - 1601 = y - 1601 + 1"
    by simp_all
  ultimately have step: "DayFromYear (y + 1) =
      DayFromYear y + 365 + (if A then 1 else 0) - (if B then 1 else 0) + (if C then 1 else 0)"
    unfolding DayFromYear_def by simp
  have BA: "B \<Longrightarrow> A" unfolding A_def B_def by (rule dvd_trans) simp_all
  have CB: "C \<Longrightarrow> B" unfolding B_def C_def by (rule dvd_trans) simp_all
  have leap: "is_leap y \<longleftrightarrow> A \<and> (\<not> B \<or> C)" by (simp add: is_leap_def A_def B_def C_def)
  show ?thesis unfolding step month_lengths_def leap using BA CB by (cases A; cases B; cases C) simp_all
qed

lemma year_length: "sum_list (month_lengths y) \<in> {365, 366}"
  by (simp add: month_lengths_def)

lemma day_from_year_grows: "DayFromYear y + 365 \<le> DayFromYear (y + 1)"
  using year_length [of y] by (auto simp: days_of_year)

lemma day_from_year_mono: "y \<le> z \<Longrightarrow> DayFromYear y \<le> DayFromYear z"
proof (induction "nat (z - y)" arbitrary: z)
  case (Suc n)
  then have "DayFromYear y \<le> DayFromYear (z - 1)" by simp
  then show ?case using day_from_year_grows [of "z - 1"] by simp
qed simp

text \<open>
  \<open>getUTCFullYear\<close>: the greatest year that starts by the day, found from an estimate by
  walking down and then up.
\<close>

function year_down :: "int \<Rightarrow> int \<Rightarrow> int" where
  "year_down y d = (if d < DayFromYear y then year_down (y - 1) d else y)"
  by pat_completeness auto
termination
proof (relation "measure (\<lambda>(y, d). nat (DayFromYear y - d))")
  fix y d :: int
  assume "d < DayFromYear y"
  then show "((y - 1, d), (y, d)) \<in> measure (\<lambda>(y, d). nat (DayFromYear y - d))"
    using day_from_year_grows [of "y - 1"] by simp
qed simp

function year_up :: "int \<Rightarrow> int \<Rightarrow> int" where
  "year_up y d = (if DayFromYear (y + 1) \<le> d then year_up (y + 1) d else y)"
  by pat_completeness auto
termination
proof (relation "measure (\<lambda>(y, d). nat (d - DayFromYear y))")
  fix y d :: int
  assume "DayFromYear (y + 1) \<le> d"
  then show "((y + 1, d), (y, d)) \<in> measure (\<lambda>(y, d). nat (d - DayFromYear y))"
    using day_from_year_grows [of y] by simp
qed simp

declare year_down.simps [simp del] year_up.simps [simp del]

definition year_of_day :: "int \<Rightarrow> int" where
  "year_of_day d = year_up (year_down (1970 + 400 * d div 146097) d) d"

fun month_walk :: "int list \<Rightarrow> int \<Rightarrow> nat \<times> int" where
  "month_walk [] doy = (0, doy + 1)"
| "month_walk (n # ns) doy =
     (if doy < n then (0, doy + 1) else case month_walk ns (doy - n) of (m, d) \<Rightarrow> (Suc m, d))"

definition UTC_date :: "int \<Rightarrow> int \<times> int \<times> int" where
  "UTC_date d =
     (let y = year_of_day d
      in case month_walk (month_lengths y) (d - DayFromYear y) of (m, dt) \<Rightarrow> (y, int m, dt))"

lemma year_down_le: "DayFromYear (year_down y d) \<le> d"
  by (induction y d rule: year_down.induct) (subst year_down.simps, simp)

lemma year_up_spec:
  "DayFromYear y \<le> d \<Longrightarrow> DayFromYear (year_up y d) \<le> d \<and> d < DayFromYear (year_up y d + 1)"
  by (induction y d rule: year_up.induct) (subst (1 2) year_up.simps, simp)

lemma year_of_day_spec: "DayFromYear (year_of_day d) \<le> d" "d < DayFromYear (year_of_day d + 1)"
  using year_up_spec [OF year_down_le] by (simp_all add: year_of_day_def)

lemma year_of_day_unique:
  assumes "DayFromYear y \<le> d" "d < DayFromYear (y + 1)"
  shows "year_of_day d = y"
proof (rule antisym)
  show "year_of_day d \<le> y"
    using assms(2) year_of_day_spec(1) [of d] day_from_year_mono [of "y + 1" "year_of_day d"] by fastforce
  show "y \<le> year_of_day d"
    using assms(1) year_of_day_spec(2) [of d] day_from_year_mono [of "year_of_day d + 1" y] by fastforce
qed

lemma month_walk_back:
  "m < length ns \<Longrightarrow> 1 \<le> d \<Longrightarrow> d \<le> ns ! m \<Longrightarrow> \<forall>n \<in> set ns. 0 \<le> n \<Longrightarrow>
   month_walk ns (sum_list (take m ns) + d - 1) = (m, d)"
proof (induction ns arbitrary: m)
  case (Cons n ns)
  show ?case
  proof (cases m)
    case (Suc k)
    have "0 \<le> sum_list (take k ns)" using Cons.prems(4) by (auto intro!: sum_list_nonneg dest: in_set_takeD)
    moreover have "month_walk ns (sum_list (take k ns) + d - 1) = (k, d)" using Cons Suc by auto
    ultimately show ?thesis using Cons.prems(2) by (simp add: Suc algebra_simps)
  qed (use Cons.prems in simp)
qed simp

lemma month_walk_range:
  "0 \<le> doy \<Longrightarrow> doy < sum_list ns \<Longrightarrow>
   (case month_walk ns doy of (m, d) \<Rightarrow> m < length ns \<and> 1 \<le> d \<and> d \<le> ns ! m)"
proof (induction ns arbitrary: doy)
  case (Cons n ns)
  show ?case
  proof (cases "doy < n")
    case False
    then have "case month_walk ns (doy - n) of (m, d) \<Rightarrow> m < length ns \<and> 1 \<le> d \<and> d \<le> ns ! m"
      using Cons.prems by (intro Cons.IH) simp_all
    with False show ?thesis by (auto split: prod.splits)
  qed (use Cons.prems in simp)
qed simp

section \<open>Calendar dates\<close>

definition isRealCalendarDate :: "int \<Rightarrow> int \<Rightarrow> int \<Rightarrow> bool" where
  "isRealCalendarDate year month day =
     (UTC_date (MakeDay year (month - 1) day) = (year, month - 1, day))"

lemma month_lengths_pos: "n \<in> set (month_lengths y) \<Longrightarrow> 0 \<le> n"
  by (auto simp: month_lengths_def split: if_splits)

lemma length_months [simp]: "length (month_lengths y) = 12"
  by (simp add: month_lengths_def)

lemma real_date_iff:
  "isRealCalendarDate y m d \<longleftrightarrow> 1 \<le> m \<and> m \<le> 12 \<and> 1 \<le> d \<and> d \<le> month_lengths y ! nat (m - 1)"
proof
  assume r: "isRealCalendarDate y m d"
  define day where "day = MakeDay y (m - 1) d"
  have "0 \<le> day - DayFromYear (year_of_day day)"
    "day - DayFromYear (year_of_day day) < sum_list (month_lengths (year_of_day day))"
    using year_of_day_spec [of day] by (simp_all add: days_of_year)
  note range = month_walk_range [OF this]
  obtain k dt where w: "month_walk (month_lengths (year_of_day day)) (day - DayFromYear (year_of_day day)) = (k, dt)"
    by (cases "month_walk (month_lengths (year_of_day day)) (day - DayFromYear (year_of_day day))")
  have y: "year_of_day day = y" and m: "m = int k + 1" and dt: "dt = d"
    using r w by (simp_all add: isRealCalendarDate_def UTC_date_def Let_def day_def [symmetric])
  from range show "1 \<le> m \<and> m \<le> 12 \<and> 1 \<le> d \<and> d \<le> month_lengths y ! nat (m - 1)"
    by (simp add: w m dt flip: y)
next
  assume a: "1 \<le> m \<and> m \<le> 12 \<and> 1 \<le> d \<and> d \<le> month_lengths y ! nat (m - 1)"
  let ?ns = "month_lengths y" and ?m = "nat (m - 1)"
  have m: "?m < length ?ns" "(m - 1) div 12 = 0" "(m - 1) mod 12 = m - 1" using a by auto
  have day: "MakeDay y (m - 1) d = DayFromYear y + sum_list (take ?m ?ns) + d - 1"
    by (simp add: MakeDay_def m)
  have "0 \<le> sum_list (take ?m ?ns)"
    by (rule sum_list_nonneg) (blast intro: month_lengths_pos dest: in_set_takeD)
  moreover have "sum_list (take ?m ?ns) + ?ns ! ?m \<le> sum_list ?ns"
  proof -
    have "sum_list ?ns = sum_list (take (Suc ?m) ?ns) + sum_list (drop (Suc ?m) ?ns)"
      by (metis append_take_drop_id sum_list_append)
    moreover have "0 \<le> sum_list (drop (Suc ?m) ?ns)"
      by (rule sum_list_nonneg) (blast intro: month_lengths_pos dest: in_set_dropD)
    ultimately show ?thesis using m(1) by (simp add: take_Suc_conv_app_nth)
  qed
  ultimately have y: "year_of_day (MakeDay y (m - 1) d) = y"
    using a by (intro year_of_day_unique) (simp_all add: day days_of_year)
  have "month_walk ?ns (sum_list (take ?m ?ns) + d - 1) = (?m, d)"
    using a m(1) by (intro month_walk_back) (auto intro: month_lengths_pos)
  then show "isRealCalendarDate y m d"
    using a by (simp add: isRealCalendarDate_def UTC_date_def y) (simp add: day add_diff_eq [symmetric])
qed

section \<open>The grammar\<close>

definition digits_upto :: "nat \<Rightarrow> nat \<Rightarrow> string \<Rightarrow> bool" where
  "digits_upto n most s \<longleftrightarrow> length s = n \<and> list_all is_digit s \<and> digits_val s \<le> most"

text \<open>\<open>[+-]\d{2}:?\d{2}\<close>, and \<open>Z\<close> or \<open>z\<close>.\<close>

definition is_offset :: "string \<Rightarrow> bool" where
  "is_offset s \<longleftrightarrow>
     s = ''Z'' \<or> s = ''z'' \<or>
     (s \<noteq> [] \<and> (hd s = CHR ''+'' \<or> hd s = CHR ''-'') \<and>
      ((length s = 5 \<and> list_all is_digit (tl s)) \<or>
       (length s = 6 \<and> s ! 3 = CHR '':'' \<and> list_all is_digit (take 2 (tl s)) \<and> list_all is_digit (drop 4 s))))"

record iso_groups =
  g_year :: string
  g_month :: string
  g_day :: string
  g_hourMinute :: string
  g_second :: string
  g_fraction :: "string option"
  g_offset :: "string option"

definition match_tail :: "string \<Rightarrow> (string option \<times> string option) option" where
  "match_tail r =
     (let dot = starts_with ''.'' r;
          fr = (if dot then takeWhile is_digit (tl r) else []);
          rest = (if dot then dropWhile is_digit (tl r) else r)
      in if dot \<and> fr = [] then None
         else if rest = [] then Some (if dot then Some fr else None, None)
         else if is_offset rest then Some (if dot then Some fr else None, Some rest)
         else None)"

definition match_ISO_DATE_TIME :: "string \<Rightarrow> iso_groups option" where
  "match_ISO_DATE_TIME s =
     (if 19 \<le> length s
         \<and> digits_upto 4 9999 (take 4 s) \<and> s ! 4 = CHR ''-''
         \<and> digits_upto 2 99 (take 2 (drop 5 s)) \<and> s ! 7 = CHR ''-''
         \<and> digits_upto 2 99 (take 2 (drop 8 s)) \<and> s ! 10 \<in> set ''Tt ''
         \<and> digits_upto 2 23 (take 2 (drop 11 s)) \<and> s ! 13 = CHR '':''
         \<and> digits_upto 2 59 (take 2 (drop 14 s)) \<and> s ! 16 = CHR '':''
         \<and> digits_upto 2 60 (take 2 (drop 17 s))
      then (case match_tail (drop 19 s) of None \<Rightarrow> None
            | Some (fr, offset) \<Rightarrow>
                Some \<lparr>g_year = take 4 s, g_month = take 2 (drop 5 s), g_day = take 2 (drop 8 s),
                      g_hourMinute = take 5 (drop 11 s), g_second = take 2 (drop 17 s),
                      g_fraction = fr, g_offset = offset\<rparr>)
      else None)"

section \<open>Date.parse\<close>

text \<open>The zone of the standard's format, in minutes: \<open>Z\<close> or a sign and \<open>HH:mm\<close>.\<close>

definition zone_minutes :: "string \<Rightarrow> int option" where
  "zone_minutes z =
     (if z = ''Z'' then Some 0
      else if length z = 6 \<and> (hd z = CHR ''+'' \<or> hd z = CHR ''-'') \<and> z ! 3 = CHR '':''
              \<and> digits_upto 2 23 (take 2 (drop 1 z)) \<and> digits_upto 2 59 (drop 4 z)
      then Some ((if hd z = CHR ''-'' then -1 else 1) *
                 (60 * int (digits_val (take 2 (drop 1 z))) + int (digits_val (drop 4 z))))
      else None)"

definition int_of_digits :: "string \<Rightarrow> int" where
  "int_of_digits s = int (digits_val s)"

definition Date_parse :: "(string \<Rightarrow> rat option) \<Rightarrow> string \<Rightarrow> rat option" where
  "Date_parse other s =
     (let year = int_of_digits (take 4 s); month = int_of_digits (take 2 (drop 5 s));
          day = int_of_digits (take 2 (drop 8 s))
      in if 19 \<le> length s
            \<and> digits_upto 4 9999 (take 4 s) \<and> s ! 4 = CHR ''-''
            \<and> digits_upto 2 12 (take 2 (drop 5 s)) \<and> s ! 7 = CHR ''-''
            \<and> digits_upto 2 31 (take 2 (drop 8 s)) \<and> s ! 10 = CHR ''T''
            \<and> digits_upto 2 23 (take 2 (drop 11 s)) \<and> s ! 13 = CHR '':''
            \<and> digits_upto 2 59 (take 2 (drop 14 s)) \<and> s ! 16 = CHR '':''
            \<and> digits_upto 2 59 (take 2 (drop 17 s))
            \<and> 1 \<le> month \<and> 1 \<le> day \<and> day \<le> month_lengths year ! nat (month - 1)
         then (case zone_minutes (drop 19 s) of None \<Rightarrow> other s
               | Some z \<Rightarrow> Some (of_int (1000 * (86400 * MakeDay year (month - 1) day
                   + 3600 * int_of_digits (take 2 (drop 11 s)) + 60 * int_of_digits (take 2 (drop 14 s))
                   + int_of_digits (take 2 (drop 17 s)) - 60 * z))))
         else other s)"

section \<open>Reading a timestamp\<close>

definition upper_z :: "string \<Rightarrow> string" where
  "upper_z s = map (\<lambda>c. if c = CHR ''z'' then CHR ''Z'' else c) s"

definition rebuilt :: "iso_groups \<Rightarrow> string" where
  "rebuilt g = g_year g @ ''-'' @ g_month g @ ''-'' @ g_day g @ ''T'' @ g_hourMinute g @ '':''
     @ (if g_second g = ''60'' then ''59'' else g_second g)
     @ (case g_offset g of None \<Rightarrow> ''Z'' | Some z \<Rightarrow> upper_z z)"

definition fraction_value :: "string option \<Rightarrow> rat" where
  "fraction_value fr =
     (case fr of None \<Rightarrow> 0
      | Some f \<Rightarrow> if f = [] then 0
                  else (case js_Number (''0.'' @ f) of Fin q \<Rightarrow> q | _ \<Rightarrow> 0))"

definition parseEpochSeconds :: "(string \<Rightarrow> rat option) \<Rightarrow> jv \<Rightarrow> rat option" where
  "parseEpochSeconds other raw =
     (case raw of
        JNum x \<Rightarrow> (case x of Fin q \<Rightarrow> Some q | _ \<Rightarrow> None)
      | JStr s \<Rightarrow>
          (case match_ISO_DATE_TIME s of None \<Rightarrow> None
           | Some g \<Rightarrow>
               if \<not> isRealCalendarDate (int_of_digits (g_year g)) (int_of_digits (g_month g)) (int_of_digits (g_day g))
               then None
               else (case Date_parse other (rebuilt g) of None \<Rightarrow> None
                     | Some ms \<Rightarrow> Some (ms / 1000 + (if g_second g = ''60'' then 1 else 0)
                                         + fraction_value (g_fraction g))))
      | _ \<Rightarrow> None)"

section \<open>Timestamps as they are written\<close>

definition pad2 :: "int \<Rightarrow> string" where
  "pad2 n = [digit_char (nat n div 10), digit_char (nat n mod 10)]"

definition pad4 :: "int \<Rightarrow> string" where
  "pad4 n = [digit_char (nat n div 1000), digit_char (nat n div 100 mod 10),
             digit_char (nat n div 10 mod 10), digit_char (nat n mod 10)]"

datatype zone = Z_none | Z_upper | Z_lower | Z_offset bool int int

fun zone_str :: "zone \<Rightarrow> string" where
  "zone_str Z_none = []"
| "zone_str Z_upper = ''Z''"
| "zone_str Z_lower = ''z''"
| "zone_str (Z_offset west h m) = (if west then ''-'' else ''+'') @ pad2 h @ '':'' @ pad2 m"

fun zone_ok :: "zone \<Rightarrow> bool" where
  "zone_ok (Z_offset west h m) = (0 \<le> h \<and> h \<le> 23 \<and> 0 \<le> m \<and> m \<le> 59)"
| "zone_ok _ = True"

fun zone_seconds :: "zone \<Rightarrow> int" where
  "zone_seconds (Z_offset west h m) = (if west then -1 else 1) * (3600 * h + 60 * m)"
| "zone_seconds _ = 0"

record moment =
  m_year :: int
  m_month :: int
  m_day :: int
  m_hour :: int
  m_minute :: int
  m_second :: int
  m_fraction :: string
  m_zone :: zone

definition moment_ok :: "moment \<Rightarrow> bool" where
  "moment_ok m \<longleftrightarrow> 0 \<le> m_year m \<and> m_year m \<le> 9999 \<and> 1 \<le> m_month m \<and> m_month m \<le> 12
     \<and> 1 \<le> m_day m \<and> m_day m \<le> month_lengths (m_year m) ! nat (m_month m - 1)
     \<and> 0 \<le> m_hour m \<and> m_hour m \<le> 23 \<and> 0 \<le> m_minute m \<and> m_minute m \<le> 59
     \<and> 0 \<le> m_second m \<and> m_second m \<le> 60 \<and> list_all is_digit (m_fraction m) \<and> zone_ok (m_zone m)"

definition write_moment :: "char \<Rightarrow> moment \<Rightarrow> string" where
  "write_moment sep m =
     pad4 (m_year m) @ ''-'' @ pad2 (m_month m) @ ''-'' @ pad2 (m_day m) @ [sep] @
     pad2 (m_hour m) @ '':'' @ pad2 (m_minute m) @ '':'' @ pad2 (m_second m) @
     (if m_fraction m = [] then [] else CHR ''.'' # m_fraction m) @ zone_str (m_zone m)"

text \<open>The instant, in seconds since 1970 in UTC.\<close>

definition instant :: "moment \<Rightarrow> rat" where
  "instant m =
     of_int (86400 * (DayFromYear (m_year m) + sum_list (take (nat (m_month m - 1)) (month_lengths (m_year m))) + m_day m - 1)
             + 3600 * m_hour m + 60 * m_minute m + m_second m - zone_seconds (m_zone m))
     + of_nat (digits_val (m_fraction m)) / 10 ^ length (m_fraction m)"

definition date_time :: "string \<Rightarrow> string \<Rightarrow> string \<Rightarrow> char \<Rightarrow> string \<Rightarrow> string \<Rightarrow> string \<Rightarrow> string \<Rightarrow> string" where
  "date_time y mo d sep h mi s r =
     y @ ''-'' @ mo @ ''-'' @ d @ [sep] @ h @ '':'' @ mi @ '':'' @ s @ r"

lemma len2: "length xs = 2 \<Longrightarrow> \<exists>a b. xs = [a, b]"
  by (auto simp: eval_nat_numeral length_Suc_conv)

lemma len4: "length xs = 4 \<Longrightarrow> \<exists>a b c d. xs = [a, b, c, d]"
  by (auto simp: eval_nat_numeral length_Suc_conv)

lemma date_time_parts:
  assumes "length y = 4" "length mo = 2" "length d = 2" "length h = 2" "length mi = 2" "length s = 2"
  shows "take 4 (date_time y mo d sep h mi s r) = y" "date_time y mo d sep h mi s r ! 4 = CHR ''-''"
    "take 2 (drop 5 (date_time y mo d sep h mi s r)) = mo" "date_time y mo d sep h mi s r ! 7 = CHR ''-''"
    "take 2 (drop 8 (date_time y mo d sep h mi s r)) = d" "date_time y mo d sep h mi s r ! 10 = sep"
    "take 2 (drop 11 (date_time y mo d sep h mi s r)) = h" "date_time y mo d sep h mi s r ! 13 = CHR '':''"
    "take 2 (drop 14 (date_time y mo d sep h mi s r)) = mi" "date_time y mo d sep h mi s r ! 16 = CHR '':''"
    "take 2 (drop 17 (date_time y mo d sep h mi s r)) = s" "drop 19 (date_time y mo d sep h mi s r) = r"
    "19 \<le> length (date_time y mo d sep h mi s r)"
    "take 5 (drop 11 (date_time y mo d sep h mi s r)) = h @ '':'' @ mi"
proof -
  note cells = len4 [OF assms(1)] assms(2-6) [THEN len2]
  show "take 4 (date_time y mo d sep h mi s r) = y" "date_time y mo d sep h mi s r ! 4 = CHR ''-''"
    "take 2 (drop 5 (date_time y mo d sep h mi s r)) = mo" "date_time y mo d sep h mi s r ! 7 = CHR ''-''"
    "take 2 (drop 8 (date_time y mo d sep h mi s r)) = d" "date_time y mo d sep h mi s r ! 10 = sep"
    "take 2 (drop 11 (date_time y mo d sep h mi s r)) = h" "date_time y mo d sep h mi s r ! 13 = CHR '':''"
    "take 2 (drop 14 (date_time y mo d sep h mi s r)) = mi" "date_time y mo d sep h mi s r ! 16 = CHR '':''"
    "take 2 (drop 17 (date_time y mo d sep h mi s r)) = s" "drop 19 (date_time y mo d sep h mi s r) = r"
    "19 \<le> length (date_time y mo d sep h mi s r)"
    "take 5 (drop 11 (date_time y mo d sep h mi s r)) = h @ '':'' @ mi"
    using cells by (clarsimp simp: date_time_def)+
qed

lemma digits_val_Cons: "digits_val [a, b] = 10 * digit_val a + digit_val b"
  "digits_val [a, b, c, d] = 1000 * digit_val a + 100 * digit_val b + 10 * digit_val c + digit_val d"
  by (simp_all add: digits_val_def)

lemma pad2_facts:
  assumes "0 \<le> n" "n \<le> 99"
  shows "length (pad2 n) = 2" "list_all is_digit (pad2 n)" "digits_val (pad2 n) = nat n"
  using assms by (auto simp: pad2_def digits_val_Cons digit_val_char_of is_digit_char_of nat_less_iff less_mult_imp_div_less)

lemma digits_sum:
  "(m::nat) = a * 10 + i \<Longrightarrow> a = b * 10 + j \<Longrightarrow> b = c * 10 + k \<Longrightarrow>
   1000 * c + 100 * k + 10 * j + i = m"
  by simp

lemma pad4_facts:
  assumes "0 \<le> n" "n \<le> 9999"
  shows "length (pad4 n) = 4" "list_all is_digit (pad4 n)" "digits_val (pad4 n) = nat n"
proof -
  have lt: "nat n div 1000 < 10" using assms by (simp add: less_mult_imp_div_less nat_less_iff)
  show "length (pad4 n) = 4" "list_all is_digit (pad4 n)"
    using lt by (simp_all add: pad4_def is_digit_char_of)
  have "1000 * (m div 1000) + 100 * (m div 100 mod 10) + 10 * (m div 10 mod 10) + m mod 10 = m" for m :: nat
  proof -
    have "m div 100 = m div 10 div 10" "m div 1000 = m div 10 div 10 div 10"
      by (simp_all flip: div_mult2_eq)
    note e = this
    show ?thesis
      unfolding e by (intro digits_sum) simp_all
  qed
  then show "digits_val (pad4 n) = nat n"
    using lt by (simp add: pad4_def digits_val_Cons digit_val_char_of)
qed

lemma pad2_upto: "0 \<le> n \<Longrightarrow> n \<le> int k \<Longrightarrow> k \<le> 99 \<Longrightarrow> digits_upto 2 k (pad2 n)"
  using pad2_facts [of n] by (simp add: digits_upto_def nat_le_iff)

lemma pad4_upto: "0 \<le> n \<Longrightarrow> n \<le> 9999 \<Longrightarrow> digits_upto 4 9999 (pad4 n)"
  using pad4_facts [of n] by (simp add: digits_upto_def nat_le_iff)

lemma int_pad [simp]:
  "0 \<le> n \<Longrightarrow> n \<le> 99 \<Longrightarrow> int_of_digits (pad2 n) = n" "0 \<le> n \<Longrightarrow> n \<le> 9999 \<Longrightarrow> int_of_digits (pad4 n) = n"
  by (simp_all add: int_of_digits_def pad2_facts pad4_facts)

lemma number_fraction:
  assumes "list_all is_digit f" "f \<noteq> []"
  shows "js_Number (''0.'' @ f) = Fin (of_nat (digits_val f) / 10 ^ length f)"
proof -
  have d: "\<forall>c \<in> set f. is_digit c" using assms(1) by (simp add: list_all_iff)
  have tk: "takeWhile is_digit f = f" "dropWhile is_digit f = []"
    using d by (simp_all add: takeWhile_eq_all_conv dropWhile_eq_Nil_conv)
  have nw: "\<forall>c \<in> set (''0.'' @ f). \<not> is_ws c"
    using d is_digit_facts(1) by (auto simp: is_ws_def)
  have sig: "is_digit (CHR ''0'')" "\<not> is_digit (CHR ''.'')" by (simp_all add: is_digit_def)
  have z: "digit_val (CHR ''0'') = 0" by (simp add: digit_val_def)
  have ud: "unsigned_decimal (''0.'' @ f) = Fin (scale10 (digits_val f) (- int (length f)))"
    using assms(2) sig z
    by (simp add: unsigned_decimal_def starts_with_def exponent_of_def digits_val_def Let_def tk)
  have low: "to_lower (take 2 (''0.'' @ f)) = ''0.''" by (simp add: to_lower_def char_lower_def)
  have t: "trim (''0.'' @ f) = CHR ''0'' # CHR ''.'' # f" using trim_no_ws [OF nw] by simp
  have "js_Number (''0.'' @ f) = unsigned_decimal (''0.'' @ f)"
    unfolding js_Number_def t Let_def using low by simp
  then show ?thesis using assms(2) by (simp only: ud) (simp add: scale10_def)
qed

lemma upper_digits: "list_all is_digit s \<Longrightarrow> upper_z s = s"
proof -
  assume d: "list_all is_digit s"
  have z: "\<not> is_digit (CHR ''z'')" by (simp add: is_digit_def)
  show "upper_z s = s"
    unfolding upper_z_def using d z by (intro map_idI) (auto simp: list_all_iff)
qed

lemma two_digits:
  assumes "list_all is_digit xs" "length xs = 2"
  obtains a b where "xs = [a, b]" "is_digit a" "is_digit b"
  using len2 [OF assms(2)] assms(1) that by auto

lemma zone_is_offset:
  assumes "zone_ok z" "zone_str z \<noteq> []"
  shows "is_offset (zone_str z)"
proof (cases z)
  case (Z_offset west h m)
  then have hm: "0 \<le> h" "h \<le> 99" "0 \<le> m" "m \<le> 99" using assms(1) by auto
  obtain a b where h: "pad2 h = [a, b]" "is_digit a" "is_digit b"
    using two_digits [OF pad2_facts(2) pad2_facts(1)] hm by metis
  obtain c d where m: "pad2 m = [c, d]" "is_digit c" "is_digit d"
    using two_digits [OF pad2_facts(2) pad2_facts(1)] hm by metis
  show ?thesis by (simp add: Z_offset h m is_offset_def)
qed (use assms in \<open>simp_all add: is_offset_def\<close>)

lemma zone_head: "zone_str z = [] \<or> (\<exists>c r. zone_str z = c # r \<and> \<not> is_digit c \<and> c \<noteq> CHR ''.'')"
  by (cases z) (auto simp: is_digit_def)

lemma zone_minutes_written:
  assumes "zone_ok z"
  shows "zone_minutes (if zone_str z = [] then ''Z'' else upper_z (zone_str z)) = Some (zone_seconds z div 60)"
proof (cases z)
  case (Z_offset west h m)
  then have b: "0 \<le> h" "h \<le> 23" "0 \<le> m" "m \<le> 59" using assms by auto
  then have hd: "list_all is_digit (pad2 h)" "list_all is_digit (pad2 m)"
    "length (pad2 h) = 2" "length (pad2 m) = 2" by (simp_all add: pad2_facts)
  have up: "upper_z (zone_str z) = zone_str z"
    using hd upper_digits [of "pad2 h"] upper_digits [of "pad2 m"] by (simp add: Z_offset upper_z_def)
  have parts: "length (zone_str z) = 6" "zone_str z ! 3 = CHR '':''" "take 2 (drop 1 (zone_str z)) = pad2 h"
    "drop 4 (zone_str z) = pad2 m" "hd (zone_str z) = (if west then CHR ''-'' else CHR ''+'')"
    using len2 [OF hd(3)] len2 [OF hd(4)] by (auto simp: Z_offset)
  have dv: "int (digits_val (pad2 h)) = h" "int (digits_val (pad2 m)) = m"
    using b by (simp_all add: pad2_facts)
  have up2: "digits_upto 2 23 (pad2 h)" "digits_upto 2 59 (pad2 m)" using b by (simp_all add: pad2_upto)
  have nz: "zone_str z \<noteq> ''Z''" "zone_str z \<noteq> []" using Z_offset by auto
  have "zone_seconds z = 60 * ((if west then -1 else 1) * (60 * h + m))"
    by (simp add: Z_offset)
  then have secs: "zone_seconds z div 60 = (if west then -1 else 1) * (60 * h + m)" by simp
  show ?thesis
    unfolding if_not_P [OF nz(2)] up zone_minutes_def parts if_not_P [OF nz(1)] dv secs
    using up2 by simp
qed (auto simp: zone_minutes_def upper_z_def)

lemma match_tail_written:
  assumes "list_all is_digit f" "zone_ok z"
  shows "match_tail ((if f = [] then [] else CHR ''.'' # f) @ zone_str z) =
    Some (if f = [] then None else Some f, if zone_str z = [] then None else Some (zone_str z))"
proof -
  have d: "\<forall>c \<in> set f. is_digit c" using assms(1) by (simp add: list_all_iff)
  have tk: "takeWhile is_digit (f @ zone_str z) = f" "dropWhile is_digit (f @ zone_str z) = zone_str z"
    using d zone_head [of z] by auto
  have nd: "\<not> starts_with ''.'' (zone_str z)" using zone_head [of z] by (auto simp: starts_with_def)
  have tk0: "takeWhile is_digit f = f" "dropWhile is_digit f = []"
    using d by (simp_all add: takeWhile_eq_all_conv dropWhile_eq_Nil_conv)
  show ?thesis
    using nd zone_is_offset [OF assms(2)]
    by (cases "f = []"; cases "zone_str z = []")
       (simp_all add: match_tail_def starts_with_def Let_def tk tk0)
qed

lemma write_moment_parts:
  "write_moment sep m = date_time (pad4 (m_year m)) (pad2 (m_month m)) (pad2 (m_day m)) sep
     (pad2 (m_hour m)) (pad2 (m_minute m)) (pad2 (m_second m))
     ((if m_fraction m = [] then [] else CHR ''.'' # m_fraction m) @ zone_str (m_zone m))"
  by (simp add: write_moment_def date_time_def)

definition groups_of :: "moment \<Rightarrow> iso_groups" where
  "groups_of m =
     \<lparr>g_year = pad4 (m_year m), g_month = pad2 (m_month m), g_day = pad2 (m_day m),
      g_hourMinute = pad2 (m_hour m) @ '':'' @ pad2 (m_minute m), g_second = pad2 (m_second m),
      g_fraction = (if m_fraction m = [] then None else Some (m_fraction m)),
      g_offset = (if zone_str (m_zone m) = [] then None else Some (zone_str (m_zone m)))\<rparr>"

lemma day_le_31: "1 \<le> m \<Longrightarrow> m \<le> 12 \<Longrightarrow> d \<le> month_lengths y ! nat (m - 1) \<Longrightarrow> d \<le> 31"
proof -
  assume a: "1 \<le> m" "m \<le> 12" "d \<le> month_lengths y ! nat (m - 1)"
  have "\<forall>n \<in> set (month_lengths y). n \<le> 31" by (simp add: month_lengths_def)
  then have "month_lengths y ! nat (m - 1) \<le> 31" using a by simp
  with a show ?thesis by simp
qed

lemma moment_bounds:
  assumes "moment_ok m"
  shows "0 \<le> m_year m" "m_year m \<le> 9999" "0 \<le> m_month m" "m_month m \<le> 12" "0 \<le> m_day m" "m_day m \<le> 31"
    "0 \<le> m_hour m" "m_hour m \<le> 23" "0 \<le> m_minute m" "m_minute m \<le> 59" "0 \<le> m_second m" "m_second m \<le> 60"
    "1 \<le> m_month m" "1 \<le> m_day m"
  using assms day_le_31 [of "m_month m" "m_day m" "m_year m"] by (simp_all add: moment_ok_def)

lemma match_written:
  assumes ok: "moment_ok m" and sep: "sep \<in> set ''Tt ''"
  shows "match_ISO_DATE_TIME (write_moment sep m) = Some (groups_of m)"
proof -
  note b = moment_bounds [OF ok]
  have len: "length (pad4 (m_year m)) = 4" "length (pad2 (m_month m)) = 2" "length (pad2 (m_day m)) = 2"
    "length (pad2 (m_hour m)) = 2" "length (pad2 (m_minute m)) = 2" "length (pad2 (m_second m)) = 2"
    by (simp_all add: pad2_def pad4_def)
  have up: "digits_upto 4 9999 (pad4 (m_year m))" "digits_upto 2 99 (pad2 (m_month m))"
    "digits_upto 2 99 (pad2 (m_day m))" "digits_upto 2 23 (pad2 (m_hour m))"
    "digits_upto 2 59 (pad2 (m_minute m))" "digits_upto 2 60 (pad2 (m_second m))"
    using b by (simp_all add: pad2_upto pad4_upto)
  have tail: "match_tail ((if m_fraction m = [] then [] else CHR ''.'' # m_fraction m) @ zone_str (m_zone m)) =
      Some (g_fraction (groups_of m), g_offset (groups_of m))"
    using ok by (simp add: match_tail_written moment_ok_def groups_of_def)
  show ?thesis
    unfolding match_ISO_DATE_TIME_def write_moment_parts date_time_parts [OF len] tail
    using up sep date_time_parts(13) [OF len] by (simp add: groups_of_def)
qed

lemma second_sixty:
  assumes "0 \<le> n" "n \<le> 60"
  shows "pad2 n = ''60'' \<longleftrightarrow> n = 60"
proof
  assume "pad2 n = ''60''"
  then have "digits_val (pad2 n) = digits_val ''60''" by simp
  then show "n = 60" using assms pad2_facts(3) [of n]
    by (simp add: digits_val_Cons digit_val_def)
qed (simp add: pad2_def digit_char_def)

lemma parse_rebuilt:
  assumes ok: "moment_ok m"
  defines "s \<equiv> (if m_second m = 60 then 59 else m_second m)"
  shows "Date_parse other (rebuilt (groups_of m)) =
    Some (of_int (1000 * (86400 * MakeDay (m_year m) (m_month m - 1) (m_day m) + 3600 * m_hour m
                          + 60 * m_minute m + s - zone_seconds (m_zone m))))"
proof -
  note b = moment_bounds [OF ok]
  let ?z = "if zone_str (m_zone m) = [] then ''Z'' else upper_z (zone_str (m_zone m))"
  have sixty: "pad2 (m_second m) = ''60'' \<longleftrightarrow> m_second m = 60"
    using second_sixty b by simp
  have p59: "pad2 59 = ''59''" by (simp add: pad2_def digit_char_def)
  have s: "0 \<le> s" "s \<le> 59" using b by (auto simp: s_def)
  have rb: "rebuilt (groups_of m) = date_time (pad4 (m_year m)) (pad2 (m_month m)) (pad2 (m_day m)) (CHR ''T'')
      (pad2 (m_hour m)) (pad2 (m_minute m)) (pad2 s) ?z"
    by (simp add: rebuilt_def groups_of_def date_time_def sixty s_def p59)
  have len: "length (pad4 (m_year m)) = 4" "length (pad2 (m_month m)) = 2" "length (pad2 (m_day m)) = 2"
    "length (pad2 (m_hour m)) = 2" "length (pad2 (m_minute m)) = 2" "length (pad2 s) = 2"
    by (simp_all add: pad2_def pad4_def)
  have up: "digits_upto 4 9999 (pad4 (m_year m))" "digits_upto 2 12 (pad2 (m_month m))"
    "digits_upto 2 31 (pad2 (m_day m))" "digits_upto 2 23 (pad2 (m_hour m))"
    "digits_upto 2 59 (pad2 (m_minute m))" "digits_upto 2 59 (pad2 s)"
    using b s by (simp_all add: pad2_upto pad4_upto)
  have iv: "int_of_digits (pad4 (m_year m)) = m_year m" "int_of_digits (pad2 (m_month m)) = m_month m"
    "int_of_digits (pad2 (m_day m)) = m_day m" "int_of_digits (pad2 (m_hour m)) = m_hour m"
    "int_of_digits (pad2 (m_minute m)) = m_minute m" "int_of_digits (pad2 s) = s"
    using b s by simp_all
  have z: "zone_minutes ?z = Some (zone_seconds (m_zone m) div 60)"
    using ok by (intro zone_minutes_written) (simp add: moment_ok_def)
  have "60 dvd zone_seconds (m_zone m)" by (cases "m_zone m") (auto intro!: dvd_add)
  then have z60: "60 * (zone_seconds (m_zone m) div 60) = zone_seconds (m_zone m)" by simp
  have day: "1 \<le> m_month m" "1 \<le> m_day m" "m_day m \<le> month_lengths (m_year m) ! nat (m_month m - 1)"
    using ok by (simp_all add: moment_ok_def)
  show ?thesis
    unfolding rb Date_parse_def date_time_parts [OF len] iv z Let_def
    using up day by (simp only: simp_thms if_True option.case z60 date_time_parts(13) [OF len])
qed

lemma groups_dates:
  assumes "moment_ok m"
  shows "int_of_digits (g_year (groups_of m)) = m_year m" "int_of_digits (g_month (groups_of m)) = m_month m"
    "int_of_digits (g_day (groups_of m)) = m_day m"
  using moment_bounds [OF assms] by (simp_all add: groups_of_def)

lemma fraction_written:
  "list_all is_digit (m_fraction m) \<Longrightarrow>
   fraction_value (g_fraction (groups_of m)) = of_nat (digits_val (m_fraction m)) / 10 ^ length (m_fraction m)"
  by (simp add: fraction_value_def groups_of_def number_fraction del: append.simps)
     (simp add: digits_val_def)

text \<open>
  C6: A timestamp written as RFC 3339 has it, with any of the separators, a fraction of any
  length, no zone, \<open>Z\<close> or an offset, and with the leap second, is read as the instant it
  names; so a 60th second and the next minute's 00 are the same moment.
\<close>

theorem written_moment_is_read:
  assumes ok: "moment_ok m" and sep: "sep \<in> set ''Tt ''"
  shows "parseEpochSeconds other (JStr (write_moment sep m)) = Some (instant m)"
proof -
  note b = moment_bounds [OF ok]
  have real: "isRealCalendarDate (m_year m) (m_month m) (m_day m)"
    using ok by (simp add: real_date_iff moment_ok_def)
  have day: "MakeDay (m_year m) (m_month m - 1) (m_day m) =
      DayFromYear (m_year m) + sum_list (take (nat (m_month m - 1)) (month_lengths (m_year m))) + m_day m - 1"
    using b by (simp add: MakeDay_def Let_def)
  have sixty: "g_second (groups_of m) = ''60'' \<longleftrightarrow> m_second m = 60"
    using second_sixty b by (simp add: groups_of_def)
  have f: "list_all is_digit (m_fraction m)" using ok by (simp add: moment_ok_def)
  let ?leap = "if m_second m = 60 then 1 else 0"
  define K where "K = 86400 * MakeDay (m_year m) (m_month m - 1) (m_day m) + 3600 * m_hour m + 60 * m_minute m
    + (m_second m - ?leap) - zone_seconds (m_zone m)"
  have "(if m_second m = 60 then 59 else m_second m) = m_second m - ?leap" by simp
  then have p: "Date_parse other (rebuilt (groups_of m)) = Some (of_int (1000 * K))"
    using parse_rebuilt [OF ok] by (simp add: K_def)
  have k: "of_int (1000 * K) / 1000 = (of_int K :: rat)" by simp
  have "instant m = of_int K + of_int ?leap + of_nat (digits_val (m_fraction m)) / 10 ^ length (m_fraction m)"
    unfolding instant_def K_def day by simp
  then show ?thesis
    by (simp add: parseEpochSeconds_def match_written [OF ok sep] groups_dates [OF ok] real p k
        fraction_written [OF f] sixty del: of_int_mult)
qed

definition python_moment :: moment where
  "python_moment = \<lparr>m_year = 2016, m_month = 4, m_day = 20, m_hour = 20, m_minute = 55, m_second = 60,
     m_fraction = ''845'', m_zone = Z_offset True 3 30\<rparr>"

lemma written_moment_is_read_witness:
  "parseEpochSeconds (\<lambda>_. None) (JStr ''2016-04-20 20:55:60.845-03:30'') = Some (1461198360845 / 1000)"
proof -
  have ok: "moment_ok python_moment"
    by (simp add: moment_ok_def python_moment_def month_lengths_def is_digit_def)
  have w: "write_moment (CHR '' '') python_moment = ''2016-04-20 20:55:60.845-03:30''"
    by (simp add: write_moment_def python_moment_def pad2_def pad4_def digit_char_def)
  have i: "instant python_moment = 1461198360845 / 1000"
    by (simp add: instant_def python_moment_def DayFromYear_def month_lengths_def is_leap_def
        digits_val_def digit_val_def numeral_nat)
  show ?thesis using written_moment_is_read [OF ok, of "CHR '' ''" "\<lambda>_. None"] w i by simp
qed

text \<open>A day the calendar does not have is no timestamp, whatever the engine makes of it.\<close>

lemma unreal_date_is_refused:
  "match_ISO_DATE_TIME s = Some g \<Longrightarrow>
   \<not> isRealCalendarDate (int_of_digits (g_year g)) (int_of_digits (g_month g)) (int_of_digits (g_day g)) \<Longrightarrow>
   parseEpochSeconds other (JStr s) = None"
  by (simp add: parseEpochSeconds_def)

end
