(* ===== verification/TransactionPayload.thy ===== *)
theory TransactionPayload
  imports Timestamps
begin

text \<open>
  \<open>features/transaction/lib/transaction-payload.ts\<close>: the stored payload of a transaction
  read into what the page shows, the rows of its waterfall with their self time, and its
  measurements. Times are rationals, \<open>None\<close> for \<open>NaN\<close>. Ids are whatever the SDK sent
  (\<open>jv\<close>) and compared by content.
\<close>

section \<open>Reading the payload\<close>

type_synonym panel = "(string \<times> jv) list"

definition asObject :: "jv \<Rightarrow> panel option" where
  "asObject v = (case v of JObj ps \<Rightarrow> Some ps | _ \<Rightarrow> None)"

definition asString :: "jv \<Rightarrow> string option" where
  "asString v = (case v of JStr s \<Rightarrow> Some s | _ \<Rightarrow> None)"

definition epochSeconds :: "(string \<Rightarrow> rat option) \<Rightarrow> jv \<Rightarrow> string \<Rightarrow> rat option" where
  "epochSeconds other raw fallbackIso =
     (case parseEpochSeconds other raw of Some q \<Rightarrow> Some q
      | None \<Rightarrow> map_option (\<lambda>ms. ms / 1000) (Date_parse other fallbackIso))"

text \<open>A span of the payload: its properties as sent, and its two ends as read.\<close>

record t_span =
  ts_props :: panel
  ts_start :: "rat option"
  ts_timestamp :: "rat option"

definition readSpan :: "(string \<Rightarrow> rat option) \<Rightarrow> jv \<Rightarrow> t_span option" where
  "readSpan other raw =
     (case asObject raw of None \<Rightarrow> None
      | Some sp \<Rightarrow> Some \<lparr>ts_props = sp,
          ts_start = parseEpochSeconds other (pget ''start_timestamp'' (JObj sp)),
          ts_timestamp = parseEpochSeconds other (pget ''timestamp'' (JObj sp))\<rparr>)"

record txn_detail =
  td_data :: jv
  td_start_timestamp :: "string option"
  td_timestamp :: string

record transaction_payload =
  tp_trace :: "panel option"
  tp_spans :: "t_span list"
  tp_measurements :: "panel option"
  tp_tags :: "panel option"
  tp_request :: "panel option"
  tp_user :: "panel option"
  tp_start :: "rat option"
  tp_end :: "rat option"
  tp_op :: "string option"
  tp_status :: "string option"

definition pget_opt :: "string \<Rightarrow> panel option \<Rightarrow> jv" where
  "pget_opt k p = (case p of None \<Rightarrow> JUndef | Some ps \<Rightarrow> pget k (JObj ps))"

definition readTransactionPayload :: "(string \<Rightarrow> rat option) \<Rightarrow> txn_detail \<Rightarrow> transaction_payload" where
  "readTransactionPayload other txn =
     (let data = (if td_data txn = JNull \<or> td_data txn = JUndef then JObj [] else td_data txn);
          tr = asObject (pget_opt ''trace'' (asObject (pget ''contexts'' data)))
      in \<lparr>tp_trace = tr,
          tp_spans = (case pget ''spans'' data of JArr ss \<Rightarrow> List.map_filter (readSpan other) ss | _ \<Rightarrow> []),
          tp_measurements = asObject (pget ''measurements'' data),
          tp_tags = asObject (pget ''tags'' data),
          tp_request = asObject (pget ''request'' data),
          tp_user = asObject (pget ''user'' data),
          tp_start = epochSeconds other (pget ''start_timestamp'' data)
            (case td_start_timestamp txn of Some s \<Rightarrow> s | None \<Rightarrow> td_timestamp txn),
          tp_end = epochSeconds other (pget ''timestamp'' data) (td_timestamp txn),
          tp_op = asString (pget_opt ''op'' tr),
          tp_status = asString (pget_opt ''status'' tr)\<rparr>)"

section \<open>Arithmetic with NaN\<close>

definition num_max :: "rat option \<Rightarrow> rat option \<Rightarrow> rat option" where
  "num_max a b = (case (a, b) of (Some x, Some y) \<Rightarrow> Some (max x y) | _ \<Rightarrow> None)"

definition num_min :: "rat option \<Rightarrow> rat option \<Rightarrow> rat option" where
  "num_min a b = (case (a, b) of (Some x, Some y) \<Rightarrow> Some (min x y) | _ \<Rightarrow> None)"

definition num_minus :: "rat option \<Rightarrow> rat option \<Rightarrow> rat option" where
  "num_minus a b = (case (a, b) of (Some x, Some y) \<Rightarrow> Some (x - y) | _ \<Rightarrow> None)"

definition num_less :: "rat option \<Rightarrow> rat option \<Rightarrow> bool" where
  "num_less a b = (case (a, b) of (Some x, Some y) \<Rightarrow> x < y | _ \<Rightarrow> False)"

text \<open>A comparator \<open>a - b\<close> that is \<open>NaN\<close> counts as 0 in \<open>sort\<close>.\<close>

definition sorts_before :: "rat option \<Rightarrow> rat option \<Rightarrow> bool" where
  "sorts_before a b = (\<not> num_less b a)"

section \<open>The waterfall's rows\<close>

record w_row =
  w_id :: jv
  w_parent :: jv
  w_op :: jv
  w_description :: jv
  w_startMs :: "rat option"
  w_endMs :: "rat option"
  w_status :: jv
  w_exclusive :: jv

definition ms :: "transaction_payload \<Rightarrow> rat option \<Rightarrow> rat option" where
  "ms payload seconds = map_option (\<lambda>d. d * 1000) (num_minus seconds (tp_start payload))"

definition nullish_or :: "jv \<Rightarrow> jv \<Rightarrow> jv" where
  "nullish_or v fallback = (if v = JUndef \<or> v = JNull then fallback else v)"

definition root_id :: "transaction_payload \<Rightarrow> jv" where
  "root_id payload = nullish_or (pget_opt ''span_id'' (tp_trace payload)) (JStr ''root'')"

definition sprop :: "string \<Rightarrow> t_span \<Rightarrow> jv" where
  "sprop k s = pget k (JObj (ts_props s))"

definition known_ids :: "transaction_payload \<Rightarrow> jv set" where
  "known_ids payload =
     insert (root_id payload) (set (filter truthy (map (sprop ''span_id'') (tp_spans payload))))"

definition span_row :: "transaction_payload \<Rightarrow> nat \<Rightarrow> t_span \<Rightarrow> w_row option" where
  "span_row payload index sp =
     (if ts_start sp = None \<or> ts_timestamp sp = None then None
      else Some \<lparr>
        w_id = nullish_or (sprop ''span_id'' sp) (JStr (''span-'' @ nat_str index)),
        w_parent = (if truthy (sprop ''parent_span_id'' sp) \<and> sprop ''parent_span_id'' sp \<in> known_ids payload
                    then sprop ''parent_span_id'' sp else root_id payload),
        w_op = sprop ''op'' sp,
        w_description = sprop ''description'' sp,
        w_startMs = ms payload (ts_start sp),
        w_endMs = ms payload (ts_timestamp sp),
        w_status = sprop ''status'' sp,
        w_exclusive = sprop ''exclusive_time'' sp\<rparr>)"

definition str_or_undef :: "string option \<Rightarrow> jv" where
  "str_or_undef s = (case s of None \<Rightarrow> JUndef | Some v \<Rightarrow> JStr v)"

definition all_rows :: "transaction_payload \<Rightarrow> string \<Rightarrow> w_row list" where
  "all_rows payload name =
     \<lparr>w_id = root_id payload, w_parent = JNull, w_op = str_or_undef (tp_op payload),
      w_description = JStr name, w_startMs = Some 0, w_endMs = ms payload (tp_end payload),
      w_status = str_or_undef (tp_status payload), w_exclusive = JUndef\<rparr>
     # List.map_filter (\<lambda>(i, s). span_row payload i s) (enumerate 0 (tp_spans payload))"

text \<open>One pass over the children in order of start: \<open>covered\<close> and \<open>reached\<close>.\<close>

fun sweep :: "rat option \<Rightarrow> (rat option \<times> rat option) list \<Rightarrow> rat \<Rightarrow> rat option \<Rightarrow> rat" where
  "sweep row_end [] covered reached = covered"
| "sweep row_end ((child_start, child_end) # rest) covered reached =
     (let start = num_max child_start reached;
          finish = num_min child_end row_end
      in sweep row_end rest
           (if num_less start finish then covered + the (num_minus finish start) else covered)
           (num_max reached finish))"

definition children_of :: "w_row list \<Rightarrow> w_row \<Rightarrow> w_row list" where
  "children_of rows row =
     sort_by (\<lambda>a b. sorts_before (w_startMs a) (w_startMs b)) (filter (\<lambda>c. w_parent c = w_id row) rows)"

definition jnum_of :: "rat option \<Rightarrow> jv" where
  "jnum_of q = (case q of None \<Rightarrow> JNum NaN | Some r \<Rightarrow> JNum (Fin r))"

definition selfMs :: "w_row list \<Rightarrow> w_row \<Rightarrow> jv" where
  "selfMs rows row =
     (let covered = sweep (w_endMs row) (map (\<lambda>c. (w_startMs c, w_endMs c)) (children_of rows row)) 0 (w_startMs row);
          own = num_minus (w_endMs row) (w_startMs row)
      in nullish_or (w_exclusive row) (jnum_of (num_max (Some 0) (num_minus own (Some covered)))))"

definition waterfallSpans :: "transaction_payload \<Rightarrow> string \<Rightarrow> (w_row \<times> jv) list" where
  "waterfallSpans payload name =
     (let rows = all_rows payload name in map (\<lambda>row. (row, selfMs rows row)) rows)"

section \<open>Measurements\<close>

definition VITALS :: "(string \<times> rat \<times> rat) list" where
  "VITALS = [(''lcp'', 2500, 4000), (''fcp'', 1800, 3000), (''fid'', 100, 300),
             (''inp'', 200, 500), (''ttfb'', 800, 1800), (''cls'', 1 / 10, 1 / 4)]"

datatype rating = Good | Meh | Poor

record measurement_row =
  mr_key :: string
  mr_value :: jsnum
  mr_unit :: "string option"
  mr_vital :: bool
  mr_rating :: "rating option"

definition num_le :: "jsnum \<Rightarrow> rat \<Rightarrow> bool" where
  "num_le x q = (case x of NaN \<Rightarrow> False | PosInf \<Rightarrow> False | NegInf \<Rightarrow> True | Fin r \<Rightarrow> r \<le> q)"

definition measurement_of :: "string \<times> jv \<Rightarrow> measurement_row option" where
  "measurement_of = (\<lambda>(key, raw).
     case asObject raw of None \<Rightarrow> None
     | Some m \<Rightarrow>
         (case pget ''value'' (JObj m) of
            JNum v \<Rightarrow>
              (let vital = map_of VITALS (to_lower key)
               in Some \<lparr>mr_key = key, mr_value = v, mr_unit = asString (pget ''unit'' (JObj m)),
                        mr_vital = (vital \<noteq> None),
                        mr_rating = map_option (\<lambda>(good, poor).
                          if num_le v good then Good else if num_le v poor then Meh else Poor) vital\<rparr>)
          | _ \<Rightarrow> None))"

definition readMeasurements :: "panel option \<Rightarrow> measurement_row list" where
  "readMeasurements measurements =
     (case measurements of None \<Rightarrow> []
      | Some ps \<Rightarrow> sort_by (\<lambda>a b. mr_vital b \<longrightarrow> mr_vital a) (List.map_filter measurement_of ps))"

lemma measurements_vitals_first:
  "sorted_wrt (\<lambda>a b. mr_vital b \<longrightarrow> mr_vital a) (readMeasurements panel)
   \<and> mset (readMeasurements panel) = mset (List.map_filter measurement_of (case panel of None \<Rightarrow> [] | Some ps \<Rightarrow> ps))"
  by (auto simp: readMeasurements_def map_filter_simps split: option.splits intro!: sorted_sort_by)

section \<open>Self time\<close>

text \<open>The instants of a row, in whole milliseconds, that its children cover or leave.\<close>

definition whole :: "int \<Rightarrow> rat option" where
  "whole t = Some (of_int t)"

definition covered_by :: "(int \<times> int) list \<Rightarrow> int \<Rightarrow> bool" where
  "covered_by ks t \<longleftrightarrow> (\<exists>(a, b) \<in> set ks. a \<le> t \<and> t < b)"

lemma num_whole [simp]:
  "num_max (whole a) (whole b) = whole (max a b)" "num_min (whole a) (whole b) = whole (min a b)"
  "num_minus (whole a) (whole b) = whole (a - b)" "num_less (whole a) (whole b) \<longleftrightarrow> a < b"
  "the (whole a) = of_int a"
  by (simp_all add: whole_def num_max_def num_min_def num_minus_def num_less_def max_def min_def)

lemma sweep_counts_once:
  assumes "sorted_wrt (\<lambda>x y. fst x \<le> fst y) ks"
  shows "sweep (whole e) (map (\<lambda>(a, b). (whole a, whole b)) ks) c (whole r) =
    c + of_nat (card {t. r \<le> t \<and> t < e \<and> covered_by ks t})"
  using assms
proof (induction ks arbitrary: c r)
  case Nil
  then show ?case by (simp add: covered_by_def)
next
  case (Cons k ks)
  obtain a b where k: "k = (a, b)" by (cases k)
  define s where "s = max a r"
  define n where "n = min b e"
  let ?R = "\<lambda>r. {t. r \<le> t \<and> t < e \<and> covered_by ks t}"
  have later: "a \<le> fst y" if "y \<in> set ks" for y using Cons.prems that by (auto simp: k)
  have split: "{t. r \<le> t \<and> t < e \<and> covered_by (k # ks) t} = {s ..< n} \<union> ?R (max r n)"
    using later by (fastforce simp: k covered_by_def s_def n_def)
  have fin: "finite (?R (max r n))" by (rule finite_subset [of _ "{r ..< e}"]) auto
  have "card ({s ..< n} \<union> ?R (max r n)) = card {s ..< n} + card (?R (max r n))"
    by (rule card_Un_disjoint) (use fin in auto)
  then have cards: "card {t. r \<le> t \<and> t < e \<and> covered_by (k # ks) t} = nat (n - s) + card (?R (max r n))"
    by (simp add: split)
  have "sweep (whole e) (map (\<lambda>(a, b). (whole a, whole b)) (k # ks)) c (whole r) =
      sweep (whole e) (map (\<lambda>(a, b). (whole a, whole b)) ks)
        (if s < n then c + of_int (n - s) else c) (whole (max r n))"
    by (simp add: k s_def [symmetric] n_def [symmetric] Let_def)
  also have "\<dots> = (if s < n then c + of_int (n - s) else c) + of_nat (card (?R (max r n)))"
    by (rule Cons.IH) (use Cons.prems in simp)
  also have "\<dots> = c + of_nat (card {t. r \<le> t \<and> t < e \<and> covered_by (k # ks) t})"
    unfolding cards by (simp add: of_nat_nat)
  finally show ?case .
qed

lemma sorts_before_order:
  "sorted_wrt (\<lambda>a b. sorts_before (w_startMs a) (w_startMs b)) (children_of rows row)"
  if "\<forall>c \<in> set rows. w_startMs c \<noteq> None"
proof -
  define key where "key c = the (w_startMs c)" for c :: w_row
  have le: "sorts_before (w_startMs a) (w_startMs b) \<longleftrightarrow> key a \<le> key b" if "a \<in> set rows" "b \<in> set rows" for a b
    using that \<open>\<forall>c \<in> set rows. w_startMs c \<noteq> None\<close>
    by (auto simp: sorts_before_def num_less_def key_def split: option.splits)
  have ins: "insert_by (\<lambda>a b. sorts_before (w_startMs a) (w_startMs b)) x ys = insert_by (\<lambda>a b. key a \<le> key b) x ys"
    if "set (x # ys) \<subseteq> set rows" for x ys
    using that by (induction ys) (auto simp: le)
  have srt: "sort_by (\<lambda>a b. sorts_before (w_startMs a) (w_startMs b)) xs = sort_by (\<lambda>a b. key a \<le> key b) xs"
    if "set xs \<subseteq> set rows" for xs
    using that
  proof (induction xs)
    case (Cons x xs)
    have "set (x # sort_by (\<lambda>a b. key a \<le> key b) xs) \<subseteq> set rows" using Cons.prems by simp
    from ins [OF this] Cons show ?case by (simp add: sort_by_def)
  qed (simp add: sort_by_def)
  have sub: "set (filter (\<lambda>c. w_parent c = w_id row) rows) \<subseteq> set rows" by auto
  have "sorted_wrt (\<lambda>a b. key a \<le> key b) (children_of rows row)"
    unfolding children_of_def srt [OF sub] by (intro sorted_sort_by) auto
  then show ?thesis
    by (rule sorted_wrt_mono_rel [rotated]) (use sub in \<open>auto simp: le children_of_def\<close>)
qed

text \<open>A row whose two ends are whole milliseconds, as pairs.\<close>

definition span_of :: "w_row \<Rightarrow> int \<times> int" where
  "span_of c = (\<lfloor>the (w_startMs c)\<rfloor>, \<lfloor>the (w_endMs c)\<rfloor>)"

definition whole_row :: "w_row \<Rightarrow> bool" where
  "whole_row c \<longleftrightarrow> w_startMs c = whole (fst (span_of c)) \<and> w_endMs c = whole (snd (span_of c))"

text \<open>
  C7: Where every row starts and ends on a whole millisecond, the self time the waterfall
  shows for a span without an \<open>exclusive_time\<close> of its own is the number of milliseconds it
  runs in which none of its direct children does, however they overlap and wherever they
  stick out of it.
\<close>

theorem self_time_is_time_uncovered:
  assumes rows: "\<forall>c \<in> set rows. whole_row c" and row: "row \<in> set rows"
    and own: "w_exclusive row = JUndef"
  shows "selfMs rows row = JNum (Fin (of_nat (card {t. fst (span_of row) \<le> t \<and> t < snd (span_of row) \<and>
      \<not> (\<exists>c \<in> set rows. w_parent c = w_id row \<and> fst (span_of c) \<le> t \<and> t < snd (span_of c))})))"
proof -
  obtain s e where se: "span_of row = (s, e)" by (cases "span_of row")
  then have ends: "w_startMs row = whole s" "w_endMs row = whole e"
    using rows row by (auto simp: whole_row_def)
  define ks where "ks = map span_of (children_of rows row)"
  have mem: "c \<in> set rows" if "c \<in> set (children_of rows row)" for c
    using that by (simp add: children_of_def)
  have pairs: "map (\<lambda>c. (w_startMs c, w_endMs c)) (children_of rows row) = map (\<lambda>(a, b). (whole a, whole b)) ks"
    using rows mem by (auto simp: ks_def whole_row_def split: prod.splits)
  have "sorted_wrt (\<lambda>a b. sorts_before (w_startMs a) (w_startMs b)) (children_of rows row)"
    using rows by (intro sorts_before_order) (auto simp: whole_row_def whole_def)
  then have "sorted_wrt (\<lambda>a b. fst (span_of a) \<le> fst (span_of b)) (children_of rows row)"
    by (rule sorted_wrt_mono_rel [rotated])
       (use rows mem in \<open>auto simp: whole_row_def sorts_before_def not_less\<close>)
  then have srt: "sorted_wrt (\<lambda>x y. fst x \<le> fst y) ks"
    by (simp add: ks_def sorted_wrt_map)
  have cov: "covered_by ks t \<longleftrightarrow>
      (\<exists>c \<in> set rows. w_parent c = w_id row \<and> fst (span_of c) \<le> t \<and> t < snd (span_of c))" for t
    by (auto simp: covered_by_def ks_def children_of_def case_prod_unfold)
  let ?C = "{t. s \<le> t \<and> t < e \<and> covered_by ks t}" and ?U = "{t. s \<le> t \<and> t < e \<and> \<not> covered_by ks t}"
  have fin: "finite ?C" "finite ?U" by (rule finite_subset [of _ "{s ..< e}"]; auto)+
  have "{s ..< e} = ?C \<union> ?U" by auto
  then have "card {s ..< e} = card ?C + card ?U"
    by (metis (no_types, lifting) card_Un_disjoint disjoint_iff fin mem_Collect_eq)
  then have total: "nat (e - s) = card ?C + card ?U" by simp
  have "max 0 (e - s - int (card ?C)) = int (card ?U)" using total by (auto simp: max_def)
  moreover have "num_max (Some 0) (num_minus (num_minus (w_endMs row) (w_startMs row))
      (Some (0 + of_nat (card ?C)))) = whole (max 0 (e - s - int (card ?C)))"
  proof -
    have "Some (0 + of_nat (card ?C)) = whole (int (card ?C))" "Some 0 = whole 0" by (simp_all add: whole_def)
    then show ?thesis by (simp only: ends num_whole)
  qed
  ultimately have "selfMs rows row = jnum_of (whole (int (card ?U)))"
    using sweep_counts_once [OF srt, of e 0 s]
    by (simp add: selfMs_def own nullish_or_def pairs ends Let_def)
  then show ?thesis by (simp add: jnum_of_def whole_def se cov)
qed

text \<open>A request of 100 ms with two queries that overlap: 10 to 40 and 30 to 60.\<close>

definition overlapping :: transaction_payload where
  "overlapping = \<lparr>tp_trace = Some [(''span_id'', JStr ''r'')],
     tp_spans = [\<lparr>ts_props = [(''span_id'', JStr ''a''), (''parent_span_id'', JStr ''r'')],
                  ts_start = Some (1001 / 100), ts_timestamp = Some (1004 / 100)\<rparr>,
                 \<lparr>ts_props = [(''span_id'', JStr ''b''), (''parent_span_id'', JStr ''gone'')],
                  ts_start = Some (1003 / 100), ts_timestamp = Some (1006 / 100)\<rparr>],
     tp_measurements = None, tp_tags = None, tp_request = None, tp_user = None,
     tp_start = Some 10, tp_end = Some (1010 / 100), tp_op = None, tp_status = None\<rparr>"

lemma self_time_is_time_uncovered_witness:
  "selfMs (all_rows overlapping ''GET /'') (hd (all_rows overlapping ''GET /'')) = JNum (Fin 50)"
proof -
  let ?rows = "all_rows overlapping ''GET /''"
  have rows: "map (\<lambda>c. (w_id c, w_parent c, w_startMs c, w_endMs c, w_exclusive c)) ?rows =
      [(JStr ''r'', JNull, whole 0, whole 100, JUndef), (JStr ''a'', JStr ''r'', whole 10, whole 40, JUndef),
       (JStr ''b'', JStr ''r'', whole 30, whole 60, JUndef)]"
    by (simp add: all_rows_def overlapping_def span_row_def ms_def num_minus_def whole_def root_id_def
        nullish_or_def pget_opt_def pget_def sprop_def known_ids_def truthy_def map_filter_simps
        enumerate_eq_zip)
  then obtain r a b where abr: "?rows = [r, a, b]"
    and f: "w_id r = JStr ''r''" "w_parent r = JNull" "w_startMs r = whole 0" "w_endMs r = whole 100"
      "w_exclusive r = JUndef" "w_parent a = JStr ''r''" "w_startMs a = whole 10" "w_endMs a = whole 40"
      "w_parent b = JStr ''r''" "w_startMs b = whole 30" "w_endMs b = whole 60"
    by (auto simp: map_eq_Cons_conv)
  have sp: "span_of r = (0, 100)" "span_of a = (10, 40)" "span_of b = (30, 60)"
    by (simp_all add: span_of_def f)
  have "{t::int. 0 \<le> t \<and> t < 100 \<and> \<not> ((10 \<le> t \<and> t < 40) \<or> (30 \<le> t \<and> t < 60))} = {0 ..< 10} \<union> {60 ..< 100}"
    by auto
  moreover have "card ({0 ..< 10} \<union> {60 ..< 100::int}) = 50" by (subst card_Un_disjoint) auto
  ultimately have "card {t::int. 0 \<le> t \<and> t < 100 \<and> \<not> ((10 \<le> t \<and> t < 40) \<or> (30 \<le> t \<and> t < 60))} = 50" by simp
  moreover have "\<forall>c \<in> set ?rows. whole_row c" by (simp add: abr whole_row_def sp f)
  ultimately show ?thesis
    using self_time_is_time_uncovered [of ?rows r] by (simp add: abr f sp)
qed

section \<open>Where the rows hang\<close>

lemma row_parents_known:
  "row \<in> set (tl (all_rows payload name)) \<Longrightarrow> w_parent row \<in> known_ids payload"
  by (auto simp: all_rows_def map_filter_def span_row_def known_ids_def split: if_splits)

text \<open>
  A parent that was sent without its two timestamps counts as known and has no row, so the
  spans under it hang off nothing.
\<close>

definition untimed_parent :: transaction_payload where
  "untimed_parent = \<lparr>tp_trace = Some [(''span_id'', JStr ''r'')],
     tp_spans = [\<lparr>ts_props = [(''span_id'', JStr ''a''), (''parent_span_id'', JStr ''r'')],
                  ts_start = Some 10, ts_timestamp = None\<rparr>,
                 \<lparr>ts_props = [(''span_id'', JStr ''b''), (''parent_span_id'', JStr ''a'')],
                  ts_start = Some 10, ts_timestamp = Some 11\<rparr>],
     tp_measurements = None, tp_tags = None, tp_request = None, tp_user = None,
     tp_start = Some 10, tp_end = Some 12, tp_op = None, tp_status = None\<rparr>"

lemma untimed_parent_leaves_orphans:
  "map w_id (all_rows untimed_parent ''GET /'') = [JStr ''r'', JStr ''b''] \<and>
   map w_parent (all_rows untimed_parent ''GET /'') = [JNull, JStr ''a'']"
  by (simp add: all_rows_def untimed_parent_def span_row_def root_id_def
        nullish_or_def pget_opt_def pget_def sprop_def known_ids_def truthy_def map_filter_simps
        enumerate_eq_zip)

end
