(* ===== verification/Waterfall.thy ===== *)
theory Waterfall
  imports JsBase
begin

text \<open>
  \<open>packages/ui/src/components/waterfall/waterfall.tsx\<close>: the kind of a span, the tree built
  from parent links that may dangle or be cyclic, the rows that tree is drawn as (folds,
  autogrouped runs, gaps), the bars on the shared clock and the keyboard. Times are
  rationals; a span's id is a string, as the component's type says.
\<close>

section \<open>Spans and their kinds\<close>

record w_span =
  wf_id :: string
  wf_parent :: "string option"
  wf_op :: "string option"
  wf_description :: "string option"
  wf_start :: rat
  wf_end :: rat
  wf_status :: "string option"
  wf_operation :: "string option"

datatype span_kind = SK_db | SK_http | SK_internal | SK_agent | SK_llm | SK_tool | SK_handoff | SK_error

definition OPERATION_KIND :: "(string \<times> span_kind) list" where
  "OPERATION_KIND = [(''agent'', SK_agent), (''ai_client'', SK_llm), (''tool'', SK_tool), (''handoff'', SK_handoff)]"

definition is_failed :: "string option \<Rightarrow> bool" where
  "is_failed status \<longleftrightarrow> status \<noteq> None \<and> status \<noteq> Some [] \<and> status \<noteq> Some ''ok''"

definition aiKind :: "string \<Rightarrow> span_kind" where
  "aiKind op =
     (if str_includes ''invoke_agent'' op then SK_agent
      else if str_includes ''execute_tool'' op then SK_tool
      else if str_includes ''handoff'' op then SK_handoff
      else SK_llm)"

text \<open>
  \<open>Inherited\<close>: an operation type that names a member of \<open>Object.prototype\<close> finds that
  member, which is no kind (\<open>None\<close>).
\<close>

definition spanKind :: "w_span \<Rightarrow> span_kind option" where
  "spanKind sp =
     (if is_failed (wf_status sp) then Some SK_error
      else
        let by_op =
          (let op = to_lower (case wf_op sp of None \<Rightarrow> [] | Some s \<Rightarrow> s)
           in if starts_with ''gen_ai.'' op \<or> starts_with ''ai.'' op then aiKind op
              else if starts_with ''db'' op \<or> starts_with ''cache'' op then SK_db
              else if starts_with ''http'' op \<or> starts_with ''resource'' op then SK_http
              else SK_internal)
        in case wf_operation sp of
             None \<Rightarrow> Some by_op
           | Some t \<Rightarrow>
               if t = [] then Some by_op
               else (case obj_lookup OPERATION_KIND t of
                       Own k \<Rightarrow> Some k | Inherited \<Rightarrow> None | Missing \<Rightarrow> Some by_op))"

definition legend_kinds :: "w_span list \<Rightarrow> span_kind list" where
  "legend_kinds spans =
     filter (\<lambda>k. Some k \<in> set (map spanKind spans))
       [SK_agent, SK_llm, SK_tool, SK_handoff, SK_db, SK_internal, SK_http, SK_error]"

section \<open>The tree\<close>

datatype tree = TNode (tspan: w_span) (kids: "tree list")

definition ROOT :: string where
  "ROOT = ''__root__''"

definition parent_key :: "w_span list \<Rightarrow> w_span \<Rightarrow> string" where
  "parent_key spans s =
     (case wf_parent s of None \<Rightarrow> ROOT
      | Some p \<Rightarrow> if p \<noteq> [] \<and> p \<in> set (map wf_id spans) \<and> p \<noteq> wf_id s then p else ROOT)"

definition by_parent :: "w_span list \<Rightarrow> string \<Rightarrow> w_span list" where
  "by_parent spans p = sort_by (\<lambda>a b. wf_start a \<le> wf_start b) (filter (\<lambda>s. parent_key spans s = p) spans)"

text \<open>
  The recursive \<open>build\<close> over the children of one parent, with the ids visited so far. The
  first argument bounds the depth of the recursion: \<open>None\<close> says the bound was reached.
\<close>

fun build :: "nat \<Rightarrow> w_span list \<Rightarrow> w_span list \<Rightarrow> string list \<Rightarrow> (tree list \<times> string list) option" where
  "build depth spans [] visited = Some ([], visited)"
| "build depth spans (s # ss) visited =
     (if wf_id s \<in> set visited then build depth spans ss visited
      else case depth of 0 \<Rightarrow> None
        | Suc d \<Rightarrow>
            (case build d spans (by_parent spans (wf_id s)) (wf_id s # visited) of
               None \<Rightarrow> None
             | Some (ks, visited') \<Rightarrow>
                 (case build depth spans ss visited' of
                    None \<Rightarrow> None
                  | Some (rest, visited'') \<Rightarrow> Some (TNode s ks # rest, visited''))))"

definition buildTree :: "w_span list \<Rightarrow> tree list option" where
  "buildTree spans =
     (case build (length spans) spans (by_parent spans ROOT) [] of
        None \<Rightarrow> None
      | Some (roots, visited) \<Rightarrow>
          Some (roots @ map (\<lambda>s. TNode s []) (filter (\<lambda>s. wf_id s \<notin> set visited) spans)))"

primrec tree_spans :: "tree \<Rightarrow> w_span list" where
  "tree_spans (TNode s ks) = s # concat (map tree_spans ks)"

definition forest_spans :: "tree list \<Rightarrow> w_span list" where
  "forest_spans ts = concat (map tree_spans ts)"

primrec descendants :: "tree \<Rightarrow> nat" where
  "descendants (TNode s ks) = sum_list (map (\<lambda>d. 1 + d) (map descendants ks))"

lemma forest_simps [simp]:
  "forest_spans [] = []" "forest_spans (TNode s ks # ts) = s # forest_spans ks @ forest_spans ts"
  "forest_spans (ts @ us) = forest_spans ts @ forest_spans us"
  "forest_spans (map (\<lambda>s. TNode s []) ss) = ss"
  by (simp_all add: forest_spans_def) (induction ss, simp_all)

lemma descendants_spans: "length (tree_spans t) = 1 + descendants t"
proof (induction t)
  case (TNode s ks)
  then have "map (length \<circ> tree_spans) ks = map (\<lambda>t. 1 + descendants t) ks" by simp
  then show ?case by (simp add: length_concat comp_def cong: map_cong)
qed

text \<open>What one call of \<open>build\<close> leaves: the spans it put in its trees are those it visited.\<close>

definition built :: "w_span list \<Rightarrow> string list \<Rightarrow> tree list \<Rightarrow> string list \<Rightarrow> bool" where
  "built spans visited ts visited' \<longleftrightarrow>
     set (forest_spans ts) \<subseteq> set spans
     \<and> distinct (map wf_id (forest_spans ts))
     \<and> set (map wf_id (forest_spans ts)) \<inter> set visited = {}
     \<and> set visited' = set visited \<union> set (map wf_id (forest_spans ts))"

definition left_ids :: "w_span list \<Rightarrow> string list \<Rightarrow> string set" where
  "left_ids spans visited = set (map wf_id spans) - set visited"

lemma built_cons:
  assumes "built spans (wf_id s # visited) ks v1" "built spans v1 rest v2"
    and "s \<in> set spans" "wf_id s \<notin> set visited"
  shows "built spans visited (TNode s ks # rest) v2"
  using assms unfolding built_def by (auto simp: image_Un)

lemma by_parent_spans: "set (by_parent spans p) \<subseteq> set spans"
  by (auto simp: by_parent_def)

lemma build_ends:
  "set ss \<subseteq> set spans \<Longrightarrow> card (left_ids spans visited) \<le> depth \<Longrightarrow>
   \<exists>ts visited'. build depth spans ss visited = Some (ts, visited') \<and> built spans visited ts visited'"
proof (induction depth spans ss visited rule: build.induct)
  case (1 depth spans visited)
  then show ?case by (simp add: built_def)
next
  case (2 depth spans s ss visited)
  have fin: "finite (left_ids spans v)" for v by (simp add: left_ids_def)
  show ?case
  proof (cases "wf_id s \<in> set visited")
    case True
    then show ?thesis using 2 by simp
  next
    case new: False
    have "wf_id s \<in> left_ids spans visited" using 2(4) new by (auto simp: left_ids_def)
    moreover have "left_ids spans (wf_id s # visited) = left_ids spans visited - {wf_id s}"
      by (auto simp: left_ids_def)
    ultimately have less: "card (left_ids spans (wf_id s # visited)) < card (left_ids spans visited)"
      by (metis card_Diff1_less fin)
    then obtain d where d: "depth = Suc d" using 2(5) by (cases depth) auto
    have "card (left_ids spans (wf_id s # visited)) \<le> d" using less 2(5) d by simp
    then obtain ks v1 where ks: "build d spans (by_parent spans (wf_id s)) (wf_id s # visited) = Some (ks, v1)"
      "built spans (wf_id s # visited) ks v1"
      using 2(2) [OF new d by_parent_spans] by auto
    have "left_ids spans v1 \<subseteq> left_ids spans visited"
      using ks(2) by (auto simp: left_ids_def built_def)
    then have "card (left_ids spans v1) \<le> depth"
      using 2(5) card_mono [OF fin] by (meson le_trans)
    then obtain rest v2 where rest: "build depth spans ss v1 = Some (rest, v2)" "built spans v1 rest v2"
      using 2(3) [OF new d ks(1) refl] 2(4) by auto
    have "built spans visited (TNode s ks # rest) v2"
      using ks(2) rest(2) 2(4) new by (intro built_cons) auto
    then show ?thesis using new d ks(1) rest(1) by simp
  qed
qed

lemma ids_left: "card (left_ids spans visited) \<le> length spans"
proof -
  have "card (left_ids spans visited) \<le> card (set (map wf_id spans))"
    by (rule card_mono) (auto simp: left_ids_def)
  then show ?thesis using card_length [of "map wf_id spans"] by simp
qed

lemma buildTree_ends:
  "\<exists>ts visited. buildTree spans = Some (ts @ map (\<lambda>s. TNode s []) (filter (\<lambda>s. wf_id s \<notin> set visited) spans))
     \<and> built spans [] ts visited"
proof -
  obtain ts visited where "build (length spans) spans (by_parent spans ROOT) [] = Some (ts, visited)"
    "built spans [] ts visited"
    using build_ends [OF by_parent_spans ids_left, of spans ROOT "[]"] by auto
  then show ?thesis by (intro exI [of _ ts] exI [of _ visited]) (simp add: buildTree_def)
qed

lemma tree_holds_spans:
  assumes ids: "distinct (map wf_id spans)" and b: "buildTree spans = Some ts"
  shows "mset (forest_spans ts) = mset spans"
proof -
  obtain rs visited where ts: "ts = rs @ map (\<lambda>s. TNode s []) (filter (\<lambda>s. wf_id s \<notin> set visited) spans)"
    and built: "built spans [] rs visited"
    using buildTree_ends [of spans] b by auto
  have vis: "set visited = set (map wf_id (forest_spans rs))" and sub: "set (forest_spans rs) \<subseteq> set spans"
    and d: "distinct (map wf_id (forest_spans rs))"
    using built by (simp_all add: built_def)
  have inj: "inj_on wf_id (set spans)" using ids by (simp add: distinct_map)
  have rs: "set (forest_spans rs) = {s \<in> set spans. wf_id s \<in> set visited}"
    using sub inj by (auto simp: vis dest: inj_onD)
  have "distinct (forest_spans ts)" "set (forest_spans ts) = set spans"
    using d ids rs by (auto simp: ts distinct_map)
  moreover have "distinct spans" using ids by (simp add: distinct_map)
  ultimately show ?thesis by (simp add: set_eq_iff_mset_eq_distinct)
qed

text \<open>Whatever the ids are, the tree holds spans of the trace and every id of it.\<close>

lemma tree_holds_ids:
  assumes "buildTree spans = Some ts"
  shows "set (forest_spans ts) \<subseteq> set spans \<and> wf_id ` set (forest_spans ts) = wf_id ` set spans"
proof -
  obtain rs visited where ts: "ts = rs @ map (\<lambda>s. TNode s []) (filter (\<lambda>s. wf_id s \<notin> set visited) spans)"
    and built: "built spans [] rs visited"
    using buildTree_ends [of spans] assms by auto
  then have "set visited = wf_id ` set (forest_spans rs)" "set (forest_spans rs) \<subseteq> set spans"
    by (simp_all add: built_def)
  then show ?thesis by (auto simp: ts)
qed

text \<open>
  C11: The tree of a trace is built whatever its parent links are: with as many levels of
  recursion as there are spans the walk ends, on cycles, dangling parents and repeated ids
  too, and no id is in the tree's linked part twice.
\<close>

theorem tree_is_built:
  "\<exists>ts visited. buildTree spans = Some (ts @ map (\<lambda>s. TNode s []) (filter (\<lambda>s. wf_id s \<notin> set visited) spans))
     \<and> distinct (map wf_id (forest_spans ts)) \<and> set visited = wf_id ` set (forest_spans ts)"
proof -
  obtain ts visited where
    "buildTree spans = Some (ts @ map (\<lambda>s. TNode s []) (filter (\<lambda>s. wf_id s \<notin> set visited) spans))"
    "built spans [] ts visited"
    using buildTree_ends by blast
  then show ?thesis by (intro exI [of _ ts] exI [of _ visited]) (simp add: built_def)
qed

text \<open>Of two spans with one id, only the one met first is in the tree.\<close>

definition blank_span :: "string \<Rightarrow> string option \<Rightarrow> rat \<Rightarrow> rat \<Rightarrow> w_span" where
  "blank_span i p s e = \<lparr>wf_id = i, wf_parent = p, wf_op = None, wf_description = None, wf_start = s,
     wf_end = e, wf_status = None, wf_operation = None\<rparr>"

lemma repeated_id_is_dropped:
  "buildTree [blank_span ''a'' None 0 10, blank_span ''a'' None 5 9] = Some [TNode (blank_span ''a'' None 0 10) []]"
  by (simp add: buildTree_def by_parent_def parent_key_def blank_span_def sort_by_def ROOT_def)

section \<open>The rows\<close>

definition AUTOGROUP_MIN :: nat where
  "AUTOGROUP_MIN = 5"

definition GAP_MIN_MS :: rat where
  "GAP_MIN_MS = 100"

datatype sibling_unit = Single tree | Run "tree list"

datatype row =
    Span_row w_span nat "bool list" bool bool nat
  | Group_row string string "string option" "w_span list" nat "bool list" bool
  | Gap_row string nat "bool list" rat rat

record flatten_state =
  fl_collapsed :: "string set"
  fl_openGroups :: "string set"
  fl_showGaps :: bool

definition advance :: "rat option \<Rightarrow> rat list \<Rightarrow> rat option" where
  "advance frontier ends =
     fold (\<lambda>e f. Some (case f of None \<Rightarrow> e | Some x \<Rightarrow> max x e)) ends frontier"

definition or_undefined :: "string option \<Rightarrow> string" where
  "or_undefined s = (case s of None \<Rightarrow> ''undefined'' | Some v \<Rightarrow> v)"

definition sibling_key :: "tree \<Rightarrow> string" where
  "sibling_key n = or_undefined (wf_op (tspan n)) @ '' '' @ or_undefined (wf_description (tspan n))"

text \<open>How many of the following siblings continue the run that \<open>node\<close> starts.\<close>

fun run_length :: "tree \<Rightarrow> tree list \<Rightarrow> nat" where
  "run_length node [] = 0"
| "run_length node (next_node # rest) =
     (if kids next_node \<noteq> [] \<or> kids node \<noteq> [] \<or> sibling_key next_node \<noteq> sibling_key node then 0
      else Suc (run_length node rest))"

function partitionSiblings :: "tree list \<Rightarrow> sibling_unit list" where
  "partitionSiblings [] = []"
| "partitionSiblings (node # rest) =
     (let k = run_length node rest
      in if k + 1 \<ge> AUTOGROUP_MIN then Run (node # take k rest) # partitionSiblings (drop k rest)
         else Single node # partitionSiblings rest)"
  by pat_completeness auto
termination by (relation "measure length") auto

fun unitStart :: "sibling_unit \<Rightarrow> w_span" where
  "unitStart (Single n) = tspan n"
| "unitStart (Run ns) = tspan (hd ns)"

fun unit_trees :: "sibling_unit \<Rightarrow> tree list" where
  "unit_trees (Single n) = [n]"
| "unit_trees (Run ns) = ns"

definition emit_run :: "flatten_state \<Rightarrow> tree list \<Rightarrow> nat \<Rightarrow> bool list \<Rightarrow> bool \<Rightarrow> row list" where
  "emit_run st nodes depth guides is_last =
     (let spans = map tspan nodes; head_span = hd spans; groupId = ''group-'' @ wf_id head_span
      in if groupId \<in> fl_openGroups st
         then map (\<lambda>s. Span_row s depth (guides @ [\<not> is_last]) False False 0) spans
         else [Group_row groupId (case wf_op head_span of None \<Rightarrow> ''span'' | Some s \<Rightarrow> s)
                 (wf_description head_span) spans depth (guides @ [\<not> is_last])
                 (list_ex (\<lambda>s. is_failed (wf_status s)) spans)])"

definition gap_before :: "flatten_state \<Rightarrow> rat option \<Rightarrow> w_span \<Rightarrow> nat \<Rightarrow> bool list \<Rightarrow> row list" where
  "gap_before st previousEnd first depth guides =
     (case previousEnd of None \<Rightarrow> []
      | Some e \<Rightarrow>
          if fl_showGaps st \<and> GAP_MIN_MS \<le> wf_start first - e
          then [Gap_row (''gap-'' @ wf_id first) depth (guides @ [True]) e (wf_start first)] else [])"

definition unit_size :: "sibling_unit list \<Rightarrow> nat" where
  "unit_size us = length (concat (map tree_spans (concat (map unit_trees us))))"

lemma partition_trees: "concat (map unit_trees (partitionSiblings ts)) = ts"
proof (induction ts rule: partitionSiblings.induct)
  case (2 node rest)
  show ?case by (cases "run_length node rest + 1 \<ge> AUTOGROUP_MIN") (simp_all add: 2 Let_def)
qed simp

lemma unit_size_partition [simp]: "unit_size (partitionSiblings ts) = length (forest_spans ts)"
  by (simp add: unit_size_def partition_trees forest_spans_def)

text \<open>\<open>walk\<close> over the units of one sibling list; \<open>emitNode\<close> is its single-node case.\<close>

function walk_units ::
  "flatten_state \<Rightarrow> sibling_unit list \<Rightarrow> nat \<Rightarrow> bool list \<Rightarrow> rat option \<Rightarrow> row list" where
  "walk_units st [] depth guides previousEnd = []"
| "walk_units st (Run ns # us) depth guides previousEnd =
     gap_before st previousEnd (tspan (hd ns)) depth guides @
     emit_run st ns depth guides (us = []) @
     walk_units st us depth guides (advance previousEnd (map (\<lambda>n. wf_end (tspan n)) ns))"
| "walk_units st (Single (TNode s ks) # us) depth guides previousEnd =
     gap_before st previousEnd s depth guides @
     Span_row s depth (guides @ [us \<noteq> []]) (ks \<noteq> []) (wf_id s \<in> fl_collapsed st) (descendants (TNode s ks)) #
     (if ks \<noteq> [] \<and> wf_id s \<notin> fl_collapsed st
      then walk_units st (partitionSiblings ks) (depth + 1) (guides @ [us \<noteq> []]) None else []) @
     walk_units st us depth guides (advance previousEnd [wf_end s])"
  by pat_completeness auto
termination
  by (relation "measures [\<lambda>(st, us, _). unit_size us, \<lambda>(st, us, _). length us]")
     (auto simp: unit_size_def partition_trees)

definition flatten :: "tree list \<Rightarrow> flatten_state \<Rightarrow> row list" where
  "flatten nodes st = walk_units st (partitionSiblings nodes) 0 [] None"

section \<open>Every span is accounted for\<close>

text \<open>What a row stands for: its span and what its fold hides, or the members of its group.\<close>

fun row_weight :: "row \<Rightarrow> nat" where
  "row_weight (Span_row s depth guides hasChildren collapsed held) = 1 + (if collapsed then held else 0)"
| "row_weight (Group_row gid op desc spans depth guides failed) = length spans"
| "row_weight (Gap_row gid depth guides s e) = 0"

fun row_spans :: "row \<Rightarrow> w_span list" where
  "row_spans (Span_row s depth guides hasChildren collapsed held) = [s]"
| "row_spans (Group_row gid op desc spans depth guides failed) = spans"
| "row_spans (Gap_row gid depth guides s e) = []"

lemma run_leaves: "\<lbrakk>run_length node rest = k; j < k\<rbrakk> \<Longrightarrow> kids (rest ! j) = []"
proof (induction rest arbitrary: k j)
  case (Cons t ts)
  then show ?case by (cases j) (auto split: if_splits)
qed simp

definition unit_ok :: "sibling_unit \<Rightarrow> bool" where
  "unit_ok u = (case u of Single _ \<Rightarrow> True | Run ns \<Rightarrow> ns \<noteq> [] \<and> (\<forall>n \<in> set ns. kids n = []))"

lemma run_head_leaf: "0 < run_length node rest \<Longrightarrow> kids node = []"
  by (cases rest) (auto split: if_splits)

lemma run_length_le: "run_length node rest \<le> length rest"
  by (induction node rest rule: run_length.induct) auto

lemma partition_ok: "\<forall>u \<in> set (partitionSiblings ts). unit_ok u"
proof (induction ts rule: partitionSiblings.induct)
  case (2 node rest)
  have "\<forall>n \<in> set (take (run_length node rest) rest). kids n = []"
    using run_leaves [OF refl] run_length_le [of node rest] by (auto simp: in_set_conv_nth)
  moreover have "kids node = []" if "AUTOGROUP_MIN \<le> run_length node rest + 1"
    using that run_head_leaf [of node rest] by (simp add: AUTOGROUP_MIN_def)
  ultimately show ?case using 2 by (auto simp: Let_def unit_ok_def)
qed simp

lemma gap_rows [simp]:
  "sum_list (map row_weight (gap_before st e s d g)) = 0" "concat (map row_spans (gap_before st e s d g)) = []"
  by (auto simp: gap_before_def split: option.splits)

lemma run_rows:
  "sum_list (map row_weight (emit_run st ns d g l)) = length ns"
  "concat (map row_spans (emit_run st ns d g l)) = map tspan ns"
  by (auto simp: emit_run_def Let_def comp_def sum_list_triv concat_map_singleton)

lemma leaf_spans: "\<forall>n \<in> set ns. kids n = [] \<Longrightarrow> concat (map tree_spans ns) = map tspan ns"
proof (induction ns)
  case (Cons n ns)
  then show ?case by (cases n) simp
qed simp

lemma walk_weight:
  "\<forall>u \<in> set us. unit_ok u \<Longrightarrow> sum_list (map row_weight (walk_units st us depth guides e)) = unit_size us"
proof (induction st us depth guides e rule: walk_units.induct)
  case (1 st depth guides e)
  then show ?case by (simp add: unit_size_def)
next
  case (2 st ns us depth guides e)
  have "concat (map tree_spans ns) = map tspan ns"
    using 2(2) by (intro leaf_spans) (simp add: unit_ok_def)
  then show ?case using 2 by (simp add: run_rows unit_size_def)
next
  case (3 st s ks us depth guides e)
  have "length (forest_spans ks) = descendants (TNode s ks)"
    using descendants_spans [of "TNode s ks"] by (simp add: forest_spans_def)
  then show ?case
    using 3(1,2) 3(3) by (cases "ks = []"; cases "wf_id s \<in> fl_collapsed st")
      (auto simp: unit_size_def partition_ok partition_trees forest_spans_def)
qed

lemma walk_spans:
  "\<forall>u \<in> set us. unit_ok u \<Longrightarrow> fl_collapsed st = {} \<Longrightarrow>
   concat (map row_spans (walk_units st us depth guides e)) = concat (map tree_spans (concat (map unit_trees us)))"
proof (induction st us depth guides e rule: walk_units.induct)
  case (2 st ns us depth guides e)
  have "concat (map tree_spans ns) = map tspan ns"
    using 2(2) by (intro leaf_spans) (simp add: unit_ok_def)
  then show ?case using 2 by (simp add: run_rows)
next
  case (3 st s ks us depth guides e)
  then show ?case by (cases "ks = []") (auto simp: partition_ok partition_trees)
qed simp

lemma rows_hold_tree:
  "sum_list (map row_weight (flatten tree st)) = length (forest_spans tree)"
  "fl_collapsed st = {} \<Longrightarrow> mset (concat (map row_spans (flatten tree st))) = mset (forest_spans tree)"
  using walk_weight [OF partition_ok] walk_spans [OF partition_ok]
  by (simp_all add: flatten_def partition_trees forest_spans_def)

text \<open>
  C4: Every span of a trace is accounted for on screen, whatever is folded, grouped or shown as a
  gap. When no two spans of the trace have one id, each is accounted for exactly once: the span
  rows, the members of the group rows and the counts written on the closed folds add up to the
  trace, and with nothing folded the rows hold its spans and no other. When ids are repeated, which
  the server does not rule out, no row is made up and every id is still on screen with nothing
  folded, but only one of the spans of an id need be.
\<close>

theorem every_span_accounted:
  "\<exists>tree. buildTree spans = Some tree
     \<and> (distinct (map wf_id spans) \<longrightarrow> sum_list (map row_weight (flatten tree st)) = length spans)
     \<and> (fl_collapsed st = {} \<longrightarrow>
          set (concat (map row_spans (flatten tree st))) \<subseteq> set spans
          \<and> wf_id ` set (concat (map row_spans (flatten tree st))) = wf_id ` set spans
          \<and> (distinct (map wf_id spans) \<longrightarrow> mset (concat (map row_spans (flatten tree st))) = mset spans))"
proof -
  obtain tree where tree: "buildTree spans = Some tree" using buildTree_ends [of spans] by auto
  have once: "mset (forest_spans tree) = mset spans" if "distinct (map wf_id spans)"
    using tree_holds_spans [OF that tree] .
  then have "length (forest_spans tree) = length spans" if "distinct (map wf_id spans)"
    using that by (metis size_mset)
  moreover have "set (concat (map row_spans (flatten tree st))) = set (forest_spans tree)" if "fl_collapsed st = {}"
    using rows_hold_tree(2) [where st = st and tree = tree, OF that] by (metis set_mset_mset)
  ultimately show ?thesis
    using once tree_holds_ids [OF tree] rows_hold_tree [where st = st and tree = tree]
    by (intro exI [of _ tree]) (simp add: tree)
qed

definition cyclic_trace :: "w_span list" where
  "cyclic_trace = [blank_span ''root'' None 0 100, blank_span ''a'' (Some ''b'') 10 20,
     blank_span ''b'' (Some ''a'') 20 30, blank_span ''c'' (Some ''gone'') 40 50]"

lemma every_span_accounted_witness:
  "\<exists>tree. buildTree cyclic_trace = Some tree \<and>
     sum_list (map row_weight (flatten tree \<lparr>fl_collapsed = {}, fl_openGroups = {}, fl_showGaps = True\<rparr>)) = 4"
proof -
  have "distinct (map wf_id cyclic_trace)" by (simp add: cyclic_trace_def blank_span_def)
  then obtain tree where "buildTree cyclic_trace = Some tree"
      "sum_list (map row_weight (flatten tree \<lparr>fl_collapsed = {}, fl_openGroups = {}, fl_showGaps = True\<rparr>)) = length cyclic_trace"
    using every_span_accounted [of cyclic_trace "\<lparr>fl_collapsed = {}, fl_openGroups = {}, fl_showGaps = True\<rparr>"] by blast
  then show ?thesis by (intro exI [of _ tree]) (simp add: cyclic_trace_def)
qed

text \<open>The frontier only moves forward, so a gap starts after every earlier sibling has ended.\<close>

lemma advance_forward:
  "f = Some x \<Longrightarrow> \<exists>y. advance f ends = Some y \<and> x \<le> y \<and> (\<forall>e \<in> set ends. e \<le> y)"
proof (induction ends arbitrary: f x)
  case (Cons e ends)
  have "advance f (e # ends) = advance (Some (max x e)) ends" by (simp add: advance_def Cons.prems)
  then show ?case using Cons.IH [of "Some (max x e)" "max x e"] by auto
qed (simp add: advance_def)

lemma advance_covers: "ends \<noteq> [] \<Longrightarrow> \<exists>y. advance f ends = Some y \<and> (\<forall>e \<in> set ends. e \<le> y)"
proof (cases ends)
  case (Cons e es)
  assume "ends \<noteq> []"
  show ?thesis
  proof (cases f)
    case None
    then have "advance f ends = advance (Some e) es" by (simp add: advance_def Cons)
    with advance_forward [of "Some e" e es] show ?thesis by (auto simp: Cons)
  next
    case (Some x)
    with advance_forward [of f x ends] show ?thesis by auto
  qed
qed simp

lemma gap_is_long:
  "Gap_row gid d g s e \<in> set (gap_before st prev first depth guides) \<Longrightarrow> prev = Some s \<and> 100 \<le> e - s"
  by (auto simp: gap_before_def GAP_MIN_MS_def split: option.splits if_splits)

section \<open>Bars on the shared clock\<close>

definition scale_start :: "w_span list \<Rightarrow> rat" where
  "scale_start spans = Min (wf_start ` set spans)"

definition scale_end :: "w_span list \<Rightarrow> rat" where
  "scale_end spans = Max (wf_end ` set spans)"

definition scale_total :: "w_span list \<Rightarrow> rat" where
  "scale_total spans = max (scale_end spans - scale_start spans) 1"

definition bar_left :: "w_span list \<Rightarrow> w_span list \<Rightarrow> rat" where
  "bar_left spans row = (scale_start row - scale_start spans) / scale_total spans * 100"

definition bar_width :: "w_span list \<Rightarrow> w_span list \<Rightarrow> rat" where
  "bar_width spans row =
     min (max ((scale_end row - scale_start row) / scale_total spans * 100) (6 / 10)) (100 - bar_left spans row)"

definition label_inside :: "rat \<Rightarrow> rat \<Rightarrow> bool" where
  "label_inside left width = (left + width > 82)"

lemma scale_sub:
  assumes "set row \<subseteq> set spans" "row \<noteq> []"
  shows "scale_start spans \<le> scale_start row" "scale_end row \<le> scale_end spans"
  using assms by (auto simp: scale_start_def scale_end_def intro!: Min_antimono Max_mono image_mono)

lemma scale_order:
  assumes "row \<noteq> []" "\<forall>s \<in> set row. wf_start s \<le> wf_end s"
  shows "scale_start row \<le> scale_end row"
proof -
  obtain s where s: "s \<in> set row" using assms(1) by (cases row) auto
  have "scale_start row \<le> wf_start s" "wf_end s \<le> scale_end row"
    using s by (simp_all add: scale_start_def scale_end_def)
  with assms(2) s show ?thesis by fastforce
qed

text \<open>A row of spans that end no earlier than they start keeps its bar on the track.\<close>

lemma bar_on_track:
  assumes "set row \<subseteq> set spans" "row \<noteq> []" "\<forall>s \<in> set row. wf_start s \<le> wf_end s"
  shows "0 \<le> bar_left spans row" "bar_left spans row \<le> 100" "0 \<le> bar_width spans row"
    "bar_left spans row + bar_width spans row \<le> 100"
proof -
  have t: "0 < scale_total spans" "scale_end spans - scale_start spans \<le> scale_total spans"
    by (auto simp: scale_total_def)
  have "scale_start row - scale_start spans \<le> scale_total spans"
    using scale_sub [OF assms(1,2)] scale_order [OF assms(2,3)] t(2) by linarith
  then have "(scale_start row - scale_start spans) / scale_total spans \<le> 1" using t(1) by simp
  then show l: "bar_left spans row \<le> 100" unfolding bar_left_def by (simp only: mult_le_cancel_right1 [of "_ :: rat" 100] mult.commute [of _ 100])
  show "0 \<le> bar_left spans row" using scale_sub(1) [OF assms(1,2)] t(1) by (simp add: bar_left_def)
  show "0 \<le> bar_width spans row" using l by (simp add: bar_width_def)
  show "bar_left spans row + bar_width spans row \<le> 100" by (auto simp: bar_width_def)
qed

text \<open>A span whose clock ran backwards gets a bar of negative width.\<close>

lemma skewed_bar_is_negative:
  "bar_width [blank_span ''a'' None 0 10, blank_span ''b'' None 50 20] [blank_span ''b'' None 50 20] < 0"
  by (simp add: bar_width_def bar_left_def scale_start_def scale_end_def scale_total_def blank_span_def)

section \<open>Selection, folds, the divider and the keys\<close>

definition toggle_in :: "string \<Rightarrow> string set \<Rightarrow> string set" where
  "toggle_in i s = (if i \<in> s then s - {i} else insert i s)"

fun expandable :: "row \<Rightarrow> bool" where
  "expandable (Span_row s d g hasChildren collapsed held) = hasChildren"
| "expandable (Group_row gid op desc spans d g f) = True"
| "expandable (Gap_row gid d g s e) = False"

fun is_open :: "row \<Rightarrow> bool" where
  "is_open (Span_row s d g hasChildren collapsed held) = (hasChildren \<and> \<not> collapsed)"
| "is_open _ = False"

fun toggle_row :: "row \<Rightarrow> flatten_state \<Rightarrow> flatten_state" where
  "toggle_row (Span_row s d g hasChildren collapsed held) st =
     (if hasChildren then st\<lparr>fl_collapsed := toggle_in (wf_id s) (fl_collapsed st)\<rparr> else st)"
| "toggle_row (Group_row gid op desc spans d g f) st = st\<lparr>fl_openGroups := toggle_in gid (fl_openGroups st)\<rparr>"
| "toggle_row (Gap_row gid d g s e) st = st"

text \<open>What a key does: the selection asked of \<open>onSelect\<close>, a fold, or a move of the focus.\<close>

datatype key_effect = K_select "w_span option" | K_toggle | K_move int | K_home | K_end | K_nothing

fun select_effect :: "row \<Rightarrow> string option \<Rightarrow> key_effect" where
  "select_effect (Span_row s d g h c n) selectedId = K_select (if selectedId = Some (wf_id s) then None else Some s)"
| "select_effect _ selectedId = K_toggle"

definition rowKeyHandler :: "row \<Rightarrow> string option \<Rightarrow> string \<Rightarrow> key_effect" where
  "rowKeyHandler r selectedId key =
     (if key = ''Enter'' \<or> key = '' '' then select_effect r selectedId
      else if key = ''ArrowDown'' then K_move 1
      else if key = ''ArrowUp'' then K_move (-1)
      else if key = ''Home'' then K_home
      else if key = ''End'' then K_end
      else if key = ''ArrowRight'' then (if expandable r \<and> \<not> is_open r then K_toggle else K_nothing)
      else if key = ''ArrowLeft'' then (if expandable r \<and> is_open r then K_toggle else K_nothing)
      else K_nothing)"

definition rowAppearance :: "row \<Rightarrow> (bool \<times> span_kind option) option" where
  "rowAppearance r =
     (case r of
        Group_row gid op desc spans d g failed \<Rightarrow>
          Some (failed, if failed then Some SK_error else spanKind (hd spans))
      | Span_row s d g h c n \<Rightarrow> Some (spanKind s = Some SK_error, spanKind s)
      | Gap_row gid d g s e \<Rightarrow> None)"

definition clamp_split :: "rat \<Rightarrow> rat" where
  "clamp_split f = min (max f (15 / 100)) (85 / 100)"

definition divider_key :: "string \<Rightarrow> rat \<Rightarrow> rat" where
  "divider_key key split =
     (let step = (if key = ''ArrowLeft'' then - 3 / 100 else if key = ''ArrowRight'' then 3 / 100 else 0)
      in if step = 0 then split else clamp_split (split + step))"

lemma clamp_range: "clamp_split f \<in> {15 / 100 .. 85 / 100}"
  by (simp add: clamp_split_def min_def max_def)

lemma divider_stays: "split \<in> {15 / 100 .. 85 / 100} \<Longrightarrow> divider_key key split \<in> {15 / 100 .. 85 / 100}"
  unfolding divider_key_def Let_def by (simp only: clamp_range split: if_split) simp

text \<open>Arrow right only opens and arrow left only closes.\<close>

lemma arrows_open_and_close:
  "rowKeyHandler r sel ''ArrowRight'' = K_toggle \<longleftrightarrow> expandable r \<and> \<not> is_open r"
  "rowKeyHandler r sel ''ArrowLeft'' = K_toggle \<longleftrightarrow> is_open r"
  by (cases r; simp add: rowKeyHandler_def)+

lemma toggle_in_twice [simp]: "toggle_in i (toggle_in i s) = s"
  by (auto simp: toggle_in_def)

section \<open>Durations\<close>

text \<open>\<open>toFixed(n)\<close> of a number that is not negative: the nearest, and of two the larger.\<close>

definition to_fixed :: "nat \<Rightarrow> rat \<Rightarrow> string" where
  "to_fixed n x =
     (let k = nat \<lfloor>x * 10 ^ n + 1 / 2\<rfloor>; whole_part = nat_str (k div 10 ^ n); digits = nat_str (k mod 10 ^ n)
      in whole_part @ ''.'' @ replicate (n - length digits) (CHR ''0'') @ digits)"

definition formatSpanDuration :: "rat \<Rightarrow> string" where
  "formatSpanDuration ms =
     (if ms < 1 then int_str (js_round (ms * 1000)) @ [CHR '' '', CHR 0xB5, CHR ''s'']
      else if ms < 1000 then (if ms < 10 then to_fixed 1 ms else int_str (js_round ms)) @ '' ms''
      else to_fixed 2 (ms / 1000) @ '' s'')"

end
