(* ===== verification/Events.thy ===== *)
theory Events
  imports Timestamps
begin

text \<open>
  \<open>features/event/lib/\<close>: the payload of an event as the page reads it. The zod schemas are
  third-party code: each \<open>safeParse\<close> is an argument giving the parsed part or \<open>None\<close>, and
  the records below are the shapes those schemas let through. Then stack traces, threads,
  breadcrumbs, the sections a page has and the user's feedback.
\<close>

section \<open>Shapes\<close>

record stack_frame =
  fr_filename :: "string option"
  fr_function :: "string option"
  fr_lineno :: "rat option"
  fr_colno :: "rat option"
  fr_context_line :: "string option"
  fr_pre_context :: "string list option"
  fr_post_context :: "string list option"

datatype thread_id = Id_str string | Id_num rat

definition id_str :: "thread_id option \<Rightarrow> string" where
  "id_str i = (case i of None \<Rightarrow> ''undefined'' | Some (Id_str s) \<Rightarrow> s | Some (Id_num q) \<Rightarrow> num_str (Fin q))"

text \<open>A \<open>stacktrace\<close> is \<open>None\<close> when absent; its \<open>frames\<close> may be absent too.\<close>

record exception_value =
  ex_type :: "string option"
  ex_value :: "string option"
  ex_thread_id :: "thread_id option"
  ex_stacktrace :: "stack_frame list option option"

record thread =
  th_id :: "thread_id option"
  th_name :: "string option"
  th_crashed :: "bool option"
  th_stacktrace :: "stack_frame list option option"

record breadcrumb =
  bc_timestamp :: "rat option"
  bc_type :: "string option"
  bc_category :: "string option"
  bc_message :: "string option"
  bc_level :: "string option"
  bc_data :: "(string \<times> jv) list option"

record user_info =
  ui_id :: "string option"
  ui_email :: "string option"
  ui_ip :: "string option"

datatype tag_value = Tag_str string | Tag_bool bool | Tag_num rat

definition tag_str :: "tag_value \<Rightarrow> string" where
  "tag_str v = (case v of Tag_str s \<Rightarrow> s | Tag_bool b \<Rightarrow> (if b then ''true'' else ''false'') | Tag_num q \<Rightarrow> num_str (Fin q))"

text \<open>A list given as an array, or as an object whose \<open>values\<close> may be missing.\<close>

datatype 'a listed = As_list "'a list" | As_values "'a list option"

text \<open>The seven \<open>safeParse\<close> calls; a crumb's timestamp is still as sent. An optional schema accepts \<open>undefined\<close>.\<close>

record schemas =
  zp_exception :: "jv \<Rightarrow> exception_value list option option option"
  zp_breadcrumbs :: "jv \<Rightarrow> (jv \<times> breadcrumb) listed option"
  zp_threads :: "jv \<Rightarrow> thread listed option"
  zp_contexts :: "jv \<Rightarrow> (string \<times> (string \<times> jv) list) list option option"
  zp_modules :: "jv \<Rightarrow> (string \<times> string) list option option"
  zp_tags :: "jv \<Rightarrow> (string \<times> tag_value) list option option"
  zp_user :: "jv \<Rightarrow> user_info option option"

section \<open>Parsing\<close>

record parsed_event =
  pe_exception :: "exception_value list option option"
  pe_breadcrumbs :: "(jv \<times> breadcrumb) listed option"
  pe_threads :: "thread listed option"
  pe_contexts :: "(string \<times> (string \<times> jv) list) list option"
  pe_modules :: "(string \<times> string) list option"
  pe_tags :: "(string \<times> string) list option"
  pe_user :: "user_info option"

definition joined :: "'a option option \<Rightarrow> 'a option" where
  "joined v = (case v of Some (Some x) \<Rightarrow> Some x | _ \<Rightarrow> None)"

definition parseEventData :: "schemas \<Rightarrow> jv \<Rightarrow> parsed_event" where
  "parseEventData z data =
     \<lparr>pe_exception = joined (zp_exception z (pget ''exception'' data)),
      pe_breadcrumbs = zp_breadcrumbs z (pget ''breadcrumbs'' data),
      pe_threads = zp_threads z (pget ''threads'' data),
      pe_contexts = joined (zp_contexts z (pget ''contexts'' data)),
      pe_modules = joined (zp_modules z (pget ''modules'' data)),
      pe_tags = map_option (map (\<lambda>(k, v). (k, tag_str v))) (joined (zp_tags z (pget ''tags'' data))),
      pe_user = joined (zp_user z (pget ''user'' data))\<rparr>"

definition listed_items :: "'a listed option \<Rightarrow> 'a list" where
  "listed_items v =
     (case v of None \<Rightarrow> [] | Some (As_list xs) \<Rightarrow> xs
      | Some (As_values vs) \<Rightarrow> (case vs of None \<Rightarrow> [] | Some xs \<Rightarrow> xs))"

definition normalizeBreadcrumbs ::
  "(string \<Rightarrow> rat option) \<Rightarrow> (jv \<times> breadcrumb) listed option \<Rightarrow> breadcrumb list" where
  "normalizeBreadcrumbs other breadcrumbs =
     map (\<lambda>(stamp, crumb). crumb\<lparr>bc_timestamp := parseEpochSeconds other stamp\<rparr>) (listed_items breadcrumbs)"

definition normalizeThreads :: "thread listed option \<Rightarrow> thread list" where
  "normalizeThreads threads = listed_items threads"

section \<open>Sections\<close>

record event_has =
  has_threads :: bool
  has_stackTrace :: bool
  has_breadcrumbs :: bool
  has_contexts :: bool
  has_modules :: bool
  has_user :: bool
  has_tags :: bool

definition some_text :: "string option \<Rightarrow> bool" where
  "some_text s \<longleftrightarrow> s \<noteq> None \<and> s \<noteq> Some []"

record event_payload =
  ep_parsed :: parsed_event
  ep_breadcrumbs :: "breadcrumb list"
  ep_threads :: "thread list"
  ep_tags :: "(string \<times> string) list"
  ep_has :: event_has

definition readEventPayload :: "schemas \<Rightarrow> (string \<Rightarrow> rat option) \<Rightarrow> jv \<Rightarrow> event_payload" where
  "readEventPayload z other data =
     (let parsed = parseEventData z data;
          breadcrumbs = normalizeBreadcrumbs other (pe_breadcrumbs parsed);
          threads = normalizeThreads (pe_threads parsed);
          tags = (case pe_tags parsed of None \<Rightarrow> [] | Some ts \<Rightarrow> ts);
          hasThreads = (threads \<noteq> [])
      in \<lparr>ep_parsed = parsed, ep_breadcrumbs = breadcrumbs, ep_threads = threads, ep_tags = tags,
          ep_has = \<lparr>has_threads = hasThreads,
            has_stackTrace = (hasThreads \<or> (case joined (pe_exception parsed) of None \<Rightarrow> False | Some vs \<Rightarrow> vs \<noteq> [])),
            has_breadcrumbs = (breadcrumbs \<noteq> []),
            has_contexts = (case pe_contexts parsed of None \<Rightarrow> False | Some cs \<Rightarrow> cs \<noteq> []),
            has_modules = (case pe_modules parsed of None \<Rightarrow> False | Some ms \<Rightarrow> ms \<noteq> []),
            has_user = (case pe_user parsed of None \<Rightarrow> False
                        | Some u \<Rightarrow> some_text (ui_id u) \<or> some_text (ui_email u) \<or> some_text (ui_ip u)),
            has_tags = (tags \<noteq> [])\<rparr>\<rparr>)"

datatype jump_target = J_highlights | J_stacktrace | J_breadcrumbs | J_tags | J_context

definition eventJumpTargets :: "event_has \<Rightarrow> jump_target list" where
  "eventJumpTargets h =
     [J_highlights] @ (if has_stackTrace h then [J_stacktrace] else []) @
     (if has_breadcrumbs h then [J_breadcrumbs] else []) @ (if has_tags h then [J_tags] else []) @
     (if has_contexts h \<or> has_modules h \<or> has_user h then [J_context] else [])"

definition sectionInView :: "('i \<times> rat) list \<Rightarrow> rat \<Rightarrow> bool \<Rightarrow> 'i option" where
  "sectionInView tops line atEnd =
     (if tops = [] then None
      else if atEnd then Some (fst (last tops))
      else Some (foldl (\<lambda>current (i, y). if y \<le> line then i else current) (fst (hd tops)) tops))"

definition splitIssueTitle :: "string \<Rightarrow> string option \<Rightarrow> string \<times> string" where
  "splitIssueTitle title value =
     (case index_of '': '' title of
        Some i \<Rightarrow> if 0 < i then take i title else title
      | None \<Rightarrow> title,
      case value of None \<Rightarrow> title | Some v \<Rightarrow> if v = [] then title else v)"

record feedback =
  fb_message :: string
  fb_name :: string
  fb_contactEmail :: string
  fb_url :: string
  fb_event :: "string option"

definition text_of :: "jv \<Rightarrow> string" where
  "text_of v = (case v of JStr s \<Rightarrow> s | _ \<Rightarrow> [])"

text \<open>Reading a property of \<open>null\<close> throws; \<open>?.\<close> and \<open>?? {}\<close> do not.\<close>

definition readFeedback :: "jv \<Rightarrow> feedback option" where
  "readFeedback data =
     (if pget ''type'' data \<noteq> JStr ''feedback'' then None
      else
        let fb = pget ''feedback'' (pget ''contexts'' data);
            url = text_of (pget ''url'' fb);
            ev = text_of (pget ''associated_event_id'' fb)
        in Some \<lparr>fb_message = text_of (pget ''message'' fb), fb_name = text_of (pget ''name'' fb),
             fb_contactEmail = text_of (pget ''contact_email'' fb),
             fb_url = (if url \<noteq> [] then url else text_of (pget ''url'' (pget ''request'' data))),
             fb_event = (if ev = [] then None else Some ev)\<rparr>)"

section \<open>Breadcrumbs\<close>

text \<open>One entry of the grouped list: the crumb that opened it and how many it stands for.\<close>

definition mergeable :: "breadcrumb \<Rightarrow> breadcrumb \<Rightarrow> bool" where
  "mergeable previous crumb \<longleftrightarrow>
     bc_category previous = bc_category crumb \<and> bc_message previous = bc_message crumb \<and>
     bc_level previous = bc_level crumb \<and> bc_type previous = bc_type crumb \<and>
     bc_data crumb = None \<and> bc_data previous = None"

definition group_crumb :: "(breadcrumb \<times> nat) list \<Rightarrow> breadcrumb \<Rightarrow> (breadcrumb \<times> nat) list" where
  "group_crumb grouped crumb =
     (if grouped \<noteq> [] \<and> mergeable (fst (last grouped)) crumb
      then butlast grouped @ [(fst (last grouped), snd (last grouped) + 1)]
      else grouped @ [(crumb, 1)])"

definition groupConsecutiveBreadcrumbs :: "breadcrumb list \<Rightarrow> (breadcrumb \<times> nat) list" where
  "groupConsecutiveBreadcrumbs items = foldl group_crumb [] items"

definition getSummaryBreadcrumbs :: "'a list \<Rightarrow> nat \<Rightarrow> 'a list" where
  "getSummaryBreadcrumbs items n = (if length items \<le> n + 1 then items else drop (length items - n) items)"

text \<open>What a reader sees of a crumb besides its time.\<close>

definition crumb_face ::
  "breadcrumb \<Rightarrow> string option \<times> string option \<times> string option \<times> string option \<times> (string \<times> jv) list option" where
  "crumb_face c = (bc_type c, bc_category c, bc_message c, bc_level c, bc_data c)"

definition unfolded :: "(breadcrumb \<times> nat) list \<Rightarrow>
    (string option \<times> string option \<times> string option \<times> string option \<times> (string \<times> jv) list option) list" where
  "unfolded gs = concat (map (\<lambda>(c, n). replicate n (crumb_face c)) gs)"

fun no_neighbours_merge :: "(breadcrumb \<times> nat) list \<Rightarrow> bool" where
  "no_neighbours_merge (g # h # gs) \<longleftrightarrow> \<not> mergeable (fst g) (fst h) \<and> no_neighbours_merge (h # gs)"
| "no_neighbours_merge _ \<longleftrightarrow> True"

definition groups_ok :: "(breadcrumb \<times> nat) list \<Rightarrow> bool" where
  "groups_ok gs \<longleftrightarrow> no_neighbours_merge gs \<and> (\<forall>(c, n) \<in> set gs. 0 < n \<and> (bc_data c \<noteq> None \<longrightarrow> n = 1))"

lemma no_neighbours_snoc:
  "no_neighbours_merge (gs @ [g]) \<longleftrightarrow>
   no_neighbours_merge gs \<and> (gs \<noteq> [] \<longrightarrow> \<not> mergeable (fst (last gs)) (fst g))"
  by (induction gs rule: no_neighbours_merge.induct) auto

lemma group_crumb_step:
  assumes "groups_ok gs"
  shows "groups_ok (group_crumb gs c) \<and> unfolded (group_crumb gs c) = unfolded gs @ [crumb_face c]"
proof (cases "gs \<noteq> [] \<and> mergeable (fst (last gs)) c")
  case True
  then obtain hs p n where gs: "gs = hs @ [(p, n)]" by (cases gs rule: rev_cases) auto
  with True have m: "mergeable p c" by simp
  then have face: "crumb_face p = crumb_face c" by (simp add: mergeable_def crumb_face_def)
  have "replicate (n + 1) (crumb_face p) = replicate n (crumb_face p) @ [crumb_face c]"
    by (simp add: face replicate_append_same)
  then have u: "unfolded (group_crumb gs c) = unfolded gs @ [crumb_face c]"
    using m by (simp add: group_crumb_def gs unfolded_def)
  have "groups_ok (group_crumb gs c)"
    using assms m by (auto simp: groups_ok_def group_crumb_def gs no_neighbours_snoc mergeable_def)
  with u show ?thesis by simp
next
  case False
  then have g: "group_crumb gs c = gs @ [(c, 1)]" by (auto simp: group_crumb_def)
  show ?thesis using assms False unfolding g by (auto simp: groups_ok_def no_neighbours_snoc unfolded_def)
qed

text \<open>
  Grouping breadcrumbs loses nothing and is as short as it can be: repeating every entry
  as often as its count says gives the faces of the crumbs in their order, a crumb with data
  stands alone, and no two neighbouring entries could have been one.
\<close>

theorem grouped_crumbs_are_the_crumbs:
  "unfolded (groupConsecutiveBreadcrumbs items) = map crumb_face items \<and> groups_ok (groupConsecutiveBreadcrumbs items)"
proof -
  have "groups_ok gs \<Longrightarrow> unfolded (foldl group_crumb gs items) = unfolded gs @ map crumb_face items
    \<and> groups_ok (foldl group_crumb gs items)" for gs
    by (induction items arbitrary: gs) (simp_all add: group_crumb_step)
  from this [of "[]"] show ?thesis
    by (simp add: groupConsecutiveBreadcrumbs_def groups_ok_def unfolded_def)
qed

text \<open>The summary is the newest crumbs, and it never hides just one.\<close>

lemma summary_is_newest:
  "\<exists>hidden. items = hidden @ getSummaryBreadcrumbs items n \<and> length hidden \<noteq> 1"
  by (intro exI [of _ "take (length items - length (getSummaryBreadcrumbs items n)) items"])
     (auto simp: getSummaryBreadcrumbs_def)

lemma section_in_view_last:
  "tops \<noteq> [] \<Longrightarrow> (\<exists>pre i y post. tops = pre @ (i, y) # post \<and> y \<le> line \<and> (\<forall>(_, z) \<in> set post. line < z)
      \<and> sectionInView tops line False = Some i)
    \<or> ((\<forall>(_, z) \<in> set tops. line < z) \<and> sectionInView tops line False = Some (fst (hd tops)))"
proof -
  assume ne: "tops \<noteq> []"
  have "(\<exists>pre i y post. ts = pre @ (i, y) # post \<and> y \<le> line \<and> (\<forall>(_, z) \<in> set post. line < z)
      \<and> foldl (\<lambda>current (i, y). if y \<le> line then i else current) c ts = i)
    \<or> ((\<forall>(_, z) \<in> set ts. line < z) \<and> foldl (\<lambda>current (i, y). if y \<le> line then i else current) c ts = c)"
    for ts :: "('a \<times> rat) list" and c
  proof (induction ts rule: rev_induct)
    case (snoc t ts)
    obtain i y where t: "t = (i, y)" by (cases t)
    show ?case
    proof (cases "y \<le> line")
      case True
      then show ?thesis by (intro disjI1 exI [of _ ts] exI [of _ i] exI [of _ y] exI [of _ "[]"]) (simp add: t)
    next
      case False
      from snoc show ?thesis
      proof (elim disjE exE conjE)
        fix pre j z post
        assume "ts = pre @ (j, z) # post" "z \<le> line" "\<forall>(_, z) \<in> set post. line < z"
          "foldl (\<lambda>current (i, y). if y \<le> line then i else current) c ts = j"
        then show ?thesis using False
          by (intro disjI1 exI [of _ pre] exI [of _ j] exI [of _ z] exI [of _ "post @ [t]"]) (simp add: t)
      next
        assume "\<forall>(_, z) \<in> set ts. line < z"
          "foldl (\<lambda>current (i, y). if y \<le> line then i else current) c ts = c"
        then show ?thesis using False by (intro disjI2) (simp add: t)
      qed
    qed
  qed simp
  from this [of tops "fst (hd tops)"] ne show ?thesis by (auto simp: sectionInView_def)
qed

section \<open>Frames and threads\<close>

definition shouldShowNewestFirst :: "string option \<Rightarrow> bool" where
  "shouldShowNewestFirst platform \<longleftrightarrow> platform \<noteq> Some ''python''"

definition orderFramesForDisplay :: "stack_frame list \<Rightarrow> string option \<Rightarrow> stack_frame list" where
  "orderFramesForDisplay frames platform = (if shouldShowNewestFirst platform then rev frames else frames)"

record context_line =
  cl_lineNumber :: rat
  cl_code :: string
  cl_highlighted :: bool

fun numbered :: "rat \<Rightarrow> string list \<Rightarrow> context_line list" where
  "numbered n [] = []"
| "numbered n (code # codes) =
     \<lparr>cl_lineNumber = n, cl_code = code, cl_highlighted = False\<rparr> # numbered (n + 1) codes"

definition listed :: "string list option \<Rightarrow> string list" where
  "listed v = (case v of None \<Rightarrow> [] | Some xs \<Rightarrow> xs)"

definition buildFrameContextLines :: "stack_frame \<Rightarrow> context_line list" where
  "buildFrameContextLines frame =
     (case fr_lineno frame of None \<Rightarrow> []
      | Some lineno \<Rightarrow>
          if fr_context_line frame = None \<and> listed (fr_pre_context frame) = [] \<and> listed (fr_post_context frame) = []
          then []
          else
            let pre = listed (fr_pre_context frame)
            in numbered (max 0 (lineno - of_nat (length pre))) pre @
               (case fr_context_line frame of None \<Rightarrow> []
                | Some code \<Rightarrow> [\<lparr>cl_lineNumber = lineno, cl_code = code, cl_highlighted = True\<rparr>]) @
               numbered (lineno + 1) (listed (fr_post_context frame)))"

definition truthy_bool :: "bool option \<Rightarrow> bool" where
  "truthy_bool b \<longleftrightarrow> b = Some True"

definition findBestThread :: "thread list \<Rightarrow> thread option" where
  "findBestThread threads =
     (case List.find (\<lambda>t. truthy_bool (th_crashed t)) threads of Some t \<Rightarrow> Some t
      | None \<Rightarrow> (case List.find (\<lambda>t. th_stacktrace t \<noteq> None) threads of Some t \<Rightarrow> Some t
                | None \<Rightarrow> (case threads of [] \<Rightarrow> None | t # _ \<Rightarrow> Some t)))"

definition matchExceptionForThread :: "exception_value list option \<Rightarrow> thread option \<Rightarrow> exception_value option" where
  "matchExceptionForThread values_opt thr =
     (case (values_opt, thr) of
        (Some vs, Some t) \<Rightarrow>
          if vs = [] then None
          else (case List.find (\<lambda>v. ex_thread_id v \<noteq> None \<and> id_str (ex_thread_id v) = id_str (th_id t)) vs of
                  Some v \<Rightarrow> Some v
                | None \<Rightarrow>
                    if length vs = 1 \<and> ex_thread_id (hd vs) = None \<and> truthy_bool (th_crashed t)
                    then Some (hd vs) else None)
      | _ \<Rightarrow> None)"

definition frame_text :: "stack_frame \<Rightarrow> string" where
  "frame_text frame =
     ''  at '' @ (case fr_function frame of None \<Rightarrow> ''<anonymous>'' | Some f \<Rightarrow> if f = [] then ''<anonymous>'' else f) @
     '' ('' @ join_with '':''
       (filter (\<lambda>s. s \<noteq> [])
         (List.map_filter id
           [fr_filename frame, map_option (num_str \<circ> Fin) (fr_lineno frame), map_option (num_str \<circ> Fin) (fr_colno frame)])) @ '')''"

definition exception_text :: "string option \<Rightarrow> exception_value \<Rightarrow> string" where
  "exception_text platform exc =
     join_with [CHR 0x0A]
       (join_with '': '' (filter (\<lambda>s. s \<noteq> []) (List.map_filter id [ex_type exc, ex_value exc])) #
        map frame_text (orderFramesForDisplay
          (case joined (ex_stacktrace exc) of None \<Rightarrow> [] | Some fs \<Rightarrow> fs) platform))"

definition formatStackTraceAsText :: "exception_value list option \<Rightarrow> string option \<Rightarrow> string" where
  "formatStackTraceAsText values_opt platform =
     join_with [CHR 0x0A, CHR 0x0A]
       (map (exception_text platform) (case values_opt of None \<Rightarrow> [] | Some vs \<Rightarrow> vs))"

lemma numbered_codes [simp]: "map cl_code (numbered n cs) = cs" "filter cl_highlighted (numbered n cs) = []"
  by (induction cs arbitrary: n) simp_all

text \<open>Consecutive numbers from \<open>n\<close> on.\<close>

definition count_from :: "rat \<Rightarrow> nat \<Rightarrow> rat list" where
  "count_from n k = map (\<lambda>i. n + of_nat i) [0 ..< k]"

lemma count_from_0 [simp]: "count_from n 0 = []"
  by (simp add: count_from_def)

lemma count_from_Suc: "count_from n (Suc k) = n # count_from (n + 1) k"
  by (simp add: count_from_def upt_conv_Cons map_Suc_upt [symmetric] comp_def add.assoc del: upt_Suc map_Suc_upt)

lemma numbered_lines [simp]: "map cl_lineNumber (numbered n cs) = count_from n (length cs)"
  by (induction cs arbitrary: n) (simp_all add: count_from_Suc)

lemma count_from_append: "count_from n (j + k) = count_from n j @ count_from (n + of_nat j) k"
  by (induction j arbitrary: n) (simp_all add: count_from_Suc add.assoc)

text \<open>
  A frame whose context fits before its line is shown as one run of consecutively
  numbered lines, the code before it, its own line and the code after, and its own line is
  the only one highlighted and keeps its real number.
\<close>

theorem frame_context_is_numbered:
  assumes l: "fr_lineno frame = Some l" and c: "fr_context_line frame = Some code"
    and fits: "of_nat (length (listed (fr_pre_context frame))) \<le> l"
  shows "map cl_lineNumber (buildFrameContextLines frame) =
      count_from (l - of_nat (length (listed (fr_pre_context frame))))
        (length (listed (fr_pre_context frame)) + (1 + length (listed (fr_post_context frame))))
    \<and> map cl_code (buildFrameContextLines frame) =
      listed (fr_pre_context frame) @ code # listed (fr_post_context frame)
    \<and> map cl_lineNumber (filter cl_highlighted (buildFrameContextLines frame)) = [l]"
proof -
  have "max 0 (l - of_nat (length (listed (fr_pre_context frame)))) = l - of_nat (length (listed (fr_pre_context frame)))"
    using fits by simp
  then show ?thesis
    unfolding buildFrameContextLines_def count_from_append
    by (simp add: l c Let_def count_from_Suc)
qed

definition plain_frame :: stack_frame where
  "plain_frame = \<lparr>fr_filename = Some ''app.py'', fr_function = None, fr_lineno = Some 2, fr_colno = None,
     fr_context_line = Some ''b'', fr_pre_context = Some [''a''], fr_post_context = Some [''c'']\<rparr>"

lemma frame_context_is_numbered_witness:
  "map cl_lineNumber (buildFrameContextLines plain_frame) = [1, 2, 3]"
  using frame_context_is_numbered [of plain_frame 2 "''b''"]
  by (simp add: plain_frame_def listed_def count_from_def upt_rec)

text \<open>
  More context before than the line number allows starts again at 0, and the numbers then
  shown before the line run past it.
\<close>

lemma long_context_numbers_repeat:
  "map cl_lineNumber (buildFrameContextLines (plain_frame\<lparr>fr_lineno := Some 1, fr_pre_context := Some [''x'', ''y'', ''z'']\<rparr>))
   = [0, 1, 2, 1, 2]"
  by (simp add: buildFrameContextLines_def plain_frame_def listed_def)

lemma frames_are_kept: "mset (orderFramesForDisplay frames platform) = mset frames"
  by (simp add: orderFramesForDisplay_def)

text \<open>A crashed thread wins over one that only has a stack trace.\<close>

lemma best_thread_crashed:
  "t \<in> set threads \<Longrightarrow> truthy_bool (th_crashed t) \<Longrightarrow>
   \<exists>b. findBestThread threads = Some b \<and> b \<in> set threads \<and> truthy_bool (th_crashed b)"
  unfolding findBestThread_def
  by (cases "List.find (\<lambda>t. truthy_bool (th_crashed t)) threads")
     (auto simp: find_None_iff dest: find_Some_mem)

end
