(* ===== verification/IssueTable.thy ===== *)
theory IssueTable
  imports FilterQuery
begin

text \<open>
  \<open>features/issue/model/issue-table.ts\<close>: which part of a table's query the server applies and
  the request it becomes, over the table query of \<open>FilterQuery\<close>; with
  \<open>feedback-mailbox.ts\<close> and \<open>status.ts\<close>. The request's parameters are an object in the order
  they are written. The lookup tables are object literals, so a column id that names a member
  of \<open>Object.prototype\<close> finds that member.
\<close>

section \<open>The vocabulary\<close>

datatype issue_view = View_open | View_resolved | View_muted | View_all

fun view_str :: "issue_view \<Rightarrow> string" where
  "view_str View_open = ''open''"
| "view_str View_resolved = ''resolved''"
| "view_str View_muted = ''muted''"
| "view_str View_all = ''all''"

definition ISSUE_FILTER_VARIANTS :: variants where
  "ISSUE_FILTER_VARIANTS =
     [(''level'', V_options), (''priority'', V_options), (''assignee'', V_options), (''environment'', V_options),
      (''release'', V_options), (''firstSeen'', V_options), (''lastSeen'', V_options), (''events'', V_range)]"

definition SEEN_WINDOWS :: "string list" where
  "SEEN_WINDOWS = [''1h'', ''24h'', ''7d'', ''14d'', ''30d'']"

definition SORTS :: "(string \<times> string) list" where
  "SORTS = [(''lastSeen'', ''last_seen''), (''firstSeen'', ''first_seen''), (''events'', ''event_count''),
            (''priority'', ''priority'')]"

definition MAX_PAGE_SIZE :: int where
  "MAX_PAGE_SIZE = 100"

definition FIXED_VALUES :: "(string \<times> string list) list" where
  "FIXED_VALUES = [(''firstSeen'', SEEN_WINDOWS), (''lastSeen'', SEEN_WINDOWS)]"

section \<open>The query as the server will apply it\<close>

text \<open>One filter: kept, narrowed to the windows the server reads, or dropped.\<close>

definition server_filter :: "col_filter \<Rightarrow> js_exn + col_filter list" where
  "server_filter f =
     (case (obj_lookup FIXED_VALUES (fl_id f), fl_value f) of
        (Missing, _) \<Rightarrow> Inr [f]
      | (Own allowed, JArr vs) \<Rightarrow>
          (let value = filter (\<lambda>v. js_str v \<in> set allowed) vs
           in Inr (if value \<noteq> [] then [f\<lparr>fl_value := JArr value\<rparr>] else []))
      | (Inherited, JArr _) \<Rightarrow> Inl TypeError
      | _ \<Rightarrow> Inr [f])"

fun server_filters :: "col_filter list \<Rightarrow> js_exn + col_filter list" where
  "server_filters [] = Inr []"
| "server_filters (f # fs) = sbind (server_filter f) (\<lambda>gs. sbind (server_filters fs) (\<lambda>hs. Inr (gs @ hs)))"

definition withServerQuery :: "table_query \<Rightarrow> int \<Rightarrow> js_exn + table_query" where
  "withServerQuery query pageSize =
     sbind (server_filters (tq_filters query)) (\<lambda>filters.
       Inr (query\<lparr>tq_sorting := (case List.find (\<lambda>s. so_id s \<in> set (map fst SORTS)) (tq_sorting query) of
                                   Some s \<Rightarrow> [s] | None \<Rightarrow> []),
                  tq_filters := filters,
                  tq_pageSize := (if tq_pageSize query > MAX_PAGE_SIZE then pageSize else tq_pageSize query)\<rparr>))"

section \<open>The request\<close>

type_synonym params = "(string \<times> jv) list"

definition not_nullish :: "jv \<Rightarrow> bool" where
  "not_nullish v \<longleftrightarrow> v \<noteq> JUndef \<and> v \<noteq> JNull"

definition joined_param :: "string \<Rightarrow> params \<Rightarrow> jv list \<Rightarrow> params" where
  "joined_param key ps vals = (if vals \<noteq> [] then obj_put key (JStr (join_jvs '','' vals)) ps else ps)"

definition single_param :: "string \<Rightarrow> params \<Rightarrow> jv list \<Rightarrow> params" where
  "single_param key ps vals =
     (case vals of [] \<Rightarrow> ps
      | first # _ \<Rightarrow> if not_nullish first then obj_put key (JStr (js_str first)) ps else ps)"

definition number_param :: "string \<Rightarrow> params \<Rightarrow> jv option \<Rightarrow> params" where
  "number_param key ps v =
     (case v of None \<Rightarrow> ps | Some x \<Rightarrow> if not_nullish x then obj_put key x ps else ps)"

definition events_param :: "params \<Rightarrow> jv list \<Rightarrow> params" where
  "events_param ps vals =
     number_param ''events_max'' (number_param ''events_min'' ps (at_index vals 0)) (at_index vals 1)"

definition FILTER_PARAMS :: "(string \<times> (params \<Rightarrow> jv list \<Rightarrow> params)) list" where
  "FILTER_PARAMS =
     [(''level'', joined_param ''level''), (''priority'', joined_param ''priority''),
      (''assignee'', single_param ''assigned''), (''environment'', single_param ''environment''),
      (''release'', single_param ''release''), (''firstSeen'', single_param ''first_seen''),
      (''lastSeen'', single_param ''last_seen''), (''events'', events_param)]"

definition values_of :: "col_filter \<Rightarrow> jv list" where
  "values_of f = (case fl_value f of JArr vs \<Rightarrow> vs | _ \<Rightarrow> [])"

text \<open>
  An inherited member is called with the parameters and changes nothing, except the two
  that demand a function and \<open>__proto__\<close>, which is none: those throw.
\<close>

definition apply_filter :: "col_filter \<Rightarrow> params \<Rightarrow> js_exn + params" where
  "apply_filter f ps =
     (case obj_lookup FILTER_PARAMS (fl_id f) of
        Own g \<Rightarrow> Inr (g ps (values_of f))
      | Missing \<Rightarrow> Inr ps
      | Inherited \<Rightarrow>
          if fl_id f \<in> {''__proto__'', ''__defineGetter__'', ''__defineSetter__''} then Inl TypeError else Inr ps)"

fun apply_filters :: "col_filter list \<Rightarrow> params \<Rightarrow> js_exn + params" where
  "apply_filters [] ps = Inr ps"
| "apply_filters (f # fs) ps = sbind (apply_filter f ps) (apply_filters fs)"

definition request_sort :: "table_query \<Rightarrow> string" where
  "request_sort query =
     (case tq_sorting query of [] \<Rightarrow> ''last_seen''
      | s # _ \<Rightarrow> (case map_of SORTS (so_id s) of Some n \<Rightarrow> n | None \<Rightarrow> ''last_seen''))"

definition request_order :: "table_query \<Rightarrow> string" where
  "request_order query =
     (case tq_sorting query of [] \<Rightarrow> ''desc'' | s # _ \<Rightarrow> if so_desc s then ''desc'' else ''asc'')"

definition issueListParams :: "table_query \<Rightarrow> issue_view \<Rightarrow> js_exn + params" where
  "issueListParams query view =
     (let ps = [(''filter'', JStr (view_str view))];
          ps = (if tq_search query \<noteq> [] then obj_put ''q'' (JStr (tq_search query)) ps else ps)
      in sbind (apply_filters (tq_filters query) ps) (\<lambda>ps.
           Inr (obj_put ''per_page'' (JNum (Fin (of_int (tq_pageSize query))))
             (obj_put ''page'' (JNum (Fin (of_int (tq_pageIndex query + 1))))
               (obj_put ''order'' (JStr (request_order query))
                 (obj_put ''sort'' (JStr (request_sort query)) ps))))))"

section \<open>What the request asks\<close>

text \<open>The parameters of each column, and what a column's values ask there.\<close>

definition COLUMN_PARAMS :: "(string \<times> string) list" where
  "COLUMN_PARAMS =
     [(''level'', ''level''), (''priority'', ''priority''), (''assignee'', ''assigned''),
      (''environment'', ''environment''), (''release'', ''release''), (''firstSeen'', ''first_seen''),
      (''lastSeen'', ''last_seen''), (''events'', ''events_min''), (''events'', ''events_max'')]"

definition asked :: "string \<Rightarrow> jv list \<Rightarrow> jv option" where
  "asked key vs =
     (if key = ''level'' \<or> key = ''priority'' then (if vs = [] then None else Some (JStr (join_jvs '','' vs)))
      else if key = ''events_min'' then Option.bind (at_index vs 0) (\<lambda>v. if not_nullish v then Some v else None)
      else if key = ''events_max'' then Option.bind (at_index vs 1) (\<lambda>v. if not_nullish v then Some v else None)
      else case vs of [] \<Rightarrow> None | v # _ \<Rightarrow> if not_nullish v then Some (JStr (js_str v)) else None)"

definition asked_single :: "jv list \<Rightarrow> jv option" where
  "asked_single vs = (case vs of [] \<Rightarrow> None | v # _ \<Rightarrow> if not_nullish v then Some (JStr (js_str v)) else None)"

definition asked_number :: "jv option \<Rightarrow> jv option" where
  "asked_number v = Option.bind v (\<lambda>v. if not_nullish v then Some v else None)"

definition asked_joined :: "jv list \<Rightarrow> jv option" where
  "asked_joined vs = (if vs = [] then None else Some (JStr (join_jvs '','' vs)))"

definition over :: "jv option \<Rightarrow> jv option \<Rightarrow> jv option" where
  "over a b = (case a of Some v \<Rightarrow> Some v | None \<Rightarrow> b)"

lemma param_lookups:
  "map_of (joined_param k ps vs) key = (if key = k then over (asked_joined vs) (map_of ps key) else map_of ps key)"
  "map_of (single_param k ps vs) key = (if key = k then over (asked_single vs) (map_of ps key) else map_of ps key)"
  "map_of (number_param k ps v) key = (if key = k then over (asked_number v) (map_of ps key) else map_of ps key)"
  by (auto simp: joined_param_def single_param_def number_param_def asked_joined_def asked_single_def
      asked_number_def over_def js_simps split: list.splits option.splits)

lemma asked_cases:
  "asked ''level'' vs = asked_joined vs" "asked ''priority'' vs = asked_joined vs"
  "asked ''assigned'' vs = asked_single vs" "asked ''environment'' vs = asked_single vs"
  "asked ''release'' vs = asked_single vs" "asked ''first_seen'' vs = asked_single vs"
  "asked ''last_seen'' vs = asked_single vs" "asked ''events_min'' vs = asked_number (at_index vs 0)"
  "asked ''events_max'' vs = asked_number (at_index vs 1)"
  by (simp_all add: asked_def asked_joined_def asked_single_def asked_number_def)

lemma apply_own:
  assumes "(col, key) \<in> set COLUMN_PARAMS" and f: "apply_filter f ps = Inr ps'"
  shows "map_of ps' key =
    (if fl_id f = col then over (asked key (values_of f)) (map_of ps key) else map_of ps key)"
proof (cases "obj_lookup FILTER_PARAMS (fl_id f)")
  case (Own g)
  then have "(fl_id f, g) \<in> set FILTER_PARAMS"
    by (auto simp: obj_lookup_def dest: map_of_SomeD split: option.splits if_splits)
  moreover have "ps' = g ps (values_of f)" using f Own by (simp add: apply_filter_def)
  moreover have "key \<noteq> ''events_min'' \<or> key \<noteq> ''events_max''" by simp
  ultimately show ?thesis
    using assms(1) unfolding COLUMN_PARAMS_def FILTER_PARAMS_def set_simps insert_iff empty_iff prod.inject
    by (elim disjE conjE FalseE) (simp_all add: param_lookups asked_cases events_param_def)
next
  case Inherited
  have "fl_id f \<noteq> col"
    using Inherited assms(1)
    by (auto simp: obj_lookup_def COLUMN_PARAMS_def FILTER_PARAMS_def OBJECT_PROTOTYPE_def split: option.splits if_splits)
  moreover have "ps' = ps" using f Inherited by (auto simp: apply_filter_def split: if_splits)
  ultimately show ?thesis by simp
next
  case Missing
  have "fl_id f \<noteq> col"
    using Missing assms(1)
    by (auto simp: obj_lookup_def COLUMN_PARAMS_def FILTER_PARAMS_def split: option.splits if_splits)
  moreover have "ps' = ps" using f Missing by (simp add: apply_filter_def)
  ultimately show ?thesis by simp
qed

text \<open>What all the filters on one column ask; columns come once in a query read from an address.\<close>

definition column_asks :: "col_filter list \<Rightarrow> string \<Rightarrow> string \<Rightarrow> jv option" where
  "column_asks fs col key =
     (case List.find (\<lambda>f. fl_id f = col) fs of None \<Rightarrow> None | Some f \<Rightarrow> asked key (values_of f))"

lemma column_asks_Cons:
  "column_asks (f # fs) col key = (if fl_id f = col then asked key (values_of f) else column_asks fs col key)"
  by (simp add: column_asks_def)

lemma column_asks_absent: "col \<notin> set (map fl_id fs) \<Longrightarrow> column_asks fs col key = None"
  by (induction fs) (auto simp: column_asks_Cons, simp add: column_asks_def)

lemma apply_filters_ask:
  "(col, key) \<in> set COLUMN_PARAMS \<Longrightarrow> distinct (map fl_id fs) \<Longrightarrow> apply_filters fs ps = Inr ps' \<Longrightarrow>
   map_of ps' key = over (column_asks fs col key) (map_of ps key)"
proof (induction fs arbitrary: ps)
  case Nil
  then show ?case by (simp add: column_asks_def over_def)
next
  case (Cons f fs)
  obtain ps1 where f: "apply_filter f ps = Inr ps1" and fs: "apply_filters fs ps1 = Inr ps'"
    using Cons.prems(3) by (cases "apply_filter f ps") auto
  have "map_of ps' key = over (column_asks fs col key) (map_of ps1 key)"
    using Cons.IH [OF Cons.prems(1) _ fs] Cons.prems(2) by simp
  moreover have "map_of ps1 key = (if fl_id f = col then over (asked key (values_of f)) (map_of ps key) else map_of ps key)"
    by (rule apply_own [OF Cons.prems(1) f])
  moreover have "column_asks fs col key = None" if "fl_id f = col"
    using Cons.prems(2) that by (intro column_asks_absent) auto
  ultimately show ?case by (simp add: column_asks_Cons over_def)
qed

lemma column_keys_apart:
  "(col, key) \<in> set COLUMN_PARAMS \<Longrightarrow> key \<notin> {''filter'', ''q'', ''sort'', ''order'', ''page'', ''per_page''}"
  by (auto simp: COLUMN_PARAMS_def)

lemma server_filters_ids:
  "server_filters fs = Inr gs \<Longrightarrow> set (map fl_id gs) \<subseteq> set (map fl_id fs) \<and> (distinct (map fl_id fs) \<longrightarrow> distinct (map fl_id gs))"
proof (induction fs arbitrary: gs)
  case (Cons f fs)
  obtain as bs where as: "server_filter f = Inr as" and bs: "server_filters fs = Inr bs" and gs: "gs = as @ bs"
    using Cons.prems by (cases "server_filter f"; cases "server_filters fs") auto
  have "as = [] \<or> (\<exists>g. as = [g] \<and> fl_id g = fl_id f)"
    using as by (auto simp: server_filter_def Let_def split: lookup.splits jv.splits if_splits)
  then show ?case using Cons.IH [OF bs] by (auto simp: gs)
qed simp

text \<open>
  What the request is to ask, read off the query of the address itself: the view, the text, the
  first sort the server knows with its direction, the page, its size when the server serves it, and of
  each column what its parameter can say: the levels and priorities joined, the first value of a
  column the server takes one of, the bounds of a range, and of a window only those that exist.
  Nothing else.
\<close>

definition wire_sort :: "string \<Rightarrow> string option" where
  "wire_sort col =
     (if col = ''lastSeen'' then Some ''last_seen'' else if col = ''firstSeen'' then Some ''first_seen''
      else if col = ''events'' then Some ''event_count'' else if col = ''priority'' then Some ''priority'' else None)"

definition leading_sort :: "sorting list \<Rightarrow> (string \<times> string) option" where
  "leading_sort so =
     (case filter (\<lambda>s. wire_sort (so_id s) \<noteq> None) so of
        [] \<Rightarrow> None
      | s # _ \<Rightarrow> Some (the (wire_sort (so_id s)), if so_desc s then ''desc'' else ''asc''))"

definition windows_kept :: "string \<Rightarrow> jv list \<Rightarrow> jv list" where
  "windows_kept col vs =
     (if col = ''firstSeen'' \<or> col = ''lastSeen''
      then filter (\<lambda>v. js_str v \<in> {''1h'', ''24h'', ''7d'', ''14d'', ''30d''}) vs else vs)"

definition column_wants :: "col_filter list \<Rightarrow> string \<Rightarrow> string \<Rightarrow> jv option" where
  "column_wants fs col key =
     (case List.find (\<lambda>f. fl_id f = col) fs of None \<Rightarrow> None | Some f \<Rightarrow> asked key (windows_kept col (values_of f)))"

definition request_wants :: "table_query \<Rightarrow> issue_view \<Rightarrow> int \<Rightarrow> string \<Rightarrow> jv option" where
  "request_wants query view n key =
     (if key = ''filter'' then Some (JStr (view_str view))
      else if key = ''q'' then (if tq_search query = [] then None else Some (JStr (tq_search query)))
      else if key = ''sort''
        then Some (JStr (case leading_sort (tq_sorting query) of Some (name, _) \<Rightarrow> name | None \<Rightarrow> ''last_seen''))
      else if key = ''order''
        then Some (JStr (case leading_sort (tq_sorting query) of Some (_, dir) \<Rightarrow> dir | None \<Rightarrow> ''desc''))
      else if key = ''page'' then Some (JNum (Fin (of_int (tq_pageIndex query + 1))))
      else if key = ''per_page''
        then Some (JNum (Fin (of_int (if tq_pageSize query > 100 then n else tq_pageSize query))))
      else case map_of (map prod.swap COLUMN_PARAMS) key of
             Some col \<Rightarrow> column_wants (tq_filters query) col key | None \<Rightarrow> None)"

lemma wire_sort_SORTS: "wire_sort c = map_of SORTS c"
  by (simp add: wire_sort_def SORTS_def)

lemma wire_sort_known: "wire_sort c \<noteq> None \<longleftrightarrow> c \<in> set (map fst SORTS)"
  by (simp add: wire_sort_SORTS map_of_eq_None_iff del: not_None_eq)

lemma find_is_head: "List.find P xs = (case filter P xs of [] \<Rightarrow> None | x # _ \<Rightarrow> Some x)"
  by (induction xs) simp_all

lemma leading_sort_asked:
  assumes "withServerQuery query n = Inr q'"
  shows "request_sort q' = (case leading_sort (tq_sorting query) of Some (name, _) \<Rightarrow> name | None \<Rightarrow> ''last_seen'')"
    and "request_order q' = (case leading_sort (tq_sorting query) of Some (_, dir) \<Rightarrow> dir | None \<Rightarrow> ''desc'')"
proof -
  define known where "known = filter (\<lambda>s. so_id s \<in> set (map fst SORTS)) (tq_sorting query)"
  have k: "filter (\<lambda>s. wire_sort (so_id s) \<noteq> None) (tq_sorting query) = known"
    unfolding known_def wire_sort_known by (rule refl)
  have so: "tq_sorting q' = (case known of [] \<Rightarrow> [] | s # _ \<Rightarrow> [s])"
    using assms unfolding withServerQuery_def find_is_head known_def [symmetric]
    by (cases "server_filters (tq_filters query)") (auto split: list.splits)
  have "wire_sort (so_id s) \<noteq> None" if "known = s # ss" for s ss
    using that filter_eq_ConsD [of _ "tq_sorting query" s ss] unfolding known_def wire_sort_known by fastforce
  then show "request_sort q' = (case leading_sort (tq_sorting query) of Some (name, _) \<Rightarrow> name | None \<Rightarrow> ''last_seen'')"
    "request_order q' = (case leading_sort (tq_sorting query) of Some (_, dir) \<Rightarrow> dir | None \<Rightarrow> ''desc'')"
    unfolding request_sort_def request_order_def leading_sort_def k so
    by (cases known; force simp: wire_sort_SORTS)+
qed

lemma server_filter_keeps:
  assumes "server_filter f = Inr gs"
  shows "gs = [] \<and> windows_kept (fl_id f) (values_of f) = []
    \<or> (\<exists>g. gs = [g] \<and> fl_id g = fl_id f \<and> values_of g = windows_kept (fl_id f) (values_of f))"
proof (cases "obj_lookup FIXED_VALUES (fl_id f)")
  case Missing
  then have "fl_id f \<noteq> ''firstSeen''" "fl_id f \<noteq> ''lastSeen''"
    by (auto simp: obj_lookup_def FIXED_VALUES_def split: if_splits)
  then show ?thesis using assms Missing by (auto simp: server_filter_def windows_kept_def)
next
  case Inherited
  then have "fl_id f \<noteq> ''firstSeen''" "fl_id f \<noteq> ''lastSeen''"
    by (auto simp: obj_lookup_def FIXED_VALUES_def split: if_splits)
  then show ?thesis using assms Inherited
    by (cases "fl_value f") (auto simp: server_filter_def windows_kept_def)
next
  case (Own allowed)
  then have a: "allowed = SEEN_WINDOWS" "fl_id f = ''firstSeen'' \<or> fl_id f = ''lastSeen''"
    by (auto simp: obj_lookup_def FIXED_VALUES_def split: if_splits)
  then have w: "windows_kept (fl_id f) vs = filter (\<lambda>v. js_str v \<in> set allowed) vs" for vs
    by (simp add: windows_kept_def SEEN_WINDOWS_def)
  show ?thesis unfolding w using assms Own
    by (cases "fl_value f") (auto simp: server_filter_def values_of_def Let_def split: if_splits)
qed

lemma asked_nothing [simp]: "asked key [] = None"
  by (simp add: asked_def at_index_def)

lemma sanitised_wants:
  "server_filters fs = Inr gs \<Longrightarrow> distinct (map fl_id fs) \<Longrightarrow> column_asks gs col key = column_wants fs col key"
proof (induction fs arbitrary: gs)
  case Nil
  then show ?case by (simp add: column_asks_def column_wants_def)
next
  case (Cons f fs)
  obtain as bs where as: "server_filter f = Inr as" and bs: "server_filters fs = Inr bs" and gs: "gs = as @ bs"
    using Cons.prems(1) by (cases "server_filter f"; cases "server_filters fs") auto
  have ih: "column_asks bs col key = column_wants fs col key" using Cons.IH [OF bs] Cons.prems(2) by simp
  have "set (map fl_id bs) \<subseteq> set (map fl_id fs)" using server_filters_ids [OF bs] by simp
  then have "column_asks bs (fl_id f) key = None"
    using Cons.prems(2) column_asks_absent [of "fl_id f" bs key] by (metis distinct.simps(2) list.simps(9) subsetD)
  then show ?case
    using server_filter_keeps [OF as] ih by (auto simp: gs column_asks_Cons column_wants_def)
qed

lemma apply_other:
  assumes "key \<notin> snd ` set COLUMN_PARAMS" and "apply_filter f ps = Inr ps'"
  shows "map_of ps' key = map_of ps key"
proof (cases "obj_lookup FILTER_PARAMS (fl_id f)")
  case (Own g)
  then have "(fl_id f, g) \<in> set FILTER_PARAMS"
    by (auto simp: obj_lookup_def dest: map_of_SomeD split: option.splits if_splits)
  moreover have "ps' = g ps (values_of f)" using assms(2) Own by (simp add: apply_filter_def)
  ultimately show ?thesis
    using assms(1) unfolding COLUMN_PARAMS_def FILTER_PARAMS_def set_simps insert_iff empty_iff prod.inject
    by (elim disjE conjE FalseE) (simp_all add: param_lookups events_param_def)
qed (use assms(2) in \<open>auto simp: apply_filter_def split: if_splits\<close>)

lemma apply_filters_other:
  "key \<notin> snd ` set COLUMN_PARAMS \<Longrightarrow> apply_filters fs ps = Inr ps' \<Longrightarrow> map_of ps' key = map_of ps key"
proof (induction fs arbitrary: ps)
  case (Cons f fs)
  then obtain ps1 where "apply_filter f ps = Inr ps1" "apply_filters fs ps1 = Inr ps'"
    by (cases "apply_filter f ps") auto
  then show ?case using Cons apply_other [OF Cons.prems(1), of f ps ps1] by simp
qed simp

lemma column_of_key:
  "map_of (map prod.swap COLUMN_PARAMS) key = Some col \<Longrightarrow> (col, key) \<in> set COLUMN_PARAMS"
  by (drule map_of_SomeD) auto

lemma key_of_no_column:
  "map_of (map prod.swap COLUMN_PARAMS) key = None \<Longrightarrow> key \<notin> snd ` set COLUMN_PARAMS"
  by (auto simp: map_of_eq_None_iff image_iff)

text \<open>
  C9: The request asks what the query of the address says and nothing else: the view, the text,
  the first sort the server knows in its direction, the page, a page size the server serves, and of every
  filtered column what its parameter can say. Of a column the server takes one value of that is its
  first: a second one stays in the query and is not asked for.
\<close>

theorem request_asks_the_query:
  assumes clean: "withServerQuery query n = Inr q'" and n: "n \<le> 100"
    and ids: "distinct (map fl_id (tq_filters query))"
    and req: "issueListParams q' view = Inr ps"
  shows "map_of ps key = request_wants query view n key
     \<and> (\<exists>size \<le> 100. map_of ps ''per_page'' = Some (JNum (Fin (of_int size))))"
proof -
  obtain fs where fs: "server_filters (tq_filters query) = Inr fs" "tq_filters q' = fs"
    and kept: "tq_search q' = tq_search query" "tq_pageIndex q' = tq_pageIndex query"
      "tq_pageSize q' = (if tq_pageSize query > 100 then n else tq_pageSize query)"
    using clean by (cases "server_filters (tq_filters query)") (auto simp: withServerQuery_def MAX_PAGE_SIZE_def)
  define ps0 where "ps0 = (if tq_search q' \<noteq> [] then obj_put ''q'' (JStr (tq_search q')) [(''filter'', JStr (view_str view))]
    else [(''filter'', JStr (view_str view))])"
  obtain ps1 where ps1: "apply_filters fs ps0 = Inr ps1" and ps: "ps =
      obj_put ''per_page'' (JNum (Fin (of_int (tq_pageSize q'))))
        (obj_put ''page'' (JNum (Fin (of_int (tq_pageIndex q' + 1))))
          (obj_put ''order'' (JStr (request_order q')) (obj_put ''sort'' (JStr (request_sort q')) ps1)))"
    using req unfolding issueListParams_def Let_def fs(2) ps0_def [symmetric]
    by (cases "apply_filters fs ps0") auto
  have look: "map_of ps k = (if k = ''per_page'' then Some (JNum (Fin (of_int (tq_pageSize q'))))
      else if k = ''page'' then Some (JNum (Fin (of_int (tq_pageIndex q' + 1))))
      else if k = ''order'' then Some (JStr (request_order q'))
      else if k = ''sort'' then Some (JStr (request_sort q')) else map_of ps1 k)" for k
    by (simp add: ps js_simps)
  have "map_of ps key = request_wants query view n key"
  proof (cases "map_of (map prod.swap COLUMN_PARAMS) key")
    case (Some col)
    have own: "(col, key) \<in> set COLUMN_PARAMS" by (rule column_of_key [OF Some])
    have d: "distinct (map fl_id fs)" using server_filters_ids [OF fs(1)] ids by simp
    have "map_of ps1 key = over (column_asks fs col key) (map_of ps0 key)"
      by (rule apply_filters_ask [OF own d ps1])
    moreover have "map_of ps0 key = None" using column_keys_apart [OF own] by (simp add: ps0_def js_simps)
    ultimately have "map_of ps1 key = column_wants (tq_filters query) col key"
      using sanitised_wants [OF fs(1) ids] by (auto simp: over_def split: option.splits)
    then show ?thesis using column_keys_apart [OF own] by (simp add: look request_wants_def Some)
  next
    case None
    have "map_of ps1 key = map_of ps0 key"
      by (rule apply_filters_other [OF key_of_no_column [OF None] ps1])
    also have "\<dots> = (if key = ''filter'' then Some (JStr (view_str view))
        else if key = ''q'' \<and> tq_search query \<noteq> [] then Some (JStr (tq_search query)) else None)"
      by (simp add: ps0_def js_simps kept)
    finally show ?thesis
      by (cases "key = ''q''"; cases "key = ''filter''")
        (simp_all add: look request_wants_def None leading_sort_asked [OF clean] kept)
  qed
  moreover have "tq_pageSize q' \<le> 100" using kept(3) n by simp
  ultimately show ?thesis using look [of "''per_page''"] by auto
qed

definition address_query :: table_query where
  "address_query = \<lparr>tq_sorting = [\<lparr>so_id = ''users'', so_desc = False\<rparr>, \<lparr>so_id = ''events'', so_desc = False\<rparr>],
     tq_filters = [\<lparr>fl_id = ''level'', fl_value = JArr [JStr ''error'', JStr ''fatal'']\<rparr>,
                   \<lparr>fl_id = ''lastSeen'', fl_value = JArr [JStr ''2y'', JStr ''7d'']\<rparr>],
     tq_search = [], tq_pageIndex = 2, tq_pageSize = 5000\<rparr>"

lemma request_asks_the_query_witness:
  "\<exists>q' ps. withServerQuery address_query 50 = Inr q' \<and> issueListParams q' View_open = Inr ps
     \<and> map_of ps ''last_seen'' = Some (JStr ''7d'') \<and> map_of ps ''sort'' = Some (JStr ''event_count'')
     \<and> map_of ps ''order'' = Some (JStr ''asc'') \<and> map_of ps ''q'' = None"
proof -
  define q' where "q' = address_query\<lparr>tq_sorting := [\<lparr>so_id = ''events'', so_desc = False\<rparr>],
    tq_filters := [\<lparr>fl_id = ''level'', fl_value = JArr [JStr ''error'', JStr ''fatal'']\<rparr>,
                   \<lparr>fl_id = ''lastSeen'', fl_value = JArr [JStr ''7d'']\<rparr>], tq_pageSize := 50\<rparr>"
  have clean: "withServerQuery address_query 50 = Inr q'"
  proof -
    have look: "obj_lookup FIXED_VALUES ''level'' = Missing" "obj_lookup FIXED_VALUES ''lastSeen'' = Own SEEN_WINDOWS"
      by (simp_all add: obj_lookup_def FIXED_VALUES_def OBJECT_PROTOTYPE_def)
    have "''2y'' \<notin> set SEEN_WINDOWS" "''7d'' \<in> set SEEN_WINDOWS" by (simp_all add: SEEN_WINDOWS_def)
    then have "server_filters (tq_filters address_query) = Inr (tq_filters q')"
      by (simp add: address_query_def q'_def server_filter_def look)
    moreover have "List.find (\<lambda>s. so_id s \<in> set (map fst SORTS)) (tq_sorting address_query) =
        Some \<lparr>so_id = ''events'', so_desc = False\<rparr>"
      by (simp add: address_query_def SORTS_def)
    ultimately show ?thesis
      by (simp add: withServerQuery_def MAX_PAGE_SIZE_def) (simp add: q'_def address_query_def)
  qed
  obtain ps where req: "issueListParams q' View_open = Inr ps"
    by (simp add: issueListParams_def q'_def address_query_def apply_filter_def obj_lookup_def FILTER_PARAMS_def)
  have ids: "distinct (map fl_id (tq_filters address_query))" by (simp add: address_query_def)
  have wants: "request_wants address_query View_open 50 ''last_seen'' = Some (JStr ''7d'')"
      "request_wants address_query View_open 50 ''sort'' = Some (JStr ''event_count'')"
      "request_wants address_query View_open 50 ''order'' = Some (JStr ''asc'')"
      "request_wants address_query View_open 50 ''q'' = None"
    by (simp_all add: request_wants_def address_query_def leading_sort_def wire_sort_def COLUMN_PARAMS_def column_wants_def
        windows_kept_def values_of_def asked_def not_nullish_def)
  have "map_of ps k = request_wants address_query View_open 50 k" for k
    using request_asks_the_query [OF clean _ ids req, of k] by simp
  then show ?thesis using clean req wants by auto
qed

text \<open>
  A second value of a column the server takes one of stays in the query and is not asked for.
\<close>

lemma second_value_is_kept_not_asked:
  assumes "tq_filters query = [\<lparr>fl_id = ''environment'', fl_value = JArr [JStr a, JStr b]\<rparr>]"
    and "tq_search query = []"
  shows "\<exists>q' ps. withServerQuery query n = Inr q' \<and> tq_filters q' = tq_filters query
     \<and> issueListParams q' view = Inr ps \<and> map_of ps ''environment'' = Some (JStr a)"
  using assms
  by (simp add: withServerQuery_def server_filter_def obj_lookup_def FIXED_VALUES_def OBJECT_PROTOTYPE_def
      issueListParams_def apply_filter_def FILTER_PARAMS_def values_of_def single_param_def not_nullish_def js_simps)

section \<open>Feedback mailboxes\<close>

datatype mailbox = Inbox | Mail_resolved | Spam

fun MAILBOX_FILTER :: "mailbox \<Rightarrow> issue_view" where
  "MAILBOX_FILTER Inbox = View_open"
| "MAILBOX_FILTER Mail_resolved = View_resolved"
| "MAILBOX_FILTER Spam = View_muted"

definition feedbackSender :: "string \<Rightarrow> string \<Rightarrow> string" where
  "feedbackSender name contact_email = (if name \<noteq> [] then name else contact_email)"

definition shortUrl :: "string \<Rightarrow> string" where
  "shortUrl url =
     (let scheme = takeWhile (\<lambda>c. is_lower c \<or> is_upper c) url; rest = dropWhile (\<lambda>c. is_lower c \<or> is_upper c) url
      in if scheme \<noteq> [] \<and> starts_with ''://'' rest then drop 3 rest else url)"

definition isWebUrl :: "string \<Rightarrow> bool" where
  "isWebUrl url \<longleftrightarrow> starts_with ''http://'' (to_lower (take 7 url)) \<or> starts_with ''https://'' (to_lower (take 8 url))"

definition nextAfter :: "string list \<Rightarrow> string \<Rightarrow> string option" where
  "nextAfter ids i =
     (case find_index (\<lambda>x. x = i) ids of None \<Rightarrow> None
      | Some k \<Rightarrow> (case at_index ids (k + 1) of Some x \<Rightarrow> Some x
                  | None \<Rightarrow> if k = 0 then None else at_index ids (k - 1)))"

definition landingAfter :: "string list \<Rightarrow> string \<Rightarrow> int \<Rightarrow> int \<times> string option" where
  "landingAfter ids i page =
     (let selected = nextAfter ids i
      in (if (selected \<noteq> None \<and> selected \<noteq> Some []) \<or> page = 1 then page else page - 1, selected))"

text \<open>
  Triage carries on: with other rows on the page a neighbour opens, and only an emptied page
  is left for the one before.
\<close>

lemma next_is_neighbour:
  assumes "distinct ids" "nextAfter ids i = Some j"
  shows "j \<in> set ids \<and> j \<noteq> i"
proof -
  obtain k where k: "find_index (\<lambda>x. x = i) ids = Some k"
    using assms(2) by (auto simp: nextAfter_def split: option.splits)
  then have ki: "k < length ids" "ids ! k = i" using find_index_bound by blast+
  then have "\<exists>m < length ids. m \<noteq> k \<and> ids ! m = j"
    using assms(2) k by (auto simp: nextAfter_def at_index_def split: option.splits if_splits)
  then show ?thesis using ki assms(1) by (auto simp: nth_eq_iff_index_eq)
qed

lemma next_exists:
  assumes "i \<in> set ids" "2 \<le> length ids"
  shows "nextAfter ids i \<noteq> None"
proof -
  obtain k where k: "find_index (\<lambda>x. x = i) ids = Some k"
    using assms(1) find_index_None [of "\<lambda>x. x = i" ids] by auto
  then have "k < length ids" using find_index_bound by blast
  then show ?thesis
    using assms(2) by (cases "k + 1 < length ids") (simp_all add: nextAfter_def at_index_def k)
qed

lemma landing_page_bounds: "1 \<le> page \<Longrightarrow> 1 \<le> fst (landingAfter ids i page) \<and> fst (landingAfter ids i page) \<le> page"
  by (auto simp: landingAfter_def Let_def)

section \<open>Status and priority indicators\<close>

definition SUBSTATUS_KEYS :: "(string \<times> string) list" where
  "SUBSTATUS_KEYS =
     [(''new'', ''issueStatus.new''), (''ongoing'', ''issueStatus.ongoing''),
      (''escalating'', ''issueStatus.escalating''), (''regressed'', ''issueStatus.regressed''),
      (''archived_until_escalating'', ''issueStatus.archived''),
      (''archived_until_condition_met'', ''issueStatus.archived''), (''archived_forever'', ''issueStatus.archived'')]"

definition statusDisplay :: "string \<Rightarrow> string option \<Rightarrow> string \<times> string" where
  "statusDisplay status substatus =
     (let key = Option.bind substatus (\<lambda>s. if s = [] then None else map_of SUBSTATUS_KEYS s)
      in if status = ''resolved'' then (''issueStatus.resolved'', ''bg-success'')
         else if status = ''ignored''
         then (case key of Some k \<Rightarrow> k | None \<Rightarrow> ''issueStatus.ignored'', ''bg-fg-disabled'')
         else (case key of Some k \<Rightarrow> k | None \<Rightarrow> ''issueStatus.unresolved'', ''bg-fg-subtle''))"

datatype priority = Pr_high | Pr_medium | Pr_low

fun priorityDisplay :: "priority option \<Rightarrow> (string \<times> string) option" where
  "priorityDisplay None = None"
| "priorityDisplay (Some Pr_high) = Some (''issueStatus.high'', ''bg-sev-error'')"
| "priorityDisplay (Some Pr_medium) = Some (''issueStatus.medium'', ''bg-sev-warning'')"
| "priorityDisplay (Some Pr_low) = Some (''issueStatus.low'', ''bg-chart-1'')"

end
