(* ===== verification/Updates.thy ===== *)
theory Updates
  imports JsBase
begin

text \<open>
  \<open>shared/lib/version.ts\<close> and \<open>shared/api/version-check.ts\<close>: comparing version strings, and
  the update check over what its two requests answered. The answers are arguments: the
  server's version (\<open>None\<close> when the client reports a failure), and the release feed
  (\<open>None\<close> when the request, its status, its body or the schema failed).
\<close>

section \<open>Versions\<close>

definition normalizeVersion :: "string \<Rightarrow> string" where
  "normalizeVersion version =
     (case trim version of [] \<Rightarrow> [] | c # r \<Rightarrow> if c = CHR ''v'' \<or> c = CHR ''V'' then r else c # r)"

text \<open>\<open>^(\d+)\.(\d+)\.(\d+)\<close>\<close>

definition parse_version :: "string \<Rightarrow> (nat \<times> nat \<times> nat) option" where
  "parse_version version =
     (let s = normalizeVersion version;
          major = takeWhile is_digit s; r1 = dropWhile is_digit s;
          minor = takeWhile is_digit (tl r1); r2 = dropWhile is_digit (tl r1);
          patch = takeWhile is_digit (tl r2)
      in if major \<noteq> [] \<and> starts_with ''.'' r1 \<and> minor \<noteq> [] \<and> starts_with ''.'' r2 \<and> patch \<noteq> []
         then Some (digits_val major, digits_val minor, digits_val patch) else None)"

definition compareVersions :: "string \<Rightarrow> string \<Rightarrow> int" where
  "compareVersions a b =
     (case (parse_version a, parse_version b) of
        (Some (leftMajor, leftMinor, leftPatch), Some (rightMajor, rightMinor, rightPatch)) \<Rightarrow>
          if leftMajor \<noteq> rightMajor then (if leftMajor < rightMajor then -1 else 1)
          else if leftMinor \<noteq> rightMinor then (if leftMinor < rightMinor then -1 else 1)
          else if leftPatch \<noteq> rightPatch then (if leftPatch < rightPatch then -1 else 1)
          else 0
      | _ \<Rightarrow> 0)"

text \<open>The order the comparison stands for.\<close>

definition version_less :: "nat \<times> nat \<times> nat \<Rightarrow> nat \<times> nat \<times> nat \<Rightarrow> bool" where
  "version_less v w = (case (v, w) of ((a, b, c), (x, y, z)) \<Rightarrow>
     a < x \<or> (a = x \<and> (b < y \<or> (b = y \<and> c < z))))"

definition newer :: "string \<Rightarrow> string \<Rightarrow> bool" where
  "newer a b \<longleftrightarrow> (\<exists>v w. parse_version a = Some v \<and> parse_version b = Some w \<and> version_less w v)"

lemma version_less_trans: "version_less u v \<Longrightarrow> version_less v w \<Longrightarrow> version_less u w"
  by (auto simp: version_less_def split: prod.splits)

lemma version_less_total: "\<not> version_less v w \<Longrightarrow> \<not> version_less w v \<Longrightarrow> v = w"
  by (auto simp: version_less_def split: prod.splits)

lemma version_less_irrefl [simp]: "\<not> version_less v v"
  by (auto simp: version_less_def split: prod.splits)

lemma compare_positive: "0 < compareVersions a b \<longleftrightarrow> newer a b"
  by (auto simp: compareVersions_def newer_def version_less_def split: option.splits prod.splits)

lemma newer_trans: "newer a b \<Longrightarrow> newer b c \<Longrightarrow> newer a c"
  unfolding newer_def by (metis option.inject version_less_trans)

lemma newer_irrefl [simp]: "\<not> newer a a"
  by (auto simp: newer_def)

lemma compare_antisym: "compareVersions a b = - compareVersions b a"
  by (auto simp: compareVersions_def split: option.splits prod.splits)

text \<open>An unreadable version is neither newer nor older than anything.\<close>

lemma unreadable_compares_equal: "parse_version a = None \<Longrightarrow> compareVersions a b = 0 \<and> compareVersions b a = 0"
  by (simp add: compareVersions_def split: option.splits)

section \<open>The check\<close>

record release =
  rl_version :: string
  rl_description :: "string option"
  rl_url :: string

record update_info =
  up_current :: string
  up_latest :: string
  up_description :: string
  up_url :: string

datatype unknown_reason = Server_version | Feed

datatype update_check = Update_available update_info | Up_to_date | Disabled | Unknown unknown_reason

definition pick_newest :: "string \<Rightarrow> release option \<Rightarrow> release \<Rightarrow> release option" where
  "pick_newest current newest entry =
     (if compareVersions (rl_version entry) current \<le> 0 then newest
      else case newest of None \<Rightarrow> Some entry
        | Some n \<Rightarrow> if compareVersions (rl_version entry) (rl_version n) > 0 then Some entry else newest)"

definition isEnabled :: "string option \<Rightarrow> bool" where
  "isEnabled env \<longleftrightarrow> env \<noteq> Some ''false''"

definition checkForUpdate :: "string option \<Rightarrow> string option \<Rightarrow> release list option \<Rightarrow> update_check" where
  "checkForUpdate env server feed =
     (if \<not> isEnabled env then Disabled
      else case server of None \<Rightarrow> Unknown Server_version
        | Some current \<Rightarrow>
            (case feed of None \<Rightarrow> Unknown Feed
             | Some versions \<Rightarrow>
                 (case foldl (pick_newest current) None versions of None \<Rightarrow> Up_to_date
                  | Some latest \<Rightarrow>
                      Update_available \<lparr>up_current = current, up_latest = rl_version latest,
                        up_description = (case rl_description latest of None \<Rightarrow> [] | Some d \<Rightarrow> d),
                        up_url = rl_url latest\<rparr>)))"

text \<open>What the fold keeps: the newest release seen, if any is newer than the running one.\<close>

definition newest_so_far :: "string \<Rightarrow> release list \<Rightarrow> release option \<Rightarrow> bool" where
  "newest_so_far current seen n \<longleftrightarrow>
     (case n of None \<Rightarrow> \<forall>r \<in> set seen. \<not> newer (rl_version r) current
      | Some l \<Rightarrow> l \<in> set seen \<and> newer (rl_version l) current
          \<and> (\<forall>r \<in> set seen. newer (rl_version r) current \<longrightarrow> \<not> newer (rl_version r) (rl_version l)))"

lemma pick_newest_keeps:
  assumes "newest_so_far current seen n"
  shows "newest_so_far current (seen @ [e]) (pick_newest current n e)"
proof (cases "newer (rl_version e) current")
  case False
  then have "pick_newest current n e = n" by (simp add: pick_newest_def flip: compare_positive)
  then show ?thesis using assms False by (auto simp: newest_so_far_def split: option.splits)
next
  case True
  then have c: "\<not> compareVersions (rl_version e) current \<le> 0" by (simp flip: compare_positive)
  show ?thesis
  proof (cases n)
    case None
    then show ?thesis using assms True c by (simp add: newest_so_far_def pick_newest_def)
  next
    case (Some l)
    show ?thesis
    proof (cases "newer (rl_version e) (rl_version l)")
      case better: True
      then have p: "pick_newest current n e = Some e" using c Some by (simp add: pick_newest_def compare_positive)
      have "\<not> newer (rl_version r) (rl_version e)" if "r \<in> set seen" "newer (rl_version r) current" for r
      proof
        assume "newer (rl_version r) (rl_version e)"
        then have "newer (rl_version r) (rl_version l)" using better by (rule newer_trans)
        with assms Some that show False by (simp add: newest_so_far_def)
      qed
      then show ?thesis using True by (auto simp: p newest_so_far_def)
    next
      case worse: False
      then have "pick_newest current n e = Some l" using c Some by (simp add: pick_newest_def compare_positive)
      then show ?thesis using assms Some worse by (simp add: newest_so_far_def)
    qed
  qed
qed

lemma fold_newest: "newest_so_far current versions (foldl (pick_newest current) None versions)"
proof (induction versions rule: rev_induct)
  case Nil
  show ?case by (simp add: newest_so_far_def)
qed (simp add: pick_newest_keeps)

text \<open>
  Each outcome of the check says what is so: an update is announced only when the readable
  feed publishes a version newer than the one the server reports, and then a published one
  that no published version is newer than, in whatever order the feed lists them; being up to
  date is claimed only when none is newer; and anything unreadable is unknown.
\<close>

theorem update_check_says_what_is_so:
  "case checkForUpdate env server feed of
     Disabled \<Rightarrow> \<not> isEnabled env
   | Unknown Server_version \<Rightarrow> isEnabled env \<and> server = None
   | Unknown Feed \<Rightarrow> isEnabled env \<and> server \<noteq> None \<and> feed = None
   | Up_to_date \<Rightarrow> (\<exists>current versions. server = Some current \<and> feed = Some versions
       \<and> list_all (\<lambda>r. \<not> newer (rl_version r) current) versions)
   | Update_available info \<Rightarrow> (\<exists>current versions l. server = Some current \<and> feed = Some versions
       \<and> l \<in> set versions \<and> newer (rl_version l) current
       \<and> list_all (\<lambda>r. \<not> newer (rl_version r) (rl_version l)) versions
       \<and> up_current info = current \<and> up_latest info = rl_version l \<and> up_url info = rl_url l)"
proof (cases "isEnabled env \<and> server \<noteq> None \<and> feed \<noteq> None")
  case False
  then show ?thesis by (cases server; cases feed) (auto simp: checkForUpdate_def)
next
  case True
  then obtain current versions where sf: "server = Some current" "feed = Some versions" "isEnabled env" by auto
  have n: "newest_so_far current versions (foldl (pick_newest current) None versions)" by (rule fold_newest)
  show ?thesis
  proof (cases "foldl (pick_newest current) None versions")
    case None
    then show ?thesis using n sf by (simp add: checkForUpdate_def newest_so_far_def list_all_iff)
  next
    case (Some l)
    then have l: "l \<in> set versions" "newer (rl_version l) current"
      "\<forall>r \<in> set versions. newer (rl_version r) current \<longrightarrow> \<not> newer (rl_version r) (rl_version l)"
      using n by (simp_all add: newest_so_far_def)
    then have "list_all (\<lambda>r. \<not> newer (rl_version r) (rl_version l)) versions"
      using newer_trans by (auto simp: list_all_iff)
    then show ?thesis using Some l sf by (auto simp: checkForUpdate_def)
  qed
qed

text \<open>A backported patch listed first does not hide the later minor.\<close>

lemma backport_first:
  "checkForUpdate None (Some ''1.2.0'')
     (Some [\<lparr>rl_version = ''v1.2.1'', rl_description = None, rl_url = ''a''\<rparr>,
            \<lparr>rl_version = ''1.3.0'', rl_description = None, rl_url = ''b''\<rparr>])
   = Update_available \<lparr>up_current = ''1.2.0'', up_latest = ''1.3.0'', up_description = [], up_url = ''b''\<rparr>"
  by code_simp

end
