(* ===== verification/Monitors.thy ===== *)
theory Monitors
  imports JsBase
begin

text \<open>
  \<open>features/monitor/\<close>: a cron monitor's health, its newest run and expected check-in across
  environments, its timeline, durations, the monitor form and the check-in address. The
  platform's \<open>Date.parse\<close> (\<open>None\<close> for \<open>NaN\<close>) and URL parser (\<open>None\<close> when it throws) are
  arguments.
\<close>

section \<open>Monitors\<close>

datatype checkin_status = Ck_ok | Ck_error | Ck_timeout | Ck_missed | Ck_in_progress | Ck_unknown

datatype env_status = Env_active | Env_ok | Env_error

record checkin =
  ck_status :: checkin_status
  ck_date_added :: string
  ck_duration_ms :: "rat option"

record monitor_env =
  me_environment :: string
  me_status :: env_status
  me_next_checkin :: "string option"
  me_last_checkin :: "string option"
  me_recent :: "checkin list"

datatype interval_unit = U_minute | U_hour | U_day | U_week | U_month | U_year

datatype schedule = Crontab string | Interval rat interval_unit

record monitor_config =
  mc_schedule :: schedule
  mc_checkin_margin :: rat
  mc_max_runtime :: rat
  mc_timezone :: string
  mc_failure_issue_threshold :: rat
  mc_recovery_threshold :: rat

record monitor =
  mo_slug :: string
  mo_name :: string
  mo_config :: monitor_config
  mo_environments :: "monitor_env list"

datatype monitor_health = Failing | Healthy | Waiting

definition monitorHealth :: "monitor \<Rightarrow> monitor_health" where
  "monitorHealth m =
     (let statuses = map me_status (mo_environments m)
      in if Env_error \<in> set statuses then Failing
         else if Env_ok \<in> set statuses then Healthy
         else Waiting)"

definition num_gt :: "rat option \<Rightarrow> rat option \<Rightarrow> bool" where
  "num_gt a b = (case (a, b) of (Some x, Some y) \<Rightarrow> x > y | _ \<Rightarrow> False)"

definition finished_run :: "monitor_env \<Rightarrow> checkin option" where
  "finished_run env = List.find (\<lambda>c. ck_status c \<noteq> Ck_in_progress) (me_recent env)"

definition newer_run :: "(string \<Rightarrow> rat option) \<Rightarrow> checkin option \<Rightarrow> monitor_env \<Rightarrow> checkin option" where
  "newer_run date_parse newest env =
     (case finished_run env of None \<Rightarrow> newest
      | Some run \<Rightarrow>
          (case newest of None \<Rightarrow> Some run
           | Some n \<Rightarrow> if num_gt (date_parse (ck_date_added run)) (date_parse (ck_date_added n)) then Some run else newest))"

definition lastRun :: "(string \<Rightarrow> rat option) \<Rightarrow> monitor \<Rightarrow> checkin option" where
  "lastRun date_parse m = foldl (newer_run date_parse) None (mo_environments m)"

definition pick ::
  "(string \<Rightarrow> rat option) \<Rightarrow> monitor \<Rightarrow> (monitor_env \<Rightarrow> string option) \<Rightarrow> (rat option \<Rightarrow> rat option \<Rightarrow> bool) \<Rightarrow> string option" where
  "pick date_parse m fld better =
     foldl (\<lambda>best env.
       case fld env of None \<Rightarrow> best
       | Some value \<Rightarrow>
           if value \<noteq> [] \<and> (case best of None \<Rightarrow> True | Some b \<Rightarrow> better (date_parse value) (date_parse b))
           then Some value else best)
       None (mo_environments m)"

definition lastCheckIn :: "(string \<Rightarrow> rat option) \<Rightarrow> monitor \<Rightarrow> string option" where
  "lastCheckIn date_parse m = pick date_parse m me_last_checkin num_gt"

definition nextCheckIn :: "(string \<Rightarrow> rat option) \<Rightarrow> monitor \<Rightarrow> string option" where
  "nextCheckIn date_parse m = pick date_parse m me_next_checkin (\<lambda>a b. num_gt b a)"

text \<open>The candidates of a pick, and what its fold keeps of them.\<close>

definition candidates :: "(monitor_env \<Rightarrow> string option) \<Rightarrow> monitor_env list \<Rightarrow> string list" where
  "candidates fld envs = filter (\<lambda>v. v \<noteq> []) (List.map_filter fld envs)"

lemma candidates_snoc:
  "candidates fld (envs @ [e]) =
     candidates fld envs @ (case fld e of None \<Rightarrow> [] | Some v \<Rightarrow> if v = [] then [] else [v])"
  by (simp add: candidates_def map_filter_def split: option.splits)

lemma pick_best:
  assumes dates: "\<And>v. v \<in> set (candidates fld (mo_environments m)) \<Longrightarrow> date_parse v \<noteq> None"
    and trans: "\<And>x y z. R x y \<Longrightarrow> R y z \<Longrightarrow> R x z" and irrefl: "\<And>x. \<not> R x x"
    and total: "\<And>x y. x \<noteq> y \<Longrightarrow> R x y \<or> R y (x::rat)"
    and better: "\<And>a b. better a b \<longleftrightarrow> (case (a, b) of (Some x, Some y) \<Rightarrow> R x y | _ \<Rightarrow> False)"
  shows "case pick date_parse m fld better of
      None \<Rightarrow> candidates fld (mo_environments m) = []
    | Some best \<Rightarrow> best \<in> set (candidates fld (mo_environments m))
        \<and> (\<forall>v \<in> set (candidates fld (mo_environments m)). \<not> R (the (date_parse v)) (the (date_parse best)))"
proof -
  define step where "step = (\<lambda>best env. case fld env of None \<Rightarrow> best
       | Some value \<Rightarrow>
           if value \<noteq> [] \<and> (case best of None \<Rightarrow> True | Some b \<Rightarrow> better (date_parse value) (date_parse b))
           then Some value else best)"
  have "(\<forall>v \<in> set (candidates fld envs). date_parse v \<noteq> None) \<Longrightarrow>
    (case foldl step None envs of None \<Rightarrow> candidates fld envs = []
     | Some best \<Rightarrow> best \<in> set (candidates fld envs)
        \<and> (\<forall>v \<in> set (candidates fld envs). \<not> R (the (date_parse v)) (the (date_parse best))))" for envs
  proof (induction envs rule: rev_induct)
    case Nil
    show ?case by (simp add: candidates_def map_filter_simps)
  next
    case (snoc e envs)
    have prev: "\<forall>v \<in> set (candidates fld envs). date_parse v \<noteq> None"
      using snoc.prems by (simp add: candidates_snoc)
    note IH = snoc.IH [OF prev]
    show ?case
    proof (cases "fld e = None \<or> fld e = Some []")
      case True
      then have "step b e = b" "candidates fld (envs @ [e]) = candidates fld envs" for b
        by (auto simp: step_def candidates_snoc)
      then show ?thesis using IH by (simp split: option.splits)
    next
      case False
      then obtain v where v: "fld e = Some v" "v \<noteq> []" by auto
      have c: "candidates fld (envs @ [e]) = candidates fld envs @ [v]" by (simp add: candidates_snoc v)
      obtain x where x: "date_parse v = Some x" using snoc.prems c by auto
      show ?thesis
      proof (cases "foldl step None envs")
        case None
        then show ?thesis using IH v irrefl by (simp add: step_def c)
      next
        case (Some b)
        then have b: "b \<in> set (candidates fld envs)"
          "\<forall>w \<in> set (candidates fld envs). \<not> R (the (date_parse w)) (the (date_parse b))" using IH by simp_all
        obtain y where y: "date_parse b = Some y" using b(1) prev by auto
        show ?thesis
        proof (cases "R x y")
          case True
          have "\<not> R (the (date_parse w)) x" if "w \<in> set (candidates fld envs)" for w
            using b(2) that trans [OF _ True] y by fastforce
          then show ?thesis using Some v True x y irrefl by (simp add: step_def c better)
        next
          case no: False
          then show ?thesis using Some v x y b by (simp add: step_def c better)
        qed
      qed
    qed
  qed
  from this [of "mo_environments m"] dates show ?thesis by (simp add: pick_def step_def)
qed

lemma num_gt_strict:
  "num_gt a b \<longleftrightarrow> (case (a, b) of (Some x, Some y) \<Rightarrow> x > y | _ \<Rightarrow> False)"
  by (simp add: num_gt_def)

text \<open>
  Across its environments a monitor's last check-in is the latest and its next one the
  soonest of those that are dated, and neither is shown only when no environment has one.
\<close>

theorem check_ins_are_extreme:
  assumes "\<And>s. s \<in> set (candidates me_last_checkin (mo_environments m)) \<Longrightarrow> date_parse s \<noteq> None"
    and "\<And>s. s \<in> set (candidates me_next_checkin (mo_environments m)) \<Longrightarrow> date_parse s \<noteq> None"
  shows "(case lastCheckIn date_parse m of
            None \<Rightarrow> candidates me_last_checkin (mo_environments m) = []
          | Some best \<Rightarrow> best \<in> set (candidates me_last_checkin (mo_environments m))
              \<and> (\<forall>v \<in> set (candidates me_last_checkin (mo_environments m)).
                    \<not> the (date_parse v) > the (date_parse best)))
       \<and> (case nextCheckIn date_parse m of
            None \<Rightarrow> candidates me_next_checkin (mo_environments m) = []
          | Some best \<Rightarrow> best \<in> set (candidates me_next_checkin (mo_environments m))
              \<and> (\<forall>v \<in> set (candidates me_next_checkin (mo_environments m)).
                    \<not> the (date_parse v) < the (date_parse best)))"
  unfolding lastCheckIn_def nextCheckIn_def
  by (intro conjI pick_best [where R = "(>)"] pick_best [where R = "(<)"])
     (use assms in \<open>auto simp: num_gt_def split: option.splits\<close>)

definition two_regions :: monitor where
  "two_regions = \<lparr>mo_slug = ''job'', mo_name = ''Job'',
     mo_config = \<lparr>mc_schedule = Crontab ''0 * * * *'', mc_checkin_margin = 1, mc_max_runtime = 30,
       mc_timezone = ''UTC'', mc_failure_issue_threshold = 1, mc_recovery_threshold = 1\<rparr>,
     mo_environments =
       [\<lparr>me_environment = ''eu'', me_status = Env_ok, me_next_checkin = Some ''7'', me_last_checkin = Some ''5'', me_recent = []\<rparr>,
        \<lparr>me_environment = ''us'', me_status = Env_ok, me_next_checkin = Some ''6'', me_last_checkin = Some ''5'', me_recent = []\<rparr>]\<rparr>"

definition digit_date :: "string \<Rightarrow> rat option" where
  "digit_date s = Some (of_nat (digits_val s))"

lemma check_ins_are_extreme_witness:
  "lastCheckIn digit_date two_regions = Some ''5'' \<and> nextCheckIn digit_date two_regions = Some ''6''"
proof -
  have c: "candidates me_last_checkin (mo_environments two_regions) = [''5'', ''5'']"
    "candidates me_next_checkin (mo_environments two_regions) = [''7'', ''6'']"
    by (simp_all add: candidates_def two_regions_def map_filter_simps)
  have d: "digits_val ''7'' = 7" "digits_val ''6'' = 6"
    by (simp_all add: digits_val_def digit_val_def)
  show ?thesis
    using check_ins_are_extreme [of two_regions digit_date]
    by (auto simp: c d digit_date_def split: option.splits)
qed

section \<open>The timeline\<close>

datatype tick_status = Tick_error | Tick_timeout | Tick_missed | Tick_in_progress | Tick_ok | Tick_empty

record stats_bucket =
  sb_ok :: nat
  sb_error :: nat
  sb_missed :: nat
  sb_timeout :: nat
  sb_in_progress :: nat
  sb_avg_duration_ms :: "rat option"
  sb_duration_count :: nat

fun tick_count :: "stats_bucket \<Rightarrow> tick_status \<Rightarrow> nat" where
  "tick_count b Tick_error = sb_error b"
| "tick_count b Tick_timeout = sb_timeout b"
| "tick_count b Tick_missed = sb_missed b"
| "tick_count b Tick_in_progress = sb_in_progress b"
| "tick_count b Tick_ok = sb_ok b"
| "tick_count b Tick_empty = 0"

definition tickStatus :: "stats_bucket \<Rightarrow> tick_status" where
  "tickStatus b =
     (case List.find (\<lambda>s. 0 < tick_count b s) [Tick_error, Tick_timeout, Tick_missed, Tick_in_progress, Tick_ok] of
        Some s \<Rightarrow> s | None \<Rightarrow> Tick_empty)"

definition successRate :: "stats_bucket list \<Rightarrow> rat option" where
  "successRate buckets =
     (let ok = sum_list (map sb_ok buckets);
          finished = sum_list (map (\<lambda>b. sb_ok b + sb_error b + sb_missed b + sb_timeout b) buckets)
      in if finished \<noteq> 0 then Some (of_nat ok / of_nat finished) else None)"

definition windowDuration :: "stats_bucket list \<Rightarrow> rat option" where
  "windowDuration buckets =
     (let measured = filter (\<lambda>b. sb_avg_duration_ms b \<noteq> None) buckets;
          total_ms = sum_list (map (\<lambda>b. the (sb_avg_duration_ms b) * of_nat (sb_duration_count b)) measured);
          weight = sum_list (map sb_duration_count measured)
      in if weight \<noteq> 0 then Some (total_ms / of_nat weight) else None)"

lemma success_rate_is_share: "successRate buckets = Some r \<Longrightarrow> 0 \<le> r \<and> r \<le> 1"
proof -
  assume r: "successRate buckets = Some r"
  have "sum_list (map sb_ok buckets) \<le> sum_list (map (\<lambda>b. sb_ok b + sb_error b + sb_missed b + sb_timeout b) buckets)"
    by (rule sum_list_mono) simp
  then have "(of_nat (sum_list (map sb_ok buckets)) :: rat)
      \<le> of_nat (sum_list (map (\<lambda>b. sb_ok b + sb_error b + sb_missed b + sb_timeout b) buckets))"
    by (simp only: of_nat_le_iff)
  with r show ?thesis by (auto simp: successRate_def Let_def split: if_splits)
qed

text \<open>The mean over the window weighs each run the same, however the runs are bucketed.\<close>

lemma window_duration_weighs:
  fixes buckets :: "stats_bucket list"
  defines "measured \<equiv> filter (\<lambda>b. sb_avg_duration_ms b \<noteq> None) buckets"
  assumes "windowDuration buckets = Some d"
  shows "d * of_nat (sum_list (map sb_duration_count measured))
    = sum_list (map (\<lambda>b. the (sb_avg_duration_ms b) * of_nat (sb_duration_count b)) measured)"
proof -
  define W where "W = sum_list (map sb_duration_count measured)"
  define T where "T = sum_list (map (\<lambda>b. the (sb_avg_duration_ms b) * of_nat (sb_duration_count b)) measured)"
  have "windowDuration buckets = (if W \<noteq> 0 then Some (T / of_nat W) else None)"
    by (simp only: windowDuration_def Let_def W_def T_def measured_def)
  then have "W \<noteq> 0" "d = T / of_nat W" using assms(2) by (simp_all split: if_splits)
  then show ?thesis by (simp flip: W_def T_def)
qed

section \<open>Durations\<close>

definition formatRunDuration :: "rat \<Rightarrow> string" where
  "formatRunDuration ms =
     (if js_round ms < 1000 then int_str (js_round ms) @ ''ms''
      else
        let tenths = js_round (ms / 100)
        in if tenths < 600 then num_str (Fin (of_int tenths / 10)) @ ''s''
           else
             let seconds = js_round (ms / 1000);
                 in_minutes = seconds < 3600;
                 units = (if in_minutes then seconds else js_round (ms / 60000));
                 big = units div 60;
                 small = units mod 60
             in if small \<noteq> 0
                then int_str big @ (if in_minutes then ''m'' else ''h'') @ '' '' @
                     int_str small @ (if in_minutes then ''s'' else ''m'')
                else int_str big @ (if in_minutes then ''m'' else ''h''))"

lemma formatted_durations:
  "formatRunDuration (59990) = ''1m''" "formatRunDuration (3599999) = ''1h''"
  "formatRunDuration (5370000) = ''1h 30m''" "formatRunDuration (12500) = ''12.5s''"
  by code_simp+

section \<open>The form\<close>

definition MAX_MARGIN :: rat where "MAX_MARGIN = 40320"
definition MAX_RUNTIME :: rat where "MAX_RUNTIME = 10080"
definition MAX_THRESHOLD :: rat where "MAX_THRESHOLD = 720"

record monitor_form =
  mf_name :: string
  mf_slug :: string
  mf_config :: monitor_config

definition whole_between :: "rat \<Rightarrow> rat \<Rightarrow> bool" where
  "whole_between n most \<longleftrightarrow> n = of_int \<lfloor>n\<rfloor> \<and> 1 \<le> n \<and> n \<le> most"

definition slug_chars :: "string \<Rightarrow> bool" where
  "slug_chars s \<longleftrightarrow> list_all (\<lambda>c. is_lower c \<or> is_digit c \<or> c = CHR ''_'' \<or> c = CHR ''-'') s"

text \<open>What \<open>monitorFormSchema\<close> accepts; a cleared number input is \<open>NaN\<close> and is refused before it gets here.\<close>

definition monitorFormSchema :: "monitor_form \<Rightarrow> bool" where
  "monitorFormSchema f \<longleftrightarrow>
     (let name = trim (mf_name f); slug = trim (mf_slug f); c = mf_config f
      in 1 \<le> length name \<and> length name \<le> 128 \<and> length slug \<le> 50 \<and> slug_chars slug
         \<and> (case mc_schedule c of Crontab v \<Rightarrow> 1 \<le> length (trim v)
            | Interval n u \<Rightarrow> n = of_int \<lfloor>n\<rfloor> \<and> 1 \<le> n)
         \<and> 1 \<le> length (mc_timezone c)
         \<and> whole_between (mc_checkin_margin c) MAX_MARGIN \<and> whole_between (mc_max_runtime c) MAX_RUNTIME
         \<and> whole_between (mc_failure_issue_threshold c) MAX_THRESHOLD
         \<and> whole_between (mc_recovery_threshold c) MAX_THRESHOLD)"

definition DEFAULT_MONITOR_FORM :: monitor_form where
  "DEFAULT_MONITOR_FORM = \<lparr>mf_name = [], mf_slug = [],
     mf_config = \<lparr>mc_schedule = Crontab ''0 * * * *'', mc_checkin_margin = 1, mc_max_runtime = 30,
       mc_timezone = ''UTC'', mc_failure_issue_threshold = 1, mc_recovery_threshold = 1\<rparr>\<rparr>"

definition formFromMonitor :: "monitor \<Rightarrow> monitor_form" where
  "formFromMonitor m = \<lparr>mf_name = mo_name m, mf_slug = mo_slug m, mf_config = mo_config m\<rparr>"

definition trimmed :: "schedule \<Rightarrow> schedule" where
  "trimmed s = (case s of Crontab v \<Rightarrow> Crontab (trim v) | _ \<Rightarrow> s)"

record monitor_input =
  mi_name :: string
  mi_slug :: "string option"
  mi_config :: monitor_config

definition inputFromForm :: "monitor_form \<Rightarrow> monitor_input" where
  "inputFromForm d =
     (let slug = trim (mf_slug d)
      in \<lparr>mi_name = trim (mf_name d), mi_slug = (if slug \<noteq> [] then Some slug else None),
          mi_config = (mf_config d)\<lparr>mc_schedule := trimmed (mc_schedule (mf_config d))\<rparr>\<rparr>)"

text \<open>A monitor opened in the form and saved is the monitor, when nothing in it needs trimming.\<close>

lemma monitor_saved_unchanged:
  assumes "trim (mo_name m) = mo_name m" "trim (mo_slug m) = mo_slug m" "mo_slug m \<noteq> []"
    and "trimmed (mc_schedule (mo_config m)) = mc_schedule (mo_config m)"
  shows "inputFromForm (formFromMonitor m) =
    \<lparr>mi_name = mo_name m, mi_slug = Some (mo_slug m), mi_config = mo_config m\<rparr>"
  using assms by (simp add: inputFromForm_def formFromMonitor_def)

lemma default_form_needs_a_name: "\<not> monitorFormSchema DEFAULT_MONITOR_FORM"
  by (simp add: monitorFormSchema_def DEFAULT_MONITOR_FORM_def trim_def trim_start_def trim_end_def)

section \<open>Addresses\<close>

record parsed_url =
  pu_protocol :: string
  pu_username :: string
  pu_host :: string
  pu_pathname :: string

record dsn_parts =
  dp_origin :: string
  dp_key :: string
  dp_projectId :: string

definition parseDsn :: "(string \<Rightarrow> parsed_url option) \<Rightarrow> string \<Rightarrow> dsn_parts option" where
  "parseDsn parse_url dsn =
     (case parse_url dsn of None \<Rightarrow> None
      | Some url \<Rightarrow>
          (let segments = filter (\<lambda>s. s \<noteq> []) (split_on (CHR ''/'') (pu_pathname url))
           in if pu_username url = [] \<or> segments = [] then None
              else let prefix = (if butlast segments \<noteq> [] then CHR ''/'' # join_with ''/'' (butlast segments) else [])
                   in Some \<lparr>dp_origin = pu_protocol url @ ''//'' @ pu_host url @ prefix,
                        dp_key = pu_username url, dp_projectId = last segments\<rparr>))"

definition cronCheckInUrl :: "(string \<Rightarrow> parsed_url option) \<Rightarrow> string \<Rightarrow> string \<Rightarrow> string option" where
  "cronCheckInUrl parse_url dsn slug =
     map_option (\<lambda>p. dp_origin p @ ''/api/'' @ dp_projectId p @ ''/cron/'' @ slug @ ''/'' @ dp_key p @ ''/'')
       (parseDsn parse_url dsn)"

lemma parsed_dsn_has_parts:
  "parseDsn parse_url dsn = Some p \<Longrightarrow> dp_key p \<noteq> [] \<and> dp_projectId p \<noteq> [] \<and> CHR ''/'' \<notin> set (dp_projectId p)"
proof -
  assume p: "parseDsn parse_url dsn = Some p"
  then obtain url where url: "parse_url dsn = Some url" by (auto simp: parseDsn_def split: option.splits)
  define segments where "segments = filter (\<lambda>s. s \<noteq> []) (split_on (CHR ''/'') (pu_pathname url))"
  have u: "segments \<noteq> []" "dp_key p = pu_username url" "pu_username url \<noteq> []" "dp_projectId p = last segments"
    using p by (auto simp: parseDsn_def url segments_def [symmetric] Let_def split: if_splits)
  then have "dp_projectId p \<in> set segments" by simp
  then have "dp_projectId p \<in> set (split_on (CHR ''/'') (pu_pathname url))" "dp_projectId p \<noteq> []"
    by (simp_all add: segments_def)
  then show ?thesis using u(2,3) split_on_pieces by fastforce
qed

end
