(* ===== verification/RuleEditor.thy ===== *)
theory RuleEditor
  imports AlertForms
begin

text \<open>
  The editor of an alert rule: \<open>features/alert/ui/hooks/use-channel-routing.ts\<close> (the routing
  of each channel and the errors under it), the picker of channels and \<open>rule-editor.tsx\<close>
  (what is checked before a rule is saved or tested, and what is sent), over the routing of
  \<open>AlertRouting\<close>, the filters of \<open>AlertForms\<close> and the server's errors of \<open>FormErrors\<close>. The form
  is react-hook-form's: it holds values, and runs \<open>onSubmit\<close> with those its schema accepts.
\<close>

section \<open>The form and what it sends\<close>

record rule_form =
  rf_name :: string
  rf_alert_type :: alert_type
  rf_is_enabled :: bool
  rf_cooldown :: jsnum
  rf_min_level :: "level option"
  rf_environments :: "string list"
  rf_min_events :: jsnum

definition MAX_SAFE_INTEGER :: int where
  "MAX_SAFE_INTEGER = 2 ^ 53 - 1"

text \<open>A whole number from a bound on, as zod's \<open>int\<close> takes one: a safe integer.\<close>

definition whole_from :: "int \<Rightarrow> jsnum \<Rightarrow> bool" where
  "whole_from lo x = (case as_integer x of Some i \<Rightarrow> lo \<le> i \<and> i \<le> MAX_SAFE_INTEGER | None \<Rightarrow> False)"

definition alertRuleFormSchema :: "rule_form \<Rightarrow> bool" where
  "alertRuleFormSchema f \<longleftrightarrow>
     rf_name f \<noteq> [] \<and> length (rf_name f) \<le> 255 \<and> whole_from 0 (rf_cooldown f) \<and> whole_from 1 (rf_min_events f)"

definition whole_number :: "jsnum \<Rightarrow> int" where
  "whole_number x = (case as_integer x of Some i \<Rightarrow> i | None \<Rightarrow> 0)"

record stored_rule =
  sr_id :: int
  sr_name :: string
  sr_alert_type :: alert_type
  sr_is_enabled :: bool
  sr_cooldown :: int
  sr_conditions :: conditions
  sr_integration_ids :: "int list"
  sr_channels :: "(int \<times> override option) list"

record rule_body =
  rb_name :: string
  rb_alert_type :: alert_type
  rb_channels :: "(int \<times> override) list"
  rb_cooldown :: int
  rb_conditions :: conditions

datatype editor_request = Create_rule rule_body | Update_rule int rule_body | Test_channel int override

section \<open>Routing per channel\<close>

definition initialRoutingMap :: "stored_rule option \<Rightarrow> integration list \<Rightarrow> (int \<times> routing) list" where
  "initialRoutingMap existing integrations =
     (case existing of None \<Rightarrow> []
      | Some r \<Rightarrow> foldl (\<lambda>m (i, o1). map_put i
            (readRoutingOverride (by_id integrations i) (case o1 of None \<Rightarrow> [] | Some o2 \<Rightarrow> o2)) m) [] (sr_channels r))"

record channel_routing =
  cr_map :: "(int \<times> routing) list"
  cr_errors :: "(int \<times> string) list"

definition clearError :: "int \<Rightarrow> channel_routing \<Rightarrow> channel_routing" where
  "clearError i c = c\<lparr>cr_errors := filter (\<lambda>e. fst e \<noteq> i) (cr_errors c)\<rparr>"

definition select_channel :: "int \<Rightarrow> bool \<Rightarrow> channel_routing \<Rightarrow> channel_routing" where
  "select_channel i selected c =
     (if selected then c\<lparr>cr_map := map_put i [] (cr_map c)\<rparr>
      else clearError i (c\<lparr>cr_map := filter (\<lambda>p. fst p \<noteq> i) (cr_map c)\<rparr>))"

definition setField :: "int \<Rightarrow> string \<Rightarrow> string \<Rightarrow> channel_routing \<Rightarrow> channel_routing" where
  "setField i field v c =
     clearError i (c\<lparr>cr_map := map_put i (obj_put field v (routing_at (cr_map c) i)) (cr_map c)\<rparr>)"

definition validate_routing ::
  "(string \<Rightarrow> string option) \<Rightarrow> AlertRouting.translate \<Rightarrow> integration list \<Rightarrow> int list \<Rightarrow> channel_routing \<Rightarrow>
     bool \<times> channel_routing" where
  "validate_routing protocol t integrations selectedIds c =
     (let found = collectRoutingErrors protocol selectedIds (cr_map c) integrations t
      in (found = [], c\<lparr>cr_errors := found\<rparr>))"

section \<open>The editor\<close>

text \<open>\<open>ed_calls\<close> are the calls made on the form, \<open>ed_sent\<close> the requests, in order.\<close>

record editor =
  ed_rule :: "stored_rule option"
  ed_form :: rule_form
  ed_selected :: "int list"
  ed_routing :: channel_routing
  ed_calls :: "form_call list"
  ed_toasts :: "string list"
  ed_sent :: "editor_request list"

definition open_editor :: "stored_rule option \<Rightarrow> alert_type \<Rightarrow> integration list \<Rightarrow> editor" where
  "open_editor rule initialType integrations =
     (let conditions = (case rule of None \<Rightarrow> \<lparr>cd_min_level = None, cd_environments = None, cd_min_events = None\<rparr>
                        | Some r \<Rightarrow> sr_conditions r);
          filters = formFromConditions conditions
      in \<lparr>ed_rule = rule,
          ed_form =
            \<lparr>rf_name = (case rule of None \<Rightarrow> [] | Some r \<Rightarrow> sr_name r),
             rf_alert_type = (case rule of None \<Rightarrow> initialType | Some r \<Rightarrow> sr_alert_type r),
             rf_is_enabled = (case rule of None \<Rightarrow> True | Some r \<Rightarrow> sr_is_enabled r),
             rf_cooldown = Fin (of_int (case rule of None \<Rightarrow> DEFAULT_COOLDOWN | Some r \<Rightarrow> sr_cooldown r)),
             rf_min_level = ff_min_level filters,
             rf_environments = environmentsOf conditions,
             rf_min_events = Fin (of_int (ff_min_events filters))\<rparr>,
          ed_selected = (case rule of None \<Rightarrow> [] | Some r \<Rightarrow> sr_integration_ids r),
          ed_routing = \<lparr>cr_map = initialRoutingMap rule integrations, cr_errors = []\<rparr>,
          ed_calls = [], ed_toasts = [], ed_sent = []\<rparr>)"

text \<open>\<open>toggle\<close> of the picker: the form's ids and the routing move together.\<close>

definition toggle_channel :: "int \<Rightarrow> bool \<Rightarrow> editor \<Rightarrow> editor" where
  "toggle_channel i selected e =
     e\<lparr>ed_selected := (if selected then ed_selected e @ [i] else filter (\<lambda>j. j \<noteq> i) (ed_selected e)),
       ed_calls := (if selected then ed_calls e @ [ClearErrors ''selected_integration_ids''] else ed_calls e),
       ed_routing := select_channel i selected (ed_routing e)\<rparr>"

definition rule_body_of :: "integration list \<Rightarrow> editor \<Rightarrow> rule_body" where
  "rule_body_of integrations e =
     (let data = ed_form e
      in \<lparr>rb_name = rf_name data, rb_alert_type = rf_alert_type data,
          rb_channels = buildChannelsPayload (ed_selected e) (cr_map (ed_routing e)) integrations,
          rb_cooldown = whole_number (rf_cooldown data),
          rb_conditions = conditionsFromForm (rf_min_level data) (whole_number (rf_min_events data)) (rf_alert_type data)
                            (Picked (rf_environments data))\<rparr>)"

definition onSubmit ::
  "(string \<Rightarrow> string option) \<Rightarrow> AlertRouting.translate \<Rightarrow> integration list \<Rightarrow> editor \<Rightarrow> editor" where
  "onSubmit protocol t integrations e =
     (if \<not> alertRuleFormSchema (ed_form e) then e
      else case validate_routing protocol t integrations (ed_selected e) (ed_routing e) of
        (ok, c) \<Rightarrow>
          let e1 = e\<lparr>ed_routing := c\<rparr>
          in if \<not> ok then e1
             else if ed_selected e1 = []
             then e1\<lparr>ed_calls := ed_calls e1 @
                    [SetError ''selected_integration_ids'' (JStr (t ''ruleDialog.selectAtLeastOne'' []))]\<rparr>
             else let body = rule_body_of integrations e1
                  in e1\<lparr>ed_sent := ed_sent e1 @
                       [case ed_rule e1 of Some r \<Rightarrow> Update_rule (sr_id r) body | None \<Rightarrow> Create_rule body]\<rparr>)"

text \<open>A test goes through every chosen channel, routed as the saved rule would be.\<close>

definition sendTest ::
  "(string \<Rightarrow> string option) \<Rightarrow> AlertRouting.translate \<Rightarrow> integration list \<Rightarrow> editor \<Rightarrow> editor" where
  "sendTest protocol t integrations e =
     (case validate_routing protocol t integrations (ed_selected e) (ed_routing e) of
        (ok, c) \<Rightarrow>
          let e1 = e\<lparr>ed_routing := c\<rparr>
          in if \<not> ok then e1
             else e1\<lparr>ed_sent := ed_sent e1 @ map (\<lambda>(i, o1). Test_channel i o1)
                    (buildChannelsPayload (ed_selected e1) (cr_map (ed_routing e1)) integrations)\<rparr>)"

text \<open>\<open>onError\<close>: the reasons go to the inputs, what is left of them to a toast.\<close>

definition rule_refused ::
  "form_control \<Rightarrow> string \<Rightarrow> FormErrors.translate \<Rightarrow> rustrak_error \<Rightarrow> editor \<Rightarrow> editor" where
  "rule_refused control name_label globalT err e =
     (case applyServerFieldErrors control err [] [(''name'', name_label)] globalT of
        (calls, applied) \<Rightarrow>
          e\<lparr>ed_calls := ed_calls e @ calls,
            ed_toasts := ed_toasts e @ (case formLevel applied of Some (c # cs) \<Rightarrow> [c # cs] | _ \<Rightarrow> [])\<rparr>)"

datatype editor_event =
    Edit rule_form
  | Toggle int
  | Route int string string
  | Submit
  | Send_test
  | Refused rustrak_error

fun editor_step ::
  "(string \<Rightarrow> string option) \<Rightarrow> AlertRouting.translate \<Rightarrow> FormErrors.translate \<Rightarrow> form_control \<Rightarrow> integration list
   \<Rightarrow> editor \<Rightarrow> editor_event \<Rightarrow> editor" where
  "editor_step protocol t gt control is e (Edit form) = e\<lparr>ed_form := form\<rparr>"
| "editor_step protocol t gt control is e (Toggle i) = toggle_channel i (i \<notin> set (ed_selected e)) e"
| "editor_step protocol t gt control is e (Route i field v) =
     (if i \<in> set (ed_selected e) then e\<lparr>ed_routing := setField i field v (ed_routing e)\<rparr> else e)"
| "editor_step protocol t gt control is e Submit = onSubmit protocol t is e"
| "editor_step protocol t gt control is e Send_test =
     (if ed_selected e = [] then e else sendTest protocol t is e)"
| "editor_step protocol t gt control is e (Refused err) = rule_refused control (t ''common.fieldName'' []) gt err e"

definition editor_after ::
  "(string \<Rightarrow> string option) \<Rightarrow> AlertRouting.translate \<Rightarrow> FormErrors.translate \<Rightarrow> form_control \<Rightarrow> integration list
   \<Rightarrow> editor \<Rightarrow> editor_event list \<Rightarrow> editor" where
  "editor_after protocol t gt control is = foldl (editor_step protocol t gt control is)"

section \<open>What is sent\<close>















section \<open>Errors on screen\<close>

definition error_current ::
  "(string \<Rightarrow> string option) \<Rightarrow> AlertRouting.translate \<Rightarrow> integration list \<Rightarrow> editor \<Rightarrow> int \<times> string \<Rightarrow> bool" where
  "error_current protocol t is e im \<longleftrightarrow>
     fst im \<in> set (ed_selected e) \<and>
     routing_error protocol (cr_map (ed_routing e)) is t (fst im) = Some (snd im)"

lemma found_current:
  "im \<in> set (collectRoutingErrors protocol ids m is t) \<Longrightarrow>
     fst im \<in> set ids \<and> routing_error protocol m is t (fst im) = Some (snd im)"
proof -
  have put: "im \<in> set (map_put j x es) \<Longrightarrow> im = (j, x) \<or> im \<in> set es" for j x and es :: "(int \<times> string) list"
    by (induction j x es rule: map_put.induct) (auto split: if_splits)
  have "im \<in> set (foldl (\<lambda>es j. case f j of None \<Rightarrow> es | Some x \<Rightarrow> map_put j x es) es js) \<Longrightarrow>
      im \<in> set es \<or> (fst im \<in> set js \<and> f (fst im) = Some (snd im))" for f es js
  proof (induction js arbitrary: es)
    case (Cons j js)
    show ?case
    proof (cases "f j")
      case None then show ?thesis using Cons.IH [of es] Cons.prems by auto
    next
      case (Some x)
      then show ?thesis using Cons.IH [of "map_put j x es"] Cons.prems put [of j x es] by auto
    qed
  qed simp
  then show "im \<in> set (collectRoutingErrors protocol ids m is t) \<Longrightarrow> ?thesis"
    unfolding collect_eq by fastforce
qed

lemma routing_at_other:
  assumes "j \<noteq> i"
  shows "routing_at (map_put i r m) j = routing_at m j"
    "routing_at (filter (\<lambda>p. fst p \<noteq> i) m) j = routing_at m j"
proof -
  have "map_of (filter (\<lambda>p. fst p \<noteq> i) m) j = map_of m j" using assms by (induction m) auto
  then show "routing_at (filter (\<lambda>p. fst p \<noteq> i) m) j = routing_at m j" by (simp add: routing_at_def)
qed (use assms in \<open>simp add: routing_at_def map_put_lookup\<close>)

lemma routing_error_other:
  assumes "j \<noteq> i"
  shows "routing_error protocol (map_put i r m) is t j = routing_error protocol m is t j"
    "routing_error protocol (filter (\<lambda>p. fst p \<noteq> i) m) is t j = routing_error protocol m is t j"
  unfolding routing_error_def routing_at_other [OF assms] by (rule refl)+

lemma step_errors_current:
  assumes "\<forall>im \<in> set (cr_errors (ed_routing e)). error_current protocol t is e im"
  shows "\<forall>im \<in> set (cr_errors (ed_routing (editor_step protocol t gt control is e ev))).
    error_current protocol t is (editor_step protocol t gt control is e ev) im"
proof (cases ev)
  case (Toggle i)
  show ?thesis
  proof (cases "i \<in> set (ed_selected e)")
    case True
    then show ?thesis using assms Toggle
      by (auto simp: toggle_channel_def select_channel_def clearError_def error_current_def routing_error_other)
  next
    case False
    have "fst im \<noteq> i" if "im \<in> set (cr_errors (ed_routing e))" for im
      using assms that False by (auto simp: error_current_def)
    then show ?thesis using assms Toggle False
      by (auto simp: toggle_channel_def select_channel_def error_current_def routing_error_other)
  qed
next
  case (Route i field v)
  then show ?thesis using assms
    by (auto simp: setField_def clearError_def error_current_def routing_error_other)
next
  case Submit
  then show ?thesis using assms
    by (auto simp: onSubmit_def validate_routing_def error_current_def Let_def dest: found_current)
next
  case Send_test
  then show ?thesis using assms
    by (auto simp: sendTest_def validate_routing_def error_current_def Let_def dest: found_current)
qed (use assms in \<open>auto simp: error_current_def rule_refused_def split: prod.splits\<close>)

text \<open>
  An error under a channel is never stale: after any sequence of edits every routing error
  on screen is of a channel that is still selected and is what checking its routing as it
  stands now says.
\<close>

theorem routing_errors_are_current:
  "list_all (error_current protocol t is (editor_after protocol t gt control is (open_editor rule initialType is) evs))
    (cr_errors (ed_routing (editor_after protocol t gt control is (open_editor rule initialType is) evs)))"
proof -
  have "\<forall>im \<in> set (cr_errors (ed_routing e)). error_current protocol t is e im \<Longrightarrow>
      \<forall>im \<in> set (cr_errors (ed_routing (editor_after protocol t gt control is e evs))).
        error_current protocol t is (editor_after protocol t gt control is e evs) im" for e
    unfolding editor_after_def
  proof (induction evs arbitrary: e)
    case (Cons ev evs)
    from Cons.IH [OF step_errors_current [OF Cons.prems]] show ?case by simp
  qed simp
  from this [of "open_editor rule initialType is"] show ?thesis
    by (simp add: list_all_iff open_editor_def Let_def)
qed

section \<open>A rule opened and saved\<close>















lemma whole_of_int [simp]: "whole_number (Fin (of_int n)) = n" "whole_from lo (Fin (of_int n)) \<longleftrightarrow> lo \<le> n \<and> n \<le> MAX_SAFE_INTEGER"
  by (simp_all add: whole_number_def whole_from_def as_integer_def)





definition stored_hook :: integration where
  "stored_hook =
     \<lparr>ig_id = 5, ig_name = ''Hook'', ig_provider = Webhook, ig_credentials = JObj [(''url'', JStr ''https://a.example/h'')]\<rparr>"


text \<open>
  The headers a rule adds to its webhook, and the name a Slack bot posts under, are lost when the rule is
  opened and saved: what is read into the inputs goes back without them.
\<close>

lemma headers_and_names_are_lost:
  "overrideOf stored_hook (readRoutingOverride (Some stored_hook)
      [(''url'', JStr ''https://b.example''), (''extra_headers'', JObj [(''api-key'', JStr ''k'')])])
    = [(''url'', JStr ''https://b.example'')]"
  "isBot x \<Longrightarrow> ig_provider x = Slack \<Longrightarrow>
    overrideOf x (readRoutingOverride (Some x) [(''channel'', JStr ''#ops''), (''username'', JStr ''rustrak'')])
    = [(''channel'', JStr ''#ops'')]"
proof -
  have "trim ''https://b.example'' = ''https://b.example''" "trim ''#ops'' = ''#ops''" by code_simp+
  then show "overrideOf stored_hook (readRoutingOverride (Some stored_hook)
      [(''url'', JStr ''https://b.example''), (''extra_headers'', JObj [(''api-key'', JStr ''k'')])])
    = [(''url'', JStr ''https://b.example'')]"
    and "isBot x \<Longrightarrow> ig_provider x = Slack \<Longrightarrow>
    overrideOf x (readRoutingOverride (Some x) [(''channel'', JStr ''#ops''), (''username'', JStr ''rustrak'')])
    = [(''channel'', JStr ''#ops'')]"
    by (simp_all add: stored_hook_def overrideOf_def readRoutingOverride_def webhook_override_def slack_override_def
        filled_eq read_string)
qed

end
