(* ===== verification/StorageJobs.thy ===== *)
theory StorageJobs
  imports Retention ClientErrors
begin

text \<open>
  The two machines of the storage page: \<open>features/storage/ui/hooks/use-cleanup-job.ts\<close> (the
  server's background job followed by polling, its outcome announced once) and
  \<open>use-retention-draft.ts\<close> (retention edited, saved, and enforced at once when asked). The
  query client's answers are events; the notices are the calls made on the toaster, which
  replaces the one that has the same id. \<open>t\<close> is the translator, with what it interpolates.
\<close>

section \<open>The job the server runs\<close>

datatype job_state = Running | Completed | Failed
datatype job_kind = Cleanup | Compaction

record cleanup_job =
  jb_state :: job_state
  jb_kind :: job_kind
  jb_started_at :: "string option"
  jb_removed :: cleanup_counts
  jb_error :: "string option"

definition JOB_POLL_MS :: int where
  "JOB_POLL_MS = 2000"

text \<open>\<open>None\<close>: not polled.\<close>

definition refetchInterval :: "cleanup_job option \<Rightarrow> int option" where
  "refetchInterval job = (case job of Some j \<Rightarrow> (if jb_state j = Running then Some JOB_POLL_MS else None) | None \<Rightarrow> None)"

text \<open>A notice's id is \<open>COMPACTION_TOAST\<close> or none.\<close>

datatype notice =
    Loading string
  | Success bool string  \<comment> \<open>with the id?\<close>
  | Failure bool string "string option"
  | Dismiss

definition summarizeRemoved ::
  "cleanup_counts \<Rightarrow> (string \<Rightarrow> string \<Rightarrow> string) \<Rightarrow> (string \<Rightarrow> int \<Rightarrow> string) \<Rightarrow> string" where
  "summarizeRemoved counts t unit_of =
     (let parts = removedParts counts unit_of
      in if parts \<noteq> [] then t ''toasts.removed'' (join_with '', '' parts) else t ''toasts.nothingRemoved'' [])"

definition announce_job ::
  "cleanup_job \<Rightarrow> (string \<Rightarrow> string \<Rightarrow> string) \<Rightarrow> (string \<Rightarrow> int \<Rightarrow> string) \<Rightarrow> notice" where
  "announce_job job t unit_of =
     (let compacting = (jb_kind job = Compaction)
      in if jb_state job = Completed
         then Success compacting (if compacting then t ''toasts.compacted'' [] else summarizeRemoved (jb_removed job) t unit_of)
         else Failure compacting (t (if compacting then ''toasts.compactionFailed'' else ''toasts.cleanupFailed'') []) (jb_error job))"

record job_page =
  jp_job :: "cleanup_job option"
  jp_runningRef :: bool
  jp_compactingRef :: bool
  jp_notices :: "notice list"
  jp_invalidated :: nat  \<comment> \<open>how often everything of the page was read again\<close>

definition empty_page :: job_page where
  "empty_page = \<lparr>jp_job = None, jp_runningRef = False, jp_compactingRef = False, jp_notices = [], jp_invalidated = 0\<rparr>"

text \<open>The effect on a job that changed; \<open>clock\<close> is the time a compaction has run.\<close>

definition job_effect ::
  "(string \<Rightarrow> string \<Rightarrow> string) \<Rightarrow> (string \<Rightarrow> int \<Rightarrow> string) \<Rightarrow> string \<Rightarrow> cleanup_job \<Rightarrow> job_page \<Rightarrow> job_page" where
  "job_effect t unit_of clock job s =
     (if jb_state job = Running
      then s\<lparr>jp_runningRef := True,
             jp_notices := jp_notices s @ (if jb_kind job = Compaction then [Loading (t ''toasts.compacting'' clock)] else [])\<rparr>
      else if \<not> jp_runningRef s then s
      else s\<lparr>jp_runningRef := False, jp_notices := jp_notices s @ [announce_job job t unit_of],
             jp_invalidated := jp_invalidated s + 1\<rparr>)"

text \<open>
  An answer of the status read, or a started job put in the cache by \<open>follow\<close>: the effects run
  when it differs from the one there was.
\<close>

definition job_answer ::
  "(string \<Rightarrow> string \<Rightarrow> string) \<Rightarrow> (string \<Rightarrow> int \<Rightarrow> string) \<Rightarrow> string \<times> cleanup_job \<Rightarrow> job_page \<Rightarrow> job_page" where
  "job_answer t unit_of = (\<lambda>(clock, job) s.
     (if jp_job s = Some job then s
      else (job_effect t unit_of clock job (s\<lparr>jp_job := Some job\<rparr>))
             \<lparr>jp_compactingRef := (jb_state job = Running \<and> jb_kind job = Compaction)\<rparr>))"

definition job_answers ::
  "(string \<Rightarrow> string \<Rightarrow> string) \<Rightarrow> (string \<Rightarrow> int \<Rightarrow> string) \<Rightarrow> (string \<times> cleanup_job) list \<Rightarrow> job_page" where
  "job_answers t unit_of answers = fold (job_answer t unit_of) answers empty_page"

text \<open>Leaving the page.\<close>

definition leave_page :: "job_page \<Rightarrow> job_page" where
  "leave_page s = (if jp_compactingRef s then s\<lparr>jp_notices := jp_notices s @ [Dismiss]\<rparr> else s)"

text \<open>What the toaster shows under the compaction's id after the calls so far.\<close>

fun under_id :: "notice option \<Rightarrow> notice \<Rightarrow> notice option" where
  "under_id shown_now (Loading m) = Some (Loading m)"
| "under_id shown_now (Success with_id m) = (if with_id then Some (Success with_id m) else shown_now)"
| "under_id shown_now (Failure with_id m d) = (if with_id then Some (Failure with_id m d) else shown_now)"
| "under_id shown_now Dismiss = None"

definition compaction_notice :: "notice list \<Rightarrow> notice option" where
  "compaction_notice ns = foldl under_id None ns"

section \<open>Each outcome is announced once\<close>

text \<open>The jobs that were seen running and then seen stopped.\<close>

fun outcomes :: "bool \<Rightarrow> cleanup_job list \<Rightarrow> cleanup_job list" where
  "outcomes seen [] = []"
| "outcomes seen (j # js) =
     (if jb_state j = Running then outcomes True js
      else (if seen then [j] else []) @ outcomes False js)"

fun is_outcome :: "notice \<Rightarrow> bool" where
  "is_outcome (Success _ _) = True"
| "is_outcome (Failure _ _ _) = True"
| "is_outcome _ = False"

text \<open>What is known of the last job after some answers: a job that stands and runs was seen.\<close>

definition seen_ok :: "job_page \<Rightarrow> bool" where
  "seen_ok s \<longleftrightarrow> (case jp_job s of None \<Rightarrow> \<not> jp_runningRef s | Some j \<Rightarrow> jp_runningRef s = (jb_state j = Running))"

lemma is_outcome_announce: "is_outcome (announce_job j t u)"
  by (simp add: announce_job_def Let_def)

lemma answers_outcomes:
  assumes "seen_ok s"
  shows "filter is_outcome (jp_notices (fold (job_answer t u) as s)) =
      filter is_outcome (jp_notices s) @ map (\<lambda>j. announce_job j t u) (outcomes (jp_runningRef s) (map snd as))
    \<and> jp_invalidated (fold (job_answer t u) as s) = jp_invalidated s + length (outcomes (jp_runningRef s) (map snd as))"
  using assms
proof (induction as arbitrary: s)
  case (Cons a as)
  obtain clock j where a: "a = (clock, j)" by (cases a)
  let ?s = "job_answer t u a s"
  have "seen_ok ?s" using Cons.prems
    by (auto simp: a seen_ok_def job_answer_def job_effect_def split: option.splits)
  from Cons.IH [OF this] show ?case using Cons.prems
    by (auto simp: a seen_ok_def job_answer_def job_effect_def is_outcome_announce split: option.splits)
qed simp

text \<open>
  C26: The outcome of a job is announced exactly once, when the job was seen running on this
  page and then seen stopped, in the order this happened; and with each announcement the
  page's figures are read again once. A job that had stopped before the page came up is not
  announced, nor is one answer twice.
\<close>

theorem each_outcome_announced_once:
  "filter is_outcome (jp_notices (job_answers t u answers)) = map (\<lambda>j. announce_job j t u) (outcomes False (map snd answers))
   \<and> jp_invalidated (job_answers t u answers) = length (outcomes False (map snd answers))"
  using answers_outcomes [of empty_page t u answers]
  by (simp add: job_answers_def empty_page_def seen_ok_def)

section \<open>The notice of a compaction\<close>

text \<open>A compaction is seen to end before another kind of job is.\<close>

fun ends_are_seen :: "cleanup_job list \<Rightarrow> bool" where
  "ends_are_seen [] = True"
| "ends_are_seen [j] = True"
| "ends_are_seen (j # k # js) =
     ((jb_state j = Running \<and> jb_kind j = Compaction \<longrightarrow> jb_kind k = Compaction) \<and> ends_are_seen (k # js))"

fun is_loading :: "notice option \<Rightarrow> bool" where
  "is_loading (Some (Loading _)) = True"
| "is_loading _ = False"

definition page_ok :: "job_page \<Rightarrow> bool" where
  "page_ok s \<longleftrightarrow> seen_ok s \<and> is_loading (compaction_notice (jp_notices s)) = jp_compactingRef s
     \<and> jp_compactingRef s = (\<exists>j. jp_job s = Some j \<and> jb_state j = Running \<and> jb_kind j = Compaction)"

lemma answer_page_ok:
  assumes ok: "page_ok s"
    and next_job: "\<And>k. jp_job s = Some k \<Longrightarrow> jb_state k = Running \<Longrightarrow> jb_kind k = Compaction \<Longrightarrow> jb_kind j = Compaction"
  shows "page_ok (job_answer t u (clock, j) s)" "jp_job (job_answer t u (clock, j) s) = Some j"
proof -
  show "jp_job (job_answer t u (clock, j) s) = Some j"
    by (simp add: job_answer_def job_effect_def)
  show "page_ok (job_answer t u (clock, j) s)"
  proof (cases "jp_job s")
    case None
    then show ?thesis using ok
      by (auto simp: page_ok_def seen_ok_def job_answer_def job_effect_def compaction_notice_def announce_job_def)
  next
    case (Some k)
    then show ?thesis using ok next_job [OF Some]
      by (cases "jb_kind j"; cases "jb_kind k"; cases "jb_state k"; cases "jb_state j")
         (auto simp: page_ok_def seen_ok_def job_answer_def job_effect_def compaction_notice_def announce_job_def Let_def)
  qed
qed

lemma answers_page_ok:
  assumes "page_ok s" "ends_are_seen ((case jp_job s of None \<Rightarrow> [] | Some k \<Rightarrow> [k]) @ map snd as)"
  shows "page_ok (fold (job_answer t u) as s)"
  using assms
proof (induction as arbitrary: s)
  case (Cons a as)
  obtain clock j where a: "a = (clock, j)" by (cases a)
  have next_job: "jp_job s = Some k \<Longrightarrow> jb_state k = Running \<Longrightarrow> jb_kind k = Compaction \<Longrightarrow> jb_kind j = Compaction" for k
    using Cons.prems(2) by (simp add: a)
  note step = answer_page_ok [where t = t and u = u and clock = clock, OF Cons.prems(1) next_job]
  have "ends_are_seen (j # map snd as)"
    using Cons.prems(2) by (cases "jp_job s") (simp_all add: a)
  then show ?case using Cons.IH [OF step(1)] step(2) by (simp add: a)
qed simp

text \<open>
  The notice that a compaction is running is up exactly while the last answer says one
  runs, and leaving the page takes it down, as long as no compaction's end goes unseen.
\<close>

theorem no_loading_left_behind:
  assumes "ends_are_seen (map snd answers)"
  shows "is_loading (compaction_notice (jp_notices (job_answers t u answers)))
      = (\<exists>j. jp_job (job_answers t u answers) = Some j \<and> jb_state j = Running \<and> jb_kind j = Compaction)
    \<and> \<not> is_loading (compaction_notice (jp_notices (leave_page (job_answers t u answers))))"
proof -
  have "page_ok empty_page" by (simp add: page_ok_def seen_ok_def empty_page_def compaction_notice_def)
  then have "page_ok (job_answers t u answers)"
    unfolding job_answers_def by (rule answers_page_ok) (simp add: assms empty_page_def)
  then show ?thesis by (auto simp: page_ok_def leave_page_def compaction_notice_def)
qed

definition sample_job :: "job_state \<Rightarrow> job_kind \<Rightarrow> cleanup_job" where
  "sample_job st k = \<lparr>jb_state = st, jb_kind = k, jb_started_at = None,
     jb_removed = \<lparr>cc_events = 0, cc_transactions = 0, cc_logs = 0, cc_spans = 0, cc_issues = 0, cc_maps = 0\<rparr>,
     jb_error = None\<rparr>"

theorem no_loading_left_behind_witness:
  "let s = job_answers (\<lambda>k v. k) (\<lambda>k n. k)
        [(''0:00'', sample_job Completed Cleanup), (''0:02'', sample_job Running Compaction)]
   in is_loading (compaction_notice (jp_notices s)) \<and> \<not> is_loading (compaction_notice (jp_notices (leave_page s)))"
proof -
  let ?as = "[(''0:00'', sample_job Completed Cleanup), (''0:02'', sample_job Running Compaction)]"
  have "ends_are_seen (map snd ?as)" by (simp add: sample_job_def)
  from no_loading_left_behind [OF this, of "\<lambda>k v. k" "\<lambda>k n. k"] show ?thesis
    by (simp add: job_answers_def job_answer_def job_effect_def sample_job_def empty_page_def)
qed

text \<open>
  Two polls apart a compaction may end and a cleanup start: its notice then stays up after the
  page is left.
\<close>

lemma unseen_end_leaves_the_notice:
  "is_loading (compaction_notice (jp_notices (leave_page (job_answers (\<lambda>k v. k) (\<lambda>k n. k)
     [(''0:00'', sample_job Running Compaction), (''0:02'', sample_job Running Cleanup), ([], sample_job Completed Cleanup)]))))"
  by (simp add: job_answers_def job_answer_def job_effect_def sample_job_def empty_page_def leave_page_def
      compaction_notice_def announce_job_def)

text \<open>
  A compaction reports no progress, so every answer while it runs is the same, the effect runs
  on the first only and the time in its notice stands still.
\<close>

lemma compaction_clock_stands:
  "jp_notices (job_answers t u [(''0:00'', sample_job Running Compaction), (''0:02'', sample_job Running Compaction),
     (''0:04'', sample_job Running Compaction)]) = [Loading (t ''toasts.compacting'' ''0:00'')]"
  by (simp add: job_answers_def job_answer_def job_effect_def sample_job_def empty_page_def)

section \<open>Retention being edited\<close>

text \<open>
  \<open>rd_update\<close> and \<open>rd_run\<close> are the two mutations: what is pending, with the callbacks of the
  call. \<open>rd_done\<close> are the calls of \<open>onDone\<close>, each with the cleanup started, if any.
\<close>

datatype storage_request = Save_settings retention_settings | Run_retention

record retention_draft =
  rd_draft :: retention_settings
  rd_update :: "bool option"  \<comment> \<open>saving, then cleaning?\<close>
  rd_run :: bool
  rd_notices :: "notice list"
  rd_done :: "cleanup_job option list"
  rd_requests :: "storage_request list"

definition open_retention :: "retention_settings \<Rightarrow> retention_draft" where
  "open_retention initial =
     \<lparr>rd_draft = initial, rd_update = None, rd_run = False, rd_notices = [], rd_done = [], rd_requests = []\<rparr>"

definition isPending :: "retention_draft \<Rightarrow> bool" where
  "isPending s \<longleftrightarrow> rd_update s \<noteq> None \<or> rd_run s"

definition startCleanup :: "retention_draft \<Rightarrow> retention_draft" where
  "startCleanup s = s\<lparr>rd_run := True, rd_requests := rd_requests s @ [Run_retention]\<rparr>"

definition save :: "bool \<Rightarrow> retention_draft \<Rightarrow> retention_draft" where
  "save cleanNow s = s\<lparr>rd_update := Some cleanNow, rd_requests := rd_requests s @ [Save_settings (rd_draft s)]\<rparr>"

text \<open>The answer to the save.\<close>

definition update_answered :: "(string \<Rightarrow> string \<Rightarrow> string) \<Rightarrow> bool \<Rightarrow> retention_draft \<Rightarrow> retention_draft" where
  "update_answered t ok s =
     (case rd_update s of None \<Rightarrow> s
      | Some cleanNow \<Rightarrow>
          let s1 = s\<lparr>rd_update := None\<rparr>
          in if \<not> ok then s1\<lparr>rd_notices := rd_notices s1 @ [Failure False (t ''dialog.saveFailed'' []) None]\<rparr>
             else if cleanNow then startCleanup s1
             else s1\<lparr>rd_notices := rd_notices s1 @ [Success False (t ''dialog.saved'' [])],
                     rd_done := rd_done s1 @ [None]\<rparr>)"

text \<open>The answer to the start of the cleanup: the job, or the kind of the error.\<close>

definition run_answered ::
  "(string \<Rightarrow> string \<Rightarrow> string) \<Rightarrow> error_kind + cleanup_job \<Rightarrow> retention_draft \<Rightarrow> retention_draft" where
  "run_answered t answer s =
     (if \<not> rd_run s then s
      else let s1 = s\<lparr>rd_run := False\<rparr>
      in case answer of
           Inr job \<Rightarrow> s1\<lparr>rd_done := rd_done s1 @ [Some job]\<rparr>
         | Inl kind \<Rightarrow>
             s1\<lparr>rd_notices := rd_notices s1 @
                  [Failure False (t ''toasts.cleanupFailed'' [])
                     (if kind = K_conflict then Some (t ''dialog.alreadyRunning'' []) else None)],
                rd_done := rd_done s1 @ [None]\<rparr>)"

text \<open>The inputs and buttons are off while something is pending.\<close>

datatype retention_event =
    Set_draft retention_settings
  | Save bool
  | Update_answer bool
  | Run_answer "error_kind + cleanup_job"

fun retention_step :: "(string \<Rightarrow> string \<Rightarrow> string) \<Rightarrow> retention_event \<Rightarrow> retention_draft \<Rightarrow> retention_draft" where
  "retention_step t (Set_draft d) s = (if isPending s then s else s\<lparr>rd_draft := d\<rparr>)"
| "retention_step t (Save cleanNow) s = (if isPending s then s else save cleanNow s)"
| "retention_step t (Update_answer ok) s = update_answered t ok s"
| "retention_step t (Run_answer answer) s = run_answered t answer s"

definition retention_after :: "(string \<Rightarrow> string \<Rightarrow> string) \<Rightarrow> retention_event list \<Rightarrow> retention_draft \<Rightarrow> retention_draft" where
  "retention_after t = fold (retention_step t)"

section \<open>Nothing is deleted by settings that were not saved\<close>

text \<open>Each start of a cleanup comes right after the save of the settings it enforces.\<close>

fun runs_follow_saves :: "storage_request list \<Rightarrow> bool" where
  "runs_follow_saves [] = True"
| "runs_follow_saves (Run_retention # rs) = False"
| "runs_follow_saves (Save_settings d # Run_retention # rs) = runs_follow_saves rs"
| "runs_follow_saves (Save_settings d # rs) = runs_follow_saves rs"

definition is_save :: "storage_request \<Rightarrow> bool" where
  "is_save r = (case r of Save_settings _ \<Rightarrow> True | _ \<Rightarrow> False)"

text \<open>A run may follow only a save that is the last request.\<close>

definition ends_with_save :: "storage_request list \<Rightarrow> retention_settings \<Rightarrow> bool" where
  "ends_with_save rs d \<longleftrightarrow> (\<exists>qs. rs = qs @ [Save_settings d] \<and> runs_follow_saves qs)"

lemma runs_follow_append:
  assumes "runs_follow_saves rs"
  shows "runs_follow_saves (rs @ [Save_settings d])" "runs_follow_saves (rs @ [Save_settings d, Run_retention])"
  using assms by (induction rs rule: runs_follow_saves.induct) auto

text \<open>
  While a save is pending the last request saved the draft that stands; while a cleanup is
  being started, the two last requests saved that draft and started it.
\<close>

definition draft_ok :: "retention_draft \<Rightarrow> bool" where
  "draft_ok s \<longleftrightarrow> runs_follow_saves (rd_requests s)
     \<and> (rd_update s \<noteq> None \<longrightarrow> ends_with_save (rd_requests s) (rd_draft s) \<and> \<not> rd_run s)
     \<and> length (rd_done s) + (if isPending s then 1 else 0) \<le> length (filter is_save (rd_requests s))"

lemma step_draft_ok:
  assumes "draft_ok s"
  shows "draft_ok (retention_step t ev s)"
proof (cases ev)
  case (Set_draft d)
  then show ?thesis using assms by (auto simp: draft_ok_def isPending_def)
next
  case (Save cleanNow)
  show ?thesis
  proof (cases "isPending s")
    case False
    then show ?thesis using assms Save runs_follow_append(1)
      by (auto simp: draft_ok_def save_def isPending_def ends_with_save_def is_save_def)
  qed (use assms Save in simp)
next
  case (Update_answer ok)
  show ?thesis
  proof (cases "rd_update s")
    case (Some cleanNow)
    then obtain qs where qs: "rd_requests s = qs @ [Save_settings (rd_draft s)]" "runs_follow_saves qs" "\<not> rd_run s"
      using assms by (auto simp: draft_ok_def ends_with_save_def)
    then show ?thesis using assms Update_answer Some runs_follow_append [OF qs(2)]
      by (auto simp: draft_ok_def update_answered_def startCleanup_def isPending_def Let_def is_save_def)
  qed (use assms Update_answer in \<open>simp add: update_answered_def\<close>)
next
  case (Run_answer answer)
  then show ?thesis using assms
    by (auto simp: draft_ok_def run_answered_def isPending_def Let_def split: sum.splits)
qed

lemma after_draft_ok: "draft_ok s \<Longrightarrow> draft_ok (retention_after t evs s)"
  unfolding retention_after_def by (induction evs arbitrary: s) (simp_all add: step_draft_ok)

text \<open>
  A cleanup is only ever started right after the settings it enforces were saved, whatever
  is clicked and however the answers come; and the dialog reports back at most once for each
  save, and not while one is pending.
\<close>

theorem cleanup_follows_its_save:
  "runs_follow_saves (rd_requests (retention_after t evs (open_retention initial)))
   \<and> length (rd_done (retention_after t evs (open_retention initial)))
       + (if isPending (retention_after t evs (open_retention initial)) then 1 else 0)
     \<le> length (filter is_save (rd_requests (retention_after t evs (open_retention initial))))"
  using after_draft_ok [of "open_retention initial" t evs]
  by (simp add: draft_ok_def open_retention_def isPending_def)

text \<open>Saving and cleaning in one click, answered: both requests, and the job is handed on.\<close>

lemma save_and_clean:
  "rd_requests (retention_after t [Set_draft d, Save True, Update_answer True, Run_answer (Inr job)] (open_retention i))
     = [Save_settings d, Run_retention]"
  "rd_done (retention_after t [Set_draft d, Save True, Update_answer True, Run_answer (Inr job)] (open_retention i)) = [Some job]"
  by (simp_all add: retention_after_def open_retention_def isPending_def save_def update_answered_def startCleanup_def
      run_answered_def)

end
