(* ===== verification/Charts.thy ===== *)
theory Charts
  imports JsBase
begin

text \<open>
  Where things are drawn: \<open>shared/lib/waterfall-geometry.ts\<close> (a bar on the window its rows
  share), \<open>shared/lib/time-axis.ts\<close> (the axis of charts over time buckets),
  \<open>shared/ui/components/data-table/sizing.ts\<close> (the width of every column) and the arithmetic of
  \<open>shared/lib/chart-format.ts\<close>. Numbers are exact rationals.
\<close>

section \<open>Bars\<close>

record bar_geometry =
  offsetPct :: rat
  widthPct :: rat

definition MIN_VISIBLE_PCT :: rat where
  "MIN_VISIBLE_PCT = 1 / 2"

definition barGeometry :: "rat option \<Rightarrow> rat option \<Rightarrow> rat \<Rightarrow> rat \<Rightarrow> bar_geometry" where
  "barGeometry startAt duration windowStart windowSize =
     (if windowSize \<le> 0 then \<lparr>offsetPct = 0, widthPct = 0\<rparr>
      else
        let rawOffsetPct = (case startAt of None \<Rightarrow> 0 | Some x \<Rightarrow> ((x - windowStart) / windowSize) * 100);
            rawWidthPct = (case duration of None \<Rightarrow> 0 | Some d \<Rightarrow> max MIN_VISIBLE_PCT ((d / windowSize) * 100));
            offset = min 100 (max 0 rawOffsetPct)
        in \<lparr>offsetPct = offset, widthPct = max 0 (min rawWidthPct (100 - offset))\<rparr>)"

text \<open>A bar never leaves the track, however skewed the clock that reported it.\<close>

lemma bar_on_the_track:
  "0 \<le> offsetPct (barGeometry s d ws sz)" "0 \<le> widthPct (barGeometry s d ws sz)"
  "offsetPct (barGeometry s d ws sz) + widthPct (barGeometry s d ws sz) \<le> 100"
  by (auto simp: barGeometry_def Let_def)

text \<open>A span inside the window is drawn where it is, at least as wide as can be seen.\<close>

lemma bar_inside:
  assumes "0 < sz" "ws \<le> s" "0 \<le> d" "s + d \<le> ws + sz"
  shows "offsetPct (barGeometry (Some s) (Some d) ws sz) = (s - ws) / sz * 100"
    "MIN_VISIBLE_PCT \<le> d / sz * 100 \<Longrightarrow> widthPct (barGeometry (Some s) (Some d) ws sz) = d / sz * 100"
proof -
  have o: "0 \<le> (s - ws) / sz * 100" "(s - ws) / sz * 100 + d / sz * 100 \<le> 100" "0 \<le> d / sz * 100"
    using assms by (simp_all add: field_simps)
  then have "(s - ws) / sz * 100 \<le> 100" by linarith
  then show "offsetPct (barGeometry (Some s) (Some d) ws sz) = (s - ws) / sz * 100"
    using o assms by (simp add: barGeometry_def Let_def)
  then show "widthPct (barGeometry (Some s) (Some d) ws sz) = d / sz * 100" if "MIN_VISIBLE_PCT \<le> d / sz * 100"
    using o assms that \<open>(s - ws) / sz * 100 \<le> 100\<close> by (simp add: barGeometry_def Let_def max_def min_def)
qed

section \<open>Time axes\<close>

definition HOUR_MS :: rat where "HOUR_MS = 3600000"
definition DAY_MS :: rat where "DAY_MS = 24 * HOUR_MS"

text \<open>The narrowest gap between neighbours; \<open>None\<close> is infinity.\<close>

fun narrowest_gap :: "rat list \<Rightarrow> rat option" where
  "narrowest_gap (a # b # ts) =
     (case narrowest_gap (b # ts) of None \<Rightarrow> Some (b - a) | Some g \<Rightarrow> Some (min (b - a) g))"
| "narrowest_gap _ = None"

definition bucketWidth :: "rat list \<Rightarrow> rat option \<Rightarrow> rat" where
  "bucketWidth instants intervalHours =
     (case intervalHours of
        Some h \<Rightarrow> if h > 0 then h * HOUR_MS
                  else (case narrowest_gap instants of Some g \<Rightarrow> if g > 0 then g else HOUR_MS | None \<Rightarrow> HOUR_MS)
      | None \<Rightarrow> (case narrowest_gap instants of Some g \<Rightarrow> if g > 0 then g else HOUR_MS | None \<Rightarrow> HOUR_MS))"

record time_axis =
  ax_domain :: "rat \<times> rat"
  ax_ticks :: "rat list"
  ax_day_wide :: bool  \<comment> \<open>\<open>format\<close> is \<open>axisDay\<close> and \<open>captionFormat\<close> is \<open>date\<close>, else the instants\<close>
  ax_utc :: bool  \<comment> \<open>\<open>zone\<close> is UTC\<close>

definition on_midnight :: "rat \<Rightarrow> bool" where
  "on_midnight t \<longleftrightarrow> t / DAY_MS = of_int \<lfloor>t / DAY_MS\<rfloor>"

definition labels_day_wide :: "rat \<Rightarrow> bool" where
  "labels_day_wide bucketMs \<longleftrightarrow> bucketMs \<ge> DAY_MS"

definition labels_utc :: "rat list \<Rightarrow> rat \<Rightarrow> bool" where
  "labels_utc instants bucketMs \<longleftrightarrow> labels_day_wide bucketMs \<and> list_all on_midnight instants"

definition padded :: "rat list \<Rightarrow> rat \<Rightarrow> rat \<times> rat" where
  "padded instants pad = (if instants \<noteq> [] then (hd instants - pad, List.last instants + pad) else (0, 0))"

definition timeBarAxis :: "rat list \<Rightarrow> rat \<Rightarrow> time_axis" where
  "timeBarAxis instants bucketMs =
     \<lparr>ax_domain = padded instants (bucketMs / 2), ax_ticks = instants,
      ax_day_wide = labels_day_wide bucketMs, ax_utc = labels_utc instants bucketMs\<rparr>"

definition timeLineAxis :: "rat list \<Rightarrow> rat \<Rightarrow> time_axis" where
  "timeLineAxis instants bucketMs =
     \<lparr>ax_domain = padded instants 0, ax_ticks = instants,
      ax_day_wide = labels_day_wide bucketMs, ax_utc = labels_utc instants bucketMs\<rparr>"

lemma gap_positive: "sorted_wrt (<) instants \<Longrightarrow> narrowest_gap instants = Some g \<Longrightarrow> 0 < g"
  by (induction instants arbitrary: g rule: narrowest_gap.induct) (auto split: option.splits)

lemma gap_narrowest:
  "i + 1 < length instants \<Longrightarrow> \<exists>g. narrowest_gap instants = Some g \<and> g \<le> instants ! (i + 1) - instants ! i"
proof (induction instants arbitrary: i rule: narrowest_gap.induct)
  case (1 a b ts)
  show ?case
  proof (cases i)
    case 0 then show ?thesis by (cases "narrowest_gap (b # ts)") auto
  next
    case (Suc j)
    then obtain g where "narrowest_gap (b # ts) = Some g" "g \<le> (b # ts) ! (j + 1) - (b # ts) ! j"
      using 1 by auto
    then show ?thesis using Suc by auto
  qed
qed auto

text \<open>
  Bars of the axis keep their full width inside the plot and do not overlap: each is half a
  bucket to both sides of its tick, and neighbours are a bucket apart at least.
\<close>

lemma bars_fit:
  assumes asc: "sorted_wrt (<) instants" and t: "t \<in> set instants" and b: "0 \<le> b"
  shows "fst (ax_domain (timeBarAxis instants b)) \<le> t - b / 2" "t + b / 2 \<le> snd (ax_domain (timeBarAxis instants b))"
proof -
  obtain i where i: "i < length instants" "t = instants ! i" using t by (auto simp: in_set_conv_nth)
  have ne: "instants \<noteq> []" using t by auto
  have "hd instants \<le> t"
    using i sorted_wrt_nth_less [OF asc, of 0 i] by (cases "i = 0") (auto simp: hd_conv_nth [OF ne])
  moreover have "t \<le> List.last instants"
  proof (cases "i = length instants - 1")
    case False
    then have "instants ! i < instants ! (length instants - 1)"
      by (intro sorted_wrt_nth_less [OF asc]) (use i in auto)
    then show ?thesis using i by (simp add: last_conv_nth [OF ne])
  qed (use i in \<open>simp add: last_conv_nth [OF ne]\<close>)
  ultimately have "hd instants \<le> t" "t \<le> List.last instants" by auto
  then show "fst (ax_domain (timeBarAxis instants b)) \<le> t - b / 2" "t + b / 2 \<le> snd (ax_domain (timeBarAxis instants b))"
    using t by (auto simp: timeBarAxis_def padded_def)
qed

lemma bucket_width_positive: "0 < bucketWidth instants h"
  by (auto simp: bucketWidth_def HOUR_MS_def split: option.splits)

lemma bars_apart:
  assumes "sorted_wrt (<) instants" "i + 1 < length instants"
  shows "instants ! i + bucketWidth instants None / 2 \<le> instants ! (i + 1) - bucketWidth instants None / 2"
proof -
  obtain g where g: "narrowest_gap instants = Some g" "g \<le> instants ! (i + 1) - instants ! i" "0 < g"
    using gap_narrowest [OF assms(2)] gap_positive [OF assms(1)] by auto
  then have "bucketWidth instants None = g" by (simp add: bucketWidth_def)
  then show ?thesis using g by (simp add: field_simps)
qed

section \<open>The width of every column\<close>

datatype tier = T_sm | T_md | T_lg | T_xl

definition TIERS :: "tier list" where
  "TIERS = [T_sm, T_md, T_lg, T_xl]"

fun MIN_WIDTH_PX :: "tier \<Rightarrow> int" where
  "MIN_WIDTH_PX T_sm = 640"
| "MIN_WIDTH_PX T_md = 768"
| "MIN_WIDTH_PX T_lg = 1024"
| "MIN_WIDTH_PX T_xl = 1280"

text \<open>\<open>sync\<close>: the tiers a viewport is wide enough for.\<close>

definition visible_tiers :: "int \<Rightarrow> tier set" where
  "visible_tiers viewport = set (filter (\<lambda>t. viewport \<ge> MIN_WIDTH_PX t) TIERS)"

text \<open>A column's \<open>getSize\<close> and \<open>minSize\<close> are in the units of the container.\<close>

record leaf_column =
  lc_id :: string
  lc_size :: int
  lc_minSize :: "int option"
  lc_grow :: bool
  lc_hideBelow :: "tier option"

record column_layout =
  cy_widths :: "(string \<times> int) list"
  cy_totalWidth :: int
  cy_fillerWidth :: int

definition on_screen :: "tier set \<Rightarrow> leaf_column \<Rightarrow> bool" where
  "on_screen visibleTiers c \<longleftrightarrow> (case lc_hideBelow c of None \<Rightarrow> True | Some t \<Rightarrow> t \<in> visibleTiers)"

text \<open>The first pass: the widths set, the growing columns with their floors, the fixed total.\<close>

fun size_columns ::
  "tier set \<Rightarrow> leaf_column list \<Rightarrow> (string \<times> int) list \<times> (string \<times> int) list \<times> int
   \<Rightarrow> (string \<times> int) list \<times> (string \<times> int) list \<times> int" where
  "size_columns vt [] acc = acc"
| "size_columns vt (c # cs) (widths, growing, fixedTotal) =
     (if \<not> on_screen vt c then size_columns vt cs (map_put (lc_id c) (lc_size c) widths, growing, fixedTotal)
      else if lc_grow c
      then size_columns vt cs (widths, growing @ [(lc_id c, case lc_minSize c of None \<Rightarrow> 0 | Some m \<Rightarrow> m)], fixedTotal)
      else size_columns vt cs (map_put (lc_id c) (lc_size c) widths, growing, fixedTotal + lc_size c))"

text \<open>The growing columns: a share each, the last one with the remainder, down to their floors.\<close>

fun grow_columns :: "int \<Rightarrow> int \<Rightarrow> nat \<Rightarrow> (string \<times> int) list \<Rightarrow> (string \<times> int) list \<Rightarrow> (string \<times> int) list" where
  "grow_columns leftover share n [] widths = widths"
| "grow_columns leftover share n ((i, floor_width) # gs) widths =
     (let width = (if gs = [] then leftover - share * int (n - 1) else share)
      in grow_columns leftover share n gs (map_put i (max floor_width width) widths))"

definition columnLayout :: "leaf_column list \<Rightarrow> int \<Rightarrow> tier set \<Rightarrow> column_layout" where
  "columnLayout columns available visibleTiers =
     (case size_columns visibleTiers columns ([], [], 0) of
        (widths0, growing, fixedTotal) \<Rightarrow>
          let leftover = max 0 (available - fixedTotal);
              n = length growing;
              widths = (if n > 0 then grow_columns leftover (leftover div int n) n growing widths0 else widths0);
              totalWidth = foldl (\<lambda>s c. if on_screen visibleTiers c
                             then s + (case map_of widths (lc_id c) of Some w \<Rightarrow> w | None \<Rightarrow> 0) else s) 0 columns
          in \<lparr>cy_widths = widths, cy_totalWidth = totalWidth,
              cy_fillerWidth = (if available > 0 then max 0 (available - totalWidth) else 0)\<rparr>)"

definition fixed_on :: "tier set \<Rightarrow> leaf_column \<Rightarrow> bool" where
  "fixed_on vt c \<longleftrightarrow> on_screen vt c \<and> \<not> lc_grow c"

definition growing_on :: "tier set \<Rightarrow> leaf_column \<Rightarrow> bool" where
  "growing_on vt c \<longleftrightarrow> on_screen vt c \<and> lc_grow c"

definition floor_of :: "leaf_column \<Rightarrow> int" where
  "floor_of c = (case lc_minSize c of None \<Rightarrow> 0 | Some m \<Rightarrow> m)"

definition put_all :: "(string \<times> int) list \<Rightarrow> (string \<times> int) list \<Rightarrow> (string \<times> int) list" where
  "put_all m ps = foldl (\<lambda>m (k, v). map_put k v m) m ps"

fun shares :: "int \<Rightarrow> int \<Rightarrow> nat \<Rightarrow> (string \<times> int) list \<Rightarrow> (string \<times> int) list" where
  "shares leftover share n [] = []"
| "shares leftover share n ((i, f) # gs) =
     (i, max f (if gs = [] then leftover - share * int (n - 1) else share)) # shares leftover share n gs"

lemma size_columns_eq:
  "size_columns vt cs (ws, gs, f) =
     (put_all ws (map (\<lambda>c. (lc_id c, lc_size c)) (filter (\<lambda>c. \<not> growing_on vt c) cs)),
      gs @ map (\<lambda>c. (lc_id c, floor_of c)) (filter (growing_on vt) cs),
      f + sum_list (map lc_size (filter (fixed_on vt) cs)))"
proof (induction cs arbitrary: ws gs f)
  case (Cons c cs)
  then show ?case
    by (cases "on_screen vt c"; cases "lc_grow c")
       (simp_all add: fixed_on_def growing_on_def floor_of_def put_all_def)
qed (simp add: put_all_def)

lemma grow_columns_eq: "grow_columns l s n gs ws = put_all ws (shares l s n gs)"
  by (induction gs arbitrary: ws) (auto simp: put_all_def Let_def)

lemma shares_keys: "map fst (shares l s n gs) = map fst gs"
  by (induction gs) auto

lemma put_all_lookup:
  assumes "distinct (map fst ps)"
  shows "map_of (put_all m ps) k = (case map_of ps k of Some v \<Rightarrow> Some v | None \<Rightarrow> map_of m k)"
  unfolding put_all_def using assms
proof (induction ps arbitrary: m)
  case (Cons p ps)
  obtain j v where p: "p = (j, v)" by (cases p)
  have "j \<notin> fst ` set ps" using Cons.prems by (simp add: p)
  then have "map_of ps j = None" by (simp add: map_of_eq_None_iff)
  then show ?case using Cons by (auto simp: p map_put_lookup split: option.splits)
qed simp

text \<open>The shares cover what is left over, and are it exactly when no floor is in the way.\<close>

lemma shares_sum:
  assumes "gs \<noteq> []" "length gs \<le> n"
  shows "l - s * (int n - int (length gs)) \<le> sum_list (map snd (shares l s n gs))"
    "list_all (\<lambda>(i, f). f \<le> s \<and> f \<le> l - s * (int n - 1)) gs \<Longrightarrow>
      sum_list (map snd (shares l s n gs)) = l - s * (int n - int (length gs))"
proof -
  have "l - s * (int n - int (length gs)) \<le> sum_list (map snd (shares l s n gs)) \<and>
    (list_all (\<lambda>(i, f). f \<le> s \<and> f \<le> l - s * (int n - 1)) gs \<longrightarrow>
      sum_list (map snd (shares l s n gs)) = l - s * (int n - int (length gs)))"
    using assms
  proof (induction gs)
    case (Cons g gs)
    obtain i f where g: "g = (i, f)" by (cases g)
    have n: "int (n - Suc 0) = int n - 1" using Cons.prems by auto
    show ?case
    proof (cases "gs = []")
      case False
      then show ?thesis using Cons.IH Cons.prems by (auto simp: g algebra_simps max_def)
    qed (simp add: g n max_def)
  qed simp
  then show "l - s * (int n - int (length gs)) \<le> sum_list (map snd (shares l s n gs))"
    "list_all (\<lambda>(i, f). f \<le> s \<and> f \<le> l - s * (int n - 1)) gs \<Longrightarrow>
      sum_list (map snd (shares l s n gs)) = l - s * (int n - int (length gs))" by blast+
qed

definition width_after :: "tier set \<Rightarrow> leaf_column list \<Rightarrow> int \<Rightarrow> (string \<times> int) list" where
  "width_after vt cs available =
     (let growing = map (\<lambda>c. (lc_id c, floor_of c)) (filter (growing_on vt) cs);
          fixedTotal = sum_list (map lc_size (filter (fixed_on vt) cs));
          leftover = max 0 (available - fixedTotal); n = length growing
      in put_all (put_all [] (map (\<lambda>c. (lc_id c, lc_size c)) (filter (\<lambda>c. \<not> growing_on vt c) cs)))
           (shares leftover (leftover div int n) n growing))"

lemma layout_widths: "cy_widths (columnLayout cs available vt) = width_after vt cs available"
  by (cases "filter (growing_on vt) cs = []")
     (simp_all add: columnLayout_def size_columns_eq grow_columns_eq width_after_def Let_def put_all_def [of _ "[]"])

lemma total_sum:
  "foldl (\<lambda>s c. if P c then s + f c else s) z cs = z + sum_list (map f (filter P cs))" for z :: int
  by (induction cs arbitrary: z) auto

lemma layout_total:
  "cy_totalWidth (columnLayout cs available vt) =
     sum_list (map (\<lambda>c. case map_of (width_after vt cs available) (lc_id c) of Some w \<Rightarrow> w | None \<Rightarrow> 0)
       (filter (on_screen vt) cs))"
  unfolding layout_widths [symmetric]
  by (simp add: columnLayout_def total_sum Let_def split: prod.splits)

lemma filler_eq:
  "cy_fillerWidth (columnLayout cs available vt) =
     (if available > 0 then max 0 (available - cy_totalWidth (columnLayout cs available vt)) else 0)"
  unfolding columnLayout_def Let_def by (simp only: split_beta column_layout.simps)

lemma width_of_column:
  fixes vt :: "tier set" and available :: int
  assumes d: "distinct (map lc_id cs)" and c: "c \<in> set cs"
  defines "growing \<equiv> map (\<lambda>c. (lc_id c, floor_of c)) (filter (growing_on vt) cs)"
  defines "l \<equiv> max 0 (available - sum_list (map lc_size (filter (fixed_on vt) cs)))"
  shows "map_of (width_after vt cs available) (lc_id c) =
    (if growing_on vt c then map_of (shares l (l div int (length growing)) (length growing) growing) (lc_id c)
     else Some (lc_size c))"
proof -
  let ?sh = "shares l (l div int (length growing)) (length growing) growing"
  let ?fx = "map (\<lambda>c. (lc_id c, lc_size c)) (filter (\<lambda>c. \<not> growing_on vt c) cs)"
  have inj: "c1 = c2" if "c1 \<in> set cs" "c2 \<in> set cs" "lc_id c1 = lc_id c2" for c1 c2
    using d that by (auto simp: distinct_map inj_on_def)
  have keys: "map fst ?sh = map lc_id (filter (growing_on vt) cs)"
    by (simp add: shares_keys growing_def comp_def)
  then have ds: "distinct (map fst ?sh)" using d by (simp add: distinct_map_filter)
  have df: "distinct (map fst ?fx)" using d by (simp add: comp_def distinct_map_filter)
  have w: "map_of (width_after vt cs available) k =
      (case map_of ?sh k of Some v \<Rightarrow> Some v | None \<Rightarrow> map_of (put_all [] ?fx) k)" for k
    using put_all_lookup [OF ds] by (simp add: width_after_def growing_def l_def Let_def)
  have mem: "map_of ?sh (lc_id c) \<noteq> None \<longleftrightarrow> growing_on vt c"
  proof -
    have "map_of ?sh (lc_id c) \<noteq> None \<longleftrightarrow> lc_id c \<in> set (map fst ?sh)" by (simp add: map_of_eq_None_iff)
    then show ?thesis unfolding keys using c inj by auto
  qed
  show ?thesis
  proof (cases "growing_on vt c")
    case True then show ?thesis using mem w by (auto split: option.splits)
  next
    case False
    then have "(lc_id c, lc_size c) \<in> set ?fx" using c by auto
    then have "map_of ?fx (lc_id c) = Some (lc_size c)" using df by (simp add: map_of_is_SomeI)
    then show ?thesis using False mem w put_all_lookup [OF df] by simp
  qed
qed

lemma sum_lookup:
  fixes ps :: "(string \<times> int) list"
  assumes "distinct (map fst ps)"
  shows "sum_list (map (\<lambda>k. case map_of ps k of Some w \<Rightarrow> w | None \<Rightarrow> 0) (map fst ps)) = sum_list (map snd ps)"
proof -
  have "map (\<lambda>k. case map_of ps k of Some w \<Rightarrow> w | None \<Rightarrow> 0) (map fst ps) = map snd ps"
    using assms by (auto simp: comp_def intro!: map_cong)
  then show ?thesis by metis
qed

lemma total_split:
  fixes vt :: "tier set" and available :: int
  assumes d: "distinct (map lc_id cs)"
  defines "growing \<equiv> map (\<lambda>c. (lc_id c, floor_of c)) (filter (growing_on vt) cs)"
  defines "fx \<equiv> sum_list (map lc_size (filter (fixed_on vt) cs))"
  defines "l \<equiv> max 0 (available - fx)"
  shows "cy_totalWidth (columnLayout cs available vt) =
    fx + sum_list (map snd (shares l (l div int (length growing)) (length growing) growing))"
proof -
  let ?w = "\<lambda>c. case map_of (width_after vt cs available) (lc_id c) of Some w \<Rightarrow> w | None \<Rightarrow> 0"
  let ?sh = "shares l (l div int (length growing)) (length growing) growing"
  have split: "sum_list (map f (filter (on_screen vt) xs)) =
      sum_list (map f (filter (fixed_on vt) xs)) + sum_list (map f (filter (growing_on vt) xs))" for f :: "leaf_column \<Rightarrow> int" and xs
    by (induction xs) (auto simp: fixed_on_def growing_on_def)
  have "map ?w (filter (fixed_on vt) cs) = map lc_size (filter (fixed_on vt) cs)"
    using width_of_column [OF d] by (auto simp: fixed_on_def growing_on_def)
  moreover have "map ?w (filter (growing_on vt) cs) =
      map (\<lambda>k. case map_of ?sh k of Some w \<Rightarrow> w | None \<Rightarrow> 0) (map fst ?sh)"
    using width_of_column [OF d, of _ vt available]
    by (auto simp: shares_keys growing_def l_def fx_def comp_def)
  moreover have "distinct (map fst ?sh)"
    using d by (simp add: shares_keys growing_def comp_def distinct_map_filter)
  ultimately have "sum_list (map ?w (filter (fixed_on vt) cs)) = fx"
      "sum_list (map ?w (filter (growing_on vt) cs)) = sum_list (map snd ?sh)"
    using sum_lookup [of ?sh] unfolding fx_def by metis+
  then show ?thesis unfolding layout_total split by metis
qed

text \<open>
  A table with a growing column on screen never stops short of its container, and fills it to
  the pixel when the fixed columns leave every growing one its floor.
\<close>

lemma columns_fill_the_container:
  assumes d: "distinct (map lc_id cs)" and g: "\<exists>c \<in> set cs. growing_on vt c"
  defines "fx \<equiv> sum_list (map lc_size (filter (fixed_on vt) cs))"
  defines "n \<equiv> int (length (filter (growing_on vt) cs))"
  shows "available \<le> cy_totalWidth (columnLayout cs available vt)"
    "fx \<le> available \<Longrightarrow> list_all (\<lambda>c. growing_on vt c \<longrightarrow> floor_of c \<le> (available - fx) div n) cs \<Longrightarrow>
       cy_totalWidth (columnLayout cs available vt) = available \<and> cy_fillerWidth (columnLayout cs available vt) = 0"
proof -
  define gs where "gs = map (\<lambda>c. (lc_id c, floor_of c)) (filter (growing_on vt) cs)"
  define l where "l = max 0 (available - fx)"
  have gs: "gs \<noteq> []" "n = int (length gs)" "0 < n" using g by (auto simp: gs_def n_def filter_empty_conv)
  have total: "cy_totalWidth (columnLayout cs available vt) =
      fx + sum_list (map snd (shares l (l div n) (length gs) gs))"
    using total_split [OF d, of available vt] by (simp add: gs_def l_def fx_def n_def)
  show "available \<le> cy_totalWidth (columnLayout cs available vt)"
    using shares_sum(1) [OF gs(1), of "length gs" l "l div n"] total by (simp add: l_def)
  assume fits: "fx \<le> available" and floors: "list_all (\<lambda>c. growing_on vt c \<longrightarrow> floor_of c \<le> (available - fx) div n) cs"
  have l: "l = available - fx" using fits by (simp add: l_def)
  have "l div n \<le> l - l div n * (n - 1)"
  proof -
    have "l mod n + l div n * n = l" "0 \<le> l mod n" using gs(3) by simp_all
    then have "l div n * n \<le> l" by linarith
    then show ?thesis by (simp add: algebra_simps)
  qed
  then have "list_all (\<lambda>(i, f). f \<le> l div n \<and> f \<le> l - l div n * (int (length gs) - 1)) gs"
    using floors gs(2) by (force simp: gs_def list_all_iff l)
  from shares_sum(2) [OF gs(1) _ this] have "cy_totalWidth (columnLayout cs available vt) = available"
    using total by (simp add: l)
  then show "cy_totalWidth (columnLayout cs available vt) = available \<and> cy_fillerWidth (columnLayout cs available vt) = 0"
    by (simp add: filler_eq)
qed

section \<open>Change between two windows\<close>

definition percentChange :: "rat \<Rightarrow> rat option \<Rightarrow> rat option" where
  "percentChange current previous =
     (case previous of None \<Rightarrow> None | Some p \<Rightarrow> if p = 0 then None else Some ((current - p) / p))"

lemma change_restores: "percentChange current (Some p) = Some ch \<Longrightarrow> p * (1 + ch) = current"
  by (auto simp: percentChange_def field_simps split: if_splits)

end
