(* ===== verification/CommandBar.thy ===== *)
theory CommandBar
  imports JsBase
begin

text \<open>
  What the command palette offers and how it searches: \<open>shared/config/commands.ts\<close> (its rows),
  \<open>shared/lib/command-score.ts\<close> (how a row is matched and ranked) and the matches of
  \<open>command-bar/results/results-list.tsx\<close>. The translator is an argument; icons are left out. Text is
  Latin-1. \<open>Palette\<close> has the dialog and its keyboard.
\<close>

section \<open>The rows\<close>

text \<open>\<open>cm_href\<close> is a link's address, or a project page's segment.\<close>

record command_link =
  cm_labelKey :: string
  cm_href :: string
  cm_descriptionKey :: string
  cm_keywords :: "string list"

definition command :: "string \<Rightarrow> string \<Rightarrow> string \<Rightarrow> string list \<Rightarrow> command_link" where
  "command label href description keywords =
     \<lparr>cm_labelKey = label, cm_href = href, cm_descriptionKey = description, cm_keywords = keywords\<rparr>"

record command_project =
  cp_id :: int
  cp_name :: string
  cp_platform :: "string option"

definition COMMAND_BAR_PROJECT_LIMIT :: nat where
  "COMMAND_BAR_PROJECT_LIMIT = 100"

definition PROJECT_PAGES :: "command_link list" where
  "PROJECT_PAGES =
     [command ''commands.overview'' [] ''commands.overviewDescription''
        [''overview'', ''dashboard'', ''home''],
      command ''commands.issues'' ''/issues'' ''commands.issuesDescription''
        [''issues'', ''errors'', ''exceptions'', ''crashes''],
      command ''commands.feedback'' ''/feedback'' ''commands.feedbackDescription''
        [''feedback'', ''user reports'', ''widget''],
      command ''commands.releases'' ''/releases'' ''commands.releasesDescription''
        [''releases'', ''deploys'', ''versions'', ''health'', ''sessions''],
      command ''commands.performance'' ''/performance'' ''commands.performanceDescription''
        [''performance'', ''apm'', ''transactions'', ''spans'', ''traces'', ''latency''],
      command ''commands.agents'' ''/agents'' ''commands.agentsDescription''
        [''agents'', ''ai'', ''llm'', ''traces''],
      command ''commands.logs'' ''/logs'' ''commands.logsDescription''
        [''logs'', ''stream''],
      command ''commands.crons'' ''/crons'' ''commands.cronsDescription''
        [''crons'', ''monitors'', ''check-ins'', ''heartbeat'', ''scheduled jobs'']]"

definition PROJECT_SETTINGS_PAGES :: "command_link list" where
  "PROJECT_SETTINGS_PAGES =
     [command ''commands.general'' ''/settings/general'' ''commands.generalDescription''
        [''rename'', ''slug'', ''delete''],
      command ''commands.alerts'' ''/alerts'' ''commands.alertsDescription''
        [''rules'', ''notifications''],
      command ''commands.clientKeys'' ''/settings/client-keys'' ''commands.clientKeysDescription''
        [''dsn'', ''sdk'', ''setup'', ''install'']]"

definition ALL_PROJECT_PAGES :: "command_link list" where
  "ALL_PROJECT_PAGES = PROJECT_PAGES @ PROJECT_SETTINGS_PAGES"

definition PROJECT_PAGE_COUNT :: nat where
  "PROJECT_PAGE_COUNT = length ALL_PROJECT_PAGES"

definition PROJECT_COMMANDS :: "command_link list" where
  "PROJECT_COMMANDS =
     [command ''commands.allProjects'' ''/projects'' ''commands.allProjectsDescription''
        [''list'', ''browse''],
      command ''commands.newProject'' ''/projects/new'' ''commands.newProjectDescription''
        [''create'', ''add'']]"

definition SETTINGS_COMMANDS :: "command_link list" where
  "SETTINGS_COMMANDS =
     [command ''commands.apiTokens'' ''/settings/tokens'' ''commands.apiTokensDescription''
        [''auth'', ''bearer'', ''secret''],
      command ''commands.integrations'' ''/settings/integrations'' ''commands.integrationsDescription''
        [''slack'', ''webhook'', ''custom webhook'', ''email''],
      command ''commands.team'' ''/settings/team'' ''commands.teamDescription''
        [''invite'', ''people''],
      command ''commands.storage'' ''/settings/storage'' ''commands.storageDescription''
        [''retention'', ''cleanup'', ''source maps'', ''disk''],
      command ''commands.account'' ''/settings/profile'' ''commands.accountDescription''
        [''profile'', ''password'', ''me'', ''logout''],
      command ''commands.appearance'' ''/settings/preferences'' ''commands.appearanceDescription''
        [''theme'', ''dark'', ''light''],
      command ''commands.about'' ''/settings/instance'' ''commands.aboutDescription''
        [''version'', ''build'']]"

section \<open>Text as the matcher sees it\<close>

text \<open>
  \<open>normalize('NFD')\<close> and the removal of \<open>\p{Diacritic}\<close>, on a lowercase Latin-1 character: a
  letter loses its accent, a mark that stands alone goes.
\<close>

definition fold_char :: "char \<Rightarrow> string" where
  "fold_char c =
     (let n = of_char c :: nat
      in if n \<in> {94, 96, 168, 175, 180, 183, 184} then []
         else if 224 \<le> n \<and> n \<le> 229 then ''a''
         else if n = 231 then ''c''
         else if 232 \<le> n \<and> n \<le> 235 then ''e''
         else if 236 \<le> n \<and> n \<le> 239 then ''i''
         else if n = 241 then ''n''
         else if 242 \<le> n \<and> n \<le> 246 then ''o''
         else if 249 \<le> n \<and> n \<le> 252 then ''u''
         else if n = 253 \<or> n = 255 then ''y''
         else [c])"

definition normalize_text :: "string \<Rightarrow> string" where
  "normalize_text s = concat (map fold_char (to_lower s))"

definition word_char :: "char \<Rightarrow> bool" where
  "word_char c \<longleftrightarrow> is_lower c \<or> is_digit c"

definition squash :: "string \<Rightarrow> string" where
  "squash s = filter word_char s"

text \<open>The non-empty pieces between runs of separators: \<open>split(/.../).filter(Boolean)\<close>.\<close>

fun pieces :: "(char \<Rightarrow> bool) \<Rightarrow> string \<Rightarrow> string \<Rightarrow> string list" where
  "pieces sep [] cur = (if cur = [] then [] else [cur])"
| "pieces sep (c # cs) cur =
     (if sep c then (if cur = [] then [] else [cur]) @ pieces sep cs [] else pieces sep cs (cur @ [c]))"

record forms =
  fm_target :: string
  fm_words :: "string list"
  fm_acronym :: string
  fm_squashed :: string

definition forms_of :: "string \<Rightarrow> forms" where
  "forms_of haystack =
     (let target = normalize_text haystack; ws = pieces (\<lambda>c. \<not> word_char c) target []
      in \<lparr>fm_target = target, fm_words = ws, fm_acronym = map hd ws, fm_squashed = concat ws\<rparr>)"

definition scoreTerm :: "forms \<Rightarrow> string \<Rightarrow> string \<Rightarrow> rat" where
  "scoreTerm f term squashedTerm =
     (let canCrossWords = length squashedTerm > 2
      in if starts_with term (fm_target f) then 1
         else if list_ex (\<lambda>w. starts_with term w) (fm_words f) then 4 / 5
         else if length term > 1 \<and> starts_with term (fm_acronym f) then 3 / 5
         else if canCrossWords \<and> starts_with squashedTerm (fm_squashed f) then 1 / 2
         else if str_includes term (fm_target f) then 3 / 10
         else if canCrossWords \<and> str_includes squashedTerm (fm_squashed f) then 1 / 5
         else 0)"

fun sum_terms :: "forms \<Rightarrow> string list \<Rightarrow> rat \<Rightarrow> rat option" where
  "sum_terms f [] sofar = Some sofar"
| "sum_terms f (term # ts) sofar =
     (let score = scoreTerm f term (squash term)
      in if score = 0 then None else sum_terms f ts (sofar + score))"

definition terms_of :: "string \<Rightarrow> string list" where
  "terms_of query = pieces is_ws (normalize_text query) []"

definition scoreCommand :: "string \<Rightarrow> string \<Rightarrow> rat" where
  "scoreCommand haystack query =
     (let ts = terms_of query
      in if ts = [] then 1
         else case sum_terms (forms_of haystack) ts 0 of
                None \<Rightarrow> 0
              | Some s \<Rightarrow> s / of_nat (length ts))"

definition filterCommand :: "string \<Rightarrow> string \<Rightarrow> string list \<Rightarrow> rat" where
  "filterCommand value search keywords = scoreCommand (join_with '' '' (value # keywords)) search"

section \<open>What a search finds\<close>

lemma str_includes_iff: "str_includes p s \<longleftrightarrow> (\<exists>a b. s = a @ p @ b)"
proof (induction s)
  case (Cons c s)
  show ?case
  proof
    assume "str_includes p (c # s)"
    then consider "starts_with p (c # s)" | "str_includes p s" by auto
    then show "\<exists>a b. c # s = a @ p @ b"
    proof cases
      case 1 then show ?thesis unfolding starts_with_iff by (metis append_Nil)
    next
      case 2 then show ?thesis using Cons.IH by (metis append_Cons)
    qed
  next
    assume "\<exists>a b. c # s = a @ p @ b"
    then obtain a b where ab: "c # s = a @ p @ b" by blast
    show "str_includes p (c # s)"
    proof (cases a)
      case Nil
      then have "starts_with p (c # s)" using ab starts_with_iff by auto
      then show ?thesis by simp
    next
      case (Cons d a') then show ?thesis using ab Cons.IH by auto
    qed
  qed
qed auto

lemma pieces_append: "sep d \<Longrightarrow> pieces sep (xs @ d # ys) cur = pieces sep xs cur @ pieces sep ys []"
  by (induction sep xs cur rule: pieces.induct) auto

lemma pieces_inside: "w \<in> set (pieces sep s cur) \<Longrightarrow> \<exists>a b. cur @ s = a @ w @ b"
proof (induction sep s cur rule: pieces.induct)
  case (2 sep c cs cur)
  show ?case
  proof (cases "sep c")
    case True
    then consider "w = cur" | "w \<in> set (pieces sep cs [])" using 2(3) by (auto split: if_splits)
    then show ?thesis
    proof cases
      case 1
      then have "cur @ c # cs = [] @ w @ (c # cs)" by simp
      then show ?thesis by blast
    next
      case 2
      then obtain a b where "cs = a @ w @ b" using "2.IH"(1) [OF True] by auto
      then have "cur @ c # cs = (cur @ c # a) @ w @ b" by simp
      then show ?thesis by blast
    qed
  next
    case False
    then show ?thesis using 2 by auto
  qed
next
  case (1 sep cur)
  then have "cur @ [] = [] @ w @ []" by (simp split: if_splits)
  then show ?case by blast
qed

lemma normalize_append: "normalize_text (a @ b) = normalize_text a @ normalize_text b"
  by (simp add: normalize_text_def to_lower_def)

lemma normalize_space: "normalize_text '' '' = '' ''"
  by (simp add: normalize_text_def to_lower_def char_lower_def fold_char_def)

lemma terms_append: "terms_of (q @ '' '' @ w) = terms_of q @ terms_of w"
proof -
  have "normalize_text (CHR '' '' # w) = CHR '' '' # normalize_text w"
    using normalize_append [of "'' ''" w] normalize_space by simp
  moreover have "is_ws (CHR '' '')" by (simp add: is_ws_def)
  ultimately show ?thesis
    using pieces_append [of is_ws "CHR '' ''" "normalize_text q" "normalize_text w" "[]"]
    by (simp add: terms_of_def normalize_append normalize_space)
qed

lemma scoreTerm_bounds: "0 \<le> scoreTerm f w sq" "scoreTerm f w sq \<le> 1"
  by (simp_all add: scoreTerm_def Let_def)

lemma sum_terms_eq:
  "sum_terms f ts x = (if \<forall>w \<in> set ts. scoreTerm f w (squash w) \<noteq> 0
     then Some (x + sum_list (map (\<lambda>w. scoreTerm f w (squash w)) ts)) else None)"
  by (induction ts arbitrary: x) (auto simp: Let_def add.assoc)

text \<open>A row is shown exactly when every term of the query lands on it.\<close>

lemma found_iff:
  "0 < scoreCommand h q \<longleftrightarrow> (\<forall>w \<in> set (terms_of q). scoreTerm (forms_of h) w (squash w) \<noteq> 0)"
proof (cases "terms_of q = []")
  case False
  have "0 < sum_list (map (\<lambda>w. scoreTerm (forms_of h) w (squash w)) (terms_of q))"
    if "\<forall>w \<in> set (terms_of q). scoreTerm (forms_of h) w (squash w) \<noteq> 0"
  proof -
    have pos: "0 < scoreTerm (forms_of h) w (squash w)" if "w \<in> set (terms_of q)" for w
      using that \<open>\<forall>w \<in> _. _\<close> scoreTerm_bounds(1) [of "forms_of h" w "squash w"] by force
    obtain a ts where q: "terms_of q = a # ts" using False by (cases "terms_of q") auto
    have "0 \<le> sum_list (map (\<lambda>w. scoreTerm (forms_of h) w (squash w)) ts)"
      by (rule sum_list_nonneg) (auto simp: scoreTerm_bounds)
    then show ?thesis using pos [of a] by (simp add: q add_pos_nonneg)
  qed
  then show ?thesis using False
    by (auto simp: scoreCommand_def sum_terms_eq Let_def)
qed (simp add: scoreCommand_def)

lemma score_bounds: "0 \<le> scoreCommand h q" "scoreCommand h q \<le> 1"
proof -
  let ?s = "\<lambda>w. scoreTerm (forms_of h) w (squash w)"
  have "0 \<le> sum_list (map ?s ts)" "sum_list (map ?s ts) \<le> of_nat (length ts)" for ts
    using scoreTerm_bounds by (induction ts) (auto intro: add_mono)
  from this [of "terms_of q"] show "0 \<le> scoreCommand h q" "scoreCommand h q \<le> 1"
    by (auto simp: scoreCommand_def sum_terms_eq Let_def divide_le_eq_1)
qed

lemma lands_inside:
  assumes "w \<in> set (terms_of k)" and "h = a @ k @ b"
  shows "scoreTerm (forms_of h) w (squash w) \<noteq> 0"
proof -
  obtain x y where k: "normalize_text k = x @ w @ y"
    using pieces_inside [of w is_ws "normalize_text k" "[]"] assms(1) by (auto simp: terms_of_def)
  have "normalize_text h = (normalize_text a @ x) @ w @ (y @ normalize_text b)"
    by (simp add: assms(2) normalize_append k)
  then have "\<exists>a b. normalize_text h = a @ w @ b" by blast
  then have "str_includes w (fm_target (forms_of h))"
    by (simp add: str_includes_iff forms_of_def Let_def)
  then show ?thesis by (simp add: scoreTerm_def Let_def)
qed

lemma join_inside: "k \<in> set ws \<Longrightarrow> \<exists>a b. join_with sep ws = a @ k @ b"
proof (induction sep ws rule: join_with.induct)
  case (3 sep v w ws)
  show ?case
  proof (cases "k = v")
    case True
    then have "join_with sep (v # w # ws) = [] @ k @ (sep @ join_with sep (w # ws))" by simp
    then show ?thesis by blast
  next
    case False
    then obtain a b where "join_with sep (w # ws) = a @ k @ b" using 3 by auto
    then have "join_with sep (v # w # ws) = (v @ sep @ a) @ k @ b" by simp
    then show ?thesis by blast
  qed
next
  case (2 sep w)
  then have "join_with sep [w] = [] @ k @ []" by simp
  then show ?case by blast
qed auto

text \<open>
  A row of the palette is found by its own name and by each of its keywords, whatever the
  accents and capitals; typing a further word never brings back a row that was hidden; and a
  score lies between 0 and 1.
\<close>

theorem search_finds_and_narrows:
  "list_all (\<lambda>k. 0 < filterCommand value k keywords) (value # keywords)
   \<and> (0 < filterCommand value (q @ '' '' @ w) keywords) =
       (0 < filterCommand value q keywords \<and> 0 < filterCommand value w keywords)
   \<and> 0 \<le> filterCommand value q keywords \<and> filterCommand value q keywords \<le> 1"
proof (intro conjI)
  show "list_all (\<lambda>k. 0 < filterCommand value k keywords) (value # keywords)"
    unfolding list_all_iff
  proof
    fix k assume "k \<in> set (value # keywords)"
    then obtain a b where "join_with '' '' (value # keywords) = a @ k @ b" using join_inside by blast
    then show "0 < filterCommand value k keywords"
      unfolding filterCommand_def found_iff using lands_inside by blast
  qed
  show "(0 < filterCommand value (q @ '' '' @ w) keywords) =
      (0 < filterCommand value q keywords \<and> 0 < filterCommand value w keywords)"
    unfolding filterCommand_def found_iff terms_append by auto
qed (simp_all add: filterCommand_def score_bounds)

section \<open>The list of a search\<close>

definition SEARCH_ROW_LIMIT :: nat where
  "SEARCH_ROW_LIMIT = 50"

record match_row =
  mr_project :: command_project
  mr_page :: command_link
  mr_value :: string
  mr_score :: rat

definition scored_rows :: "(string \<Rightarrow> string) \<Rightarrow> command_project list \<Rightarrow> string \<Rightarrow> match_row list" where
  "scored_rows t projects query =
     filter (\<lambda>r. mr_score r > 0)
       (concat (map (\<lambda>p. map (\<lambda>pg.
           let value = cp_name p @ '' '' @ t (cm_labelKey pg)
           in \<lparr>mr_project = p, mr_page = pg, mr_value = value,
               mr_score = filterCommand value query (cm_keywords pg)\<rparr>) ALL_PROJECT_PAGES) projects))"

definition matches :: "(string \<Rightarrow> string) \<Rightarrow> command_project list \<Rightarrow> string \<Rightarrow> match_row list" where
  "matches t projects query =
     (if trim query = [] then []
      else take SEARCH_ROW_LIMIT (sort_by (\<lambda>a b. mr_score b \<le> mr_score a) (scored_rows t projects query)))"

text \<open>The best rows are kept, in order, and every row that is left out scores no better than those kept.\<close>

lemma best_rows_kept:
  assumes "trim query \<noteq> []"
  shows "sorted_wrt (\<lambda>a b. mr_score b \<le> mr_score a) (matches t projects query)"
    "length (matches t projects query) = min SEARCH_ROW_LIMIT (length (scored_rows t projects query))"
    "\<lbrakk>r \<in> set (matches t projects query); s \<in> set (scored_rows t projects query);
      s \<notin> set (matches t projects query)\<rbrakk> \<Longrightarrow> mr_score s \<le> mr_score r"
proof -
  let ?le = "\<lambda>a b. mr_score b \<le> mr_score (a :: match_row)"
  let ?rows = "sort_by ?le (scored_rows t projects query)"
  have sorted: "sorted_wrt ?le ?rows" by (rule sorted_sort_by) auto
  have len: "length ?rows = length (scored_rows t projects query)"
    by (metis mset_sort_by size_mset)
  have "sorted_wrt ?le (take SEARCH_ROW_LIMIT ?rows @ drop SEARCH_ROW_LIMIT ?rows)"
    using sorted by (simp only: append_take_drop_id)
  note parts = sorted_wrt_append [THEN iffD1, OF this]
  note both = conjunct1 [OF parts] conjunct2 [OF conjunct2 [OF parts]]
  have split: "set ?rows = set (take SEARCH_ROW_LIMIT ?rows) \<union> set (drop SEARCH_ROW_LIMIT ?rows)"
    by (simp only: set_append [symmetric] append_take_drop_id)
  have m: "matches t projects query = take SEARCH_ROW_LIMIT ?rows" using assms by (simp add: matches_def)
  show "sorted_wrt ?le (matches t projects query)" unfolding m by (rule both(1))
  show "length (matches t projects query) = min SEARCH_ROW_LIMIT (length (scored_rows t projects query))"
    unfolding m by (simp only: length_take len min.commute)
  assume r: "r \<in> set (matches t projects query)" and s: "s \<in> set (scored_rows t projects query)"
    "s \<notin> set (matches t projects query)"
  have "s \<in> set ?rows" using s(1) by (simp add: set_sort_by)
  then have "s \<in> set (drop SEARCH_ROW_LIMIT ?rows)"
    using s(2) split unfolding m by blast
  then show "mr_score s \<le> mr_score r" using both(2) r unfolding m by blast
qed

end
