(* ===== verification/Palette.thy ===== *)
theory Palette
  imports CommandBar
begin

text \<open>
  The command palette as a machine: \<open>command-bar.tsx\<close> (the shortcut, the opening), the dialog's
  handlers in \<open>dialog/command-bar-dialog.tsx\<close>, the page column of \<open>dialog/project-panel.tsx\<close>, the
  rows of \<open>results/results-list.tsx\<close>; and \<open>shared/lib/settings-path.ts\<close>. A handler reads the state
  of the last repaint, as a React closure does, except the ref; cmdk and the browser are events.
\<close>

section \<open>The rows\<close>

datatype palette_row = ProjectRow command_project | PageRow command_project command_link | LinkRow command_link

record palette_env =
  pe_projects :: "command_project list"
  pe_t :: "string \<Rightarrow> string"
  pe_canCreate :: bool

definition project_href :: "command_project \<Rightarrow> string \<Rightarrow> string" where
  "project_href p segment = ''/projects/'' @ int_str (cp_id p) @ segment"

definition row_href :: "palette_row \<Rightarrow> string" where
  "row_href r =
     (case r of
        ProjectRow p \<Rightarrow> project_href p []
      | PageRow p pg \<Rightarrow> project_href p (cm_href pg)
      | LinkRow l \<Rightarrow> cm_href l)"

definition projectCommands :: "bool \<Rightarrow> command_link list" where
  "projectCommands canCreate = filter (\<lambda>l. cm_href l \<noteq> ''/projects/new'' \<or> canCreate) PROJECT_COMMANDS"

definition rows :: "palette_env \<Rightarrow> string \<Rightarrow> palette_row list" where
  "rows e query =
     (let searching = trim query \<noteq> []; commands = map LinkRow (projectCommands (pe_canCreate e));
          settings = map LinkRow SETTINGS_COMMANDS
      in if searching
         then map (\<lambda>m. PageRow (mr_project m) (mr_page m)) (matches (pe_t e) (pe_projects e) query)
              @ commands @ settings
         else map ProjectRow (pe_projects e) @ commands @ settings)"

section \<open>The dialog\<close>

text \<open>\<open>replace(/\s+/g, ' ')\<close>: a run of white space becomes one space.\<close>

fun collapse_ws :: "string \<Rightarrow> string" where
  "collapse_ws [] = []"
| "collapse_ws (c # cs) =
     (if is_ws c
      then (case cs of d # _ \<Rightarrow> if is_ws d then collapse_ws cs else CHR '' '' # collapse_ws cs
                     | [] \<Rightarrow> '' '')
      else c # collapse_ws cs)"

definition rowKey :: "string \<Rightarrow> string" where
  "rowKey value = trim (collapse_ws (to_lower value))"

text \<open>
  \<open>dl_ref\<close> is \<open>panelIndexRef\<close>, and as \<open>movePanel\<close> writes both, the \<open>panelIndex\<close> the next repaint
  will show. \<open>dl_panel\<close>, \<open>dl_shown\<close>, \<open>dl_shown_query\<close> and \<open>dl_small\<close> are the index, the
  selection, the query and \<open>isMobile\<close> the last repaint showed.
\<close>

record dialog =
  dl_query :: string
  dl_selected :: string
  dl_ref :: "nat option"
  dl_panel :: "nat option"
  dl_shown :: string
  dl_shown_query :: string
  dl_small :: bool

definition mounted :: "palette_env \<Rightarrow> bool \<Rightarrow> dialog" where
  "mounted e small =
     (let seed = (case pe_projects e of p # _ \<Rightarrow> cp_name p
                  | [] \<Rightarrow> pe_t e (cm_labelKey (hd PROJECT_COMMANDS)))
      in \<lparr>dl_query = [], dl_selected = seed, dl_ref = None, dl_panel = None, dl_shown = seed,
          dl_shown_query = [], dl_small = small\<rparr>)"

definition selectedProject :: "palette_env \<Rightarrow> dialog \<Rightarrow> command_project option" where
  "selectedProject e d = List.find (\<lambda>p. rowKey (cp_name p) = rowKey (dl_shown d)) (pe_projects e)"

definition canPreview :: "palette_env \<Rightarrow> dialog \<Rightarrow> bool" where
  "canPreview e d \<longleftrightarrow> selectedProject e d \<noteq> None \<and> \<not> dl_small d"

definition showPreview :: "palette_env \<Rightarrow> dialog \<Rightarrow> bool" where
  "showPreview e d \<longleftrightarrow> canPreview e d \<and> dl_panel d \<noteq> None"

definition repaint :: "bool \<Rightarrow> dialog \<Rightarrow> dialog" where
  "repaint small d = d\<lparr>dl_panel := dl_ref d, dl_shown := dl_selected d,
                       dl_shown_query := dl_query d, dl_small := small\<rparr>"

definition search :: "string \<Rightarrow> dialog \<Rightarrow> dialog" where
  "search value d = d\<lparr>dl_query := value\<rparr>"

definition highlight :: "string \<Rightarrow> dialog \<Rightarrow> dialog" where
  "highlight value d = (if dl_panel d = None then d\<lparr>dl_selected := value\<rparr> else d)"

definition movePanel :: "nat option \<Rightarrow> dialog \<Rightarrow> dialog" where
  "movePanel i d = d\<lparr>dl_ref := i\<rparr>"

definition togglePanel :: "dialog \<Rightarrow> dialog" where
  "togglePanel d = (if dl_ref d \<noteq> None then movePanel None d else movePanel (Some 0) d)"

datatype pressed = ArrowDown | ArrowUp | Tab | ShiftTab | Enter | OtherKey

text \<open>What became of a key: left to the list, its default prevented, or also kept from bubbling.\<close>

datatype claim = Left | Prevented | Stopped

definition key_step :: "pressed \<Rightarrow> int" where
  "key_step k = (if k = ArrowDown then 1 else if k = ArrowUp then -1 else 0)"

definition stepped :: "nat \<Rightarrow> int \<Rightarrow> nat" where
  "stepped current step = nat ((int current + step + int (length ALL_PROJECT_PAGES))
                               mod int (length ALL_PROJECT_PAGES))"

text \<open>A handler answers with the dialog, the address it navigates to, if any, and the key's fate.\<close>

definition handlePanelKey ::
  "pressed \<Rightarrow> nat \<Rightarrow> command_project \<Rightarrow> dialog \<Rightarrow> dialog \<times> string option \<times> claim" where
  "handlePanelKey k current p d =
     (if key_step k \<noteq> 0 then (movePanel (Some (stepped current (key_step k))) d, None, Stopped)
      else if k = Tab then (togglePanel d, None, Prevented)
      else if k = Enter then (d, Some (project_href p (cm_href (ALL_PROJECT_PAGES ! current))), Stopped)
      else (d, None, Left))"

definition handleKeyDown ::
  "palette_env \<Rightarrow> pressed \<Rightarrow> dialog \<Rightarrow> dialog \<times> string option \<times> claim" where
  "handleKeyDown e k d =
     (case selectedProject e d of
        None \<Rightarrow> (d, None, Left)
      | Some p \<Rightarrow>
          if dl_small d then (d, None, Left)
          else case dl_ref d of
                 Some current \<Rightarrow> handlePanelKey k current p d
               | None \<Rightarrow> if k = Tab then (togglePanel d, None, Prevented) else (d, None, Left))"

text \<open>\<open>ProjectPanel\<close>'s own handler, for a key pressed while its column has the focus.\<close>

definition panel_key ::
  "palette_env \<Rightarrow> pressed \<Rightarrow> dialog \<Rightarrow> dialog \<times> string option \<times> claim" where
  "panel_key e k d =
     (case (selectedProject e d, dl_panel d) of
        (Some p, Some focus) \<Rightarrow>
          (if dl_small d then (d, None, Left)
           else if key_step k \<noteq> 0 then (movePanel (Some (stepped focus (key_step k))) d, None, Stopped)
           else if k = Enter
           then (d, Some (project_href p (cm_href (ALL_PROJECT_PAGES ! focus))), Stopped)
           else if k = Tab then (togglePanel d, None, Stopped)
           else (d, None, Left))
      | _ \<Rightarrow> (d, None, Left))"

section \<open>The palette\<close>

record palette =
  br_open :: bool
  br_session :: nat
  br_dialog :: dialog
  br_pushed :: "string list"

definition openBar :: "palette_env \<Rightarrow> palette \<Rightarrow> palette" where
  "openBar e b = b\<lparr>br_session := br_session b + 1, br_open := True,
                   br_dialog := mounted e (dl_small (br_dialog b))\<rparr>"

definition go :: "string \<Rightarrow> palette \<Rightarrow> palette" where
  "go href b = b\<lparr>br_open := False, br_pushed := br_pushed b @ [href]\<rparr>"

definition after_key :: "palette \<Rightarrow> dialog \<times> string option \<times> claim \<Rightarrow> palette" where
  "after_key b r =
     (case r of (d, href, _) \<Rightarrow>
        let b' = b\<lparr>br_dialog := d\<rparr> in case href of None \<Rightarrow> b' | Some h \<Rightarrow> go h b')"

datatype happening =
    Shortcut bool bool bool  \<comment> \<open>\<open>repeat\<close>, the key is k, a modifier is held\<close>
  | Trigger
  | Dismissed
  | Typed string
  | Hovered string
  | Selected string
  | InputKey pressed
  | ColumnKey pressed
  | RowChosen nat
  | PageClicked nat
  | Repainted bool

definition palette_step :: "palette_env \<Rightarrow> happening \<Rightarrow> palette \<Rightarrow> palette" where
  "palette_step e h b =
     (let d = br_dialog b in case h of
        Shortcut held isK modifier \<Rightarrow>
          if held then b
          else if \<not> isK \<or> \<not> modifier then b
          else if br_open b then b\<lparr>br_open := False\<rparr> else openBar e b
      | Trigger \<Rightarrow> openBar e b
      | Dismissed \<Rightarrow> b\<lparr>br_open := False\<rparr>
      | Typed v \<Rightarrow> b\<lparr>br_dialog := search v d\<rparr>
      | Hovered v \<Rightarrow> b\<lparr>br_dialog := highlight v d\<rparr>
      | Selected v \<Rightarrow> b\<lparr>br_dialog := d\<lparr>dl_selected := v\<rparr>\<rparr>
      | InputKey k \<Rightarrow> after_key b (handleKeyDown e k d)
      | ColumnKey k \<Rightarrow> after_key b (panel_key e k d)
      | RowChosen i \<Rightarrow>
          (if i < length (rows e (dl_shown_query d)) then go (row_href (rows e (dl_shown_query d) ! i)) b else b)
      | PageClicked i \<Rightarrow>
          (case selectedProject e d of
             Some p \<Rightarrow> if showPreview e d \<and> i < length ALL_PROJECT_PAGES
                       then go (project_href p (cm_href (ALL_PROJECT_PAGES ! i))) b else b
           | None \<Rightarrow> b)
      | Repainted small \<Rightarrow> b\<lparr>br_dialog := repaint small d\<rparr>)"

definition palette_start :: "palette_env \<Rightarrow> bool \<Rightarrow> palette" where
  "palette_start e small = \<lparr>br_open = False, br_session = 0, br_dialog = mounted e small, br_pushed = []\<rparr>"

definition palette_run :: "palette_env \<Rightarrow> happening list \<Rightarrow> palette \<Rightarrow> palette" where
  "palette_run e hs b = fold (palette_step e) hs b"

section \<open>What the palette keeps\<close>

definition known_hrefs :: "palette_env \<Rightarrow> string list" where
  "known_hrefs e =
     concat (map (\<lambda>p. project_href p [] # map (\<lambda>pg. project_href p (cm_href pg)) ALL_PROJECT_PAGES)
               (pe_projects e))
     @ map cm_href (projectCommands (pe_canCreate e) @ SETTINGS_COMMANDS)"

definition in_column :: "nat option \<Rightarrow> bool" where
  "in_column i = (case i of None \<Rightarrow> True | Some n \<Rightarrow> n < PROJECT_PAGE_COUNT)"

definition palette_sound :: "palette_env \<Rightarrow> palette \<Rightarrow> bool" where
  "palette_sound e b \<longleftrightarrow> in_column (dl_ref (br_dialog b)) \<and> in_column (dl_panel (br_dialog b))
     \<and> list_all (\<lambda>h. h \<in> set (known_hrefs e)) (br_pushed b)"

lemma page_count: "PROJECT_PAGE_COUNT = 11" "length ALL_PROJECT_PAGES = 11"
  by (simp_all add: PROJECT_PAGE_COUNT_def ALL_PROJECT_PAGES_def PROJECT_PAGES_def PROJECT_SETTINGS_PAGES_def)

lemma stepped_in_column: "in_column (Some (stepped i k))"
  by (simp add: in_column_def stepped_def page_count nat_less_iff)

lemma page_known:
  "\<lbrakk>p \<in> set (pe_projects e); pg \<in> set ALL_PROJECT_PAGES\<rbrakk> \<Longrightarrow> project_href p (cm_href pg) \<in> set (known_hrefs e)"
  by (auto simp: known_hrefs_def)

lemma selected_listed: "selectedProject e d = Some p \<Longrightarrow> p \<in> set (pe_projects e)"
  unfolding selectedProject_def by (blast dest: find_Some_mem)

lemma matches_listed:
  assumes "m \<in> set (matches t ps q)"
  shows "mr_project m \<in> set ps" "mr_page m \<in> set ALL_PROJECT_PAGES"
proof -
  have "m \<in> set (scored_rows t ps q)"
    using assms by (auto simp: matches_def split: if_splits dest!: in_set_takeD)
  then obtain p pg where "p \<in> set ps" "pg \<in> set ALL_PROJECT_PAGES" "mr_project m = p" "mr_page m = pg"
    unfolding scored_rows_def Let_def by auto
  then show "mr_project m \<in> set ps" "mr_page m \<in> set ALL_PROJECT_PAGES" by simp_all
qed

lemma mounted_column [simp]: "dl_ref (mounted e small) = None" "dl_panel (mounted e small) = None"
  by (simp_all add: mounted_def Let_def)

lemma row_known: "r \<in> set (rows e q) \<Longrightarrow> row_href r \<in> set (known_hrefs e)"
proof -
  assume r: "r \<in> set (rows e q)"
  have links: "cm_href l \<in> set (known_hrefs e)"
    if "l \<in> set (projectCommands (pe_canCreate e)) \<union> set SETTINGS_COMMANDS" for l
    using that by (auto simp: known_hrefs_def)
  have own: "project_href p [] \<in> set (known_hrefs e)" if "p \<in> set (pe_projects e)" for p
    using that by (auto simp: known_hrefs_def)
  show ?thesis
  proof (cases r)
    case (ProjectRow p)
    then show ?thesis using r own by (auto simp: rows_def row_href_def Let_def split: if_splits)
  next
    case (PageRow p pg)
    then have "p \<in> set (pe_projects e)" "pg \<in> set ALL_PROJECT_PAGES"
      using r matches_listed by (auto simp: rows_def Let_def split: if_splits)
    then show ?thesis by (simp add: PageRow row_href_def page_known)
  next
    case (LinkRow l)
    then show ?thesis using r links by (auto simp: rows_def row_href_def Let_def split: if_splits)
  qed
qed

lemma go_sound: "\<lbrakk>palette_sound e b; h \<in> set (known_hrefs e)\<rbrakk> \<Longrightarrow> palette_sound e (go h b)"
  by (simp add: palette_sound_def go_def)

lemma dialog_sound:
  "\<lbrakk>palette_sound e b; in_column (dl_ref d); in_column (dl_panel d)\<rbrakk> \<Longrightarrow> palette_sound e (b\<lparr>br_dialog := d\<rparr>)"
  by (simp add: palette_sound_def)

text \<open>What a key handler may answer: an index of the column, and a page of a project on the list.\<close>

definition answer_sound :: "palette_env \<Rightarrow> dialog \<times> string option \<times> claim \<Rightarrow> bool" where
  "answer_sound e r =
     (case r of (d, href, _) \<Rightarrow> in_column (dl_ref d) \<and> in_column (dl_panel d)
        \<and> (case href of None \<Rightarrow> True | Some h \<Rightarrow> h \<in> set (known_hrefs e)))"

lemma after_key_sound: "\<lbrakk>palette_sound e b; answer_sound e r\<rbrakk> \<Longrightarrow> palette_sound e (after_key b r)"
  by (auto simp: after_key_def answer_sound_def go_sound dialog_sound split: prod.splits option.splits)

lemma nth_page_known:
  "\<lbrakk>p \<in> set (pe_projects e); in_column (Some i)\<rbrakk>
   \<Longrightarrow> project_href p (cm_href (ALL_PROJECT_PAGES ! i)) \<in> set (known_hrefs e)"
  by (rule page_known) (simp_all add: in_column_def PROJECT_PAGE_COUNT_def)

lemma toggle_sound: "in_column (dl_ref (togglePanel d))"
  by (simp add: togglePanel_def movePanel_def in_column_def page_count)

lemma panel_untouched [simp]: "dl_panel (togglePanel d) = dl_panel d" "dl_panel (movePanel i d) = dl_panel d"
  "dl_ref (movePanel i d) = i"
  by (simp_all add: togglePanel_def movePanel_def)

lemma keys_sound:
  assumes "in_column (dl_ref d)" and "in_column (dl_panel d)"
  shows "answer_sound e (handleKeyDown e k d)" "answer_sound e (panel_key e k d)"
  using assms
  by (auto simp: answer_sound_def handleKeyDown_def handlePanelKey_def panel_key_def stepped_in_column
      toggle_sound nth_page_known selected_listed split: option.splits)

lemma palette_step_sound: "palette_sound e b \<Longrightarrow> palette_sound e (palette_step e h b)"
proof -
  assume b: "palette_sound e b"
  then have d: "in_column (dl_ref (br_dialog b))" "in_column (dl_panel (br_dialog b))"
    by (simp_all add: palette_sound_def)
  have opened: "palette_sound e (openBar e b)"
    using b by (simp add: palette_sound_def openBar_def in_column_def)
  have closed: "palette_sound e (b\<lparr>br_open := x\<rparr>)" for x using b by (simp add: palette_sound_def)
  note sound = dialog_sound [OF b] after_key_sound [OF b keys_sound(1) [OF d]]
    after_key_sound [OF b keys_sound(2) [OF d]]
  show ?thesis
  proof (cases h)
    case (RowChosen i)
    then show ?thesis using go_sound [OF b row_known [OF nth_mem]] by (simp add: palette_step_def Let_def b)
  next
    case (PageClicked i)
    then show ?thesis using b
      by (auto simp: palette_step_def Let_def go_sound page_known selected_listed split: option.splits)
  next
    case (Hovered v)
    then show ?thesis using b d by (auto simp: palette_step_def Let_def highlight_def palette_sound_def)
  qed (use b d opened closed sound in \<open>simp_all add: palette_step_def Let_def repaint_def search_def highlight_def\<close>)
qed

text \<open>
  Whatever is typed, pressed, hovered or clicked, in whatever order with the repaints, the page
  the column points at exists, and the palette has only ever navigated to a project on its list,
  one of that project's pages, or a command this user is offered.
\<close>

theorem palette_leads_only_to_listed_pages:
  "palette_sound e (palette_run e hs (palette_start e small))"
proof -
  have "palette_sound e (fold (palette_step e) hs b)" if "palette_sound e b" for b
    using that by (induction hs arbitrary: b) (simp_all add: palette_step_sound)
  moreover have "palette_sound e (palette_start e small)"
    by (simp add: palette_start_def palette_sound_def in_column_def)
  ultimately show ?thesis by (simp add: palette_run_def)
qed

section \<open>Walking the column\<close>

text \<open>The arrow pressed once per entry, a repaint following it where the entry says so.\<close>

definition walk :: "bool list \<Rightarrow> happening list" where
  "walk rs = concat (map (\<lambda>r. InputKey ArrowDown # (if r then [Repainted False] else [])) rs)"

definition walking :: "palette_env \<Rightarrow> command_project \<Rightarrow> nat \<Rightarrow> palette \<Rightarrow> bool" where
  "walking e p i b \<longleftrightarrow> selectedProject e (br_dialog b) = Some p \<and> \<not> dl_small (br_dialog b)
     \<and> dl_ref (br_dialog b) = Some i \<and> dl_selected (br_dialog b) = dl_shown (br_dialog b)"

lemma stepped_down: "stepped i 1 = (i + 1) mod 11"
proof -
  have "(int i + 1 + 11) mod 11 = (int i + 1) mod 11" by (rule mod_add_self2)
  also have "\<dots> = int ((i + 1) mod 11)" by (simp add: zmod_int add.commute)
  finally have "(int i + 1 + 11) mod 11 = int ((i + 1) mod 11)" .
  then show ?thesis unfolding stepped_def page_count(2) by (metis nat_int of_nat_numeral)
qed

lemma walking_down:
  assumes "walking e p i b"
  shows "walking e p ((i + 1) mod 11) (palette_step e (InputKey ArrowDown) b)"
    "br_pushed (palette_step e (InputKey ArrowDown) b) = br_pushed b"
  using assms
  by (simp_all add: walking_def palette_step_def Let_def handleKeyDown_def handlePanelKey_def key_step_def
      after_key_def movePanel_def selectedProject_def stepped_down)

lemma walking_repaint:
  assumes "walking e p i b"
  shows "walking e p i (palette_step e (Repainted False) b)"
    "br_pushed (palette_step e (Repainted False) b) = br_pushed b"
  using assms by (simp_all add: walking_def palette_step_def Let_def repaint_def selectedProject_def)

lemma walking_on:
  "walking e p i b \<Longrightarrow> i < 11 \<Longrightarrow>
     walking e p ((i + length rs) mod 11) (fold (palette_step e) (walk rs) b)
     \<and> br_pushed (fold (palette_step e) (walk rs) b) = br_pushed b"
proof (induction rs arbitrary: i b)
  case (Cons r rs)
  let ?b = "fold (palette_step e) (InputKey ArrowDown # (if r then [Repainted False] else [])) b"
  have w: "walking e p ((i + 1) mod 11) ?b" "br_pushed ?b = br_pushed b"
    using walking_down [OF Cons.prems(1)] walking_repaint [OF walking_down(1) [OF Cons.prems(1)]] by auto
  have "fold (palette_step e) (walk (r # rs)) b = fold (palette_step e) (walk rs) ?b" by (simp add: walk_def)
  moreover have "((i + 1) mod 11 + length rs) mod 11 = (i + length (r # rs)) mod 11"
    by (simp add: mod_simps)
  ultimately show ?case using Cons.IH [OF w(1)] w(2) by simp
qed (simp add: walk_def)

text \<open>
  With a project selected, Tab, any number of arrows and Enter open that page of the column,
  counted round, however the repaints fall between the keys: a key that arrives before the column
  has taken the focus is not lost.
\<close>

theorem column_opens_the_page_counted:
  assumes "selectedProject e (br_dialog b) = Some p" and "\<not> dl_small (br_dialog b)"
    and "dl_ref (br_dialog b) = None" and "dl_selected (br_dialog b) = dl_shown (br_dialog b)"
  shows "br_pushed (palette_run e (InputKey Tab # walk rs @ [InputKey Enter]) b)
     = br_pushed b @ [project_href p (cm_href (ALL_PROJECT_PAGES ! (length rs mod 11)))]"
proof -
  let ?b = "palette_step e (InputKey Tab) b"
  have "walking e p 0 ?b" "br_pushed ?b = br_pushed b"
    using assms by (simp_all add: walking_def palette_step_def Let_def handleKeyDown_def after_key_def togglePanel_def
        movePanel_def selectedProject_def)
  then have w: "walking e p (length rs mod 11) (fold (palette_step e) (walk rs) ?b)"
    "br_pushed (fold (palette_step e) (walk rs) ?b) = br_pushed b"
    using walking_on [of e p 0 ?b rs] by simp_all
  have "br_pushed (palette_step e (InputKey Enter) c)
      = br_pushed c @ [project_href p (cm_href (ALL_PROJECT_PAGES ! i))]" if "walking e p i c" for c i
    using that by (simp add: walking_def palette_step_def Let_def handleKeyDown_def handlePanelKey_def key_step_def
        after_key_def go_def)
  from this [OF w(1)] w(2) show ?thesis by (simp add: palette_run_def)
qed

definition sample_env :: palette_env where
  "sample_env = \<lparr>pe_projects = [\<lparr>cp_id = 4, cp_name = ''Shop'', cp_platform = None\<rparr>],
                 pe_t = id, pe_canCreate = False\<rparr>"

lemma sample_start:
  "selectedProject sample_env (br_dialog (palette_start sample_env False))
     = Some \<lparr>cp_id = 4, cp_name = ''Shop'', cp_platform = None\<rparr>"
  "\<not> dl_small (br_dialog (palette_start sample_env False))"
  "dl_ref (br_dialog (palette_start sample_env False)) = None"
  "dl_selected (br_dialog (palette_start sample_env False)) = dl_shown (br_dialog (palette_start sample_env False))"
  "br_pushed (palette_start sample_env False) = []"
  by (simp_all add: sample_env_def palette_start_def mounted_def selectedProject_def Let_def)

theorem column_opens_the_page_counted_witness:
  "br_pushed (palette_run sample_env (InputKey Tab # walk [True, False] @ [InputKey Enter])
     (palette_start sample_env False))
   = [project_href \<lparr>cp_id = 4, cp_name = ''Shop'', cp_platform = None\<rparr>
        (cm_href (ALL_PROJECT_PAGES ! 2))]"
  using column_opens_the_page_counted [OF sample_start(1-4), of "[True, False]"]
  by (simp add: sample_start(5) numeral_2_eq_2)

text \<open>
  The column's own handler reads the index of the last repaint, not the ref: of two arrows that
  arrive between two repaints, the second repeats the first instead of moving on.
\<close>

lemma column_arrow_waits_for_repaint:
  assumes "selectedProject e d = Some p" and "\<not> dl_small d" and "dl_panel d = Some i"
  shows "fst (panel_key e ArrowDown (fst (panel_key e ArrowDown d))) = fst (panel_key e ArrowDown d)"
  using assms by (simp add: panel_key_def key_step_def movePanel_def selectedProject_def)

text \<open>
  Once the column has been entered, a selection that is no project's hides it but leaves the index:
  hovering no longer moves the selection, and Tab, which alone could clear the index, is ignored.
\<close>

lemma stranded_index:
  assumes "dl_panel d = Some i" and "selectedProject e d = None"
  shows "highlight v d = d \<and> handleKeyDown e k d = (d, None, Left) \<and> \<not> showPreview e d"
  using assms by (simp add: highlight_def handleKeyDown_def showPreview_def canPreview_def)

section \<open>Settings pages\<close>

text \<open>\<open>(\/|$)\<close>: the text ends here, or goes on with a slash.\<close>

definition ends_or_slash :: "string \<Rightarrow> bool" where
  "ends_or_slash s = (case s of [] \<Rightarrow> True | c # _ \<Rightarrow> c = CHR ''/'')"

definition after_prefix :: "string \<Rightarrow> string \<Rightarrow> string option" where
  "after_prefix p s = (if starts_with p s then Some (drop (length p) s) else None)"

definition isSettingsPath :: "string \<Rightarrow> bool" where
  "isSettingsPath pathname \<longleftrightarrow>
     (case after_prefix ''/settings'' pathname of Some s \<Rightarrow> ends_or_slash s | None \<Rightarrow> False)
     \<or> (case after_prefix ''/projects/'' pathname of
          None \<Rightarrow> False
        | Some s \<Rightarrow>
            (case after_prefix ''/settings'' (dropWhile (\<lambda>c. c \<noteq> CHR ''/'') s) of
               None \<Rightarrow> False
             | Some s' \<Rightarrow> takeWhile (\<lambda>c. c \<noteq> CHR ''/'') s \<noteq> []
                          \<and> \<not> starts_with ''/alerts'' s' \<and> ends_or_slash s'))"

lemma settings_path_examples:
  "isSettingsPath ''/settings''" "isSettingsPath ''/settings/team''"
  "isSettingsPath ''/projects/4/settings/general''"
  "\<not> isSettingsPath ''/projects/4/settings/alerts''" "\<not> isSettingsPath ''/settingsx''"
  "\<not> isSettingsPath ''/projects//settings''"
  by code_simp+

text \<open>Of the palette's project pages, exactly the general settings and the client keys keep the settings sidebar.\<close>

lemma settings_pages_of_palette:
  "filter (\<lambda>pg. isSettingsPath (''/projects/7'' @ cm_href pg)) ALL_PROJECT_PAGES
     = filter (\<lambda>pg. cm_href pg \<in> {''/settings/general'', ''/settings/client-keys''}) ALL_PROJECT_PAGES"
  by code_simp

end
