(* ===== verification/ProjectProducts.thy ===== *)
theory ProjectProducts
  imports JsBase
begin

text \<open>
  The products of a project: \<open>features/project/model/products.ts\<close> and the settings that switch and
  reorder them, \<open>products-settings.tsx\<close>. Every change is shown at once and saved behind; the answer
  of the server is an event, and so is each drag event of the browser, which carries one
  drag at a time and delivers neither keys nor clicks to the page meanwhile.
\<close>

section \<open>The products and their order\<close>

datatype product_group = Triage | Monitor_group

definition PRODUCTS :: "(string \<times> product_group) list" where
  "PRODUCTS =
     [(''issues'', Triage), (''feedback'', Triage), (''releases'', Triage),
      (''performance'', Monitor_group), (''logs'', Monitor_group), (''crons'', Monitor_group),
      (''agents'', Monitor_group)]"

definition LOCKED_PRODUCT :: string where
  "LOCKED_PRODUCT = ''issues''"

text \<open>The known keys, each once: the filter with the set of keys seen so far.\<close>

fun first_known :: "string list \<Rightarrow> string list \<Rightarrow> string list" where
  "first_known seen [] = []"
| "first_known seen (key # keys) =
     (if key \<notin> set (map fst PRODUCTS) \<or> key \<in> set seen then first_known seen keys
      else key # first_known (key # seen) keys)"

definition orderedProducts :: "string list \<Rightarrow> string list" where
  "orderedProducts saved =
     (let first = first_known [] saved
      in first @ filter (\<lambda>k. k \<notin> set first) (map fst PRODUCTS))"

definition keepsProduct :: "string list \<Rightarrow> string \<Rightarrow> bool" where
  "keepsProduct disabled product \<longleftrightarrow>
     (if product = LOCKED_PRODUCT then True
      else if product = ''agents'' \<and> ''performance'' \<in> set disabled then False
      else product \<notin> set disabled)"

section \<open>The settings\<close>

definition GROUP_OF :: "string \<Rightarrow> product_group option" where
  "GROUP_OF = map_of PRODUCTS"

definition group_rank :: "string \<Rightarrow> nat" where
  "group_rank p = (if GROUP_OF p = Some Monitor_group then 1 else 0)"

record products_state =
  ps_order :: "string list"
  ps_disabled :: "string list"

text \<open>
  \<open>pr_saving\<close> is the pending request with the state to put back if it is refused; \<open>pr_saved\<close> is what
  the server has, and \<open>pr_requests\<close> what was asked of it.
\<close>

record products_page =
  pr_readOnly :: bool
  pr_state :: products_state
  pr_drag :: "(string \<times> products_state) option"
  pr_saving :: "(products_state \<times> products_state) option"
  pr_saved :: products_state
  pr_requests :: "products_state list"

definition open_products :: "bool \<Rightarrow> string list \<Rightarrow> string list \<Rightarrow> products_page" where
  "open_products readOnly product_order disabled =
     (let state = \<lparr>ps_order = sort_by (\<lambda>a b. group_rank a \<le> group_rank b) (orderedProducts product_order),
                   ps_disabled = disabled\<rparr>
      in \<lparr>pr_readOnly = readOnly, pr_state = state, pr_drag = None, pr_saving = None,
          pr_saved = state, pr_requests = []\<rparr>)"

definition is_saving :: "products_page \<Rightarrow> bool" where
  "is_saving s \<longleftrightarrow> pr_saving s \<noteq> None \<or> pr_readOnly s"

definition save_products :: "products_state \<Rightarrow> products_state \<Rightarrow> products_page \<Rightarrow> products_page" where
  "save_products next_state previous s =
     s\<lparr>pr_state := next_state, pr_saving := Some (next_state, previous),
       pr_requests := pr_requests s @ [next_state]\<rparr>"

text \<open>The answer to the pending save.\<close>

definition save_answered :: "bool \<Rightarrow> products_page \<Rightarrow> products_page" where
  "save_answered accepted s =
     (case pr_saving s of
        None \<Rightarrow> s
      | Some (sent, previous) \<Rightarrow>
          if accepted then s\<lparr>pr_saving := None, pr_saved := sent\<rparr>
          else s\<lparr>pr_saving := None, pr_state := previous\<rparr>)"

definition toggle_product :: "string \<Rightarrow> bool \<Rightarrow> products_page \<Rightarrow> products_page" where
  "toggle_product product on s =
     (let st = pr_state s
      in save_products (st\<lparr>ps_disabled := (if on then filter (\<lambda>p. p \<noteq> product) (ps_disabled st)
                                           else ps_disabled st @ [product])\<rparr>) st s)"

text \<open>\<open>splice(i, 0, x)\<close>\<close>

definition splice_in :: "nat \<Rightarrow> 'a \<Rightarrow> 'a list \<Rightarrow> 'a list" where
  "splice_in i x xs = take i xs @ x # drop i xs"

definition reorder :: "string \<Rightarrow> int \<Rightarrow> string list \<Rightarrow> string list" where
  "reorder product dest order =
     (let rest = filter (\<lambda>p. p \<noteq> product) order
      in splice_in (nat (max 0 (min dest (int (length rest))))) product rest)"

definition sameGroup :: "string \<Rightarrow> string option \<Rightarrow> bool" where
  "sameGroup a b = (case b of None \<Rightarrow> False | Some q \<Rightarrow> GROUP_OF a = GROUP_OF q)"

definition move_product :: "string \<Rightarrow> int \<Rightarrow> products_page \<Rightarrow> products_page" where
  "move_product product dest s =
     (let st = pr_state s; order = reorder product dest (ps_order st)
      in if order \<noteq> ps_order st then save_products (st\<lparr>ps_order := order\<rparr>) st s else s)"

text \<open>\<open>order[i]\<close>, with the negative index that is absent.\<close>

definition nth_product :: "string list \<Rightarrow> int \<Rightarrow> string option" where
  "nth_product order i = (if 0 \<le> i \<and> i < int (length order) then Some (order ! nat i) else None)"

datatype products_event =
    Switched nat
  | Moved_up nat
  | Moved_down nat
  | Drag_started nat
  | Dragged_over nat
  | Drag_ended
  | Answered bool

text \<open>An event names the row it happened on by its place in the list.\<close>

definition products_step :: "products_event \<Rightarrow> products_page \<Rightarrow> products_page" where
  "products_step e s =
     (let st = pr_state s; order = ps_order st in case e of
        Switched i \<Rightarrow>
          (if pr_drag s \<noteq> None \<or> i \<ge> length order then s
           else let product = order ! i
             in if product = LOCKED_PRODUCT \<or> is_saving s
                   \<or> (product = ''agents'' \<and> ''performance'' \<in> set (ps_disabled st)) then s
                else toggle_product product (\<not> keepsProduct (ps_disabled st) product) s)
      | Moved_up i \<Rightarrow>
          (if pr_drag s \<noteq> None \<or> i \<ge> length order \<or> is_saving s
              \<or> \<not> sameGroup (order ! i) (nth_product order (int i - 1)) then s
           else move_product (order ! i) (int i - 1) s)
      | Moved_down i \<Rightarrow>
          (if pr_drag s \<noteq> None \<or> i \<ge> length order \<or> is_saving s
              \<or> \<not> sameGroup (order ! i) (nth_product order (int i + 1)) then s
           else move_product (order ! i) (int i + 1) s)
      | Drag_started i \<Rightarrow>
          (if pr_drag s \<noteq> None \<or> i \<ge> length order \<or> is_saving s then s
           else s\<lparr>pr_drag := Some (order ! i, st)\<rparr>)
      | Dragged_over i \<Rightarrow>
          (case pr_drag s of
             None \<Rightarrow> s
           | Some (dragged, before) \<Rightarrow>
               if i < length order \<and> dragged \<noteq> order ! i \<and> sameGroup dragged (Some (order ! i))
               then s\<lparr>pr_state := st\<lparr>ps_order := reorder dragged (int i) order\<rparr>\<rparr> else s)
      | Drag_ended \<Rightarrow>
          (case pr_drag s of
             None \<Rightarrow> s
           | Some (dragged, before) \<Rightarrow>
               (if order \<noteq> ps_order before then save_products st before s else s)\<lparr>pr_drag := None\<rparr>)
      | Answered accepted \<Rightarrow> save_answered accepted s)"

definition products_after :: "products_event list \<Rightarrow> products_page \<Rightarrow> products_page" where
  "products_after = fold products_step"

section \<open>Every order is the whole list, grouped\<close>

lemma keys_distinct: "distinct (map fst PRODUCTS)"
  by (simp add: PRODUCTS_def)

lemma first_known_facts:
  "distinct (first_known seen ks) \<and> set (first_known seen ks) \<subseteq> set (map fst PRODUCTS) - set seen"
proof (induction ks arbitrary: seen)
  case (Cons k ks)
  show ?case using Cons.IH [of seen] Cons.IH [of "k # seen"] by auto
qed simp

lemma orderedProducts_mset: "mset (orderedProducts saved) = mset (map fst PRODUCTS)"
proof -
  have "distinct (orderedProducts saved)" "set (orderedProducts saved) = set (map fst PRODUCTS)"
    using first_known_facts [of "[]" saved] keys_distinct by (auto simp: orderedProducts_def Let_def)
  then show ?thesis by (metis keys_distinct set_eq_iff_mset_eq_distinct)
qed

text \<open>A saved order that is already complete is kept as it is.\<close>

lemma first_known_all:
  "\<lbrakk>distinct ks; set ks \<subseteq> set (map fst PRODUCTS); set ks \<inter> set seen = {}\<rbrakk> \<Longrightarrow> first_known seen ks = ks"
  by (induction ks arbitrary: seen) auto

lemma orderedProducts_complete:
  assumes "mset ks = mset (map fst PRODUCTS)"
  shows "orderedProducts ks = ks"
proof -
  have d: "distinct ks" "set ks = set (map fst PRODUCTS)"
    using assms keys_distinct by (metis mset_eq_imp_distinct_iff) (metis assms set_mset_mset)
  then have "first_known [] ks = ks" by (simp add: first_known_all)
  then show ?thesis using d by (simp add: orderedProducts_def)
qed

definition order_ok :: "string list \<Rightarrow> bool" where
  "order_ok xs \<longleftrightarrow> mset xs = mset (map fst PRODUCTS) \<and> sorted (map group_rank xs)"

lemma order_ok_distinct: "order_ok xs \<Longrightarrow> distinct xs"
  unfolding order_ok_def using keys_distinct by (metis mset_eq_imp_distinct_iff)

lemma opened_order_ok: "order_ok (ps_order (pr_state (open_products r saved d)))"
proof -
  have "sorted_wrt (\<lambda>a b. group_rank a \<le> group_rank b) (sort_by (\<lambda>a b. group_rank a \<le> group_rank b) xs)" for xs
    by (rule sorted_sort_by) auto
  then show ?thesis
    by (simp add: order_ok_def open_products_def Let_def orderedProducts_mset sorted_map del: PRODUCTS_def)
qed

text \<open>A product moved to the place of another lands next to it.\<close>

lemma filter_clean: "p \<notin> set ys \<Longrightarrow> filter (\<lambda>x. x \<noteq> p) ys = ys"
  by (induction ys) auto

lemma reorder_at:
  assumes "filter (\<lambda>x. x \<noteq> p) order = us @ vs"
  shows "reorder p (int (length us)) order = us @ p # vs"
proof -
  have "nat (max 0 (min (int (length us)) (int (length (us @ vs))))) = length us" by simp
  then show ?thesis unfolding reorder_def Let_def assms splice_in_def by simp
qed

lemma reorder_down:
  assumes "distinct (as @ p # bs @ q # cs)"
  shows "reorder p (int (length (as @ p # bs))) (as @ p # bs @ q # cs) = as @ bs @ q # p # cs"
  using reorder_at [of p "as @ p # bs @ q # cs" "as @ bs @ [q]" cs] assms by (auto simp: filter_clean)

lemma reorder_up:
  assumes "distinct (as @ q # bs @ p # cs)"
  shows "reorder p (int (length as)) (as @ q # bs @ p # cs) = as @ p # q # bs @ cs"
  using reorder_at [of p "as @ q # bs @ p # cs" as "q # bs @ cs"] assms by (auto simp: filter_clean)

lemma reorder_beside:
  assumes "distinct xs" "p \<in> set xs" "i < length xs" "p \<noteq> xs ! i"
  obtains as bs cs q where "q = xs ! i" and
    "xs = as @ p # bs @ q # cs \<and> reorder p (int i) xs = as @ bs @ q # p # cs
     \<or> xs = as @ q # bs @ p # cs \<and> reorder p (int i) xs = as @ p # q # bs @ cs"
proof -
  define us vs q where "us = take i xs" and "vs = drop (Suc i) xs" and "q = xs ! i"
  have "p \<noteq> q" using assms(4) by (simp add: q_def)
  have x: "xs = us @ q # vs" and i: "i = length us"
    using assms(3) by (simp_all add: us_def vs_def q_def id_take_nth_drop [symmetric])
  have "p \<in> set us \<or> p \<in> set vs" using assms(2) x \<open>p \<noteq> q\<close> by auto
  then show thesis
  proof
    assume "p \<in> set us"
    then obtain as bs where us: "us = as @ p # bs" by (meson split_list)
    then have "xs = as @ p # bs @ q # vs" "reorder p (int i) xs = as @ bs @ q # p # vs"
      using reorder_down [of as p bs q vs] assms(1) unfolding x i us by simp_all
    then show thesis using that [OF q_def, of as bs vs] by blast
  next
    assume "p \<in> set vs"
    then obtain bs cs where vs: "vs = bs @ p # cs" by (meson split_list)
    then have "xs = us @ q # bs @ p # cs" "reorder p (int i) xs = us @ p # q # bs @ cs"
      using reorder_up [of us q bs p cs] assms(1) unfolding x i vs by simp_all
    then show thesis using that [OF q_def, of us bs cs] by blast
  qed
qed

lemma reorder_ok:
  assumes "order_ok xs" "p \<in> set xs" "i < length xs" "p \<noteq> xs ! i" "GROUP_OF p = GROUP_OF (xs ! i)"
  shows "order_ok (reorder p (int i) xs)"
proof -
  obtain as bs cs q where q: "q = xs ! i" and
    cases: "xs = as @ p # bs @ q # cs \<and> reorder p (int i) xs = as @ bs @ q # p # cs
     \<or> xs = as @ q # bs @ p # cs \<and> reorder p (int i) xs = as @ p # q # bs @ cs"
    using reorder_beside [OF order_ok_distinct [OF assms(1)] assms(2-4)] by metis
  have g: "group_rank p = group_rank q" using assms(5) by (simp add: group_rank_def q)
  show ?thesis using cases
  proof
    assume x: "xs = as @ p # bs @ q # cs \<and> reorder p (int i) xs = as @ bs @ q # p # cs"
    then show ?thesis using assms(1) g unfolding order_ok_def by (auto simp: sorted_append add_mset_commute)
  next
    assume x: "xs = as @ q # bs @ p # cs \<and> reorder p (int i) xs = as @ p # q # bs @ cs"
    then show ?thesis using assms(1) g unfolding order_ok_def by (auto simp: sorted_append add_mset_commute)
  qed
qed

section \<open>What is shown and what is saved\<close>

text \<open>
  Nothing pending and nothing dragged: the page shows what the server has. During a drag the
  state to return to is what the server has, and only the order differs. While a save is pending
  the page shows what was sent, and holds what the server still has.
\<close>

definition shown_and_saved :: "products_page \<Rightarrow> bool" where
  "shown_and_saved s =
     (case pr_saving s of
        None \<Rightarrow>
          (case pr_drag s of
             None \<Rightarrow> pr_state s = pr_saved s
           | Some (dragged, before) \<Rightarrow>
               before = pr_saved s \<and> ps_disabled (pr_state s) = ps_disabled before
               \<and> dragged \<in> set (map fst PRODUCTS) \<and> \<not> pr_readOnly s)
      | Some (sent, previous) \<Rightarrow> pr_drag s = None \<and> sent = pr_state s \<and> previous = pr_saved s)"

definition products_ok :: "products_page \<Rightarrow> bool" where
  "products_ok s \<longleftrightarrow>
     shown_and_saved s \<and> order_ok (ps_order (pr_state s)) \<and> order_ok (ps_order (pr_saved s))
     \<and> list_all (\<lambda>r. order_ok (ps_order r)) (pr_requests s) \<and> (if pr_readOnly s then pr_requests s = [] else True)"

lemma order_ok_set: "order_ok xs \<Longrightarrow> set xs = set (map fst PRODUCTS)"
  unfolding order_ok_def by (metis set_mset_mset)

lemma save_ok:
  assumes "products_ok s" "pr_saving s = None" "pr_drag s = None" "\<not> pr_readOnly s" "order_ok (ps_order n)"
  shows "products_ok (save_products n (pr_state s) s)"
  using assms by (simp add: products_ok_def shown_and_saved_def save_products_def)

lemma move_ok:
  assumes ok: "products_ok s" "pr_saving s = None" "pr_drag s = None" "\<not> pr_readOnly s"
    and i: "i < length (ps_order (pr_state s))" "j < length (ps_order (pr_state s))" "i \<noteq> j"
    and g: "GROUP_OF (ps_order (pr_state s) ! i) = GROUP_OF (ps_order (pr_state s) ! j)"
  shows "products_ok (move_product (ps_order (pr_state s) ! i) (int j) s)"
proof -
  let ?xs = "ps_order (pr_state s)"
  have o: "order_ok ?xs" using ok(1) by (simp add: products_ok_def)
  have "?xs ! i \<noteq> ?xs ! j" using order_ok_distinct [OF o] i by (simp add: nth_eq_iff_index_eq)
  then have "order_ok (reorder (?xs ! i) (int j) ?xs)" using reorder_ok [OF o _ i(2) _ g] i(1) by simp
  then show ?thesis
    using save_ok [OF ok, of "pr_state s\<lparr>ps_order := reorder (?xs ! i) (int j) ?xs\<rparr>"] ok(1)
    by (simp add: move_product_def Let_def)
qed

lemma same_group_nth:
  "sameGroup a (nth_product xs k) \<Longrightarrow> \<exists>j. k = int j \<and> j < length xs \<and> GROUP_OF a = GROUP_OF (xs ! j)"
  by (auto simp: sameGroup_def nth_product_def nat_less_iff split: if_splits intro!: exI [of _ "nat k"])

lemma products_step_ok:
  assumes ok: "products_ok s"
  shows "products_ok (products_step e s)"
proof (cases e)
  case (Switched i)
  show ?thesis
  proof (cases "pr_drag s = None \<and> pr_saving s = None \<and> \<not> pr_readOnly s")
    case True
    have "order_ok (ps_order (pr_state s))" using ok by (simp add: products_ok_def)
    then show ?thesis using True ok
      by (auto simp: Switched products_step_def toggle_product_def Let_def intro!: save_ok)
  next
    case False
    then show ?thesis using ok by (auto simp: Switched products_step_def is_saving_def Let_def)
  qed
next
  case (Moved_up i)
  show ?thesis
  proof (cases "pr_drag s \<noteq> None \<or> i \<ge> length (ps_order (pr_state s)) \<or> is_saving s
      \<or> \<not> sameGroup (ps_order (pr_state s) ! i) (nth_product (ps_order (pr_state s)) (int i - 1))")
    case False
    then obtain j where "int i - 1 = int j" "j < length (ps_order (pr_state s))"
      "GROUP_OF (ps_order (pr_state s) ! i) = GROUP_OF (ps_order (pr_state s) ! j)"
      using same_group_nth by blast
    moreover have "pr_saving s = None" "pr_drag s = None" "\<not> pr_readOnly s" "i < length (ps_order (pr_state s))"
      using False unfolding is_saving_def by (blast, blast, blast, simp)
    ultimately have "products_ok (move_product (ps_order (pr_state s) ! i) (int j) s)"
      by (intro move_ok [OF ok]) auto
    then show ?thesis using False \<open>int i - 1 = int j\<close> by (simp add: Moved_up products_step_def Let_def)
  qed (use ok in \<open>simp add: Moved_up products_step_def Let_def\<close>)
next
  case (Moved_down i)
  show ?thesis
  proof (cases "pr_drag s \<noteq> None \<or> i \<ge> length (ps_order (pr_state s)) \<or> is_saving s
      \<or> \<not> sameGroup (ps_order (pr_state s) ! i) (nth_product (ps_order (pr_state s)) (int i + 1))")
    case False
    then obtain j where "int i + 1 = int j" "j < length (ps_order (pr_state s))"
      "GROUP_OF (ps_order (pr_state s) ! i) = GROUP_OF (ps_order (pr_state s) ! j)"
      using same_group_nth by blast
    moreover have "pr_saving s = None" "pr_drag s = None" "\<not> pr_readOnly s" "i < length (ps_order (pr_state s))"
      using False unfolding is_saving_def by (blast, blast, blast, simp)
    ultimately have "products_ok (move_product (ps_order (pr_state s) ! i) (int j) s)"
      by (intro move_ok [OF ok]) auto
    then show ?thesis using False \<open>int i + 1 = int j\<close> by (simp add: Moved_down products_step_def Let_def)
  qed (use ok in \<open>simp add: Moved_down products_step_def Let_def\<close>)
next
  case (Drag_started i)
  have "ps_order (pr_state s) ! i \<in> set (map fst PRODUCTS)" if "i < length (ps_order (pr_state s))"
    using that ok order_ok_set nth_mem unfolding products_ok_def by blast
  then show ?thesis using ok
    by (auto simp: Drag_started products_step_def products_ok_def shown_and_saved_def is_saving_def Let_def
        split: option.splits)
next
  case (Dragged_over i)
  show ?thesis
  proof (cases "pr_drag s")
    case (Some db)
    obtain d b where db: "db = (d, b)" by (cases db)
    have o: "order_ok (ps_order (pr_state s))" and "pr_saving s = None" and "d \<in> set (map fst PRODUCTS)"
      using ok Some by (auto simp: products_ok_def shown_and_saved_def db split: option.splits)
    then have "order_ok (reorder d (int i) (ps_order (pr_state s)))"
      if "i < length (ps_order (pr_state s))" "d \<noteq> ps_order (pr_state s) ! i"
        "GROUP_OF d = GROUP_OF (ps_order (pr_state s) ! i)"
      using reorder_ok [OF o _ that] order_ok_set [OF o] by simp
    then show ?thesis using ok Some \<open>pr_saving s = None\<close>
      by (simp add: Dragged_over products_step_def products_ok_def shown_and_saved_def db sameGroup_def Let_def)
  qed (use ok in \<open>simp add: Dragged_over products_step_def\<close>)
next
  case Drag_ended
  show ?thesis
  proof (cases "pr_drag s")
    case (Some db)
    obtain d b where db: "db = (d, b)" by (cases db)
    have "pr_saving s = None" "b = pr_saved s" "ps_disabled (pr_state s) = ps_disabled b" "\<not> pr_readOnly s"
      using ok Some by (auto simp: products_ok_def shown_and_saved_def db split: option.splits)
    then show ?thesis using ok Some
      by (auto simp: Drag_ended products_step_def products_ok_def shown_and_saved_def save_products_def db Let_def)
  qed (use ok in \<open>simp add: Drag_ended products_step_def\<close>)
next
  case (Answered a)
  show ?thesis
  proof (cases "pr_saving s")
    case (Some sp)
    then show ?thesis using ok
      by (auto simp: Answered products_step_def save_answered_def products_ok_def shown_and_saved_def split: prod.splits)
  qed (use ok in \<open>simp add: Answered products_step_def save_answered_def\<close>)
qed

text \<open>
  C33: Whatever is switched, moved, dragged and refused, in whatever order: once nothing is pending
  the page shows what the server has, a refused save is put back exactly, every order shown or
  sent lists every product once with each sidebar group together, and a reader who may not
  change the project sends nothing.
\<close>

theorem products_shown_are_saved:
  "products_ok (products_after es (open_products readOnly product_order disabled))"
proof -
  have "products_ok (open_products readOnly product_order disabled)"
    using opened_order_ok [of readOnly product_order disabled]
    by (simp add: products_ok_def shown_and_saved_def open_products_def Let_def)
  moreover have "products_ok (fold products_step es s)" if "products_ok s" for s
    using that by (induction es arbitrary: s) (simp_all add: products_step_ok)
  ultimately show ?thesis by (simp add: products_after_def)
qed

text \<open>Issues are kept whatever is disabled, and agents only with performance.\<close>

lemma kept_products:
  "keepsProduct d LOCKED_PRODUCT" "keepsProduct d ''agents'' \<Longrightarrow> keepsProduct d ''performance''"
  by (simp_all add: keepsProduct_def LOCKED_PRODUCT_def split: if_splits)

end
