(* ===== verification/ProjectForm.thy ===== *)
theory ProjectForm
  imports FormErrors
begin

text \<open>
  Creating a project: the rules of a name and a slug (\<open>features/project/model/fields.ts\<close>), the slug
  that follows the name until it is taken over (\<open>use-project-slug.ts\<close>), the form with what it
  sends (\<open>create-project-form.tsx\<close>, \<open>identity-fields.tsx\<close>); and the small readings
  \<open>model/rate-limit.ts\<close>, \<open>lib/health.ts\<close>, \<open>lib/overview-series.ts\<close>. react-hook-form holds the
  values, runs the schema before \<open>onSubmit\<close> and counts a field as dirty when it was typed into and
  differs from its default.
\<close>

section \<open>Fields\<close>

definition PROJECT_NAME_MIN_LENGTH :: nat where "PROJECT_NAME_MIN_LENGTH = 2"
definition PROJECT_NAME_MAX_LENGTH :: nat where "PROJECT_NAME_MAX_LENGTH = 100"

text \<open>A field's value after its transformations, or the keys of its messages.\<close>

definition projectNameField :: "string \<Rightarrow> string list + string" where
  "projectNameField v =
     (let s = trim v;
          issues = (if length s < PROJECT_NAME_MIN_LENGTH then [''fields.nameTooShort''] else [])
                 @ (if length s > PROJECT_NAME_MAX_LENGTH then [''fields.nameTooLong''] else [])
      in if issues = [] then Inr s else Inl issues)"

definition slug_char :: "char \<Rightarrow> bool" where
  "slug_char c \<longleftrightarrow> is_lower c \<or> is_digit c"

text \<open>\<open>[a-z0-9]+([-_][a-z0-9]+)*\<close> on what is left, after a letter or digit or not.\<close>

fun slug_rest :: "bool \<Rightarrow> string \<Rightarrow> bool" where
  "slug_rest in_word [] = in_word"
| "slug_rest in_word (c # cs) =
     (if slug_char c then slug_rest True cs
      else in_word \<and> (c = CHR ''-'' \<or> c = CHR ''_'') \<and> slug_rest False cs)"

definition projectSlugField :: "string \<Rightarrow> string list + string" where
  "projectSlugField v =
     (let s = trim v;
          issues = (if s = [] then [''fields.slugEmpty''] else [])
                 @ (if slug_rest False s then [] else [''fields.slugChars''])
      in if issues = [] then Inr s else Inl issues)"

text \<open>
  \<open>normalize('NFKD')\<close> on a lowercase Latin-1 character, less what the next step drops anyway
  (combining marks, the fraction slash, Greek mu): letters lose their accents, the spacing accents
  and the no-break space decompose to a space, ordinals and fractions to letters and digits.
  Lowering first gives the same on Latin-1.
\<close>

definition nfkd :: "char \<Rightarrow> string" where
  "nfkd c =
     (let n = of_char c :: nat
      in if n \<in> {160, 168, 175, 180, 184} then '' ''
         else if n = 170 \<or> 224 \<le> n \<and> n \<le> 229 then ''a''
         else if n = 186 \<or> 242 \<le> n \<and> n \<le> 246 then ''o''
         else if n = 178 then ''2'' else if n = 179 then ''3'' else if n = 185 then ''1''
         else if n = 188 then ''14'' else if n = 189 then ''12'' else if n = 190 then ''34''
         else if n = 231 then ''c''
         else if 232 \<le> n \<and> n \<le> 235 then ''e''
         else if 236 \<le> n \<and> n \<le> 239 then ''i''
         else if n = 241 then ''n''
         else if 249 \<le> n \<and> n \<le> 252 then ''u''
         else if n = 253 \<or> n = 255 then ''y''
         else [c])"

definition preview_char :: "char \<Rightarrow> bool" where
  "preview_char c \<longleftrightarrow> slug_char c \<or> c = CHR ''_'' \<or> is_ws c \<or> c = CHR ''-''"

definition dash_or_ws :: "char \<Rightarrow> bool" where
  "dash_or_ws c \<longleftrightarrow> c = CHR ''-'' \<or> is_ws c"

text \<open>\<open>replace(/[-\s]+/g, '-')\<close>\<close>

fun dashes :: "bool \<Rightarrow> string \<Rightarrow> string" where
  "dashes after_dash [] = []"
| "dashes after_dash (c # cs) =
     (if dash_or_ws c then (if after_dash then dashes True cs else CHR ''-'' # dashes True cs)
      else c # dashes False cs)"

definition slugifyPreview :: "string \<Rightarrow> string" where
  "slugifyPreview v = dashes False (filter preview_char (concat (map nfkd (to_lower v))))"

lemma slugify_examples:
  "slugifyPreview ''My  App'' = ''my-app''" "slugifyPreview ''my-'' = ''my-''"
  "slugifyPreview (''Caf'' @ [CHR 0xC9]) = ''cafe''" "slugifyPreview ''$$'' = []"
  by code_simp+

section \<open>The form\<close>

text \<open>The names \<open>p-2\<close> to \<open>p-999\<close> in turn; with all of them taken, the platform itself.\<close>

fun suggest_from :: "nat \<Rightarrow> nat \<Rightarrow> string \<Rightarrow> string set \<Rightarrow> string" where
  "suggest_from 0 n p taken = p"
| "suggest_from (Suc left) n p taken =
     (let candidate = p @ ''-'' @ nat_str n
      in if candidate \<notin> taken then candidate else suggest_from left (n + 1) p taken)"

definition suggestName :: "string \<Rightarrow> string set \<Rightarrow> string" where
  "suggestName platformId taken =
     (if platformId \<notin> taken then platformId else suggest_from 998 2 platformId taken)"

record create_body =
  cb_name :: string
  cb_platform :: string
  cb_slug :: "string option"

record create_form =
  pf_platform :: string
  pf_name :: string
  pf_slug :: string
  pf_dirty :: bool  \<comment> \<open>\<open>dirtyFields.name\<close>\<close>
  pf_isManual :: bool
  pf_pending :: bool
  pf_calls :: "form_call list"
  pf_toasts :: "jv list"
  pf_requests :: "create_body list"
  pf_pushed :: "string list"

definition new_form :: create_form where
  "new_form = \<lparr>pf_platform = [], pf_name = [], pf_slug = [], pf_dirty = False, pf_isManual = False,
     pf_pending = False, pf_calls = [], pf_toasts = [], pf_requests = [], pf_pushed = []\<rparr>"

definition deriveFromName :: "create_form \<Rightarrow> create_form" where
  "deriveFromName f = f\<lparr>pf_slug := slugifyPreview (pf_name f)\<rparr>"

definition syncFromName :: "string \<Rightarrow> create_form \<Rightarrow> create_form" where
  "syncFromName name f = (if pf_isManual f then f else f\<lparr>pf_slug := slugifyPreview name\<rparr>)"

definition toggle_slug :: "create_form \<Rightarrow> create_form" where
  "toggle_slug f =
     (if \<not> pf_isManual f then f\<lparr>pf_isManual := True\<rparr> else deriveFromName (f\<lparr>pf_isManual := False\<rparr>))"

definition takeOver :: "create_form \<Rightarrow> create_form" where
  "takeOver f = f\<lparr>pf_isManual := True\<rparr>"

definition handlePlatformChange :: "string set \<Rightarrow> string \<Rightarrow> create_form \<Rightarrow> create_form" where
  "handlePlatformChange taken platformId f =
     (let f1 = f\<lparr>pf_platform := platformId\<rparr>
      in if pf_dirty f1 then f1
         else let suggested = suggestName platformId taken
              in syncFromName suggested (f1\<lparr>pf_name := suggested\<rparr>))"

definition name_typed :: "string \<Rightarrow> create_form \<Rightarrow> create_form" where
  "name_typed v f = syncFromName v (f\<lparr>pf_name := v, pf_dirty := (v \<noteq> [])\<rparr>)"

definition slug_typed :: "string \<Rightarrow> create_form \<Rightarrow> create_form" where
  "slug_typed v f = f\<lparr>pf_slug := slugifyPreview v\<rparr>"

text \<open>\<open>handleSubmit(onSubmit)\<close>: nothing is sent unless the schema accepts all three fields.\<close>

definition create_submit :: "create_form \<Rightarrow> create_form" where
  "create_submit f =
     (if pf_platform f = [] then f
      else case (projectNameField (pf_name f), projectSlugField (pf_slug f)) of
             (Inr name, Inr slug) \<Rightarrow>
               f\<lparr>pf_pending := True,
                 pf_requests := pf_requests f @
                   [\<lparr>cb_name = name, cb_platform = pf_platform f,
                     cb_slug = (if pf_isManual f then Some slug else None)\<rparr>]\<rparr>
           | _ \<Rightarrow> f)"

text \<open>The answer: the project created, or why it was refused.\<close>

definition create_answered ::
  "form_control \<Rightarrow> (string \<times> string) list \<Rightarrow> translate \<Rightarrow> rustrak_error + int \<Rightarrow> create_form \<Rightarrow> create_form" where
  "create_answered control labels t answer f =
     (let f1 = f\<lparr>pf_pending := False\<rparr>
      in case answer of
           Inr project_id \<Rightarrow>
             f1\<lparr>pf_pushed := pf_pushed f1 @ [''/projects/'' @ int_str project_id @ ''/settings/client-keys'']\<rparr>
         | Inl err \<Rightarrow>
             (case applyServerFieldErrors control err [] labels t of
                (calls, applied) \<Rightarrow>
                  let f2 = f1\<lparr>pf_calls := pf_calls f1 @ calls\<rparr>;
                      f3 = (if ''slug'' \<in> set (marked_names applied) then takeOver f2 else f2)
                  in case formLevel applied of
                       Some level \<Rightarrow> if level = [] then f3 else f3\<lparr>pf_toasts := pf_toasts f3 @ [JStr level]\<rparr>
                     | None \<Rightarrow> f3))"

datatype create_event =
    Platform_picked string
  | Name_typed string
  | Slug_typed string
  | Slug_toggled
  | Create_submitted
  | Create_answer "rustrak_error + int"

text \<open>While a request is pending the inputs are off; the slug's is read-only while automatic.\<close>

definition create_step ::
  "string set \<Rightarrow> form_control \<Rightarrow> (string \<times> string) list \<Rightarrow> translate \<Rightarrow> create_event \<Rightarrow> create_form \<Rightarrow> create_form" where
  "create_step taken control labels t e f =
     (case e of
        Platform_picked p \<Rightarrow> if pf_pending f then f else handlePlatformChange taken p f
      | Name_typed v \<Rightarrow> if pf_pending f then f else name_typed v f
      | Slug_typed v \<Rightarrow> if pf_pending f \<or> \<not> pf_isManual f then f else slug_typed v f
      | Slug_toggled \<Rightarrow> if pf_pending f then f else toggle_slug f
      | Create_submitted \<Rightarrow> if pf_pending f then f else create_submit f
      | Create_answer a \<Rightarrow> if pf_pending f then create_answered control labels t a f else f)"

definition create_after ::
  "string set \<Rightarrow> form_control \<Rightarrow> (string \<times> string) list \<Rightarrow> translate \<Rightarrow> create_event list \<Rightarrow> create_form" where
  "create_after taken control labels t es = fold (create_step taken control labels t) es new_form"

section \<open>What the preview does\<close>

lemma slug_char_facts:
  "slug_char c \<Longrightarrow> char_lower c = c \<and> nfkd c = [c] \<and> \<not> dash_or_ws c \<and> preview_char c"
  by (auto simp: slug_char_def is_lower_def is_digit_def char_lower_def nfkd_def dash_or_ws_def is_ws_def
      preview_char_def)

definition preview_kept :: "char \<Rightarrow> bool" where
  "preview_kept c \<longleftrightarrow> slug_char c \<or> c = CHR ''_'' \<or> c = CHR ''-''"

lemma kept_facts: "preview_kept c \<Longrightarrow> char_lower c = c \<and> nfkd c = [c] \<and> preview_char c"
  using slug_char_facts [of c] by (auto simp: preview_kept_def char_lower_def nfkd_def preview_char_def)

lemma kept_lower: "list_all preview_kept s \<Longrightarrow> filter preview_char (concat (map nfkd (to_lower s))) = s"
  by (induction s) (simp_all add: to_lower_def kept_facts)

lemma dashes_kept: "list_all preview_char s \<Longrightarrow> list_all preview_kept (dashes b s)"
  by (induction s arbitrary: b) (auto simp: preview_char_def preview_kept_def dash_or_ws_def)

lemma dashes_again: "dashes b (dashes b s) = dashes b s"
proof (induction s arbitrary: b)
  case (Cons c s)
  show ?case using Cons.IH by (auto simp: dash_or_ws_def)
qed simp

text \<open>The preview is made of letters, digits, dashes and underscores, and a second pass leaves it alone.\<close>

lemma preview_stable:
  "list_all preview_kept (slugifyPreview v)" "slugifyPreview (slugifyPreview v) = slugifyPreview v"
proof -
  show kept: "list_all preview_kept (slugifyPreview v)"
    unfolding slugifyPreview_def by (rule dashes_kept) (simp add: list_all_iff)
  have "slugifyPreview (slugifyPreview v) = dashes False (slugifyPreview v)"
    using kept_lower [OF kept] by (simp add: slugifyPreview_def)
  also have "\<dots> = slugifyPreview v" by (simp add: slugifyPreview_def dashes_again)
  finally show "slugifyPreview (slugifyPreview v) = slugifyPreview v" .
qed

section \<open>What is sent\<close>

definition body_valid :: "create_body \<Rightarrow> bool" where
  "body_valid b \<longleftrightarrow>
     cb_platform b \<noteq> [] \<and> PROJECT_NAME_MIN_LENGTH \<le> length (cb_name b) \<and> length (cb_name b) \<le> PROJECT_NAME_MAX_LENGTH
     \<and> trim (cb_name b) = cb_name b
     \<and> (case cb_slug b of None \<Rightarrow> True | Some s \<Rightarrow> slug_rest False s \<and> list_all (\<lambda>c. slug_char c \<or> c = CHR ''-'' \<or> c = CHR ''_'') s)"

definition create_ok :: "create_form \<Rightarrow> bool" where
  "create_ok f \<longleftrightarrow>
     (pf_isManual f \<or> pf_slug f = slugifyPreview (pf_name f)) \<and> list_all preview_kept (pf_slug f)
     \<and> list_all body_valid (pf_requests f)"

lemma slug_rest_chars: "slug_rest b s \<Longrightarrow> list_all (\<lambda>c. slug_char c \<or> c = CHR ''-'' \<or> c = CHR ''_'') s"
  by (induction b s rule: slug_rest.induct) (auto split: if_splits)

lemma sent_valid:
  assumes "pf_platform f \<noteq> []" "projectNameField (pf_name f) = Inr name" "projectSlugField (pf_slug f) = Inr slug"
  shows "body_valid \<lparr>cb_name = name, cb_platform = pf_platform f, cb_slug = (if pf_isManual f then Some slug else None)\<rparr>"
proof -
  have "name = trim (pf_name f)" "PROJECT_NAME_MIN_LENGTH \<le> length name" "length name \<le> PROJECT_NAME_MAX_LENGTH"
    using assms(2) by (auto simp: projectNameField_def Let_def split: if_splits)
  moreover have "slug_rest False slug"
    using assms(3) by (auto simp: projectSlugField_def Let_def split: if_splits)
  ultimately show ?thesis using assms(1) slug_rest_chars by (auto simp: body_valid_def)
qed

lemma synced [simp]:
  "create_ok f \<Longrightarrow> create_ok (syncFromName v (f\<lparr>pf_name := v, pf_dirty := d\<rparr>))"
  "create_ok f \<Longrightarrow> create_ok (syncFromName v (f\<lparr>pf_name := v, pf_platform := p\<rparr>))"
  by (simp_all add: create_ok_def syncFromName_def preview_stable)

lemma create_step_ok: "create_ok f \<Longrightarrow> create_ok (create_step taken control labels t e f)"
proof (cases e)
  case (Platform_picked p)
  assume "create_ok f"
  then show ?thesis
    by (auto simp: Platform_picked create_step_def handlePlatformChange_def create_ok_def syncFromName_def
        preview_stable Let_def)
next
  case (Create_submitted)
  assume ok: "create_ok f"
  show ?thesis
  proof (cases "pf_pending f \<or> pf_platform f = []")
    case False
    show ?thesis
    proof (cases "projectNameField (pf_name f)")
      case (Inr name)
      note name = this
      show ?thesis
      proof (cases "projectSlugField (pf_slug f)")
        case (Inr slug)
        then show ?thesis using False ok name sent_valid [of f name slug]
          by (simp add: Create_submitted create_step_def create_submit_def create_ok_def)
      qed (use False ok name in \<open>simp add: Create_submitted create_step_def create_submit_def\<close>)
    qed (use False ok in \<open>simp add: Create_submitted create_step_def create_submit_def\<close>)
  qed (use ok in \<open>auto simp: Create_submitted create_step_def create_submit_def\<close>)
next
  case (Create_answer a)
  assume "create_ok f"
  then show ?thesis
    by (auto simp: Create_answer create_step_def create_answered_def create_ok_def takeOver_def Let_def
        split: sum.splits prod.splits option.splits)
qed (auto simp: create_step_def name_typed_def slug_typed_def toggle_slug_def deriveFromName_def create_ok_def
    syncFromName_def preview_stable)

text \<open>
  However the form is filled in, submitted and refused: while the slug is automatic it is the
  preview of the name that stands in the field, the slug field holds only characters of a slug,
  and every request has a platform, a trimmed name the server's bounds accept and, only where
  the slug was taken over, a slug of words joined by single dashes or underscores.
\<close>

theorem created_projects_are_valid:
  "create_ok (create_after taken control labels t es)"
proof -
  have "create_ok (fold (create_step taken control labels t) es f)" if "create_ok f" for f
    using that by (induction es arbitrary: f) (simp_all add: create_step_ok)
  moreover have "create_ok new_form" by (simp add: create_ok_def new_form_def) code_simp
  ultimately show ?thesis by (simp add: create_after_def)
qed

text \<open>A slug the server refused can be edited: the field is handed over.\<close>

lemma rejected_slug_is_editable:
  assumes "applyServerFieldErrors control err [] labels t = (calls, res)" and "''slug'' \<in> set (marked_names res)"
  shows "pf_isManual (create_answered control labels t (Inl err) f)"
  using assms by (simp add: create_answered_def takeOver_def Let_def split: option.splits)

text \<open>The suggested name is taken only when every one of them is.\<close>

lemma suggest_from_taken:
  "suggest_from k n p taken \<in> taken \<Longrightarrow> i < k \<Longrightarrow> p @ ''-'' @ nat_str (n + i) \<in> taken"
proof (induction k arbitrary: n i)
  case (Suc k)
  then have "p @ ''-'' @ nat_str n \<in> taken" "suggest_from k (n + 1) p taken \<in> taken"
    by (auto simp: Let_def split: if_splits)
  then show ?case using Suc.IH [of "n + 1"] Suc.prems(2) by (cases i) auto
qed simp

lemma suggestName_free:
  assumes "p @ ''-'' @ nat_str n \<notin> taken" "2 \<le> n" "n < 1000"
  shows "suggestName p taken \<notin> taken"
proof -
  have "2 + (n - 2) = n" "n - 2 < 998" using assms by simp_all
  then have "suggest_from 998 2 p taken \<notin> taken"
    using suggest_from_taken [of 998 2 p taken "n - 2"] assms(1) by metis
  then show ?thesis by (simp add: suggestName_def)
qed

text \<open>
  The schema holds an automatic slug to the rules of a sent one: a name the name field accepts,
  with a space after it, is not submitted, although its slug would not be sent, and the field the
  message is put under is read-only.
\<close>

lemma automatic_slug_blocks:
  "let f = name_typed ''My app '' (handlePlatformChange {} ''go'' new_form)
   in projectNameField (pf_name f) = Inr ''My app'' \<and> \<not> pf_isManual f
      \<and> projectSlugField (pf_slug f) = Inl [''fields.slugChars''] \<and> create_submit f = f"
  by code_simp

section \<open>Smaller readings\<close>

definition parseRateLimit :: "string \<Rightarrow> int option option" where
  "parseRateLimit raw =
     (let trimmed = trim raw
      in if trimmed = [] then Some None
         else if \<not> list_all is_digit trimmed then None
         else case as_integer (js_Number trimmed) of
                Some v \<Rightarrow> if v \<ge> 1 \<and> v \<le> 2 ^ 53 - 1 then Some (Some v) else None
              | None \<Rightarrow> None)"

text \<open>A limit that is shown is read back as it is; nothing else is an exact limit of one or more.\<close>

lemma rate_limit_read_back:
  assumes "1 \<le> n" "n \<le> 2 ^ 53 - 1"
  shows "parseRateLimit (int_str n) = Some (Some n)"
proof -
  have s: "int_str n = nat_str (nat n)" using assms(1) by (simp add: int_str_def)
  then have d: "list_all is_digit (int_str n)" by (auto simp: list_all_iff intro: nat_str_digits)
  then have "\<forall>c \<in> set (int_str n). \<not> is_ws c" by (simp add: list_all_iff is_digit_facts)
  then have "trim (int_str n) = int_str n" by (rule trim_no_ws)
  then show ?thesis using d assms by (simp add: parseRateLimit_def js_Number_int_str as_integer_def)
qed

datatype project_health = Critical | Rising | Quiet

definition projectHealth :: "int \<Rightarrow> int \<Rightarrow> int option \<Rightarrow> project_health" where
  "projectHealth fatal_issues current previous =
     (if fatal_issues > 0 then Critical
      else case previous of Some p \<Rightarrow> if current > p then Rising else Quiet | None \<Rightarrow> Quiet)"

definition withPreviousPeriod :: "int list \<Rightarrow> int list \<Rightarrow> (int \<times> int) list" where
  "withPreviousPeriod current doubled =
     map (\<lambda>(i, v). (v, case at_index doubled i of Some p \<Rightarrow> p | None \<Rightarrow> 0)) (enumerate 0 current)"

text \<open>Over the doubled window, the buckets paired with the current ones are the first half of it.\<close>

lemma previous_is_first_half:
  "length before = length current \<Longrightarrow>
     map snd (withPreviousPeriod current (before @ after)) = before"
  by (rule nth_equalityI)
    (simp_all add: withPreviousPeriod_def at_index_def nth_append enumerate_eq_zip)

end
