(* ===== verification/SearchParams.thy ===== *)
theory SearchParams
  imports JsBase
begin

text \<open>
  Reading and writing addresses: \<open>shared/lib/search-params.ts\<close>,
  \<open>shared/ui/hooks/use-table-url-state.ts\<close> and \<open>features/log/model/log-view.ts\<close>, with what the URL
  standard says of \<open>encodeURIComponent\<close> and \<open>URLSearchParams\<close> written out on Latin-1 text, and its
  decoders, which the encodings are proved against.
\<close>

section \<open>Query parameters\<close>

definition searchString :: "jv \<Rightarrow> string option" where
  "searchString v = (case v of JStr s \<Rightarrow> if length s > 0 then Some s else None | _ \<Rightarrow> None)"

text \<open>\<open>Number.parseInt(s, 10)\<close>: white space, a sign, the digits there are.\<close>

definition parseInt10 :: "string \<Rightarrow> jsnum" where
  "parseInt10 s =
     (let s1 = trim_start s;
          neg = (s1 \<noteq> [] \<and> hd s1 = CHR ''-'');
          s2 = (if s1 \<noteq> [] \<and> (hd s1 = CHR ''-'' \<or> hd s1 = CHR ''+'') then tl s1 else s1);
          ds = takeWhile is_digit s2
      in if ds = [] then NaN
         else Fin (if neg then - of_nat (digits_val ds) else of_nat (digits_val ds)))"

definition searchPage :: "jv \<Rightarrow> int option" where
  "searchPage v =
     (let raw = (case v of JNum n \<Rightarrow> n | _ \<Rightarrow> parseInt10 (js_str v))
      in case raw of Fin r \<Rightarrow> if r \<ge> 1 then Some \<lfloor>r\<rfloor> else None | _ \<Rightarrow> None)"

definition searchOneOf :: "jv \<Rightarrow> string list \<Rightarrow> string option" where
  "searchOneOf v allowed =
     (case searchString v of Some raw \<Rightarrow> if raw \<in> set allowed then Some raw else None | None \<Rightarrow> None)"

lemma parseInt10_nat [simp]: "parseInt10 (nat_str n) = Fin (of_nat n)"
proof -
  have d: "\<forall>c \<in> set (nat_str n). is_digit c" using nat_str_digits by blast
  then have h: "is_digit (hd (nat_str n))" by simp
  have "trim_start (nat_str n) = nat_str n"
    using d by (simp add: trim_start_def dropWhile_none is_digit_facts)
  moreover have t: "takeWhile is_digit (nat_str n) = nat_str n" using d by simp
  moreover have "hd (nat_str n) \<noteq> CHR ''-''" "hd (nat_str n) \<noteq> CHR ''+''" using is_digit_facts [OF h] by auto
  ultimately show ?thesis by (simp add: parseInt10_def Let_def t)
qed

text \<open>
  What is read as a page is a page, and read again, from the number or from its digits in the
  address, it is the same page: a route's canonical address is its own.
\<close>

lemma page_is_canonical:
  assumes "searchPage v = Some n"
  shows "1 \<le> n \<and> searchPage (JNum (Fin (of_int n))) = Some n \<and> searchPage (JStr (int_str n)) = Some n"
proof -
  have n: "1 \<le> n" using assms by (auto simp: searchPage_def Let_def split: jsnum.splits if_splits)
  then have "int_str n = nat_str (nat n)" "(of_nat (nat n) :: rat) = of_int n" by (simp_all add: int_str_def)
  then show ?thesis using n by (simp add: searchPage_def)
qed

section \<open>The page of a table\<close>

record pagination = pg_index :: int pg_size :: int

definition table_pagination :: "int \<Rightarrow> int \<Rightarrow> pagination" where
  "table_pagination page perPage = \<lparr>pg_index = max 0 (page - 1), pg_size = perPage\<rparr>"

text \<open>The page navigated to, if the updater moves at all.\<close>

definition page_change :: "int \<Rightarrow> int \<Rightarrow> (pagination \<Rightarrow> pagination) \<Rightarrow> int option" where
  "page_change page perPage updater =
     (let next_page = updater (table_pagination page perPage)
      in if pg_index next_page = pg_index (table_pagination page perPage) then None
         else Some (pg_index next_page + 1))"

text \<open>A page that is navigated to is the page the table then shows.\<close>

lemma page_change_shown:
  assumes "page_change page perPage u = Some p" and "0 \<le> pg_index (u (table_pagination page perPage))"
  shows "pg_index (table_pagination p perPage) = pg_index (u (table_pagination page perPage)) \<and> 1 \<le> p"
  using assms by (auto simp: page_change_def table_pagination_def Let_def split: if_splits)

section \<open>Log messages\<close>

definition LOG_LEVELS :: "string list" where
  "LOG_LEVELS = [''trace'', ''debug'', ''info'', ''warn'', ''error'', ''fatal'']"

definition LEVEL_TONE :: "string \<Rightarrow> string option" where
  "LEVEL_TONE = map_of [(''fatal'', ''error''), (''error'', ''error''), (''warn'', ''warning''), (''info'', ''info'')]"

record log_volume =
  lv_bucket :: string lv_trace :: int lv_debug :: int lv_info :: int lv_warn :: int lv_error :: int lv_fatal :: int

record volume_bar = vb_t :: jsnum vb_debug :: int vb_info :: int vb_warn :: int vb_error :: int

definition volumeBars :: "(string \<Rightarrow> jsnum) \<Rightarrow> log_volume list \<Rightarrow> volume_bar list" where
  "volumeBars date_parse points =
     map (\<lambda>p. \<lparr>vb_t = date_parse (lv_bucket p), vb_debug = lv_trace p + lv_debug p, vb_info = lv_info p,
              vb_warn = lv_warn p, vb_error = lv_error p + lv_fatal p\<rparr>) points"

lemma bars_keep_the_volume:
  "map (\<lambda>b. vb_debug b + vb_info b + vb_warn b + vb_error b) (volumeBars d ps)
   = map (\<lambda>p. lv_trace p + lv_debug p + lv_info p + lv_warn p + lv_error p + lv_fatal p) ps"
  by (simp add: volumeBars_def)

text \<open>Whether the needle stands at the start of the text, ignoring case as \<open>/iu\<close> does.\<close>

definition hit :: "string \<Rightarrow> string \<Rightarrow> bool" where
  "hit needle text_here \<longleftrightarrow> starts_with (to_lower needle) (to_lower text_here)"

text \<open>\<open>matchAll\<close>'s walk: \<open>plain\<close> is the text since the last match. A part is a match or not.\<close>

function cut_parts :: "string \<Rightarrow> string \<Rightarrow> string \<Rightarrow> (string \<times> bool) list" where
  "cut_parts needle [] plain = (if plain \<noteq> [] then [(plain, False)] else [])"
| "cut_parts needle (c # cs) plain =
     (if needle \<noteq> [] \<and> hit needle (c # cs)
      then (if plain \<noteq> [] then [(plain, False)] else [])
           @ (take (length needle) (c # cs), True) # cut_parts needle (drop (length needle) (c # cs)) []
      else cut_parts needle cs (plain @ [c]))"
  by pat_completeness auto
termination by (relation "measure (\<lambda>(n, t, p). length t)") auto

definition matchParts :: "string \<Rightarrow> string \<Rightarrow> (string \<times> bool) list" where
  "matchParts body query =
     (let needle = trim query in if needle = [] then [(body, False)] else cut_parts needle body [])"

lemma cut_concat: "concat (map fst (cut_parts n t p)) = p @ t"
  by (induction n t p rule: cut_parts.induct) simp_all

lemma hit_length: "hit n t \<Longrightarrow> length n \<le> length t \<and> to_lower (take (length n) t) = to_lower n"
proof -
  assume h: "hit n t"
  then have "take (length n) (map char_lower t) = map char_lower n"
    by (simp add: hit_def starts_with_def to_lower_def)
  moreover from this have "length n \<le> length t" by (metis length_map length_take min.cobounded1)
  ultimately show ?thesis by (simp add: to_lower_def take_map)
qed

lemma hit_prefix: "hit n t \<Longrightarrow> hit n (t @ u)"
  using hit_length [of n t] by (auto simp: hit_def starts_with_def to_lower_def take_map)

text \<open>No hit begins inside the plain text, whatever follows it.\<close>

definition no_hit_before :: "string \<Rightarrow> string \<Rightarrow> string \<Rightarrow> bool" where
  "no_hit_before n plain rest \<longleftrightarrow> (\<forall>i < length plain. \<not> hit n (drop i plain @ rest))"

lemma cut_exact:
  "n \<noteq> [] \<Longrightarrow> no_hit_before n p t \<Longrightarrow>
     (\<forall>(s, m) \<in> set (cut_parts n t p). if m then to_lower s = to_lower n
        else \<forall>i. \<not> hit n (drop i s))"
proof (induction n t p rule: cut_parts.induct)
  case (1 n p)
  have "\<not> hit n (drop i p)" for i
  proof (cases "i < length p")
    case True then show ?thesis using 1 by (auto simp: no_hit_before_def)
  next
    case False then show ?thesis using 1 hit_length [of n "[]"] by auto
  qed
  then show ?case by auto
next
  case (2 n c cs p)
  show ?case
  proof (cases "hit n (c # cs)")
    case True
    have plain: "\<not> hit n (drop i p)" for i
    proof (cases "i < length p")
      case True then show ?thesis using 2(4) hit_prefix by (auto simp: no_hit_before_def)
    next
      case False then show ?thesis using 2(3) hit_length [of n "[]"] by auto
    qed
    have "no_hit_before n [] t" for t by (simp add: no_hit_before_def)
    then show ?thesis using 2(1) [OF conjI [OF 2(3) True]] 2(3) plain True hit_length [OF True] by auto
  next
    case False
    have "no_hit_before n (p @ [c]) cs"
      unfolding no_hit_before_def
    proof (intro allI impI)
      fix i assume "i < length (p @ [c])"
      then consider "i < length p" | "i = length p" by fastforce
      then show "\<not> hit n (drop i (p @ [c]) @ cs)"
      proof cases
        case 1 then show ?thesis using 2(4) by (simp add: no_hit_before_def)
      next
        case 2 then show ?thesis using False by simp
      qed
    qed
    then show ?thesis using 2(2) 2(3) False by auto
  qed
qed

text \<open>
  The parts are the message, in order; the marked ones are the query, whatever the capitals, and
  nothing that is not marked holds it.
\<close>

definition part_exact :: "string \<Rightarrow> string \<times> bool \<Rightarrow> bool" where
  "part_exact needle p \<longleftrightarrow>
     (if snd p then to_lower (fst p) = to_lower needle
      else needle = [] \<or> \<not> list_ex (\<lambda>i. hit needle (drop i (fst p))) [0..<Suc (length (fst p))])"

lemma parts_are_the_message:
  "concat (map fst (matchParts body query)) = body \<and> list_all (part_exact (trim query)) (matchParts body query)"
proof (cases "trim query = []")
  case False
  have "no_hit_before (trim query) [] body" by (simp add: no_hit_before_def)
  moreover have "\<not> hit (trim query) []" using False hit_length [of "trim query" "[]"] by auto
  ultimately have "list_all (part_exact (trim query)) (cut_parts (trim query) body [])"
    using cut_exact [OF False, of "[]" body] by (auto simp: list_all_iff part_exact_def list_ex_iff)
  then show ?thesis using False by (simp add: matchParts_def cut_concat)
qed (simp add: matchParts_def part_exact_def)

section \<open>Percent encoding\<close>

definition hex_char :: "nat \<Rightarrow> char" where
  "hex_char k = (if k < 16 then ''0123456789ABCDEF'' ! k else CHR ''0'')"

definition percent :: "nat \<Rightarrow> string" where
  "percent b = [CHR ''%'', hex_char (b div 16), hex_char (b mod 16)]"

text \<open>The bytes of a Latin-1 character in UTF-8.\<close>

definition utf8_percent :: "char \<Rightarrow> string" where
  "utf8_percent c =
     (let n = of_char c :: nat
      in if n < 128 then percent n else percent (192 + n div 64) @ percent (128 + n mod 64))"

definition encodeURIComponent :: "string \<Rightarrow> string" where
  "encodeURIComponent s =
     concat (map (\<lambda>c. if is_alnum c \<or> c \<in> set ''-_.!~*'' \<or> c \<in> {CHR 0x27, CHR ''('', CHR '')''} then [c]
                      else utf8_percent c) s)"

text \<open>The serializer of \<open>application/x-www-form-urlencoded\<close>, which \<open>URLSearchParams\<close> writes.\<close>

definition form_char :: "char \<Rightarrow> string" where
  "form_char c =
     (if is_alnum c \<or> c \<in> set ''*-._'' then [c] else if c = CHR '' '' then ''+'' else utf8_percent c)"

definition form_encode :: "string \<Rightarrow> string" where
  "form_encode s = concat (map form_char s)"

definition form_query :: "(string \<times> string) list \<Rightarrow> string" where
  "form_query ps = join_with ''&'' (map (\<lambda>(k, v). form_encode k @ ''='' @ form_encode v) ps)"

definition hex_byte :: "char \<Rightarrow> char \<Rightarrow> nat option" where
  "hex_byte a b = Option.bind (hex_val a) (\<lambda>x. map_option (\<lambda>y. 16 * x + y) (hex_val b))"

text \<open>What reads it back: \<open>decodeURIComponent\<close>, and with \<open>form\<close> the form's parser. \<open>None\<close> is malformed.\<close>

fun percent_decode :: "bool \<Rightarrow> string \<Rightarrow> string option" where
  "percent_decode form [] = Some []"
| "percent_decode form (c # cs) =
     (if c = CHR ''%''
      then (case cs of
              a # b # rest \<Rightarrow>
                (case hex_byte a b of
                   None \<Rightarrow> None
                 | Some n \<Rightarrow>
                     if n < 128 then map_option ((#) (char_of n)) (percent_decode form rest)
                     else if n < 194 \<or> n > 195 then None
                     else (case rest of
                             p # d # e # rest2 \<Rightarrow>
                               (case hex_byte d e of
                                  None \<Rightarrow> None
                                | Some m \<Rightarrow>
                                    if p = CHR ''%'' \<and> 128 \<le> m \<and> m < 192
                                    then map_option ((#) (char_of ((n - 192) * 64 + (m - 128)))) (percent_decode form rest2)
                                    else None)
                           | _ \<Rightarrow> None))
            | _ \<Rightarrow> None)
      else map_option ((#) (if form \<and> c = CHR ''+'' then CHR '' '' else c)) (percent_decode form cs))"

lemma hex_digits: "k < 16 \<Longrightarrow> hex_char k \<in> set ''0123456789ABCDEF''"
  by (simp add: hex_char_def nth_mem del: set_simps)

lemma byte_parts: "(b :: nat) < 256 \<Longrightarrow> b div 16 < 16 \<and> b mod 16 < 16 \<and> b div 64 < 4 \<and> b mod 64 < 64"
  by (simp add: less_mult_imp_div_less)

lemma hex_val_char: "k < 16 \<Longrightarrow> hex_val (hex_char k) = Some k"
proof -
  have "list_all (\<lambda>k. hex_val (hex_char k) = Some k) [0..<16]" by code_simp
  then show "k < 16 \<Longrightarrow> hex_val (hex_char k) = Some k" by (simp add: list_all_iff)
qed

lemma hex_byte_percent: "b < 256 \<Longrightarrow> hex_byte (hex_char (b div 16)) (hex_char (b mod 16)) = Some b"
proof -
  assume "b < 256"
  then have "hex_val (hex_char (b div 16)) = Some (b div 16)" "hex_val (hex_char (b mod 16)) = Some (b mod 16)"
    using byte_parts [of b] hex_val_char [of "b div 16"] hex_val_char [of "b mod 16"] by blast+
  then show ?thesis unfolding hex_byte_def by simp
qed

lemma decode_percent:
  "percent_decode form (utf8_percent c @ t) = map_option ((#) c) (percent_decode form t)"
proof -
  define n where "n = (of_char c :: nat)"
  have n: "n < 256" "char_of n = c" by (simp_all add: n_def nat_of_char_less_256)
  show ?thesis
  proof (cases "n < 128")
    case True
    then show ?thesis using hex_byte_percent [of n] n by (simp add: utf8_percent_def percent_def n_def [symmetric])
  next
    case False
    have d: "n div 64 = 2 \<or> n div 64 = 3" using div_le_mono [of 128 n 64] byte_parts [OF n(1)] False by simp linarith
    have "192 + n div 64 < 256" "128 + n mod 64 < 256" using d by auto
    note bytes = hex_byte_percent [OF this(1)] hex_byte_percent [OF this(2)]
    have "(192 + n div 64 - 192) * 64 + (128 + n mod 64 - 128) = n" by simp
    then show ?thesis using bytes d False n(2)
      by (auto simp: utf8_percent_def percent_def n_def [symmetric] Let_def)
  qed
qed

lemma decode_component: "percent_decode False (encodeURIComponent s) = Some s"
proof (induction s)
  case (Cons c s)
  have "c \<noteq> CHR ''%''" if "is_alnum c \<or> c \<in> set ''-_.!~*'' \<or> c \<in> {CHR 0x27, CHR ''('', CHR '')''}"
    using that by (auto simp: is_alnum_def is_lower_def is_upper_def is_digit_def)
  then show ?case using Cons by (auto simp: encodeURIComponent_def decode_percent)
qed (simp add: encodeURIComponent_def)

lemma decode_form: "percent_decode True (form_encode s) = Some s"
proof (induction s)
  case (Cons c s)
  have "c \<noteq> CHR ''%'' \<and> c \<noteq> CHR ''+''" if "is_alnum c \<or> c \<in> set ''*-._''"
    using that by (auto simp: is_alnum_def is_lower_def is_upper_def is_digit_def)
  then show ?case using Cons by (auto simp: form_encode_def form_char_def decode_percent)
qed (simp add: form_encode_def)

text \<open>Nothing that delimits an address comes out of either.\<close>

definition delimiter :: "char \<Rightarrow> bool" where
  "delimiter c \<longleftrightarrow> c \<in> set ''/?#&= ''"

lemma hex_char_plain: "k < 16 \<Longrightarrow> \<not> delimiter (hex_char k)"
  using hex_digits [of k] by (auto simp: delimiter_def)

lemma percent_plain: "b < 256 \<Longrightarrow> \<forall>x \<in> set (percent b). \<not> delimiter x"
proof -
  assume "b < 256"
  then show ?thesis using byte_parts [of b] hex_char_plain by (auto simp: percent_def) (auto simp: delimiter_def)
qed

lemma utf8_plain: "x \<in> set (utf8_percent c) \<Longrightarrow> \<not> delimiter x"
proof -
  have n: "(of_char c :: nat) < 256" by (rule nat_of_char_less_256)
  have "192 + m div 64 < 256 \<and> 128 + m mod 64 < 256" if "m < 256" for m :: nat
    using byte_parts [OF that] by linarith
  from this [OF n] show "x \<in> set (utf8_percent c) \<Longrightarrow> \<not> delimiter x"
    using percent_plain [OF n] percent_plain [of "192 + of_char c div 64"] percent_plain [of "128 + of_char c mod 64"]
    unfolding utf8_percent_def Let_def by (auto simp del: nat_of_char_less_256 split: if_splits)
qed

lemma encoded_is_one_segment:
  "x \<in> set (encodeURIComponent s) \<Longrightarrow> \<not> delimiter x" "x \<in> set (form_encode s) \<Longrightarrow> \<not> delimiter x"
  by (auto simp: encodeURIComponent_def form_encode_def form_char_def utf8_plain split: if_splits)
    (auto simp: delimiter_def is_alnum_def is_lower_def is_upper_def is_digit_def)

end
