(* ===== verification/Links.thy ===== *)
theory Links
  imports SearchParams
begin

text \<open>
  The addresses the dashboard writes and the small view models beside them:
  \<open>features/transaction/model/endpoints.ts\<close>, \<open>features/release/model/session-health.ts\<close> with
  \<open>releases-table.tsx\<close> (\<open>releaseHref\<close>), \<open>features/monitor/lib/href.ts\<close>,
  \<open>features/agent-trace/model/conversation.ts\<close> (\<open>conversationHref\<close>),
  \<open>features/issue/model/assignable.ts\<close> and \<open>features/github/lib\<close>.
\<close>

section \<open>A page's own address\<close>

record url_scope =
  sc_period :: "string option"
  sc_environment :: "string option"

text \<open>\<open>if (x) params.set(k, x)\<close>: nothing for an absent or empty value.\<close>

fun param_when :: "string \<Rightarrow> string option \<Rightarrow> (string \<times> string) list" where
  "param_when k (Some v) = (if v = [] then [] else [(k, v)])"
| "param_when k None = []"

definition endpoint_params :: "string \<Rightarrow> string option \<Rightarrow> url_scope \<Rightarrow> (string \<times> string) list" where
  "endpoint_params nm op s =
     (''name'', nm) # param_when ''op'' op @ param_when ''period'' (sc_period s)
       @ param_when ''environment'' (sc_environment s)"

definition endpointHref :: "int \<Rightarrow> string \<Rightarrow> string option \<Rightarrow> url_scope \<Rightarrow> string" where
  "endpointHref projectId nm op s =
     ''/projects/'' @ int_str projectId @ ''/performance/summary?'' @ form_query (endpoint_params nm op s)"

definition release_params :: "url_scope \<Rightarrow> (string \<times> string) list" where
  "release_params s = param_when ''environment'' (sc_environment s) @ param_when ''period'' (sc_period s)"

definition releaseHref :: "int \<Rightarrow> string \<Rightarrow> url_scope \<Rightarrow> string" where
  "releaseHref projectId version s =
     (let search = release_params s;
          query = (if length search > 0 then ''?'' @ form_query search else [])
      in ''/projects/'' @ int_str projectId @ ''/releases/'' @ encodeURIComponent version @ query)"

definition monitorHref :: "int \<Rightarrow> string \<Rightarrow> string" where
  "monitorHref projectId slug = ''/projects/'' @ int_str projectId @ ''/crons/m/'' @ encodeURIComponent slug"

definition conversationHref :: "int \<Rightarrow> string \<Rightarrow> string" where
  "conversationHref projectId conversationId =
     ''/projects/'' @ int_str projectId @ ''/agents/conversations/'' @ encodeURIComponent conversationId"

text \<open>
  What a router reads out of an address: the path's segments and the query's pairs, each decoded.
  \<open>None\<close> stands for text it cannot decode.
\<close>

definition url_path :: "string \<Rightarrow> string" where
  "url_path u = takeWhile (\<lambda>c. c \<noteq> CHR ''?'') u"

definition url_query :: "string \<Rightarrow> string" where
  "url_query u = drop 1 (dropWhile (\<lambda>c. c \<noteq> CHR ''?'') u)"

definition url_segments :: "string \<Rightarrow> string option list" where
  "url_segments u = map (percent_decode False) (split_on (CHR ''/'') (url_path u))"

definition url_pair :: "string \<Rightarrow> string option \<times> string option" where
  "url_pair w =
     (percent_decode True (takeWhile (\<lambda>c. c \<noteq> CHR ''='') w),
      percent_decode True (drop 1 (dropWhile (\<lambda>c. c \<noteq> CHR ''='') w)))"

definition url_pairs :: "string \<Rightarrow> (string option \<times> string option) list" where
  "url_pairs q = map url_pair (filter (\<lambda>w. w \<noteq> []) (split_on (CHR ''&'') q))"

lemma url_split:
  assumes "CHR ''?'' \<notin> set p"
  shows "url_path (p @ CHR ''?'' # q) = p" "url_query (p @ CHR ''?'' # q) = q" "url_path p = p" "url_query p = []"
proof -
  have p: "\<forall>c \<in> set p. c \<noteq> CHR ''?''" using assms by blast
  then have d: "dropWhile (\<lambda>c. c \<noteq> CHR ''?'') p = []" by (simp add: dropWhile_eq_Nil_conv)
  show "url_path p = p" using p by (simp add: url_path_def takeWhile_eq_all_conv)
  show "url_query p = []" unfolding url_query_def d by simp
  show "url_path (p @ CHR ''?'' # q) = p" "url_query (p @ CHR ''?'' # q) = q"
    using p takeWhile_append2 [of p "\<lambda>c. c \<noteq> CHR ''?''"] dropWhile_append2 [of p "\<lambda>c. c \<noteq> CHR ''?''"]
    by (simp_all add: url_path_def url_query_def)
qed

lemma encoded_has_no:
  "CHR ''/'' \<notin> set (encodeURIComponent s)" "CHR ''?'' \<notin> set (encodeURIComponent s)"
  "CHR ''&'' \<notin> set (form_encode s)" "CHR ''='' \<notin> set (form_encode s)" "CHR ''?'' \<notin> set (form_encode s)"
  using encoded_is_one_segment(1) [of "CHR ''/''" s] encoded_is_one_segment(1) [of "CHR ''?''" s]
    encoded_is_one_segment(2) [of "CHR ''&''" s] encoded_is_one_segment(2) [of "CHR ''=''" s]
    encoded_is_one_segment(2) [of "CHR ''?''" s]
  by (auto simp: delimiter_def)

lemma int_str_has_no: "CHR ''/'' \<notin> set (int_str i)" "CHR ''?'' \<notin> set (int_str i)" "CHR ''%'' \<notin> set (int_str i)"
proof -
  have "\<not> is_digit (CHR ''/'')" "\<not> is_digit (CHR ''?'')" "\<not> is_digit (CHR ''%'')"
    by (simp_all add: is_digit_def)
  then have "CHR ''/'' \<notin> set (nat_str n)" "CHR ''?'' \<notin> set (nat_str n)" "CHR ''%'' \<notin> set (nat_str n)" for n
    using nat_str_digits by blast+
  then show "CHR ''/'' \<notin> set (int_str i)" "CHR ''?'' \<notin> set (int_str i)" "CHR ''%'' \<notin> set (int_str i)"
    by (auto simp: int_str_def)
qed

lemma form_query_reads_back: "url_pairs (form_query ps) = map (\<lambda>(k, v). (Some k, Some v)) ps"
proof -
  define ws where "ws = map (\<lambda>(k, v). form_encode k @ ''='' @ form_encode v) ps"
  have pair: "url_pair (form_encode k @ CHR ''='' # form_encode v) = (Some k, Some v)" for k v
  proof -
    have "takeWhile (\<lambda>c. c \<noteq> CHR ''='') (form_encode k @ CHR ''='' # form_encode v) = form_encode k"
      "dropWhile (\<lambda>c. c \<noteq> CHR ''='') (form_encode k @ CHR ''='' # form_encode v) = CHR ''='' # form_encode v"
      using encoded_has_no(4) [of k] by (auto simp: takeWhile_append dropWhile_append)
    then show ?thesis by (simp add: url_pair_def decode_form)
  qed
  have clean: "\<forall>w \<in> set ws. CHR ''&'' \<notin> set w \<and> w \<noteq> []"
    by (auto simp: ws_def encoded_has_no)
  have "filter (\<lambda>w. w \<noteq> []) (split_on (CHR ''&'') (join_with ''&'' ws)) = ws"
  proof (cases "ws = []")
    case False
    then show ?thesis using split_join [of ws "CHR ''&''"] clean by (simp add: filter_id_conv)
  qed simp
  then have "url_pairs (form_query ps) = map url_pair ws"
    unfolding url_pairs_def form_query_def ws_def by simp
  also have "\<dots> = map (\<lambda>(k, v). (Some k, Some v)) ps" by (auto simp: ws_def pair)
  finally show ?thesis .
qed

lemma decode_plain: "CHR ''%'' \<notin> set w \<Longrightarrow> percent_decode False w = Some w"
  by (induction w) auto

lemma segments_read_back:
  "ws \<noteq> [] \<Longrightarrow> \<forall>w \<in> set ws. CHR ''/'' \<notin> set w \<and> CHR ''?'' \<notin> set w
     \<Longrightarrow> url_path (join_with ''/'' ws @ q) = join_with ''/'' ws
     \<Longrightarrow> url_segments (join_with ''/'' ws @ q) = map (percent_decode False) ws"
  by (simp add: url_segments_def split_join)

lemma no_question_joined: "\<forall>w \<in> set ws. CHR ''?'' \<notin> set w \<Longrightarrow> CHR ''?'' \<notin> set (join_with ''/'' ws)"
  using set_join [of "''/''" ws] by auto

lemma page_address:
  assumes "\<forall>w \<in> set ws. CHR ''/'' \<notin> set w \<and> CHR ''?'' \<notin> set w" and "ws \<noteq> []"
  shows "url_segments (join_with ''/'' ws @ ''?'' @ form_query ps) = map (percent_decode False) ws"
    and "url_segments (join_with ''/'' ws) = map (percent_decode False) ws"
    and "url_pairs (url_query (join_with ''/'' ws @ ''?'' @ form_query ps)) = map (\<lambda>(k, v). (Some k, Some v)) ps"
    and "url_pairs (url_query (join_with ''/'' ws)) = []"
proof -
  have n: "CHR ''?'' \<notin> set (join_with ''/'' ws)" using assms(1) no_question_joined by blast
  note u = url_split [OF n]
  show "url_segments (join_with ''/'' ws @ ''?'' @ form_query ps) = map (percent_decode False) ws"
    using segments_read_back [OF assms(2,1)] u(1) by simp
  show "url_segments (join_with ''/'' ws) = map (percent_decode False) ws"
    using segments_read_back [OF assms(2,1), of "[]"] u(3) by simp
  show "url_pairs (url_query (join_with ''/'' ws @ ''?'' @ form_query ps)) = map (\<lambda>(k, v). (Some k, Some v)) ps"
    using u(2) by (simp add: form_query_reads_back)
  show "url_pairs (url_query (join_with ''/'' ws)) = []" using u(4) by (simp add: url_pairs_def)
qed

definition opens :: "string \<Rightarrow> string list \<Rightarrow> (string \<times> string) list \<Rightarrow> bool" where
  "opens u segments params \<longleftrightarrow>
     url_segments u = map Some ([] # segments) \<and>
     url_pairs (url_query u) = map (\<lambda>(k, v). (Some k, Some v)) params"

lemma release_opens:
  "opens (releaseHref projectId version s) [''projects'', int_str projectId, ''releases'', version] (release_params s)"
proof -
  define ws where "ws = [[], ''projects'', int_str projectId, ''releases'', encodeURIComponent version]"
  have ws: "\<forall>w \<in> set ws. CHR ''/'' \<notin> set w \<and> CHR ''?'' \<notin> set w" "ws \<noteq> []"
    by (auto simp: ws_def encoded_has_no int_str_has_no)
  have "map (percent_decode False) ws = map Some [[], ''projects'', int_str projectId, ''releases'', version]"
    by (simp add: ws_def decode_component decode_plain int_str_has_no)
  moreover have "releaseHref projectId version s =
      join_with ''/'' ws @ (if release_params s = [] then [] else ''?'' @ form_query (release_params s))"
    by (simp add: releaseHref_def ws_def Let_def)
  ultimately show ?thesis using page_address [OF ws] by (simp add: opens_def)
qed

lemma endpoint_opens:
  "opens (endpointHref projectId nm op s) [''projects'', int_str projectId, ''performance'', ''summary'']
     (endpoint_params nm op s)"
proof -
  define ws where "ws = [[], ''projects'', int_str projectId, ''performance'', ''summary'']"
  have ws: "\<forall>w \<in> set ws. CHR ''/'' \<notin> set w \<and> CHR ''?'' \<notin> set w" "ws \<noteq> []"
    by (auto simp: ws_def int_str_has_no)
  have "map (percent_decode False) ws = map Some ws" by (simp add: ws_def decode_plain int_str_has_no)
  moreover have "endpointHref projectId nm op s = join_with ''/'' ws @ ''?'' @ form_query (endpoint_params nm op s)"
    by (simp add: endpointHref_def ws_def)
  ultimately show ?thesis using page_address [OF ws] by (simp add: opens_def ws_def)
qed

lemma named_page_opens:
  "opens (monitorHref projectId slug) [''projects'', int_str projectId, ''crons'', ''m'', slug] []"
  "opens (conversationHref projectId slug) [''projects'', int_str projectId, ''agents'', ''conversations'', slug] []"
proof -
  define ws where "ws = [[], ''projects'', int_str projectId, ''crons'', ''m'', encodeURIComponent slug]"
  define vs where "vs = [[], ''projects'', int_str projectId, ''agents'', ''conversations'', encodeURIComponent slug]"
  have ws: "\<forall>w \<in> set ws. CHR ''/'' \<notin> set w \<and> CHR ''?'' \<notin> set w" "ws \<noteq> []"
    and vs: "\<forall>w \<in> set vs. CHR ''/'' \<notin> set w \<and> CHR ''?'' \<notin> set w" "vs \<noteq> []"
    by (auto simp: ws_def vs_def encoded_has_no int_str_has_no)
  have "monitorHref projectId slug = join_with ''/'' ws" "conversationHref projectId slug = join_with ''/'' vs"
    by (simp_all add: monitorHref_def conversationHref_def ws_def vs_def)
  then show "opens (monitorHref projectId slug) [''projects'', int_str projectId, ''crons'', ''m'', slug] []"
    "opens (conversationHref projectId slug) [''projects'', int_str projectId, ''agents'', ''conversations'', slug] []"
    using page_address(2,4) [OF ws] page_address(2,4) [OF vs]
    by (simp_all add: opens_def ws_def vs_def decode_component decode_plain int_str_has_no)
qed

text \<open>
  C31: whatever a release, an endpoint, a monitor or a conversation is called, its address, split at
  the slashes and decoded, names the same project and that very thing, and its query carries exactly
  the scope it was written with.
\<close>

lemma addresses_open_what_they_name:
  "opens (releaseHref projectId version s) [''projects'', int_str projectId, ''releases'', version] (release_params s)
   \<and> opens (endpointHref projectId nm op s) [''projects'', int_str projectId, ''performance'', ''summary'']
       (endpoint_params nm op s)
   \<and> opens (monitorHref projectId slug) [''projects'', int_str projectId, ''crons'', ''m'', slug] []
   \<and> opens (conversationHref projectId conversation)
       [''projects'', int_str projectId, ''agents'', ''conversations'', conversation] []"
  using release_opens endpoint_opens named_page_opens by blast

text \<open>The dot segments are not encoded, so a version or a conversation called \<open>..\<close> is a step up.\<close>

lemma dots_step_up: "conversationHref 7 ''..'' = ''/projects/7/agents/conversations/..''"
  by code_simp

section \<open>Windows, tones and names\<close>

definition windowHours :: "string \<Rightarrow> int option" where
  "windowHours period =
     (let ds = takeWhile is_digit period; r = drop (length ds) period
      in if ds \<noteq> [] \<and> (r = ''h'' \<or> r = ''d'')
         then Some (int (digits_val ds) * (if r = ''d'' then 24 else 1)) else None)"

text \<open>\<open>count / (hours * 60)\<close>; a window of no hours divides by zero.\<close>

definition perMinute :: "rat \<Rightarrow> rat \<Rightarrow> jsnum" where
  "perMinute count_of hours =
     (if hours = 0 then (if count_of = 0 then NaN else if count_of > 0 then PosInf else NegInf)
      else Fin (count_of / (hours * 60)))"

datatype tone = Good_tone | Warning_tone | Bad_tone

definition failureTone :: "rat \<Rightarrow> tone option" where
  "failureTone rate =
     (if rate \<ge> 5 / 100 then Some Bad_tone else if rate \<ge> 1 / 100 then Some Warning_tone else None)"

definition OVERVIEW_PERIODS :: "string list" where
  "OVERVIEW_PERIODS = [''24h'', ''7d'', ''14d'', ''30d'']"

definition PERIOD_CHOICES :: "string list" where
  "PERIOD_CHOICES = OVERVIEW_PERIODS @ [''all'']"

definition DEFAULT_PERIOD :: string where
  "DEFAULT_PERIOD = ''14d''"

definition parseOverviewPeriod :: "string option \<Rightarrow> string option" where
  "parseOverviewPeriod raw = List.find (\<lambda>p. Some p = raw) OVERVIEW_PERIODS"

definition overviewInterval :: "string option \<Rightarrow> int" where
  "overviewInterval period =
     (if period = Some ''24h'' then 1 else if period = Some ''7d'' then 3
      else if period = Some ''14d'' then 6 else if period = Some ''30d'' then 12 else 24)"

definition healthTone :: "rat option \<Rightarrow> tone option" where
  "healthTone rate =
     (case rate of None \<Rightarrow> None
      | Some r \<Rightarrow> Some (if r \<ge> 99 / 100 then Good_tone else if r \<ge> 95 / 100 then Warning_tone else Bad_tone))"

text \<open>\<open>lastIndexOf\<close> of one character, \<open>None\<close> for \<open>-1\<close>.\<close>

definition last_index :: "char \<Rightarrow> string \<Rightarrow> nat option" where
  "last_index c s = map_option (\<lambda>i. length s - 1 - i) (find_index (\<lambda>x. x = c) (rev s))"

definition splitVersion :: "string \<Rightarrow> string option \<times> string" where
  "splitVersion raw =
     (case last_index (CHR ''@'') raw of
        None \<Rightarrow> (None, raw)
      | Some a \<Rightarrow> if a \<le> 0 then (None, raw) else (Some (take a raw), drop (a + 1) raw))"

record person =
  pe_id :: int
  pe_email :: string

definition assignable :: "person list \<Rightarrow> person option \<Rightarrow> person list" where
  "assignable members reader_of =
     (case reader_of of
        Some r \<Rightarrow> if \<not> list_ex (\<lambda>m. pe_id m = pe_id r) members then r # members else members
      | None \<Rightarrow> members)"

text \<open>
  A fixed window's charts draw 24 to 60 bars, and whatever the address holds, the window read from
  it is one of the offered ones, with a length of its own.
\<close>

lemma fixed_windows:
  "list_all (\<lambda>p. parseOverviewPeriod (Some p) = Some p \<and>
     (case windowHours p of None \<Rightarrow> False
      | Some h \<Rightarrow> h mod overviewInterval (Some p) = 0 \<and>
          24 \<le> h div overviewInterval (Some p) \<and> h div overviewInterval (Some p) \<le> 60)) OVERVIEW_PERIODS
   \<and> DEFAULT_PERIOD \<in> set OVERVIEW_PERIODS"
  by code_simp

lemma period_is_offered: "parseOverviewPeriod raw = Some p \<Longrightarrow> p \<in> set OVERVIEW_PERIODS \<and> raw = Some p"
  unfolding parseOverviewPeriod_def by (auto dest!: find_Some_mem)

lemma last_index_splits:
  assumes "last_index c s = Some i"
  shows "i < length s" and "s = take i s @ c # drop (i + 1) s" and "c \<notin> set (drop (i + 1) s)"
proof -
  obtain k where k: "find_index (\<lambda>x. x = c) (rev s) = Some k" and i: "i = length s - 1 - k"
    using assms by (auto simp: last_index_def)
  have f: "k < length xs \<and> xs ! k = c \<and> c \<notin> set (take k xs)" if "find_index (\<lambda>x. x = c) xs = Some k" for xs k
    using that by (induction xs arbitrary: k) (auto split: if_splits)
  from f [OF k] have k': "k < length s" "rev s ! k = c" "c \<notin> set (take k (rev s))" by auto
  then show len: "i < length s" by (simp add: i)
  have "s ! i = c" using k' by (simp add: i rev_nth)
  then show "s = take i s @ c # drop (i + 1) s" using id_take_nth_drop [OF len] by simp
  have "take k (rev s) = rev (drop (length s - k) s)" by (simp add: take_rev)
  moreover have "length s - k = i + 1" using k'(1) by (simp add: i)
  ultimately show "c \<notin> set (drop (i + 1) s)" using k'(3) by simp
qed

lemma version_parts:
  "case splitVersion raw of
     (None, v) \<Rightarrow> v = raw
   | (Some p, v) \<Rightarrow> raw = p @ CHR ''@'' # v \<and> p \<noteq> [] \<and> CHR ''@'' \<notin> set v"
proof (cases "last_index (CHR ''@'') raw")
  case (Some i)
  show ?thesis
  proof (cases "i = 0")
    case False
    then show ?thesis using Some last_index_splits [OF Some] by (auto simp: splitVersion_def)
  qed (simp add: splitVersion_def Some)
qed (simp add: splitVersion_def)

lemma reader_is_assignable:
  "distinct (map pe_id members) \<Longrightarrow>
     distinct (map pe_id (assignable members reader_of)) \<and> set members \<subseteq> set (assignable members reader_of)
     \<and> (case reader_of of None \<Rightarrow> True | Some r \<Rightarrow> pe_id r \<in> pe_id ` set (assignable members reader_of))"
  by (auto simp: assignable_def list_ex_iff split: option.splits) (metis imageI)

end
