(* ===== verification/Github.thy ===== *)
theory Github
  imports AlertForms Json ClientErrors Links
begin

text \<open>
  The GitHub integration, \<open>features/github\<close>: where a stack frame's file lives in the repository
  (\<open>lib/source-url.ts\<close>, beside the server's \<open>repo_path\<close> it mirrors), labels, path mappings and the
  reachability of a webhook (\<open>lib/\<close>), what a project's repository saves and the drafts of its page
  (\<open>repository-settings.tsx\<close>, \<open>issue-template-fields.tsx\<close>), the reader's login
  (\<open>github-login-card.tsx\<close>), the setup steps (\<open>github-integration.tsx\<close>), what an issue shows of its
  code (\<open>issue-code-block.tsx\<close>) and its links (\<open>issue-github-button.tsx\<close>).
\<close>

section \<open>Where a frame's file lives\<close>

record code_mapping =
  cm_stack_root :: string
  cm_source_root :: string

abbreviation slash :: "char \<Rightarrow> bool" where
  "slash c \<equiv> c = CHR ''/''"

text \<open>\<open>replace(/^\/+|\/+$/g, '')\<close> and \<open>replace(/^(\.\/)+/, '')\<close>.\<close>

definition strip_slashes :: "string \<Rightarrow> string" where
  "strip_slashes s = rev (dropWhile slash (rev (dropWhile slash s)))"

fun strip_dots :: "string \<Rightarrow> string" where
  "strip_dots (a # b # s) = (if a = CHR ''.'' \<and> slash b then strip_dots s else a # b # s)"
| "strip_dots s = s"

definition after_scheme :: "string \<Rightarrow> string" where
  "after_scheme framePath =
     (case index_of '':///'' framePath of
        Some triple \<Rightarrow> drop (triple + 4) framePath
      | None \<Rightarrow>
          (case index_of ''://'' framePath of
             Some double \<Rightarrow>
               (let rest = drop (double + 3) framePath
                in case index_of ''/'' rest of Some k \<Rightarrow> drop (k + 1) rest | None \<Rightarrow> [])
           | None \<Rightarrow> framePath))"

definition repoPath :: "string \<Rightarrow> code_mapping list \<Rightarrow> string option" where
  "repoPath framePath mappings =
     (if framePath = [] then None
      else case List.find (\<lambda>m. starts_with (cm_stack_root m) framePath) mappings of
        Some m \<Rightarrow>
          (let root = strip_slashes (cm_source_root m);
               rest = dropWhile slash (drop (length (cm_stack_root m)) framePath)
           in Some (if root \<noteq> [] then root @ ''/'' @ rest else rest))
      | None \<Rightarrow>
          (let path = dropWhile slash (strip_dots (after_scheme framePath))
           in if path \<noteq> [] then Some path else None))"

record issue_template =
  it_labels :: "string list option"
  it_prefix :: "string option"
  it_footer :: "string option"

record project_repository =
  pr_installation_id :: int
  pr_full_name :: string
  pr_html_url :: string
  pr_default_branch :: string
  pr_mappings :: "code_mapping list"
  pr_auto :: bool
  pr_conditions :: conditions
  pr_template :: issue_template

definition frameSourceUrl :: "project_repository \<Rightarrow> string option \<Rightarrow> int option \<Rightarrow> string option" where
  "frameSourceUrl repo filename lineno =
     (case repoPath (case filename of None \<Rightarrow> [] | Some f \<Rightarrow> f) (pr_mappings repo) of
        None \<Rightarrow> None
      | Some path \<Rightarrow>
          if path = [] then None
          else Some (pr_html_url repo @ ''/blob/'' @ pr_default_branch repo @ ''/'' @ path
                 @ (case lineno of None \<Rightarrow> [] | Some n \<Rightarrow> ''#L'' @ int_str n)))"

subsection \<open>The server's rule\<close>

text \<open>\<open>strip_prefix\<close>, \<open>trim_matches\<close>, \<open>trim_start_matches\<close> and \<open>split_once\<close> of Rust's \<open>str\<close>.\<close>

definition strip_prefix :: "string \<Rightarrow> string \<Rightarrow> string option" where
  "strip_prefix p s = (if take (length p) s = p then Some (drop (length p) s) else None)"

definition trim_start_char :: "char \<Rightarrow> string \<Rightarrow> string" where
  "trim_start_char c s = dropWhile (\<lambda>x. x = c) s"

definition trim_end_char :: "char \<Rightarrow> string \<Rightarrow> string" where
  "trim_end_char c s = rev (dropWhile (\<lambda>x. x = c) (rev s))"

function trim_start_str :: "string \<Rightarrow> string \<Rightarrow> string" where
  "trim_start_str p s =
     (case strip_prefix p s of
        Some t \<Rightarrow> if length t < length s then trim_start_str p t else s
      | None \<Rightarrow> s)"
  by pat_completeness auto
termination
  by (relation "measure (\<lambda>(p, s). length s)") auto

declare trim_start_str.simps [simp del]

fun split_once :: "char \<Rightarrow> string \<Rightarrow> (string \<times> string) option" where
  "split_once d [] = None"
| "split_once d (c # cs) =
     (if c = d then Some ([], cs) else map_option (\<lambda>(a, b). (c # a, b)) (split_once d cs))"

fun mapped_path :: "string \<Rightarrow> code_mapping list \<Rightarrow> string option" where
  "mapped_path frame_path [] = None"
| "mapped_path frame_path (m # ms) =
     (case strip_prefix (cm_stack_root m) frame_path of
        Some rest \<Rightarrow>
          (let root = trim_end_char (CHR ''/'') (trim_start_char (CHR ''/'') (cm_source_root m));
               rest = trim_start_char (CHR ''/'') rest
           in Some (if root = [] then rest else root @ ''/'' @ rest))
      | None \<Rightarrow> mapped_path frame_path ms)"

definition repo_path :: "string \<Rightarrow> code_mapping list \<Rightarrow> string option" where
  "repo_path frame_path mappings =
     (if frame_path = [] then None
      else case mapped_path frame_path mappings of
        Some p \<Rightarrow> Some p
      | None \<Rightarrow>
          (let path =
                 (case index_of '':///'' frame_path of
                    Some i \<Rightarrow> drop (i + 4) frame_path
                  | None \<Rightarrow>
                      (case index_of ''://'' frame_path of
                         Some i \<Rightarrow>
                           (case split_once (CHR ''/'') (drop (i + 3) frame_path) of
                              None \<Rightarrow> [] | Some (_, p) \<Rightarrow> p)
                       | None \<Rightarrow> frame_path));
               path = trim_start_char (CHR ''/'') (trim_start_str ''./'' path)
           in if path = [] then None else Some path))"

lemma trim_dots: "trim_start_str ''./'' s = strip_dots s"
proof (induction s rule: strip_dots.induct)
  case (1 a b s)
  then show ?case by (subst trim_start_str.simps) (auto simp: strip_prefix_def)
qed (subst trim_start_str.simps, simp add: strip_prefix_def)+

lemma split_once_index:
  "split_once d s = (case index_of [d] s of None \<Rightarrow> None | Some k \<Rightarrow> Some (take k s, drop (k + 1) s))"
  by (induction s) (auto simp: starts_with_def split: option.splits)

lemma if_swap: "(if p \<noteq> [] then x else y) = (if p = [] then y else x)"
  by simp

lemma mapped_path_find:
  "mapped_path f ms =
     map_option (\<lambda>m. let root = strip_slashes (cm_source_root m);
                         rest = dropWhile slash (drop (length (cm_stack_root m)) f)
                     in if root \<noteq> [] then root @ ''/'' @ rest else rest)
       (List.find (\<lambda>m. starts_with (cm_stack_root m) f) ms)"
proof (induction ms)
  case (Cons m ms)
  show ?case
    by (cases "starts_with (cm_stack_root m) f")
      (simp_all add: strip_prefix_def starts_with_def [symmetric] strip_slashes_def trim_start_char_def
        trim_end_char_def Let_def Cons del: dropWhile_eq_Nil_conv rev_is_Nil_conv)
qed simp

text \<open>
  C29: the dashboard finds a frame's file in the repository exactly where the server does, for every
  path and every list of mappings.
\<close>

theorem paths_agree_with_the_server: "repoPath framePath mappings = repo_path framePath mappings"
proof (cases "List.find (\<lambda>m. starts_with (cm_stack_root m) framePath) mappings")
  case None
  have "(case split_once (CHR ''/'') r of None \<Rightarrow> [] | Some (_, p) \<Rightarrow> p) =
      (case index_of ''/'' r of Some k \<Rightarrow> drop (k + 1) r | None \<Rightarrow> [])" for r
    by (simp add: split_once_index split: option.splits)
  then have s: "\<And>r. (case split_once (CHR ''/'') r of None \<Rightarrow> [] | Some (_, p) \<Rightarrow> p) =
      (case index_of ''/'' r of Some k \<Rightarrow> drop (k + 1) r | None \<Rightarrow> [])" .
  have m: "mapped_path framePath mappings = None" using None by (simp add: mapped_path_find)
  show ?thesis
    unfolding repoPath_def repo_path_def None m after_scheme_def trim_dots trim_start_char_def Let_def s option.case
    by (simp only: if_swap)
next
  case (Some m)
  then show ?thesis by (simp add: repoPath_def repo_path_def mapped_path_find Let_def)
qed

text \<open>What is linked is a path inside the repository: it never starts at a slash, and it is not empty.\<close>

lemma hd_dropWhile_slash: "dropWhile slash s \<noteq> [] \<Longrightarrow> hd (dropWhile slash s) \<noteq> CHR ''/''"
  using hd_dropWhile [of slash s] by blast

lemma strip_slashes_head: "strip_slashes s \<noteq> [] \<Longrightarrow> hd (strip_slashes s) \<noteq> CHR ''/''"
proof -
  assume n: "strip_slashes s \<noteq> []"
  define t where "t = dropWhile slash s"
  have e: "strip_slashes s = rev (dropWhile slash (rev t))" by (simp add: strip_slashes_def t_def)
  obtain w where "rev t = w @ dropWhile slash (rev t)" using takeWhile_dropWhile_id by metis
  then have "rev (rev t) = rev (w @ dropWhile slash (rev t))" by (rule arg_cong)
  then have t: "t = strip_slashes s @ rev w" using e by simp
  then have "t \<noteq> []" "hd t = hd (strip_slashes s)" using n by auto
  then show ?thesis using hd_dropWhile_slash [of s] by (simp add: t_def)
qed

lemma source_path_is_relative:
  "case repoPath framePath mappings of None \<Rightarrow> True | Some p \<Rightarrow> p = [] \<or> hd p \<noteq> CHR ''/''"
proof (cases "List.find (\<lambda>m. starts_with (cm_stack_root m) framePath) mappings")
  case None
  then show ?thesis
    using hd_dropWhile_slash [of "strip_dots (after_scheme framePath)"] by (simp add: repoPath_def Let_def)
next
  case (Some m)
  define rest where "rest = dropWhile slash (drop (length (cm_stack_root m)) framePath)"
  have r: "rest = [] \<or> hd rest \<noteq> CHR ''/''" unfolding rest_def using hd_dropWhile_slash by blast
  have "repoPath framePath mappings =
      (if framePath = [] then None
       else Some (if strip_slashes (cm_source_root m) \<noteq> [] then strip_slashes (cm_source_root m) @ ''/'' @ rest else rest))"
    by (simp add: repoPath_def Some rest_def Let_def)
  then show ?thesis using r strip_slashes_head [of "cm_source_root m"] by (auto simp: hd_append)
qed

text \<open>The path is not percent-encoded: a number sign in a directory's name ends it.\<close>

lemma number_sign_ends_the_path:
  "frameSourceUrl \<lparr>pr_installation_id = 1, pr_full_name = ''acme/web'', pr_html_url = ''https://github.com/acme/web'',
      pr_default_branch = ''main'', pr_mappings = [], pr_auto = False,
      pr_conditions = \<lparr>cd_min_level = None, cd_environments = None, cd_min_events = None\<rparr>,
      pr_template = \<lparr>it_labels = None, it_prefix = None, it_footer = None\<rparr>\<rparr>
     (Some ''/C#/Db.cs'') (Some 4)
   = Some ''https://github.com/acme/web/blob/main/C#/Db.cs#L4''"
  by code_simp

section \<open>Labels and the issue template\<close>

definition parseLabels :: "string \<Rightarrow> string list" where
  "parseLabels s = dedup (filter (\<lambda>l. l \<noteq> []) (map trim (split_on (CHR '','') s)))"

definition savableMappings :: "code_mapping list \<Rightarrow> code_mapping list" where
  "savableMappings ms = filter (\<lambda>m. cm_stack_root m \<noteq> [] \<or> cm_source_root m \<noteq> []) ms"

record template_fields =
  tf_labels :: string
  tf_prefix :: string
  tf_footer :: string

definition or_blank :: "'a list option \<Rightarrow> 'a list" where
  "or_blank v = (case v of None \<Rightarrow> [] | Some s \<Rightarrow> s)"

definition template_mount :: "issue_template \<Rightarrow> template_fields" where
  "template_mount saved =
     \<lparr>tf_labels = join_with '', '' (or_blank (it_labels saved)), tf_prefix = or_blank (it_prefix saved),
      tf_footer = or_blank (it_footer saved)\<rparr>"

definition template_draft :: "template_fields \<Rightarrow> issue_template" where
  "template_draft f =
     \<lparr>it_labels = Some (parseLabels (tf_labels f)), it_prefix = Some (tf_prefix f), it_footer = Some (tf_footer f)\<rparr>"

definition template_json :: "string list \<Rightarrow> string \<Rightarrow> string \<Rightarrow> jv" where
  "template_json labels prefix_of footer =
     JObj [(''labels'', JArr (map JStr labels)), (''title_prefix'', JStr prefix_of), (''body_footer'', JStr footer)]"

definition template_changed :: "issue_template \<Rightarrow> template_fields \<Rightarrow> bool" where
  "template_changed saved f \<longleftrightarrow>
     json_text (template_json (parseLabels (tf_labels f)) (tf_prefix f) (tf_footer f))
       \<noteq> json_text (template_json (or_blank (it_labels saved)) (or_blank (it_prefix saved)) (or_blank (it_footer saved)))"

lemma json_text_inj: "json_wf v \<Longrightarrow> json_wf w \<Longrightarrow> json_text v = json_text w \<longleftrightarrow> v = w"
  using json_roundtrip [of v] json_roundtrip [of w] by (metis option.inject)

lemma strings_inj: "map JStr xs = map JStr ys \<longleftrightarrow> xs = ys"
  by (rule inj_map_eq_map) (simp add: inj_def)

lemma template_changed_iff:
  "template_changed saved f \<longleftrightarrow>
     parseLabels (tf_labels f) \<noteq> or_blank (it_labels saved) \<or> tf_prefix f \<noteq> or_blank (it_prefix saved)
     \<or> tf_footer f \<noteq> or_blank (it_footer saved)"
proof -
  have wf: "json_wf (template_json l p q)" for l p q by (simp add: template_json_def)
  have "template_json l p q = template_json l' p' q' \<longleftrightarrow> l = l' \<and> p = p' \<and> q = q'" for l p q l' p' q'
    by (simp add: template_json_def strings_inj)
  then show ?thesis unfolding template_changed_def json_text_inj [OF wf wf] by simp
qed

lemma parseLabels_recipients: "parseLabels s = dedup (recipientList s)"
  by (simp add: parseLabels_def recipientList_def)

lemma labels_roundtrip:
  assumes "distinct ls" and "list_all (\<lambda>l. CHR '','' \<notin> set l \<and> trim l = l \<and> l \<noteq> []) ls"
  shows "parseLabels (join_with '', '' ls) = ls"
proof (cases "ls = []")
  case True
  then show ?thesis by (simp add: parseLabels_def)
next
  case False
  then show ?thesis using recipients_roundtrip [of ls] assms
    by (simp add: parseLabels_recipients list_all_iff dedup_distinct)
qed

lemma parsed_labels:
  "distinct (parseLabels s) \<and> list_all (\<lambda>l. CHR '','' \<notin> set l \<and> trim l = l \<and> l \<noteq> []) (parseLabels s)"
  using recipient_pieces [of _ s] by (auto simp: parseLabels_recipients list_all_iff)

text \<open>
  a template saved is a template shown: whatever was typed, the fields mounted on what it saved
  parse to that same template and offer no further save.
\<close>

theorem saved_template_is_clean:
  "template_draft (template_mount (template_draft f)) = template_draft f
   \<and> \<not> template_changed (template_draft f) (template_mount (template_draft f))"
proof -
  have "parseLabels (join_with '', '' (parseLabels (tf_labels f))) = parseLabels (tf_labels f)"
    using labels_roundtrip parsed_labels by blast
  then show ?thesis by (simp add: template_changed_iff template_draft_def template_mount_def or_blank_def)
qed

text \<open>A stored label with a comma in it is two labels in the field, which then offers to save the split.\<close>

lemma comma_label_reads_as_two:
  "let saved = \<lparr>it_labels = Some [''ui,web''], it_prefix = None, it_footer = None\<rparr>
   in template_changed saved (template_mount saved)
      \<and> it_labels (template_draft (template_mount saved)) = Some [''ui'', ''web'']"
  by code_simp

section \<open>A project's repository\<close>

record repo_choice =
  rh_installation_id :: int
  rh_full_name :: string

text \<open>A change leaves out (\<open>None\<close>) what it does not touch, and so does the request.\<close>

record repo_changes =
  ch_repo :: "repo_choice option"
  ch_mappings :: "code_mapping list option"
  ch_auto :: "bool option"
  ch_conditions :: "conditions option"
  ch_template :: "issue_template option"

record repo_update =
  ru_installation_id :: int
  ru_full_name :: string
  ru_mappings :: "code_mapping list option"
  ru_auto :: "bool option"
  ru_conditions :: "conditions option"
  ru_template :: "issue_template option"

definition no_change :: repo_changes where
  "no_change = \<lparr>ch_repo = None, ch_mappings = None, ch_auto = None, ch_conditions = None, ch_template = None\<rparr>"

fun otherwise :: "'a option \<Rightarrow> 'a option \<Rightarrow> 'a option" where
  "otherwise (Some a) _ = Some a"
| "otherwise None b = b"

definition withChanges :: "project_repository option \<Rightarrow> repo_changes \<Rightarrow> repo_update" where
  "withChanges repository c =
     \<lparr>ru_installation_id =
        (case otherwise (map_option rh_installation_id (ch_repo c)) (map_option pr_installation_id repository)
         of None \<Rightarrow> 0 | Some i \<Rightarrow> i),
      ru_full_name =
        (case otherwise (map_option rh_full_name (ch_repo c)) (map_option pr_full_name repository)
         of None \<Rightarrow> [] | Some n \<Rightarrow> n),
      ru_mappings = otherwise (ch_mappings c) (map_option pr_mappings repository),
      ru_auto = otherwise (ch_auto c) (map_option pr_auto repository),
      ru_conditions = otherwise (ch_conditions c) (map_option pr_conditions repository),
      ru_template = otherwise (ch_template c) (map_option pr_template repository)\<rparr>"

text \<open>
  The page: the repository read, the rows of the mappings' draft, what is in flight, and the requests
  sent. The draft is keyed on the JSON of the stored mappings: a new key mounts it again.
\<close>

datatype repo_op = Set_repository | Remove_repository | Sync_codeowners

record repo_page =
  rp_read_only :: bool
  rp_choices :: "repo_choice list"
  rp_repository :: "project_repository option"
  rp_rows :: "code_mapping list"
  rp_in_flight :: "repo_op option"
  rp_sent :: "repo_update list"

definition mappings_json :: "code_mapping list \<Rightarrow> jv" where
  "mappings_json ms =
     JArr (map (\<lambda>m. JObj [(''stack_root'', JStr (cm_stack_root m)), (''source_root'', JStr (cm_source_root m))]) ms)"

definition rows_key :: "project_repository option \<Rightarrow> string option" where
  "rows_key r = map_option (\<lambda>x. json_text (mappings_json (pr_mappings x))) r"

definition repo_busy :: "repo_page \<Rightarrow> bool" where
  "repo_busy p \<longleftrightarrow> rp_read_only p \<or> rp_in_flight p \<noteq> None"

definition rows_changed :: "repo_page \<Rightarrow> bool" where
  "rows_changed p \<longleftrightarrow>
     (case rp_repository p of None \<Rightarrow> False
      | Some r \<Rightarrow> json_text (mappings_json (rp_rows p)) \<noteq> json_text (mappings_json (pr_mappings r)))"

definition save_repository :: "repo_changes \<Rightarrow> repo_page \<Rightarrow> repo_page" where
  "save_repository c p =
     p\<lparr>rp_in_flight := Some Set_repository, rp_sent := rp_sent p @ [withChanges (rp_repository p) c]\<rparr>"

definition reread :: "project_repository option \<Rightarrow> repo_page \<Rightarrow> repo_page" where
  "reread r p =
     p\<lparr>rp_repository := r,
       rp_rows := (if rows_key r = rows_key (rp_repository p) then rp_rows p
                   else case r of None \<Rightarrow> [] | Some x \<Rightarrow> pr_mappings x)\<rparr>"

datatype repo_event =
    Pick_repository string
  | Row_stack_root nat string
  | Row_source_root nat string
  | Row_removed nat
  | Row_added
  | Rows_saved
  | Auto_create bool
  | Filters_saved conditions
  | Template_saved issue_template
  | Disconnected
  | Owners_synced
  | Repo_answered "project_repository option option"

definition needs_repository :: "repo_event \<Rightarrow> bool" where
  "needs_repository e \<longleftrightarrow> (case e of Pick_repository _ \<Rightarrow> False | Repo_answered _ \<Rightarrow> False | _ \<Rightarrow> True)"

text \<open>
  Every control waits while anything is in flight, and those below the first row are there only with
  a repository. An answer of \<open>Some r\<close> is a success with \<open>r\<close> read again, \<open>None\<close> a failure.
\<close>

definition repo_step :: "repo_event \<Rightarrow> repo_page \<Rightarrow> repo_page" where
  "repo_step e p =
     (case e of
        Repo_answered a \<Rightarrow>
          if rp_in_flight p = None then p
          else (case a of None \<Rightarrow> p | Some r \<Rightarrow> reread r p)\<lparr>rp_in_flight := None\<rparr>
      | _ \<Rightarrow>
          if repo_busy p \<or> (needs_repository e \<and> rp_repository p = None) then p
          else (case e of
              Pick_repository nm \<Rightarrow>
                (case List.find (\<lambda>r. rh_full_name r = nm) (rp_choices p) of
                   Some r \<Rightarrow> save_repository (no_change\<lparr>ch_repo := Some r\<rparr>) p
                 | None \<Rightarrow> p)
            | Row_stack_root i v \<Rightarrow>
                p\<lparr>rp_rows := (if i < length (rp_rows p) then (rp_rows p)[i := (rp_rows p ! i)\<lparr>cm_stack_root := v\<rparr>] else rp_rows p)\<rparr>
            | Row_source_root i v \<Rightarrow>
                p\<lparr>rp_rows := (if i < length (rp_rows p) then (rp_rows p)[i := (rp_rows p ! i)\<lparr>cm_source_root := v\<rparr>] else rp_rows p)\<rparr>
            | Row_removed i \<Rightarrow> p\<lparr>rp_rows := take i (rp_rows p) @ drop (i + 1) (rp_rows p)\<rparr>
            | Row_added \<Rightarrow> p\<lparr>rp_rows := rp_rows p @ [\<lparr>cm_stack_root = [], cm_source_root = []\<rparr>]\<rparr>
            | Rows_saved \<Rightarrow>
                if rows_changed p
                then save_repository (no_change\<lparr>ch_mappings := Some (savableMappings (rp_rows p))\<rparr>) p else p
            | Auto_create b \<Rightarrow> save_repository (no_change\<lparr>ch_auto := Some b\<rparr>) p
            | Filters_saved c \<Rightarrow> save_repository (no_change\<lparr>ch_conditions := Some c\<rparr>) p
            | Template_saved t \<Rightarrow> save_repository (no_change\<lparr>ch_template := Some t\<rparr>) p
            | Disconnected \<Rightarrow> p\<lparr>rp_in_flight := Some Remove_repository\<rparr>
            | Owners_synced \<Rightarrow> p\<lparr>rp_in_flight := Some Sync_codeowners\<rparr>
            | Repo_answered a \<Rightarrow> p))"

lemma mappings_json_inj: "json_text (mappings_json xs) = json_text (mappings_json ys) \<longleftrightarrow> xs = ys"
proof -
  let ?f = "\<lambda>m :: code_mapping. JObj [(''stack_root'', JStr (cm_stack_root m)), (''source_root'', JStr (cm_source_root m))]"
  have "json_wf (mappings_json ms)" for ms by (auto simp: mappings_json_def)
  moreover have "inj ?f"
  proof (rule injI)
    fix x y :: code_mapping
    assume "?f x = ?f y"
    then show "x = y" by (cases x; cases y) simp
  qed
  ultimately show ?thesis using inj_map_eq_map [of ?f xs ys] by (simp add: json_text_inj) (simp add: mappings_json_def)
qed

lemma rows_key_eq:
  "rows_key r = rows_key r' \<longleftrightarrow> map_option pr_mappings r = map_option pr_mappings r'"
  by (cases r; cases r') (auto simp: rows_key_def mappings_json_inj)

definition repo_run :: "repo_event list \<Rightarrow> repo_page \<Rightarrow> repo_page" where
  "repo_run es p = foldl (\<lambda>q e. repo_step e q) p es"

text \<open>A step sends at most one request, with what the page shows beside the one change.\<close>

lemma repo_step_sends:
  "rp_sent (repo_step e p) = rp_sent p
   \<or> \<not> repo_busy p \<and> (\<exists>c. rp_sent (repo_step e p) = rp_sent p @ [withChanges (rp_repository p) c] \<and>
        (case ch_repo c of None \<Rightarrow> rp_repository p \<noteq> None | Some r \<Rightarrow> r \<in> set (rp_choices p)))"
proof (cases "repo_busy p \<or> (needs_repository e \<and> rp_repository p = None)")
  case True
  then show ?thesis by (cases e) (auto simp: repo_step_def reread_def needs_repository_def split: option.splits)
next
  case False
  show ?thesis
  proof (cases e)
    case (Pick_repository nm)
    then show ?thesis using False find_Some_mem [of "\<lambda>r. rh_full_name r = nm" "rp_choices p"]
      by (cases "List.find (\<lambda>r. rh_full_name r = nm) (rp_choices p)")
        (auto simp: repo_step_def save_repository_def intro!: exI [of _ "no_change\<lparr>ch_repo := Some _\<rparr>"])
  next
    case Rows_saved
    then show ?thesis using False
      by (auto simp: repo_step_def save_repository_def no_change_def needs_repository_def)
  qed (use False in \<open>auto simp: repo_step_def reread_def save_repository_def no_change_def needs_repository_def split: option.splits\<close>)
qed

lemma repo_step_keeps:
  "rp_choices (repo_step e p) = rp_choices p" "rp_read_only (repo_step e p) = rp_read_only p"
  by (cases e; simp add: repo_step_def reread_def save_repository_def split: option.splits)+

lemma repo_step_repository:
  "rp_repository (repo_step e p) = rp_repository p \<or> e = Repo_answered (Some (rp_repository (repo_step e p)))"
  by (cases e) (auto simp: repo_step_def reread_def save_repository_def split: option.splits)

definition named_repository :: "project_repository option \<Rightarrow> bool" where
  "named_repository r = (case r of None \<Rightarrow> True | Some x \<Rightarrow> pr_full_name x \<noteq> [])"

definition repo_named :: "repo_page \<Rightarrow> bool" where
  "repo_named p \<longleftrightarrow>
     list_all (\<lambda>r. rh_full_name r \<noteq> []) (rp_choices p) \<and> named_repository (rp_repository p)
     \<and> list_all (\<lambda>u. ru_full_name u \<noteq> []) (rp_sent p)"

definition named_answer :: "repo_event \<Rightarrow> bool" where
  "named_answer e = (case e of Repo_answered (Some r) \<Rightarrow> named_repository r | _ \<Rightarrow> True)"

lemma update_named:
  assumes "repo_named p"
    and "case ch_repo c of None \<Rightarrow> rp_repository p \<noteq> None | Some r \<Rightarrow> r \<in> set (rp_choices p)"
  shows "ru_full_name (withChanges (rp_repository p) c) \<noteq> []"
  using assms by (cases "ch_repo c"; cases "rp_repository p")
    (auto simp: repo_named_def withChanges_def named_repository_def list_all_iff)

lemma repo_named_step:
  assumes "repo_named p" and "named_answer e"
  shows "repo_named (repo_step e p)"
proof -
  have "named_repository (rp_repository (repo_step e p))"
    using repo_step_repository [of e p] assms by (metis (no_types, lifting) named_answer_def option.case(2)
        repo_event.case(12) repo_named_def)
  moreover have "list_all (\<lambda>u. ru_full_name u \<noteq> []) (rp_sent (repo_step e p))"
    using repo_step_sends [of e p] update_named [OF assms(1)] assms(1)
    by (auto simp: repo_named_def)
  ultimately show ?thesis using assms(1) by (simp add: repo_named_def repo_step_keeps)
qed

text \<open>
  the blank installation and name that stand in for a missing repository are never sent: whatever
  is clicked and answered, in any order, every request names a repository of the list or the one that
  is already set.
\<close>

theorem requests_name_a_repository:
  assumes "repo_named p" and "list_all named_answer es"
  shows "list_all (\<lambda>u. ru_full_name u \<noteq> []) (rp_sent (repo_run es p))"
proof -
  have "repo_named (repo_run es p)"
    using assms by (induction es arbitrary: p) (simp_all add: repo_run_def repo_named_step)
  then show ?thesis by (simp add: repo_named_def)
qed

text \<open>A page without the permission sends nothing.\<close>

lemma read_only_sends_nothing: "rp_sent (repo_run es (p\<lparr>rp_read_only := True\<rparr>)) = rp_sent p"
proof -
  have "rp_sent (repo_run es q) = rp_sent q" if "rp_read_only q" for q
    using that
  proof (induction es arbitrary: q)
    case (Cons e es)
    then have "rp_sent (repo_step e q) = rp_sent q" using repo_step_sends [of e q] by (auto simp: repo_busy_def)
    then show ?case using Cons repo_step_keeps(2) [of e q] by (simp add: repo_run_def)
  qed (simp add: repo_run_def)
  from this [of "p\<lparr>rp_read_only := True\<rparr>"] show ?thesis by simp
qed

text \<open>
  What a save of the rows leaves on screen, the server storing what it was sent: the rows kept, the
  empty ones gone - unless those were all that differed, for the key is then the one it was.
\<close>

lemma saved_rows_show:
  assumes "\<not> repo_busy p" and "rp_repository p = Some r" and "rp_rows p \<noteq> pr_mappings r"
  shows "rp_rows (repo_run [Rows_saved, Repo_answered (Some (Some (r\<lparr>pr_mappings := savableMappings (rp_rows p)\<rparr>)))] p)
     = (if savableMappings (rp_rows p) = pr_mappings r then rp_rows p else savableMappings (rp_rows p))"
proof -
  have "rows_changed p" using assms by (simp add: rows_changed_def mappings_json_inj)
  then have "repo_step Rows_saved p = save_repository (no_change\<lparr>ch_mappings := Some (savableMappings (rp_rows p))\<rparr>) p"
    using assms by (simp add: repo_step_def)
  then show ?thesis using assms by (simp add: repo_run_def repo_step_def save_repository_def reread_def rows_key_eq)
qed

lemma empty_row_stays:
  assumes "\<not> repo_busy p" and "rp_repository p = Some r" and "rp_rows p = pr_mappings r"
    and "savableMappings (pr_mappings r) = pr_mappings r"
  shows "rp_rows (repo_run [Row_added, Rows_saved, Repo_answered (Some (Some r))] p)
     = pr_mappings r @ [\<lparr>cm_stack_root = [], cm_source_root = []\<rparr>]"
proof -
  define q where "q = repo_step Row_added p"
  have q: "\<not> repo_busy q" "rp_repository q = Some r" "rp_rows q = pr_mappings r @ [\<lparr>cm_stack_root = [], cm_source_root = []\<rparr>]"
    using assms by (simp_all add: q_def repo_step_def repo_busy_def)
  have s: "savableMappings (rp_rows q) = pr_mappings r" using assms(4) q(3) by (simp add: savableMappings_def)
  have "rp_rows q \<noteq> pr_mappings r" using q(3) by simp
  from saved_rows_show [OF q(1,2) this] show ?thesis unfolding s using q(3)
    by (simp add: repo_run_def q_def)
qed

lemma requests_name_a_repository_witness:
  "list_all (\<lambda>u. ru_full_name u \<noteq> [])
     (rp_sent (repo_run [Row_added, Auto_create True, Pick_repository ''acme/web'', Repo_answered None, Row_added]
        \<lparr>rp_read_only = False, rp_choices = [\<lparr>rh_installation_id = 3, rh_full_name = ''acme/web''\<rparr>],
         rp_repository = None, rp_rows = [], rp_in_flight = None, rp_sent = []\<rparr>))"
  by (rule requests_name_a_repository) (simp_all add: repo_named_def named_repository_def named_answer_def)

section \<open>The reader's login\<close>

record login_card =
  lc_value :: string
  lc_saved :: string
  lc_pending :: bool

definition login_mount :: "string option \<Rightarrow> login_card" where
  "login_mount login = \<lparr>lc_value = or_blank login, lc_saved = or_blank login, lc_pending = False\<rparr>"

definition login_typed :: "string \<Rightarrow> login_card \<Rightarrow> login_card" where
  "login_typed v c = (if lc_pending c then c else c\<lparr>lc_value := v\<rparr>)"

text \<open>The submit button waits for a difference and for an answer; what is sent is \<open>None\<close> for a blank.\<close>

definition login_save :: "login_card \<Rightarrow> login_card \<times> string option option" where
  "login_save c =
     (if lc_pending c \<or> trim (lc_value c) = lc_saved c then (c, None)
      else (c\<lparr>lc_pending := True\<rparr>,
            Some (if trim (lc_value c) = [] then None else Some (trim (lc_value c)))))"

definition login_answered :: "string option option \<Rightarrow> login_card \<Rightarrow> login_card" where
  "login_answered a c =
     (case a of None \<Rightarrow> c\<lparr>lc_pending := False\<rparr>
      | Some login \<Rightarrow> c\<lparr>lc_value := or_blank login, lc_saved := or_blank login, lc_pending := False\<rparr>)"

text \<open>Once the server has stored what was sent, there is nothing left to save.\<close>

lemma login_saved_once:
  "login_save c = (c', Some sent) \<Longrightarrow> snd (login_save (login_answered (Some sent) c')) = None"
  by (auto simp: login_save_def login_answered_def or_blank_def split: if_splits)

section \<open>Reaching this server from GitHub\<close>

definition is_private_172 :: "string \<Rightarrow> bool" where
  "is_private_172 host \<longleftrightarrow>
     starts_with ''172.'' host \<and>
     (case drop 4 host of
        a # b # c # _ \<Rightarrow>
          c = CHR ''.'' \<and>
          (a = CHR ''1'' \<and> b \<in> set ''6789'' \<or> a = CHR ''2'' \<and> is_digit b \<or> a = CHR ''3'' \<and> b \<in> set ''01'')
      | _ \<Rightarrow> False)"

text \<open>\<open>new URL(url).hostname\<close> is the platform's: a parameter, \<open>None\<close> where it throws.\<close>

definition unreachableFromGitHub :: "(string \<Rightarrow> string option) \<Rightarrow> string \<Rightarrow> js_exn + bool" where
  "unreachableFromGitHub hostname url =
     (case hostname url of
        None \<Rightarrow> Inl TypeError
      | Some host \<Rightarrow>
          Inr (host = ''localhost'' \<or> host = ''[::1]'' \<or> ends_with ''.local'' host
            \<or> starts_with ''127.'' host \<or> starts_with ''10.'' host \<or> starts_with ''192.168.'' host
            \<or> is_private_172 host))"

text \<open>The tests are on text, so a public name under a domain that starts like an address is flagged too.\<close>

lemma unreachable_hosts:
  "list_all (\<lambda>h. unreachableFromGitHub Some h = Inr True)
     [''localhost'', ''127.0.0.1'', ''10.0.0.4'', ''192.168.1.20'', ''172.16.0.1'', ''172.31.255.1'',
      ''rustrak.local'', ''[::1]'', ''10.example.com'']
   \<and> list_all (\<lambda>h. unreachableFromGitHub Some h = Inr False) [''errors.acme.com'', ''172.32.0.1'', ''172.15.0.1'']"
  by code_simp

section \<open>The integration's page\<close>

record github_app =
  ga_slug :: string
  ga_last_webhook_at :: "string option"

record github_status =
  gs_app :: "github_app option"
  gs_installations :: "string list"
  gs_webhook_url :: string

datatype step_state = Done_step | Current_step | Next_step

datatype integration_view = Connected_view | Setup_view "step_state list"

definition setup_steps :: "github_app option \<Rightarrow> step_state list" where
  "setup_steps app =
     [if app \<noteq> None then Done_step else Current_step, if app \<noteq> None then Current_step else Next_step, Next_step]"

definition integration_page :: "github_status \<Rightarrow> integration_view" where
  "integration_page st =
     (if gs_app st \<noteq> None \<and> gs_installations st \<noteq> [] then Connected_view else Setup_view (setup_steps (gs_app st)))"

text \<open>\<open>!app?.last_webhook_at && unreachableFromGitHub(...)\<close>: the address is read only without a delivery.\<close>

definition unreachable_warning :: "(string \<Rightarrow> string option) \<Rightarrow> github_status \<Rightarrow> js_exn + bool" where
  "unreachable_warning hostname st =
     (case gs_app st of
        Some a \<Rightarrow>
          (case ga_last_webhook_at a of
             Some w \<Rightarrow> if w \<noteq> [] then Inr False else unreachableFromGitHub hostname (gs_webhook_url st)
           | None \<Rightarrow> unreachableFromGitHub hostname (gs_webhook_url st))
      | None \<Rightarrow> unreachableFromGitHub hostname (gs_webhook_url st))"

text \<open>The organization the manifest is asked for: nothing for a blank field.\<close>

definition manifest_organization :: "string \<Rightarrow> string option" where
  "manifest_organization organization = (if trim organization = [] then None else Some (trim organization))"

text \<open>The setup always has one step to take, after those done and before those to come.\<close>

lemma one_step_at_a_time:
  "length (filter (\<lambda>s. s = Current_step) (setup_steps app)) = 1 \<and>
   filter (\<lambda>s. s = Done_step) (setup_steps app) @ [Current_step] @ filter (\<lambda>s. s = Next_step) (setup_steps app)
     = setup_steps app"
  by (simp add: setup_steps_def)

text \<open>The status read: a member's refusal is an answer, any other failure is thrown.\<close>

definition read_status :: "('t, rustrak_error) result \<Rightarrow> rustrak_error + 't option" where
  "read_status r =
     (case r of Ok d \<Rightarrow> Inr (Some d)
      | Err e \<Rightarrow> if err_kind e = K_forbidden then Inr None else Inl e)"

section \<open>What an issue shows of its code\<close>

record issue_code =
  ic_commits :: "string list"
  ic_owners :: "string list"

datatype code_block = Connect_line | No_block | Code_block bool bool

definition issue_code_block :: "issue_code option \<Rightarrow> bool option \<Rightarrow> code_block" where
  "issue_code_block code connected_to =
     (if connected_to = Some False then Connect_line
      else case code of
        None \<Rightarrow> No_block
      | Some c \<Rightarrow>
          if length (ic_commits c) = 0 \<and> length (ic_owners c) = 0 then No_block
          else Code_block (length (ic_commits c) > 0) (length (ic_owners c) > 0))"

text \<open>A block is never drawn empty, and a failed request is not a repository that is gone.\<close>

lemma code_block_says_something:
  "(case issue_code_block code connected_to of Code_block a b \<Rightarrow> a \<or> b | _ \<Rightarrow> True)
   \<and> (issue_code_block code connected_to = Connect_line \<longleftrightarrow> connected_to = Some False)"
  by (auto simp: issue_code_block_def split: option.splits)

section \<open>An issue's links\<close>

record issue_draft =
  id_title :: string
  id_body :: string
  id_labels :: "string list"
  id_assignee :: "string option"

record issue_form =
  cf_title :: string
  cf_body :: string
  cf_labels :: string
  cf_assignee :: string

definition form_of_draft :: "issue_draft \<Rightarrow> issue_form" where
  "form_of_draft d =
     \<lparr>cf_title = id_title d, cf_body = id_body d, cf_labels = join_with '', '' (id_labels d),
      cf_assignee = or_blank (id_assignee d)\<rparr>"

datatype link_call =
    Create_issue string string "string list" string
  | Link_issue string
  | Unlink_issue int

text \<open>
  The button and its two dialogs. The menu and both submits wait while any of the three calls is in
  flight, so one is at a time. The form of a new issue is there from the draft's arrival on, while its
  dialog is open.
\<close>

record links_button =
  lb_can_link :: bool
  lb_links :: "int list"
  lb_creating :: bool
  lb_form :: "issue_form option"
  lb_linking :: bool
  lb_reference :: string
  lb_in_flight :: "link_call option"
  lb_calls :: "link_call list"

datatype links_event =
    Choose_create
  | Draft_arrived issue_draft
  | Form_typed issue_form
  | Issue_submitted
  | Create_dismissed
  | Choose_link
  | Reference_typed string
  | Link_submitted
  | Link_dismissed
  | Choose_unlink int
  | Links_answered bool

definition call :: "link_call \<Rightarrow> links_button \<Rightarrow> links_button" where
  "call c b = b\<lparr>lb_in_flight := Some c, lb_calls := lb_calls b @ [c]\<rparr>"

definition create_input :: "issue_form \<Rightarrow> link_call" where
  "create_input f = Create_issue (cf_title f) (cf_body f) (parseLabels (cf_labels f)) (trim (cf_assignee f))"

definition links_answered :: "bool \<Rightarrow> links_button \<Rightarrow> links_button" where
  "links_answered success b =
     (case lb_in_flight b of
        None \<Rightarrow> b
      | Some c \<Rightarrow>
          (if success
           then (case c of
               Create_issue _ _ _ _ \<Rightarrow> b\<lparr>lb_creating := False, lb_form := None\<rparr>
             | Link_issue _ \<Rightarrow> b\<lparr>lb_linking := False, lb_reference := []\<rparr>
             | Unlink_issue _ \<Rightarrow> b)
           else b)\<lparr>lb_in_flight := None\<rparr>)"

definition links_step :: "links_event \<Rightarrow> links_button \<Rightarrow> links_button" where
  "links_step e b =
     (case e of
        Choose_create \<Rightarrow> if lb_can_link b \<and> lb_in_flight b = None then b\<lparr>lb_creating := True\<rparr> else b
      | Draft_arrived d \<Rightarrow>
          if lb_creating b \<and> lb_form b = None then b\<lparr>lb_form := Some (form_of_draft d)\<rparr> else b
      | Form_typed f \<Rightarrow> if lb_form b \<noteq> None then b\<lparr>lb_form := Some f\<rparr> else b
      | Issue_submitted \<Rightarrow>
          (case lb_form b of
             Some f \<Rightarrow>
               if lb_in_flight b = None \<and> trim (cf_title f) \<noteq> [] then call (create_input f) b else b
           | None \<Rightarrow> b)
      | Create_dismissed \<Rightarrow> b\<lparr>lb_creating := False, lb_form := None\<rparr>
      | Choose_link \<Rightarrow> if lb_can_link b \<and> lb_in_flight b = None then b\<lparr>lb_linking := True\<rparr> else b
      | Reference_typed s \<Rightarrow> if lb_linking b then b\<lparr>lb_reference := s\<rparr> else b
      | Link_submitted \<Rightarrow>
          if lb_linking b \<and> lb_in_flight b = None \<and> trim (lb_reference b) \<noteq> []
          then call (Link_issue (trim (lb_reference b))) b else b
      | Link_dismissed \<Rightarrow> b\<lparr>lb_linking := False\<rparr>
      | Choose_unlink i \<Rightarrow>
          if i \<in> set (lb_links b) \<and> lb_in_flight b = None then call (Unlink_issue i) b else b
      | Links_answered success \<Rightarrow> links_answered success b)"

definition links_run :: "links_event list \<Rightarrow> links_button \<Rightarrow> links_button" where
  "links_run es b = foldl (\<lambda>c e. links_step e c) b es"

definition links_mount :: "bool \<Rightarrow> int list \<Rightarrow> links_button" where
  "links_mount canLink links =
     \<lparr>lb_can_link = canLink, lb_links = links, lb_creating = False, lb_form = None, lb_linking = False,
      lb_reference = [], lb_in_flight = None, lb_calls = []\<rparr>"

text \<open>What a call may carry, given what the issue is linked to and whether it can be.\<close>

definition call_ok :: "bool \<Rightarrow> int list \<Rightarrow> link_call \<Rightarrow> bool" where
  "call_ok canLink links c =
     (case c of
        Create_issue title _ labels assignee \<Rightarrow>
          canLink \<and> trim title \<noteq> [] \<and> distinct labels \<and>
          list_all (\<lambda>l. CHR '','' \<notin> set l \<and> trim l = l \<and> l \<noteq> []) labels \<and> trim assignee = assignee
      | Link_issue ref \<Rightarrow> canLink \<and> trim ref = ref \<and> ref \<noteq> []
      | Unlink_issue i \<Rightarrow> i \<in> set links)"

definition links_inv :: "bool \<Rightarrow> int list \<Rightarrow> links_button \<Rightarrow> bool" where
  "links_inv canLink links b \<longleftrightarrow>
     lb_can_link b = canLink \<and> lb_links b = links \<and> (lb_form b \<noteq> None \<longrightarrow> lb_creating b)
     \<and> (lb_creating b \<or> lb_linking b \<longrightarrow> canLink)
     \<and> list_all (call_ok canLink links) (lb_calls b)"

lemma create_input_ok: "canLink \<Longrightarrow> trim (cf_title f) \<noteq> [] \<Longrightarrow> call_ok canLink links (create_input f)"
  using parsed_labels [of "cf_labels f"] by (simp add: call_ok_def create_input_def)

lemma call_inv:
  "links_inv canLink links b \<Longrightarrow> call_ok canLink links c \<Longrightarrow> links_inv canLink links (call c b)"
  by (simp add: links_inv_def call_def)

lemma answered_inv: "links_inv canLink links b \<Longrightarrow> links_inv canLink links (links_answered success b)"
  by (auto simp: links_inv_def links_answered_def split: option.splits link_call.splits)

lemma links_step_inv: "links_inv canLink links b \<Longrightarrow> links_inv canLink links (links_step e b)"
proof (cases e)
  case Issue_submitted
  assume inv: "links_inv canLink links b"
  show ?thesis
  proof (cases "\<exists>f. lb_form b = Some f \<and> lb_in_flight b = None \<and> trim (cf_title f) \<noteq> []")
    case True
    then obtain f where f: "lb_form b = Some f" "lb_in_flight b = None" "trim (cf_title f) \<noteq> []" by blast
    have canLink using inv f(1) by (auto simp: links_inv_def)
    then show ?thesis using call_inv [OF inv create_input_ok [of canLink f]] f
      by (simp add: Issue_submitted links_step_def)
  next
    case False
    then have "links_step e b = b" by (auto simp: Issue_submitted links_step_def split: option.splits)
    then show ?thesis using inv by simp
  qed
next
  case Link_submitted
  assume inv: "links_inv canLink links b"
  then have "call_ok canLink links (Link_issue (trim (lb_reference b)))" if "lb_linking b" "trim (lb_reference b) \<noteq> []"
    using that by (simp add: call_ok_def links_inv_def)
  then show ?thesis using inv call_inv [OF inv] by (simp add: Link_submitted links_step_def)
next
  case (Choose_unlink i)
  assume inv: "links_inv canLink links b"
  then have "call_ok canLink links (Unlink_issue i)" if "i \<in> set (lb_links b)"
    using that by (simp add: call_ok_def links_inv_def)
  then show ?thesis using inv call_inv [OF inv] by (simp add: Choose_unlink links_step_def)
next
  case (Links_answered success)
  assume "links_inv canLink links b"
  then show ?thesis by (simp add: Links_answered links_step_def answered_inv)
qed (auto simp: links_inv_def links_step_def)

text \<open>
  C30: whatever is clicked, typed and answered, no issue is created without a title, linked without a
  reference, or created or linked at all where the repository is gone; labels go out trimmed and once
  each, and only a link of this issue is undone.
\<close>

theorem issue_links_are_clean:
  "list_all (call_ok canLink links) (lb_calls (links_run es (links_mount canLink links)))"
proof -
  have "links_inv canLink links b \<Longrightarrow> links_inv canLink links (links_run es b)" for b
    by (induction es arbitrary: b) (simp_all add: links_run_def links_step_inv)
  moreover have "links_inv canLink links (links_mount canLink links)" by (simp add: links_inv_def links_mount_def)
  ultimately have "links_inv canLink links (links_run es (links_mount canLink links))" by blast
  then show ?thesis by (simp add: links_inv_def)
qed

end
