(* ===== verification/QueryKeys.thy ===== *)
theory QueryKeys
  imports JsBase ClientErrors
begin

text \<open>
  What the dashboard reads and writes: every query of \<open>features/*/api/queries.ts\<close>, of
  \<open>shared/api/permissions.ts\<close> and \<open>shared/api/server-version.ts\<close> with its cache key and its request,
  and every mutation of \<open>features/*/api/mutations.ts\<close> with its request, the keys it invalidates once
  settled (\<open>shared/api/query.ts\<close>) and those it removes on success. How the cache hashes and matches
  keys is the library's: both are parameters, with its documented behaviour as their hypotheses. A read
  that takes several requests is here by its first one; \<open>ApiReads\<close> holds the walks.
\<close>

section \<open>Requests and keys\<close>

type_synonym qkey = "jv list"

type_synonym qobj = "(string \<times> jv) list"

record api_call =
  ac_op :: string
  ac_path :: qobj
  ac_query :: qobj
  ac_body :: jv

abbreviation jint :: "int \<Rightarrow> jv" where
  "jint i \<equiv> JNum (Fin (of_int i))"

fun opt_str :: "string option \<Rightarrow> jv" where
  "opt_str (Some s) = JStr s"
| "opt_str None = JUndef"

fun opt_int :: "int option \<Rightarrow> jv" where
  "opt_int (Some i) = jint i"
| "opt_int None = JUndef"

definition get_call :: "string \<Rightarrow> qobj \<Rightarrow> qobj \<Rightarrow> api_call" where
  "get_call op path query = \<lparr>ac_op = op, ac_path = path, ac_query = query, ac_body = JUndef\<rparr>"

definition body_call :: "string \<Rightarrow> qobj \<Rightarrow> jv \<Rightarrow> api_call" where
  "body_call op path body = \<lparr>ac_op = op, ac_path = path, ac_query = [], ac_body = body\<rparr>"

abbreviation of_project :: "int \<Rightarrow> string \<times> jv" where
  "of_project p \<equiv> (''project_id'', jint p)"

abbreviation of_issue :: "string \<Rightarrow> string \<times> jv" where
  "of_issue i \<equiv> (''issue_id'', JStr i)"

definition projectScope :: "int \<Rightarrow> qkey" where
  "projectScope projectId = [JStr ''projects'', jint projectId]"

section \<open>The reads of a project\<close>

datatype agent_read =
    Agent_summary qobj
  | Agent_runs qobj
  | Agent_duration qobj
  | Agent_models qobj
  | Agent_tools qobj
  | Agent_traces qobj
  | Agent_environments
  | Agent_conversations qobj
  | Agent_conversation string
  | Agent_trace string
  | Agent_span string

fun agent_key :: "agent_read \<Rightarrow> qkey" where
  "agent_key (Agent_summary q) = [JStr ''summary'', JObj q]"
| "agent_key (Agent_runs q) = [JStr ''runs'', JObj q]"
| "agent_key (Agent_duration q) = [JStr ''duration'', JObj q]"
| "agent_key (Agent_models q) = [JStr ''models'', JObj q]"
| "agent_key (Agent_tools q) = [JStr ''tools'', JObj q]"
| "agent_key (Agent_traces q) = [JStr ''traces'', JObj q]"
| "agent_key Agent_environments = [JStr ''environments'']"
| "agent_key (Agent_conversations q) = [JStr ''conversations'', JObj q]"
| "agent_key (Agent_conversation c) = [JStr ''conversation'', JStr c]"
| "agent_key (Agent_trace t) = [JStr ''trace'', JStr t]"
| "agent_key (Agent_span s) = [JStr ''span'', JStr s]"

definition TRACE_PAGE :: int where
  "TRACE_PAGE = 100"

fun agent_call :: "int \<Rightarrow> agent_read \<Rightarrow> api_call" where
  "agent_call p (Agent_summary q) = get_call ''agents.summary'' [of_project p] q"
| "agent_call p (Agent_runs q) = get_call ''agents.runs'' [of_project p] q"
| "agent_call p (Agent_duration q) = get_call ''agents.duration'' [of_project p] q"
| "agent_call p (Agent_models q) = get_call ''agents.modelsTable'' [of_project p] q"
| "agent_call p (Agent_tools q) = get_call ''agents.toolsTable'' [of_project p] q"
| "agent_call p (Agent_traces q) = get_call ''agents.traces'' [of_project p] q"
| "agent_call p Agent_environments = get_call ''agents.environments'' [of_project p] []"
| "agent_call p (Agent_conversations q) = get_call ''agents.conversations'' [of_project p] q"
| "agent_call p (Agent_conversation c) =
     get_call ''agents.conversation'' [of_project p, (''conversation_id'', JStr c)] []"
| "agent_call p (Agent_trace t) =
     get_call ''spans.list'' [of_project p]
       [(''trace_id'', JStr t), (''per_page'', jint TRACE_PAGE), (''page'', jint 1)]"
| "agent_call p (Agent_span s) = get_call ''spans.get'' [of_project p, (''span_id'', JStr s)] []"

datatype alert_read =
    Alert_rules
  | Alert_rule int
  | Alert_history "int option" "int option"
  | Alert_by_day "int option" int

fun alert_key :: "alert_read \<Rightarrow> qkey" where
  "alert_key Alert_rules = [JStr ''rules'', JStr ''list'']"
| "alert_key (Alert_rule r) = [JStr ''rules'', JStr ''detail'', jint r]"
| "alert_key (Alert_history r l) =
     [JStr ''history'', JStr ''list'', JObj [(''ruleId'', opt_int r), (''limit'', opt_int l)]]"
| "alert_key (Alert_by_day r d) =
     [JStr ''history'', JStr ''by-day'', JObj [(''ruleId'', opt_int r), (''days'', jint d)]]"

fun alert_call :: "int \<Rightarrow> alert_read \<Rightarrow> api_call" where
  "alert_call p Alert_rules = get_call ''alertRules.list'' [of_project p] []"
| "alert_call p (Alert_rule r) = get_call ''alertRules.get'' [of_project p, (''rule_id'', jint r)] []"
| "alert_call p (Alert_history r l) =
     get_call ''alertRules.listHistory'' [of_project p] [(''rule_id'', opt_int r), (''limit'', opt_int l)]"
| "alert_call p (Alert_by_day r d) =
     get_call ''alertRules.historyByDay'' [of_project p] [(''rule_id'', opt_int r), (''days'', jint d)]"

datatype event_read =
    Event_detail string string
  | Event_latest string
  | Event_navigation string string
  | Event_attachments string string
  | Event_by_sentry_id string

fun event_key :: "event_read \<Rightarrow> qkey" where
  "event_key (Event_detail i e) = [JStr ''issue'', JStr i, JStr ''detail'', JStr e]"
| "event_key (Event_latest i) = [JStr ''issue'', JStr i, JStr ''latest'']"
| "event_key (Event_navigation i e) = [JStr ''issue'', JStr i, JStr ''navigation'', JStr e]"
| "event_key (Event_attachments i e) = [JStr ''issue'', JStr i, JStr ''attachments'', JStr e]"
| "event_key (Event_by_sentry_id e) = [JStr ''sentry-id'', JStr e]"

fun event_call :: "int \<Rightarrow> event_read \<Rightarrow> api_call" where
  "event_call p (Event_detail i e) =
     get_call ''events.get'' [of_project p, of_issue i, (''event_id'', JStr e)] []"
| "event_call p (Event_latest i) =
     get_call ''events.list'' [of_project p, of_issue i] [(''order'', JStr ''desc'')]"
| "event_call p (Event_navigation i e) =
     get_call ''events.list'' [of_project p, of_issue i] [(''order'', JStr ''asc''), (''cursor'', JUndef)]"
| "event_call p (Event_attachments i e) =
     get_call ''events.listAttachments'' [of_project p, of_issue i, (''event_id'', JStr e)] []"
| "event_call p (Event_by_sentry_id e) =
     get_call ''events.getBySentryId'' [of_project p, (''event_id'', JStr e)] []"

datatype issue_read =
    Issue_list qobj
  | Issue_detail string
  | Issue_aggregates string
  | Issue_stats string string
  | Issue_activity string
  | Issue_reports string
  | Issue_feedback qobj

fun issue_key :: "issue_read \<Rightarrow> qkey" where
  "issue_key (Issue_list q) = [JStr ''list'', JObj q]"
| "issue_key (Issue_detail i) = [JStr ''issue'', JStr i, JStr ''detail'']"
| "issue_key (Issue_aggregates i) = [JStr ''issue'', JStr i, JStr ''aggregates'']"
| "issue_key (Issue_stats i w) = [JStr ''issue'', JStr i, JStr ''stats'', JStr w]"
| "issue_key (Issue_activity i) = [JStr ''issue'', JStr i, JStr ''activity'']"
| "issue_key (Issue_reports i) = [JStr ''issue'', JStr i, JStr ''user-reports'']"
| "issue_key (Issue_feedback q) = [JStr ''feedback'', JObj q]"

fun issue_call :: "int \<Rightarrow> issue_read \<Rightarrow> api_call" where
  "issue_call p (Issue_list q) = get_call ''issues.list'' [of_project p] q"
| "issue_call p (Issue_detail i) = get_call ''issues.get'' [of_project p, of_issue i] []"
| "issue_call p (Issue_aggregates i) = get_call ''issues.getAggregates'' [of_project p, of_issue i] []"
| "issue_call p (Issue_stats i w) =
     get_call ''issues.getStats'' [of_project p, of_issue i] [(''window'', JStr w)]"
| "issue_call p (Issue_activity i) = get_call ''issues.getActivity'' [of_project p, of_issue i] []"
| "issue_call p (Issue_reports i) =
     get_call ''issues.listUserReports'' [of_project p, of_issue i] [(''page'', jint 1)]"
| "issue_call p (Issue_feedback q) = get_call ''feedback.list'' [of_project p] q"

datatype log_read =
    Log_list qobj
  | Log_detail string
  | Log_volume qobj

fun log_key :: "log_read \<Rightarrow> qkey" where
  "log_key (Log_list q) = [JStr ''list'', JObj q]"
| "log_key (Log_detail l) = [JStr ''detail'', JStr l]"
| "log_key (Log_volume q) = [JStr ''volume'', JObj q]"

fun log_call :: "int \<Rightarrow> log_read \<Rightarrow> api_call" where
  "log_call p (Log_list q) = get_call ''logs.list'' [of_project p] q"
| "log_call p (Log_detail l) = get_call ''logs.get'' [of_project p, (''log_id'', JStr l)] []"
| "log_call p (Log_volume q) = get_call ''logs.volume'' [of_project p] q"

datatype monitor_read =
    Monitor_list
  | Monitor_stats qobj
  | Monitor_detail string
  | Monitor_check_ins string qobj

fun monitor_key :: "monitor_read \<Rightarrow> qkey" where
  "monitor_key Monitor_list = [JStr ''list'']"
| "monitor_key (Monitor_stats q) = [JStr ''stats'', JObj q]"
| "monitor_key (Monitor_detail s) = [JStr ''monitor'', JStr s, JStr ''detail'']"
| "monitor_key (Monitor_check_ins s q) = [JStr ''monitor'', JStr s, JStr ''check-ins'', JObj q]"

fun monitor_call :: "int \<Rightarrow> monitor_read \<Rightarrow> api_call" where
  "monitor_call p Monitor_list = get_call ''monitors.list'' [of_project p] []"
| "monitor_call p (Monitor_stats q) = get_call ''monitors.stats'' [of_project p] q"
| "monitor_call p (Monitor_detail s) = get_call ''monitors.get'' [of_project p, (''slug'', JStr s)] []"
| "monitor_call p (Monitor_check_ins s q) =
     get_call ''monitors.listCheckins'' [of_project p, (''slug'', JStr s)] q"

datatype release_read =
    Release_list qobj
  | Release_detail string qobj
  | Release_new_issues string qobj
  | Release_health_rows string "string option"
  | Release_session_summary qobj
  | Release_session_timeseries qobj

fun release_key :: "release_read \<Rightarrow> qkey" where
  "release_key (Release_list q) = [JStr ''list'', JObj q]"
| "release_key (Release_detail r q) = [JStr ''detail'', JStr r, JObj q]"
| "release_key (Release_new_issues r q) = [JStr ''new-issues'', JStr r, JObj q]"
| "release_key (Release_health_rows r w) = [JStr ''health-rows'', JStr r, JObj [(''period'', opt_str w)]]"
| "release_key (Release_session_summary q) = [JStr ''sessions'', JStr ''summary'', JObj q]"
| "release_key (Release_session_timeseries q) = [JStr ''sessions'', JStr ''timeseries'', JObj q]"

definition RELEASE_ROWS_PER_PAGE :: int where
  "RELEASE_ROWS_PER_PAGE = 100"

fun release_call :: "int \<Rightarrow> release_read \<Rightarrow> api_call" where
  "release_call p (Release_list q) = get_call ''releases.list'' [of_project p] q"
| "release_call p (Release_detail r q) = get_call ''releases.get'' [of_project p, (''release'', JStr r)] q"
| "release_call p (Release_new_issues r q) =
     get_call ''releases.newIssues'' [of_project p, (''release'', JStr r)] q"
| "release_call p (Release_health_rows r w) =
     get_call ''sessions.getStats'' [of_project p]
       [(''release'', JStr r), (''period'', opt_str w), (''page'', jint 1), (''per_page'', jint RELEASE_ROWS_PER_PAGE)]"
| "release_call p (Release_session_summary q) = get_call ''sessions.getSummary'' [of_project p] q"
| "release_call p (Release_session_timeseries q) = get_call ''sessions.getTimeseries'' [of_project p] q"

datatype transaction_read =
    Transaction_list qobj
  | Transaction_detail string
  | Transaction_stats qobj
  | Transaction_group qobj
  | Transaction_group_trend qobj

fun transaction_key :: "transaction_read \<Rightarrow> qkey" where
  "transaction_key (Transaction_list q) = [JStr ''list'', JObj q]"
| "transaction_key (Transaction_detail t) = [JStr ''detail'', JStr t]"
| "transaction_key (Transaction_stats q) = [JStr ''stats'', JObj q]"
| "transaction_key (Transaction_group q) = [JStr ''group'', JObj q]"
| "transaction_key (Transaction_group_trend q) = [JStr ''group-trend'', JObj q]"

fun transaction_call :: "int \<Rightarrow> transaction_read \<Rightarrow> api_call" where
  "transaction_call p (Transaction_list q) = get_call ''transactions.list'' [of_project p] q"
| "transaction_call p (Transaction_detail t) =
     get_call ''transactions.get'' [of_project p, (''transaction_id'', JStr t)] []"
| "transaction_call p (Transaction_stats q) = get_call ''transactions.getStats'' [of_project p] q"
| "transaction_call p (Transaction_group q) = get_call ''transactions.getStatGroup'' [of_project p] q"
| "transaction_call p (Transaction_group_trend q) =
     get_call ''transactions.getStatGroupTimeseries'' [of_project p] q"

datatype github_read =
    Github_repositories
  | Github_repository
  | Github_draft string
  | Github_issue string

fun github_key :: "github_read \<Rightarrow> qkey" where
  "github_key Github_repositories = [JStr ''repositories'']"
| "github_key Github_repository = [JStr ''repository'']"
| "github_key (Github_draft i) = [JStr ''draft'', JStr i]"
| "github_key (Github_issue i) = [JStr ''issue'', JStr i]"

fun github_call :: "int \<Rightarrow> github_read \<Rightarrow> api_call" where
  "github_call p Github_repositories = get_call ''github.repositories'' [] [of_project p]"
| "github_call p Github_repository = get_call ''github.getProjectRepository'' [of_project p] []"
| "github_call p (Github_draft i) = get_call ''github.issueDraft'' [of_project p, of_issue i] []"
| "github_call p (Github_issue i) = get_call ''github.issue'' [of_project p, of_issue i] []"

text \<open>The project's own reads, and its members'.\<close>

datatype own_read =
    Project_detail
  | Project_events qobj
  | Project_summary qobj
  | Project_versions
  | Project_environments
  | Project_members
  | Project_candidates

fun own_key :: "own_read \<Rightarrow> qkey" where
  "own_key Project_detail = [JStr ''detail'']"
| "own_key (Project_events q) = [JStr ''stats'', JStr ''events'', JObj q]"
| "own_key (Project_summary q) = [JStr ''stats'', JStr ''summary'', JObj q]"
| "own_key Project_versions = [JStr ''releases'', JStr ''versions'']"
| "own_key Project_environments = [JStr ''environments'']"
| "own_key Project_members = [JStr ''members'']"
| "own_key Project_candidates = [JStr ''members'', JStr ''candidates'']"

fun own_call :: "int \<Rightarrow> own_read \<Rightarrow> api_call" where
  "own_call p Project_detail = get_call ''projects.get'' [(''id'', jint p)] []"
| "own_call p (Project_events q) = get_call ''stats.getEventTimeseries'' [of_project p] q"
| "own_call p (Project_summary q) = get_call ''stats.getSummary'' [of_project p] q"
| "own_call p Project_versions = get_call ''releases.list'' [of_project p] [(''per_page'', jint 100)]"
| "own_call p Project_environments = get_call ''environments.list'' [of_project p] []"
| "own_call p Project_members = get_call ''members.list'' [of_project p] []"
| "own_call p Project_candidates = get_call ''members.candidates'' [of_project p] []"

datatype project_read =
    R_own own_read
  | R_agents agent_read
  | R_alerts alert_read
  | R_events event_read
  | R_issues issue_read
  | R_logs log_read
  | R_monitors monitor_read
  | R_releases release_read
  | R_transactions transaction_read
  | R_github github_read

fun project_key :: "project_read \<Rightarrow> qkey" where
  "project_key (R_own r) = own_key r"
| "project_key (R_agents r) = JStr ''agents'' # agent_key r"
| "project_key (R_alerts r) = JStr ''alerts'' # alert_key r"
| "project_key (R_events r) = JStr ''events'' # event_key r"
| "project_key (R_issues r) = JStr ''issues'' # issue_key r"
| "project_key (R_logs r) = JStr ''logs'' # log_key r"
| "project_key (R_monitors r) = JStr ''monitors'' # monitor_key r"
| "project_key (R_releases r) = JStr ''releases'' # release_key r"
| "project_key (R_transactions r) = JStr ''transactions'' # transaction_key r"
| "project_key (R_github r) = JStr ''github'' # github_key r"

fun project_call :: "int \<Rightarrow> project_read \<Rightarrow> api_call" where
  "project_call p (R_own r) = own_call p r"
| "project_call p (R_agents r) = agent_call p r"
| "project_call p (R_alerts r) = alert_call p r"
| "project_call p (R_events r) = event_call p r"
| "project_call p (R_issues r) = issue_call p r"
| "project_call p (R_logs r) = log_call p r"
| "project_call p (R_monitors r) = monitor_call p r"
| "project_call p (R_releases r) = release_call p r"
| "project_call p (R_transactions r) = transaction_call p r"
| "project_call p (R_github r) = github_call p r"

section \<open>The reads of the instance\<close>

datatype instance_read =
    Integrations
  | Template_preview string
  | Projects_list qobj
  | Rate_limits
  | Storage_summary
  | Storage_projects
  | Storage_age
  | Storage_compaction
  | Storage_retention
  | Retention_preview jv
  | Cleanup_preview jv
  | Cleanup_status
  | Source_map_gc_preview
  | Tokens
  | Mcp_settings
  | Mcp_authorization qobj
  | Mcp_connections
  | Github_status
  | Github_login
  | Sso_config
  | Sso_link
  | Invitation string
  | Invitations
  | Email_status
  | Team
  | Roles
  | User_assignments int
  | Access_me
  | Access_catalog
  | Version_read

fun instance_key :: "instance_read \<Rightarrow> qkey" where
  "instance_key Integrations = [JStr ''integrations'', JStr ''list'']"
| "instance_key (Template_preview t) = [JStr ''integrations'', JStr ''template-preview'', JStr t]"
| "instance_key (Projects_list q) = [JStr ''projects'', JStr ''list'', JObj q]"
| "instance_key Rate_limits = [JStr ''rate-limits'']"
| "instance_key Storage_summary = [JStr ''storage'', JStr ''summary'']"
| "instance_key Storage_projects = [JStr ''storage'', JStr ''projects'']"
| "instance_key Storage_age = [JStr ''storage'', JStr ''age'']"
| "instance_key Storage_compaction = [JStr ''storage'', JStr ''compaction'']"
| "instance_key Storage_retention = [JStr ''storage'', JStr ''retention'']"
| "instance_key (Retention_preview s) = [JStr ''storage'', JStr ''retention'', JStr ''preview'', s]"
| "instance_key (Cleanup_preview r) = [JStr ''storage'', JStr ''cleanup'', JStr ''preview'', r]"
| "instance_key Cleanup_status = [JStr ''storage'', JStr ''cleanup'', JStr ''status'']"
| "instance_key Source_map_gc_preview = [JStr ''storage'', JStr ''source-maps'', JStr ''gc-preview'']"
| "instance_key Tokens = [JStr ''tokens'', JStr ''list'']"
| "instance_key Mcp_settings = [JStr ''mcp'', JStr ''settings'']"
| "instance_key (Mcp_authorization q) = [JStr ''mcp'', JStr ''authorization'', JObj q]"
| "instance_key Mcp_connections = [JStr ''mcp'', JStr ''connections'']"
| "instance_key Github_status = [JStr ''github'', JStr ''status'']"
| "instance_key Github_login = [JStr ''github'', JStr ''me'']"
| "instance_key Sso_config = [JStr ''auth'', JStr ''sso-config'']"
| "instance_key Sso_link = [JStr ''auth'', JStr ''sso-link'']"
| "instance_key (Invitation t) = [JStr ''invitations'', JStr ''token'', JStr t]"
| "instance_key Invitations = [JStr ''invitations'', JStr ''list'']"
| "instance_key Email_status = [JStr ''invitations'', JStr ''email-status'']"
| "instance_key Team = [JStr ''team'']"
| "instance_key Roles = [JStr ''roles'']"
| "instance_key (User_assignments u) = [JStr ''team'', jint u, JStr ''assignments'']"
| "instance_key Access_me = [JStr ''access'', JStr ''me'']"
| "instance_key Access_catalog = [JStr ''access'', JStr ''catalog'']"
| "instance_key Version_read = [JStr ''server-version'']"

fun instance_call :: "instance_read \<Rightarrow> api_call" where
  "instance_call Integrations = get_call ''alertChannels.list'' [] []"
| "instance_call (Template_preview t) =
     body_call ''alertChannels.previewTemplate'' [] (JObj [(''template'', JStr t)])"
| "instance_call (Projects_list q) = get_call ''projects.list'' [] q"
| "instance_call Rate_limits = get_call ''projects.getRateLimits'' [] []"
| "instance_call Storage_summary = get_call ''storage.getSummary'' [] []"
| "instance_call Storage_projects = get_call ''storage.getProjects'' [] []"
| "instance_call Storage_age = get_call ''storage.getAge'' [] []"
| "instance_call Storage_compaction = get_call ''storage.getCompaction'' [] []"
| "instance_call Storage_retention = get_call ''storage.getRetention'' [] []"
| "instance_call (Retention_preview s) = body_call ''storage.previewRetention'' [] s"
| "instance_call (Cleanup_preview r) = body_call ''storage.previewCleanup'' [] r"
| "instance_call Cleanup_status = get_call ''storage.getCleanupStatus'' [] []"
| "instance_call Source_map_gc_preview = get_call ''storage.previewSourceMapGc'' [] []"
| "instance_call Tokens = get_call ''tokens.list'' [] []"
| "instance_call Mcp_settings = get_call ''settings.getMcp'' [] []"
| "instance_call (Mcp_authorization q) = get_call ''oauth.getAuthorization'' [] q"
| "instance_call Mcp_connections = get_call ''oauth.listGrants'' [] []"
| "instance_call Github_status = get_call ''github.status'' [] []"
| "instance_call Github_login = get_call ''github.getMyLogin'' [] []"
| "instance_call Sso_config = get_call ''auth.ssoConfig'' [] []"
| "instance_call Sso_link = get_call ''auth.ssoLink'' [] []"
| "instance_call (Invitation t) = get_call ''auth.getInvitation'' [(''token'', JStr t)] []"
| "instance_call Invitations = get_call ''invitations.list'' [] []"
| "instance_call Email_status = get_call ''invitations.emailStatus'' [] []"
| "instance_call Team = get_call ''team.list'' [] []"
| "instance_call Roles = get_call ''roles.list'' [] []"
| "instance_call (User_assignments u) = get_call ''users.assignments'' [(''id'', jint u)] []"
| "instance_call Access_me = get_call ''access.me'' [] []"
| "instance_call Access_catalog = get_call ''access.catalog'' [] []"
| "instance_call Version_read = get_call ''health.version'' [] []"

datatype read = Project_read int project_read | Instance_read instance_read

fun read_key :: "read \<Rightarrow> qkey" where
  "read_key (Project_read p r) = projectScope p @ project_key r"
| "read_key (Instance_read r) = instance_key r"

fun read_call :: "read \<Rightarrow> api_call" where
  "read_call (Project_read p r) = project_call p r"
| "read_call (Instance_read r) = instance_call r"

section \<open>One cache entry, one request\<close>

text \<open>
  What a key or a query is worth as text: members that are \<open>undefined\<close> are left out, and the order of
  the others does not count.
\<close>

definition key_le :: "(string \<times> jv) \<Rightarrow> (string \<times> jv) \<Rightarrow> bool" where
  "key_le a b \<longleftrightarrow> ord.lexordp_eq (\<lambda>x y. (of_char x :: nat) < of_char y) (fst a) (fst b)"

fun norm_jv :: "jv \<Rightarrow> jv" where
  "norm_jv (JObj ps) =
     JObj (sort_by key_le (map (\<lambda>(k, v). (k, norm_jv v)) (filter (\<lambda>(k, v). v \<noteq> JUndef) ps)))"
| "norm_jv (JArr vs) = JArr (map norm_jv vs)"
| "norm_jv v = v"

definition same_call :: "api_call \<Rightarrow> api_call \<Rightarrow> bool" where
  "same_call c d \<longleftrightarrow>
     ac_op c = ac_op d \<and> ac_path c = ac_path d \<and> norm_jv (JObj (ac_query c)) = norm_jv (JObj (ac_query d))
     \<and> norm_jv (ac_body c) = norm_jv (ac_body d)"

lemma same_get [simp]:
  "same_call (get_call op path q) (get_call op' path' q') \<longleftrightarrow>
     op = op' \<and> path = path' \<and> norm_jv (JObj q) = norm_jv (JObj q')"
  by (simp add: same_call_def get_call_def)

lemma same_body [simp]:
  "same_call (body_call op path b) (body_call op' path' b') \<longleftrightarrow> op = op' \<and> path = path' \<and> norm_jv b = norm_jv b'"
  by (simp add: same_call_def body_call_def)

lemma opt_str_inj [simp]: "opt_str a = opt_str b \<longleftrightarrow> a = b"
  by (cases a; cases b) simp_all

lemma opt_int_inj [simp]: "opt_int a = opt_int b \<longleftrightarrow> a = b"
  by (cases a; cases b) simp_all

lemma norm_one: "norm_jv (JObj [(k, opt_str a)]) = norm_jv (JObj [(k, opt_str b)]) \<longleftrightarrow> a = b"
  by (cases a; cases b) (simp_all add: sort_by_def)

lemma norm_two:
  "norm_jv (JObj [(k, opt_int a), (l, opt_int c)]) = norm_jv (JObj [(k, opt_int b), (l, opt_int d)])
     \<longleftrightarrow> a = b \<and> c = d" if "k \<noteq> l"
  using that by (cases a; cases b; cases c; cases d) (auto simp: sort_by_def)

lemma norm_two_int:
  "norm_jv (JObj [(k, opt_int a), (l, jint c)]) = norm_jv (JObj [(k, opt_int b), (l, jint d)])
     \<longleftrightarrow> a = b \<and> c = d" if "k \<noteq> l"
  using norm_two [OF that, of a "Some c" b "Some d"] by simp

lemmas norm_keys = norm_one norm_two norm_two_int

lemma agent_same:
  "map norm_jv (agent_key a) = map norm_jv (agent_key b) \<Longrightarrow> same_call (agent_call p a) (agent_call p b)"
  by (cases a; cases b) (simp_all del: norm_jv.simps(1))

lemma alert_same:
  "map norm_jv (alert_key a) = map norm_jv (alert_key b) \<Longrightarrow> same_call (alert_call p a) (alert_call p b)"
  by (cases a; cases b) (simp_all del: norm_jv.simps(1) add: norm_keys)

lemma event_same:
  "map norm_jv (event_key a) = map norm_jv (event_key b) \<Longrightarrow> same_call (event_call p a) (event_call p b)"
  by (cases a; cases b) (simp_all del: norm_jv.simps(1))

lemma issue_same:
  "map norm_jv (issue_key a) = map norm_jv (issue_key b) \<Longrightarrow> same_call (issue_call p a) (issue_call p b)"
  by (cases a; cases b) (simp_all del: norm_jv.simps(1))

lemma log_same:
  "map norm_jv (log_key a) = map norm_jv (log_key b) \<Longrightarrow> same_call (log_call p a) (log_call p b)"
  by (cases a; cases b) (simp_all del: norm_jv.simps(1))

lemma monitor_same:
  "map norm_jv (monitor_key a) = map norm_jv (monitor_key b) \<Longrightarrow> same_call (monitor_call p a) (monitor_call p b)"
  by (cases a; cases b) (simp_all del: norm_jv.simps(1))

lemma release_same:
  "map norm_jv (release_key a) = map norm_jv (release_key b) \<Longrightarrow> same_call (release_call p a) (release_call p b)"
  by (cases a; cases b) (simp_all del: norm_jv.simps(1) add: norm_keys)

lemma transaction_same:
  "map norm_jv (transaction_key a) = map norm_jv (transaction_key b)
     \<Longrightarrow> same_call (transaction_call p a) (transaction_call p b)"
  by (cases a; cases b) (simp_all del: norm_jv.simps(1))

lemma github_same:
  "map norm_jv (github_key a) = map norm_jv (github_key b) \<Longrightarrow> same_call (github_call p a) (github_call p b)"
  by (cases a; cases b) (simp_all del: norm_jv.simps(1))

lemma own_same:
  "map norm_jv (own_key a) = map norm_jv (own_key b) \<Longrightarrow> same_call (own_call p a) (own_call p b)"
  by (cases a; cases b) (simp_all del: norm_jv.simps(1))

text \<open>A project's own reads share no key with a feature's, although two of them begin like one.\<close>

lemma own_apart:
  "map norm_jv (own_key a) \<noteq> JStr f # map norm_jv k"
  if "f \<notin> {''detail'', ''stats'', ''releases'', ''environments'', ''members''}"
  using that by (cases a) (auto simp del: norm_jv.simps(1))

lemma own_releases_apart: "map norm_jv (own_key a) \<noteq> JStr ''releases'' # map norm_jv (release_key b)"
  by (cases a; cases b) (simp_all del: norm_jv.simps(1))

lemma project_same:
  assumes "map norm_jv (project_key a) = map norm_jv (project_key b)"
  shows "same_call (project_call p a) (project_call p b)"
proof (cases a; cases b)
  fix x y assume "a = R_own x" "b = R_own y"
  then show ?thesis using assms own_same by simp
next
  fix x y assume "a = R_agents x" "b = R_agents y"
  then show ?thesis using assms agent_same by simp
next
  fix x y assume "a = R_alerts x" "b = R_alerts y"
  then show ?thesis using assms alert_same by simp
next
  fix x y assume "a = R_events x" "b = R_events y"
  then show ?thesis using assms event_same by simp
next
  fix x y assume "a = R_issues x" "b = R_issues y"
  then show ?thesis using assms issue_same by simp
next
  fix x y assume "a = R_logs x" "b = R_logs y"
  then show ?thesis using assms log_same by simp
next
  fix x y assume "a = R_monitors x" "b = R_monitors y"
  then show ?thesis using assms monitor_same by simp
next
  fix x y assume "a = R_releases x" "b = R_releases y"
  then show ?thesis using assms release_same by simp
next
  fix x y assume "a = R_transactions x" "b = R_transactions y"
  then show ?thesis using assms transaction_same by simp
next
  fix x y assume "a = R_github x" "b = R_github y"
  then show ?thesis using assms github_same by simp
qed (use assms own_apart own_releases_apart own_apart [symmetric] own_releases_apart [symmetric] in \<open>auto simp del: norm_jv.simps(1)\<close>)

lemma instance_same:
  "map norm_jv (instance_key a) = map norm_jv (instance_key b) \<Longrightarrow> same_call (instance_call a) (instance_call b)"
  by (cases a; cases b; simp del: norm_jv.simps(1))

lemma instance_apart: "map norm_jv (instance_key a) \<noteq> JStr ''projects'' # jint p # k"
  by (cases a) (simp_all del: norm_jv.simps(1))

text \<open>
  C27: no two reads share a cache entry unless they are one request: however the cache hashes keys, as
  long as it tells apart those that differ in more than the order of an object's members, two reads
  with the same hash ask the server the same thing.
\<close>

theorem cache_entry_is_one_request:
  assumes "\<And>k k'. hash k = hash k' \<Longrightarrow> map norm_jv k = map norm_jv k'"
    and "hash (read_key r) = hash (read_key s)"
  shows "same_call (read_call r) (read_call s)"
proof -
  have k: "map norm_jv (read_key r) = map norm_jv (read_key s)" using assms by blast
  show ?thesis
  proof (cases r; cases s)
    fix p x q y assume rs: "r = Project_read p x" "s = Project_read q y"
    then have "p = q" "map norm_jv (project_key x) = map norm_jv (project_key y)"
      using k by (simp_all add: projectScope_def)
    then show ?thesis using project_same by (simp add: rs)
  next
    fix x y assume rs: "r = Instance_read x" "s = Instance_read y"
    then show ?thesis using k instance_same by simp
  next
    fix p x y assume rs: "r = Project_read p x" "s = Instance_read y"
    then show ?thesis using k instance_apart [of y p] by (simp add: projectScope_def) (metis (no_types))
  next
    fix p x y assume rs: "r = Instance_read y" "s = Project_read p x"
    then show ?thesis using k instance_apart [of y p] by (simp add: projectScope_def)
  qed
qed

lemma cache_entry_is_one_request_witness:
  "same_call (read_call (Project_read 7 (R_issues (Issue_list [(''page'', jint 2), (''status'', JStr ''resolved'')]))))
     (read_call (Project_read 7 (R_issues
        (Issue_list [(''status'', JStr ''resolved''), (''cursor'', JUndef), (''page'', jint 2)]))))"
  by (rule cache_entry_is_one_request [of "map norm_jv"])
    (simp_all add: projectScope_def sort_by_def key_le_def ord.lexordp_eq_simps)

section \<open>The writes\<close>

text \<open>The writes of one project; a write to several issues is one request each.\<close>

datatype project_write =
    Rule_create jv
  | Rule_update int jv
  | Rule_delete int
  | Issue_update string jv
  | Issue_assign "string list" "int option"
  | Issue_bulk_update jv
  | Issue_bulk_delete jv
  | Issue_delete string
  | Issue_comment string string
  | Issue_bookmark string bool
  | Issue_subscribe string bool
  | Monitor_create jv
  | Monitor_update string jv
  | Monitor_delete string
  | Project_update jv
  | Member_set jv
  | Member_remove int
  | Repository_set jv
  | Repository_remove
  | Codeowners_sync
  | Github_create string jv
  | Github_link string string
  | Github_unlink string int

definition opt_null :: "int option \<Rightarrow> jv" where
  "opt_null v = (case v of None \<Rightarrow> JNull | Some i \<Rightarrow> jint i)"

fun write_calls :: "int \<Rightarrow> project_write \<Rightarrow> api_call list" where
  "write_calls p (Rule_create b) = [body_call ''alertRules.create'' [of_project p] b]"
| "write_calls p (Rule_update r b) = [body_call ''alertRules.update'' [of_project p, (''rule_id'', jint r)] b]"
| "write_calls p (Rule_delete r) = [body_call ''alertRules.delete'' [of_project p, (''rule_id'', jint r)] JUndef]"
| "write_calls p (Issue_update i b) = [body_call ''issues.update'' [of_project p, of_issue i] b]"
| "write_calls p (Issue_assign is a) =
     map (\<lambda>i. body_call ''issues.update'' [of_project p, of_issue i] (JObj [(''assigned_to'', opt_null a)])) is"
| "write_calls p (Issue_bulk_update b) = [body_call ''issues.bulkUpdate'' [of_project p] b]"
| "write_calls p (Issue_bulk_delete b) = [body_call ''issues.bulkDelete'' [of_project p] b]"
| "write_calls p (Issue_delete i) = [body_call ''issues.delete'' [of_project p, of_issue i] JUndef]"
| "write_calls p (Issue_comment i t) =
     [body_call ''issues.createComment'' [of_project p, of_issue i] (JObj [(''text'', JStr t)])]"
| "write_calls p (Issue_bookmark i b) =
     [body_call ''issues.setBookmark'' [of_project p, of_issue i] (JObj [(''enabled'', JBool b)])]"
| "write_calls p (Issue_subscribe i b) =
     [body_call ''issues.setSubscription'' [of_project p, of_issue i] (JObj [(''enabled'', JBool b)])]"
| "write_calls p (Monitor_create b) = [body_call ''monitors.create'' [of_project p] b]"
| "write_calls p (Monitor_update s b) = [body_call ''monitors.update'' [of_project p, (''slug'', JStr s)] b]"
| "write_calls p (Monitor_delete s) = [body_call ''monitors.delete'' [of_project p, (''slug'', JStr s)] JUndef]"
| "write_calls p (Project_update b) = [body_call ''projects.update'' [(''id'', jint p)] b]"
| "write_calls p (Member_set b) = [body_call ''members.upsert'' [of_project p] b]"
| "write_calls p (Member_remove u) = [body_call ''members.remove'' [of_project p, (''user_id'', jint u)] JUndef]"
| "write_calls p (Repository_set b) = [body_call ''github.putProjectRepository'' [of_project p] b]"
| "write_calls p Repository_remove = [body_call ''github.deleteProjectRepository'' [of_project p] JUndef]"
| "write_calls p Codeowners_sync = [body_call ''github.syncCodeowners'' [of_project p] JUndef]"
| "write_calls p (Github_create i b) = [body_call ''github.createIssue'' [of_project p, of_issue i] b]"
| "write_calls p (Github_link i r) =
     [body_call ''github.linkIssue'' [of_project p, of_issue i] (JObj [(''reference'', JStr r)])]"
| "write_calls p (Github_unlink i l) =
     [body_call ''github.unlinkIssue'' [of_project p, of_issue i, (''link_id'', jint l)] JUndef]"

text \<open>The keys the slices name: a feature's whole scope, a project's rules, all of one issue, one monitor.\<close>

definition scope_of :: "int \<Rightarrow> string \<Rightarrow> qkey" where
  "scope_of p feature = projectScope p @ [JStr feature]"

definition rules_key :: "int \<Rightarrow> qkey" where
  "rules_key p = scope_of p ''alerts'' @ [JStr ''rules'']"

definition issue_lists_key :: "int \<Rightarrow> qkey" where
  "issue_lists_key p = scope_of p ''issues'' @ [JStr ''list'']"

definition one_issue_key :: "int \<Rightarrow> string \<Rightarrow> qkey" where
  "one_issue_key p i = scope_of p ''issues'' @ [JStr ''issue'', JStr i]"

definition one_monitor_key :: "int \<Rightarrow> string \<Rightarrow> qkey" where
  "one_monitor_key p s = scope_of p ''monitors'' @ [JStr ''monitor'', JStr s]"

definition projects_lists_key :: qkey where
  "projects_lists_key = [JStr ''projects'', JStr ''list'']"

fun write_invalidates :: "int \<Rightarrow> project_write \<Rightarrow> qkey list" where
  "write_invalidates p (Rule_create _) = [rules_key p]"
| "write_invalidates p (Rule_update _ _) = [rules_key p]"
| "write_invalidates p (Rule_delete _) = [scope_of p ''alerts'']"
| "write_invalidates p (Issue_update _ _) = [projectScope p]"
| "write_invalidates p (Issue_assign _ _) = [projectScope p]"
| "write_invalidates p (Issue_bulk_update _) = [projectScope p]"
| "write_invalidates p (Issue_bulk_delete _) = [projectScope p]"
| "write_invalidates p (Issue_delete _) = [projectScope p]"
| "write_invalidates p (Issue_comment i _) = [one_issue_key p i]"
| "write_invalidates p (Issue_bookmark i _) = [one_issue_key p i, issue_lists_key p]"
| "write_invalidates p (Issue_subscribe i _) = [one_issue_key p i]"
| "write_invalidates p (Monitor_create _) = [scope_of p ''monitors'']"
| "write_invalidates p (Monitor_update _ _) = [scope_of p ''monitors'']"
| "write_invalidates p (Monitor_delete _) = [scope_of p ''monitors'']"
| "write_invalidates p (Project_update _) = [read_key (Project_read p (R_own Project_detail)), projects_lists_key]"
| "write_invalidates p (Member_set _) = [read_key (Project_read p (R_own Project_members))]"
| "write_invalidates p (Member_remove _) = [read_key (Project_read p (R_own Project_members))]"
| "write_invalidates p (Repository_set _) = [scope_of p ''github'']"
| "write_invalidates p Repository_remove = [scope_of p ''github'']"
| "write_invalidates p Codeowners_sync = [scope_of p ''github'']"
| "write_invalidates p (Github_create _ _) = [projectScope p]"
| "write_invalidates p (Github_link _ _) = [projectScope p]"
| "write_invalidates p (Github_unlink _ _) = [projectScope p]"

text \<open>\<open>onSuccess\<close>: what is dropped from the cache, as a prefix of keys.\<close>

fun write_removes :: "int \<Rightarrow> project_write \<Rightarrow> qkey list" where
  "write_removes p (Rule_delete r) = [read_key (Project_read p (R_alerts (Alert_rule r)))]"
| "write_removes p (Issue_delete i) = [one_issue_key p i]"
| "write_removes p (Monitor_delete s) = [one_monitor_key p s]"
| "write_removes p _ = []"

datatype instance_write =
    Integration_create jv
  | Integration_update int jv
  | Integration_delete int
  | Integration_test int "jv option"
  | Project_create jv
  | Project_delete int
  | Storage_cleanup jv
  | Retention_run
  | Storage_compact
  | Source_maps_gc
  | Retention_update jv
  | Token_create jv
  | Token_delete int
  | Mcp_update bool
  | Mcp_decide qobj bool
  | Mcp_revoke int
  | Github_manifest "string option"
  | Github_disconnect
  | Github_template jv
  | Github_set_login "string option"
  | User_role int string
  | User_remove int
  | Role_create jv
  | Role_update int jv
  | Role_delete int
  | Assignments_set int jv
  | Invite jv
  | Invitation_resend string
  | Invitation_revoke string
  | Invitation_accept jv

definition INVITATION_EMAIL_STATUS :: qkey where
  "INVITATION_EMAIL_STATUS = [JStr ''invitations'', JStr ''email-status'']"

fun instance_write_call :: "instance_write \<Rightarrow> api_call" where
  "instance_write_call (Integration_create b) = body_call ''alertChannels.create'' [] b"
| "instance_write_call (Integration_update i b) = body_call ''alertChannels.update'' [(''id'', jint i)] b"
| "instance_write_call (Integration_delete i) = body_call ''alertChannels.delete'' [(''id'', jint i)] JUndef"
| "instance_write_call (Integration_test i r) =
     body_call ''alertChannels.test'' [(''id'', jint i)]
       (case r of None \<Rightarrow> JUndef | Some v \<Rightarrow> JObj [(''routing_override'', v)])"
| "instance_write_call (Project_create b) = body_call ''projects.create'' [] b"
| "instance_write_call (Project_delete p) = body_call ''projects.delete'' [(''id'', jint p)] JUndef"
| "instance_write_call (Storage_cleanup b) = body_call ''storage.executeCleanup'' [] b"
| "instance_write_call Retention_run = body_call ''storage.runRetention'' [] JUndef"
| "instance_write_call Storage_compact = body_call ''storage.compact'' [] JUndef"
| "instance_write_call Source_maps_gc = body_call ''storage.gcSourceMaps'' [] JUndef"
| "instance_write_call (Retention_update b) = body_call ''storage.updateRetention'' [] b"
| "instance_write_call (Token_create b) = body_call ''tokens.create'' [] b"
| "instance_write_call (Token_delete i) = body_call ''tokens.delete'' [(''id'', jint i)] JUndef"
| "instance_write_call (Mcp_update b) = body_call ''settings.updateMcp'' [] (JObj [(''enabled'', JBool b)])"
| "instance_write_call (Mcp_decide q b) =
     body_call ''oauth.decideAuthorization'' [] (JObj (obj_put ''approve'' (JBool b) q))"
| "instance_write_call (Mcp_revoke i) = body_call ''oauth.revokeGrant'' [(''id'', jint i)] JUndef"
| "instance_write_call (Github_manifest org) =
     body_call ''github.manifest'' [] (JObj [(''organization'', opt_str org)])"
| "instance_write_call Github_disconnect = body_call ''github.disconnect'' [] JUndef"
| "instance_write_call (Github_template b) = body_call ''github.putIssueTemplate'' [] b"
| "instance_write_call (Github_set_login l) =
     body_call ''github.putMyLogin'' [] (JObj [(''login'', case l of None \<Rightarrow> JNull | Some s \<Rightarrow> JStr s)])"
| "instance_write_call (User_role u r) =
     body_call ''team.updateRole'' [(''user_id'', jint u)] (JObj [(''role'', JStr r)])"
| "instance_write_call (User_remove u) = body_call ''team.deleteUser'' [(''user_id'', jint u)] JUndef"
| "instance_write_call (Role_create b) = body_call ''roles.create'' [] b"
| "instance_write_call (Role_update i b) = body_call ''roles.update'' [(''id'', jint i)] b"
| "instance_write_call (Role_delete i) = body_call ''roles.delete'' [(''id'', jint i)] JUndef"
| "instance_write_call (Assignments_set u b) = body_call ''users.setAssignments'' [(''id'', jint u)] b"
| "instance_write_call (Invite b) = body_call ''invitations.create'' [] b"
| "instance_write_call (Invitation_resend i) = body_call ''invitations.resend'' [(''id'', JStr i)] JUndef"
| "instance_write_call (Invitation_revoke i) = body_call ''invitations.revoke'' [(''id'', JStr i)] JUndef"
| "instance_write_call (Invitation_accept b) = body_call ''auth.acceptInvitation'' [] b"

fun instance_invalidates :: "instance_write \<Rightarrow> qkey list" where
  "instance_invalidates (Integration_create _) = [instance_key Integrations, INVITATION_EMAIL_STATUS]"
| "instance_invalidates (Integration_update _ _) = [instance_key Integrations, INVITATION_EMAIL_STATUS]"
| "instance_invalidates (Integration_delete _) =
     [instance_key Integrations, INVITATION_EMAIL_STATUS, [JStr ''projects'']]"
| "instance_invalidates (Integration_test _ _) = []"
| "instance_invalidates (Project_create _) = [projects_lists_key]"
| "instance_invalidates (Project_delete _) = [projects_lists_key]"
| "instance_invalidates (Storage_cleanup _) = [[JStr ''storage'']]"
| "instance_invalidates Retention_run = [[JStr ''storage'']]"
| "instance_invalidates Storage_compact = [[JStr ''storage'']]"
| "instance_invalidates Source_maps_gc = [[JStr ''storage'']]"
| "instance_invalidates (Retention_update _) = [instance_key Storage_retention]"
| "instance_invalidates (Token_create _) = [instance_key Tokens]"
| "instance_invalidates (Token_delete _) = [[JStr ''tokens'']]"
| "instance_invalidates (Mcp_update _) = [instance_key Mcp_settings]"
| "instance_invalidates (Mcp_decide _ _) = [instance_key Mcp_connections]"
| "instance_invalidates (Mcp_revoke _) = [instance_key Mcp_connections]"
| "instance_invalidates (Github_manifest _) = []"
| "instance_invalidates Github_disconnect = [[JStr ''github''], [JStr ''projects'']]"
| "instance_invalidates (Github_template _) = [[JStr ''github'']]"
| "instance_invalidates (Github_set_login _) = [instance_key Github_login]"
| "instance_invalidates (User_role _ _) = [instance_key Team, [JStr ''access'']]"
| "instance_invalidates (User_remove _) = [instance_key Team, [JStr ''projects'']]"
| "instance_invalidates (Role_create _) = [instance_key Roles]"
| "instance_invalidates (Role_update _ _) = [instance_key Roles, [JStr ''access'']]"
| "instance_invalidates (Role_delete _) = [instance_key Roles]"
| "instance_invalidates (Assignments_set u _) = [instance_key (User_assignments u), instance_key Roles]"
| "instance_invalidates (Invite _) = [instance_key Invitations]"
| "instance_invalidates (Invitation_resend _) = [instance_key Invitations]"
| "instance_invalidates (Invitation_revoke _) = [[JStr ''invitations'']]"
| "instance_invalidates (Invitation_accept _) = [instance_key Invitations, instance_key Team]"

fun instance_removes :: "instance_write \<Rightarrow> qkey list" where
  "instance_removes (Project_delete p) = [projectScope p]"
| "instance_removes _ = []"

datatype qwrite = Project_write int project_write | Instance_write instance_write

fun invalidates :: "qwrite \<Rightarrow> qkey list" where
  "invalidates (Project_write p w) = write_invalidates p w"
| "invalidates (Instance_write w) = instance_invalidates w"

fun removes_on_success :: "qwrite \<Rightarrow> qkey list" where
  "removes_on_success (Project_write p w) = write_removes p w"
| "removes_on_success (Instance_write w) = instance_removes w"

section \<open>Settling a write\<close>

text \<open>
  The cache: its reads, each with whether something on screen is using it. A write that succeeded drops
  first what its \<open>onSuccess\<close> names; settled either way, it refetches what is used under the keys it
  invalidates. \<open>matches\<close> is the library's test of a query by a key, documented as: the query's key
  begins with it.
\<close>

definition begins_with :: "qkey \<Rightarrow> qkey \<Rightarrow> bool" where
  "begins_with k key \<longleftrightarrow> take (length k) key = k"

definition settle_write :: "(qkey \<Rightarrow> qkey \<Rightarrow> bool) \<Rightarrow> qwrite \<Rightarrow> bool \<Rightarrow> (read \<times> bool) list \<Rightarrow> (read \<times> bool) list \<times> read list" where
  "settle_write matches w success cache =
     (let under = (\<lambda>ks r. list_ex (\<lambda>k. matches k (read_key r)) ks);
          kept = (if success then filter (\<lambda>(r, used). \<not> under (removes_on_success w) r) cache else cache)
      in (kept, map fst (filter (\<lambda>(r, used). used \<and> under (invalidates w) r) kept)))"

definition documented_match :: "(qkey \<Rightarrow> qkey \<Rightarrow> bool) \<Rightarrow> bool" where
  "documented_match matches \<longleftrightarrow> (\<forall>k r. matches k (read_key r) = begins_with k (read_key r))"

lemmas key_defs = projectScope_def scope_of_def rules_key_def issue_lists_key_def one_issue_key_def one_monitor_key_def
  projects_lists_key_def INVITATION_EMAIL_STATUS_def

lemma begins_Nil [simp]: "begins_with [] key" "\<not> begins_with (k # ks) []"
  by (simp_all add: begins_with_def)

lemma begins_Cons [simp]: "begins_with (k # ks) (j # js) \<longleftrightarrow> k = j \<and> begins_with ks js"
  by (auto simp: begins_with_def)

lemma refetched_iff:
  assumes "documented_match matches"
  shows "r \<in> set (snd (settle_write matches w success cache)) \<longleftrightarrow>
    (r, True) \<in> set cache \<and> (\<exists>k \<in> set (invalidates w). begins_with k (read_key r))
    \<and> \<not> (success \<and> (\<exists>k \<in> set (removes_on_success w). begins_with k (read_key r)))"
  using assms by (force simp: settle_write_def documented_match_def Let_def list_ex_iff image_iff)

definition stays_in_project :: "int \<Rightarrow> read \<Rightarrow> bool" where
  "stays_in_project p r =
     (case r of Project_read q _ \<Rightarrow> q = p | Instance_read (Projects_list _) \<Rightarrow> True | _ \<Rightarrow> False)"

lemma project_scope_only: "begins_with (projectScope p @ k) (read_key r) \<Longrightarrow> \<exists>x. r = Project_read p x"
proof (cases r)
  case (Instance_read x)
  assume "begins_with (projectScope p @ k) (read_key r)"
  then show ?thesis by (cases x) (simp_all add: Instance_read projectScope_def)
qed (auto simp: projectScope_def)

lemma projects_lists_only: "begins_with projects_lists_key (read_key r) \<Longrightarrow> \<exists>q. r = Instance_read (Projects_list q)"
proof (cases r)
  case (Instance_read x)
  assume "begins_with projects_lists_key (read_key r)"
  then show ?thesis by (cases x) (simp_all add: Instance_read projects_lists_key_def)
qed (simp add: projectScope_def projects_lists_key_def)

lemma write_keys_scoped:
  "k \<in> set (write_invalidates p w) \<Longrightarrow> k = projects_lists_key \<or> (\<exists>rest. k = projectScope p @ rest)"
  by (cases w) (auto simp: scope_of_def rules_key_def one_issue_key_def issue_lists_key_def)

text \<open>
  a write in one project never makes another project's page ask again: whatever is in the cache,
  and whether the write went through or not, all that is refetched is the project's own, and the lists
  of projects.
\<close>

theorem writes_stay_in_their_project:
  assumes "documented_match matches"
  shows "list_all (stays_in_project p) (snd (settle_write matches (Project_write p w) success cache))"
proof -
  have "stays_in_project p r" if r: "r \<in> set (snd (settle_write matches (Project_write p w) success cache))" for r
  proof -
    obtain k where k: "k \<in> set (write_invalidates p w)" "begins_with k (read_key r)"
      using r unfolding refetched_iff [OF assms] by auto
    have "(\<exists>q. r = Instance_read (Projects_list q)) \<or> (\<exists>x. r = Project_read p x)"
      using write_keys_scoped [OF k(1)] k(2) by (elim disjE exE) (simp_all add: project_scope_only projects_lists_only)
    then show ?thesis by (elim disjE exE) (simp_all add: stays_in_project_def)
  qed
  then show ?thesis by (simp add: list_all_iff)
qed

lemma writes_stay_in_their_project_witness:
  "list_all (stays_in_project 7)
     (snd (settle_write begins_with (Project_write 7 (Issue_delete ''a'')) True
        [(Project_read 7 (R_issues (Issue_list [])), True), (Project_read 8 (R_issues (Issue_list [])), True)]))"
  by (rule writes_stay_in_their_project) (simp add: documented_match_def)

text \<open>What a delete took away, asked for by the reads of its own kind.\<close>

fun issue_named :: "issue_read \<Rightarrow> string option" where
  "issue_named (Issue_detail i) = Some i"
| "issue_named (Issue_aggregates i) = Some i"
| "issue_named (Issue_stats i _) = Some i"
| "issue_named (Issue_activity i) = Some i"
| "issue_named (Issue_reports i) = Some i"
| "issue_named (Issue_list _) = None"
| "issue_named (Issue_feedback _) = None"

fun monitor_named :: "monitor_read \<Rightarrow> string option" where
  "monitor_named (Monitor_detail s) = Some s"
| "monitor_named (Monitor_check_ins s _) = Some s"
| "monitor_named Monitor_list = None"
| "monitor_named (Monitor_stats _) = None"

fun rule_named :: "alert_read \<Rightarrow> int option" where
  "rule_named (Alert_rule i) = Some i"
| "rule_named Alert_rules = None"
| "rule_named (Alert_history _ _) = None"
| "rule_named (Alert_by_day _ _) = None"

definition names_deleted :: "qwrite \<Rightarrow> read \<Rightarrow> bool" where
  "names_deleted w r =
     (case r of
        Instance_read _ \<Rightarrow> False
      | Project_read p x \<Rightarrow>
          w = Instance_write (Project_delete p) \<or>
          (case x of
             R_alerts a \<Rightarrow> (case rule_named a of None \<Rightarrow> False | Some i \<Rightarrow> w = Project_write p (Rule_delete i))
           | R_monitors m \<Rightarrow> (case monitor_named m of None \<Rightarrow> False | Some s \<Rightarrow> w = Project_write p (Monitor_delete s))
           | R_issues y \<Rightarrow> (case issue_named y of None \<Rightarrow> False | Some i \<Rightarrow> w = Project_write p (Issue_delete i))
           | _ \<Rightarrow> False))"

lemma issue_named_key: "issue_named y = Some i \<Longrightarrow> begins_with [JStr ''issue'', JStr i] (issue_key y)"
  by (cases y) auto

lemma monitor_named_key: "monitor_named m = Some s \<Longrightarrow> begins_with [JStr ''monitor'', JStr s] (monitor_key m)"
  by (cases m) auto

lemma rule_named_key: "rule_named a = Some k \<Longrightarrow> a = Alert_rule k"
  by (cases a) auto

lemmas named_keys = issue_named_key monitor_named_key rule_named_key

lemma deleted_is_removed:
  assumes "names_deleted w r"
  shows "\<exists>k \<in> set (removes_on_success w). begins_with k (read_key r)"
proof -
  obtain p x where r: "r = Project_read p x" using assms by (cases r) (simp_all add: names_deleted_def)
  show ?thesis
  proof (cases "w = Instance_write (Project_delete p)")
    case True
    then show ?thesis by (simp add: r projectScope_def)
  next
    case False
    with assms show ?thesis
      by (cases x) (auto simp: names_deleted_def r key_defs dest!: named_keys split: option.splits)
  qed
qed

text \<open>
  C28: what was just deleted is not asked for again: once a project, a rule, a monitor or an issue
  deleted on its own is gone, no read that is filed under its own key is refetched or kept, whatever was
  on screen. Two things are left out, and stated after it: issues deleted in bulk, whose reads are kept
  and refetched, and the reads of a deleted issue that are filed elsewhere, its events and its links.
\<close>

theorem deleted_is_not_asked_again:
  assumes "documented_match matches"
  shows "list_all (\<lambda>r. \<not> names_deleted w r) (snd (settle_write matches w True cache))
    \<and> list_all (\<lambda>(r, used). \<not> names_deleted w r) (fst (settle_write matches w True cache))"
proof -
  have "\<not> names_deleted w r" if "r \<in> set (snd (settle_write matches w True cache))" for r
    using that refetched_iff [OF assms, of r w True cache] deleted_is_removed [of w r] by auto
  moreover have "\<not> names_deleted w r" if "(r, used) \<in> set (fst (settle_write matches w True cache))" for r used
    using that deleted_is_removed [of w r] assms by (auto simp: settle_write_def Let_def list_ex_iff documented_match_def)
  ultimately show ?thesis by (auto simp: list_all_iff)
qed

lemma deleted_is_not_asked_again_witness:
  "list_all (\<lambda>r. \<not> names_deleted (Instance_write (Project_delete 7)) r)
     (snd (settle_write begins_with (Instance_write (Project_delete 7)) True
        [(Project_read 7 (R_logs (Log_list [])), True), (Instance_read (Projects_list []), True)]))"
  using deleted_is_not_asked_again [of begins_with "Instance_write (Project_delete 7)"
      "[(Project_read 7 (R_logs (Log_list [])), True), (Instance_read (Projects_list []), True)]"]
  by (simp add: documented_match_def)

text \<open>Issues deleted in bulk are: their own reads stay, and those on screen are asked for again.\<close>

lemma bulk_deleted_issues_asked_again:
  assumes "issue_named x = Some i"
  shows "settle_write begins_with (Project_write p (Issue_bulk_delete body)) True [(Project_read p (R_issues x), True)]
    = ([(Project_read p (R_issues x), True)], [Project_read p (R_issues x)])"
  by (simp add: settle_write_def key_defs)

text \<open>The reads of an issue's events and of its links are not among those: they stay, and are asked again.\<close>

lemma deleted_issue_events_asked_again:
  "snd (settle_write begins_with (Project_write p (Issue_delete i)) True
     [(Project_read p (R_events (Event_detail i e)), True), (Project_read p (R_github (Github_issue i)), True)])
   = [Project_read p (R_events (Event_detail i e)), Project_read p (R_github (Github_issue i))]"
  by (simp add: settle_write_def key_defs)

text \<open>What a person holds is read in two places, and a write at one is not refetched at the other.\<close>

lemma roles_read_twice:
  "snd (settle_write begins_with (Instance_write (Assignments_set u b)) True
     [(Project_read p (R_own Project_members), True), (Instance_read Access_me, True)]) = []"
  "snd (settle_write begins_with (Project_write p (Member_set b)) True
     [(Instance_read (User_assignments u), True), (Instance_read Access_me, True)]) = []"
  by (simp_all add: settle_write_def key_defs)

text \<open>
  a write shows where it is listed: settled with success or not, and with no prefix narrower than
  the one it needs, each write refetches the list, and the page, of what it changed.
\<close>

theorem writes_refresh_their_lists:
  assumes "documented_match matches"
  shows "list_all (\<lambda>(w, rs). snd (settle_write matches w False (map (\<lambda>r. (r, True)) rs)) = rs)
    [(Instance_write (Integration_update n b), [Instance_read Integrations, Instance_read Email_status]),
     (Instance_write (Integration_delete n), [Instance_read Integrations, Project_read p (R_alerts Alert_rules)]),
     (Instance_write (Project_create b), [Instance_read (Projects_list q)]),
     (Instance_write (Retention_update b), [Instance_read Storage_retention, Instance_read (Retention_preview b)]),
     (Instance_write (Storage_cleanup b), [Instance_read Storage_summary, Instance_read Cleanup_status]),
     (Instance_write (Token_create b), [Instance_read Tokens]),
     (Instance_write (User_role n t), [Instance_read Team, Instance_read (User_assignments n), Instance_read Access_me]),
     (Instance_write (Role_update n b), [Instance_read Roles, Instance_read Access_me]),
     (Instance_write (Invitation_revoke t), [Instance_read Invitations, Instance_read (Invitation t)]),
     (Instance_write Github_disconnect, [Instance_read Github_status, Project_read p (R_github Github_repository)]),
     (Project_write p (Project_update b), [Project_read p (R_own Project_detail), Instance_read (Projects_list q)]),
     (Project_write p (Rule_update n b), [Project_read p (R_alerts Alert_rules), Project_read p (R_alerts (Alert_rule n))]),
     (Project_write p (Monitor_update t b), [Project_read p (R_monitors Monitor_list), Project_read p (R_monitors (Monitor_detail t))]),
     (Project_write p (Issue_update t b), [Project_read p (R_issues (Issue_list q)), Project_read p (R_issues (Issue_detail t)), Project_read p (R_own (Project_summary q))]),
     (Project_write p (Issue_bookmark t f), [Project_read p (R_issues (Issue_list q)), Project_read p (R_issues (Issue_detail t))]),
     (Project_write p (Member_set b), [Project_read p (R_own Project_members), Project_read p (R_own Project_candidates)]),
     (Project_write p (Github_link t t2), [Project_read p (R_github (Github_issue t)), Project_read p (R_issues (Issue_activity t))])]"
  using assms by (simp add: settle_write_def documented_match_def key_defs)

lemma writes_refresh_their_lists_witness:
  "snd (settle_write begins_with (Instance_write (Token_create JNull)) False [(Instance_read Tokens, True)]) = [Instance_read Tokens]"
  using writes_refresh_their_lists [of begins_with 0 JNull 0 "[]" "[]" False "[]"] by (simp add: documented_match_def)

end
