(* ===== verification/ApiReads.thy ===== *)
theory ApiReads
  imports JsBase ClientErrors
begin

text \<open>
  The reads and writes that take more than one request: \<open>agentQueries.trace\<close>, \<open>eventQueries.navigation\<close>
  and \<open>latest\<close>, \<open>releaseQueries.healthRows\<close>, \<open>issueQueries.userReports\<close>, \<open>transactionQueries.group\<close>,
  \<open>projectQueries.releaseVersions\<close>, \<open>issueMutations.assign\<close> and \<open>startIfAllowed\<close>. The server is a
  parameter: what it answers to each page, a failure or a body.
\<close>

section \<open>Every span of a trace\<close>

type_synonym 'a page_answer = "rustrak_error + 'a list \<times> int"

definition page_items :: "'a page_answer \<Rightarrow> 'a list" where
  "page_items a = (case a of Inl _ \<Rightarrow> [] | Inr (items, _) \<Rightarrow> items)"

text \<open>The pages past the first, read together.\<close>

definition rest_pages :: "int \<Rightarrow> int list" where
  "rest_pages total_pages = map (\<lambda>i. int i + 2) [0..<nat (max (total_pages - 1) 0)]"

text \<open>
  \<open>Promise.all\<close> rejects with the first of them to fail, in the order they came back; \<open>came_back\<close> is
  that order.
\<close>

definition all_pages :: "(int \<Rightarrow> 'a page_answer) \<Rightarrow> (int list \<Rightarrow> int list) \<Rightarrow> int list \<Rightarrow> rustrak_error + 'a list" where
  "all_pages server came_back ns =
     (case List.find (\<lambda>n. case server n of Inl _ \<Rightarrow> True | Inr _ \<Rightarrow> False) (came_back ns) of
        Some n \<Rightarrow> (case server n of Inl e \<Rightarrow> Inl e | Inr _ \<Rightarrow> Inr [])
      | None \<Rightarrow> Inr (concat (map (\<lambda>n. page_items (server n)) ns)))"

definition read_trace :: "(int \<Rightarrow> 'a page_answer) \<Rightarrow> (int list \<Rightarrow> int list) \<Rightarrow> rustrak_error + 'a list" where
  "read_trace server came_back =
     (case server 1 of
        Inl e \<Rightarrow> Inl e
      | Inr (first, total_pages) \<Rightarrow>
          (case all_pages server came_back (rest_pages total_pages) of
             Inl e \<Rightarrow> Inl e
           | Inr items \<Rightarrow> Inr (first @ items)))"

text \<open>A trace of \<open>t\<close> pages, each with its items, and nothing said of a page past the last.\<close>

definition serves :: "(int \<Rightarrow> 'a page_answer) \<Rightarrow> 'a list list \<Rightarrow> bool" where
  "serves server pages \<longleftrightarrow>
     pages \<noteq> [] \<and> list_all (\<lambda>k. server (int k + 1) = Inr (pages ! k, int (length pages))) [0..<length pages]"

lemma serves_page: "serves server pages \<Longrightarrow> k < length pages \<Longrightarrow> server (int k + 1) = Inr (pages ! k, int (length pages))"
  by (simp add: serves_def list_all_iff)

lemma rest_pages_set: "n \<in> set (rest_pages t) \<longleftrightarrow> 2 \<le> n \<and> n \<le> t"
proof
  assume "2 \<le> n \<and> n \<le> t"
  then have "n = int (nat (n - 2)) + 2" "nat (n - 2) < nat (max (t - 1) 0)" by auto
  then show "n \<in> set (rest_pages t)" unfolding rest_pages_def by (metis (no_types, lifting) atLeastLessThan_iff image_eqI set_map set_upt zero_le)
qed (auto simp: rest_pages_def)

lemma rest_pages_concat:
  assumes "serves server pages"
  shows "concat (map (\<lambda>n. page_items (server n)) (rest_pages (int (length pages)))) = concat (tl pages)"
proof -
  have "map (\<lambda>n. page_items (server n)) (rest_pages (int (length pages))) = tl pages"
  proof (rule nth_equalityI)
    fix i assume "i < length (map (\<lambda>n. page_items (server n)) (rest_pages (int (length pages))))"
    then have i: "i + 1 < length pages" by (auto simp: rest_pages_def)
    then have "server (int i + 2) = Inr (pages ! (i + 1), int (length pages))"
      using serves_page [OF assms i] by (simp add: algebra_simps)
    then show "map (\<lambda>n. page_items (server n)) (rest_pages (int (length pages))) ! i = tl pages ! i"
      using i by (simp add: rest_pages_def page_items_def nth_tl)
  qed (auto simp: rest_pages_def)
  then show ?thesis by simp
qed

lemma rest_pages_upto: "rest_pages t = [2..t]"
  by (rule nth_equalityI) (auto simp: rest_pages_def)

lemma pages_upto: "[1..max 1 t] = 1 # rest_pages t"
  by (cases "1 \<le> t") (simp_all add: rest_pages_upto upto_rec1 max_def)

text \<open>
  C32: a trace is read whole or not at all. The server says with the first page how many there are,
  \<open>t\<close>; the pages from the first to that one (the first alone when it says none) come back
  one after the other, each once, in whatever order the requests finish, and only when each of them was
  answered. When one of them failed the read fails, with the failure of one of them.
\<close>

theorem trace_is_whole_or_failed:
  assumes "\<And>ns. set (came_back ns) = set ns"
  shows "(case server 1 of
      Inl e \<Rightarrow> read_trace server came_back = Inl e
    | Inr (_, t) \<Rightarrow>
        (if list_all (\<lambda>n. \<not> isl (server n)) [1..max 1 t]
         then read_trace server came_back = Inr (concat (map (\<lambda>n. fst (projr (server n))) [1..max 1 t]))
         else list_ex (\<lambda>n. isl (server n) \<and> read_trace server came_back = Inl (projl (server n))) [1..max 1 t]))"
proof (cases "server 1")
  case (Inr a)
  obtain first t where a: "a = (first, t)" by (cases a)
  have all: "list_all P [1..max 1 t] \<longleftrightarrow> P 1 \<and> (\<forall>n \<in> set (rest_pages t). P n)" for P
    unfolding pages_upto by (simp add: list_all_iff)
  have one: "\<not> isl (server 1)" by (simp add: Inr)
  have failed: "(case server n of Inl _ \<Rightarrow> True | Inr _ \<Rightarrow> False) = isl (server n)" for n by (cases "server n") simp_all
  show ?thesis
  proof (cases "List.find (\<lambda>n. isl (server n)) (came_back (rest_pages t))")
    case None
    then have ok: "\<forall>n \<in> set (rest_pages t). \<not> isl (server n)" using assms by (auto simp: find_None_iff)
    have "page_items (server n) = fst (projr (server n))" if "\<not> isl (server n)" for n
      using that by (cases "server n") (auto simp: page_items_def)
    then have m: "map (\<lambda>n. page_items (server n)) (rest_pages t) = map (\<lambda>n. fst (projr (server n))) (rest_pages t)"
      using ok by simp
    have "read_trace server came_back = Inr (first @ concat (map (\<lambda>n. page_items (server n)) (rest_pages t)))"
      by (simp add: read_trace_def Inr a all_pages_def failed None)
    then have "read_trace server came_back = Inr (concat (map (\<lambda>n. fst (projr (server n))) [1..max 1 t]))"
      unfolding pages_upto list.map concat.simps m by (simp add: Inr a)
    then show ?thesis using ok one by (simp add: Inr a all)
  next
    case (Some n)
    then have n: "n \<in> set (rest_pages t)" "isl (server n)" using find_Some_mem [OF Some] assms by auto
    then obtain e where e: "server n = Inl e" by (cases "server n") auto
    then have r: "read_trace server came_back = Inl e" by (simp add: read_trace_def Inr a all_pages_def failed Some)
    have mem: "n \<in> set [1..max 1 t]" unfolding pages_upto using n(1) by simp
    have "\<not> list_all (\<lambda>n. \<not> isl (server n)) [1..max 1 t]" unfolding list_all_iff using mem n(2) by blast
    moreover have "list_ex (\<lambda>n. isl (server n) \<and> read_trace server came_back = Inl (projl (server n))) [1..max 1 t]"
      unfolding list_ex_iff by (rule bexI [OF _ mem]) (simp add: e r)
    ultimately show ?thesis by (simp add: Inr a)
  qed
next
  case (Inl e)
  then show ?thesis by (simp add: read_trace_def)
qed

lemma trace_is_whole_or_failed_witness:
  "read_trace (\<lambda>n. if n \<le> 3 then Inr ([n, n * 10], 3) else Inl (Network JNull Timeout)) rev = Inr [1, 10, 2, 20, 3, 30]"
proof -
  let ?server = "\<lambda>n::int. if n \<le> 3 then Inr ([n, n * 10], 3) else Inl (Network JNull Timeout)"
  have rev: "set (rev ns) = set ns" for ns :: "int list" by simp
  have "[1..max 1 3] = [1, 2, 3::int]" by (simp add: upto.simps)
  then show ?thesis using trace_is_whole_or_failed [where came_back = rev and server = ?server, OF rev] by simp
qed

lemma whole_trace: "serves server pages \<Longrightarrow> (\<And>ns. set (came_back ns) = set ns) \<Longrightarrow> read_trace server came_back = Inr (concat pages)"
proof -
  assume s: "serves server pages" and c: "\<And>ns. set (came_back ns) = set ns"
  have one: "server 1 = Inr (hd pages, int (length pages))"
    using s serves_page [OF s, of 0] by (simp add: serves_def hd_conv_nth)
  have "\<not> (case server n of Inl _ \<Rightarrow> True | Inr _ \<Rightarrow> False)" if "n \<in> set (rest_pages (int (length pages)))" for n
  proof -
    have "nat (n - 1) < length pages" "int (nat (n - 1)) + 1 = n" using that by (auto simp: rest_pages_set)
    then show ?thesis using serves_page [OF s, of "nat (n - 1)"] by simp
  qed
  then have "List.find (\<lambda>n. case server n of Inl _ \<Rightarrow> True | Inr _ \<Rightarrow> False) (came_back (rest_pages (int (length pages)))) = None"
    using c by (auto simp: find_None_iff)
  then show ?thesis using s rest_pages_concat [OF s] one
    by (simp add: read_trace_def all_pages_def serves_def) (metis concat.simps(2) list.collapse)
qed

section \<open>An event among its issue's events\<close>

record event_navigation =
  en_current_index :: int
  en_total_count :: int
  en_first :: "string option"
  en_last :: "string option"
  en_prev :: "string option"
  en_next :: "string option"

definition MAX_NAV_PAGES :: nat where
  "MAX_NAV_PAGES = 50"

text \<open>A page of events, by their ids, whether there are more, and the cursor they are at.\<close>

type_synonym nav_answer = "rustrak_error + string list \<times> bool \<times> string option"

text \<open>
  The \<open>do ... while (cursor && pageCount < MAX_NAV_PAGES)\<close> with the pages it may still read: an empty
  cursor is a falsy one.
\<close>

fun nav_walk :: "(string option \<Rightarrow> nav_answer) \<Rightarrow> nat \<Rightarrow> string option \<Rightarrow> rustrak_error + string list" where
  "nav_walk server 0 cursor = Inr []"
| "nav_walk server (Suc n) cursor =
     (case server cursor of
        Inl e \<Rightarrow> Inl e
      | Inr (items, has_more, next_cursor) \<Rightarrow>
          (case (if has_more then next_cursor else None) of
             None \<Rightarrow> Inr items
           | Some c \<Rightarrow>
               if c = [] then Inr items
               else (case nav_walk server n (Some c) of Inl e \<Rightarrow> Inl e | Inr rest \<Rightarrow> Inr (items @ rest))))"

definition event_at :: "string list \<Rightarrow> int \<Rightarrow> string option" where
  "event_at events i = (if 0 \<le> i \<and> i < int (length events) then Some (events ! nat i) else None)"

definition navigation_of :: "string list \<Rightarrow> string \<Rightarrow> event_navigation" where
  "navigation_of events eventId =
     (let index = (case find_index (\<lambda>e. e = eventId) events of None \<Rightarrow> -1 | Some i \<Rightarrow> int i)
      in \<lparr>en_current_index = index + 1, en_total_count = int (length events),
          en_first = event_at events 0, en_last = event_at events (int (length events) - 1),
          en_prev = event_at events (index - 1), en_next = event_at events (index + 1)\<rparr>)"

definition read_navigation :: "(string option \<Rightarrow> nav_answer) \<Rightarrow> string \<Rightarrow> rustrak_error + event_navigation" where
  "read_navigation server eventId =
     (case nav_walk server MAX_NAV_PAGES None of
        Inl e \<Rightarrow> Inl e
      | Inr events \<Rightarrow> Inr (navigation_of events eventId))"

text \<open>A server whose pages follow each other by cursors.\<close>

fun chained :: "(string option \<Rightarrow> nav_answer) \<Rightarrow> string option \<Rightarrow> string list list \<Rightarrow> bool" where
  "chained server cursor [] \<longleftrightarrow> False"
| "chained server cursor [p] \<longleftrightarrow> server cursor = Inr (p, False, None)"
| "chained server cursor (p # q # ps) \<longleftrightarrow>
     (case server cursor of
        Inr (items, True, Some c) \<Rightarrow> items = p \<and> c \<noteq> [] \<and> chained server (Some c) (q # ps)
      | _ \<Rightarrow> False)"

lemma walk_chained: "chained server cursor ps \<Longrightarrow> nav_walk server n cursor = Inr (concat (take n ps))"
proof (induction server cursor ps arbitrary: n rule: chained.induct)
  case (2 server cursor p)
  then show ?case by (cases n) simp_all
next
  case (3 server cursor p q ps)
  then obtain c where c: "server cursor = Inr (p, True, Some c)" "c \<noteq> []" "chained server (Some c) (q # ps)"
    by (auto split: sum.splits prod.splits bool.splits option.splits)
  show ?case
  proof (cases n)
    case (Suc k)
    have "nav_walk server k (Some c) = Inr (concat (take k (q # ps)))"
      using 3(1) c by simp
    then show ?thesis using c Suc by simp
  qed simp
qed simp

lemma index_in_distinct: "distinct xs \<Longrightarrow> i < length xs \<Longrightarrow> find_index (\<lambda>e. e = xs ! i) xs = Some i"
proof (induction xs arbitrary: i)
  case (Cons x xs)
  then show ?case by (cases i) auto
qed simp

text \<open>
  the arrows of an event lead where they say: with the issue's events on at most fifty pages, the
  event at a place is told that place, the count of them all, the first, the last, and the ones beside
  it, with none before the first and none after the last.
\<close>

theorem navigation_places_event:
  assumes "chained server None ps" and "length ps \<le> MAX_NAV_PAGES"
    and "distinct (concat ps)" and "i < length (concat ps)"
  shows "read_navigation server (concat ps ! i) = Inr
    \<lparr>en_current_index = int i + 1, en_total_count = int (length (concat ps)),
     en_first = Some (hd (concat ps)), en_last = Some (last (concat ps)),
     en_prev = (if i = 0 then None else Some (concat ps ! (i - 1))),
     en_next = (if i + 1 < length (concat ps) then Some (concat ps ! (i + 1)) else None)\<rparr>"
proof -
  define es where "es = concat ps"
  have w: "nav_walk server MAX_NAV_PAGES None = Inr es"
    using walk_chained [OF assms(1), of MAX_NAV_PAGES] assms(2) by (simp add: es_def)
  have d: "distinct es" "i < length es" using assms(3,4) by (simp_all add: es_def)
  then have "es \<noteq> []" by auto
  have "nat (int i - 1) = i - 1" by simp
  moreover have "nat (int i + 1) = i + 1" by simp
  moreover have "nat (int (length es) - 1) = length es - 1" by simp
  ultimately show ?thesis
    unfolding es_def [symmetric] read_navigation_def w
    using d \<open>es \<noteq> []\<close> by (auto simp: navigation_of_def index_in_distinct event_at_def hd_conv_nth last_conv_nth Let_def)
qed

lemma navigation_places_event_witness:
  "read_navigation (\<lambda>c. if c = None then Inr ([''a'', ''b''], True, Some ''x'') else Inr ([''c''], False, None)) ''b''
   = Inr \<lparr>en_current_index = 2, en_total_count = 3, en_first = Some ''a'', en_last = Some ''c'',
      en_prev = Some ''a'', en_next = Some ''c''\<rparr>"
  using navigation_places_event
    [of "\<lambda>c. if c = None then Inr ([''a'', ''b''], True, Some ''x'') else Inr ([''c''], False, None)"
      "[[''a'', ''b''], [''c'']]" 1]
  by (simp add: MAX_NAV_PAGES_def)

text \<open>Past the fifty pages an event is at "0 of N", and the one after it is the first of all.\<close>

lemma event_past_the_window:
  assumes "chained server None ps" and "e \<notin> set (concat (take MAX_NAV_PAGES ps))"
  shows "read_navigation server e = Inr (navigation_of (concat (take MAX_NAV_PAGES ps)) e)"
    and "en_current_index (navigation_of (concat (take MAX_NAV_PAGES ps)) e) = 0"
    and "en_next (navigation_of (concat (take MAX_NAV_PAGES ps)) e) = event_at (concat (take MAX_NAV_PAGES ps)) 0"
proof -
  have "find_index (\<lambda>x. x = e) (concat (take MAX_NAV_PAGES ps)) = None"
    using assms(2) by (metis (mono_tags, lifting) find_index_None)
  then show "en_current_index (navigation_of (concat (take MAX_NAV_PAGES ps)) e) = 0"
    "en_next (navigation_of (concat (take MAX_NAV_PAGES ps)) e) = event_at (concat (take MAX_NAV_PAGES ps)) 0"
    by (simp_all add: navigation_of_def Let_def)
  show "read_navigation server e = Inr (navigation_of (concat (take MAX_NAV_PAGES ps)) e)"
    by (simp add: read_navigation_def walk_chained [OF assms(1)])
qed

text \<open>The issue's latest event: the first of the first page, newest first.\<close>

definition read_latest :: "nav_answer \<Rightarrow> rustrak_error + string option" where
  "read_latest a = (case a of Inl e \<Rightarrow> Inl e | Inr (items, _) \<Rightarrow> Inr (at_index items 0))"

section \<open>Every health row of a release\<close>

definition MAX_RELEASE_PAGES :: int where
  "MAX_RELEASE_PAGES = 20"

function health_loop :: "(int \<Rightarrow> 'a page_answer) \<Rightarrow> int \<Rightarrow> int list \<times> (rustrak_error + 'a list)" where
  "health_loop server page =
     (case server page of
        Inl e \<Rightarrow> ([page], Inl e)
      | Inr (items, total_pages) \<Rightarrow>
          (let totalPages = min total_pages MAX_RELEASE_PAGES
           in if page + 1 \<le> totalPages
              then (case health_loop server (page + 1) of
                      (asked, Inl e) \<Rightarrow> (page # asked, Inl e)
                    | (asked, Inr rest) \<Rightarrow> (page # asked, Inr (items @ rest)))
              else ([page], Inr items)))"
  by pat_completeness auto
termination
  by (relation "measure (\<lambda>(server, page). nat (MAX_RELEASE_PAGES - page))") auto

declare health_loop.simps [simp del]

definition read_health_rows :: "(int \<Rightarrow> 'a page_answer) \<Rightarrow> int list \<times> (rustrak_error + 'a list)" where
  "read_health_rows server = health_loop server 1"

lemma health_asked:
  "\<exists>k. fst (health_loop server page) = map (\<lambda>i. page + int i) [0..<k] \<and> 1 \<le> k \<and> int k \<le> max 1 (MAX_RELEASE_PAGES + 1 - page)"
proof (induction server page rule: health_loop.induct)
  case (1 server page)
  show ?case
  proof (cases "\<exists>items t. server page = Inr (items, t) \<and> page + 1 \<le> min t MAX_RELEASE_PAGES")
    case True
    then obtain items t where t: "server page = Inr (items, t)" "page + 1 \<le> min t MAX_RELEASE_PAGES" by blast
    then obtain k where k: "fst (health_loop server (page + 1)) = map (\<lambda>i. page + 1 + int i) [0..<k]" "1 \<le> k"
        "int k \<le> max 1 (MAX_RELEASE_PAGES + 1 - (page + 1))"
      using 1 [OF t(1) refl refl] by (auto simp: Let_def)
    have "fst (health_loop server page) = page # fst (health_loop server (page + 1))"
      using t by (subst health_loop.simps) (auto split: prod.splits sum.splits)
    also have "\<dots> = map (\<lambda>i. page + int i) [0..<Suc k]"
      unfolding k(1) by (subst upt_conv_Cons) (auto simp: map_Suc_upt [symmetric] simp del: upt_Suc)
    finally show ?thesis using k(2,3) t(2) by (intro exI [of _ "Suc k"]) auto
  next
    case False
    then have "fst (health_loop server page) = [page]"
      by (subst health_loop.simps) (auto simp: Let_def split: sum.splits prod.splits)
    then show ?thesis by (intro exI [of _ 1]) auto
  qed
qed

lemma health_whole:
  assumes "serves server pages" and "1 \<le> page" and "page \<le> min (int (length pages)) MAX_RELEASE_PAGES"
  shows "snd (health_loop server page) = Inr (concat (drop (nat (page - 1)) (take (nat MAX_RELEASE_PAGES) pages)))"
  using assms(2,3)
proof (induction "nat (MAX_RELEASE_PAGES - page)" arbitrary: page)
  case 0
  then have p: "page = MAX_RELEASE_PAGES" by (simp add: MAX_RELEASE_PAGES_def)
  have k: "nat (page - 1) < length pages" "int (nat (page - 1)) + 1 = page"
    using 0 by (auto simp: MAX_RELEASE_PAGES_def)
  have "drop (nat (page - 1)) (take (nat MAX_RELEASE_PAGES) pages) = [pages ! nat (page - 1)]"
    using k(1) p by (simp add: MAX_RELEASE_PAGES_def drop_take take_Suc_conv_app_nth [of 0] hd_drop_conv_nth
        take_Suc_conv_app_nth numeral_eq_Suc)
  then show ?case using serves_page [OF assms(1) k(1)] k(2) p
    by (subst health_loop.simps) (simp add: Let_def)
next
  case (Suc x)
  have k: "nat (page - 1) < length pages" "int (nat (page - 1)) + 1 = page"
    using Suc.prems by (auto simp: MAX_RELEASE_PAGES_def)
  have srv: "server page = Inr (pages ! nat (page - 1), int (length pages))"
    using serves_page [OF assms(1) k(1)] k(2) by simp
  define T where "T = take (nat MAX_RELEASE_PAGES) pages"
  have lt: "nat (page - 1) < length T" using Suc.prems by (auto simp: T_def MAX_RELEASE_PAGES_def)
  have split: "drop (nat (page - 1)) T = pages ! nat (page - 1) # drop (nat page) T"
    using Cons_nth_drop_Suc [OF lt] Suc.prems by (simp add: T_def Suc_nat_eq_nat_zadd1)
  show ?case
  proof (cases "page + 1 \<le> min (int (length pages)) MAX_RELEASE_PAGES")
    case True
    have "x = nat (MAX_RELEASE_PAGES - (page + 1))" using Suc(2) by simp
    then have "snd (health_loop server (page + 1)) = Inr (concat (drop (nat page) T))"
      using Suc.hyps(1) [of "page + 1"] Suc.prems True by (simp add: T_def)
    then show ?thesis unfolding T_def [symmetric] split using srv True
      by (subst health_loop.simps) (auto simp: Let_def split: prod.splits)
  next
    case False
    then have "length T \<le> nat page" using Suc.prems by (auto simp: T_def MAX_RELEASE_PAGES_def)
    then show ?thesis unfolding T_def [symmetric] split using srv False
      by (subst health_loop.simps) (auto simp: Let_def)
  qed
qed

text \<open>
  a release's rows are read whole, and the reading ends: whatever count of pages the server names,
  at most twenty are asked for, one after the other from the first; and a server of at most twenty
  pages gives every row of them.
\<close>

theorem release_rows_are_read_whole:
  "(\<exists>k. fst (read_health_rows server) = map (\<lambda>i. 1 + int i) [0..<k] \<and> 1 \<le> k \<and> k \<le> 20)
   \<and> (if serves server pages \<and> length pages \<le> 20 then snd (read_health_rows server) = Inr (concat pages) else True)"
proof -
  obtain k where k: "fst (health_loop server 1) = map (\<lambda>i. 1 + int i) [0..<k]" "1 \<le> k" "int k \<le> max 1 MAX_RELEASE_PAGES"
    using health_asked [of server 1] by auto
  have "1 \<le> min (int (length pages)) MAX_RELEASE_PAGES" if "serves server pages"
    using that by (cases pages) (auto simp: serves_def MAX_RELEASE_PAGES_def)
  then have "snd (read_health_rows server) = Inr (concat pages)" if "serves server pages \<and> length pages \<le> 20"
    using health_whole [of server pages 1] that by (simp add: read_health_rows_def MAX_RELEASE_PAGES_def)
  then show ?thesis using k by (auto simp: read_health_rows_def MAX_RELEASE_PAGES_def)
qed

section \<open>Feedback, a page at a time\<close>

definition next_report_page :: "int \<Rightarrow> int \<Rightarrow> int option" where
  "next_report_page page total_pages = (if page < total_pages then Some (page + 1) else None)"

text \<open>The pages shown after each request for an older one, from the first on.\<close>

fun report_pages :: "int \<Rightarrow> nat \<Rightarrow> int list" where
  "report_pages total_pages 0 = [1]"
| "report_pages total_pages (Suc n) =
     (let shown = report_pages total_pages n
      in case next_report_page (last shown) total_pages of None \<Rightarrow> shown | Some p \<Rightarrow> shown @ [p])"

lemma report_pages_run: "report_pages total_pages n = map (\<lambda>i. 1 + int i) [0..<Suc (min n (nat (total_pages - 1)))]"
proof (induction n)
  case (Suc n)
  show ?case
  proof (cases "int n + 1 < total_pages")
    case True
    then have "min n (nat (total_pages - 1)) = n" "min (Suc n) (nat (total_pages - 1)) = Suc n" by auto
    then show ?thesis using True Suc by (simp add: next_report_page_def Let_def)
  next
    case False
    then have "min (Suc n) (nat (total_pages - 1)) = min n (nat (total_pages - 1))"
      "total_pages \<le> 1 + int (min n (nat (total_pages - 1)))" by auto
    then show ?thesis using Suc by (simp add: next_report_page_def Let_def)
  qed
qed simp

section \<open>Answers that are not failures, and writes that are many\<close>

text \<open>An endpoint never sampled has no metrics; any other failure stays one.\<close>

definition read_group :: "('t, rustrak_error) result \<Rightarrow> rustrak_error + 't option" where
  "read_group r =
     (case r of Ok d \<Rightarrow> Inr (Some d)
      | Err e \<Rightarrow> if err_kind e = K_not_found then Inr None else Inl e)"

definition release_versions :: "rustrak_error + ('t \<times> string) list \<Rightarrow> rustrak_error + string list" where
  "release_versions a = (case a of Inl e \<Rightarrow> Inl e | Inr items \<Rightarrow> Inr (map snd items))"

text \<open>Every issue is asked for, whatever became of those before; the first failure, in their order, is thrown.\<close>

fun first_failure :: "(unit, rustrak_error) result list \<Rightarrow> rustrak_error option" where
  "first_failure [] = None"
| "first_failure (Err e # rs) = Some e"
| "first_failure (Ok _ # rs) = first_failure rs"

definition assign_issues ::
  "(string \<Rightarrow> (unit, rustrak_error) result) \<Rightarrow> string list \<Rightarrow> string list \<times> rustrak_error option" where
  "assign_issues server ids = (ids, first_failure (map server ids))"

lemma first_failure_None: "first_failure rs = None \<longleftrightarrow> (\<forall>r \<in> set rs. \<exists>u. r = Ok u)"
  by (induction rs rule: first_failure.induct) auto

lemma assigned_when_silent:
  "snd (assign_issues server ids) = None \<longleftrightarrow> list_all (\<lambda>i. server i = Ok ()) (fst (assign_issues server ids))"
  by (auto simp: assign_issues_def first_failure_None list_all_iff)

text \<open>A read a reader would be refused is not made, and a failure to learn what they may do makes none.\<close>

definition start_if_allowed :: "(rustrak_error + 'me) \<Rightarrow> ('me \<Rightarrow> 'permissions) \<Rightarrow> ('permissions \<Rightarrow> bool) \<Rightarrow> bool" where
  "start_if_allowed me permissionsFrom allowed =
     (case me of Inl _ \<Rightarrow> False | Inr m \<Rightarrow> allowed (permissionsFrom m))"

end
