(* ===== verification/AppFrame.thy ===== *)
theory AppFrame
  imports Palette ProjectProducts Permissions Observable
begin

text \<open>
  The frame of every authenticated screen: the sidebar and its three modes, the breadcrumbs
  (\<open>app-frame.tsx\<close>, \<open>breadcrumbs.tsx\<close>, \<open>use-page-trail.ts\<close>), and the shell that holds the rail, the
  drawer and the cookie they are remembered in (\<open>sidebar-context.tsx\<close>, \<open>use-mobile.ts\<close>,
  \<open>_authenticated.tsx\<close>). The translator is a parameter.
\<close>

section \<open>Projects, routes, settings\<close>

record frame_project =
  fj_id :: int
  fj_name :: string
  fj_slug :: string
  fj_platform :: "string option"
  fj_disabled :: "string list"
  fj_order :: "string list"

definition SIDEBAR_PROJECTS :: nat where "SIDEBAR_PROJECTS = 5"

definition DOCS_URL :: string where "DOCS_URL = ''https://rustrak.dev''"

definition PRODUCT_OF :: "string \<Rightarrow> string option" where
  "PRODUCT_OF =
     map_of [(''issues'', ''issues''), (''feedback'', ''feedback''), (''releases'', ''releases''),
             (''performance'', ''performance''), (''logs'', ''logs''), (''crons'', ''crons''), (''agents'', ''agents'')]"

record settings_entry =
  se_key :: string
  se_href :: string
  se_visible :: "(my_access \<Rightarrow> bool) option"
  se_reads :: "string option"

definition ACCOUNT_SETTINGS :: "settings_entry list" where
  "ACCOUNT_SETTINGS =
     [\<lparr>se_key = ''profile'', se_href = ''/settings/profile'', se_visible = None, se_reads = None\<rparr>,
      \<lparr>se_key = ''preferences'', se_href = ''/settings/preferences'', se_visible = None, se_reads = None\<rparr>]"

definition WORKSPACE_SETTINGS :: "settings_entry list" where
  "WORKSPACE_SETTINGS =
     [\<lparr>se_key = ''team'', se_href = ''/settings/team'',
       se_visible = Some (\<lambda>p. can p ''users'' Read None \<or> can p ''invitations'' Read None), se_reads = None\<rparr>,
      \<lparr>se_key = ''roles'', se_href = ''/settings/roles'', se_visible = Some (\<lambda>p. can p ''roles'' Read None), se_reads = None\<rparr>,
      \<lparr>se_key = ''integrations'', se_href = ''/settings/integrations'',
       se_visible = Some (\<lambda>p. can p ''integrations'' Read None), se_reads = None\<rparr>,
      \<lparr>se_key = ''apiTokens'', se_href = ''/settings/tokens'', se_visible = None, se_reads = None\<rparr>,
      \<lparr>se_key = ''mcp'', se_href = ''/settings/mcp'', se_visible = None, se_reads = None\<rparr>,
      \<lparr>se_key = ''storage'', se_href = ''/settings/storage'', se_visible = Some (\<lambda>p. can p ''storage'' Read None), se_reads = None\<rparr>,
      \<lparr>se_key = ''instance'', se_href = ''/settings/instance'', se_visible = None, se_reads = None\<rparr>]"

definition PROJECT_SETTINGS :: "settings_entry list" where
  "PROJECT_SETTINGS =
     [\<lparr>se_key = ''general'', se_href = ''/general'', se_visible = None, se_reads = Some ''project''\<rparr>,
      \<lparr>se_key = ''data'', se_href = ''/data'', se_visible = None, se_reads = Some ''project''\<rparr>,
      \<lparr>se_key = ''clientKeys'', se_href = ''/client-keys'', se_visible = None, se_reads = Some ''client-keys''\<rparr>,
      \<lparr>se_key = ''github'', se_href = ''/github'', se_visible = None, se_reads = Some ''project-github''\<rparr>,
      \<lparr>se_key = ''members'', se_href = ''/members'', se_visible = None, se_reads = Some ''project-members''\<rparr>]"

record nav_route =
  nr_key :: string
  nr_path :: string

definition NAV_READS :: "string \<Rightarrow> string" where
  "NAV_READS key =
     (if key = ''overview'' then ''project''
      else if key = ''feedback'' then ''issues''
      else if key = ''crons'' then ''monitors''
      else if key = ''alerts'' then ''alert-rules''
      else if key = ''agents'' then ''performance''
      else key)"

definition OVERVIEW :: nav_route where
  "OVERVIEW = \<lparr>nr_key = ''overview'', nr_path = []\<rparr>"

definition GROUPS :: "(string \<times> nav_route list) list" where
  "GROUPS =
     [(''groupTriage'',
       [\<lparr>nr_key = ''issues'', nr_path = ''/issues''\<rparr>, \<lparr>nr_key = ''feedback'', nr_path = ''/feedback''\<rparr>,
        \<lparr>nr_key = ''releases'', nr_path = ''/releases''\<rparr>]),
      (''groupMonitor'',
       [\<lparr>nr_key = ''performance'', nr_path = ''/performance''\<rparr>, \<lparr>nr_key = ''logs'', nr_path = ''/logs''\<rparr>,
        \<lparr>nr_key = ''crons'', nr_path = ''/crons''\<rparr>, \<lparr>nr_key = ''alerts'', nr_path = ''/alerts''\<rparr>,
        \<lparr>nr_key = ''agents'', nr_path = ''/agents''\<rparr>])]"

definition NAV_ROUTES :: "nav_route list" where
  "NAV_ROUTES = OVERVIEW # concat (map snd GROUPS)"

definition on_route :: "string \<Rightarrow> string \<Rightarrow> nav_route \<Rightarrow> bool" where
  "on_route pathname base route \<longleftrightarrow>
     (if nr_path route = [] then pathname = base \<or> pathname = base @ ''/''
      else starts_with (base @ nr_path route) pathname)"

definition activeRoute :: "string \<Rightarrow> string \<Rightarrow> nav_route option" where
  "activeRoute pathname base = List.find (on_route pathname base) NAV_ROUTES"

text \<open>The project the address is in, as far as it could be read.\<close>

definition useCurrentProject :: "(string \<Rightarrow> string) \<Rightarrow> int option \<Rightarrow> (int \<Rightarrow> frame_project option) \<Rightarrow> frame_project option" where
  "useCurrentProject t pid read =
     (case pid of
        None \<Rightarrow> None
      | Some i \<Rightarrow>
          (case read i of
             Some p \<Rightarrow> Some p
           | None \<Rightarrow> Some \<lparr>fj_id = i, fj_name = t ''switcher.fallback'', fj_slug = [], fj_platform = None,
                           fj_disabled = [], fj_order = []\<rparr>))"

definition project_base :: "frame_project option \<Rightarrow> string" where
  "project_base project = (case project of Some p \<Rightarrow> ''/projects/'' @ int_str (fj_id p) | None \<Rightarrow> [])"

definition sidebarScope :: "string \<Rightarrow> frame_project option \<Rightarrow> bool \<times> string \<times> nat" where
  "sidebarScope pathname project =
     (if isSettingsPath pathname then (True, ''settings'', 2)
      else case project of
        Some p \<Rightarrow> (False, ''project:'' @ int_str (fj_id p), 1)
      | None \<Rightarrow> (False, ''workspace'', 0))"

section \<open>The sidebar\<close>

record side_item =
  si_label :: string
  si_href :: string
  si_active :: bool

datatype side =
    Side_item side_item
  | Side_group string "side list"
  | Side_submenu int string bool "side_item list"

definition side_link :: "string \<Rightarrow> string \<Rightarrow> bool \<Rightarrow> side" where
  "side_link l href active = Side_item \<lparr>si_label = l, si_href = href, si_active = active\<rparr>"

definition SettingsLink :: "(string \<Rightarrow> string) \<Rightarrow> settings_entry \<Rightarrow> string \<Rightarrow> side_item" where
  "SettingsLink t entry pathname =
     \<lparr>si_label = t (''nav.'' @ se_key entry), si_href = se_href entry,
      si_active = (pathname = se_href entry \<or> starts_with (se_href entry @ ''/'') pathname)\<rparr>"

text \<open>The list is capped; the project one is in is listed anyway.\<close>

definition settings_listed :: "frame_project option \<Rightarrow> frame_project list \<Rightarrow> frame_project list" where
  "settings_listed project projects =
     (case project of
        Some p \<Rightarrow> if fj_id p \<notin> set (map fj_id projects) then p # projects else projects
      | None \<Rightarrow> projects)"

definition entry_visible :: "my_access \<Rightarrow> settings_entry \<Rightarrow> bool" where
  "entry_visible me e = (case se_visible e of None \<Rightarrow> True | Some v \<Rightarrow> v me)"

definition entry_read :: "my_access \<Rightarrow> int \<Rightarrow> settings_entry \<Rightarrow> bool" where
  "entry_read me p e = (case se_reads e of None \<Rightarrow> True | Some r \<Rightarrow> can me r Read (Some p))"

definition SettingsNav ::
  "(string \<Rightarrow> string) \<Rightarrow> string \<Rightarrow> my_access \<Rightarrow> frame_project option \<Rightarrow> frame_project list \<Rightarrow> side list" where
  "SettingsNav t pathname me project projects =
     [side_link (case project of Some p \<Rightarrow> fj_name p | None \<Rightarrow> t ''switcher.all'')
        (case project of Some p \<Rightarrow> project_base project | None \<Rightarrow> ''/projects'') False,
      Side_group (t ''nav.groupAccount'') (map (\<lambda>e. Side_item (SettingsLink t e pathname)) ACCOUNT_SETTINGS),
      Side_group (t ''nav.groupWorkspace'')
        (map (\<lambda>e. Side_item (SettingsLink t e pathname)) (filter (entry_visible me) WORKSPACE_SETTINGS))]
     @ (let listed = settings_listed project projects
        in if listed = [] then []
           else [Side_group (t ''switcher.projects'')
             (map (\<lambda>o'. Side_submenu (fj_id o') (fj_name o')
                (case project of Some p \<Rightarrow> fj_id o' = fj_id p | None \<Rightarrow> False)
                (map (\<lambda>e. SettingsLink t (e\<lparr>se_href := ''/projects/'' @ int_str (fj_id o') @ ''/settings'' @ se_href e\<rparr>) pathname)
                   (filter (entry_read me (fj_id o')) PROJECT_SETTINGS)))
              listed)])"

definition route_shown :: "my_access \<Rightarrow> frame_project \<Rightarrow> nav_route \<Rightarrow> bool" where
  "route_shown me project route \<longleftrightarrow>
     can me (NAV_READS (nr_key route)) Read (Some (fj_id project))
     \<and> (case PRODUCT_OF (nr_key route) of None \<Rightarrow> True | Some product \<Rightarrow> keepsProduct (fj_disabled project) product)"

definition route_rank :: "frame_project \<Rightarrow> nav_route \<Rightarrow> int" where
  "route_rank project route =
     (let productRank = orderedProducts (fj_order project)
      in case PRODUCT_OF (nr_key route) of
        None \<Rightarrow> int (length productRank)
      | Some product \<Rightarrow> (case find_index (\<lambda>k. k = product) productRank of Some i \<Rightarrow> int i | None \<Rightarrow> - 1))"

definition group_routes :: "my_access \<Rightarrow> frame_project \<Rightarrow> nav_route list \<Rightarrow> nav_route list" where
  "group_routes me project routes =
     sort_by (\<lambda>a b. route_rank project a \<le> route_rank project b) (filter (route_shown me project) routes)"

definition ProjectNav :: "(string \<Rightarrow> string) \<Rightarrow> string \<Rightarrow> my_access \<Rightarrow> frame_project \<Rightarrow> side list" where
  "ProjectNav t pathname me project =
     (let base = project_base (Some project); active = activeRoute pathname base
      in side_link (t ''nav.overview'') base (active = Some OVERVIEW)
         # map (\<lambda>(label, routes).
              Side_group (t (''nav.'' @ label))
                (map (\<lambda>route. side_link (t (''nav.'' @ nr_key route)) (base @ nr_path route) (active = Some route))
                   (group_routes me project routes)))
            (filter (\<lambda>(_, routes). list_ex (route_shown me project) routes) GROUPS))"

definition WorkspaceNav :: "(string \<Rightarrow> string) \<Rightarrow> string \<Rightarrow> my_access \<Rightarrow> frame_project list \<Rightarrow> side list" where
  "WorkspaceNav t pathname me projects =
     [side_link (t ''switcher.all'') ''/projects'' (pathname = ''/projects'')]
     @ (if can me ''users'' Read None \<or> can me ''invitations'' Read None
        then [side_link (t ''nav.team'') ''/settings/team'' (starts_with ''/settings/team'' pathname)] else [])
     @ (if projects = [] then []
        else [Side_group (t ''switcher.projects'')
               (map (\<lambda>o'. side_link (fj_name o') (''/projects/'' @ int_str (fj_id o')) False)
                 (take SIDEBAR_PROJECTS projects))])"

definition FooterLinks :: "(string \<Rightarrow> string) \<Rightarrow> frame_project option \<Rightarrow> side list" where
  "FooterLinks t project =
     [side_link (t ''nav.settings'')
        (case project of Some p \<Rightarrow> project_base project @ ''/settings/general'' | None \<Rightarrow> ''/settings/profile'') False,
      side_link (t ''nav.docs'') DOCS_URL False]"

record switch_action =
  wa_id :: string
  wa_label :: string
  wa_selected :: bool
  wa_separated :: bool
  wa_href :: string

definition switcher :: "(string \<Rightarrow> string) \<Rightarrow> my_access \<Rightarrow> frame_project option \<Rightarrow> frame_project list \<Rightarrow> switch_action list" where
  "switcher t me project projects =
     \<lparr>wa_id = ''all'', wa_label = t ''switcher.all'', wa_selected = False, wa_separated = False, wa_href = ''/projects''\<rparr>
     # map (\<lambda>(index, o'). \<lparr>wa_id = int_str (fj_id o'), wa_label = fj_name o',
           wa_selected = (case project of Some p \<Rightarrow> fj_id o' = fj_id p | None \<Rightarrow> False),
           wa_separated = (index = 0), wa_href = ''/projects/'' @ int_str (fj_id o')\<rparr>)
         (enumerate 0 projects)
     @ (if canCreateProject me
        then [\<lparr>wa_id = ''new'', wa_label = t ''switcher.new'', wa_selected = False, wa_separated = True, wa_href = ''/projects/new''\<rparr>]
        else [])"

text \<open>What is drawn, from top to bottom.\<close>

definition AppSidebar ::
  "(string \<Rightarrow> string) \<Rightarrow> string \<Rightarrow> my_access \<Rightarrow> frame_project option \<Rightarrow> frame_project list
     \<Rightarrow> switch_action list option \<times> side list \<times> side list" where
  "AppSidebar t pathname me project projects =
     (let (settingsMode, _, _) = sidebarScope pathname project
      in (if project \<noteq> None \<and> \<not> settingsMode then Some (switcher t me project projects) else None,
          if settingsMode then SettingsNav t pathname me project projects
          else (case project of Some p \<Rightarrow> ProjectNav t pathname me p | None \<Rightarrow> WorkspaceNav t pathname me projects),
          if settingsMode then [] else FooterLinks t project))"

section \<open>The breadcrumbs\<close>

record crumb =
  cb_label :: string
  cb_href :: "string option"
  cb_mono :: bool

definition crumb_link :: "string \<Rightarrow> string \<Rightarrow> crumb" where
  "crumb_link l href = \<lparr>cb_label = l, cb_href = Some href, cb_mono = False\<rparr>"

definition crumb_text :: "string \<Rightarrow> crumb" where
  "crumb_text l = \<lparr>cb_label = l, cb_href = None, cb_mono = False\<rparr>"

text \<open>An empty href is no link.\<close>

definition trailCrumbs :: "crumb list \<Rightarrow> crumb list" where
  "trailCrumbs trail = map (\<lambda>c. c\<lparr>cb_href := (if cb_href c = Some [] then None else cb_href c)\<rparr>) trail"

definition sectionCrumbs :: "string \<Rightarrow> string \<Rightarrow> nav_route option \<Rightarrow> string \<Rightarrow> crumb list \<Rightarrow> crumb list" where
  "sectionCrumbs pathname base route label trail =
     (case route of
        Some r \<Rightarrow>
          if nr_path r \<noteq> [] \<and> length (base @ nr_path r) + 1 < length pathname
          then crumb_link label (base @ nr_path r) # trailCrumbs trail
          else [crumb_text label]
      | None \<Rightarrow> [crumb_text label])"

definition settings_page :: "string \<Rightarrow> string \<Rightarrow> settings_entry option" where
  "settings_page pathname base =
     List.find (\<lambda>e. starts_with (se_href e) pathname)
       (ACCOUNT_SETTINGS @ WORKSPACE_SETTINGS @ map (\<lambda>e. e\<lparr>se_href := base @ ''/settings'' @ se_href e\<rparr>) PROJECT_SETTINGS)"

definition AppBreadcrumbs :: "(string \<Rightarrow> string) \<Rightarrow> string \<Rightarrow> frame_project option \<Rightarrow> crumb list \<Rightarrow> crumb list" where
  "AppBreadcrumbs t pathname project trail =
     (let base = project_base project;
          settingsPage = settings_page pathname base;
          projectCrumb = (case project of Some p \<Rightarrow> [crumb_link (fj_name p) base] | None \<Rightarrow> [])
      in if settingsPage \<noteq> None \<and> isSettingsPath pathname
         then projectCrumb
                @ [crumb_link (t ''nav.settingsTitle'') (base @ ''/settings''),
                   crumb_link (t (''nav.'' @ se_key (the settingsPage))) (se_href (the settingsPage))]
                @ trailCrumbs trail
         else if project \<noteq> None
         then projectCrumb
                @ sectionCrumbs pathname base (activeRoute pathname base)
                    (case activeRoute pathname base of Some r \<Rightarrow> t (''nav.'' @ nr_key r) | None \<Rightarrow> t ''nav.projectSettingsTitle'')
                    trail
         else if starts_with ''/settings'' pathname
         then crumb_text (t ''nav.settingsTitle'')
                # (case settingsPage of Some e \<Rightarrow> [crumb_text (t (''nav.'' @ se_key e))] | None \<Rightarrow> [])
         else if starts_with ''/projects/new'' pathname
         then [crumb_link (t ''switcher.projects'') ''/projects'', crumb_text (t ''switcher.new'')]
         else [crumb_text (t ''switcher.projects'')])"

text \<open>What is drawn of a trail: the last crumb is where one is, whatever it links to.\<close>

definition Breadcrumbs :: "crumb list \<Rightarrow> crumb list" where
  "Breadcrumbs items =
     map (\<lambda>(index, item). if index + 1 = length items then item\<lparr>cb_href := None\<rparr> else item) (enumerate 0 items)"

section \<open>What the sidebar lists\<close>

fun side_items :: "side \<Rightarrow> side_item list" where
  "side_items (Side_item i) = [i]"
| "side_items (Side_group _ ss) = concat (map side_items ss)"
| "side_items (Side_submenu _ _ _ is') = is'"

definition listed_routes :: "my_access \<Rightarrow> frame_project \<Rightarrow> nav_route list" where
  "listed_routes me project =
     concat (map (\<lambda>(_, routes). group_routes me project routes)
       (filter (\<lambda>(_, routes). list_ex (route_shown me project) routes) GROUPS))"

lemma group_routes_none: "\<not> list_ex (route_shown me p) routes \<Longrightarrow> group_routes me p routes = []"
  by (simp add: group_routes_def sort_by_def list_ex_iff filter_empty_conv)

lemma listed_routes_mset:
  "mset (listed_routes me p) = mset (filter (route_shown me p) (concat (map snd GROUPS)))"
proof -
  have "mset (concat (map (\<lambda>(_, routes). group_routes me p routes)
          (filter (\<lambda>(_, routes). list_ex (route_shown me p) routes) gs)))
      = mset (filter (route_shown me p) (concat (map snd gs)))" for gs :: "(string \<times> nav_route list) list"
  proof (induction gs)
    case (Cons g gs)
    then show ?case
      by (cases "list_ex (route_shown me p) (snd g)")
        (auto simp: group_routes_def list_ex_iff filter_empty_conv split: prod.splits)
  qed simp
  then show ?thesis by (simp add: listed_routes_def)
qed

lemma nav_routes_distinct: "distinct NAV_ROUTES"
  by code_simp

lemma project_nav_items:
  "concat (map side_items (ProjectNav t pathname me p)) =
     map (\<lambda>route. \<lparr>si_label = t (''nav.'' @ nr_key route), si_href = project_base (Some p) @ nr_path route,
            si_active = (activeRoute pathname (project_base (Some p)) = Some route)\<rparr>)
       (OVERVIEW # listed_routes me p)"
proof -
  have "concat (map side_items (map (\<lambda>(label, routes).
              Side_group (t (''nav.'' @ label))
                (map (\<lambda>route. side_link (t (''nav.'' @ nr_key route)) (base @ nr_path route) (active = Some route))
                   (group_routes me p routes))) gs))
    = map (\<lambda>route. \<lparr>si_label = t (''nav.'' @ nr_key route), si_href = base @ nr_path route, si_active = (active = Some route)\<rparr>)
        (concat (map (\<lambda>(_, routes). group_routes me p routes) gs))"
    for gs :: "(string \<times> nav_route list) list" and base active
    by (induction gs) (auto simp: side_link_def map_concat comp_def concat_map_singleton)
  then show ?thesis
    by (simp add: ProjectNav_def Let_def listed_routes_def side_link_def OVERVIEW_def)
qed

lemma one_of_distinct: "distinct xs \<Longrightarrow> length (filter (\<lambda>x. y = Some x) xs) \<le> 1"
  by (induction xs) (auto simp: filter_empty_conv)

lemma group_routes_sorted: "sorted (map (route_rank p) (group_routes me p routes))"
proof -
  have "sorted_wrt (\<lambda>a b. route_rank p a \<le> route_rank p b) (group_routes me p routes)"
    unfolding group_routes_def by (rule sorted_sort_by) auto
  then show ?thesis by (simp add: sorted_wrt_map)
qed

text \<open>
  the routes of a project in the sidebar are exactly those the reader may read and whose product the
  project keeps, each once, after the overview; within its group each stands where the project's own
  order of products puts it, and at most one of them is marked as the one on screen.
\<close>

theorem project_nav_is_what_may_be_opened:
  "let items = concat (map side_items (ProjectNav t pathname me p)); base = project_base (Some p)
   in mset (map si_href items)
        = add_mset base (mset (map (\<lambda>r. base @ nr_path r) (filter (route_shown me p) (concat (map snd GROUPS)))))
      \<and> list_all (\<lambda>(_, routes). sorted (map (route_rank p) (group_routes me p routes))) GROUPS
      \<and> length (filter si_active items) \<le> 1"
proof -
  have d: "distinct (OVERVIEW # listed_routes me p)"
  proof -
    have n: "OVERVIEW \<notin> set (concat (map snd GROUPS))" "distinct (filter (route_shown me p) (concat (map snd GROUPS)))"
      using nav_routes_distinct by (simp_all add: NAV_ROUTES_def)
    moreover have "distinct (listed_routes me p)"
      using n(2) mset_eq_imp_distinct_iff [OF listed_routes_mset] by blast
    moreover have "set (listed_routes me p) \<subseteq> set (concat (map snd GROUPS))"
      using mset_eq_setD [OF listed_routes_mset, of me p] by auto
    ultimately show ?thesis by auto
  qed
  have "length (filter si_active (concat (map side_items (ProjectNav t pathname me p)))) \<le> 1"
    using one_of_distinct [OF d, of "activeRoute pathname (project_base (Some p))"]
    by (simp only: project_nav_items filter_map length_map) (simp add: comp_def)
  moreover have "mset (map si_href (concat (map side_items (ProjectNav t pathname me p))))
      = add_mset (project_base (Some p))
          (mset (map (\<lambda>r. project_base (Some p) @ nr_path r) (filter (route_shown me p) (concat (map snd GROUPS)))))"
    by (simp only: project_nav_items list.map map_map comp_def side_item.simps mset.simps)
      (simp only: mset_map listed_routes_mset, simp add: OVERVIEW_def)
  moreover have "list_all (\<lambda>(_, routes). sorted (map (route_rank p) (group_routes me p routes))) GROUPS"
    by (simp add: list_all_iff group_routes_sorted split: prod.splits)
  ultimately show ?thesis unfolding Let_def by blast
qed

text \<open>The settings of a project that is not among the listed ones are reachable all the same.\<close>

lemma settings_list_the_current_project:
  "(\<exists>o' \<in> set (settings_listed (Some p) projects). fj_id o' = fj_id p)
   \<and> set projects \<subseteq> set (settings_listed (Some p) projects)"
  by (auto simp: settings_listed_def)

section \<open>Where the crumbs lead\<close>

lemma starts_with_trans: "starts_with a b \<Longrightarrow> starts_with b c \<Longrightarrow> starts_with a c"
  by (auto simp: starts_with_iff)

lemma starts_with_appendD: "starts_with (a @ b) c \<Longrightarrow> starts_with a c"
  by (auto simp: starts_with_iff)

lemma prefix_clash: "starts_with (c # a) s \<Longrightarrow> starts_with (d # b) s \<Longrightarrow> c = d"
  by (auto simp: starts_with_iff)

lemma settings_page_href:
  assumes "settings_page pathname (project_base project) = Some e" "starts_with (project_base project) pathname"
  shows "starts_with (se_href e) pathname \<and> starts_with (project_base project @ ''/settings'') pathname"
proof -
  have e: "e \<in> set (ACCOUNT_SETTINGS @ WORKSPACE_SETTINGS
        @ map (\<lambda>e. e\<lparr>se_href := project_base project @ ''/settings'' @ se_href e\<rparr>) PROJECT_SETTINGS)"
    "starts_with (se_href e) pathname"
    using find_Some_mem [OF assms(1) [unfolded settings_page_def]] by simp_all
  have inner: "starts_with (project_base project @ ''/settings'') pathname"
    if "e \<in> set (map (\<lambda>e. e\<lparr>se_href := project_base project @ ''/settings'' @ se_href e\<rparr>) PROJECT_SETTINGS)"
    using that e(2) by (auto intro: starts_with_appendD)
  have outer: "starts_with ''/settings'' (se_href e)"
    if "e \<in> set (ACCOUNT_SETTINGS @ WORKSPACE_SETTINGS)"
    using that by (auto simp: ACCOUNT_SETTINGS_def WORKSPACE_SETTINGS_def starts_with_def)
  have "starts_with (project_base project @ ''/settings'') pathname"
    if "e \<in> set (ACCOUNT_SETTINGS @ WORKSPACE_SETTINGS)"
  proof -
    have s: "starts_with ''/settings'' pathname" using outer [OF that] e(2) by (rule starts_with_trans)
    then have "project = None"
      using assms(2) by (cases project) (auto simp: project_base_def starts_with_iff)
    then show ?thesis using s by (simp add: project_base_def)
  qed
  then show ?thesis using e inner by auto
qed

lemma active_route_prefix:
  "activeRoute pathname base = Some r \<Longrightarrow> nr_path r \<noteq> [] \<Longrightarrow> starts_with (base @ nr_path r) pathname"
  using find_Some_mem [of "on_route pathname base" NAV_ROUTES r]
  by (simp add: activeRoute_def on_route_def)

definition leads_back :: "string \<Rightarrow> crumb list \<Rightarrow> crumb \<Rightarrow> bool" where
  "leads_back pathname trail c \<longleftrightarrow>
     (case cb_href c of None \<Rightarrow> True | Some h \<Rightarrow> starts_with h pathname \<or> Some h \<in> set (map cb_href trail))"

lemma leads_back_simps [simp]:
  "leads_back pathname trail (crumb_link l h) \<longleftrightarrow> starts_with h pathname \<or> Some h \<in> set (map cb_href trail)"
  "leads_back pathname trail (crumb_text l)"
  by (simp_all add: leads_back_def crumb_link_def crumb_text_def)

lemma trail_leads_back: "list_all (leads_back pathname trail) (trailCrumbs trail)"
  by (auto simp: list_all_iff leads_back_def trailCrumbs_def split: option.splits) (metis imageI)

lemma section_leads_back:
  "list_all (leads_back pathname trail) (sectionCrumbs pathname base (activeRoute pathname base) l trail)"
  using active_route_prefix [of pathname base] trail_leads_back [of pathname trail]
  by (auto simp: sectionCrumbs_def split: option.splits)

lemma breadcrumbs_lead_back:
  assumes "starts_with (project_base project) pathname"
  shows "list_all (leads_back pathname trail) (AppBreadcrumbs t pathname project trail)"
proof -
  have "starts_with ''/projects'' pathname" if "starts_with ''/projects/new'' pathname"
    using starts_with_appendD [of "''/projects''" "''/new''"] that by simp
  then show ?thesis
    using assms trail_leads_back [of pathname trail] section_leads_back [of pathname trail]
      settings_page_href [OF _ assms]
    by (auto simp: AppBreadcrumbs_def Let_def split: option.splits)
qed

lemma breadcrumbs_some: "AppBreadcrumbs t pathname project trail \<noteq> []"
  by (auto simp: AppBreadcrumbs_def Let_def split: option.splits)

lemma Breadcrumbs_length: "length (Breadcrumbs items) = length items"
  by (simp add: Breadcrumbs_def)

lemma Breadcrumbs_nth:
  "i < length items \<Longrightarrow> Breadcrumbs items ! i = (if i + 1 = length items then (items ! i)\<lparr>cb_href := None\<rparr> else items ! i)"
  by (simp add: Breadcrumbs_def nth_enumerate_eq)

text \<open>
  every link of the breadcrumbs leads back: to a beginning of the address one is at, or where the
  page itself said; there is always a last crumb, it says where one is and is not a link, and the
  crumbs before it are shown as they are.
\<close>

theorem crumbs_lead_back:
  assumes "starts_with (project_base project) pathname"
  shows "let shown = Breadcrumbs (AppBreadcrumbs t pathname project trail)
    in list_all (leads_back pathname trail) shown
       \<and> shown \<noteq> [] \<and> cb_href (List.last shown) = None
       \<and> map cb_label shown = map cb_label (AppBreadcrumbs t pathname project trail)
       \<and> butlast shown = butlast (AppBreadcrumbs t pathname project trail)"
proof -
  define items where "items = AppBreadcrumbs t pathname project trail"
  have ne: "items \<noteq> []" by (simp add: items_def breadcrumbs_some)
  have all: "list_all (leads_back pathname trail) items" using assms by (simp add: items_def breadcrumbs_lead_back)
  have "list_all (leads_back pathname trail) (Breadcrumbs items)"
    using all by (auto simp: list_all_length Breadcrumbs_length Breadcrumbs_nth leads_back_def)
  moreover have some: "Breadcrumbs items \<noteq> []" using ne Breadcrumbs_length [of items] by auto
  moreover have "cb_href (List.last (Breadcrumbs items)) = None"
    using ne some by (simp add: last_conv_nth Breadcrumbs_length Breadcrumbs_nth)
  moreover have "map cb_label (Breadcrumbs items) = map cb_label items"
    by (rule nth_equalityI) (simp_all add: Breadcrumbs_length Breadcrumbs_nth)
  moreover have "butlast (Breadcrumbs items) = butlast items"
    by (rule nth_equalityI) (simp_all add: Breadcrumbs_length nth_butlast Breadcrumbs_nth)
  ultimately show ?thesis by (simp add: Let_def items_def)
qed

theorem crumbs_lead_back_witness:
  "let p = \<lparr>fj_id = 7, fj_name = ''web'', fj_slug = ''web'', fj_platform = None, fj_disabled = [], fj_order = []\<rparr>;
       trail = [\<lparr>cb_label = ''1.2.0'', cb_href = None, cb_mono = True\<rparr>];
       shown = Breadcrumbs (AppBreadcrumbs (\<lambda>k. k) ''/projects/7/releases/1.2.0'' (Some p) trail)
   in map cb_href shown = [Some ''/projects/7'', Some ''/projects/7/releases'', None]
      \<and> list_all (leads_back ''/projects/7/releases/1.2.0'' trail) shown"
proof -
  let ?p = "\<lparr>fj_id = 7, fj_name = ''web'', fj_slug = ''web'', fj_platform = None, fj_disabled = [], fj_order = []\<rparr>"
  let ?trail = "[\<lparr>cb_label = ''1.2.0'', cb_href = None, cb_mono = True\<rparr>]"
  have "starts_with (project_base (Some ?p)) ''/projects/7/releases/1.2.0''" by code_simp
  note leads = crumbs_lead_back [OF this, of "\<lambda>k. k" ?trail]
  have "map cb_href (Breadcrumbs (AppBreadcrumbs (\<lambda>k. k) ''/projects/7/releases/1.2.0'' (Some ?p) ?trail))
      = [Some ''/projects/7'', Some ''/projects/7/releases'', None]"
    by code_simp
  then show ?thesis using leads by (simp add: Let_def)
qed

section \<open>What a page says it is\<close>

text \<open>
  One trail for the page on screen, and the listeners told of it. A commit runs the cleanup of the
  effect that goes before the effect that comes; an effect whose crumbs did not change is left alone.
\<close>

record page_trail =
  pt_trail :: "crumb list"
  pt_effect :: "crumb list option"
  pt_listeners :: "nat list"
  pt_told :: "(nat \<times> crumb list) list"

definition setTrail :: "crumb list \<Rightarrow> page_trail \<Rightarrow> page_trail" where
  "setTrail next_trail s = s\<lparr>pt_trail := next_trail, pt_told := pt_told s @ announce (pt_listeners s) next_trail\<rparr>"

definition usePageTrail :: "crumb list option \<Rightarrow> page_trail \<Rightarrow> page_trail" where
  "usePageTrail crumbs s =
     (if crumbs = pt_effect s then s
      else
        let cleaned = (if pt_effect s = None then s else setTrail [] s);
            s1 = (case crumbs of None \<Rightarrow> cleaned | Some c \<Rightarrow> setTrail c cleaned)
        in s1\<lparr>pt_effect := crumbs\<rparr>)"

definition page_trail_subscribe :: "nat \<Rightarrow> page_trail \<Rightarrow> page_trail" where
  "page_trail_subscribe l s = s\<lparr>pt_listeners := listener_add l (pt_listeners s)\<rparr>"

inductive trail_op :: "page_trail \<Rightarrow> page_trail \<Rightarrow> bool" where
  "trail_op s (usePageTrail crumbs s)"

lemma setTrail_facts [simp]:
  "pt_trail (setTrail c s) = c" "pt_effect (setTrail c s) = pt_effect s" "pt_listeners (setTrail c s) = pt_listeners s"
  "pt_told (setTrail c s) = pt_told s @ announce (pt_listeners s) c"
  by (simp_all add: setTrail_def)

interpretation page_trail_store: observable trail_op pt_listeners pt_trail pt_told
proof
  fix s s'
  assume "trail_op s s'"
  then obtain crumbs where s': "s' = usePageTrail crumbs s" by cases
  show "pt_listeners s' = pt_listeners s"
    by (auto simp: s' usePageTrail_def Let_def split: option.splits)
  show "\<exists>d. pt_told s' = pt_told s @ d \<and> (\<forall>l \<in> set (pt_listeners s). view l (pt_trail s) d = pt_trail s')"
  proof (cases "crumbs = pt_effect s")
    case True
    then show ?thesis by (intro exI [of _ "[]"]) (simp add: s' usePageTrail_def)
  next
    case False
    then show ?thesis
      by (intro exI [of _ "(if pt_effect s = None then [] else announce (pt_listeners s) [])
            @ (case crumbs of None \<Rightarrow> [] | Some c \<Rightarrow> announce (pt_listeners s) c)"])
        (auto simp: s' usePageTrail_def Let_def split: option.splits)
  qed
qed

definition trail_of_page :: "page_trail \<Rightarrow> bool" where
  "trail_of_page s \<longleftrightarrow> pt_trail s = (case pt_effect s of None \<Rightarrow> [] | Some c \<Rightarrow> c)"

lemma usePageTrail_names_page: "trail_of_page s \<Longrightarrow> trail_of_page (usePageTrail crumbs s) \<and> pt_effect (usePageTrail crumbs s) = crumbs"
  by (auto simp: trail_of_page_def usePageTrail_def Let_def split: option.splits)

text \<open>
  After any number of pages the breadcrumbs know the crumbs of the one on screen, and of no other.
\<close>

lemma crumbs_of_the_page:
  assumes "trail_of_page s" "l \<in> set (pt_listeners s)" "trail_op\<^sup>*\<^sup>* s s'" "s'' = usePageTrail crumbs s'"
  shows "view l (pt_trail s) (drop (length (pt_told s)) (pt_told s'')) = (case crumbs of None \<Rightarrow> [] | Some c \<Rightarrow> c)"
proof -
  have "trail_of_page s'" using assms(3,1)
    by (induction rule: rtranclp_induct) (auto elim!: trail_op.cases dest: usePageTrail_names_page)
  then have "pt_trail s'' = (case crumbs of None \<Rightarrow> [] | Some c \<Rightarrow> c)"
    using usePageTrail_names_page [of s' crumbs] by (simp add: assms(4) trail_of_page_def)
  moreover have "trail_op\<^sup>*\<^sup>* s s''"
    using assms(3,4) trail_op.intros rtranclp.rtrancl_into_rtrancl [of trail_op s s'] by simp
  ultimately show ?thesis using page_trail_store.listener_up_to_date [OF _ assms(2)] by simp
qed

section \<open>The way the sidebar slides\<close>

datatype slide = Slide_forward | Slide_back | Slide_swap

record sidebar_scope =
  sc_scope :: string
  sc_depth :: nat
  sc_direction :: "slide option"

definition SidebarScope :: "string \<Rightarrow> nat \<Rightarrow> sidebar_scope \<Rightarrow> sidebar_scope" where
  "SidebarScope scope depth s =
     (if sc_scope s \<noteq> scope
      then \<lparr>sc_scope = scope, sc_depth = depth,
            sc_direction = Some (if depth > sc_depth s then Slide_forward
                                 else if depth < sc_depth s then Slide_back else Slide_swap)\<rparr>
      else s)"

definition scope_drawn :: "string \<Rightarrow> frame_project option \<Rightarrow> sidebar_scope \<Rightarrow> sidebar_scope" where
  "scope_drawn pathname project s = (let (_, scope, depth) = sidebarScope pathname project in SidebarScope scope depth s)"

definition scope_first :: "string \<Rightarrow> frame_project option \<Rightarrow> sidebar_scope" where
  "scope_first pathname project =
     (let (_, scope, depth) = sidebarScope pathname project in \<lparr>sc_scope = scope, sc_depth = depth, sc_direction = None\<rparr>)"

text \<open>The depth a scope has is the one it was drawn with, so a move is told by the addresses alone.\<close>

definition scope_true :: "sidebar_scope \<Rightarrow> string \<Rightarrow> frame_project option \<Rightarrow> bool" where
  "scope_true s pathname project \<longleftrightarrow> (let (_, scope, depth) = sidebarScope pathname project in sc_scope s = scope \<and> sc_depth s = depth)"

lemma scope_depth: "fst (snd (sidebarScope pn p)) = fst (snd (sidebarScope pn' p')) \<Longrightarrow> snd (snd (sidebarScope pn p)) = snd (snd (sidebarScope pn' p'))"
  by (auto simp: sidebarScope_def split: if_splits option.splits)

lemma scope_drawn_true:
  "scope_true s pn p \<Longrightarrow> scope_true (scope_drawn pn' p' s) pn' p'"
  using scope_depth [of pn p pn' p']
  by (auto simp: scope_true_def scope_drawn_def SidebarScope_def Let_def split: prod.splits)

lemma scope_first_true: "scope_true (scope_first pn p) pn p \<and> sc_direction (scope_first pn p) = None"
  by (auto simp: scope_true_def scope_first_def split: prod.splits)

section \<open>The rail and the drawer\<close>

text \<open>
  \<open>document.cookie\<close> split at its separators is a list of entries. The breakpoint is synchronised when
  the shell is mounted and at every crossing; for two frames after it nothing animates.
\<close>

record shell =
  sh_preference :: bool
  sh_drawer :: bool
  sh_mobile :: bool
  sh_frames :: nat
  sh_cookies :: "string list"

definition sidebarWasCollapsed :: "string list \<Rightarrow> bool" where
  "sidebarWasCollapsed cookies = list_ex (\<lambda>entry. entry = ''sidebar_state=false'') cookies"

definition rememberSidebar :: "bool \<Rightarrow> string list \<Rightarrow> string list" where
  "rememberSidebar collapsed cookies =
     filter (\<lambda>entry. \<not> starts_with ''sidebar_state='' entry) cookies
     @ [''sidebar_state='' @ (if collapsed then ''false'' else ''true'')]"

definition shell_collapsed :: "shell \<Rightarrow> bool" where
  "shell_collapsed s \<longleftrightarrow> sh_preference s \<and> \<not> sh_mobile s"

definition shell_switching :: "shell \<Rightarrow> bool" where
  "shell_switching s \<longleftrightarrow> 0 < sh_frames s"

definition setCollapsed :: "bool \<Rightarrow> shell \<Rightarrow> shell" where
  "setCollapsed v s = s\<lparr>sh_preference := v, sh_cookies := rememberSidebar v (sh_cookies s)\<rparr>"

definition toggle_shell :: "shell \<Rightarrow> shell" where
  "toggle_shell s = setCollapsed (\<not> sh_preference s) s"

text \<open>\<open>sync\<close> and the effect of a changed breakpoint: a wide window has no drawer.\<close>

definition sync_breakpoint :: "bool \<Rightarrow> shell \<Rightarrow> shell" where
  "sync_breakpoint phone s =
     s\<lparr>sh_mobile := phone, sh_frames := 2, sh_drawer := (if phone then sh_drawer s else False)\<rparr>"

definition mount_shell :: "bool \<Rightarrow> string list \<Rightarrow> shell" where
  "mount_shell phone cookies =
     sync_breakpoint phone
       \<lparr>sh_preference = sidebarWasCollapsed cookies, sh_drawer = False, sh_mobile = False, sh_frames = 0, sh_cookies = cookies\<rparr>"

datatype shell_event =
    Toggle_pressed
  | Shell_key string bool bool
  | Drawer_pressed
  | Scrim_pressed
  | Breakpoint_crossed bool
  | Frame_drawn
  | Shell_reloaded bool

definition shell_step :: "shell \<Rightarrow> shell_event \<Rightarrow> shell" where
  "shell_step s e =
     (case e of
        Toggle_pressed \<Rightarrow> toggle_shell s
      | Shell_key key held editable \<Rightarrow>
          if key = ''Escape'' then (if sh_drawer s then s\<lparr>sh_drawer := False\<rparr> else s)
          else if to_lower key \<noteq> ''b'' \<or> \<not> held then s
          else if editable then s
          else toggle_shell s
      | Drawer_pressed \<Rightarrow> if sh_mobile s then s\<lparr>sh_drawer := \<not> sh_drawer s\<rparr> else s
      | Scrim_pressed \<Rightarrow> s\<lparr>sh_drawer := False\<rparr>
      | Breakpoint_crossed phone \<Rightarrow> sync_breakpoint phone s
      | Frame_drawn \<Rightarrow> s\<lparr>sh_frames := sh_frames s - 1\<rparr>
      | Shell_reloaded phone \<Rightarrow> mount_shell phone (sh_cookies s))"

definition shell_run :: "shell \<Rightarrow> shell_event list \<Rightarrow> shell" where
  "shell_run s es = foldl shell_step s es"

definition shell_ok :: "shell \<Rightarrow> bool" where
  "shell_ok s \<longleftrightarrow> (sh_drawer s \<longrightarrow> sh_mobile s) \<and> sh_preference s = sidebarWasCollapsed (sh_cookies s) \<and> sh_frames s \<le> 2"

lemma remembered_sidebar [simp]: "sidebarWasCollapsed (rememberSidebar v cookies) = v"
  by (auto simp: sidebarWasCollapsed_def rememberSidebar_def list_ex_iff starts_with_def)

lemma shell_step_ok: "shell_ok s \<Longrightarrow> shell_ok (shell_step s e)"
  by (cases e)
    (auto simp: shell_ok_def shell_step_def toggle_shell_def setCollapsed_def sync_breakpoint_def mount_shell_def)

lemma shell_run_ok: "shell_ok s \<Longrightarrow> shell_ok (shell_run s es)"
  by (induction es rule: rev_induct) (simp_all add: shell_run_def shell_step_ok)

text \<open>The presses that collapse or expand.\<close>

fun toggles :: "shell_event \<Rightarrow> bool" where
  "toggles Toggle_pressed = True"
| "toggles (Shell_key key held editable) = (to_lower key = ''b'' \<and> held \<and> \<not> editable)"
| "toggles _ = False"

lemma shell_preference_step: "shell_ok s \<Longrightarrow> sh_preference (shell_step s e) = (sh_preference s \<noteq> toggles e)"
  by (cases e)
    (auto simp: shell_ok_def shell_step_def toggle_shell_def setCollapsed_def sync_breakpoint_def mount_shell_def to_lower_def
      char_lower_def)

text \<open>
  the rail is what the reader last made it, whatever happens to the window in between: it is collapsed
  in a wide window exactly when it was collapsed at first and toggled an even number of times since, or the
  other way round, reloads and crossings of the breakpoint counting for nothing; what a reload would read
  is always that; and the drawer is open only on a phone, where there is no rail.
\<close>

theorem rail_is_remembered:
  "let s = shell_run (mount_shell phone cookies) es
   in sh_preference s = (sidebarWasCollapsed cookies \<noteq> odd (length (filter toggles es)))
      \<and> sidebarWasCollapsed (sh_cookies s) = sh_preference s
      \<and> shell_collapsed s = (sh_preference s \<and> \<not> sh_mobile s)
      \<and> (sh_drawer s \<and> (\<not> sh_mobile s \<or> shell_collapsed s)) = False"
proof -
  have ok: "shell_ok (shell_run (mount_shell phone cookies) es)" for es
    by (rule shell_run_ok) (simp add: shell_ok_def mount_shell_def sync_breakpoint_def)
  have "sh_preference (shell_run (mount_shell phone cookies) es)
      = (sidebarWasCollapsed cookies \<noteq> odd (length (filter toggles es)))"
  proof (induction es rule: rev_induct)
    case Nil
    show ?case by (simp add: shell_run_def mount_shell_def sync_breakpoint_def)
  next
    case (snoc e es)
    have "shell_run (mount_shell phone cookies) (es @ [e]) = shell_step (shell_run (mount_shell phone cookies) es) e"
      by (simp add: shell_run_def)
    then show ?case using snoc shell_preference_step [OF ok, of es e] by auto
  qed
  then show ?thesis using ok [of es] by (auto simp: Let_def shell_ok_def shell_collapsed_def)
qed

end
