(* ===== verification/IssueTriage.thy ===== *)
theory IssueTriage
  imports IssueTable QueryBar Permissions Json
begin

text \<open>
  The issue list as the place where issues are triaged: \<open>features/issue/ui/components/issues-table\<close>
  (columns, the menus of a row and of a ticked batch, the requests they make, the confirmation of a
  deletion) and the log of an issue, \<open>issue-activity.tsx\<close>. The translator is a parameter.
\<close>

section \<open>Columns and fields\<close>

record member =
  mb_id :: int
  mb_email :: string

definition column_of :: "(string \<Rightarrow> string) \<Rightarrow> string \<Rightarrow> string \<Rightarrow> filter_spec option \<Rightarrow> column_def" where
  "column_of t cid label flt = \<lparr>cd_id = Some cid, cd_accessorKey = None, cd_header = Some (t label), cd_label = Some (t label), cd_filter = flt\<rparr>"

definition option_filter :: "bool option \<Rightarrow> filter_option list \<Rightarrow> filter_spec option" where
  "option_filter multiple options = Some \<lparr>fs_variant = V_options, fs_options = Some options, fs_loads = False, fs_multiple = multiple\<rparr>"

definition issueColumns :: "(string \<Rightarrow> string) \<Rightarrow> member list \<Rightarrow> int \<Rightarrow> column_def list" where
  "issueColumns t members me =
     (let seenOptions = map (\<lambda>v. \<lparr>fo_value = v, fo_label = t (''table.windows.'' @ v)\<rparr>) SEEN_WINDOWS
      in [column_of t ''issue'' ''columns.issue'' None,
          column_of t ''level'' ''columns.level''
            (option_filter None (map (\<lambda>v. \<lparr>fo_value = v, fo_label = t (''table.levels.'' @ v)\<rparr>)
               [''fatal'', ''error'', ''warning'', ''info''])),
          column_of t ''trend'' ''columns.trend'' None,
          column_of t ''events'' ''columns.events''
            (Some \<lparr>fs_variant = V_range, fs_options = None, fs_loads = False, fs_multiple = None\<rparr>),
          column_of t ''users'' ''columns.users'' None,
          column_of t ''priority'' ''priority''
            (option_filter None (map (\<lambda>v. \<lparr>fo_value = v, fo_label = t (''issueStatus.'' @ v)\<rparr>) [''high'', ''medium'', ''low''])),
          column_of t ''assignee'' ''columns.assignee''
            (option_filter (Some False)
               ([\<lparr>fo_value = int_str me, fo_label = t ''table.me''\<rparr>, \<lparr>fo_value = ''none'', fo_label = t ''table.unassigned''\<rparr>]
                @ map (\<lambda>m. \<lparr>fo_value = int_str (mb_id m), fo_label = mb_email m\<rparr>) (filter (\<lambda>m. mb_id m \<noteq> me) members))),
          column_of t ''lastSeen'' ''columns.lastSeen'' (option_filter (Some False) seenOptions),
          column_of t ''firstSeen'' ''columns.age'' (option_filter (Some False) seenOptions)])"

definition issue_fields :: "(string \<Rightarrow> string) \<Rightarrow> member list \<Rightarrow> int \<Rightarrow> string list \<Rightarrow> string list \<Rightarrow> query_field list" where
  "issue_fields t members me environments releases =
     queryFieldsFromColumns (issueColumns t members me)
     @ [\<lparr>qf_key = ''environment'', qf_label = t ''table.environment'', qf_variant = V_options,
         qf_options = Some (map (\<lambda>v. \<lparr>fo_value = v, fo_label = v\<rparr>) environments), qf_loads = False, qf_multiple = Some False\<rparr>,
        \<lparr>qf_key = ''release'', qf_label = t ''table.release'', qf_variant = V_options,
         qf_options = Some (map (\<lambda>v. \<lparr>fo_value = v, fo_label = v\<rparr>) releases), qf_loads = False, qf_multiple = Some False\<rparr>]"

text \<open>
  what the query bar of the issue list offers to filter by is what its address can hold: the same
  fields, each with the same kind of value, whoever the members and whatever the releases are.
\<close>

theorem bar_offers_what_the_address_holds:
  "mset (map (\<lambda>f. (qf_key f, qf_variant f)) (issue_fields t members me environments releases)) = mset ISSUE_FILTER_VARIANTS"
  by (simp add: issue_fields_def queryFieldsFromColumns_def issueColumns_def Let_def column_of_def option_filter_def
      query_field_of_def or_else_def List.map_filter_simps ISSUE_FILTER_VARIANTS_def)

section \<open>A row\<close>

record triage_issue =
  ti_id :: string
  ti_short :: string
  ti_status :: "string option"
  ti_substatus :: "string option"
  ti_priority :: "string option"
  ti_assigned :: "int option"
  ti_level :: "string option"
  ti_first_seen :: string

definition SUBSTATUS_TONE :: "string \<Rightarrow> string option" where
  "SUBSTATUS_TONE = map_of [(''new'', ''brand''), (''regressed'', ''warning''), (''escalating'', ''error'')]"

definition ISSUE_LEVEL_TONE :: "string \<Rightarrow> string option" where
  "ISSUE_LEVEL_TONE = map_of [(''fatal'', ''error''), (''error'', ''error''), (''warning'', ''warning''), (''info'', ''info'')]"

definition LEVEL_MARK :: "string \<Rightarrow> string option" where
  "LEVEL_MARK = map_of [(''fatal'', ''bg-sev-error''), (''error'', ''bg-sev-error''), (''warning'', ''bg-sev-warning'')]"

definition PRIORITY_TONE :: "string \<Rightarrow> string option" where
  "PRIORITY_TONE = map_of [(''high'', ''error''), (''medium'', ''warning''), (''low'', ''neutral'')]"

definition NEW_FOR_MS :: int where "NEW_FOR_MS = 7 * 24 * 60 * 60 * 1000"

text \<open>\<open>None\<close> of \<open>time\<close> is a date that cannot be read.\<close>

definition issueBadge :: "(string \<Rightarrow> int option) \<Rightarrow> triage_issue \<Rightarrow> int \<Rightarrow> (string \<times> string) option" where
  "issueBadge time issue now =
     (if ti_status issue = Some ''resolved'' then Some (''resolved'', ''neutral'')
      else if ti_status issue = Some ''ignored'' then Some (''ignored'', ''neutral'')
      else case (case ti_substatus issue of None \<Rightarrow> None | Some k \<Rightarrow> map_option (\<lambda>tone. (k, tone)) (SUBSTATUS_TONE k)) of
        Some b \<Rightarrow> Some b
      | None \<Rightarrow>
          (case time (ti_first_seen issue) of
             Some ms \<Rightarrow> if now - ms < NEW_FOR_MS then Some (''new'', ''brand'') else None
           | None \<Rightarrow> None))"

datatype assignee = Nobody | Assigned_me | Assigned_someone | Assigned_name string

definition AssigneeCell :: "member list \<Rightarrow> int \<Rightarrow> int option \<Rightarrow> assignee" where
  "AssigneeCell members me assigned =
     (case assigned of
        None \<Rightarrow> Nobody
      | Some a \<Rightarrow>
          (case List.find (\<lambda>m. mb_id m = a) members of
             None \<Rightarrow> if a = me then Assigned_me else Assigned_someone
           | Some m \<Rightarrow> if mb_id m = me then Assigned_me else Assigned_name (takeWhile (\<lambda>c. c \<noteq> CHR ''@'') (mb_email m))))"

lemma assigned_is_never_nobody: "AssigneeCell members me assigned = Nobody \<longleftrightarrow> assigned = None"
  by (simp add: AssigneeCell_def split: option.splits)

section \<open>The menus\<close>

datatype change = Ch_status string | Ch_priority string | Ch_assigned "int option"

datatype row_effect = Apply change | Copy_id | Ask_delete

datatype menu_entry =
    Menu_item string bool bool bool row_effect  \<comment> \<open>id, selected, disabled, separated\<close>
  | Menu_sub string bool "menu_entry list"

definition PRIORITIES :: "string list" where "PRIORITIES = [''high'', ''medium'', ''low'']"

definition priorityItems :: "string option \<Rightarrow> menu_entry list" where
  "priorityItems current = map (\<lambda>p. Menu_item p (Some p = current) False False (Apply (Ch_priority p))) PRIORITIES"

text \<open>Whose issue it is now: a batch has no \<open>current\<close>, which is not the same as nobody.\<close>

datatype current = Current_unknown | Current "int option"

definition assignItems :: "member list \<Rightarrow> int \<Rightarrow> current \<Rightarrow> menu_entry list" where
  "assignItems members me current =
     [Menu_item ''me'' (current = Current (Some me)) False False (Apply (Ch_assigned (Some me))),
      Menu_item ''none'' False (current = Current None) False (Apply (Ch_assigned None))]
     @ map (\<lambda>(index, m). Menu_item (int_str (mb_id m)) (current = Current (Some (mb_id m))) False (index = 0) (Apply (Ch_assigned (Some (mb_id m)))))
         (enumerate 0 (filter (\<lambda>m. mb_id m \<noteq> me) members))"

definition rowMenu :: "member list \<Rightarrow> int \<Rightarrow> bool \<Rightarrow> bool \<Rightarrow> triage_issue \<Rightarrow> menu_entry list" where
  "rowMenu members me canUpdate canDelete issue =
     (let resolved = (ti_status issue = Some ''resolved''); muted = (ti_status issue = Some ''ignored'');
          triage = [Menu_item ''resolve'' False False False (Apply (Ch_status (if resolved then ''unresolved'' else ''resolved''))),
                    Menu_item ''mute'' False False False (Apply (Ch_status (if muted then ''unresolved'' else ''ignored''))),
                    Menu_sub ''priority'' True (priorityItems (ti_priority issue)),
                    Menu_sub ''assign'' False (assignItems members me (Current (ti_assigned issue)))]
      in (if canUpdate then triage else [])
         @ [Menu_item ''copy'' False False canUpdate Copy_id]
         @ (if canDelete then [Menu_item ''delete'' False False False Ask_delete] else []))"

definition bulkMenu :: "member list \<Rightarrow> int \<Rightarrow> bool \<Rightarrow> bool \<Rightarrow> menu_entry list" where
  "bulkMenu members me canUpdate canDelete =
     (if canUpdate
      then [Menu_item ''resolve'' False False False (Apply (Ch_status ''resolved'')),
            Menu_item ''mute'' False False False (Apply (Ch_status ''ignored'')),
            Menu_sub ''priority'' False (priorityItems None),
            Menu_sub ''assign'' False (assignItems members me Current_unknown)]
      else [])
     @ (if canDelete then [Menu_item ''delete'' False False False Ask_delete] else [])"

text \<open>What can be chosen of a menu.\<close>

fun menu_effects :: "menu_entry \<Rightarrow> row_effect list" where
  "menu_effects (Menu_item _ _ disabled _ e) = (if disabled then [] else [e])"
| "menu_effects (Menu_sub _ _ es) = concat (map menu_effects es)"

definition effects :: "menu_entry list \<Rightarrow> row_effect list" where
  "effects es = concat (map menu_effects es)"

section \<open>The list and its requests\<close>

datatype triage_request =
    Bulk_update "string list" change
  | Assign_each "string list" "int option"
  | Delete_one string
  | Bulk_delete "string list"

datatype triage_notice = Update_failed | Delete_one_failed | Delete_many_failed | Id_copied string

record triage =
  tr_ticked :: "triage_issue list"
  tr_deleting :: "triage_issue list option"
  tr_flight :: "(nat \<times> triage_request \<times> bool) list"  \<comment> \<open>in flight; was one issue asked for?\<close>
  tr_requests :: "triage_request list"
  tr_notices :: "triage_notice list"

definition triage_first :: triage where
  "triage_first = \<lparr>tr_ticked = [], tr_deleting = None, tr_flight = [], tr_requests = [], tr_notices = []\<rparr>"

definition same_mutation :: "triage_request \<Rightarrow> triage_request \<Rightarrow> bool" where
  "same_mutation a b \<longleftrightarrow>
     (case (a, b) of
        (Bulk_update _ _, Bulk_update _ _) \<Rightarrow> True | (Assign_each _ _, Assign_each _ _) \<Rightarrow> True
      | (Delete_one _, Delete_one _) \<Rightarrow> True | (Bulk_delete _, Bulk_delete _) \<Rightarrow> True | _ \<Rightarrow> False)"

text \<open>A mutation is pending while its latest call is: later calls stand later in the list.\<close>

definition triage_pending :: "triage \<Rightarrow> bool" where
  "triage_pending s \<longleftrightarrow>
     list_ex (\<lambda>(n, r, _). list_all (\<lambda>(m, q). \<not> (n < m \<and> same_mutation r q)) (enumerate 0 (tr_requests s))) (tr_flight s)"

definition send_triage :: "triage_request \<Rightarrow> bool \<Rightarrow> triage \<Rightarrow> triage" where
  "send_triage r single s =
     s\<lparr>tr_flight := tr_flight s @ [(length (tr_requests s), r, single)], tr_requests := tr_requests s @ [r]\<rparr>"

definition apply_change :: "triage_issue list \<Rightarrow> change \<Rightarrow> triage \<Rightarrow> triage" where
  "apply_change issues ch s =
     (case ch of
        Ch_assigned a \<Rightarrow> send_triage (Assign_each (map ti_id issues) a) False s
      | _ \<Rightarrow> send_triage (Bulk_update (map ti_id issues) ch) False s)"

definition choose_effect :: "triage_issue list \<Rightarrow> row_effect \<Rightarrow> triage \<Rightarrow> triage" where
  "choose_effect issues e s =
     (case e of
        Apply ch \<Rightarrow> apply_change issues ch s
      | Copy_id \<Rightarrow> (case issues of i # _ \<Rightarrow> s\<lparr>tr_notices := tr_notices s @ [Id_copied (ti_short i)]\<rparr> | [] \<Rightarrow> s)
      | Ask_delete \<Rightarrow> s\<lparr>tr_deleting := Some issues\<rparr>)"

definition confirmDelete :: "triage \<Rightarrow> triage" where
  "confirmDelete s =
     (case tr_deleting s of
        None \<Rightarrow> s
      | Some [single] \<Rightarrow> send_triage (Delete_one (ti_id single)) True s
      | Some issues \<Rightarrow> send_triage (Bulk_delete (map ti_id issues)) False s)"

definition is_deletion :: "triage_request \<Rightarrow> bool" where
  "is_deletion r \<longleftrightarrow> (case r of Delete_one _ \<Rightarrow> True | Bulk_delete _ \<Rightarrow> True | _ \<Rightarrow> False)"

text \<open>
  The failure of a batch is told by what is being deleted when it arrives, the failure of one issue by
  what was when it was sent.
\<close>

definition triage_answered :: "nat \<Rightarrow> bool \<Rightarrow> triage \<Rightarrow> triage" where
  "triage_answered n ok s =
     (case map_of (tr_flight s) n of
        None \<Rightarrow> s
      | Some (r, single) \<Rightarrow>
          let s1 = s\<lparr>tr_flight := filter (\<lambda>(m, _). m \<noteq> n) (tr_flight s)\<rparr>;
              one = (case r of Delete_one _ \<Rightarrow> single
                     | _ \<Rightarrow> (case tr_deleting s of Some is' \<Rightarrow> length is' = 1 | None \<Rightarrow> False))
          in if ok
             then s1\<lparr>tr_ticked := [], tr_deleting := (if is_deletion r then None else tr_deleting s1)\<rparr>
             else s1\<lparr>tr_notices := tr_notices s1 @
                       [if \<not> is_deletion r then Update_failed
                        else if one then Delete_one_failed else Delete_many_failed]\<rparr>)"

datatype triage_event =
    Ticked "triage_issue list"
  | Row_chosen triage_issue row_effect
  | Bulk_chosen row_effect
  | Confirm_pressed
  | Cancel_pressed
  | Dialog_dismissed
  | Triage_answered nat bool

definition triage_step :: "member list \<Rightarrow> int \<Rightarrow> bool \<Rightarrow> bool \<Rightarrow> triage \<Rightarrow> triage_event \<Rightarrow> triage" where
  "triage_step members me canUpdate canDelete s e =
     (case e of
        Ticked issues \<Rightarrow> if canUpdate \<or> canDelete then s\<lparr>tr_ticked := issues\<rparr> else s
      | Row_chosen issue eff \<Rightarrow>
          if eff \<in> set (effects (rowMenu members me canUpdate canDelete issue)) then choose_effect [issue] eff s else s
      | Bulk_chosen eff \<Rightarrow>
          if tr_ticked s \<noteq> [] \<and> \<not> triage_pending s \<and> eff \<in> set (effects (bulkMenu members me canUpdate canDelete))
          then choose_effect (tr_ticked s) eff s else s
      | Confirm_pressed \<Rightarrow> if tr_deleting s \<noteq> None \<and> \<not> triage_pending s then confirmDelete s else s
      | Cancel_pressed \<Rightarrow> if triage_pending s then s else s\<lparr>tr_deleting := None\<rparr>
      | Dialog_dismissed \<Rightarrow> s\<lparr>tr_deleting := None\<rparr>
      | Triage_answered n ok \<Rightarrow> triage_answered n ok s)"

definition triage_run :: "member list \<Rightarrow> int \<Rightarrow> bool \<Rightarrow> bool \<Rightarrow> triage_event list \<Rightarrow> triage" where
  "triage_run members me canUpdate canDelete es = foldl (triage_step members me canUpdate canDelete) triage_first es"

section \<open>Nothing is sent that is not allowed\<close>

fun change_ok :: "member list \<Rightarrow> int \<Rightarrow> change \<Rightarrow> bool" where
  "change_ok members me (Ch_status st) = (st \<in> {''resolved'', ''unresolved'', ''ignored''})"
| "change_ok members me (Ch_priority p) = (p \<in> set PRIORITIES)"
| "change_ok members me (Ch_assigned a) = (case a of None \<Rightarrow> True | Some i \<Rightarrow> i = me \<or> i \<in> set (map mb_id members))"

fun effect_ok :: "member list \<Rightarrow> int \<Rightarrow> bool \<Rightarrow> bool \<Rightarrow> row_effect \<Rightarrow> bool" where
  "effect_ok members me canUpdate canDelete (Apply ch) = (canUpdate \<and> change_ok members me ch)"
| "effect_ok members me canUpdate canDelete Ask_delete = canDelete"
| "effect_ok members me canUpdate canDelete Copy_id = True"

fun triage_request_ok :: "member list \<Rightarrow> int \<Rightarrow> bool \<Rightarrow> bool \<Rightarrow> triage_request \<Rightarrow> bool" where
  "triage_request_ok members me canUpdate canDelete (Bulk_update ids ch) =
     (canUpdate \<and> ids \<noteq> [] \<and> change_ok members me ch \<and> (case ch of Ch_assigned _ \<Rightarrow> False | _ \<Rightarrow> True))"
| "triage_request_ok members me canUpdate canDelete (Assign_each ids a) = (canUpdate \<and> ids \<noteq> [] \<and> change_ok members me (Ch_assigned a))"
| "triage_request_ok members me canUpdate canDelete (Delete_one _) = canDelete"
| "triage_request_ok members me canUpdate canDelete (Bulk_delete ids) = (canDelete \<and> 2 \<le> length ids)"

lemma priority_effects: "set (effects (priorityItems c)) = (\<lambda>p. Apply (Ch_priority p)) ` set PRIORITIES"
  by (auto simp: effects_def priorityItems_def)

lemma assign_effects:
  assumes "e \<in> set (effects (assignItems members me c))"
  shows "\<exists>a. e = Apply (Ch_assigned a) \<and> change_ok members me (Ch_assigned a)"
proof -
  consider "e = Apply (Ch_assigned (Some me))" | "e = Apply (Ch_assigned None)"
    | index m where "(index, m) \<in> set (enumerate 0 (filter (\<lambda>m. mb_id m \<noteq> me) members))" "e = Apply (Ch_assigned (Some (mb_id m)))"
    using assms by (auto simp: effects_def assignItems_def split: if_splits)
  then show ?thesis
  proof cases
    case (3 index m)
    then have "m \<in> set (filter (\<lambda>m. mb_id m \<noteq> me) members)" by (metis enumerate_eq_zip set_zip_rightD)
    then show ?thesis using 3 by auto
  qed auto
qed

lemma effects_simps:
  "effects [] = []" "effects (m # ms) = menu_effects m @ effects ms" "effects (xs @ ys) = effects xs @ effects ys"
  by (simp_all add: effects_def)

lemma menu_effects_sub: "menu_effects (Menu_sub i sp es) = effects es"
  by (simp add: effects_def)

lemma row_effects_ok: "e \<in> set (effects (rowMenu members me canUpdate canDelete issue)) \<Longrightarrow> effect_ok members me canUpdate canDelete e"
  by (auto dest!: assign_effects simp: rowMenu_def Let_def effects_simps menu_effects_sub priority_effects simp del: menu_effects.simps(2) split: if_splits)

lemma bulk_effects_ok: "e \<in> set (effects (bulkMenu members me canUpdate canDelete)) \<Longrightarrow> effect_ok members me canUpdate canDelete e"
  by (auto dest!: assign_effects simp: bulkMenu_def Let_def effects_simps menu_effects_sub priority_effects simp del: menu_effects.simps(2) split: if_splits)

definition triage_ok :: "member list \<Rightarrow> int \<Rightarrow> bool \<Rightarrow> bool \<Rightarrow> triage \<Rightarrow> bool" where
  "triage_ok members me canUpdate canDelete s \<longleftrightarrow>
     list_all (triage_request_ok members me canUpdate canDelete) (tr_requests s)
     \<and> (case tr_deleting s of None \<Rightarrow> True | Some is' \<Rightarrow> canDelete \<and> is' \<noteq> [])"

lemma choose_effect_ok:
  "triage_ok members me canUpdate canDelete s \<Longrightarrow> effect_ok members me canUpdate canDelete e \<Longrightarrow> issues \<noteq> [] \<Longrightarrow>
   triage_ok members me canUpdate canDelete (choose_effect issues e s)"
  by (cases e) (auto simp: triage_ok_def choose_effect_def apply_change_def send_triage_def split: change.splits option.splits list.splits)

lemma confirmDelete_ok:
  "triage_ok members me canUpdate canDelete s \<Longrightarrow> triage_ok members me canUpdate canDelete (confirmDelete s)"
  by (auto simp: triage_ok_def confirmDelete_def send_triage_def Suc_le_eq split: option.splits list.splits)

lemma triage_answered_ok:
  "triage_ok members me canUpdate canDelete s \<Longrightarrow> triage_ok members me canUpdate canDelete (triage_answered n ok s)"
  by (auto simp: triage_ok_def triage_answered_def Let_def split: option.splits)

lemma triage_step_ok:
  "triage_ok members me canUpdate canDelete s \<Longrightarrow> triage_ok members me canUpdate canDelete (triage_step members me canUpdate canDelete s e)"
  by (cases e)
    (auto simp: triage_step_def choose_effect_ok confirmDelete_ok triage_answered_ok row_effects_ok bulk_effects_ok,
     auto simp: triage_ok_def)

lemma triage_run_ok: "triage_ok members me canUpdate canDelete (triage_run members me canUpdate canDelete es)"
proof (induction es rule: rev_induct)
  case Nil
  show ?case by (simp add: triage_run_def triage_first_def triage_ok_def)
next
  case (snoc e es)
  then show ?case by (simp add: triage_run_def triage_step_ok)
qed

text \<open>What a step can send, and why.\<close>

definition step_sends :: "triage \<Rightarrow> triage_event \<Rightarrow> triage_request list" where
  "step_sends s e =
     (case e of
        Row_chosen issue (Apply (Ch_assigned a)) \<Rightarrow> [Assign_each [ti_id issue] a]
      | Row_chosen issue (Apply ch) \<Rightarrow> [Bulk_update [ti_id issue] ch]
      | Bulk_chosen (Apply (Ch_assigned a)) \<Rightarrow> [Assign_each (map ti_id (tr_ticked s)) a]
      | Bulk_chosen (Apply ch) \<Rightarrow> [Bulk_update (map ti_id (tr_ticked s)) ch]
      | Confirm_pressed \<Rightarrow>
          (case tr_deleting s of None \<Rightarrow> [] | Some [i] \<Rightarrow> [Delete_one (ti_id i)] | Some is' \<Rightarrow> [Bulk_delete (map ti_id is')])
      | _ \<Rightarrow> [])"

lemma triage_step_sends:
  "drop (length (tr_requests s)) (tr_requests (triage_step members me canUpdate canDelete s e)) \<in> {[], step_sends s e}
   \<and> take (length (tr_requests s)) (tr_requests (triage_step members me canUpdate canDelete s e)) = tr_requests s"
  by (cases e)
    (auto simp: triage_step_def step_sends_def choose_effect_def apply_change_def send_triage_def confirmDelete_def
      triage_answered_def Let_def split: row_effect.splits change.splits option.splits list.splits)

text \<open>
  C18: however issues are ticked, menus used, deletions confirmed or dismissed and requests answered, the
  list asks the server only for what the reader may do: it changes issues only with the right to update,
  to a status, a priority or a person there is, never no issue at all; and it deletes exactly the issues
  whose deletion was being confirmed, only when the confirmation is pressed, with the right to delete.
\<close>

theorem triage_sends_what_was_chosen:
  "let s = triage_run members me canUpdate canDelete es; s' = triage_step members me canUpdate canDelete s e;
       sent = drop (length (tr_requests s)) (tr_requests s')
   in list_all (triage_request_ok members me canUpdate canDelete) (tr_requests s')
      \<and> sent \<in> {[], step_sends s e} \<and> tr_requests s' = tr_requests s @ sent
      \<and> (if list_ex is_deletion sent then e = Confirm_pressed \<and> canDelete \<and> \<not> triage_pending s else True)"
proof -
  define s where "s = triage_run members me canUpdate canDelete es"
  define s' where "s' = triage_step members me canUpdate canDelete s e"
  define sent where "sent = drop (length (tr_requests s)) (tr_requests s')"
  have ok: "triage_ok members me canUpdate canDelete s" by (simp add: s_def triage_run_ok)
  have sends: "sent \<in> {[], step_sends s e}" "take (length (tr_requests s)) (tr_requests s') = tr_requests s"
    using triage_step_sends [of s members me canUpdate canDelete e] by (simp_all add: sent_def s'_def)
  have app: "tr_requests s' = tr_requests s @ sent"
    using sends(2) unfolding sent_def by (metis append_take_drop_id)
  have all: "list_all (triage_request_ok members me canUpdate canDelete) (tr_requests s')"
    using triage_step_ok [OF ok, of e] by (simp add: s'_def triage_ok_def)
  have del: "e = Confirm_pressed \<and> canDelete \<and> \<not> triage_pending s" if d: "list_ex is_deletion sent"
  proof -
    have "sent = step_sends s e" using that sends(1) by auto
    then have e: "e = Confirm_pressed" using that
      by (auto simp: step_sends_def is_deletion_def split: triage_event.splits row_effect.splits change.splits)
    have "sent \<noteq> []" using that by auto
    then have "\<not> triage_pending s"
      by (auto simp: e sent_def s'_def triage_step_def split: if_splits)
    moreover obtain r where r: "r \<in> set sent" "is_deletion r" using d by (auto simp: list_ex_iff)
    then have "triage_request_ok members me canUpdate canDelete r" using all by (simp add: app list_all_iff)
    then have "canDelete" using r(2) by (cases r) (simp_all add: is_deletion_def)
    ultimately show ?thesis using e by simp
  qed
  show ?thesis unfolding Let_def s_def [symmetric] s'_def [symmetric] sent_def [symmetric]
    using all sends(1) app del by simp
qed

text \<open>
  A deletion that succeeds after its dialog was dismissed closes the dialog that is open by then.
\<close>

lemma old_success_closes_new_dialog:
  "let issue = (\<lambda>i. \<lparr>ti_id = i, ti_short = i, ti_status = None, ti_substatus = None, ti_priority = None, ti_assigned = None,
                     ti_level = None, ti_first_seen = []\<rparr>);
       run = triage_run [] 1 True True
   in tr_deleting (run [Row_chosen (issue ''a'') Ask_delete, Confirm_pressed, Dialog_dismissed, Row_chosen (issue ''b'') Ask_delete])
        = Some [issue ''b'']
      \<and> tr_deleting (run [Row_chosen (issue ''a'') Ask_delete, Confirm_pressed, Dialog_dismissed, Row_chosen (issue ''b'') Ask_delete,
          Triage_answered 0 True]) = None"
  by code_simp

section \<open>The log of an issue\<close>

record activity_entry =
  ae_id :: string
  ae_type :: string
  ae_data :: string
  ae_created :: string

definition parseData :: "string \<Rightarrow> jv" where
  "parseData data = (case json_parse data of Some v \<Rightarrow> if is_object v then v else JObj [] | None \<Rightarrow> JObj [])"

definition noteText :: "activity_entry \<Rightarrow> string" where
  "noteText entry = (case pget ''text'' (parseData (ae_data entry)) of JStr s \<Rightarrow> s | _ \<Rightarrow> ae_data entry)"

definition or_nullish :: "jv \<Rightarrow> jv \<Rightarrow> jv" where
  "or_nullish a b = (if a = JUndef \<or> a = JNull then b else a)"

definition githubSource :: "activity_entry \<Rightarrow> (string \<times> string) option" where
  "githubSource entry =
     (let d = parseData (ae_data entry); commit = pget ''commit'' d
      in if pget ''source'' d \<noteq> JStr ''github'' then None
         else Some (js_str (or_nullish (or_nullish (pget ''author'' commit) (pget ''author'' d)) (JStr [])),
                    js_str (or_nullish (or_nullish (pget ''url'' commit) (pget ''url'' d)) (JStr []))))"

definition describeStatus :: "jv \<Rightarrow> (string \<Rightarrow> (string \<times> string) list \<Rightarrow> string) \<Rightarrow> string" where
  "describeStatus d t =
     (let status = (case pget ''status'' d of JStr s \<Rightarrow> s | _ \<Rightarrow> []); commit = pget ''commit'' d
      in if truthy commit
         then t ''activity.resolvedByCommit'' [(''sha'', take 7 (js_str (or_nullish (pget ''sha'' commit) (JStr []))))]
         else if pget ''source'' d = JStr ''github''
         then (if status = ''resolved'' then t ''activity.closedOnGitHub'' [] else t ''activity.reopenedOnGitHub'' [])
         else if status = ''resolved'' then t ''activity.statusResolved'' []
         else if status = ''unresolved'' then t ''activity.statusReopened'' []
         else if status = ''ignored'' then t ''activity.statusMuted'' []
         else t ''activity.statusChanged'' [(''status'', status)])"

definition describeGitHubLink :: "jv \<Rightarrow> (string \<Rightarrow> (string \<times> string) list \<Rightarrow> string) \<Rightarrow> string" where
  "describeGitHubLink d t =
     (let ref = js_str (or_nullish (pget ''repo'' d) (JStr [])) @ ''#'' @ js_str (or_nullish (pget ''number'' d) (JStr []))
      in if pget ''action'' d = JStr ''created'' then t ''activity.githubCreated'' [(''ref'', ref)]
         else if pget ''action'' d = JStr ''unlinked'' then t ''activity.githubUnlinked'' [(''ref'', ref)]
         else t ''activity.githubLinked'' [(''ref'', ref)])"

definition describe_entry :: "string \<Rightarrow> activity_entry \<Rightarrow> (string \<Rightarrow> (string \<times> string) list \<Rightarrow> string) \<Rightarrow> string" where
  "describe_entry dash entry t =
     (let d = parseData (ae_data entry)
      in if ae_type entry = ''set_status'' then describeStatus d t
         else if ae_type entry = ''github_link'' then describeGitHubLink d t
         else if ae_type entry = ''set_priority''
         then t ''activity.priorityChanged'' [(''priority'', js_str (or_nullish (pget ''priority'' d) (JStr dash)))]
         else if ae_type entry = ''set_regression'' then t ''activity.regression'' []
         else if ae_type entry = ''first_seen'' then t ''activity.firstSeen'' []
         else replace_char (CHR ''_'') '' '' (ae_type entry))"

definition activity_entries :: "(string \<Rightarrow> int) \<Rightarrow> activity_entry list \<Rightarrow> activity_entry list" where
  "activity_entries time activity = sort_by (\<lambda>a b. time (ae_created b) \<le> time (ae_created a)) activity"

definition isNote :: "activity_entry \<Rightarrow> bool" where
  "isNote entry \<longleftrightarrow> ae_type entry = ''note'' \<or> ae_type entry = ''comment''"

lemma activity_newest_first:
  "mset (activity_entries time activity) = mset activity
   \<and> sorted_wrt (\<lambda>a b. time (ae_created b) \<le> time (ae_created a)) (activity_entries time activity)"
  unfolding activity_entries_def by (intro conjI mset_sort_by sorted_sort_by) auto

text \<open>A note is read back as it was written, as an object of its text or, from older servers, bare.\<close>

lemma note_is_read_back:
  "ae_data entry = json_text (JObj [(''text'', JStr s)]) \<Longrightarrow> noteText entry = s"
  "json_parse (ae_data entry) = None \<Longrightarrow> noteText entry = ae_data entry"
  using json_roundtrip [of "JObj [(''text'', JStr s)]"] by (simp_all add: noteText_def parseData_def is_object_def pget_def)

section \<open>The comment box\<close>

record comment_box =
  cm_text :: string
  cm_flight :: "string option"
  cm_sent :: "string list"
  cm_failures :: nat

datatype comment_event = Comment_typed string | Comment_submitted | Comment_answered bool

definition comment_step :: "bool \<Rightarrow> comment_box \<Rightarrow> comment_event \<Rightarrow> comment_box" where
  "comment_step canComment s e =
     (if \<not> canComment then s
      else case e of
        Comment_typed t \<Rightarrow> if cm_flight s = None then s\<lparr>cm_text := t\<rparr> else s
      | Comment_submitted \<Rightarrow>
          if cm_flight s = None \<and> trim (cm_text s) \<noteq> []
          then s\<lparr>cm_flight := Some (trim (cm_text s)), cm_sent := cm_sent s @ [trim (cm_text s)]\<rparr> else s
      | Comment_answered ok \<Rightarrow>
          if cm_flight s = None then s
          else if ok then s\<lparr>cm_flight := None, cm_text := []\<rparr>
          else s\<lparr>cm_flight := None, cm_failures := cm_failures s + 1\<rparr>)"

definition comment_run :: "bool \<Rightarrow> comment_event list \<Rightarrow> comment_box" where
  "comment_run canComment es =
     foldl (comment_step canComment) \<lparr>cm_text = [], cm_flight = None, cm_sent = [], cm_failures = 0\<rparr> es"

text \<open>
  What is being sent is what the box says until the answer is in, so nothing typed is lost by a failure.
\<close>

lemma comment_is_kept:
  "list_all (\<lambda>c. c \<noteq> [] \<and> trim c = c) (cm_sent (comment_run canComment es))
   \<and> (case cm_flight (comment_run canComment es) of None \<Rightarrow> True | Some c \<Rightarrow> c = trim (cm_text (comment_run canComment es)))"
proof (induction es rule: rev_induct)
  case Nil
  show ?case by (simp add: comment_run_def)
next
  case (snoc e es)
  then show ?case by (cases e) (auto simp: comment_run_def comment_step_def split: option.splits)
qed

end
