(* ===== verification/StorageDelete.thy ===== *)
theory StorageDelete
  imports StorageJobs
begin

text \<open>
  Deleting data now, \<open>features/storage/ui/components/delete-dialog.tsx\<close>: the choices, what they would
  delete as far as it is counted, and the two requests of a deletion, one after the other. The counts
  are the query cache's, given to each event; the translator is a parameter.
\<close>

section \<open>What goes\<close>

definition OLDER_THAN :: "int list" where "OLDER_THAN = [1, 7, 14, 30, 90, 180, 365]"

definition ALL_PROJECTS :: string where "ALL_PROJECTS = ''all''"

record cleanup_request =
  cq_days :: int
  cq_project :: "jsnum option"
  cq_events :: bool
  cq_transactions :: bool
  cq_logs :: bool

record gc_result =
  gc_files :: int
  gc_bytes :: int

record what_goes =
  wg_maps :: int
  wg_rows :: int
  wg_parts :: "string list"
  wg_size :: "string option"

definition whatGoes ::
  "cleanup_counts impact \<Rightarrow> gc_result option \<Rightarrow> project_storage list option \<Rightarrow> (string \<Rightarrow> int \<Rightarrow> string) \<Rightarrow> what_goes" where
  "whatGoes counts unused projects t =
     (let known = (case counts of Ready c \<Rightarrow> Some c | _ \<Rightarrow> None);
          maps = (case unused of Some u \<Rightarrow> gc_files u | None \<Rightarrow> 0);
          freed = (case unused of Some u \<Rightarrow> gc_bytes u | None \<Rightarrow> 0)
      in case known of
        None \<Rightarrow> \<lparr>wg_maps = maps, wg_rows = 0, wg_parts = [], wg_size = Some (formatBytes freed)\<rparr>
      | Some c \<Rightarrow>
          \<lparr>wg_maps = maps, wg_rows = sum_list (map (count_of c) KINDS),
           wg_parts = removedParts (c\<lparr>cc_maps := maps\<rparr>) t, wg_size = estimateSize c projects freed\<rparr>)"

definition joined :: "string list \<Rightarrow> string" where
  "joined states =
     (if ''failed'' \<in> set states then ''failed''
      else if ''counting'' \<in> set states then ''counting'' else ''ready'')"

section \<open>The dialog\<close>

datatype delete_request = Del_gc | Del_cleanup cleanup_request

datatype delete_phase =
    Del_idle
  | Del_gc_flight what_goes cleanup_request
  | Del_cleanup_flight

datatype delete_notice =
    Said_removed "string list"
  | Said_gc_failed
  | Said_cleanup_failed bool  \<comment> \<open>because one is running already?\<close>

record delete_dialog =
  dl_open :: bool
  dl_kinds :: "kind list"
  dl_maps :: bool
  dl_days :: int
  dl_project :: string
  dl_phase :: delete_phase
  dl_requests :: "delete_request list"
  dl_notices :: "delete_notice list"
  dl_started :: nat

definition open_delete :: "delete_dialog \<Rightarrow> delete_dialog" where
  "open_delete s =
     s\<lparr>dl_open := True, dl_kinds := KINDS, dl_maps := True, dl_days := 90, dl_project := ALL_PROJECTS\<rparr>"

definition delete_first :: delete_dialog where
  "delete_first =
     \<lparr>dl_open = False, dl_kinds = KINDS, dl_maps = True, dl_days = 90, dl_project = ALL_PROJECTS, dl_phase = Del_idle,
      dl_requests = [], dl_notices = [], dl_started = 0\<rparr>"

definition delete_pending :: "delete_dialog \<Rightarrow> bool" where
  "delete_pending s \<longleftrightarrow> dl_phase s \<noteq> Del_idle"

definition delete_options :: "delete_dialog \<Rightarrow> cleanup_request" where
  "delete_options s =
     \<lparr>cq_days = dl_days s, cq_project = (if dl_project s = ALL_PROJECTS then None else Some (js_Number (dl_project s))),
      cq_events = (Events \<in> set (dl_kinds s)), cq_transactions = (Transactions \<in> set (dl_kinds s)),
      cq_logs = (Logs \<in> set (dl_kinds s))\<rparr>"

text \<open>What is read of the cache at a render: the counts by their request, the unused source maps, the projects.\<close>

record delete_reads =
  dr_counts :: "cleanup_request \<Rightarrow> cleanup_counts impact"
  dr_unused :: "gc_result impact"
  dr_projects :: "project_storage list option"

definition useDeletion :: "(string \<Rightarrow> int \<Rightarrow> string) \<Rightarrow> delete_reads \<Rightarrow> delete_dialog \<Rightarrow> what_goes \<times> string" where
  "useDeletion t rd s =
     (let counts = dr_counts rd (delete_options s);
          unused = (case dr_unused rd of Ready u \<Rightarrow> if dl_maps s then Some u else None | _ \<Rightarrow> None)
      in (whatGoes counts unused (dr_projects rd) t,
          joined [if dl_kinds s \<noteq> [] then impactState counts else ''ready'',
                  if dl_maps s then impactState (dr_unused rd) else ''ready'']))"

definition nothingChosen :: "delete_dialog \<Rightarrow> bool" where
  "nothingChosen s \<longleftrightarrow> dl_kinds s = [] \<and> \<not> dl_maps s"

definition delete_enabled :: "(string \<Rightarrow> int \<Rightarrow> string) \<Rightarrow> delete_reads \<Rightarrow> delete_dialog \<Rightarrow> bool" where
  "delete_enabled t rd s =
     (let (goes, state) = useDeletion t rd s
      in state = ''ready'' \<and> \<not> (wg_rows goes = 0 \<and> wg_maps goes = 0) \<and> \<not> delete_pending s)"

text \<open>The line above the button: \<open>None\<close> is that nothing goes.\<close>

datatype impact_line = Line_failed | Line_counting | Line_goes "string list" "string option" | Line_nothing | Line_pick_one

definition impact_line_of :: "(string \<Rightarrow> int \<Rightarrow> string) \<Rightarrow> delete_reads \<Rightarrow> delete_dialog \<Rightarrow> impact_line" where
  "impact_line_of t rd s =
     (let (goes, state) = useDeletion t rd s; shown = (if nothingChosen s then ''ready'' else state)
      in if shown = ''failed'' then Line_failed
         else if shown = ''counting'' then Line_counting
         else if \<not> nothingChosen s \<and> wg_parts goes \<noteq> [] then Line_goes (wg_parts goes) (wg_size goes)
         else if nothingChosen s then Line_pick_one else Line_nothing)"

definition delete_finish :: "what_goes \<Rightarrow> cleanup_request \<Rightarrow> delete_dialog \<Rightarrow> delete_dialog" where
  "delete_finish chosen options s =
     (if wg_rows chosen = 0
      then s\<lparr>dl_notices := dl_notices s @ [Said_removed (wg_parts chosen)], dl_open := False, dl_phase := Del_idle\<rparr>
      else s\<lparr>dl_requests := dl_requests s @ [Del_cleanup options], dl_phase := Del_cleanup_flight\<rparr>)"

definition deleteNow :: "what_goes \<Rightarrow> delete_dialog \<Rightarrow> delete_dialog" where
  "deleteNow chosen s =
     (if wg_maps chosen > 0
      then s\<lparr>dl_requests := dl_requests s @ [Del_gc], dl_phase := Del_gc_flight chosen (delete_options s)\<rparr>
      else delete_finish chosen (delete_options s) s)"

datatype cleanup_answer = Cleanup_started | Cleanup_refused error_kind | Cleanup_threw

datatype delete_event =
    Del_opened
  | Del_closed
  | Del_kind kind bool
  | Del_maps bool
  | Del_days int
  | Del_project string
  | Del_pressed delete_reads
  | Gc_answered bool
  | Cleanup_answered cleanup_answer

definition delete_step :: "(string \<Rightarrow> int \<Rightarrow> string) \<Rightarrow> delete_dialog \<Rightarrow> delete_event \<Rightarrow> delete_dialog" where
  "delete_step t s e =
     (let free = (dl_open s \<and> \<not> delete_pending s)
      in case e of
        Del_opened \<Rightarrow> if \<not> dl_open s \<and> \<not> delete_pending s then open_delete s else s
      | Del_closed \<Rightarrow> if free then s\<lparr>dl_open := False\<rparr> else s
      | Del_kind k checked \<Rightarrow>
          if free \<and> (k \<in> set (dl_kinds s)) \<noteq> checked
          then s\<lparr>dl_kinds := (if checked then dl_kinds s @ [k] else filter (\<lambda>j. j \<noteq> k) (dl_kinds s))\<rparr> else s
      | Del_maps checked \<Rightarrow> if free then s\<lparr>dl_maps := checked\<rparr> else s
      | Del_days d \<Rightarrow> if free \<and> d \<in> set OLDER_THAN then s\<lparr>dl_days := d\<rparr> else s
      | Del_project p \<Rightarrow> if free then s\<lparr>dl_project := p\<rparr> else s
      | Del_pressed rd \<Rightarrow> if free \<and> delete_enabled t rd s then deleteNow (fst (useDeletion t rd s)) s else s
      | Gc_answered ok \<Rightarrow>
          (case dl_phase s of
             Del_gc_flight chosen options \<Rightarrow>
               if ok then delete_finish chosen options s
               else s\<lparr>dl_notices := dl_notices s @ [Said_gc_failed], dl_phase := Del_idle\<rparr>
           | _ \<Rightarrow> s)
      | Cleanup_answered a \<Rightarrow>
          (case dl_phase s of
             Del_cleanup_flight \<Rightarrow>
               (case a of
                  Cleanup_started \<Rightarrow> s\<lparr>dl_started := dl_started s + 1, dl_open := False, dl_phase := Del_idle\<rparr>
                | Cleanup_refused k \<Rightarrow>
                    s\<lparr>dl_notices := dl_notices s @ [Said_cleanup_failed (k = K_conflict)], dl_phase := Del_idle\<rparr>
                | Cleanup_threw \<Rightarrow> s\<lparr>dl_phase := Del_idle\<rparr>)
           | _ \<Rightarrow> s))"

definition delete_run :: "(string \<Rightarrow> int \<Rightarrow> string) \<Rightarrow> delete_event list \<Rightarrow> delete_dialog" where
  "delete_run t es = foldl (delete_step t) delete_first es"

section \<open>Only what was counted goes\<close>

lemma joined_ready: "joined [a, b] = ''ready'' \<Longrightarrow> a \<in> {''ready'', ''counting'', ''failed''} \<Longrightarrow> b \<in> {''ready'', ''counting'', ''failed''} \<Longrightarrow>
  a = ''ready'' \<and> b = ''ready''"
  by (auto simp: joined_def)

lemma impactState_values: "impactState i \<in> {''ready'', ''counting'', ''failed''}"
  by (simp add: impactState_def split: impact.splits)

lemma impactState_ready: "impactState i = ''ready'' \<longleftrightarrow> (\<exists>x. i = Ready x)"
  by (simp add: impactState_def split: impact.splits)

definition counted_by :: "delete_event \<Rightarrow> delete_request \<Rightarrow> bool" where
  "counted_by e r \<longleftrightarrow>
     (case e of
        Del_pressed rd \<Rightarrow>
          (case r of
             Del_gc \<Rightarrow> (case dr_unused rd of Ready u \<Rightarrow> gc_files u > 0 | _ \<Rightarrow> False)
           | Del_cleanup o' \<Rightarrow> (case dr_counts rd o' of Ready c \<Rightarrow> sum_list (map (count_of c) KINDS) \<noteq> 0 | _ \<Rightarrow> False))
      | _ \<Rightarrow> False)"

definition was_counted :: "delete_event list \<Rightarrow> delete_request \<Rightarrow> bool" where
  "was_counted es r \<longleftrightarrow> list_ex (\<lambda>e. counted_by e r) es"

lemma was_counted_snoc: "was_counted es r \<Longrightarrow> was_counted (es @ [e]) r"
  by (simp add: was_counted_def)

lemma was_counted_last: "counted_by e r \<Longrightarrow> was_counted (es @ [e]) r"
  by (simp add: was_counted_def)

definition delete_ok :: "delete_event list \<Rightarrow> delete_dialog \<Rightarrow> bool" where
  "delete_ok es s \<longleftrightarrow>
     list_all (was_counted es) (dl_requests s)
     \<and> (delete_pending s \<longrightarrow> dl_open s)
     \<and> (case dl_phase s of
          Del_gc_flight chosen options \<Rightarrow> (if wg_rows chosen = 0 then True else was_counted es (Del_cleanup options))
        | _ \<Rightarrow> True)
     \<and> dl_started s \<le> length (filter (\<lambda>r. r \<noteq> Del_gc) (dl_requests s)) - (if dl_phase s = Del_cleanup_flight then 1 else 0)
     \<and> (dl_phase s = Del_cleanup_flight \<longrightarrow> filter (\<lambda>r. r \<noteq> Del_gc) (dl_requests s) \<noteq> [])"

lemma delete_ok_snoc: "delete_ok es s \<Longrightarrow> delete_ok (es @ [e]) s"
  by (auto simp: delete_ok_def list_all_iff was_counted_snoc split: delete_phase.splits if_splits)

lemma rows_counted: "wg_rows (fst (useDeletion t rd s)) \<noteq> 0 \<Longrightarrow> counted_by (Del_pressed rd) (Del_cleanup (delete_options s))"
  by (auto simp: useDeletion_def whatGoes_def counted_by_def Let_def split: impact.splits option.splits)

lemma maps_counted: "wg_maps (fst (useDeletion t rd s)) > 0 \<Longrightarrow> counted_by (Del_pressed rd) Del_gc"
  by (auto simp: useDeletion_def whatGoes_def counted_by_def Let_def split: impact.splits option.splits if_splits)

lemma delete_finish_ok:
  assumes "delete_ok es s" "dl_phase s \<noteq> Del_cleanup_flight" "dl_open s"
    "wg_rows chosen \<noteq> 0 \<Longrightarrow> was_counted es (Del_cleanup options)"
  shows "delete_ok es (delete_finish chosen options s)"
  using assms by (auto simp: delete_ok_def delete_finish_def delete_pending_def split: delete_phase.splits)

lemma delete_press_ok:
  assumes "delete_ok es s" "\<not> delete_pending s" "dl_open s"
  shows "delete_ok (es @ [Del_pressed rd]) (deleteNow (fst (useDeletion t rd s)) s)"
proof (cases "wg_maps (fst (useDeletion t rd s)) > 0")
  case True
  then show ?thesis
    using delete_ok_snoc [OF assms(1)] assms(2,3) was_counted_last [OF maps_counted [OF True]] was_counted_last [OF rows_counted]
    by (auto simp: deleteNow_def delete_ok_def delete_pending_def)
next
  case False
  have "delete_ok (es @ [Del_pressed rd]) (delete_finish (fst (useDeletion t rd s)) (delete_options s) s)"
    by (rule delete_finish_ok [OF delete_ok_snoc [OF assms(1)]])
      (use assms(2,3) was_counted_last [OF rows_counted] in \<open>auto simp: delete_pending_def\<close>)
  then show ?thesis using False by (simp add: deleteNow_def)
qed

lemma delete_kept: "delete_ok es s \<Longrightarrow> \<not> delete_pending s \<Longrightarrow>
  delete_ok es (s\<lparr>dl_kinds := ks\<rparr>) \<and> delete_ok es (s\<lparr>dl_maps := m\<rparr>) \<and> delete_ok es (s\<lparr>dl_days := d\<rparr>)
  \<and> delete_ok es (s\<lparr>dl_project := p\<rparr>) \<and> delete_ok es (s\<lparr>dl_open := op'\<rparr>) \<and> delete_ok es (open_delete s)"
  by (simp add: delete_ok_def delete_pending_def open_delete_def)

lemma delete_gc_ok:
  assumes "delete_ok es s"
  shows "delete_ok (es @ [Gc_answered ok]) (delete_step t s (Gc_answered ok))"
proof (cases "dl_phase s")
  case (Del_gc_flight chosen options)
  then have op: "dl_open s" and c: "wg_rows chosen \<noteq> 0 \<Longrightarrow> was_counted (es @ [Gc_answered ok]) (Del_cleanup options)"
    using delete_ok_snoc [OF assms, of "Gc_answered ok"] by (simp_all add: delete_ok_def delete_pending_def)
  have "delete_ok (es @ [Gc_answered ok]) (delete_finish chosen options s)"
    by (rule delete_finish_ok [OF delete_ok_snoc [OF assms]]) (use Del_gc_flight op c in simp_all)
  then show ?thesis using Del_gc_flight delete_ok_snoc [OF assms, of "Gc_answered ok"]
    by (cases ok) (simp add: delete_step_def, simp add: delete_step_def delete_ok_def delete_pending_def)
qed (use delete_ok_snoc [OF assms] in \<open>simp_all add: delete_step_def\<close>)

lemma delete_cleanup_ok:
  assumes "delete_ok es s"
  shows "delete_ok (es @ [Cleanup_answered a]) (delete_step t s (Cleanup_answered a))"
proof (cases "dl_phase s")
  case Del_cleanup_flight
  have ok: "delete_ok (es @ [Cleanup_answered a]) s" using delete_ok_snoc [OF assms] .
  have "filter (\<lambda>r. r \<noteq> Del_gc) (dl_requests s) \<noteq> []"
    "dl_started s \<le> length (filter (\<lambda>r. r \<noteq> Del_gc) (dl_requests s)) - 1"
    using ok Del_cleanup_flight by (simp_all add: delete_ok_def)
  then have "dl_started s + 1 \<le> length (filter (\<lambda>r. r \<noteq> Del_gc) (dl_requests s))"
    by (cases "filter (\<lambda>r. r \<noteq> Del_gc) (dl_requests s)") simp_all
  then show ?thesis using ok Del_cleanup_flight
    by (cases a) (simp_all add: delete_step_def delete_ok_def delete_pending_def)
qed (use delete_ok_snoc [OF assms] in \<open>simp_all add: delete_step_def\<close>)

lemma delete_step_ok: "delete_ok es s \<Longrightarrow> delete_ok (es @ [e]) (delete_step t s e)"
proof (cases e)
  case (Del_pressed rd)
  assume "delete_ok es s"
  then show ?thesis using Del_pressed delete_press_ok [of es s rd t] delete_ok_snoc [of es s "Del_pressed rd"]
    by (simp add: delete_step_def)
qed (use delete_kept [OF delete_ok_snoc] delete_ok_snoc delete_gc_ok delete_cleanup_ok in \<open>auto simp: delete_step_def\<close>)

text \<open>
  C19: whatever is chosen, pressed and answered, in any order, everything this dialog asks the server to
  delete was counted first: source maps only when unused ones were, rows of a choice only when the count
  of that very choice was in and was not nothing; the dialog stays open while a request is under way, and
  it reports no more jobs started than it asked for.
\<close>

theorem deletions_were_counted:
  "let s = delete_run t es
   in list_all (was_counted es) (dl_requests s) \<and> (if delete_pending s then dl_open s else True)
      \<and> dl_started s \<le> length (filter (\<lambda>r. r \<noteq> Del_gc) (dl_requests s))"
proof -
  have "delete_ok es (delete_run t es)"
  proof (induction es rule: rev_induct)
    case Nil
    show ?case by (simp add: delete_run_def delete_first_def delete_ok_def delete_pending_def)
  next
    case (snoc e es)
    then show ?case using delete_step_ok [of es "delete_run t es" e t] by (simp add: delete_run_def)
  qed
  then show ?thesis by (auto simp: Let_def delete_ok_def)
qed

lemma removedParts_Nil:
  "removedParts c t = [] \<longleftrightarrow> cc_events c \<le> 0 \<and> cc_transactions c \<le> 0 \<and> cc_spans c \<le> 0 \<and> cc_logs c \<le> 0
     \<and> cc_issues c \<le> 0 \<and> cc_maps c \<le> 0"
  by (auto simp: removedParts_def)

text \<open>With kinds chosen, a button that can be pressed stands under a line that says what goes.\<close>

lemma pressable_is_said:
  assumes "delete_enabled t rd s" "dl_kinds s \<noteq> []"
    "\<forall>c. dr_counts rd (delete_options s) = Ready c \<longrightarrow> (\<forall>k. 0 \<le> count_of c k)"
    "\<forall>u. dr_unused rd = Ready u \<longrightarrow> 0 \<le> gc_files u"
  shows "\<exists>parts size. impact_line_of t rd s = Line_goes parts size \<and> parts \<noteq> []"
proof -
  obtain goes where g: "useDeletion t rd s = (goes, ''ready'')" "wg_rows goes \<noteq> 0 \<or> wg_maps goes \<noteq> 0"
    using assms(1) by (auto simp: delete_enabled_def split: prod.splits)
  then have "joined [impactState (dr_counts rd (delete_options s)), if dl_maps s then impactState (dr_unused rd) else ''ready''] = ''ready''"
    using assms(2) by (simp add: useDeletion_def Let_def)
  then have "impactState (dr_counts rd (delete_options s)) = ''ready''"
    by (rule joined_ready [THEN conjunct1]) (use impactState_values in auto)
  then obtain c where c: "dr_counts rd (delete_options s) = Ready c" by (auto simp: impactState_ready)
  have nn: "0 \<le> cc_events c" "0 \<le> cc_transactions c" "0 \<le> cc_logs c"
    using assms(3) c by (metis count_of.simps)+
  have m: "0 \<le> wg_maps goes" using g(1) assms(4)
    by (auto simp: useDeletion_def whatGoes_def c Let_def split: impact.splits option.splits if_splits)
  have "wg_rows goes = cc_events c + cc_transactions c + cc_logs c"
    "wg_parts goes = removedParts (c\<lparr>cc_maps := wg_maps goes\<rparr>) t"
    using g(1) by (auto simp: useDeletion_def whatGoes_def c Let_def KINDS_def)
  then have "wg_parts goes \<noteq> []" using g(2) nn m by (auto simp: removedParts_Nil)
  then show ?thesis using g(1) assms(2) by (simp add: impact_line_of_def nothingChosen_def)
qed

text \<open>
  With only source maps chosen the rows need not be counted; then the line says that nothing goes, over
  a button that deletes.
\<close>

lemma unsaid_deletion:
  "let s = delete_step (\<lambda>_ _. []) (delete_step (\<lambda>_ _. []) (delete_step (\<lambda>_ _. []) (open_delete delete_first)
             (Del_kind Events False)) (Del_kind Transactions False)) (Del_kind Logs False);
       rd = \<lparr>dr_counts = (\<lambda>_. Counting), dr_unused = Ready \<lparr>gc_files = 3, gc_bytes = 2048\<rparr>, dr_projects = None\<rparr>
   in dl_kinds s = [] \<and> impact_line_of (\<lambda>_ _. []) rd s = Line_nothing \<and> delete_enabled (\<lambda>_ _. []) rd s
      \<and> dl_requests (delete_step (\<lambda>_ _. []) s (Del_pressed rd)) = [Del_gc]"
  by code_simp

end
