(* ===== verification/IssuesRoute.thy ===== *)
theory IssuesRoute
  imports IssueTable FilterQueryFacts Links
begin

text \<open>
  The address of the issue list, \<open>routes/_authenticated/projects/$id/issues/index.tsx\<close>: what its
  search is read as, written back as, and asked of the server, composed from the table's codecs
  (\<open>FilterQuery\<close>), the server's vocabulary (\<open>IssueTable\<close>) and the readers of parameters
  (\<open>SearchParams\<close>).
\<close>

section \<open>The search and the query\<close>

definition PAGE_SIZE :: int where
  "PAGE_SIZE = 50"

text \<open>\<open>view\<close> is left out of the address when it is the open one.\<close>

record issues_search =
  is_view :: "string option"
  is_q :: "string option"
  is_sort :: "string option"
  is_page :: "string option"
  is_per :: "string option"

definition tableQuery :: "issues_search \<Rightarrow> js_exn + table_query" where
  "tableQuery search =
     parseTableQuery
       (param_when ''q'' (is_q search) @ param_when ''sort'' (is_sort search) @ param_when ''page'' (is_page search)
         @ param_when ''per'' (is_per search))
       ISSUE_FILTER_VARIANTS PAGE_SIZE"

definition toSearch :: "table_query \<Rightarrow> string \<Rightarrow> js_exn + issues_search" where
  "toSearch query view =
     sbind (serializeTableQuery query ISSUE_FILTER_VARIANTS PAGE_SIZE) (\<lambda>params.
       Inr \<lparr>is_view = (if view = ''open'' then None else Some view), is_q = map_of params ''q'',
            is_sort = map_of params ''sort'', is_page = map_of params ''page'', is_per = map_of params ''per''\<rparr>)"

definition ISSUE_VIEWS :: "string list" where
  "ISSUE_VIEWS = [''open'', ''resolved'', ''muted'', ''all'']"

text \<open>The views by name; one that is none of them reads as the open one.\<close>

definition view_of :: "string \<Rightarrow> issue_view" where
  "view_of s = (if s = ''resolved'' then View_resolved else if s = ''muted'' then View_muted
                else if s = ''all'' then View_all else View_open)"

definition shown_view :: "issues_search \<Rightarrow> string" where
  "shown_view search = (case is_view search of None \<Rightarrow> ''open'' | Some v \<Rightarrow> v)"

text \<open>\<open>searchString(value == null ? undefined : String(value))\<close>\<close>

definition raw_param :: "jv \<Rightarrow> string option" where
  "raw_param v = searchString (if v = JUndef \<or> v = JNull then JUndef else JStr (js_str v))"

definition validateSearch :: "(string \<Rightarrow> jv) \<Rightarrow> js_exn + issues_search" where
  "validateSearch search =
     (let view = (case searchOneOf (search ''view'') ISSUE_VIEWS of
                    Some v \<Rightarrow> v
                  | None \<Rightarrow> (case searchOneOf (search ''filter'') ISSUE_VIEWS of Some v \<Rightarrow> v | None \<Rightarrow> ''open''))
      in sbind (tableQuery \<lparr>is_view = None, is_q = raw_param (search ''q''), is_sort = raw_param (search ''sort''),
                            is_page = raw_param (search ''page''), is_per = raw_param (search ''per'')\<rparr>) (\<lambda>query.
           sbind (withServerQuery query PAGE_SIZE) (\<lambda>clean. toSearch clean view)))"

text \<open>The request the page of an address makes.\<close>

definition issuesList :: "issues_search \<Rightarrow> js_exn + IssueTable.params" where
  "issuesList search = sbind (tableQuery search) (\<lambda>query. issueListParams query (view_of (shown_view search)))"

text \<open>A change of the table's query, applied to the address as it is when it lands.\<close>

definition setQuery :: "(table_query \<Rightarrow> table_query) \<Rightarrow> string option \<Rightarrow> issues_search \<Rightarrow> js_exn + issues_search" where
  "setQuery update nextView previous =
     sbind (tableQuery previous) (\<lambda>query.
       toSearch (update query) (case nextView of Some v \<Rightarrow> v | None \<Rightarrow> shown_view previous))"

text \<open>What the router hands \<open>validateSearch\<close> of an address that holds a search.\<close>

definition as_raw :: "issues_search \<Rightarrow> string \<Rightarrow> jv" where
  "as_raw s k =
     (let str = (\<lambda>v. case v of None \<Rightarrow> JUndef | Some x \<Rightarrow> JStr x)
      in if k = ''view'' then str (is_view s) else if k = ''q'' then str (is_q s)
         else if k = ''sort'' then str (is_sort s) else if k = ''page'' then str (is_page s)
         else if k = ''per'' then str (is_per s) else JUndef)"

section \<open>What the server is asked keeps what the table holds\<close>

lemma server_filter_wf:
  assumes "wf_filter ISSUE_FILTER_VARIANTS f"
  shows "\<exists>gs. server_filter f = Inr gs \<and> list_all (wf_filter ISSUE_FILTER_VARIANTS) gs
    \<and> list_all (\<lambda>g. server_filter g = Inr [g]) gs"
proof -
  have own: "fl_id f \<in> set (map fst ISSUE_FILTER_VARIANTS)"
    and good: "fl_id f \<in> {''firstSeen'', ''lastSeen''} \<Longrightarrow> good_options (fl_value f)"
    using assms by (auto simp: wf_filter_def obj_lookup_def ISSUE_FILTER_VARIANTS_def split: if_splits)
  show ?thesis
  proof (cases "fl_id f \<in> {''firstSeen'', ''lastSeen''}")
    case False
    then have "obj_lookup FIXED_VALUES (fl_id f) = Missing"
      using own by (auto simp: obj_lookup_def FIXED_VALUES_def ISSUE_FILTER_VARIANTS_def OBJECT_PROTOTYPE_def)
    then show ?thesis using assms by (simp add: server_filter_def)
  next
    case True
    then have w: "obj_lookup FIXED_VALUES (fl_id f) = Own SEEN_WINDOWS"
      and v: "obj_lookup ISSUE_FILTER_VARIANTS (fl_id f) = Own V_options"
      by (auto simp: obj_lookup_def FIXED_VALUES_def ISSUE_FILTER_VARIANTS_def)
    obtain vs where vs: "fl_value f = JArr vs" "list_all good_option vs"
      using good [OF True] by (cases "fl_value f") (auto simp: good_options_def)
    define kept where "kept = filter (\<lambda>v. js_str v \<in> set SEEN_WINDOWS) vs"
    have s: "server_filter f = Inr (if kept \<noteq> [] then [f\<lparr>fl_value := JArr kept\<rparr>] else [])"
      by (simp add: server_filter_def w vs kept_def Let_def)
    have "wf_filter ISSUE_FILTER_VARIANTS (f\<lparr>fl_value := JArr kept\<rparr>)" if "kept \<noteq> []"
      using assms that v vs(2)
      by (auto simp: wf_filter_def good_options_def kept_def list_all_iff)
    moreover have "server_filter (f\<lparr>fl_value := JArr kept\<rparr>) = Inr [f\<lparr>fl_value := JArr kept\<rparr>]" if "kept \<noteq> []"
      using that by (simp add: server_filter_def w Let_def) (simp add: kept_def)
    ultimately show ?thesis by (simp add: s)
  qed
qed

lemma server_filters_wf:
  assumes "list_all (wf_filter ISSUE_FILTER_VARIANTS) fs"
  shows "\<exists>gs. server_filters fs = Inr gs \<and> list_all (wf_filter ISSUE_FILTER_VARIANTS) gs \<and> server_filters gs = Inr gs"
  using assms
proof (induction fs)
  case (Cons f fs)
  obtain as where as: "server_filter f = Inr as" "list_all (wf_filter ISSUE_FILTER_VARIANTS) as"
      "list_all (\<lambda>g. server_filter g = Inr [g]) as"
    using server_filter_wf [of f] Cons.prems by auto
  obtain gs where gs: "server_filters fs = Inr gs" "list_all (wf_filter ISSUE_FILTER_VARIANTS) gs" "server_filters gs = Inr gs"
    using Cons by auto
  have "server_filters (as @ gs) = Inr (as @ gs)"
    using as(3) gs(3) by (induction as) auto
  then show ?case using as gs by simp
qed simp

lemma find_found: "List.find P xs = Some x \<Longrightarrow> List.find P [x] = Some x"
  by (induction xs) (auto split: if_splits)

lemma withServerQuery_wf:
  assumes "wf_query ISSUE_FILTER_VARIANTS q"
  shows "\<exists>c. withServerQuery q PAGE_SIZE = Inr c \<and> wf_query ISSUE_FILTER_VARIANTS c \<and> withServerQuery c PAGE_SIZE = Inr c
    \<and> tq_search c = tq_search q \<and> tq_pageIndex c = tq_pageIndex q"
proof -
  obtain gs where gs: "server_filters (tq_filters q) = Inr gs" "list_all (wf_filter ISSUE_FILTER_VARIANTS) gs"
      "server_filters gs = Inr gs"
    using server_filters_wf [of "tq_filters q"] assms by (auto simp: wf_query_def wf_filters_def)
  have d: "distinct (map fl_id gs)"
    using server_filters_ids [OF gs(1)] assms by (simp add: wf_query_def wf_filters_def)
  define so where "so = (case List.find (\<lambda>s. so_id s \<in> set (map fst SORTS)) (tq_sorting q) of Some s \<Rightarrow> [s] | None \<Rightarrow> [])"
  have so: "list_all wf_sort so"
    "(case List.find (\<lambda>s. so_id s \<in> set (map fst SORTS)) so of Some s \<Rightarrow> [s] | None \<Rightarrow> []) = so"
    using assms find_Some_mem [of "\<lambda>s. so_id s \<in> set (map fst SORTS)" "tq_sorting q"]
    by (auto simp: so_def wf_query_def list_all_iff split: option.splits)
  define c where "c = q\<lparr>tq_sorting := so, tq_filters := gs,
      tq_pageSize := (if tq_pageSize q > MAX_PAGE_SIZE then PAGE_SIZE else tq_pageSize q)\<rparr>"
  have c: "withServerQuery q PAGE_SIZE = Inr c" by (simp add: withServerQuery_def gs(1) c_def so_def)
  have "withServerQuery c PAGE_SIZE = Inr c"
    using gs(3) so(2) by (simp add: withServerQuery_def c_def MAX_PAGE_SIZE_def PAGE_SIZE_def)
  moreover have "wf_query ISSUE_FILTER_VARIANTS c"
    using assms gs(2) d so(1) by (simp add: wf_query_def wf_filters_def c_def PAGE_SIZE_def)
  moreover have "tq_search c = tq_search q" "tq_pageIndex c = tq_pageIndex q" by (simp_all add: c_def)
  ultimately show ?thesis using c by blast
qed

section \<open>The address and the table agree\<close>

text \<open>A parameter that was written is not empty, so dropping the empty ones drops nothing.\<close>

lemma map_of_param_when:
  "map_of (param_when ''q'' a @ param_when ''sort'' b @ param_when ''page'' c @ param_when ''per'' d) k =
     (let val = (\<lambda>v. if v = Some [] then None else v)
      in if k = ''q'' then val a else if k = ''sort'' then val b else if k = ''page'' then val c
         else if k = ''per'' then val d else None)"
  by (cases a; cases b; cases c; cases d) (auto simp: Let_def)

lemma parse_by_lookup:
  "map_of ps ''q'' = map_of qs ''q'' \<Longrightarrow> map_of ps ''sort'' = map_of qs ''sort'' \<Longrightarrow>
   map_of ps ''page'' = map_of qs ''page'' \<Longrightarrow> map_of ps ''per'' = map_of qs ''per'' \<Longrightarrow>
   parseTableQuery ps vars n = parseTableQuery qs vars n"
  by (simp add: parseTableQuery_def param_number_def)

lemma serialized_filled:
  assumes "wf_query vars q" and "serializeTableQuery q vars n = Inr ps"
  shows "map_of ps k \<noteq> Some []"
proof -
  obtain t where t: "ps = (if t \<noteq> [] then [(''q'', t)] else []) @
      (if tq_sorting q \<noteq> [] then [(''sort'', formatSort (tq_sorting q))] else []) @
      (if 0 < tq_pageIndex q then [(''page'', int_str (tq_pageIndex q + 1))] else []) @
      (if tq_pageSize q \<noteq> n then [(''per'', int_str (tq_pageSize q))] else [])"
    using assms(2) by (cases "formatFilterQuery (tq_filters q) (tq_search q) vars") (auto simp: serializeTableQuery_def)
  have "tq_sorting q \<noteq> [] \<Longrightarrow> formatSort (tq_sorting q) \<noteq> []"
    using sort_roundtrip(2) assms(1) by (simp add: wf_query_def)
  then have "\<forall>p \<in> set ps. snd p \<noteq> []" by (auto simp: t)
  then show ?thesis by (metis map_of_SomeD snd_conv)
qed

lemma tableQuery_lookup:
  assumes "\<And>k. map_of ps k \<noteq> Some []"
  shows "tableQuery \<lparr>is_view = v, is_q = map_of ps ''q'', is_sort = map_of ps ''sort'', is_page = map_of ps ''page'',
      is_per = map_of ps ''per''\<rparr> = parseTableQuery ps ISSUE_FILTER_VARIANTS PAGE_SIZE"
  unfolding tableQuery_def using assms
  by (intro parse_by_lookup) (simp_all only: map_of_param_when Let_def issues_search.simps, simp_all)

lemma toSearch_reads_back:
  assumes "wf_query ISSUE_FILTER_VARIANTS q"
  shows "\<exists>s. toSearch q view = Inr s \<and> tableQuery s = Inr q
    \<and> is_view s = (if view = ''open'' then None else Some view)
    \<and> list_all (\<lambda>v. v \<noteq> Some []) [is_q s, is_sort s, is_page s, is_per s]"
proof -
  obtain ps where ps: "serializeTableQuery q ISSUE_FILTER_VARIANTS PAGE_SIZE = Inr ps"
      "parseTableQuery ps ISSUE_FILTER_VARIANTS PAGE_SIZE = Inr q"
    using table_query_reads_back [OF assms, of PAGE_SIZE]
    by (cases "serializeTableQuery q ISSUE_FILTER_VARIANTS PAGE_SIZE") auto
  have "map_of ps k \<noteq> Some []" for k using serialized_filled [OF assms ps(1)] .
  then show ?thesis using ps tableQuery_lookup [of ps] by (simp add: toSearch_def)
qed

lemma raw_of_search: "raw_param (case v of None \<Rightarrow> JUndef | Some x \<Rightarrow> JStr x) = (if v = Some [] then None else v)"
  by (cases v) (simp_all add: raw_param_def searchString_def)

lemma view_read:
  "searchOneOf (case (if view = ''open'' then None else Some view) of None \<Rightarrow> JUndef | Some x \<Rightarrow> JStr x) ISSUE_VIEWS
     = (if view \<in> set ISSUE_VIEWS - {''open''} then Some view else None)"
  by (auto simp: searchOneOf_def searchString_def ISSUE_VIEWS_def)

lemma validate_written:
  assumes "wf_query ISSUE_FILTER_VARIANTS q" and "toSearch q view = Inr s" and "view \<in> set ISSUE_VIEWS"
  shows "validateSearch (as_raw s) = sbind (withServerQuery q PAGE_SIZE) (\<lambda>c. toSearch c view)"
proof -
  obtain v where s: "tableQuery s = Inr q" "is_view s = (if view = ''open'' then None else Some view)"
      "list_all (\<lambda>v. v \<noteq> Some []) [is_q s, is_sort s, is_page s, is_per s]"
    using toSearch_reads_back [OF assms(1), of view] assms(2) by auto
  have "tableQuery \<lparr>is_view = None, is_q = raw_param (as_raw s ''q''), is_sort = raw_param (as_raw s ''sort''),
      is_page = raw_param (as_raw s ''page''), is_per = raw_param (as_raw s ''per'')\<rparr> = tableQuery s"
    using s(3) by (simp add: as_raw_def raw_of_search tableQuery_def)
  moreover have "(case searchOneOf (as_raw s ''view'') ISSUE_VIEWS of Some v \<Rightarrow> v
      | None \<Rightarrow> (case searchOneOf (as_raw s ''filter'') ISSUE_VIEWS of Some v \<Rightarrow> v | None \<Rightarrow> ''open'')) = view"
    using assms(3) s(2) view_read [of view]
    by (auto simp: as_raw_def searchOneOf_def searchString_def split: if_splits)
  ultimately show ?thesis using s(1) unfolding validateSearch_def Let_def by simp
qed

text \<open>
  C17: the address is the table: from any query the table can hold, the search that is written reads back
  as that query; what the router then keeps of it is the query as the server applies it, with the same
  text, page and view; the page asks the server exactly that; and keeping it again changes nothing.
\<close>

theorem address_is_the_table:
  assumes "wf_query ISSUE_FILTER_VARIANTS q" and "view \<in> set ISSUE_VIEWS"
  shows "\<exists>s c kept. toSearch q view = Inr s \<and> tableQuery s = Inr q
    \<and> withServerQuery q PAGE_SIZE = Inr c \<and> tq_search c = tq_search q \<and> tq_pageIndex c = tq_pageIndex q
    \<and> validateSearch (as_raw s) = Inr kept \<and> shown_view kept = view
    \<and> issuesList kept = issueListParams c (view_of view)
    \<and> validateSearch (as_raw kept) = Inr kept"
proof -
  obtain s where s: "toSearch q view = Inr s" "tableQuery s = Inr q"
    using toSearch_reads_back [OF assms(1)] by blast
  obtain c where c: "withServerQuery q PAGE_SIZE = Inr c" "wf_query ISSUE_FILTER_VARIANTS c" "withServerQuery c PAGE_SIZE = Inr c"
      "tq_search c = tq_search q" "tq_pageIndex c = tq_pageIndex q"
    using withServerQuery_wf [OF assms(1)] by blast
  obtain k where k: "toSearch c view = Inr k" "tableQuery k = Inr c" "is_view k = (if view = ''open'' then None else Some view)"
    using toSearch_reads_back [OF c(2), of view] by blast
  have "validateSearch (as_raw s) = Inr k" using validate_written [OF assms(1) s(1) assms(2)] c(1) k(1) by simp
  moreover have "validateSearch (as_raw k) = Inr k" using validate_written [OF c(2) k(1) assms(2)] c(3) k(1) by simp
  moreover have "shown_view k = view" using k(3) by (simp add: shown_view_def)
  moreover from this have "issuesList k = issueListParams c (view_of view)" using k(2) by (simp add: issuesList_def)
  ultimately show ?thesis using s c by blast
qed

definition slow_errors :: table_query where
  "slow_errors =
     \<lparr>tq_sorting = [\<lparr>so_id = ''release'', so_desc = False\<rparr>, \<lparr>so_id = ''events'', so_desc = True\<rparr>],
      tq_filters = [\<lparr>fl_id = ''firstSeen'', fl_value = JArr [JStr ''24h'', JStr ''2h'']\<rparr>],
      tq_search = ''timeout'', tq_pageIndex = 2, tq_pageSize = 400\<rparr>"

lemma address_is_the_table_witness:
  "\<exists>s c kept. toSearch slow_errors ''all'' = Inr s \<and> tableQuery s = Inr slow_errors
    \<and> withServerQuery slow_errors PAGE_SIZE = Inr c \<and> tq_search c = ''timeout'' \<and> tq_pageIndex c = 2
    \<and> validateSearch (as_raw s) = Inr kept \<and> shown_view kept = ''all''
    \<and> issuesList kept = issueListParams c View_all \<and> validateSearch (as_raw kept) = Inr kept"
proof -
  have "wf_query ISSUE_FILTER_VARIANTS slow_errors"
    by (simp add: slow_errors_def wf_query_def wf_filters_def wf_filter_def wf_search_def ISSUE_FILTER_VARIANTS_def
        obj_lookup_def good_options_def is_line_end_def parseToken_def match_TOKEN_def is_key_char_def is_alnum_def
        is_lower_def is_upper_def is_digit_def starts_with_def wf_sort_def is_ws_def)
  from address_is_the_table [OF this, of "''all''"] show ?thesis
    by (simp add: slow_errors_def view_of_def ISSUE_VIEWS_def)
qed

end
