(* ===== verification/PerformanceRoute.thy ===== *)
theory PerformanceRoute
  imports IssuesRoute AgentTrace QueryKeys
begin

text \<open>
  Two more pages whose tables live in their address: the endpoints of a project,
  \<open>routes/.../performance/index.tsx\<close>, and the runs of its agents, \<open>routes/.../agents/index.tsx\<close>: the
  address read as a table query, the query written back, and the requests an address makes.
\<close>

section \<open>The performance page\<close>

definition ENDPOINTS_PAGE_SIZE :: int where "ENDPOINTS_PAGE_SIZE = 25"

definition ENDPOINT_VARIANTS :: variants where "ENDPOINT_VARIANTS = [(''environment'', V_options)]"

definition STATS_SORTS :: "string list" where "STATS_SORTS = [''time_spent'', ''count'', ''avg'', ''failure_rate'']"

record performance_search =
  pq_q :: "string option"
  pq_sort :: "string option"
  pq_page :: "string option"
  pq_per :: "string option"
  pq_period :: "string option"

text \<open>One environment: of several that were typed the first.\<close>

definition one_environment :: "col_filter \<Rightarrow> col_filter" where
  "one_environment f =
     (if fl_id f = ''environment'' then (case fl_value f of JArr vs \<Rightarrow> f\<lparr>fl_value := JArr (take 1 vs)\<rparr> | _ \<Rightarrow> f) else f)"

definition ranked :: "string \<Rightarrow> sorting list \<Rightarrow> sorting list" where
  "ranked key sorting = (if sorting = [] then [\<lparr>so_id = key, so_desc = True\<rparr>] else sorting)"

definition performance_query :: "performance_search \<Rightarrow> js_exn + table_query" where
  "performance_query search =
     sbind (parseTableQuery
       (param_when ''q'' (pq_q search) @ param_when ''sort'' (pq_sort search) @ param_when ''page'' (pq_page search)
         @ param_when ''per'' (pq_per search))
       ENDPOINT_VARIANTS ENDPOINTS_PAGE_SIZE)
       (\<lambda>query. Inr (query\<lparr>tq_filters := map one_environment (tq_filters query),
                          tq_sorting := ranked ''time_spent'' (tq_sorting query)\<rparr>))"

record stats_params =
  sp_environment :: "jv option"
  sp_query :: "string option"
  sp_period :: "string option"
  sp_sort :: "string option"
  sp_page :: int
  sp_per :: int

definition stats_of :: "table_query \<Rightarrow> string option \<Rightarrow> stats_params" where
  "stats_of query period =
     \<lparr>sp_environment = (case map_option fl_value (List.find (\<lambda>f. fl_id f = ''environment'') (tq_filters query)) of
                          Some (JArr (v # _)) \<Rightarrow> if v = JNull \<or> v = JUndef then None else Some v | _ \<Rightarrow> None),
      sp_query = (if tq_search query = [] then None else Some (tq_search query)),
      sp_period = (let p = (case period of None \<Rightarrow> DEFAULT_PERIOD | Some p \<Rightarrow> p) in if p = ''all'' then None else Some p),
      sp_sort = (case tq_sorting query of s # _ \<Rightarrow> if so_id s \<in> set STATS_SORTS then Some (so_id s) else None | [] \<Rightarrow> None),
      sp_page = tq_pageIndex query + 1, sp_per = tq_pageSize query\<rparr>"

definition statsParams :: "performance_search \<Rightarrow> js_exn + stats_params" where
  "statsParams search = sbind (performance_query search) (\<lambda>query. Inr (stats_of query (pq_period search)))"

definition descending :: "sorting list \<Rightarrow> sorting list" where
  "descending sorting = map (\<lambda>s. s\<lparr>so_desc := True\<rparr>) sorting"

definition searchFor :: "table_query \<Rightarrow> performance_search \<Rightarrow> js_exn + performance_search" where
  "searchFor updated prev =
     (let next' = updated\<lparr>tq_sorting := descending (tq_sorting updated)\<rparr>
      in sbind (serializeTableQuery next' ENDPOINT_VARIANTS ENDPOINTS_PAGE_SIZE) (\<lambda>params.
           Inr (prev\<lparr>pq_q := map_of params ''q'',
             pq_sort := (if map so_id (take 1 (tq_sorting next')) = [''time_spent''] then None else map_of params ''sort''),
             pq_page := map_of params ''page'', pq_per := map_of params ''per''\<rparr>)))"

definition performance_validate :: "(string \<Rightarrow> jv) \<Rightarrow> performance_search" where
  "performance_validate search =
     (let text = (\<lambda>v. searchString (JStr (if v = JUndef \<or> v = JNull then [] else js_str v)))
      in \<lparr>pq_q = searchString (search ''q''), pq_sort = searchString (search ''sort''),
          pq_page = text (search ''page''), pq_per = text (search ''per''),
          pq_period = searchOneOf (search ''period'') PERIOD_CHOICES\<rparr>)"

text \<open>A new window starts over; the default one is left out of the address.\<close>

definition performance_window :: "string \<Rightarrow> performance_search \<Rightarrow> performance_search" where
  "performance_window p prev = prev\<lparr>pq_period := (if p = DEFAULT_PERIOD then None else Some p), pq_page := None\<rparr>"

section \<open>The address is the ranking\<close>

text \<open>What the table holds after a round through the address.\<close>

definition performance_norm :: "table_query \<Rightarrow> table_query" where
  "performance_norm q =
     q\<lparr>tq_filters := map one_environment (tq_filters q),
       tq_sorting := ranked ''time_spent''
         (if map so_id (take 1 (tq_sorting q)) = [''time_spent''] then [] else descending (tq_sorting q))\<rparr>"

lemma parse_without_sort:
  assumes "map_of ps ''q'' = map_of qs ''q''" "map_of ps ''sort'' = None"
    "map_of ps ''page'' = map_of qs ''page''" "map_of ps ''per'' = map_of qs ''per''" "parseTableQuery qs vars n = Inr q"
  shows "parseTableQuery ps vars n = Inr (q\<lparr>tq_sorting := []\<rparr>)"
  using assms by (auto simp: parseTableQuery_def param_number_def emptyTableQuery_def Let_def split: option.splits if_splits elim!: sbind.elims)

lemma wf_descending: "list_all wf_sort so \<Longrightarrow> list_all wf_sort (descending so)"
  by (simp add: descending_def list_all_iff wf_sort_def)

lemma ranking_descending [simp]: "map so_id (take n (descending so)) = map so_id (take n so)"
  by (simp add: descending_def take_map o_def)

text \<open>Writing a query and reading it back, for any table whose ranking is left out of the address.\<close>

lemma ranking_reads_back:
  assumes "wf_query vars q"
  shows "\<exists>ps. serializeTableQuery (q\<lparr>tq_sorting := descending (tq_sorting q)\<rparr>) vars n = Inr ps
    \<and> parseTableQuery
        (param_when ''q'' (map_of ps ''q'')
          @ param_when ''sort'' (if map so_id (take 1 (tq_sorting q)) = [key] then None else map_of ps ''sort'')
          @ param_when ''page'' (map_of ps ''page'') @ param_when ''per'' (map_of ps ''per'')) vars n
      = Inr (q\<lparr>tq_sorting := (if map so_id (take 1 (tq_sorting q)) = [key] then [] else descending (tq_sorting q))\<rparr>)"
proof -
  define d where "d = q\<lparr>tq_sorting := descending (tq_sorting q)\<rparr>"
  have wf: "wf_query vars d" using assms by (simp add: d_def wf_query_def wf_descending)
  obtain ps where ps: "serializeTableQuery d vars n = Inr ps" "parseTableQuery ps vars n = Inr d"
    using table_query_reads_back [OF wf, of n] by (cases "serializeTableQuery d vars n") auto
  have full: "map_of ps k \<noteq> Some []" for k using serialized_filled [OF wf ps(1)] .
  define again where "again = param_when ''q'' (map_of ps ''q'')
      @ param_when ''sort'' (if map so_id (take 1 (tq_sorting q)) = [key] then None else map_of ps ''sort'')
      @ param_when ''page'' (map_of ps ''page'') @ param_when ''per'' (map_of ps ''per'')"
  have look: "map_of again ''q'' = map_of ps ''q''" "map_of again ''page'' = map_of ps ''page''"
    "map_of again ''per'' = map_of ps ''per''"
    "map_of again ''sort'' = (if map so_id (take 1 (tq_sorting q)) = [key] then None else map_of ps ''sort'')"
    unfolding again_def map_of_param_when using full by (simp_all add: Let_def)
  have "parseTableQuery again vars n
      = Inr (q\<lparr>tq_sorting := (if map so_id (take 1 (tq_sorting q)) = [key] then [] else descending (tq_sorting q))\<rparr>)"
  proof (cases "map so_id (take 1 (tq_sorting q)) = [key]")
    case True
    then show ?thesis using parse_without_sort [OF look(1) _ look(2,3) ps(2)] look(4) by (simp add: d_def)
  next
    case False
    then have "parseTableQuery again vars n = parseTableQuery ps vars n" using look by (intro parse_by_lookup) simp_all
    then show ?thesis using False ps(2) by (simp add: d_def)
  qed
  then show ?thesis using ps(1) unfolding again_def d_def by blast
qed

lemma one_environment_idem [simp]: "one_environment (one_environment f) = one_environment f"
  by (simp add: one_environment_def split: jv.splits)

lemma one_environment_id [simp]: "fl_id (one_environment f) = fl_id f"
  by (simp add: one_environment_def split: jv.splits)

text \<open>
  the address of the endpoints is their table: any query the table can hold is written to the address
  and read back with one environment and one ranking, from the most down; the rest, text, page and its
  size, is kept; the server is asked for exactly that, in the window of the address; and going through the
  address again changes nothing.
\<close>

theorem endpoints_address_is_the_table:
  assumes "wf_query ENDPOINT_VARIANTS q"
  shows "\<exists>s. searchFor q prev = Inr s \<and> performance_query s = Inr (performance_norm q)
    \<and> statsParams s = Inr (stats_of (performance_norm q) (pq_period prev))
    \<and> performance_norm (performance_norm q) = performance_norm q
    \<and> tq_search (performance_norm q) = tq_search q \<and> tq_pageIndex (performance_norm q) = tq_pageIndex q
    \<and> tq_pageSize (performance_norm q) = tq_pageSize q
    \<and> tq_sorting (performance_norm q) \<noteq> [] \<and> list_all so_desc (tq_sorting (performance_norm q))"
proof -
  obtain ps where ps: "serializeTableQuery (q\<lparr>tq_sorting := descending (tq_sorting q)\<rparr>) ENDPOINT_VARIANTS ENDPOINTS_PAGE_SIZE = Inr ps"
    and again: "parseTableQuery
        (param_when ''q'' (map_of ps ''q'')
          @ param_when ''sort'' (if map so_id (take 1 (tq_sorting q)) = [''time_spent''] then None else map_of ps ''sort'')
          @ param_when ''page'' (map_of ps ''page'') @ param_when ''per'' (map_of ps ''per'')) ENDPOINT_VARIANTS ENDPOINTS_PAGE_SIZE
      = Inr (q\<lparr>tq_sorting := (if map so_id (take 1 (tq_sorting q)) = [''time_spent''] then [] else descending (tq_sorting q))\<rparr>)"
    using ranking_reads_back [OF assms, of ENDPOINTS_PAGE_SIZE "''time_spent''"] by blast
  define s where "s = prev\<lparr>pq_q := map_of ps ''q'',
      pq_sort := (if map so_id (take 1 (tq_sorting q)) = [''time_spent''] then None else map_of ps ''sort''),
      pq_page := map_of ps ''page'', pq_per := map_of ps ''per''\<rparr>"
  have w: "searchFor q prev = Inr s" by (simp add: searchFor_def ps s_def)
  have r: "performance_query s = Inr (performance_norm q)"
    using again by (simp add: performance_query_def s_def performance_norm_def)
  have stats: "statsParams s = Inr (stats_of (performance_norm q) (pq_period prev))"
    using r by (simp add: statsParams_def s_def)
  have idem: "performance_norm (performance_norm q) = performance_norm q"
    by (cases "tq_sorting q") (auto simp: performance_norm_def ranked_def descending_def)
  have down: "tq_sorting (performance_norm q) \<noteq> [] \<and> list_all so_desc (tq_sorting (performance_norm q))"
    by (auto simp: performance_norm_def ranked_def descending_def list_all_iff)
  show ?thesis using w r stats idem down by (simp add: performance_norm_def)
qed

definition two_environments :: table_query where
  "two_environments =
     \<lparr>tq_sorting = [\<lparr>so_id = ''count'', so_desc = False\<rparr>],
      tq_filters = [\<lparr>fl_id = ''environment'', fl_value = JArr [JStr ''live'', JStr ''test'']\<rparr>],
      tq_search = ''checkout'', tq_pageIndex = 1, tq_pageSize = 50\<rparr>"

definition no_search :: performance_search where
  "no_search = \<lparr>pq_q = None, pq_sort = None, pq_page = None, pq_per = None, pq_period = Some ''7d''\<rparr>"

lemma endpoints_address_is_the_table_witness:
  "\<exists>s. searchFor two_environments no_search = Inr s \<and> performance_query s = Inr (performance_norm two_environments)
    \<and> statsParams s = Inr \<lparr>sp_environment = Some (JStr ''live''), sp_query = Some ''checkout'', sp_period = Some ''7d'',
        sp_sort = Some ''count'', sp_page = 2, sp_per = 50\<rparr>"
proof -
  have "wf_query ENDPOINT_VARIANTS two_environments"
    by (simp add: two_environments_def wf_query_def wf_filters_def wf_filter_def wf_search_def ENDPOINT_VARIANTS_def
        obj_lookup_def good_options_def is_line_end_def parseToken_def match_TOKEN_def is_key_char_def is_alnum_def
        is_lower_def is_upper_def is_digit_def starts_with_def wf_sort_def is_ws_def)
  moreover have "stats_of (performance_norm two_environments) (pq_period no_search)
      = \<lparr>sp_environment = Some (JStr ''live''), sp_query = Some ''checkout'', sp_period = Some ''7d'',
        sp_sort = Some ''count'', sp_page = 2, sp_per = 50\<rparr>"
    by code_simp
  ultimately show ?thesis using endpoints_address_is_the_table [of two_environments no_search] by metis
qed

text \<open>The bar never names an environment the table does not show.\<close>

lemma bar_names_what_is_shown:
  assumes "performance_query s = Inr q" "List.find (\<lambda>f. fl_id f = ''environment'') (tq_filters q) = Some f" "fl_value f = JArr (v # vs)"
  shows "vs = []"
proof -
  obtain q0 where "q = q0\<lparr>tq_filters := map one_environment (tq_filters q0), tq_sorting := ranked ''time_spent'' (tq_sorting q0)\<rparr>"
    using assms(1) by (auto simp: performance_query_def elim!: sbind.elims)
  then obtain g where g: "f = one_environment g"
    using find_Some_mem [OF assms(2)] by auto
  have "fl_id f = ''environment''" using find_Some_mem [OF assms(2)] by simp
  then have "fl_value f = (case fl_value g of JArr ws \<Rightarrow> JArr (take 1 ws) | v \<Rightarrow> v)"
    by (simp add: g one_environment_def split: jv.splits if_splits)
  with assms(3) obtain ws where "take 1 ws = v # vs"
    by (cases "fl_value g") auto
  then show ?thesis by (cases ws) simp_all
qed

end
