(* ===== verification/AgentsRoute.thy ===== *)
theory AgentsRoute
  imports PerformanceRoute Assignments QueryBar
begin

text \<open>
  The page of the agents: \<open>routes/_authenticated/projects/$id/agents/index.tsx\<close> with its scope
  (\<open>agent-scope.tsx\<close>), the filters of its traces (\<open>agent-traces-table.tsx\<close>) and the pager of its
  conversations (\<open>agent-conversations.tsx\<close>): the reads an address makes, which of them each tab starts
  and draws, and what each gesture makes of the address.
\<close>

section \<open>The address and its reads\<close>

definition AGENTS_PAGE_SIZE :: int where "AGENTS_PAGE_SIZE = 25"

definition VIEWS :: "string list" where "VIEWS = [''overview'', ''traces'', ''conversations'']"

definition AGENT_VARIANTS :: variants where
  "AGENT_VARIANTS = [(''agent'', V_text), (''model'', V_options), (''tool'', V_options), (''status'', V_options)]"

definition TRACE_SORTS :: "string list" where
  "TRACE_SORTS = [''newest'', ''duration'', ''tokens'', ''llm_calls'', ''tool_calls'', ''errors'']"

record agents_search =
  ag_view :: "string option"
  ag_period :: "string option"
  ag_environment :: "string option"
  ag_q :: "string option"
  ag_sort :: "string option"
  ag_page :: "string option"

definition AGENT_PERIOD_PARAMS :: "string list" where
  "AGENT_PERIOD_PARAMS = map period_str AGENT_PERIODS @ [''all'']"

definition agents_validate :: "(string \<Rightarrow> jv) \<Rightarrow> agents_search" where
  "agents_validate search =
     \<lparr>ag_view = searchOneOf (search ''view'') VIEWS, ag_period = searchOneOf (search ''period'') AGENT_PERIOD_PARAMS,
      ag_environment = searchString (search ''environment''), ag_q = searchString (search ''q''),
      ag_sort = searchString (search ''sort''),
      ag_page = searchString (JStr (let v = search ''page'' in if v = JUndef \<or> v = JNull then [] else js_str v))\<rparr>"

definition agents_query :: "agents_search \<Rightarrow> js_exn + table_query" where
  "agents_query search =
     sbind (parseTableQuery
       (param_when ''q'' (ag_q search) @ param_when ''sort'' (ag_sort search) @ param_when ''page'' (ag_page search))
       AGENT_VARIANTS AGENTS_PAGE_SIZE)
       (\<lambda>query. Inr (query\<lparr>tq_sorting := ranked ''newest'' (tq_sorting query)\<rparr>))"

text \<open>One filter's single value; \<open>JUndef\<close> when there is none.\<close>

definition filterValue :: "table_query \<Rightarrow> string \<Rightarrow> jv" where
  "filterValue query i =
     (case map_option fl_value (List.find (\<lambda>f. fl_id f = i) (tq_filters query)) of
        Some (JArr (v # _)) \<Rightarrow> if v = JNull then JUndef else v
      | Some (JStr s) \<Rightarrow> if s = [] then JUndef else JStr s
      | _ \<Rightarrow> JUndef)"

text \<open>\<open>Number(page ?? 1) || 1\<close>\<close>

definition conversation_page :: "string option \<Rightarrow> jsnum" where
  "conversation_page page =
     (let n = (case page of None \<Rightarrow> Fin 1 | Some s \<Rightarrow> js_Number s) in if n = NaN \<or> n = Fin 0 then Fin 1 else n)"

record agent_reads =
  gr_filters :: agent_filters
  gr_query :: table_query
  gr_summary :: agent_read
  gr_environments :: agent_read
  gr_runs :: agent_read
  gr_duration :: agent_read
  gr_models :: agent_read
  gr_tools :: agent_read
  gr_traces :: agent_read
  gr_conversations :: agent_read

definition window_of :: "agent_filters \<Rightarrow> qobj" where
  "window_of filters =
     [(''period_hours'', opt_int (af_periodHours filters)), (''environment'', opt_str (af_environment filters))]"

definition traces_request :: "agent_filters \<Rightarrow> table_query \<Rightarrow> qobj" where
  "traces_request filters query =
     window_of filters @
       [(''agent'', filterValue query ''agent''), (''model'', filterValue query ''model''),
        (''tool'', filterValue query ''tool''),
        (''errors'', if filterValue query ''status'' = JStr ''failing'' then JBool True else JUndef),
        (''sort'', (case tq_sorting query of
                      s # _ \<Rightarrow> if so_id s \<in> set TRACE_SORTS \<and> so_id s \<noteq> ''newest'' then JStr (so_id s) else JUndef
                    | [] \<Rightarrow> JUndef)),
        (''page'', jint (tq_pageIndex query + 1)), (''per_page'', jint AGENTS_PAGE_SIZE)]"

definition agentReads :: "agents_search \<Rightarrow> js_exn + agent_reads" where
  "agentReads search =
     (let filters = resolveAgentFilters (ag_period search) (ag_environment search);
          w = window_of filters;
          series = w @ [(''interval_hours'', jint (af_intervalHours filters))]
      in sbind (agents_query search) (\<lambda>query.
           Inr \<lparr>gr_filters = filters, gr_query = query, gr_summary = Agent_summary w, gr_environments = Agent_environments,
                gr_runs = Agent_runs series, gr_duration = Agent_duration series, gr_models = Agent_models w,
                gr_tools = Agent_tools w, gr_traces = Agent_traces (traces_request filters query),
                gr_conversations = Agent_conversations
                  (w @ [(''page'', JNum (conversation_page (ag_page search))), (''per_page'', jint AGENTS_PAGE_SIZE)])\<rparr>))"

definition agents_view :: "agents_search \<Rightarrow> string" where
  "agents_view search = (case ag_view search of None \<Rightarrow> ''overview'' | Some v \<Rightarrow> v)"

text \<open>What the loader starts, in order.\<close>

definition agents_loader :: "agents_search \<Rightarrow> js_exn + project_read list" where
  "agents_loader deps =
     sbind (agentReads deps) (\<lambda>reads.
       let view = agents_view deps
       in Inr (R_own Project_detail # map R_agents
            ([gr_summary reads, gr_environments reads]
             @ (if view = ''overview'' then [gr_runs reads, gr_duration reads] else [])
             @ (if view \<noteq> ''conversations'' then [gr_models reads, gr_tools reads] else [])
             @ (if view = ''traces'' then [gr_traces reads] else [])
             @ (if view = ''conversations'' then [gr_conversations reads] else []))))"

section \<open>What the page draws\<close>

record agent_summary =
  su_runs :: int
  su_llm :: int
  su_tools :: int

definition isNothingYet :: "agent_summary \<Rightarrow> agent_filters \<Rightarrow> string list \<Rightarrow> bool" where
  "isNothingYet summary filters environments \<longleftrightarrow>
     su_runs summary + su_llm summary + su_tools summary = 0 \<and> af_environment filters = None
     \<and> (af_period filters = None \<or> environments = [])"

definition AgentsOverview :: "agent_reads \<Rightarrow> agent_read list" where
  "AgentsOverview reads = [gr_runs reads, gr_duration reads, gr_models reads, gr_tools reads]"

definition AgentsTraces :: "agent_reads \<Rightarrow> agent_read list" where
  "AgentsTraces reads = [gr_traces reads, gr_models reads, gr_tools reads]"

definition AgentsConversations :: "agent_reads \<Rightarrow> agent_read list" where
  "AgentsConversations reads = [gr_conversations reads]"

text \<open>Everything the page subscribes to, for what the summary and the environments answered.\<close>

definition AgentsPage :: "agent_summary \<Rightarrow> string list \<Rightarrow> agents_search \<Rightarrow> js_exn + project_read list" where
  "AgentsPage summary environments search =
     sbind (agentReads search) (\<lambda>reads.
       let view = agents_view search
       in Inr ([R_own Project_detail, R_agents (gr_summary reads), R_agents (gr_environments reads)]
            @ map R_agents
                (if isNothingYet summary (gr_filters reads) environments then []
                 else if view = ''conversations'' then AgentsConversations reads
                 else if view = ''traces'' then AgentsTraces reads
                 else AgentsOverview reads)))"

section \<open>The gestures\<close>

definition switch_tab :: "string \<Rightarrow> agents_search \<Rightarrow> agents_search" where
  "switch_tab view prev =
     prev\<lparr>ag_view := (if view = ''overview'' then None else Some view), ag_page := None, ag_q := None, ag_sort := None\<rparr>"

definition change_scope :: "string option \<Rightarrow> agent_period option \<Rightarrow> agents_search \<Rightarrow> agents_search" where
  "change_scope environment period prev =
     prev\<lparr>ag_environment := environment, ag_period := agentPeriodParam period, ag_page := None\<rparr>"

text \<open>The two menus of the scope: the label, and what each entry makes of the address.\<close>

definition environment_menu :: "(string \<Rightarrow> string) \<Rightarrow> string list \<Rightarrow> agents_search \<Rightarrow> (menu_action \<times> (agents_search \<Rightarrow> agents_search)) list" where
  "environment_menu t environments live =
     (let period = af_period (resolveAgentFilters (ag_period live) (ag_environment live))
      in map (\<lambda>e. (e, case mn_selects e of Some v \<Rightarrow> change_scope v period | None \<Rightarrow> id))
           (scopeActions environments (ag_environment live) (t ''allEnvironments'') (t ''noEnvironments'')))"

definition period_menu :: "(string \<Rightarrow> string) \<Rightarrow> agents_search \<Rightarrow> (menu_action \<times> (agents_search \<Rightarrow> agents_search)) list" where
  "period_menu t live =
     (let period = af_period (resolveAgentFilters (ag_period live) (ag_environment live));
          entry = (\<lambda>v p label sep.
            (\<lparr>mn_id = v, mn_label = label, mn_selected = Some (p = period), mn_disabled = False, mn_separated = sep,
              mn_selects = Some (Some v)\<rparr>, change_scope (ag_environment live) p))
      in map (\<lambda>p. entry (period_str p) (Some p) (t (''periods.'' @ period_str p)) False) AGENT_PERIODS
         @ [entry ''all'' None (t ''allTime'') True])"

text \<open>A row of the models or the tools opens the traces that used it.\<close>

definition openTraces :: "string \<Rightarrow> string \<Rightarrow> agents_search \<Rightarrow> agents_search \<Rightarrow> js_exn + agents_search" where
  "openTraces key v live prev =
     sbind (agents_query live) (\<lambda>query.
     sbind (serializeTableQuery
        (query\<lparr>tq_filters := [\<lparr>fl_id = key, fl_value = JArr [JStr v]\<rparr>], tq_pageIndex := 0\<rparr>) AGENT_VARIANTS AGENTS_PAGE_SIZE)
       (\<lambda>next'. Inr (prev\<lparr>ag_view := Some ''traces'', ag_q := map_of next' ''q'', ag_page := None\<rparr>)))"

definition change_traces :: "(table_query \<Rightarrow> table_query) \<Rightarrow> agents_search \<Rightarrow> agents_search \<Rightarrow> js_exn + agents_search" where
  "change_traces updater live prev =
     sbind (agents_query live) (\<lambda>query.
       let next' = updater query
       in sbind (serializeTableQuery (next'\<lparr>tq_sorting := descending (tq_sorting next')\<rparr>) AGENT_VARIANTS AGENTS_PAGE_SIZE)
            (\<lambda>params. Inr (prev\<lparr>ag_q := map_of params ''q'',
               ag_sort := (if map so_id (take 1 (tq_sorting next')) = [''newest''] then None else map_of params ''sort''),
               ag_page := map_of params ''page''\<rparr>)))"

definition bar_updater :: "col_filter list \<Rightarrow> string \<Rightarrow> table_query \<Rightarrow> table_query" where
  "bar_updater filters search previous = previous\<lparr>tq_filters := filters, tq_search := search, tq_pageIndex := 0\<rparr>"

definition trace_fields :: "(string \<Rightarrow> string) \<Rightarrow> string list \<Rightarrow> string list \<Rightarrow> query_field list" where
  "trace_fields t models tools =
     (let named = map (\<lambda>v. \<lparr>fo_value = v, fo_label = v\<rparr>);
          one_of = (\<lambda>k opts. \<lparr>qf_key = k, qf_label = t (''filters.'' @ k), qf_variant = V_options, qf_options = Some opts,
                       qf_loads = False, qf_multiple = Some False\<rparr>)
      in [\<lparr>qf_key = ''agent'', qf_label = t ''filters.agent'', qf_variant = V_text, qf_options = None, qf_loads = False,
           qf_multiple = None\<rparr>,
          one_of ''model'' (named models), one_of ''tool'' (named tools),
          one_of ''status'' [\<lparr>fo_value = ''failing'', fo_label = t ''filters.failing''\<rparr>]])"

lemma trace_fields_are_the_variants:
  "map (\<lambda>f. (qf_key f, qf_variant f)) (trace_fields t models tools) = AGENT_VARIANTS"
  by (simp add: trace_fields_def AGENT_VARIANTS_def Let_def)

text \<open>The pager of the conversations.\<close>

definition jsnum_le :: "jsnum \<Rightarrow> rat \<Rightarrow> bool" where
  "jsnum_le n r = (case n of Fin x \<Rightarrow> x \<le> r | NegInf \<Rightarrow> True | _ \<Rightarrow> False)"

definition jsnum_ge :: "jsnum \<Rightarrow> rat \<Rightarrow> bool" where
  "jsnum_ge n r = (case n of Fin x \<Rightarrow> r \<le> x | PosInf \<Rightarrow> True | _ \<Rightarrow> False)"

definition newer_enabled :: "int \<Rightarrow> bool \<Rightarrow> agents_search \<Rightarrow> bool" where
  "newer_enabled pages loading search \<longleftrightarrow>
     pages > 1 \<and> \<not> (loading \<or> jsnum_le (conversation_page (ag_page search)) 1)"

definition older_enabled :: "int \<Rightarrow> bool \<Rightarrow> agents_search \<Rightarrow> bool" where
  "older_enabled pages loading search \<longleftrightarrow>
     pages > 1 \<and> \<not> (loading \<or> jsnum_ge (conversation_page (ag_page search)) (of_int pages))"

definition change_conversations :: "int \<Rightarrow> agents_search \<Rightarrow> agents_search" where
  "change_conversations n prev = prev\<lparr>ag_page := (if n = 1 then None else Some (int_str n))\<rparr>"

section \<open>Every read that is drawn was started\<close>

text \<open>
  the loader starts exactly what the open tab draws: whatever the address holds, every read the page
  waits for or draws is among those the loader started, under the same key, and when there is
  anything to draw nothing else was started.
\<close>

theorem tab_reads_are_started:
  "(case agentReads (agents_validate raw) of
      Inl e \<Rightarrow> agents_loader (agents_validate raw) = Inl e \<and> AgentsPage summary environments (agents_validate raw) = Inl e
    | Inr reads \<Rightarrow>
        (\<exists>started drawn. agents_loader (agents_validate raw) = Inr started
          \<and> AgentsPage summary environments (agents_validate raw) = Inr drawn
          \<and> set drawn \<subseteq> set started
          \<and> (if isNothingYet summary (gr_filters reads) environments then True else set started \<subseteq> set drawn)))"
proof (cases "agentReads (agents_validate raw)")
  case (Inr reads)
  have "agents_view (agents_validate raw) \<in> {''overview'', ''traces'', ''conversations''}"
    using searchOneOf_def
    by (auto simp: agents_view_def agents_validate_def searchOneOf_def VIEWS_def split: option.splits if_splits)
  then show ?thesis
    by (cases "isNothingYet summary (gr_filters reads) environments")
      (auto simp: Inr agents_loader_def AgentsPage_def AgentsOverview_def AgentsTraces_def AgentsConversations_def)
qed (simp add: agents_loader_def AgentsPage_def)

section \<open>A row opens its traces\<close>

lemma parse_q_only:
  assumes "parseTableQuery ps vars n = Inr q0" "t = None \<or> (\<exists>s. t = Some s \<and> s \<noteq> [])"
    "(case t of None \<Rightarrow> fs = [] \<and> u = [] | Some s \<Rightarrow> parseFilterQuery s vars = Inr (fs, u))"
    "map_of rs ''q'' = t" "map_of rs ''sort'' = map_of ps ''sort''" "map_of rs ''page'' = None" "map_of rs ''per'' = None"
    "map_of ps ''per'' = None"
  shows "parseTableQuery rs vars n = Inr (q0\<lparr>tq_filters := fs, tq_search := u, tq_pageIndex := 0\<rparr>)"
  using assms
  by (auto simp: parseTableQuery_def param_number_def emptyTableQuery_def Let_def
      split: option.splits if_splits elim!: sbind.elims)

lemma map_of_params3:
  "map_of (param_when ''q'' a @ param_when ''sort'' b @ param_when ''page'' c) k =
     (let val = (\<lambda>v. if v = Some [] then None else v)
      in if k = ''q'' then val a else if k = ''sort'' then val b else if k = ''page'' then val c else None)"
  by (cases a; cases b; cases c) (auto simp: Let_def)

lemma row_filter_wf:
  assumes "good_option (JStr v)" and "key \<in> {''model'', ''tool''}"
  shows "wf_filters AGENT_VARIANTS [\<lparr>fl_id = key, fl_value = JArr [JStr v]\<rparr>]"
proof -
  have "good_options (JArr [JStr v])" using assms(1) by (simp add: good_options_def del: good_option.simps)
  moreover have "key = ''model'' \<or> key = ''tool''" using assms(2) by simp
  then have "obj_lookup AGENT_VARIANTS key = Own V_options"
    by (elim disjE) (simp_all add: obj_lookup_def AGENT_VARIANTS_def)
  ultimately show ?thesis
    using assms(2)
    by (auto simp: wf_filters_def wf_filter_def is_key_char_def is_alnum_def is_lower_def is_upper_def is_digit_def
        simp del: good_option.simps)
qed

text \<open>
  C21: a row of the models or the tools opens the traces that used it: the address it makes opens the
  tab of the traces in the window the page shows, and the one request that tab makes is written out in
  full, the period, the environment, the model or the tool of the row under its own parameter and no
  other filter, the order the address names, the first page and twenty-five rows. It holds of a
  name that is not empty and has no comma and no line end (a comma separates the options of a filter in
  the address), and of an address whose search is made of words the query language reads back.
\<close>

theorem row_opens_its_traces:
  assumes "agents_query s = Inr q" and "wf_search AGENT_VARIANTS (tq_search q)"
    and "good_option (JStr v)" and "key \<in> {''model'', ''tool''}"
  shows "\<exists>s' before reads req. openTraces key v s s = Inr s' \<and> agents_view s' = ''traces''
    \<and> agentReads s = Inr before \<and> agentReads s' = Inr reads
    \<and> gr_filters reads = gr_filters before \<and> tq_search (gr_query reads) = tq_search (gr_query before)
    \<and> gr_traces reads = Agent_traces req
    \<and> req = [(''period_hours'', opt_int (af_periodHours (gr_filters before))),
             (''environment'', opt_str (af_environment (gr_filters before))),
             (''agent'', JUndef),
             (''model'', if key = ''model'' then JStr v else JUndef),
             (''tool'', if key = ''tool'' then JStr v else JUndef),
             (''errors'', JUndef),
             (''sort'', case tq_sorting q of [] \<Rightarrow> JUndef
                | order # _ \<Rightarrow> if so_id order \<in> {''duration'', ''tokens'', ''llm_calls'', ''tool_calls'', ''errors''}
                    then JStr (so_id order) else JUndef),
             (''page'', jint 1), (''per_page'', jint 25)]"
proof -
  let ?f = "\<lparr>fl_id = key, fl_value = JArr [JStr v]\<rparr>"
  let ?ps = "param_when ''q'' (ag_q s) @ param_when ''sort'' (ag_sort s) @ param_when ''page'' (ag_page s)"
  obtain q0 where q0: "parseTableQuery ?ps AGENT_VARIANTS AGENTS_PAGE_SIZE = Inr q0"
    and q: "q = q0\<lparr>tq_sorting := ranked ''newest'' (tq_sorting q0)\<rparr>"
    using assms(1) by (auto simp: agents_query_def elim!: sbind.elims)
  have wf: "wf_filters AGENT_VARIANTS [?f]" using row_filter_wf [OF assms(3,4)] .
  then obtain t where t: "formatFilterQuery [?f] (tq_search q) AGENT_VARIANTS = Inr t"
      "parseFilterQuery t AGENT_VARIANTS = Inr ([?f], tq_search q)" "t \<noteq> []"
    using format_then_parse [OF wf assms(2)] by auto
  define s' where "s' = s\<lparr>ag_view := Some ''traces'', ag_q := Some t, ag_page := None\<rparr>"
  have s': "openTraces key v s s = Inr s'"
    using assms(1) t by (simp add: openTraces_def serializeTableQuery_def s'_def)
  define q1 where "q1 = q\<lparr>tq_filters := [?f], tq_pageIndex := 0\<rparr>"
  let ?rs = "param_when ''q'' (Some t) @ param_when ''sort'' (ag_sort s) @ param_when ''page'' None"
  have look: "map_of ?rs ''q'' = Some t" "map_of ?rs ''sort'' = map_of ?ps ''sort''" "map_of ?rs ''page'' = None"
      "map_of ?rs ''per'' = None" "map_of ?ps ''per'' = None"
    unfolding map_of_params3 Let_def using t(3) by simp_all
  have "parseTableQuery ?rs AGENT_VARIANTS AGENTS_PAGE_SIZE
      = Inr (q0\<lparr>tq_filters := [?f], tq_search := tq_search q, tq_pageIndex := 0\<rparr>)"
    by (rule parse_q_only [OF q0 _ _ look]) (use t(2,3) in simp_all)
  then have "agents_query s' = Inr q1"
    by (simp only: agents_query_def s'_def agents_search.simps agents_search.update_convs sbind.simps) (simp add: q q1_def)
  then obtain reads where r: "agentReads s' = Inr reads" "gr_query reads = q1"
      "gr_filters reads = resolveAgentFilters (ag_period s) (ag_environment s)"
      "gr_traces reads = Agent_traces (traces_request (gr_filters reads) q1)"
    by (simp add: agentReads_def Let_def s'_def)
  obtain before where b: "agentReads s = Inr before" "gr_query before = q"
      "gr_filters before = resolveAgentFilters (ag_period s) (ag_environment s)"
    using assms(1) by (simp add: agentReads_def Let_def)
  have f: "filterValue q1 = (\<lambda>k. if k = key then JStr v else JUndef)"
    by (rule ext) (simp add: filterValue_def q1_def)
  have o: "tq_sorting q1 = tq_sorting q" "tq_pageIndex q1 = 0" "tq_search q1 = tq_search q" by (simp_all add: q1_def)
  have k: "key = ''model'' \<or> key = ''tool''" using assms(4) by simp
  have req: "traces_request (gr_filters reads) q1 =
      [(''period_hours'', opt_int (af_periodHours (gr_filters reads))),
       (''environment'', opt_str (af_environment (gr_filters reads))), (''agent'', JUndef),
       (''model'', if key = ''model'' then JStr v else JUndef), (''tool'', if key = ''tool'' then JStr v else JUndef),
       (''errors'', JUndef),
       (''sort'', case tq_sorting q of [] \<Rightarrow> JUndef
          | order # _ \<Rightarrow> if so_id order \<in> {''duration'', ''tokens'', ''llm_calls'', ''tool_calls'', ''errors''}
              then JStr (so_id order) else JUndef),
       (''page'', jint 1), (''per_page'', jint 25)]"
    using k
  proof
    assume "key = ''model''"
    then show ?thesis
      by (cases "tq_sorting q") (auto simp: traces_request_def window_of_def f o TRACE_SORTS_def AGENTS_PAGE_SIZE_def)
  next
    assume "key = ''tool''"
    then show ?thesis
      by (cases "tq_sorting q") (auto simp: traces_request_def window_of_def f o TRACE_SORTS_def AGENTS_PAGE_SIZE_def)
  qed
  have "agents_view s' = ''traces''" by (simp add: agents_view_def s'_def)
  moreover have "gr_filters reads = gr_filters before" "tq_search (gr_query reads) = tq_search (gr_query before)"
    using r b o by simp_all
  ultimately show ?thesis
    using s' r(1,4) b(1) req
    by (intro exI [of _ s'] exI [of _ before] exI [of _ reads] exI [of _ "traces_request (gr_filters reads) q1"] conjI) simp_all
qed

lemma row_opens_its_traces_witness:
  "\<exists>s' reads. openTraces ''tool'' ''search'' \<lparr>ag_view = None, ag_period = Some ''7d'', ag_environment = None, ag_q = None,
      ag_sort = Some ''-tokens'', ag_page = None\<rparr> \<lparr>ag_view = None, ag_period = Some ''7d'', ag_environment = None,
      ag_q = None, ag_sort = Some ''-tokens'', ag_page = None\<rparr> = Inr s'
    \<and> agents_view s' = ''traces'' \<and> agentReads s' = Inr reads
    \<and> gr_traces reads = Agent_traces [(''period_hours'', jint 168), (''environment'', JUndef), (''agent'', JUndef),
        (''model'', JUndef), (''tool'', JStr ''search''), (''errors'', JUndef), (''sort'', JStr ''tokens''),
        (''page'', jint 1), (''per_page'', jint 25)]"
proof -
  let ?s = "\<lparr>ag_view = None, ag_period = Some ''7d'', ag_environment = None, ag_q = None, ag_sort = Some ''-tokens'',
      ag_page = None\<rparr>"
  let ?q = "(emptyTableQuery 25)\<lparr>tq_sorting := [\<lparr>so_id = ''tokens'', so_desc = True\<rparr>]\<rparr>"
  have q: "agents_query ?s = Inr ?q" by code_simp
  have w: "wf_search AGENT_VARIANTS (tq_search ?q)" by (simp add: wf_search_def emptyTableQuery_def)
  have g: "good_option (JStr ''search'')" by (simp add: is_line_end_def)
  have k: "''tool'' \<in> {''model'', ''tool''}" by simp
  obtain s' before reads where r: "openTraces ''tool'' ''search'' ?s ?s = Inr s'" "agents_view s' = ''traces''"
      "agentReads ?s = Inr before" "agentReads s' = Inr reads"
      "gr_traces reads = Agent_traces [(''period_hours'', opt_int (af_periodHours (gr_filters before))),
             (''environment'', opt_str (af_environment (gr_filters before))), (''agent'', JUndef),
             (''model'', JUndef), (''tool'', JStr ''search''), (''errors'', JUndef), (''sort'', JStr ''tokens''),
             (''page'', jint 1), (''per_page'', jint 25)]"
    using row_opens_its_traces [OF q w g k] by fastforce
  have "map_sum id (\<lambda>b. (opt_int (af_periodHours (gr_filters b)), opt_str (af_environment (gr_filters b)))) (agentReads ?s)
      = Inr (jint 168, JUndef)"
    by code_simp
  then have "opt_int (af_periodHours (gr_filters before)) = jint 168" "opt_str (af_environment (gr_filters before)) = JUndef"
    using r(3) by simp_all
  then show ?thesis using r by (intro exI [of _ s'] exI [of _ reads]) simp
qed

section \<open>The scope\<close>

text \<open>Each entry of the scope marks what choosing it would keep, and choosing it is what is then resolved.\<close>

lemma chosen_window_is_resolved:
  "(e, f) \<in> set (period_menu t live) \<Longrightarrow>
     \<exists>p. af_period (resolveAgentFilters (ag_period (f live)) (ag_environment (f live))) = p
       \<and> mn_selected e = Some (p = af_period (resolveAgentFilters (ag_period live) (ag_environment live)))
       \<and> ag_environment (f live) = ag_environment live \<and> ag_page (f live) = None"
  by (auto simp: period_menu_def Let_def change_scope_def agent_period_roundtrip)

text \<open>A page the other tables would not read is asked of the server as it is typed.\<close>

lemma negative_page_is_asked: "conversation_page (Some ''-1'') = Fin (-1)" "conversation_page (Some ''1.5'') = Fin (3 / 2)"
  by code_simp+

end
