(* ===== verification/LogsRoute.thy ===== *)
theory LogsRoute
  imports Links QueryKeys QueryBar AgentTrace
begin

text \<open>
  The page of log lines: \<open>routes/_authenticated/projects/$id/logs.tsx\<close> with its search bar
  (\<open>log-search.tsx\<close>) and its list (\<open>log-list.tsx\<close>). The whole of it is in the address: what it asks,
  which page, and the line that is open.
\<close>

section \<open>The address\<close>

definition LOGS_PAGE_SIZE :: int where "LOGS_PAGE_SIZE = 50"

record logs_search =
  ls_q :: "string option"
  ls_level :: "string option"
  ls_trace :: "string option"
  ls_period :: "string option"
  ls_page :: "int option"
  ls_selected :: "string option"

definition logs_validate :: "(string \<Rightarrow> jv) \<Rightarrow> logs_search" where
  "logs_validate search =
     \<lparr>ls_q = searchString (search ''q''), ls_level = searchOneOf (search ''level'') LOG_LEVELS,
      ls_trace = searchString (search ''trace''), ls_period = searchOneOf (search ''period'') PERIOD_CHOICES,
      ls_page = searchPage (search ''page''), ls_selected = searchString (search ''selected'')\<rparr>"

text \<open>What the router hands \<open>validateSearch\<close> of an address that holds a search.\<close>

definition logs_raw :: "logs_search \<Rightarrow> string \<Rightarrow> jv" where
  "logs_raw s k =
     (if k = ''q'' then opt_str (ls_q s) else if k = ''level'' then opt_str (ls_level s)
      else if k = ''trace'' then opt_str (ls_trace s) else if k = ''period'' then opt_str (ls_period s)
      else if k = ''page'' then opt_int (ls_page s) else if k = ''selected'' then opt_str (ls_selected s) else JUndef)"

definition log_filters :: "logs_search \<Rightarrow> qobj" where
  "log_filters search =
     (let period = (case ls_period search of None \<Rightarrow> DEFAULT_PERIOD | Some p \<Rightarrow> p)
      in [(''query'', opt_str (ls_q search)), (''level'', opt_str (ls_level search)),
          (''trace_id'', opt_str (ls_trace search)),
          (''period'', if period = ''all'' then JUndef else JStr period)])"

definition page_of :: "logs_search \<Rightarrow> int" where
  "page_of search = (case ls_page search of None \<Rightarrow> 1 | Some n \<Rightarrow> n)"

definition logReads :: "logs_search \<Rightarrow> log_read list" where
  "logReads search =
     [Log_list (log_filters search @ [(''page'', jint (page_of search)), (''per_page'', jint LOGS_PAGE_SIZE)]),
      Log_volume (log_filters search)]"

text \<open>The dependencies of the loader: everything but the open line.\<close>

definition loaderDeps :: "logs_search \<Rightarrow> logs_search" where
  "loaderDeps search = search\<lparr>ls_selected := None\<rparr>"

definition logs_loader :: "logs_search \<Rightarrow> project_read list" where
  "logs_loader deps = R_own Project_detail # map R_logs (logReads deps)"

section \<open>Narrowing\<close>

text \<open>A part that is given overwrites, \<open>undefined\<close> too; one that is not given keeps what there was.\<close>

record narrowing =
  nw_q :: "string option option"
  nw_level :: "string option option"
  nw_trace :: "string option option"
  nw_period :: "string option option"

definition spread :: "'a option \<Rightarrow> 'a \<Rightarrow> 'a" where
  "spread given_value old = (case given_value of None \<Rightarrow> old | Some v \<Rightarrow> v)"

definition narrowed :: "narrowing \<Rightarrow> logs_search \<Rightarrow> logs_search" where
  "narrowed nw prev =
     prev\<lparr>ls_q := spread (nw_q nw) (ls_q prev), ls_level := spread (nw_level nw) (ls_level prev),
          ls_trace := spread (nw_trace nw) (ls_trace prev), ls_period := spread (nw_period nw) (ls_period prev),
          ls_page := None, ls_selected := None\<rparr>"

section \<open>The search bar\<close>

definition log_fields :: "(string \<Rightarrow> string) \<Rightarrow> query_field list" where
  "log_fields t =
     [\<lparr>qf_key = ''level'', qf_label = t ''level'', qf_variant = V_options,
       qf_options = Some (map (\<lambda>l. \<lparr>fo_value = l, fo_label = t (''levels.'' @ l)\<rparr>) LOG_LEVELS), qf_loads = False,
       qf_multiple = Some False\<rparr>,
      \<lparr>qf_key = ''trace'', qf_label = t ''trace'', qf_variant = V_text, qf_options = None, qf_loads = False,
       qf_multiple = None\<rparr>]"

text \<open>What the bar is given of an address.\<close>

definition bar_filters :: "logs_search \<Rightarrow> col_filter list" where
  "bar_filters s =
     (case given (ls_level s) of Some l \<Rightarrow> [\<lparr>fl_id = ''level'', fl_value = JArr [JStr l]\<rparr>] | None \<Rightarrow> [])
     @ (case given (ls_trace s) of Some i \<Rightarrow> [\<lparr>fl_id = ''trace'', fl_value = JStr i\<rparr>] | None \<Rightarrow> [])"

definition bar_search :: "logs_search \<Rightarrow> string" where
  "bar_search s = (case ls_q s of None \<Rightarrow> [] | Some q \<Rightarrow> q)"

definition filter_value :: "string \<Rightarrow> col_filter list \<Rightarrow> jv" where
  "filter_value k fs = (case List.find (\<lambda>f. fl_id f = k) fs of Some f \<Rightarrow> fl_value f | None \<Rightarrow> JUndef)"

definition bar_change :: "col_filter list \<Rightarrow> string \<Rightarrow> narrowing" where
  "bar_change filters search =
     \<lparr>nw_q = Some (given (Some (trim search))),
      nw_level = Some (case filter_value ''level'' filters of
                         JArr (v # _) \<Rightarrow> List.find (\<lambda>l. JStr l = v) LOG_LEVELS
                       | _ \<Rightarrow> None),
      nw_trace = Some (case filter_value ''trace'' filters of JStr i \<Rightarrow> given (Some i) | _ \<Rightarrow> None),
      nw_period = None\<rparr>"

section \<open>The page\<close>

text \<open>
  A line is its id. \<open>lp_shown\<close> is the search whose lines are on screen, a beat behind the address;
  \<open>lp_details\<close> holds what came of the lines that were fetched on their own.
\<close>

datatype line_answer = Line string | Line_unread

record logs_page =
  lp_live :: logs_search
  lp_shown :: logs_search
  lp_items :: "string list"
  lp_total_pages :: int
  lp_details :: "string \<Rightarrow> line_answer option"

definition pending :: "logs_page \<Rightarrow> bool" where
  "pending s \<longleftrightarrow> lp_shown s \<noteq> loaderDeps (lp_live s)"

datatype open_line = On_page nat | Fetched string

definition open_id :: "logs_page \<Rightarrow> open_line \<Rightarrow> string" where
  "open_id s l = (case l of On_page i \<Rightarrow> lp_items s ! i | Fetched d \<Rightarrow> d)"

text \<open>The open line, and whether the one the address names could not be read.\<close>

definition useSelectedLog :: "logs_page \<Rightarrow> open_line option \<times> bool" where
  "useSelectedLog s =
     (case ls_selected (lp_live s) of
        None \<Rightarrow> (None, False)
      | Some sel \<Rightarrow>
          (case find_index (\<lambda>i. i = sel) (lp_items s) of
             Some i \<Rightarrow> (Some (On_page i), False)
           | None \<Rightarrow>
               (case lp_details s sel of
                  Some (Line d) \<Rightarrow> (Some (Fetched d), False)
                | Some Line_unread \<Rightarrow> (None, True)
                | None \<Rightarrow> (None, False))))"

definition line_enabled :: "logs_page \<Rightarrow> string option" where
  "line_enabled s =
     (case ls_selected (lp_live s) of
        Some sel \<Rightarrow> if sel \<in> set (lp_items s) then None else Some sel
      | None \<Rightarrow> None)"

definition select :: "string option \<Rightarrow> logs_page \<Rightarrow> logs_page" where
  "select selected s = s\<lparr>lp_live := (lp_live s)\<lparr>ls_selected := selected\<rparr>\<rparr>"

text \<open>\<open>indexOf\<close> of a line that was fetched on its own is \<open>-1\<close>.\<close>

definition step_line :: "int \<Rightarrow> logs_page \<Rightarrow> logs_page" where
  "step_line by_lines s =
     (let i = (case fst (useSelectedLog s) of
                 Some (On_page n) \<Rightarrow> int n + by_lines
               | Some (Fetched _) \<Rightarrow> - 1 + by_lines
               | None \<Rightarrow> 0)
      in if 0 \<le> i \<and> i < int (length (lp_items s)) then select (Some (lp_items s ! nat i)) s else s)"

definition press_line :: "string \<Rightarrow> logs_page \<Rightarrow> logs_page" where
  "press_line i s =
     select (if map_option (open_id s) (fst (useSelectedLog s)) = Some i then None else Some i) s"

definition change_page :: "int \<Rightarrow> logs_page \<Rightarrow> logs_page" where
  "change_page n s =
     s\<lparr>lp_live := (lp_live s)\<lparr>ls_page := (if n = 1 then None else Some n), ls_selected := None\<rparr>\<rparr>"

text \<open>The pager of the list: its buttons, when they are drawn and enabled.\<close>

definition pager_shown :: "logs_page \<Rightarrow> bool" where
  "pager_shown s \<longleftrightarrow> lp_total_pages s > 1"

definition newer_page :: "logs_page \<Rightarrow> int option" where
  "newer_page s =
     (if pager_shown s \<and> \<not> (pending s \<or> page_of (lp_shown s) \<le> 1) then Some (page_of (lp_shown s) - 1) else None)"

definition older_page :: "logs_page \<Rightarrow> int option" where
  "older_page s =
     (if pager_shown s \<and> \<not> (pending s \<or> page_of (lp_shown s) \<ge> lp_total_pages s)
      then Some (page_of (lp_shown s) + 1) else None)"

datatype logs_event =
    Bar_changed "col_filter list" string
  | Window_chosen string
  | Trace_pressed string
  | Newer_pressed
  | Older_pressed
  | Line_pressed nat
  | J_pressed
  | K_pressed
  | Closed_line
  | Lines_arrived "string list" int
  | Line_read string line_answer

fun logs_step :: "logs_page \<Rightarrow> logs_event \<Rightarrow> logs_page" where
  "logs_step s (Bar_changed fs q) = s\<lparr>lp_live := narrowed (bar_change fs q) (lp_live s)\<rparr>"
| "logs_step s (Window_chosen p) =
     (if p \<in> set PERIOD_CHOICES
      then s\<lparr>lp_live := narrowed \<lparr>nw_q = None, nw_level = None, nw_trace = None,
               nw_period = Some (if p = DEFAULT_PERIOD then None else Some p)\<rparr> (lp_live s)\<rparr>
      else s)"
| "logs_step s (Trace_pressed i) =
     (if i \<noteq> [] \<and> fst (useSelectedLog s) \<noteq> None
      then s\<lparr>lp_live := narrowed \<lparr>nw_q = None, nw_level = None, nw_trace = Some (Some i), nw_period = None\<rparr> (lp_live s)\<rparr>
      else s)"
| "logs_step s Newer_pressed = (case newer_page s of Some n \<Rightarrow> change_page n s | None \<Rightarrow> s)"
| "logs_step s Older_pressed = (case older_page s of Some n \<Rightarrow> change_page n s | None \<Rightarrow> s)"
| "logs_step s (Line_pressed n) = (case at_index (lp_items s) n of Some i \<Rightarrow> press_line i s | None \<Rightarrow> s)"
| "logs_step s J_pressed = step_line 1 s"
| "logs_step s K_pressed = step_line (-1) s"
| "logs_step s Closed_line = select None s"
| "logs_step s (Lines_arrived items pages) =
     s\<lparr>lp_shown := loaderDeps (lp_live s), lp_items := items, lp_total_pages := pages\<rparr>"
| "logs_step s (Line_read i answer) = s\<lparr>lp_details := (lp_details s)(i \<mapsto> answer)\<rparr>"

definition open_logs :: "(string \<Rightarrow> jv) \<Rightarrow> string list \<Rightarrow> int \<Rightarrow> logs_page" where
  "open_logs search items pages =
     \<lparr>lp_live = logs_validate search, lp_shown = loaderDeps (logs_validate search), lp_items = items,
      lp_total_pages = pages, lp_details = Map.empty\<rparr>"

definition logs_run :: "logs_page \<Rightarrow> logs_event list \<Rightarrow> logs_page" where
  "logs_run s es = foldl logs_step s es"

section \<open>The address is always one that is read back\<close>

definition opt_among :: "string option \<Rightarrow> string list \<Rightarrow> bool" where
  "opt_among v allowed = (case v of None \<Rightarrow> True | Some x \<Rightarrow> x \<in> set allowed)"

definition opt_filled :: "string option \<Rightarrow> bool" where
  "opt_filled v \<longleftrightarrow> v \<noteq> Some []"

definition logs_canonical :: "logs_search \<Rightarrow> bool" where
  "logs_canonical s \<longleftrightarrow> opt_filled (ls_q s) \<and> opt_among (ls_level s) LOG_LEVELS \<and> opt_filled (ls_trace s)
     \<and> opt_among (ls_period s) PERIOD_CHOICES \<and> (case ls_page s of None \<Rightarrow> True | Some n \<Rightarrow> 1 \<le> n)
     \<and> opt_filled (ls_selected s)"

lemma read_opt: "opt_filled v \<Longrightarrow> searchString (opt_str v) = v"
  by (cases v) (auto simp: opt_filled_def searchString_def)

lemma read_among: "opt_among v allowed \<Longrightarrow> [] \<notin> set allowed \<Longrightarrow> searchOneOf (opt_str v) allowed = v"
  by (cases v) (auto simp: opt_among_def searchOneOf_def searchString_def)

lemma read_page: "(case v of None \<Rightarrow> True | Some n \<Rightarrow> 1 \<le> n) \<Longrightarrow> searchPage (opt_int v) = v"
  by (cases v) (simp_all add: searchPage_def parseInt10_def is_digit_def is_ws_def trim_start_def)

lemma choices_filled [simp]: "[] \<notin> set LOG_LEVELS" "[] \<notin> set PERIOD_CHOICES"
  by (simp_all add: LOG_LEVELS_def PERIOD_CHOICES_def OVERVIEW_PERIODS_def)

lemma canonical_reads_back: "logs_canonical s \<Longrightarrow> logs_validate (logs_raw s) = s"
  by (simp add: logs_canonical_def logs_validate_def logs_raw_def read_opt read_among read_page)

lemma searchString_filled: "opt_filled (searchString v)"
  by (auto simp: opt_filled_def searchString_def split: jv.splits if_splits)

lemma searchOneOf_among: "opt_among (searchOneOf v allowed) allowed"
  by (auto simp: opt_among_def searchOneOf_def split: option.splits)

lemma validated_canonical: "logs_canonical (logs_validate search)"
  using page_is_canonical
  by (auto simp: logs_canonical_def logs_validate_def searchString_filled searchOneOf_among split: option.splits)

lemma given_filled [simp]: "opt_filled (given v)"
  by (auto simp: opt_filled_def given_def split: option.splits list.splits)

lemma bar_level_among:
  "opt_among (case v of JArr (x # _) \<Rightarrow> List.find (\<lambda>l. JStr l = x) LOG_LEVELS | _ \<Rightarrow> None) LOG_LEVELS"
  by (auto simp: opt_among_def split: jv.splits list.splits option.splits dest!: find_Some_mem)

lemma narrowed_bar_canonical:
  "logs_canonical s \<Longrightarrow> logs_canonical (narrowed (bar_change fs q) s)"
  using bar_level_among [of "filter_value ''level'' fs"]
  by (auto simp: logs_canonical_def narrowed_def spread_def bar_change_def opt_filled_def given_def
      split: jv.splits option.splits list.splits)

definition event_named :: "logs_event \<Rightarrow> bool" where
  "event_named e = (case e of Lines_arrived items _ \<Rightarrow> [] \<notin> set items | _ \<Rightarrow> True)"

definition page_good :: "logs_page \<Rightarrow> bool" where
  "page_good s \<longleftrightarrow> logs_canonical (lp_live s) \<and> logs_canonical (lp_shown s) \<and> ls_selected (lp_shown s) = None \<and> [] \<notin> set (lp_items s)"

lemma canonical_select: "logs_canonical s \<Longrightarrow> opt_filled v \<Longrightarrow> logs_canonical (s\<lparr>ls_selected := v\<rparr>)"
  by (simp add: logs_canonical_def)

lemma step_line_shape: "\<exists>v. step_line k s = s \<or> (step_line k s = select (Some v) s \<and> v \<in> set (lp_items s))"
  by (auto simp: step_line_def Let_def)

lemma good_select: "page_good s \<Longrightarrow> opt_filled v \<Longrightarrow> page_good (select v s)"
  by (simp add: page_good_def select_def canonical_select)

lemma good_item: "page_good s \<Longrightarrow> v \<in> set (lp_items s) \<Longrightarrow> opt_filled (Some v)"
  by (auto simp: page_good_def opt_filled_def)

lemma good_step_line: "page_good s \<Longrightarrow> page_good (step_line k s)"
  using step_line_shape [of k s] good_select [of s] good_item [of s] by metis

lemma good_change_page: "page_good s \<Longrightarrow> 1 \<le> n \<Longrightarrow> page_good (change_page n s)"
  by (simp add: page_good_def change_page_def logs_canonical_def opt_filled_def)

lemma page_of_least: "logs_canonical s \<Longrightarrow> 1 \<le> page_of s"
  by (auto simp: logs_canonical_def page_of_def split: option.splits)

lemma step_good:
  assumes "page_good s" and "event_named e"
  shows "page_good (logs_step s e)"
proof (cases e)
  case (Bar_changed fs q)
  then show ?thesis using assms(1) narrowed_bar_canonical [of "lp_live s" fs q] by (simp add: page_good_def)
next
  case (Window_chosen p)
  then show ?thesis using assms(1)
    by (auto simp: page_good_def logs_canonical_def narrowed_def spread_def opt_among_def opt_filled_def)
next
  case (Trace_pressed i)
  then show ?thesis using assms(1)
    by (auto simp: page_good_def logs_canonical_def narrowed_def spread_def opt_filled_def)
next
  case Newer_pressed
  then show ?thesis using assms(1) good_change_page [OF assms(1)]
    by (auto simp: newer_page_def split: option.splits if_splits)
next
  case Older_pressed
  have "1 \<le> page_of (lp_shown s)" using assms(1) page_of_least by (simp add: page_good_def)
  then show ?thesis using Older_pressed assms(1) good_change_page [OF assms(1)]
    by (auto simp: older_page_def split: option.splits if_splits)
next
  case (Line_pressed n)
  have "opt_filled (Some (lp_items s ! n))" if "n < length (lp_items s)"
    using good_item [OF assms(1) nth_mem [OF that]] .
  then show ?thesis using Line_pressed assms(1) good_select [OF assms(1)]
    by (auto simp: at_index_def press_line_def opt_filled_def)
next
  case (Lines_arrived items pages)
  then show ?thesis using assms
    by (simp add: page_good_def event_named_def loaderDeps_def canonical_select opt_filled_def)
qed (use assms good_step_line good_select in \<open>simp_all add: page_good_def opt_filled_def select_def canonical_select\<close>)

lemma run_good: "page_good s \<Longrightarrow> list_all event_named es \<Longrightarrow> page_good (logs_run s es)"
  by (induction es arbitrary: s) (simp_all add: logs_run_def step_good)

text \<open>What one event may do to the address.\<close>

definition moved_cleanly :: "logs_search \<Rightarrow> logs_search \<Rightarrow> bool" where
  "moved_cleanly s s' \<longleftrightarrow>
     (if logs_loader (loaderDeps s') = logs_loader (loaderDeps s) then True else ls_selected s' = None)
     \<and> (if log_filters s' = log_filters s then True else ls_page s' = None)"

lemma same_reads: "logs_loader (loaderDeps (s\<lparr>ls_selected := v\<rparr>)) = logs_loader (loaderDeps s)"
  "log_filters (s\<lparr>ls_selected := v\<rparr>) = log_filters s"
  "log_filters (s\<lparr>ls_page := n\<rparr>) = log_filters s" "log_filters (s\<lparr>ls_page := n, ls_selected := v\<rparr>) = log_filters s"
  by (simp_all add: loaderDeps_def log_filters_def)

lemma moved_cleanly_simps [simp]:
  "moved_cleanly s s" "moved_cleanly s (narrowed nw s)" "moved_cleanly s (s\<lparr>ls_selected := v\<rparr>)"
  "moved_cleanly s (s\<lparr>ls_page := n, ls_selected := None\<rparr>)"
  by (simp_all add: moved_cleanly_def same_reads) (simp_all add: narrowed_def)

lemma step_clean: "moved_cleanly (lp_live s) (lp_live (logs_step s e))"
  by (cases e) (auto simp: change_page_def select_def press_line_def step_line_def Let_def split: option.splits)

text \<open>
  C20: in every state of the log page the address is one that is read back as itself: whatever is typed,
  chosen, paged, stepped through and answered. A step that changes what is asked closes the open line, so
  opening one never makes a request of the list, and one that narrows differently is on the first page.
\<close>

theorem logs_address_is_kept:
  assumes "[] \<notin> set items" and "list_all event_named es"
  shows "logs_validate (logs_raw (lp_live (logs_run (open_logs search items pages) es)))
      = lp_live (logs_run (open_logs search items pages) es)
    \<and> moved_cleanly (lp_live (logs_run (open_logs search items pages) es))
        (lp_live (logs_step (logs_run (open_logs search items pages) es) e))"
proof -
  have "page_good (open_logs search items pages)"
    using assms(1) validated_canonical canonical_select [of "logs_validate search" None]
    by (simp add: page_good_def open_logs_def loaderDeps_def opt_filled_def)
  then have "page_good (logs_run (open_logs search items pages) es)" using run_good assms(2) by blast
  then show ?thesis using canonical_reads_back step_clean by (simp add: page_good_def)
qed

lemma logs_address_is_kept_witness:
  "logs_validate (logs_raw (lp_live (logs_run (open_logs (\<lambda>_. JUndef) [''a'', ''b''] 3)
       [J_pressed, J_pressed, Older_pressed, Bar_changed [\<lparr>fl_id = ''level'', fl_value = JArr [JStr ''error'']\<rparr>] '' x ''])))
     = lp_live (logs_run (open_logs (\<lambda>_. JUndef) [''a'', ''b''] 3)
       [J_pressed, J_pressed, Older_pressed, Bar_changed [\<lparr>fl_id = ''level'', fl_value = JArr [JStr ''error'']\<rparr>] '' x ''])"
  using logs_address_is_kept [of "[''a'', ''b'']"
      "[J_pressed, J_pressed, Older_pressed, Bar_changed [\<lparr>fl_id = ''level'', fl_value = JArr [JStr ''error'']\<rparr>] '' x '']"
      "\<lambda>_. JUndef" 3 J_pressed]
  by (simp add: event_named_def)

section \<open>The bar shows the address\<close>

lemma find_level: "l \<in> set LOG_LEVELS \<Longrightarrow> List.find (\<lambda>x. x = l) LOG_LEVELS = Some l"
  by (auto simp: LOG_LEVELS_def)

lemma bar_keeps_the_address:
  assumes "logs_canonical s" and "given (Some (trim (bar_search s))) = ls_q s"
  shows "narrowed (bar_change (bar_filters s) (bar_search s)) s = s\<lparr>ls_page := None, ls_selected := None\<rparr>"
proof -
  have "nw_level (bar_change (bar_filters s) (bar_search s)) = Some (ls_level s)"
    using assms(1) find_level
    by (auto simp: bar_change_def filter_value_def bar_filters_def logs_canonical_def opt_among_def given_def
        split: option.splits list.splits)
  moreover have "nw_trace (bar_change (bar_filters s) (bar_search s)) = Some (ls_trace s)"
    using assms(1)
    by (auto simp: bar_change_def filter_value_def bar_filters_def logs_canonical_def opt_filled_def given_def
        split: option.splits list.splits)
  moreover have "nw_q (bar_change (bar_filters s) (bar_search s)) = Some (ls_q s)"
    using assms(2) by (simp add: bar_change_def)
  moreover have "nw_period (bar_change (bar_filters s) (bar_search s)) = None" by (simp add: bar_change_def)
  ultimately show ?thesis by (simp add: narrowed_def spread_def)
qed

section \<open>Stepping through the lines\<close>

text \<open>From an open line on the page \<open>j\<close> opens the next and \<open>k\<close> the one before, and neither leaves the page.\<close>

lemma lines_are_stepped:
  assumes "distinct (lp_items s)" and "n < length (lp_items s)" and "ls_selected (lp_live s) = Some (lp_items s ! n)"
  shows "ls_selected (lp_live (step_line k s))
    = Some (lp_items s ! (if 0 \<le> int n + k \<and> int n + k < int (length (lp_items s)) then nat (int n + k) else n))"
proof -
  have "lp_items s ! n \<in> set (lp_items s)" using assms(2) by simp
  then obtain m where m: "find_index (\<lambda>i. i = lp_items s ! n) (lp_items s) = Some m"
    by (cases "find_index (\<lambda>i. i = lp_items s ! n) (lp_items s)") (auto simp: find_index_None)
  moreover have "m = n" using find_index_bound [OF m] assms(1,2) nth_eq_iff_index_eq by blast
  ultimately have "find_index (\<lambda>i. i = lp_items s ! n) (lp_items s) = Some n" by simp
  then show ?thesis using assms(3) by (simp add: step_line_def useSelectedLog_def select_def Let_def)
qed

text \<open>An address past the last page of at most one page of lines shows no line and no pager.\<close>

lemma past_the_end_has_no_pager:
  "lp_total_pages s \<le> 1 \<Longrightarrow> logs_step s Newer_pressed = s \<and> logs_step s Older_pressed = s"
  by (simp add: newer_page_def older_page_def pager_shown_def)

end
