(* ===== verification/AccessEditor.thy ===== *)
theory AccessEditor
  imports Assignments
begin

text \<open>
  The page that edits a member's access, \<open>features/user/ui/components/user-assignments.tsx\<close>: its
  lines of a role and where it applies, the permissions of the member's own, and the request they
  are saved with. What is on the page (\<open>page\<close>) is the properties of the component; the gestures are
  events, and one whose control is not there or is disabled does nothing. A stored access that
  changed opens the editor anew, as the key \<open>JSON.stringify(access)\<close> of the page does.
\<close>

section \<open>The page and its draft\<close>

record page =
  pg_roles :: "role list"
  pg_catalog :: "catalog_resource list"
  pg_projects :: "int list"
  pg_may :: "string \<Rightarrow> action \<Rightarrow> bool"   \<comment> \<open>\<open>reader.canAnywhere\<close>\<close>
  pg_owner :: bool
  pg_reason :: "string option"

record access_editor =
  ed_held :: "held_role list"            \<comment> \<open>\<open>access.assignments\<close>\<close>
  ed_stored :: "permission list"         \<comment> \<open>\<open>access.personal_permissions\<close>\<close>
  ed_rows :: "access_row list"
  ed_personal :: "permission list"
  ed_pending :: "nat option"             \<comment> \<open>the request this editor waits for\<close>
  ed_sent :: "set_access list"
  ed_notices :: "bool list"              \<comment> \<open>saved, or not saved\<close>

definition readOnly :: "page \<Rightarrow> bool" where
  "readOnly pg \<longleftrightarrow> pg_reason pg \<noteq> None \<or> pg_owner pg"

definition missesProjects :: "access_row \<Rightarrow> bool" where
  "missesProjects row \<longleftrightarrow> ar_role row \<noteq> NoRole \<and> ar_projects row = Some []"

definition editor_choices :: "page \<Rightarrow> access_editor \<Rightarrow> role_option list" where
  "editor_choices pg s = roleChoices (pg_roles pg) (ed_held s) (\<lambda>p. pg_may pg (pm_resource p) (pm_action p))"

definition editor_body :: "access_editor \<Rightarrow> set_access" where
  "editor_body s = toSetAccess (ed_rows s) (ed_personal s)"

definition stored_body :: "access_editor \<Rightarrow> set_access" where
  "stored_body s = toSetAccess (rowsFrom (ed_held s)) (ed_stored s)"

definition dirty :: "access_editor \<Rightarrow> bool" where
  "dirty s \<longleftrightarrow> \<not> sameAccess (editor_body s) (stored_body s)"

definition hasPersonalRow :: "access_editor \<Rightarrow> bool" where
  "hasPersonalRow s \<longleftrightarrow> list_ex (\<lambda>r. ar_role r = Personal) (ed_rows s)"

definition canAddAnother :: "page \<Rightarrow> access_editor \<Rightarrow> bool" where
  "canAddAnother pg s \<longleftrightarrow>
     \<not> readOnly pg \<and> ed_rows s \<noteq> [] \<and> (editor_choices pg s \<noteq> [] \<or> \<not> hasPersonalRow s)"

definition permissionsOf :: "page \<Rightarrow> access_editor \<Rightarrow> role_choice \<Rightarrow> permission list" where
  "permissionsOf pg s role =
     (if role = Personal then ed_personal s
      else case List.find (\<lambda>r. Role (rl_id r) = role) (pg_roles pg) of Some r \<Rightarrow> rl_permissions r | None \<Rightarrow> [])"

definition open_access :: "held_role list \<Rightarrow> permission list \<Rightarrow> access_editor" where
  "open_access held own =
     \<lparr>ed_held = held, ed_stored = own, ed_rows = rowsFrom held, ed_personal = own, ed_pending = None,
      ed_sent = [], ed_notices = []\<rparr>"

definition setRow :: "nat \<Rightarrow> (access_row \<Rightarrow> access_row) \<Rightarrow> access_editor \<Rightarrow> access_editor" where
  "setRow i f s = s\<lparr>ed_rows := map (\<lambda>(j, row). if j = i then f row else row) (enumerate 0 (ed_rows s))\<rparr>"

definition addRow :: "page \<Rightarrow> access_editor \<Rightarrow> access_editor" where
  "addRow pg s =
     s\<lparr>ed_rows := ed_rows s @
         [\<lparr>ar_role = (if editor_choices pg s \<noteq> [] then NoRole else Personal), ar_projects = None\<rparr>]\<rparr>"

definition row_role :: "access_editor \<Rightarrow> nat \<Rightarrow> role_choice" where
  "row_role s i = (if i < length (ed_rows s) then ar_role (ed_rows s ! i) else NoRole)"

definition chooseRole :: "page \<Rightarrow> nat \<Rightarrow> role_choice \<Rightarrow> access_editor \<Rightarrow> access_editor" where
  "chooseRole pg i role s =
     (let draft = (if role = Personal \<and> ed_personal s = [] then permissionsOf pg s (row_role s i) else ed_personal s);
          held = (if role = Personal then draft else permissionsOf pg s role)
      in setRow i (\<lambda>row. if reachesProjects held (pg_catalog pg) then row\<lparr>ar_role := role\<rparr>
                          else row\<lparr>ar_role := role, ar_projects := None\<rparr>)
           (s\<lparr>ed_personal := draft\<rparr>))"

definition customize :: "page \<Rightarrow> nat \<Rightarrow> access_editor \<Rightarrow> access_editor" where
  "customize pg i s =
     setRow i (\<lambda>row. row\<lparr>ar_role := Personal\<rparr>) (s\<lparr>ed_personal := permissionsOf pg s (row_role s i)\<rparr>)"

definition remove_row :: "nat \<Rightarrow> access_editor \<Rightarrow> access_editor" where
  "remove_row i s = s\<lparr>ed_rows := map snd (filter (\<lambda>(j, _). j \<noteq> i) (enumerate 0 (ed_rows s)))\<rparr>"

section \<open>Where a line applies\<close>

text \<open>A tick of the picker: every project, or one of those listed. It turns a box that is on off.\<close>

definition picker_all :: "int list option \<Rightarrow> int list option" where
  "picker_all value = (if value = None then Some [] else None)"

definition picker_toggle :: "int list \<Rightarrow> int list option \<Rightarrow> int \<Rightarrow> int list option" where
  "picker_toggle projects value i =
     (let current = (case value of Some v \<Rightarrow> v | None \<Rightarrow> projects);
          on = \<not> (value = None \<or> i \<in> set current)
      in Some (if on then current @ [i] else filter (\<lambda>v. v \<noteq> i) current))"

definition line_reaches :: "page \<Rightarrow> access_editor \<Rightarrow> role_choice \<Rightarrow> bool" where
  "line_reaches pg s role \<longleftrightarrow>
     isUnlisted role (map rl_id (pg_roles pg)) \<or> reachesProjects (permissionsOf pg s role) (pg_catalog pg)"

definition personalTaken :: "access_editor \<Rightarrow> access_row \<Rightarrow> bool" where
  "personalTaken s row \<longleftrightarrow> hasPersonalRow s \<and> ar_role row \<noteq> Personal"

text \<open>What the select of a line offers.\<close>

definition line_offers :: "page \<Rightarrow> access_editor \<Rightarrow> access_row \<Rightarrow> role_choice \<Rightarrow> bool" where
  "line_offers pg s row choice =
     (case choice of
        Role r \<Rightarrow> r \<in> set (map ro_id (editor_choices pg s))
      | Personal \<Rightarrow> \<not> personalTaken s row
      | NoRole \<Rightarrow> False)"

section \<open>The gestures\<close>

datatype access_event =
    Add_line
  | Choose nat role_choice
  | Pick_all nat
  | Pick_one nat int
  | Customize_line nat
  | Remove_line nat
  | Grant string action
  | Grant_row string
  | Press_save
  | Save_answered nat bool
  | Access_read "held_role list" "permission list"

definition grants :: "page \<Rightarrow> access_editor \<Rightarrow> string \<Rightarrow> catalog_resource option" where
  "grants pg s key =
     (if readOnly pg \<or> \<not> hasPersonalRow s then None
      else List.find (\<lambda>r. cr_key r = key) (grantable (pg_catalog pg) (pg_may pg)))"

definition press_save :: "page \<Rightarrow> access_editor \<Rightarrow> access_editor" where
  "press_save pg s =
     (if readOnly pg \<or> ed_pending s \<noteq> None \<or> \<not> dirty s \<or> list_ex missesProjects (ed_rows s) then s
      else s\<lparr>ed_pending := Some (length (ed_sent s)), ed_sent := ed_sent s @ [editor_body s]\<rparr>)"

definition access_step :: "page \<Rightarrow> access_editor \<Rightarrow> access_event \<Rightarrow> access_editor" where
  "access_step pg s e =
     (let line = (\<lambda>i. if \<not> readOnly pg \<and> i < length (ed_rows s) then Some (ed_rows s ! i) else None)
      in case e of
        Add_line \<Rightarrow> (if canAddAnother pg s \<or> ed_rows s = [] \<and> \<not> readOnly pg then addRow pg s else s)
      | Choose i choice \<Rightarrow>
          (case line i of Some row \<Rightarrow> if line_offers pg s row choice then chooseRole pg i choice s else s | None \<Rightarrow> s)
      | Pick_all i \<Rightarrow>
          (case line i of
             Some row \<Rightarrow> if line_reaches pg s (ar_role row)
               then setRow i (\<lambda>row. row\<lparr>ar_projects := picker_all (ar_projects row)\<rparr>) s else s
           | None \<Rightarrow> s)
      | Pick_one i p \<Rightarrow>
          (case line i of
             Some row \<Rightarrow> if line_reaches pg s (ar_role row) \<and> p \<in> set (pg_projects pg)
               then setRow i (\<lambda>row. row\<lparr>ar_projects := picker_toggle (pg_projects pg) (ar_projects row) p\<rparr>) s else s
           | None \<Rightarrow> s)
      | Customize_line i \<Rightarrow>
          (case line i of
             Some row \<Rightarrow> (case ar_role row of
                 Role r \<Rightarrow> if \<not> personalTaken s row \<and> \<not> isUnlisted (Role r) (map rl_id (pg_roles pg))
                           then customize pg i s else s
               | _ \<Rightarrow> s)
           | None \<Rightarrow> s)
      | Remove_line i \<Rightarrow> (case line i of Some row \<Rightarrow> remove_row i s | None \<Rightarrow> s)
      | Grant key a \<Rightarrow>
          (case grants pg s key of
             Some r \<Rightarrow> if a \<in> set (cr_actions r) then s\<lparr>ed_personal := toggle (ed_personal s) key a\<rparr> else s
           | None \<Rightarrow> s)
      | Grant_row key \<Rightarrow>
          (case grants pg s key of Some r \<Rightarrow> s\<lparr>ed_personal := toggleRow (ed_personal s) r\<rparr> | None \<Rightarrow> s)
      | Press_save \<Rightarrow> press_save pg s
      | Save_answered i ok \<Rightarrow>
          s\<lparr>ed_pending := (if ed_pending s = Some i then None else ed_pending s), ed_notices := ed_notices s @ [ok]\<rparr>
      | Access_read held own \<Rightarrow>
          (if held = ed_held s \<and> own = ed_stored s then s
           else (open_access held own)\<lparr>ed_sent := ed_sent s, ed_notices := ed_notices s\<rparr>))"

definition access_run :: "page \<Rightarrow> access_editor \<Rightarrow> access_event list \<Rightarrow> access_editor" where
  "access_run pg s es = fold (\<lambda>e s. access_step pg s e) es s"

section \<open>What the draft keeps\<close>

text \<open>
  The lines: one at most of the member's own permissions, and roles the editor offers. The
  permissions: those stored, those of a role, or those the reader may hand out.
\<close>

definition one_personal :: "access_row list \<Rightarrow> bool" where
  "one_personal rows \<longleftrightarrow> length (filter (\<lambda>r. ar_role r = Personal) rows) \<le> 1"

definition role_offered :: "role_option list \<Rightarrow> access_row \<Rightarrow> bool" where
  "role_offered choices row = (case ar_role row of Role r \<Rightarrow> r \<in> set (map ro_id choices) | _ \<Rightarrow> True)"

definition roles_offered :: "page \<Rightarrow> access_editor \<Rightarrow> bool" where
  "roles_offered pg s = list_all (role_offered (editor_choices pg s)) (ed_rows s)"

definition may_grant :: "page \<Rightarrow> permission \<Rightarrow> bool" where
  "may_grant pg p \<longleftrightarrow>
     list_ex (\<lambda>r. p \<in> set (rl_permissions r)) (pg_roles pg) \<or>
     list_ex (\<lambda>r. cr_key r = pm_resource p \<and> pm_action p \<in> set (cr_actions r) \<and> pg_may pg (pm_resource p) (pm_action p))
       (pg_catalog pg)"

definition own_accounted :: "page \<Rightarrow> access_editor \<Rightarrow> bool" where
  "own_accounted pg s \<longleftrightarrow> list_all (\<lambda>p. p \<in> set (ed_stored s) \<or> may_grant pg p) (ed_personal s)"

definition ed_ok :: "page \<Rightarrow> access_editor \<Rightarrow> bool" where
  "ed_ok pg s \<longleftrightarrow> one_personal (ed_rows s) \<and> roles_offered pg s \<and> own_accounted pg s"

lemma set_rows:
  "map (\<lambda>(j, row). if j = i then f row else row) (enumerate 0 rows) = (if i < length rows then rows[i := f (rows ! i)] else rows)"
  by (rule nth_equalityI) (auto simp: nth_enumerate_eq nth_list_update)

lemma setRow_rows [simp]:
  "ed_rows (setRow i f s) = (if i < length (ed_rows s) then (ed_rows s)[i := f (ed_rows s ! i)] else ed_rows s)"
  "ed_held (setRow i f s) = ed_held s" "ed_stored (setRow i f s) = ed_stored s"
  "ed_personal (setRow i f s) = ed_personal s" "ed_sent (setRow i f s) = ed_sent s"
  by (simp_all add: setRow_def set_rows)

lemma dropped_rows:
  "map snd (filter (\<lambda>(j, _). j \<noteq> i) (enumerate n xs)) = (if n \<le> i \<and> i - n < length xs then take (i - n) xs @ drop (Suc (i - n)) xs else xs)"
proof (induction xs arbitrary: n)
  case (Cons x xs)
  have "i - n = Suc (i - Suc n)" if "Suc n \<le> i" using that by simp
  then show ?case using Cons [of "Suc n"] by (cases "i = n"; cases "Suc n \<le> i") (auto simp: split_beta)
qed simp

lemma one_personal_update:
  assumes "one_personal rows" and "i < length rows"
    and "ar_role row = Personal \<Longrightarrow> ar_role (rows ! i) = Personal \<or> \<not> list_ex (\<lambda>r. ar_role r = Personal) rows"
  shows "one_personal (rows[i := row])"
proof -
  define P where "P = (\<lambda>r :: access_row. ar_role r = Personal)"
  have whole: "rows = take i rows @ rows ! i # drop (Suc i) rows" using assms(2) by (simp add: id_take_nth_drop)
  have upd: "rows[i := row] = take i rows @ row # drop (Suc i) rows" using assms(2) by (simp add: upd_conv_take_nth_drop)
  have "length (filter P rows) = length (filter P (take i rows)) + (if P (rows ! i) then 1 else 0) + length (filter P (drop (Suc i) rows))"
    by (subst whole) simp
  moreover have "length (filter P (rows[i := row])) = length (filter P (take i rows)) + (if P row then 1 else 0) + length (filter P (drop (Suc i) rows))"
    by (subst upd) simp
  moreover have "\<not> list_ex P rows \<Longrightarrow> length (filter P rows) = 0" by (simp add: filter_empty_conv list_ex_iff)
  ultimately show ?thesis using assms(1,3) by (auto simp: one_personal_def P_def split: if_splits)
qed

lemma permissionsOf_may:
  "p \<in> set (permissionsOf pg s role) \<Longrightarrow> role \<noteq> Personal \<Longrightarrow> may_grant pg p"
  by (auto simp: permissionsOf_def may_grant_def list_ex_iff find_Some_iff find_Some_iff2 split: option.splits if_splits)

lemma one_personal_distinct: "distinct (map ar_role rows) \<Longrightarrow> one_personal rows"
proof (induction rows)
  case (Cons row rows)
  have "filter (\<lambda>r. ar_role r = Personal) rows = []" if "ar_role row = Personal"
    using Cons.prems that by (metis (mono_tags, lifting) distinct.simps(2) filter_False image_eqI list.set_map list.simps(9))
  then show ?case using Cons by (simp add: one_personal_def)
qed (simp add: one_personal_def)

lemma role_offered_simps [simp]:
  "ar_role row = Role r \<Longrightarrow> role_offered choices row = (r \<in> set (map ro_id choices))"
  "ar_role row = Personal \<Longrightarrow> role_offered choices row"
  "ar_role row = NoRole \<Longrightarrow> role_offered choices row"
  by (simp_all add: role_offered_def)

lemma role_offered_iff: "role_offered choices row \<longleftrightarrow> (\<forall>r. ar_role row = Role r \<longrightarrow> r \<in> set (map ro_id choices))"
  by (cases "ar_role row") simp_all

lemma open_ok: "ed_ok pg (open_access held own)"
proof -
  have "one_personal (rowsFrom held)" using rowsFrom_rows [of held] by (simp add: rows_for_def one_personal_distinct)
  moreover have "role_offered (roleChoices roles held give) row" if "row \<in> set (rowsFrom held)" for row roles give
    using held_roles_choosable [OF that, of _ roles give] by (auto simp: role_offered_iff)
  ultimately show ?thesis
    by (simp add: ed_ok_def roles_offered_def editor_choices_def open_access_def own_accounted_def list_all_iff)
qed

lemma choices_of [simp]:
  "editor_choices pg (setRow i f s) = editor_choices pg s"
  "editor_choices pg (s\<lparr>ed_personal := own\<rparr>) = editor_choices pg s"
  by (simp_all add: editor_choices_def)

lemma setRow_ok:
  assumes "ed_ok pg s" and "i < length (ed_rows s) \<Longrightarrow> ar_role (f (ed_rows s ! i)) = Personal \<Longrightarrow>
      ar_role (ed_rows s ! i) = Personal \<or> \<not> hasPersonalRow s"
    and "\<And>r. i < length (ed_rows s) \<Longrightarrow> ar_role (f (ed_rows s ! i)) = Role r \<Longrightarrow> r \<in> set (map ro_id (editor_choices pg s))"
  shows "ed_ok pg (setRow i f s)"
proof (cases "i < length (ed_rows s)")
  case True
  have "one_personal ((ed_rows s)[i := f (ed_rows s ! i)])"
    using assms(1,2) True by (intro one_personal_update) (auto simp: ed_ok_def hasPersonalRow_def)
  moreover have "roles_offered pg (setRow i f s)"
    using assms(1,3) True set_update_subset_insert [of "ed_rows s" i "f (ed_rows s ! i)"]
    by (auto simp: roles_offered_def ed_ok_def list_all_iff role_offered_iff dest!: set_mp [OF set_update_subset_insert])
  ultimately show ?thesis using assms(1) True by (simp add: ed_ok_def own_accounted_def)
next
  case False
  have "setRow i f s = s" using False by (simp add: setRow_def set_rows)
  then show ?thesis using assms(1) by simp
qed

lemma appended_ok:
  assumes "ed_ok pg s" and "role = NoRole \<or> role = Personal \<and> \<not> hasPersonalRow s"
  shows "ed_ok pg (s\<lparr>ed_rows := ed_rows s @ [\<lparr>ar_role = role, ar_projects = None\<rparr>]\<rparr>)"
  using assms
  by (auto simp: ed_ok_def one_personal_def roles_offered_def own_accounted_def editor_choices_def hasPersonalRow_def
      filter_empty_conv list_ex_iff)

lemma removed_ok: "ed_ok pg s \<Longrightarrow> ed_ok pg (remove_row i s)"
proof (cases "i < length (ed_rows s)")
  case True
  assume ok: "ed_ok pg s"
  have rows: "ed_rows (remove_row i s) = take i (ed_rows s) @ drop (Suc i) (ed_rows s)"
    using True by (simp add: remove_row_def dropped_rows)
  have whole: "ed_rows s = take i (ed_rows s) @ ed_rows s ! i # drop (Suc i) (ed_rows s)"
    using True by (simp add: id_take_nth_drop)
  have "length (filter P (take i (ed_rows s) @ drop (Suc i) (ed_rows s))) \<le> length (filter P (ed_rows s))" for P
    by (subst (3) whole) simp
  then have "one_personal (ed_rows (remove_row i s))"
    using ok unfolding ed_ok_def one_personal_def rows by (meson le_trans)
  moreover have "set (ed_rows (remove_row i s)) \<subseteq> set (ed_rows s)"
    unfolding rows by (auto dest: in_set_takeD in_set_dropD)
  ultimately show ?thesis using ok
    by (auto simp: ed_ok_def roles_offered_def own_accounted_def list_all_iff remove_row_def editor_choices_def)
next
  case False
  assume "ed_ok pg s"
  moreover have "remove_row i s = s" using False by (simp add: remove_row_def dropped_rows)
  ultimately show ?thesis by simp
qed

lemma own_ok:
  "ed_ok pg s \<Longrightarrow> (\<And>p. p \<in> set own \<Longrightarrow> p \<in> set (ed_personal s) \<or> may_grant pg p) \<Longrightarrow> ed_ok pg (s\<lparr>ed_personal := own\<rparr>)"
  by (auto simp: ed_ok_def roles_offered_def own_accounted_def list_all_iff)

lemma granted:
  assumes "grants pg s key = Some r" and "a \<in> set (cr_actions r)"
  shows "may_grant pg \<lparr>pm_resource = key, pm_action = a\<rparr>" "cr_key r = key"
proof -
  have r: "r \<in> set (grantable (pg_catalog pg) (pg_may pg))" and k: "cr_key r = key"
    using assms(1) by (auto simp: grants_def find_Some_iff split: if_splits)
  then obtain c where "c \<in> set (pg_catalog pg)" "r = c\<lparr>cr_actions := filter (pg_may pg (cr_key c)) (cr_actions c)\<rparr>"
    by (auto simp: grantable_def)
  then show "may_grant pg \<lparr>pm_resource = key, pm_action = a\<rparr>"
    using k assms(2) by (auto simp: may_grant_def list_ex_iff)
  show "cr_key r = key" using k .
qed

lemma toggled_own: "p \<in> set (toggle own key a) \<Longrightarrow> p \<in> set own \<or> p = \<lparr>pm_resource = key, pm_action = a\<rparr>"
  by (auto simp: toggle_def split: if_splits)

lemma row_toggled_own:
  "p \<in> set (toggleRow own r) \<Longrightarrow> p \<in> set own \<or> (\<exists>a \<in> set (cr_actions r). p = \<lparr>pm_resource = cr_key r, pm_action = a\<rparr>)"
  by (auto simp: toggleRow_def Let_def split: if_splits)

lemma chooseRole_ok:
  assumes "ed_ok pg s" and "i < length (ed_rows s)" and "line_offers pg s (ed_rows s ! i) role"
  shows "ed_ok pg (chooseRole pg i role s)"
proof -
  define draft where "draft = (if role = Personal \<and> ed_personal s = [] then permissionsOf pg s (row_role s i) else ed_personal s)"
  have "ed_ok pg (s\<lparr>ed_personal := draft\<rparr>)"
    using assms(1) permissionsOf_may [of _ pg s "row_role s i"]
    by (intro own_ok) (auto simp: draft_def permissionsOf_def split: if_splits)
  moreover have "ar_role (ed_rows s ! i) = Personal \<or> \<not> hasPersonalRow s" if "role = Personal"
    using assms(3) that by (auto simp: line_offers_def personalTaken_def)
  moreover have "r \<in> set (map ro_id (editor_choices pg s))" if "role = Role r" for r
    using assms(3) that by (simp add: line_offers_def)
  ultimately show ?thesis
    unfolding chooseRole_def Let_def draft_def [symmetric]
    by (intro setRow_ok) (auto simp: hasPersonalRow_def split: if_splits)
qed

lemma customize_ok:
  assumes "ed_ok pg s" and "i < length (ed_rows s)" and "\<not> personalTaken s (ed_rows s ! i)"
  shows "ed_ok pg (customize pg i s)"
proof -
  have "ed_ok pg (s\<lparr>ed_personal := permissionsOf pg s (row_role s i)\<rparr>)"
    using assms(1) permissionsOf_may [of _ pg s "row_role s i"]
    by (intro own_ok) (auto simp: permissionsOf_def split: if_splits)
  then show ?thesis
    using assms(3) unfolding customize_def by (intro setRow_ok) (auto simp: personalTaken_def hasPersonalRow_def)
qed

lemma projects_ok:
  assumes "ed_ok pg s"
  shows "ed_ok pg (setRow i (\<lambda>row. row\<lparr>ar_projects := f row\<rparr>) s)"
proof (rule setRow_ok [OF assms])
  show "ar_role ((ed_rows s ! i)\<lparr>ar_projects := f (ed_rows s ! i)\<rparr>) = Role r \<Longrightarrow> r \<in> set (map ro_id (editor_choices pg s))"
    if "i < length (ed_rows s)" for r
    using assms that nth_mem [OF that] by (auto simp: ed_ok_def roles_offered_def list_all_iff role_offered_iff)
qed simp

lemma unseen_ok:
  "ed_ok pg (s\<lparr>ed_pending := p, ed_sent := q\<rparr>) = ed_ok pg s"
  "ed_ok pg (s\<lparr>ed_pending := p, ed_notices := n\<rparr>) = ed_ok pg s"
  "ed_ok pg (s\<lparr>ed_sent := q, ed_notices := n\<rparr>) = ed_ok pg s"
  by (simp_all add: ed_ok_def roles_offered_def own_accounted_def editor_choices_def)

lemma grant_ok: "ed_ok pg s \<Longrightarrow> ed_ok pg (access_step pg s (Grant key a))"
  using granted(1) toggled_own by (auto simp: access_step_def intro!: own_ok split: option.split) blast+

lemma grant_row_ok: "ed_ok pg s \<Longrightarrow> ed_ok pg (access_step pg s (Grant_row key))"
  using granted by (auto simp: access_step_def intro!: own_ok dest!: row_toggled_own split: option.split)

lemma add_ok: "ed_ok pg s \<Longrightarrow> ed_ok pg (access_step pg s Add_line)"
  using appended_ok [of pg s NoRole] appended_ok [of pg s Personal]
  by (auto simp: access_step_def addRow_def canAddAnother_def hasPersonalRow_def)

lemma access_step_ok: "ed_ok pg s \<Longrightarrow> ed_ok pg (access_step pg s e)"
proof (cases e)
  case Add_line
  then show "ed_ok pg s \<Longrightarrow> ?thesis" by (simp only: add_ok)
next
  case (Grant key a)
  then show "ed_ok pg s \<Longrightarrow> ?thesis" by (simp only: grant_ok)
next
  case (Grant_row key)
  then show "ed_ok pg s \<Longrightarrow> ?thesis" by (simp only: grant_row_ok)
next
  case (Choose i role)
  then show "ed_ok pg s \<Longrightarrow> ?thesis" by (auto simp: access_step_def intro: chooseRole_ok)
next
  case (Customize_line i)
  then show "ed_ok pg s \<Longrightarrow> ?thesis" by (auto simp: access_step_def intro: customize_ok split: role_choice.split)
next
  case Press_save
  then show "ed_ok pg s \<Longrightarrow> ?thesis" by (simp add: access_step_def press_save_def unseen_ok)
next
  case (Save_answered i ok)
  then show "ed_ok pg s \<Longrightarrow> ?thesis" by (simp add: access_step_def unseen_ok)
next
  case (Access_read held own)
  then show "ed_ok pg s \<Longrightarrow> ?thesis" by (simp add: access_step_def unseen_ok open_ok)
qed (auto simp: access_step_def Let_def projects_ok removed_ok)

lemma access_run_ok: "ed_ok pg s \<Longrightarrow> ed_ok pg (access_run pg s es)"
  by (induction es arbitrary: s) (auto simp: access_run_def access_step_ok)

section \<open>What is sent\<close>

lemma body_of_ok:
  assumes "ed_ok pg s" and "\<not> list_ex missesProjects (ed_rows s)"
  shows "list_all (\<lambda>(r, _). r \<in> set (map ro_id (editor_choices pg s))) (sa_assignments (editor_body s))"
    and "(case sa_personal (editor_body s) of
      Some (own, where_held) \<Rightarrow> where_held \<noteq> Some [] \<and> list_all (\<lambda>p. p \<in> set (ed_stored s) \<or> may_grant pg p) own
    | None \<Rightarrow> True)"
    and "list_all (\<lambda>row. case ar_role row of Role r \<Rightarrow> r \<in> fst ` set (sa_assignments (editor_body s)) | _ \<Rightarrow> True) (ed_rows s)"
proof -
  have off: "\<And>row. row \<in> set (ed_rows s) \<Longrightarrow> role_offered (editor_choices pg s) row"
    and own: "list_all (\<lambda>p. p \<in> set (ed_stored s) \<or> may_grant pg p) (ed_personal s)"
    using assms(1) by (auto simp: ed_ok_def roles_offered_def own_accounted_def list_all_iff)
  have full: "row \<in> set (ed_rows s) \<Longrightarrow> ar_role row \<noteq> NoRole \<Longrightarrow> ar_projects row \<noteq> Some []" for row
    using assms(2) by (auto simp: missesProjects_def list_ex_iff)
  show "list_all (\<lambda>(r, _). r \<in> set (map ro_id (editor_choices pg s))) (sa_assignments (editor_body s))"
    using off by (fastforce simp: list_all_iff editor_body_def toSetAccess_def row_mem role_offered_iff)
  show "case sa_personal (editor_body s) of
      Some (own, where_held) \<Rightarrow> where_held \<noteq> Some [] \<and> list_all (\<lambda>p. p \<in> set (ed_stored s) \<or> may_grant pg p) own
    | None \<Rightarrow> True"
  proof (cases "List.find (\<lambda>r. ar_role r = Personal) (ed_rows s)")
    case (Some row)
    then have "ar_role row = Personal" "row \<in> set (ed_rows s)" by (auto simp: find_Some_iff)
    then show ?thesis using full [of row] own Some by (simp add: editor_body_def toSetAccess_def)
  qed (simp add: editor_body_def toSetAccess_def)
  show "list_all (\<lambda>row. case ar_role row of Role r \<Rightarrow> r \<in> fst ` set (sa_assignments (editor_body s)) | _ \<Rightarrow> True) (ed_rows s)"
  proof (clarsimp simp: list_all_iff split: role_choice.split)
    fix row r
    assume row: "row \<in> set (ed_rows s)" "ar_role row = Role r"
    have "(r, hd (case ar_projects row of None \<Rightarrow> [None] | Some ps \<Rightarrow> map Some ps)) \<in> set (row_assignments row)"
      using full [OF row(1)] row(2) by (auto simp: row_mem hd_map split: option.split)
    then show "r \<in> fst ` set (sa_assignments (editor_body s))"
      using row(1) by (force simp: editor_body_def toSetAccess_def)
  qed
qed

lemma only_save_sends:
  "e \<noteq> Press_save \<Longrightarrow> ed_sent (access_step pg s e) = ed_sent s"
  by (cases e) (auto simp: access_step_def Let_def addRow_def chooseRole_def customize_def remove_row_def open_access_def
      split: option.split role_choice.split)

text \<open>
  C13: whatever is pressed, and whatever is answered or read again meanwhile, only the save button
  sends, at most one request at a time and none from a page that is read-only. What it sends differs from what is stored;
  every role in it is one the page offers, every line with a role is in it, no line applies to an
  empty list of projects, and each permission of the member's own was stored, is of a role, or is one
  the reader may hand out. There is never more than one line of own permissions.
\<close>

theorem access_requests_are_allowed:
  "let s = access_run pg (open_access held own) es in one_personal (ed_rows s) \<and>
    (ed_sent (access_step pg s e) = ed_sent s
     \<or> (\<exists>body. ed_sent (access_step pg s e) = ed_sent s @ [body] \<and> e = Press_save \<and> body = editor_body s
          \<and> ed_pending s = None \<and> \<not> readOnly pg \<and> \<not> sameAccess body (stored_body s)
          \<and> list_all (\<lambda>(r, _). r \<in> set (map ro_id (editor_choices pg s))) (sa_assignments body)
          \<and> list_all (\<lambda>row. case ar_role row of Role r \<Rightarrow> r \<in> fst ` set (sa_assignments body) | _ \<Rightarrow> True) (ed_rows s)
          \<and> (case sa_personal body of
               Some (own, where_held) \<Rightarrow> where_held \<noteq> Some [] \<and> list_all (\<lambda>p. p \<in> set (ed_stored s) \<or> may_grant pg p) own
             | None \<Rightarrow> True)))"
proof -
  define s where "s = access_run pg (open_access held own) es"
  have ok: "ed_ok pg s" unfolding s_def by (rule access_run_ok [OF open_ok])
  then have one: "one_personal (ed_rows s)" by (simp add: ed_ok_def)
  show ?thesis
  proof (cases "e = Press_save \<and> \<not> (readOnly pg \<or> ed_pending s \<noteq> None \<or> \<not> dirty s \<or> list_ex missesProjects (ed_rows s))")
    case False
    then have "ed_sent (access_step pg s e) = ed_sent s"
      using only_save_sends [of e pg s] by (cases "e = Press_save") (auto simp: access_step_def press_save_def)
    then show ?thesis using one by (simp add: Let_def flip: s_def)
  next
    case True
    then have "ed_sent (access_step pg s e) = ed_sent s @ [editor_body s]"
      by (auto simp: access_step_def press_save_def)
    then show ?thesis using one True body_of_ok [OF ok] by (auto simp: dirty_def Let_def simp flip: s_def)
  qed
qed

text \<open>
  A line whose permissions no longer reach projects hides where it applies, without clearing it: with
  no project ticked it reads \<open>Everywhere\<close>, asks for a project, and cannot be saved.
\<close>

definition blank_page :: page where
  "blank_page =
     \<lparr>pg_roles = [],
      pg_catalog = [\<lparr>cr_key = ''logs'', cr_module = ''monitoring'', cr_scope = Scope_project, cr_actions = [Read]\<rparr>,
                    \<lparr>cr_key = ''users'', cr_module = ''workspace'', cr_scope = Scope_instance, cr_actions = [Read]\<rparr>],
      pg_projects = [4], pg_may = (\<lambda>_ _. True), pg_owner = False, pg_reason = None\<rparr>"

lemma hidden_picker_blocks_saving:
  "let s = access_run blank_page (open_access [] [])
             [Add_line, Grant ''logs'' Read, Pick_all 0, Grant ''users'' Read, Grant ''logs'' Read]
   in dirty s \<and> \<not> line_reaches blank_page s Personal \<and> list_ex missesProjects (ed_rows s)
      \<and> access_step blank_page s Press_save = s \<and> access_step blank_page s (Pick_all 0) = s"
  by code_simp

end
