(* ===== verification/Languages.thy ===== *)
theory Languages
  imports Timestamps Observable
begin

text \<open>
  The language and the clock a reader sees: which language and zone are theirs
  (\<open>shared/i18n/routing.ts\<close>, \<open>config.ts\<close>), the store that resolves them (\<open>shared/i18n/intl.ts\<close>) and
  the list of zones (\<open>shared/lib/time-zones.ts\<close>). What \<open>Intl\<close> knows is a parameter: its zones
  (\<open>None\<close> when asking throws) and the civil time of a zone.
\<close>

section \<open>Languages and zones\<close>

definition LOCALES :: "string list" where
  "LOCALES = [''en'', ''zh'', ''fr'', ''es'', ''ro'']"

definition DEFAULT_LOCALE :: string where
  "DEFAULT_LOCALE = ''en''"

definition isLocale :: "string option \<Rightarrow> bool" where
  "isLocale v = (case v of Some s \<Rightarrow> s \<in> set LOCALES | None \<Rightarrow> False)"

definition FALLBACK_TIME_ZONE :: string where
  "FALLBACK_TIME_ZONE = ''UTC''"

fun accepted_locale :: "string list \<Rightarrow> string" where
  "accepted_locale [] = DEFAULT_LOCALE"
| "accepted_locale (tag # tags) =
     (case List.find (\<lambda>l. l = to_lower (trim (hd (split_on (CHR ''-'') tag)))) LOCALES of
        Some l \<Rightarrow> l | None \<Rightarrow> accepted_locale tags)"

definition resolveLocale :: "string option \<Rightarrow> string list \<Rightarrow> string" where
  "resolveLocale preferred accepted = (if isLocale preferred then the preferred else accepted_locale accepted)"

definition isValidTimeZone :: "string list option \<Rightarrow> string \<Rightarrow> bool" where
  "isValidTimeZone zones v = (case zones of Some zs \<Rightarrow> v \<in> set zs | None \<Rightarrow> False)"

definition resolveTimeZone :: "string list option \<Rightarrow> string option \<Rightarrow> string" where
  "resolveTimeZone zones stored =
     (case stored of
        Some z \<Rightarrow> if z = [] \<or> \<not> isValidTimeZone zones z then FALLBACK_TIME_ZONE else z
      | None \<Rightarrow> FALLBACK_TIME_ZONE)"

text \<open>The named formats: for each, the options \<open>Intl\<close> is given.\<close>

type_synonym named_formats = "(string \<times> (string \<times> jv) list) list"

definition dateTime_formats :: "string \<Rightarrow> named_formats" where
  "dateTime_formats timeZone =
     (let showZone = (timeZone = FALLBACK_TIME_ZONE);
          o2 = (\<lambda>k. (k, JStr ''2-digit''))
      in [(''date'', [(''year'', JStr ''numeric''), (''month'', JStr ''short''), (''day'', JStr ''numeric'')]),
          (''dateTime'', [(''dateStyle'', JStr ''medium''), (''timeStyle'', JStr (if showZone then ''long'' else ''short''))]),
          (''precise'', [(''dateStyle'', JStr ''medium''), (''timeStyle'', JStr (if showZone then ''long'' else ''medium''))]),
          (''logLine'', [(''month'', JStr ''short''), (''day'', JStr ''numeric''), o2 ''hour'', o2 ''minute'', o2 ''second'',
             (''fractionalSecondDigits'', JNum (Fin 3))]),
          (''time'', [o2 ''hour'', o2 ''minute'', o2 ''second''] @
             (if showZone then [(''timeZoneName'', JStr ''short'')] else [])),
          (''axisDay'', [(''month'', JStr ''short''), (''day'', JStr ''numeric'')]),
          (''axisDayUtc'', [(''month'', JStr ''short''), (''day'', JStr ''numeric''), (''timeZone'', JStr ''UTC'')]),
          (''axisTime'', [(''month'', JStr ''short''), (''day'', JStr ''numeric''), o2 ''hour'', o2 ''minute''])])"

definition number_formats :: named_formats where
  "number_formats =
     [(''compact'', [(''notation'', JStr ''compact''), (''maximumFractionDigits'', JNum (Fin 1))]),
      (''percent'', [(''style'', JStr ''percent''), (''maximumFractionDigits'', JNum (Fin 1))]),
      (''percentChange'', [(''style'', JStr ''percent''), (''signDisplay'', JStr ''exceptZero''),
         (''maximumFractionDigits'', JNum (Fin 1))])]"

definition formatsFor :: "string \<Rightarrow> named_formats \<times> named_formats" where
  "formatsFor timeZone = (dateTime_formats timeZone, number_formats)"

lemma find_equal: "List.find (\<lambda>l. l = x) ls = (if x \<in> set ls then Some x else None)"
  by (induction ls) auto

lemma accepted_locale_in: "accepted_locale tags \<in> set LOCALES"
  by (induction tags) (auto simp: find_equal DEFAULT_LOCALE_def LOCALES_def)

lemma resolveLocale_in: "resolveLocale preferred accepted \<in> set LOCALES"
  using accepted_locale_in by (auto simp: resolveLocale_def isLocale_def split: option.splits)

lemma resolveTimeZone_known: "resolveTimeZone zones stored = FALLBACK_TIME_ZONE \<or> isValidTimeZone zones (resolveTimeZone zones stored)"
  by (auto simp: resolveTimeZone_def split: option.splits)

text \<open>A clock reading names its zone exactly when that zone is the one no reader chose.\<close>

definition names_zone :: "(string \<times> jv) list \<Rightarrow> bool" where
  "names_zone opts \<longleftrightarrow> (''timeStyle'', JStr ''long'') \<in> set opts \<or> (''timeZoneName'', JStr ''short'') \<in> set opts"

lemma zone_named:
  "list_all (\<lambda>k. case map_of (fst (formatsFor z)) k of Some opts \<Rightarrow> names_zone opts \<longleftrightarrow> z = ''UTC'' | None \<Rightarrow> False)
     [''dateTime'', ''precise'', ''time'']"
  by (simp add: formatsFor_def dateTime_formats_def Let_def FALLBACK_TIME_ZONE_def names_zone_def)

section \<open>The store\<close>

text \<open>
  The two columns of the reader the session gives, \<open>None\<close> for no reader. A resolve reads the session,
  then loads the messages of the language; it settles, and a rejection has a reaction of its own.
  Messages are named by their language, \<open>catalogue\<close> being a parameter.
\<close>

record preferences =
  lp_language :: "string option"
  lp_timezone :: "string option"

record 'm snapshot =
  sn_locale :: string
  sn_timeZone :: string
  sn_messages :: 'm
  sn_formats :: "named_formats \<times> named_formats"
  sn_now :: int

datatype 'm resolve =
    Reading_reader
  | Loading_messages string string
  | Resolved "'m snapshot"
  | Rejected
  | Rejected_seen

record 'm intl_store =
  it_next :: nat
  it_requests :: "nat \<Rightarrow> 'm resolve option"
  it_inFlight :: "nat option"
  it_current :: "'m snapshot option"
  it_listeners :: "nat list"
  it_told :: "(nat \<times> 'm snapshot option) list"

definition createIntlStore :: "'m intl_store" where
  "createIntlStore =
     \<lparr>it_next = 0, it_requests = (\<lambda>_. None), it_inFlight = None, it_current = None, it_listeners = [], it_told = []\<rparr>"

definition start_resolve :: "'m intl_store \<Rightarrow> nat \<times> 'm intl_store" where
  "start_resolve s =
     (it_next s, s\<lparr>it_next := it_next s + 1, it_requests := (it_requests s)(it_next s \<mapsto> Reading_reader),
                   it_inFlight := Some (it_next s)\<rparr>)"

definition ensure_intl :: "'m intl_store \<Rightarrow> nat \<times> 'm intl_store" where
  "ensure_intl s = (case it_inFlight s of Some r \<Rightarrow> (r, s) | None \<Rightarrow> start_resolve s)"

definition reload_intl :: "'m intl_store \<Rightarrow> nat \<times> 'm intl_store" where
  "reload_intl s = start_resolve s"

definition publish_intl :: "'m snapshot \<Rightarrow> 'm intl_store \<Rightarrow> 'm intl_store" where
  "publish_intl sn s = s\<lparr>it_current := Some sn, it_told := it_told s @ announce (it_listeners s) (Some sn)\<rparr>"

text \<open>\<open>None\<close> is the read that failed.\<close>

definition session_answered ::
    "string list option \<Rightarrow> string list \<Rightarrow> nat \<Rightarrow> preferences option option \<Rightarrow> 'm intl_store \<Rightarrow> 'm intl_store" where
  "session_answered zones browser r answer s =
     (if it_requests s r \<noteq> Some Reading_reader then s
      else s\<lparr>it_requests := (it_requests s)(r \<mapsto>
        (case answer of
           None \<Rightarrow> Rejected
         | Some user \<Rightarrow> Loading_messages (resolveLocale (Option.bind user lp_language) browser)
                                         (resolveTimeZone zones (Option.bind user lp_timezone))))\<rparr>)"

definition messages_answered :: "(string \<Rightarrow> 'm) \<Rightarrow> nat \<Rightarrow> int option \<Rightarrow> 'm intl_store \<Rightarrow> 'm intl_store" where
  "messages_answered catalogue r now s =
     (case it_requests s r of
        Some (Loading_messages locale timeZone) \<Rightarrow>
          (case now of
             None \<Rightarrow> s\<lparr>it_requests := (it_requests s)(r \<mapsto> Rejected)\<rparr>
           | Some ms \<Rightarrow>
               let sn = \<lparr>sn_locale = locale, sn_timeZone = timeZone, sn_messages = catalogue locale,
                         sn_formats = formatsFor timeZone, sn_now = ms\<rparr>
               in publish_intl sn (s\<lparr>it_requests := (it_requests s)(r \<mapsto> Resolved sn)\<rparr>))
      | _ \<Rightarrow> s)"

definition reject_reacted :: "nat \<Rightarrow> 'm intl_store \<Rightarrow> 'm intl_store" where
  "reject_reacted r s =
     (if it_requests s r \<noteq> Some Rejected then s
      else s\<lparr>it_requests := (it_requests s)(r \<mapsto> Rejected_seen),
             it_inFlight := (if it_inFlight s = Some r then None else it_inFlight s)\<rparr>)"

definition refreshNow :: "int \<Rightarrow> 'm intl_store \<Rightarrow> 'm intl_store" where
  "refreshNow ms s = (case it_current s of Some sn \<Rightarrow> publish_intl (sn\<lparr>sn_now := ms\<rparr>) s | None \<Rightarrow> s)"

text \<open>\<open>None\<close> is the error it throws.\<close>

definition intl_snapshot :: "'m intl_store \<Rightarrow> 'm snapshot option" where
  "intl_snapshot s = it_current s"

definition subscribe_intl :: "nat \<Rightarrow> 'm intl_store \<Rightarrow> 'm intl_store" where
  "subscribe_intl l s = s\<lparr>it_listeners := listener_add l (it_listeners s)\<rparr>"

definition unsubscribe_intl :: "nat \<Rightarrow> 'm intl_store \<Rightarrow> 'm intl_store" where
  "unsubscribe_intl l s = s\<lparr>it_listeners := listener_delete l (it_listeners s)\<rparr>"

datatype intl_event =
    Ensure_intl
  | Reload_intl
  | Session_answered nat "preferences option option"
  | Messages_answered nat "int option"
  | Reject_reacted nat
  | Refresh_now int
  | Subscribe_intl nat
  | Unsubscribe_intl nat

definition intl_step ::
    "string list option \<Rightarrow> string list \<Rightarrow> (string \<Rightarrow> 'm) \<Rightarrow> 'm intl_store \<Rightarrow> intl_event \<Rightarrow> 'm intl_store" where
  "intl_step zones browser catalogue s e =
     (case e of
        Ensure_intl \<Rightarrow> snd (ensure_intl s)
      | Reload_intl \<Rightarrow> snd (reload_intl s)
      | Session_answered r a \<Rightarrow> session_answered zones browser r a s
      | Messages_answered r now \<Rightarrow> messages_answered catalogue r now s
      | Reject_reacted r \<Rightarrow> reject_reacted r s
      | Refresh_now ms \<Rightarrow> refreshNow ms s
      | Subscribe_intl l \<Rightarrow> subscribe_intl l s
      | Unsubscribe_intl l \<Rightarrow> unsubscribe_intl l s)"

definition intl_run ::
    "string list option \<Rightarrow> string list \<Rightarrow> (string \<Rightarrow> 'm) \<Rightarrow> intl_event list \<Rightarrow> 'm intl_store" where
  "intl_run zones browser catalogue es = fold (\<lambda>e s. intl_step zones browser catalogue s e) es createIntlStore"

section \<open>What is shown is one language and one zone\<close>

definition coherent :: "string list option \<Rightarrow> (string \<Rightarrow> 'm) \<Rightarrow> 'm snapshot \<Rightarrow> bool" where
  "coherent zones catalogue sn \<longleftrightarrow>
     sn_locale sn \<in> set LOCALES \<and> sn_messages sn = catalogue (sn_locale sn)
     \<and> sn_formats sn = formatsFor (sn_timeZone sn)
     \<and> (sn_timeZone sn = FALLBACK_TIME_ZONE \<or> isValidTimeZone zones (sn_timeZone sn))"

definition resolve_ok :: "string list option \<Rightarrow> (string \<Rightarrow> 'm) \<Rightarrow> 'm resolve \<Rightarrow> bool" where
  "resolve_ok zones catalogue q =
     (case q of
        Loading_messages l z \<Rightarrow> l \<in> set LOCALES \<and> (z = FALLBACK_TIME_ZONE \<or> isValidTimeZone zones z)
      | Resolved sn \<Rightarrow> coherent zones catalogue sn
      | _ \<Rightarrow> True)"

definition it_ok :: "string list option \<Rightarrow> (string \<Rightarrow> 'm) \<Rightarrow> 'm intl_store \<Rightarrow> bool" where
  "it_ok zones catalogue s \<longleftrightarrow>
     (\<forall>r q. it_requests s r = Some q \<longrightarrow> r < it_next s \<and> resolve_ok zones catalogue q)
     \<and> (\<forall>sn. it_current s = Some sn \<longrightarrow> coherent zones catalogue sn)
     \<and> (\<forall>r. it_inFlight s = Some r \<longrightarrow> (\<exists>q. it_requests s r = Some q \<and> q \<noteq> Rejected_seen))
     \<and> (\<forall>p \<in> set (it_told s). \<exists>sn. snd p = Some sn \<and> coherent zones catalogue sn)"

lemma publish_intl_ok:
  "it_ok zones catalogue s \<Longrightarrow> coherent zones catalogue sn \<Longrightarrow> it_ok zones catalogue (publish_intl sn s)"
  by (auto simp: it_ok_def publish_intl_def announce_def)

lemma intl_request_ok:
  assumes "it_ok zones catalogue s" and "it_requests s r \<noteq> None" and "resolve_ok zones catalogue q"
    and "q = Rejected_seen \<Longrightarrow> it_inFlight s \<noteq> Some r"
  shows "it_ok zones catalogue (s\<lparr>it_requests := (it_requests s)(r \<mapsto> q)\<rparr>)"
  using assms by (auto simp: it_ok_def)

lemma start_resolve_ok: "it_ok zones catalogue s \<Longrightarrow> it_ok zones catalogue (snd (start_resolve s))"
  by (auto simp: it_ok_def start_resolve_def resolve_ok_def less_Suc_eq)

lemma intl_step_ok: "it_ok zones catalogue s \<Longrightarrow> it_ok zones catalogue (intl_step zones browser catalogue s e)"
proof (cases e)
  case (Session_answered r a)
  then show "it_ok zones catalogue s \<Longrightarrow> ?thesis"
    using resolveLocale_in resolveTimeZone_known
    by (auto simp: intl_step_def session_answered_def resolve_ok_def intro!: intl_request_ok split: option.splits)
next
  case (Messages_answered r now)
  assume ok: "it_ok zones catalogue s"
  show ?thesis
  proof (cases "it_requests s r")
    case (Some q)
    show ?thesis
    proof (cases q)
      case (Loading_messages l z)
      then have lz: "l \<in> set LOCALES" "z = FALLBACK_TIME_ZONE \<or> isValidTimeZone zones z"
      proof -
        have "resolve_ok zones catalogue (Loading_messages l z)" using ok Some Loading_messages by (simp add: it_ok_def)
        then show "l \<in> set LOCALES" "z = FALLBACK_TIME_ZONE \<or> isValidTimeZone zones z" by (simp_all add: resolve_ok_def)
      qed
      define sn where "sn = (\<lambda>ms. \<lparr>sn_locale = l, sn_timeZone = z, sn_messages = catalogue l, sn_formats = formatsFor z, sn_now = ms\<rparr>)"
      have c: "coherent zones catalogue (sn ms)" for ms using lz by (simp add: coherent_def sn_def)
      have "it_ok zones catalogue (publish_intl (sn ms) (s\<lparr>it_requests := (it_requests s)(r \<mapsto> Resolved (sn ms))\<rparr>))" for ms
        using Some c by (intro publish_intl_ok intl_request_ok [OF ok]) (simp_all add: resolve_ok_def)
      moreover have "it_ok zones catalogue (s\<lparr>it_requests := (it_requests s)(r \<mapsto> Rejected)\<rparr>)"
        using Some by (intro intl_request_ok [OF ok]) (simp_all add: resolve_ok_def)
      ultimately show ?thesis using Messages_answered Some Loading_messages
        by (simp add: intl_step_def messages_answered_def Let_def sn_def split: option.split)
    qed (use ok Some Messages_answered in \<open>simp_all add: intl_step_def messages_answered_def\<close>)
  qed (use ok Messages_answered in \<open>simp add: intl_step_def messages_answered_def\<close>)
next
  case (Reject_reacted r)
  then show "it_ok zones catalogue s \<Longrightarrow> ?thesis"
    by (auto simp: intl_step_def reject_reacted_def it_ok_def resolve_ok_def)
next
  case (Refresh_now ms)
  assume ok: "it_ok zones catalogue s"
  then have "coherent zones catalogue (sn\<lparr>sn_now := ms\<rparr>)" if "it_current s = Some sn" for sn
    using that by (simp add: it_ok_def coherent_def)
  then show ?thesis using Refresh_now ok publish_intl_ok [OF ok]
    by (simp add: intl_step_def refreshNow_def split: option.split)
next
  case (Subscribe_intl l)
  then show "it_ok zones catalogue s \<Longrightarrow> ?thesis" by (simp add: intl_step_def subscribe_intl_def it_ok_def)
next
  case (Unsubscribe_intl l)
  then show "it_ok zones catalogue s \<Longrightarrow> ?thesis" by (simp add: intl_step_def unsubscribe_intl_def it_ok_def)
qed (simp_all add: intl_step_def ensure_intl_def reload_intl_def start_resolve_ok split: option.split)

lemma intl_run_ok: "it_ok zones catalogue (intl_run zones browser catalogue es)"
proof -
  have "it_ok zones catalogue (createIntlStore :: 'm intl_store)" for catalogue :: "string \<Rightarrow> 'm"
    by (simp add: it_ok_def createIntlStore_def)
  moreover have "it_ok zones catalogue s \<Longrightarrow> it_ok zones catalogue (fold (\<lambda>e s. intl_step zones browser catalogue s e) es s)" for s
    by (induction es arbitrary: s) (simp_all add: intl_step_ok)
  ultimately show ?thesis unfolding intl_run_def by blast
qed

text \<open>
  C14: in every order of reads and answers, what the reader sees is of one piece: one of the languages,
  its own messages, a zone the runtime can format with and the formats of that zone; every listener
  was told only such; and a resolve that failed is never given again, so the next asks anew.
\<close>

theorem what_is_shown_is_one_language:
  "let s = intl_run zones browser catalogue es in
     (case intl_snapshot s of Some sn \<Rightarrow> coherent zones catalogue sn | None \<Rightarrow> True)
     \<and> list_all (\<lambda>(l, told). case told of Some sn \<Rightarrow> coherent zones catalogue sn | None \<Rightarrow> False) (it_told s)
     \<and> (case it_requests (snd (ensure_intl s)) (fst (ensure_intl s)) of
          None \<Rightarrow> False
        | Some q \<Rightarrow> q \<noteq> Rejected_seen)"
proof -
  define s where "s = intl_run zones browser catalogue es"
  have ok: "it_ok zones catalogue s" unfolding s_def by (rule intl_run_ok)
  have "case it_requests (snd (ensure_intl s)) (fst (ensure_intl s)) of None \<Rightarrow> False | Some q \<Rightarrow> q \<noteq> Rejected_seen"
    using ok by (auto simp: ensure_intl_def start_resolve_def it_ok_def split: option.split)
  moreover have "list_all (\<lambda>(l, told). case told of Some sn \<Rightarrow> coherent zones catalogue sn | None \<Rightarrow> False) (it_told s)"
    using ok by (auto simp: it_ok_def list_all_iff split: option.split)
  ultimately show ?thesis using ok unfolding s_def [symmetric]
    by (auto simp: Let_def it_ok_def intl_snapshot_def split: option.split)
qed

text \<open>The listeners are told of every change: the store is one of the observable ones.\<close>

definition intl_changes :: "'m intl_store \<Rightarrow> 'm intl_store \<Rightarrow> bool" where
  "intl_changes s s' \<longleftrightarrow>
     (\<exists>zones browser catalogue e. (\<forall>l. e \<noteq> Subscribe_intl l \<and> e \<noteq> Unsubscribe_intl l) \<and>
        s' = intl_step zones browser catalogue s e)"

lemma intl_announces:
  assumes "\<forall>l. e \<noteq> Subscribe_intl l \<and> e \<noteq> Unsubscribe_intl l"
  shows "it_listeners (intl_step zones browser catalogue s e) = it_listeners s \<and>
    (\<exists>d. it_told (intl_step zones browser catalogue s e) = it_told s @ d \<and>
         (\<forall>l \<in> set (it_listeners s). view l (it_current s) d = it_current (intl_step zones browser catalogue s e)))"
proof -
  have quiet: "\<exists>d. t = t @ d \<and> (\<forall>l \<in> set ls. view l v d = v)" for t :: "(nat \<times> 'b option) list" and ls v
    by (rule exI [of _ "[]"]) simp
  show ?thesis using assms quiet
    by (cases e) (auto simp: intl_step_def ensure_intl_def reload_intl_def start_resolve_def session_answered_def
        messages_answered_def reject_reacted_def refreshNow_def publish_intl_def Let_def split: option.split resolve.split)
qed

interpretation languages: observable intl_changes it_listeners it_current it_told
proof
  fix s s' :: "'m intl_store"
  assume "intl_changes s s'"
  then obtain zones browser catalogue e where e: "\<forall>l. e \<noteq> Subscribe_intl l \<and> e \<noteq> Unsubscribe_intl l"
      "s' = intl_step zones browser catalogue s e"
    unfolding intl_changes_def by blast
  show "it_listeners s' = it_listeners s"
    and "\<exists>d. it_told s' = it_told s @ d \<and> (\<forall>l \<in> set (it_listeners s). view l (it_current s) d = it_current s')"
    using intl_announces [OF e(1), of zones browser catalogue s] unfolding e(2) by blast+
qed

text \<open>
  Two reloads may settle in either order, and the later to settle is shown: a language chosen twice
  in a row can end as the first of the two although the account holds the second.
\<close>

lemma older_reload_overwrites:
  "map_option sn_locale (intl_snapshot (intl_run None [] (\<lambda>l. l)
     [Reload_intl, Session_answered 0 (Some (Some \<lparr>lp_language = Some ''es'', lp_timezone = None\<rparr>)),
      Reload_intl, Session_answered 1 (Some (Some \<lparr>lp_language = Some ''fr'', lp_timezone = None\<rparr>)),
      Messages_answered 1 (Some 0), Messages_answered 0 (Some 1)])) = Some ''es''"
  by code_simp

section \<open>The zones\<close>

record time_zone_option =
  tz_value :: string
  tz_offsetMinutes :: int
  tz_offset :: string

text \<open>
  The civil time of a zone at a moment, as the six numbers the formatter's parts are read as; \<open>None\<close>
  when the formatter rejects the name.
\<close>

type_synonym civil = "string \<Rightarrow> int \<Rightarrow> (int \<times> int \<times> int \<times> int \<times> int \<times> int) option"

definition timeZoneOffsetMinutes :: "civil \<Rightarrow> string \<Rightarrow> int \<Rightarrow> int option" where
  "timeZoneOffsetMinutes civil timeZone now =
     map_option (\<lambda>(year, month, day, hour, minute, second).
         let asUtc = 1000 * (86400 * MakeDay year (month - 1) day + 3600 * hour + 60 * minute + second);
             truncated = now - now mod 1000
         in js_round (of_int (asUtc - truncated) / 60000))
       (civil timeZone now)"

definition padStart2 :: "int \<Rightarrow> string" where
  "padStart2 n = (let s = int_str n in if length s < 2 then CHR ''0'' # s else s)"

definition signedOffset :: "int \<Rightarrow> string" where
  "signedOffset m =
     (if m < 0 then ''-'' else ''+'') @ padStart2 (\<bar>m\<bar> div 60) @ '':'' @ padStart2 (\<bar>m\<bar> mod 60)"

definition formatOffset :: "int \<Rightarrow> string" where
  "formatOffset m = (if m = 0 then ''UTC'' else ''UTC'' @ signedOffset m)"

definition zone_names :: "string list option \<Rightarrow> string list" where
  "zone_names zones =
     (let names = (case zones of Some zs \<Rightarrow> zs | None \<Rightarrow> [])
      in if ''UTC'' \<notin> set names then names @ [''UTC''] else names)"

definition listTimeZones ::
    "string list option \<Rightarrow> civil \<Rightarrow> (string \<Rightarrow> string \<Rightarrow> int) \<Rightarrow> int \<Rightarrow> time_zone_option list" where
  "listTimeZones zones civil locale now =
     sort_by (\<lambda>a b. tz_offsetMinutes a < tz_offsetMinutes b
                \<or> tz_offsetMinutes a = tz_offsetMinutes b \<and> locale (tz_value a) (tz_value b) \<le> 0)
       (List.map_filter (\<lambda>v. map_option (\<lambda>m. \<lparr>tz_value = v, tz_offsetMinutes = m, tz_offset = formatOffset m\<rparr>)
                               (timeZoneOffsetMinutes civil v now))
          (zone_names zones))"

definition spaced :: "string \<Rightarrow> string" where
  "spaced s = map (\<lambda>c. if c = CHR ''_'' then CHR '' '' else c) s"

definition matchesTimeZone :: "time_zone_option \<Rightarrow> string \<Rightarrow> bool" where
  "matchesTimeZone option query =
     (let needle = spaced (to_lower (trim query))
      in needle = [] \<or> str_includes needle (spaced (to_lower (tz_value option)))
         \<or> str_includes needle (signedOffset (tz_offsetMinutes option)))"

text \<open>
  what the picker offers is what a stored choice is read as: every zone listed resolves to itself,
  it carries the offset the formatter gives it, each zone the formatter takes is listed exactly as often
  as the runtime names it, and \<open>UTC\<close> is among them when it can be formatted.
\<close>

theorem listed_zones_are_kept:
  assumes "[] \<notin> set (zone_names zones)"
  shows "list_all (\<lambda>z. resolveTimeZone zones (Some (tz_value z)) = tz_value z
            \<and> timeZoneOffsetMinutes civil (tz_value z) now = Some (tz_offsetMinutes z)
            \<and> tz_offset z = formatOffset (tz_offsetMinutes z)) (listTimeZones zones civil locale now)
    \<and> mset (map tz_value (listTimeZones zones civil locale now))
        = mset (filter (\<lambda>v. timeZoneOffsetMinutes civil v now \<noteq> None) (zone_names zones))
    \<and> ''UTC'' \<in> set (zone_names zones)"
proof -
  define opts where "opts = List.map_filter (\<lambda>v. map_option (\<lambda>m. \<lparr>tz_value = v, tz_offsetMinutes = m, tz_offset = formatOffset m\<rparr>)
      (timeZoneOffsetMinutes civil v now)) (zone_names zones)"
  have perm: "mset (listTimeZones zones civil locale now) = mset opts" by (simp add: listTimeZones_def opts_def)
  have "list_all (\<lambda>z. resolveTimeZone zones (Some (tz_value z)) = tz_value z
      \<and> timeZoneOffsetMinutes civil (tz_value z) now = Some (tz_offsetMinutes z)
      \<and> tz_offset z = formatOffset (tz_offsetMinutes z)) opts"
  proof -
    have "resolveTimeZone zones (Some v) = v" if "v \<in> set (zone_names zones)" for v
    proof -
      have "v \<noteq> []" using that assms by auto
      then show ?thesis using that
        by (auto simp: resolveTimeZone_def isValidTimeZone_def FALLBACK_TIME_ZONE_def zone_names_def Let_def split: option.splits if_splits)
    qed
    then show ?thesis by (auto simp: opts_def list_all_iff map_filter_def)
  qed
  moreover have "map tz_value opts = filter (\<lambda>v. timeZoneOffsetMinutes civil v now \<noteq> None) (zone_names zones)"
  proof -
    have "map tz_value (List.map_filter (\<lambda>v. map_option (\<lambda>m. \<lparr>tz_value = v, tz_offsetMinutes = m, tz_offset = formatOffset m\<rparr>)
        (f v)) vs) = filter (\<lambda>v. f v \<noteq> None) vs" for f vs
      by (induction vs) (auto simp: map_filter_simps split: option.split)
    then show ?thesis by (simp add: opts_def)
  qed
  moreover have "''UTC'' \<in> set (zone_names zones)" by (simp add: zone_names_def Let_def)
  moreover have "set (listTimeZones zones civil locale now) = set opts" using perm by (metis set_mset_mset)
  moreover have "mset (map tz_value (listTimeZones zones civil locale now)) = mset (map tz_value opts)"
    using perm by (simp only: mset_map)
  ultimately show ?thesis by (simp add: list_all_iff)
qed

definition sample_civil :: civil where
  "sample_civil z now =
     (if z = ''Mars/Base'' then None
      else Some (1970, 1, 1, if z = ''Asia/Kolkata'' then 5 else 0, if z = ''Asia/Kolkata'' then 30 else 0, 0))"

lemma listed_zones_are_kept_witness:
  "mset (map tz_value (listTimeZones (Some [''Mars/Base'', ''Asia/Kolkata'']) sample_civil (\<lambda>_ _. 0) 0))
     = mset [''Asia/Kolkata'', ''UTC'']"
proof -
  have n: "zone_names (Some [''Mars/Base'', ''Asia/Kolkata'']) = [''Mars/Base'', ''Asia/Kolkata'', ''UTC'']"
    by (simp add: zone_names_def)
  have "[] \<notin> set (zone_names (Some [''Mars/Base'', ''Asia/Kolkata'']))" by (simp add: n)
  from listed_zones_are_kept [OF this, of sample_civil 0 "\<lambda>_ _. 0"] show ?thesis
    by (simp add: n timeZoneOffsetMinutes_def sample_civil_def)
qed

section \<open>The label of an offset\<close>

lemma padStart2_inj:
  assumes "0 \<le> a" and "0 \<le> b" and "a < 100" and "b < 100" and "padStart2 a = padStart2 b"
  shows "a = b"
proof -
  have all: "list_all (\<lambda>m. digits_val (padStart2 (int m)) = m) [0..<100]" by code_simp
  have "digits_val (padStart2 x) = nat x" if "0 \<le> x" "x < 100" for x
  proof -
    have "nat x \<in> set [0..<100]" using that by auto
    then show ?thesis using all that unfolding list_all_iff by force
  qed
  then have "nat a = nat b" using assms by metis
  then show ?thesis using assms by simp
qed

lemma padStart2_length: "0 \<le> a \<Longrightarrow> a < 100 \<Longrightarrow> length (padStart2 a) = 2"
proof -
  assume a: "0 \<le> a" "a < 100"
  have "list_all (\<lambda>m. length (padStart2 (int m)) = 2) [0..<100]" by code_simp
  moreover have "nat a \<in> set [0..<100]" using a by auto
  ultimately show "length (padStart2 a) = 2" using a unfolding list_all_iff by force
qed

lemma same_parts: "length p = length q \<Longrightarrow> p @ '':'' @ u = q @ '':'' @ v \<Longrightarrow> p = q \<and> u = v"
  by simp

text \<open>
  within the offsets a clock can have, two zones with the same label have the same offset, and the
  label is as long as it is read: nothing, or a sign and five characters after \<open>UTC\<close>.
\<close>

theorem offset_labels_are_distinct:
  assumes "\<bar>a\<bar> < 6000" and "\<bar>b\<bar> < 6000"
  shows "(formatOffset a = formatOffset b \<longleftrightarrow> a = b)
    \<and> length (signedOffset a) = 6 \<and> length (formatOffset a) = (if a = 0 then 3 else 9)"
proof -
  have r: "0 \<le> \<bar>x\<bar> div 60" "\<bar>x\<bar> div 60 < 100" "0 \<le> \<bar>x\<bar> mod 60" "\<bar>x\<bar> mod 60 < 100" if "\<bar>x\<bar> < 6000" for x :: int
  proof -
    show "\<bar>x\<bar> div 60 < 100" using that by linarith
    show "\<bar>x\<bar> mod 60 < 100" using pos_mod_bound [of 60 "\<bar>x\<bar>"] by linarith
  qed simp_all
  have len: "length (signedOffset x) = 6" if "\<bar>x\<bar> < 6000" for x
    unfolding signedOffset_def length_append padStart2_length [OF r(1,2) [OF that]] padStart2_length [OF r(3,4) [OF that]] by simp
  have same: "x = y" if "\<bar>x\<bar> < 6000" "\<bar>y\<bar> < 6000" "signedOffset x = signedOffset y" for x y
  proof -
    have sign: "x < 0 \<longleftrightarrow> y < 0" using that(3) by (auto simp: signedOffset_def split: if_splits)
    then have "padStart2 (\<bar>x\<bar> div 60) @ '':'' @ padStart2 (\<bar>x\<bar> mod 60) = padStart2 (\<bar>y\<bar> div 60) @ '':'' @ padStart2 (\<bar>y\<bar> mod 60)"
      using that(3) by (auto simp: signedOffset_def split: if_splits)
    from same_parts [OF _ this] have "padStart2 (\<bar>x\<bar> div 60) = padStart2 (\<bar>y\<bar> div 60) \<and> padStart2 (\<bar>x\<bar> mod 60) = padStart2 (\<bar>y\<bar> mod 60)"
      unfolding padStart2_length [OF r(1,2) [OF that(1)]] padStart2_length [OF r(1,2) [OF that(2)]] by blast
    then have d: "\<bar>x\<bar> div 60 = \<bar>y\<bar> div 60" and m: "\<bar>x\<bar> mod 60 = \<bar>y\<bar> mod 60"
      using padStart2_inj [OF r(1) [OF that(1)] r(1) [OF that(2)] r(2) [OF that(1)] r(2) [OF that(2)]]
        padStart2_inj [OF r(3) [OF that(1)] r(3) [OF that(2)] r(4) [OF that(1)] r(4) [OF that(2)]] by simp_all
    have "\<bar>x\<bar> = \<bar>y\<bar>"
      using div_mult_mod_eq [of "\<bar>x\<bar>" 60] div_mult_mod_eq [of "\<bar>y\<bar>" 60] unfolding d m by (rule trans [OF sym])
    then show ?thesis using sign by linarith
  qed
  have "formatOffset a = formatOffset b \<longleftrightarrow> a = b"
    using same [OF assms] len [OF assms(1)] len [OF assms(2)] by (auto simp: formatOffset_def split: if_splits)
  then show ?thesis using len [OF assms(1)] by (simp add: formatOffset_def)
qed

lemma offset_labels_are_distinct_witness:
  "formatOffset (-210) \<noteq> formatOffset 210 \<and> length (formatOffset (-210)) = 9"
proof -
  have "\<bar>-210 :: int\<bar> < 6000" "\<bar>210 :: int\<bar> < 6000" by simp_all
  from offset_labels_are_distinct [OF this] show ?thesis by simp
qed

text \<open>A zone is found by its name with blanks for underscores, in any case.\<close>

lemma str_includes_self: "str_includes w w"
  by (cases w) (simp_all add: starts_with_def)

lemma zone_found_by_name:
  assumes "trim (spaced (tz_value z)) = spaced (tz_value z)"
  shows "matchesTimeZone z (spaced (tz_value z))"
proof -
  have "spaced (to_lower (spaced s)) = spaced (to_lower s)" for s
    by (auto simp: spaced_def to_lower_def char_lower_def is_upper_def)
  then show ?thesis using assms str_includes_self by (simp add: matchesTimeZone_def Let_def)
qed

lemma every_zone_without_query: "matchesTimeZone z []"
  by (simp add: matchesTimeZone_def spaced_def to_lower_def trim_def trim_start_def trim_end_def)

end
