(* ===== verification/TemplateEditor.thy ===== *)
theory TemplateEditor
  imports MessageTemplate
begin

text \<open>
  The editor of the message body, \<open>json-template-editor.tsx\<close>: what is suggested and inserted, what is
  drawn as a pill, where a refusal is underlined, how the rendered body is coloured; and the preview
  beside it, \<open>use-template-preview.ts\<close> over \<open>use-settled.ts\<close>. CodeMirror is the holder of the text.
\<close>

section \<open>Suggestions and insertion\<close>

text \<open>The list is offered in an open expression, unprompted only at a name or right after the braces.\<close>

definition suggests :: "string \<Rightarrow> nat \<Rightarrow> bool \<Rightarrow> nat option" where
  "suggests doc caret explicit =
     (case expressionAt doc caret of
        None \<Rightarrow> None
      | Some e \<Rightarrow> if oe_word e = [] \<and> \<not> oe_fresh e \<and> \<not> explicit then None else Some (oe_from e))"

text \<open>\<open>/^\s*\}\}/\<close> on the three characters after the word.\<close>

definition closes_at_once :: "string \<Rightarrow> bool" where
  "closes_at_once after = starts_with [CHR 0x7D, CHR 0x7D] (dropWhile is_ws after)"

text \<open>Accepting a field: the text, and where the caret is put.\<close>

definition apply_completion :: "string \<Rightarrow> nat \<Rightarrow> nat \<Rightarrow> string \<Rightarrow> string \<times> nat" where
  "apply_completion doc from to path =
     (let after = slice to (to + 3) doc;
          insert = path @ (if closes_at_once after then [] else '' '' @ [CHR 0x7D, CHR 0x7D]);
          caret = (if closes_at_once after
                   then to + (case index_of [CHR 0x7D, CHR 0x7D] after of Some i \<Rightarrow> i | None \<Rightarrow> 0) + 2
                   else from + length insert)
      in (take from doc @ insert @ drop to doc, caret))"

definition insert_field :: "string \<Rightarrow> nat \<Rightarrow> nat \<Rightarrow> template_variable \<Rightarrow> string \<times> nat" where
  "insert_field doc from to v = (take from doc @ tv_snippet v @ drop to doc, from + length (tv_snippet v))"

section \<open>Pills\<close>

datatype decoration = Pill string bool | Mark

definition decorate :: "string \<Rightarrow> nat \<Rightarrow> (range \<times> decoration) list" where
  "decorate doc caret =
     map (\<lambda>e. (\<lparr>rg_from = te_from e, rg_to = te_to e\<rparr>,
                case te_path e of
                  Some p \<Rightarrow> if \<not> (te_from e < caret \<and> caret < te_to e) then Pill p (isKnownVariable p) else Mark
                | None \<Rightarrow> Mark))
       (findExpressions doc)"







text \<open>Drawing never swallows the caret: no pill has it inside.\<close>

lemma pills_spare_caret:
  "(r, Pill p k) \<in> set (decorate doc caret) \<Longrightarrow> \<not> (rg_from r < caret \<and> caret < rg_to r) \<and> k = isKnownVariable p"
  by (auto simp: decorate_def split: option.splits if_splits)

section \<open>Where a refusal is underlined\<close>

datatype template_preview =
    Preview_idle
  | Preview_rendering "string option"
  | Preview_ok string
  | Preview_error string "string option"
  | Preview_unavailable "string option"









section \<open>Accepting a field\<close>

text \<open>Where no braces follow, accepting a field closes the expression and leaves the caret behind it.\<close>

lemma fresh_field_is_closed:
  "\<not> closes_at_once (slice to (to + 3) doc) \<Longrightarrow> from \<le> length doc \<Longrightarrow>
   apply_completion doc from to path
     = (take from doc @ (path @ '' '' @ [CHR 0x7D, CHR 0x7D]) @ drop to doc, from + length path + 3)"
  by (simp add: apply_completion_def Let_def)

text \<open>
  Where they follow, the caret is counted in the text before the change: it is put inside the name
  just inserted, and the pill the choice was to make does not form.
\<close>

lemma accepted_field_keeps_caret_inside:
  "let open_braces = [CHR 0x7B, CHR 0x7B]; shut = [CHR 0x7D, CHR 0x7D];
       (doc, caret) = apply_completion (open_braces @ '' iss '' @ shut) 3 6 ''issue.title''
   in doc = open_braces @ '' issue.title '' @ shut \<and> caret = 9
      \<and> map snd (decorate doc caret) = [Mark] \<and> map snd (decorate doc (length doc)) = [Pill ''issue.title'' True]"
  by code_simp

section \<open>The colours of the rendered body\<close>

text \<open>\<open>JSON_TOKEN\<close>: the end of a string whose quote has been read, escapes taken with what they escape.\<close>

fun string_rest :: "string \<Rightarrow> string option" where
  "string_rest [] = None"
| "string_rest (c # s) =
     (if c = CHR 0x22 then Some [c]
      else if c = CHR 0x5C
      then (case s of [] \<Rightarrow> None
            | d # t \<Rightarrow> if d = CHR 0x0A \<or> d = CHR 0x0D then None else map_option (\<lambda>r. c # d # r) (string_rest t))
      else map_option (\<lambda>r. c # r) (string_rest s))"

definition string_token :: "string \<Rightarrow> string option" where
  "string_token s = (case s of [] \<Rightarrow> None | c # t \<Rightarrow> if c = CHR 0x22 then map_option (\<lambda>r. c # r) (string_rest t) else None)"

text \<open>\<open>(\s*:)?\<close>\<close>

definition colon_after :: "string \<Rightarrow> string" where
  "colon_after s =
     (if starts_with '':'' (dropWhile is_ws s) then takeWhile is_ws s @ '':'' else [])"

text \<open>\<open>-?\d+(?:\.\d+)?(?:[eE][+-]?\d+)?\<close>\<close>

definition minus_of :: "string \<Rightarrow> string" where
  "minus_of s = (if starts_with ''-'' s then ''-'' else [])"

definition fraction_of :: "string \<Rightarrow> string" where
  "fraction_of s =
     (if starts_with ''.'' s \<and> takeWhile is_digit (drop 1 s) \<noteq> [] then CHR ''.'' # takeWhile is_digit (drop 1 s) else [])"

definition sign_of :: "string \<Rightarrow> string" where
  "sign_of s = (if starts_with ''+'' s \<or> starts_with ''-'' s then take 1 s else [])"

definition exponent_part :: "string \<Rightarrow> string" where
  "exponent_part s =
     (if starts_with ''e'' s \<or> starts_with ''E'' s
      then let sign = sign_of (drop 1 s);
               digits = takeWhile is_digit (drop (length sign) (drop 1 s))
           in if digits \<noteq> [] then take 1 s @ sign @ digits else []
      else [])"

definition number_token :: "string \<Rightarrow> string option" where
  "number_token s =
     (let sign = minus_of s; s1 = drop (length sign) s;
          whole = takeWhile is_digit s1; s2 = drop (length whole) s1;
          fraction = fraction_of s2; s3 = drop (length fraction) s2
      in if whole = [] then None else Some (sign @ whole @ fraction @ exponent_part s3))"

definition word_token :: "string \<Rightarrow> bool \<Rightarrow> string \<Rightarrow> bool" where
  "word_token w after s \<longleftrightarrow>
     \<not> after \<and> starts_with w s \<and> (case drop (length w) s of [] \<Rightarrow> True | c # _ \<Rightarrow> \<not> is_word c)"

datatype colour = Key_colour | String_colour | Literal_colour | Subtle_colour

text \<open>A match at the head of the text: its token, the colon that belongs to it, its colour.\<close>

definition token_at :: "bool \<Rightarrow> string \<Rightarrow> (string \<times> string \<times> colour) option" where
  "token_at after s =
     (case string_token s of
        Some tok \<Rightarrow>
          let colon = colon_after (drop (length tok) s)
          in Some (tok, colon, if colon \<noteq> [] then Key_colour else String_colour)
      | None \<Rightarrow>
          (case number_token s of
             Some tok \<Rightarrow> Some (tok, [], Literal_colour)
           | None \<Rightarrow>
               if word_token ''true'' after s then Some (''true'', [], Literal_colour)
               else if word_token ''false'' after s then Some (''false'', [], Literal_colour)
               else if word_token ''null'' after s then Some (''null'', [], Subtle_colour)
               else None))"

datatype node = Plain string | Token nat string colour

definition plain :: "string \<Rightarrow> node list" where
  "plain s = (if s = [] then [] else [Plain s])"

function highlight_from :: "nat \<Rightarrow> bool \<Rightarrow> string \<Rightarrow> string \<Rightarrow> node list" where
  "highlight_from i after since [] = plain since"
| "highlight_from i after since (c # s) =
     (case token_at after (c # s) of
        None \<Rightarrow> highlight_from (i + 1) (is_word c) (since @ [c]) s
      | Some (tok, colon, colour) \<Rightarrow>
          let n = length tok + length colon
          in plain since @ [Token i tok colour] @ plain colon
               @ highlight_from (i + max 1 n) (is_word (List.last (tok @ colon))) [] (drop (n - 1) s))"
  by pat_completeness auto
termination by (relation "measure (\<lambda>(_, _, _, s). length s)") auto

definition highlightJson :: "string \<Rightarrow> node list" where
  "highlightJson doc = highlight_from 0 False [] doc"

fun node_text :: "node \<Rightarrow> string" where
  "node_text (Plain s) = s"
| "node_text (Token _ s _) = s"

lemma string_rest_prefix: "string_rest s = Some r \<Longrightarrow> r \<noteq> [] \<and> (\<exists>t. s = r @ t)"
proof (induction s arbitrary: r rule: string_rest.induct)
  case (2 c s)
  consider "c = CHR 0x22" | "c = CHR 0x5C" | "c \<noteq> CHR 0x22" "c \<noteq> CHR 0x5C" by blast
  then show ?case
  proof cases
    case 1
    then show ?thesis using "2.prems" by auto
  next
    case 2
    then obtain d t q where "s = d # t" "string_rest t = Some q" "r = c # d # q"
      "\<not> (d = CHR 0x0A \<or> d = CHR 0x0D)"
      using "2.prems" by (auto split: list.splits if_splits)
    then show ?thesis using "2.IH"(1) [of d t q] 2 by auto
  next
    case 3
    then obtain q where "string_rest s = Some q" "r = c # q" using "2.prems" by auto
    then show ?thesis using "2.IH"(2) [of q] 3 by auto
  qed
qed simp

lemma string_token_prefix: "string_token s = Some tok \<Longrightarrow> tok \<noteq> [] \<and> (\<exists>t. s = tok @ t)"
  by (auto simp: string_token_def split: list.splits if_splits dest!: string_rest_prefix)

lemma prefix_take: "(\<exists>t. s = p @ t) \<longleftrightarrow> take (length p) s = p"
  by (metis append_eq_conv_conj append_take_drop_id)

lemma takeWhile_prefix: "\<exists>t. s = takeWhile P s @ t"
  by (metis takeWhile_dropWhile_id)

lemma prefix_step: "(\<exists>t. s = p @ t) \<Longrightarrow> (\<exists>t. drop (length p) s = q @ t) \<Longrightarrow> \<exists>t. s = (p @ q) @ t"
  by auto

lemma colon_after_prefix: "\<exists>t. s = colon_after s @ t"
proof (cases "starts_with '':'' (dropWhile is_ws s)")
  case True
  then obtain t where "dropWhile is_ws s = '':'' @ t" by (auto simp: starts_with_iff)
  then have "s = (takeWhile is_ws s @ '':'') @ t" by (metis append_assoc takeWhile_dropWhile_id)
  then show ?thesis using True by (auto simp: colon_after_def)
qed (simp add: colon_after_def)

lemma minus_prefix: "\<exists>t. s = minus_of s @ t"
  by (auto simp: minus_of_def starts_with_iff)

lemma fraction_prefix: "\<exists>t. s = fraction_of s @ t"
proof (cases "starts_with ''.'' s")
  case True
  then obtain t where t: "s = ''.'' @ t" by (auto simp: starts_with_iff)
  obtain u where "t = takeWhile is_digit t @ u" using takeWhile_prefix by blast
  then show ?thesis using t by (auto simp: fraction_of_def)
qed (simp add: fraction_of_def)

lemma exponent_prefix: "\<exists>t. s = exponent_part s @ t"
proof (cases "starts_with ''e'' s \<or> starts_with ''E'' s")
  case True
  then obtain c t where t: "s = c # t" by (auto simp: starts_with_iff)
  have "\<exists>u. t = sign_of t @ u" unfolding sign_of_def by (cases t) auto
  then obtain sign u where u: "sign = sign_of t" "t = sign @ u" by blast
  then have d: "drop (length sign) t = u" by simp
  have "exponent_part s = (if takeWhile is_digit u \<noteq> [] then c # sign @ takeWhile is_digit u else [])"
    unfolding exponent_part_def using True t d by (simp add: Let_def flip: u(1))
  moreover have "s = (c # sign @ takeWhile is_digit u) @ dropWhile is_digit u" using t u(2) by simp
  ultimately show ?thesis using t u(2) takeWhile_prefix [of u is_digit] by (cases "takeWhile is_digit u = []") simp_all
next
  case False
  then show ?thesis by (auto simp: exponent_part_def)
qed

lemma number_token_prefix:
  assumes "number_token s = Some tok"
  shows "tok \<noteq> [] \<and> (\<exists>t. s = tok @ t)"
proof -
  obtain s1 where s1: "s = minus_of s @ s1" using minus_prefix by blast
  then have d1: "drop (length (minus_of s)) s = s1" by (metis append_eq_conv_conj)
  obtain s2 where s2: "s1 = takeWhile is_digit s1 @ s2" using takeWhile_prefix by blast
  then have d2: "drop (length (takeWhile is_digit s1)) s1 = s2" by (metis append_eq_conv_conj)
  obtain s3 where s3: "s2 = fraction_of s2 @ s3" using fraction_prefix by blast
  then have d3: "drop (length (fraction_of s2)) s2 = s3" by (metis append_eq_conv_conj)
  obtain s4 where s4: "s3 = exponent_part s3 @ s4" using exponent_prefix by blast
  have tok: "takeWhile is_digit s1 \<noteq> []" "tok = minus_of s @ takeWhile is_digit s1 @ fraction_of s2 @ exponent_part s3"
    using assms unfolding number_token_def Let_def d1 d2 d3 by (auto split: if_splits)
  have "s = tok @ s4" using s1 s2 s3 s4 tok(2) by (metis append_assoc)
  then show ?thesis using tok by blast
qed

lemma token_at_prefix:
  assumes "token_at after s = Some (tok, colon, k)"
  shows "tok \<noteq> [] \<and> (\<exists>t. s = tok @ colon @ t)"
proof (cases "string_token s")
  case (Some w)
  then obtain t where t: "w \<noteq> []" "s = w @ t" using string_token_prefix by blast
  have "tok = w" "colon = colon_after t" using assms Some t by (auto simp: token_at_def Let_def)
  moreover obtain u where "t = colon_after t @ u" using colon_after_prefix by blast
  ultimately show ?thesis using t by auto
next
  case None
  then show ?thesis using assms number_token_prefix [of s]
    by (auto simp: token_at_def word_token_def starts_with_iff split: option.splits if_splits)
qed

text \<open>Where each coloured piece stands, counting from \<open>i\<close>: its key is that place.\<close>

fun token_places :: "nat \<Rightarrow> node list \<Rightarrow> bool" where
  "token_places i [] = True"
| "token_places i (Plain s # ns) = token_places (i + length s) ns"
| "token_places i (Token k s _ # ns) = (k = i \<and> s \<noteq> [] \<and> token_places (i + length s) ns)"

lemma token_places_plain [simp]: "token_places i (plain s @ ns) = token_places (i + length s) ns"
  by (simp add: plain_def)

lemma node_text_plain [simp]: "concat (map node_text (plain s)) = s"
  by (simp add: plain_def)

lemma highlight_text: "concat (map node_text (highlight_from i after since s)) = since @ s
   \<and> (length since \<le> i \<longrightarrow> token_places (i - length since) (highlight_from i after since s))"
proof (induction i after since s rule: highlight_from.induct)
  case (1 i after since)
  show ?case using token_places_plain [of _ since "[]"] by simp
next
  case (2 i after since c s)
  show ?case
  proof (cases "token_at after (c # s)")
    case None
    then show ?thesis using 2(1) by (simp add: Suc_diff_le)
  next
    case (Some m)
    obtain tok colon k where m: "m = (tok, colon, k)" by (cases m)
    define n where "n = length tok + length colon"
    obtain t where ne: "tok \<noteq> []" and t: "c # s = tok @ colon @ t" using token_at_prefix Some m by blast
    have "0 < length tok" using ne by simp
    then have n: "0 < n" "max 1 n = n" unfolding n_def by linarith+
    have rest: "drop (n - 1) s = t"
    proof -
      have "drop n (c # s) = t" using t by (simp add: n_def)
      then show ?thesis using n by (simp add: drop_Cons')
    qed
    have "concat (map node_text (highlight_from (i + n) (is_word (List.last (tok @ colon))) [] t)) = t
      \<and> token_places (i + n) (highlight_from (i + n) (is_word (List.last (tok @ colon))) [] t)"
      using 2(2) [OF Some, of tok "(colon, k)" colon k n] n rest m by (simp flip: n_def)
    moreover have "highlight_from i after since (c # s) = plain since @ [Token i tok k] @ plain colon
        @ highlight_from (i + n) (is_word (List.last (tok @ colon))) [] t"
      using Some m n rest by (simp add: Let_def flip: n_def)
    ultimately show ?thesis using ne t by (simp add: n_def add.assoc)
  qed
qed

text \<open>
  colouring the rendered body loses and invents nothing: the pieces shown, read one after the
  other, are the body, and the coloured ones carry different keys, each its own place in the body.
\<close>

theorem colouring_keeps_the_text:
  "concat (map node_text (highlightJson doc)) = doc \<and> token_places 0 (highlightJson doc)"
  using highlight_text [of 0 False "[]" doc] by (simp add: highlightJson_def)

section \<open>The preview\<close>

record preview_answer =
  pa_ok :: bool
  pa_rendered :: "string option"
  pa_error :: "string option"

text \<open>The query of one template: its last answer, and whether the last request failed.\<close>

record preview_query =
  pq_data :: "preview_answer option"
  pq_failed :: bool

definition preview_isPending :: "preview_query \<Rightarrow> bool" where
  "preview_isPending q \<longleftrightarrow> pq_data q = None \<and> \<not> pq_failed q"

record preview_state =
  ps_template :: string
  ps_debounced :: string
  ps_settled :: string
  ps_still :: nat
  ps_queries :: "string \<Rightarrow> preview_query"
  ps_rendered :: "string option"

definition DEBOUNCE_MS :: nat where "DEBOUNCE_MS = 350"
definition ERROR_SETTLE_MS :: nat where "ERROR_SETTLE_MS = 800"

text \<open>\<open>useSettled\<close>: the timer is set anew by every change of the value.\<close>

definition useSettled :: "string \<Rightarrow> nat \<Rightarrow> nat \<Rightarrow> string \<Rightarrow> string" where
  "useSettled value ms still settled = (if ms \<le> still then value else settled)"

definition preview_data :: "preview_state \<Rightarrow> preview_answer option" where
  "preview_data s = (if trim (ps_debounced s) = [] then None else pq_data (ps_queries s (ps_debounced s)))"

definition preview_okay :: "preview_state \<Rightarrow> string option" where
  "preview_okay s =
     (case preview_data s of None \<Rightarrow> None | Some a \<Rightarrow> if pa_ok a then pa_rendered a else None)"

text \<open>The state a render leaves: the last body that rendered.\<close>

definition preview_render :: "preview_state \<Rightarrow> preview_state" where
  "preview_render s =
     (case preview_okay s of None \<Rightarrow> s | Some r \<Rightarrow> s\<lparr>ps_rendered := Some r\<rparr>)"

definition useTemplatePreview :: "preview_state \<Rightarrow> template_preview" where
  "useTemplatePreview s =
     (if trim (ps_template s) = [] then Preview_idle
      else if ps_debounced s \<noteq> ps_template s \<or> preview_isPending (ps_queries s (ps_debounced s)) then Preview_rendering (ps_rendered s)
      else
        (case preview_okay s of
           Some r \<Rightarrow> Preview_ok r
         | None \<Rightarrow>
             if ps_settled s \<noteq> ps_template s then Preview_rendering (ps_rendered s)
             else if pq_failed (ps_queries s (ps_debounced s)) then Preview_unavailable (ps_rendered s)
             else Preview_error
               (case preview_data s of None \<Rightarrow> [] | Some a \<Rightarrow> (case pa_error a of None \<Rightarrow> [] | Some e \<Rightarrow> e))
               (ps_rendered s)))"

datatype preview_event =
    Typed string
  | Passed nat
  | Preview_answered string preview_answer
  | Preview_failed string
  | Preview_asked string

fun preview_react :: "preview_event \<Rightarrow> preview_state \<Rightarrow> preview_state" where
  "preview_react (Typed t) s = (if t = ps_template s then s else s\<lparr>ps_template := t, ps_still := 0\<rparr>)"
| "preview_react (Passed n) s =
     s\<lparr>ps_still := ps_still s + n,
       ps_debounced := useSettled (ps_template s) DEBOUNCE_MS (ps_still s + n) (ps_debounced s),
       ps_settled := useSettled (ps_template s) ERROR_SETTLE_MS (ps_still s + n) (ps_settled s)\<rparr>"
| "preview_react (Preview_answered k a) s =
     s\<lparr>ps_queries := (ps_queries s)(k := \<lparr>pq_data = Some a, pq_failed = False\<rparr>)\<rparr>"
| "preview_react (Preview_failed k) s =
     s\<lparr>ps_queries := (ps_queries s)(k := (ps_queries s k)\<lparr>pq_failed := True\<rparr>)\<rparr>"
| "preview_react (Preview_asked k) s =
     (if pq_data (ps_queries s k) = None then s\<lparr>ps_queries := (ps_queries s)(k := (ps_queries s k)\<lparr>pq_failed := False\<rparr>)\<rparr> else s)"

definition preview_step :: "preview_state \<Rightarrow> preview_event \<Rightarrow> preview_state" where
  "preview_step s e = preview_render (preview_react e s)"

definition preview_mount :: "string \<Rightarrow> preview_state" where
  "preview_mount t =
     \<lparr>ps_template = t, ps_debounced = t, ps_settled = t, ps_still = 0,
      ps_queries = (\<lambda>_. \<lparr>pq_data = None, pq_failed = False\<rparr>), ps_rendered = None\<rparr>"

definition preview_run :: "string \<Rightarrow> preview_event list \<Rightarrow> preview_state" where
  "preview_run t es = foldl preview_step (preview_mount t) es"

definition server_rendered :: "preview_event list \<Rightarrow> string \<Rightarrow> bool" where
  "server_rendered es r \<longleftrightarrow>
     list_ex (\<lambda>e. case e of Preview_answered _ a \<Rightarrow> pa_ok a \<and> pa_rendered a = Some r | _ \<Rightarrow> False) es"

lemma server_rendered_snoc: "server_rendered es r \<Longrightarrow> server_rendered (es @ [e]) r"
  by (simp add: server_rendered_def)

lemma server_rendered_answer:
  "Preview_answered k a \<in> set es \<Longrightarrow> pa_ok a \<Longrightarrow> pa_rendered a = Some r \<Longrightarrow> server_rendered es r"
  unfolding server_rendered_def list_ex_iff by (rule bexI [of _ "Preview_answered k a"]) simp_all

definition preview_keeps :: "preview_event list \<Rightarrow> preview_state \<Rightarrow> bool" where
  "preview_keeps es s \<longleftrightarrow>
     (\<forall>k a. pq_data (ps_queries s k) = Some a \<longrightarrow> Preview_answered k a \<in> set es)
     \<and> (\<forall>k. pq_failed (ps_queries s k) \<longrightarrow> Preview_failed k \<in> set es)
     \<and> (\<forall>r. ps_rendered s = Some r \<longrightarrow> server_rendered es r)
     \<and> (DEBOUNCE_MS \<le> ps_still s \<longrightarrow> ps_debounced s = ps_template s)
     \<and> (ERROR_SETTLE_MS \<le> ps_still s \<longrightarrow> ps_settled s = ps_template s)"

lemma preview_react_keeps: "preview_keeps es s \<Longrightarrow> preview_keeps (es @ [e]) (preview_react e s)"
  by (cases e) (auto intro: server_rendered_snoc simp: preview_keeps_def useSettled_def DEBOUNCE_MS_def ERROR_SETTLE_MS_def)

lemma preview_okay_answer:
  "preview_okay s = Some r \<Longrightarrow>
   \<exists>a. pq_data (ps_queries s (ps_debounced s)) = Some a \<and> pa_ok a \<and> pa_rendered a = Some r"
  by (auto simp: preview_okay_def preview_data_def split: option.splits if_splits)

lemma preview_okay_from_server: "preview_keeps es s \<Longrightarrow> preview_okay s = Some r \<Longrightarrow> server_rendered es r"
proof -
  assume keeps: "preview_keeps es s" and "preview_okay s = Some r"
  then obtain a where a: "pq_data (ps_queries s (ps_debounced s)) = Some a" "pa_ok a" "pa_rendered a = Some r"
    using preview_okay_answer by blast
  have "Preview_answered (ps_debounced s) a \<in> set es" using keeps a(1) unfolding preview_keeps_def by blast
  then show ?thesis using a(2,3) by (rule server_rendered_answer)
qed

lemma preview_render_keeps:
  assumes "preview_keeps es s"
  shows "preview_keeps es (preview_render s)"
proof (cases "preview_okay s")
  case (Some r)
  then have "server_rendered es r" using assms by (simp add: preview_okay_from_server)
  then show ?thesis using Some assms by (simp add: preview_render_def preview_keeps_def)
qed (use assms in \<open>simp add: preview_render_def\<close>)

lemma preview_run_keeps: "preview_keeps es (preview_run t es)"
proof (induction es rule: rev_induct)
  case Nil
  show ?case by (simp add: preview_run_def preview_mount_def preview_keeps_def)
next
  case (snoc e es)
  then show ?case
    by (simp add: preview_run_def preview_step_def preview_react_keeps preview_render_keeps)
qed

text \<open>What is behind each thing the panel says, after the events of a run.\<close>

definition preview_grounded :: "preview_event list \<Rightarrow> preview_state \<Rightarrow> template_preview \<Rightarrow> bool" where
  "preview_grounded es s p \<longleftrightarrow>
     (case p of
        Preview_idle \<Rightarrow> trim (ps_template s) = []
      | Preview_rendering _ \<Rightarrow> True
      | Preview_ok r \<Rightarrow> \<exists>a. Preview_answered (ps_template s) a \<in> set es \<and> pa_ok a \<and> pa_rendered a = Some r
      | Preview_error err _ \<Rightarrow>
          ps_settled s = ps_template s
          \<and> (\<exists>a. Preview_answered (ps_template s) a \<in> set es \<and> (\<not> pa_ok a \<or> pa_rendered a = None)
                \<and> err = (case pa_error a of None \<Rightarrow> [] | Some e \<Rightarrow> e))
      | Preview_unavailable _ \<Rightarrow> ps_settled s = ps_template s \<and> Preview_failed (ps_template s) \<in> set es)"

fun preview_shown :: "template_preview \<Rightarrow> string option" where
  "preview_shown Preview_idle = None"
| "preview_shown (Preview_rendering r) = r"
| "preview_shown (Preview_ok r) = Some r"
| "preview_shown (Preview_error _ r) = r"
| "preview_shown (Preview_unavailable r) = r"

lemma preview_is_grounded:
  assumes "preview_keeps es s"
  shows "preview_grounded es s (useTemplatePreview s)"
proof -
  have data: "Preview_answered k a \<in> set es" if "pq_data (ps_queries s k) = Some a" for k a
    using assms that by (simp add: preview_keeps_def)
  have fail: "Preview_failed k \<in> set es" if "pq_failed (ps_queries s k)" for k
    using assms that by (simp add: preview_keeps_def)
  consider "trim (ps_template s) = []"
    | "trim (ps_template s) \<noteq> []" "ps_debounced s \<noteq> ps_template s \<or> preview_isPending (ps_queries s (ps_debounced s))"
    | "trim (ps_template s) \<noteq> []" "ps_debounced s = ps_template s" "\<not> preview_isPending (ps_queries s (ps_debounced s))"
    by blast
  then show ?thesis
  proof cases
    case 3
    show ?thesis
    proof (cases "preview_okay s")
      case (Some r)
      then show ?thesis using 3 data preview_okay_answer [OF Some]
        by (auto simp: useTemplatePreview_def preview_grounded_def)
    next
      case None
      then show ?thesis using 3 data [of "ps_template s"] fail [of "ps_template s"]
        by (auto simp: useTemplatePreview_def preview_grounded_def preview_isPending_def preview_okay_def preview_data_def
            split: option.splits if_splits)
    qed
  qed (auto simp: useTemplatePreview_def preview_grounded_def)
qed

text \<open>
  C12: whatever is typed, however long it rests and whatever the server answers and when, the preview
  says of a body only what the server said of that very body: it is called fine only when an answer
  for it rendered, refused or unavailable only when an answer for it said so and the text has settled,
  idle exactly when it is blank; a rendered body on screen always came from the server; and once the
  text has rested 800 ms and its request is over, the panel no longer says that it is rendering.
\<close>

theorem preview_speaks_of_its_text:
  "let s = preview_run t es; p = useTemplatePreview s
   in preview_grounded es s p
      \<and> (p = Preview_idle \<longleftrightarrow> trim (ps_template s) = [])
      \<and> (case preview_shown p of None \<Rightarrow> True
         | Some r \<Rightarrow> server_rendered es r)
      \<and> (if ERROR_SETTLE_MS \<le> ps_still s \<and> \<not> preview_isPending (ps_queries s (ps_template s))
         then (case p of Preview_rendering _ \<Rightarrow> False | _ \<Rightarrow> True) else True)"
proof -
  define s where "s = preview_run t es"
  have keeps: "preview_keeps es s" by (simp add: s_def preview_run_keeps)
  have idle: "useTemplatePreview s = Preview_idle \<longleftrightarrow> trim (ps_template s) = []"
    by (auto simp: useTemplatePreview_def split: option.splits)
  have shown: "server_rendered es r"
    if "preview_shown (useTemplatePreview s) = Some r" for r
  proof -
    have "ps_rendered s = Some r \<or> preview_okay s = Some r"
      using that by (auto simp: useTemplatePreview_def split: option.splits if_splits)
    then show ?thesis using keeps preview_okay_from_server [OF keeps] unfolding preview_keeps_def by blast
  qed
  have fin: "\<not> (case useTemplatePreview s of Preview_rendering _ \<Rightarrow> True | _ \<Rightarrow> False)"
    if "ERROR_SETTLE_MS \<le> ps_still s" "\<not> preview_isPending (ps_queries s (ps_template s))"
  proof -
    have "ps_debounced s = ps_template s" "ps_settled s = ps_template s"
      using that(1) keeps by (auto simp: preview_keeps_def DEBOUNCE_MS_def ERROR_SETTLE_MS_def)
    then show ?thesis using that(2) by (auto simp: useTemplatePreview_def split: option.splits)
  qed
  show ?thesis unfolding Let_def s_def [symmetric]
    using preview_is_grounded [OF keeps] idle shown fin
    by (auto split: option.split template_preview.split) blast+
qed

end
