(* ===== verification/Changelog.thy ===== *)
theory Changelog
  imports SearchParams FilterQuery
begin

text \<open>
  The changelog of the documentation site: a release's sections, its order and its figures
  (\<open>lib/release.ts\<close>, \<open>lib/changelog.ts\<close>), the strip it is drawn as (\<open>release-strip.tsx\<close>), and the
  archive that fetches what the page does not hold yet (\<open>use-release-archive.ts\<close>). The Markdown
  renderer, \<open>localeCompare\<close> and the reading of a date are parameters.
\<close>

section \<open>Versions\<close>

definition take_digits :: "string \<Rightarrow> (nat \<times> string) option" where
  "take_digits s =
     (let ds = takeWhile is_digit s in if ds = [] then None else Some (digits_val ds, dropWhile is_digit s))"

definition take_dot :: "string \<Rightarrow> string option" where
  "take_dot s = (case s of c # t \<Rightarrow> if c = CHR ''.'' then Some t else None | [] \<Rightarrow> None)"

definition parseVersion :: "string \<Rightarrow> (nat \<times> nat \<times> nat) option" where
  "parseVersion s =
     (case take_digits (if starts_with ''v'' s then drop 1 s else s) of
        None \<Rightarrow> None
      | Some (major, s1) \<Rightarrow>
          (case Option.bind (take_dot s1) take_digits of
             None \<Rightarrow> None
           | Some (minor, s2) \<Rightarrow>
               (case Option.bind (take_dot s2) take_digits of
                  None \<Rightarrow> None
                | Some (patch, _) \<Rightarrow> Some (major, minor, patch))))"

datatype release_channel = Minor | Patch | Seed

definition channelOf :: "string \<Rightarrow> release_channel" where
  "channelOf version =
     (case parseVersion version of None \<Rightarrow> Seed | Some (_, _, p) \<Rightarrow> if p = 0 then Minor else Patch)"

datatype section_kind = Shipped | Improved | Fixed | Documented

definition kindOf :: "string \<Rightarrow> section_kind" where
  "kindOf title =
     (let t = to_lower title; has = (\<lambda>ws. list_ex (\<lambda>w. str_includes w t) ws)
      in if has [''fix'', ''bug'', ''regression''] then Fixed
         else if has [''improv'', ''polish'', ''enhance'', ''update'', ''tweak''] then Improved
         else if has [''doc'', ''guide'', ''readme''] then Documented
         else Shipped)"

section \<open>The sections of a release\<close>

text \<open>\<open>/^##\s+(.*)$/\<close> on one line, with the title trimmed.\<close>

definition heading :: "string \<Rightarrow> string option" where
  "heading line =
     (if starts_with ''##'' line
      then let rest = drop 2 line; body = dropWhile is_ws rest
           in if takeWhile is_ws rest \<noteq> [] \<and> \<not> list_ex is_line_end body then Some (trim body) else None
      else None)"

fun split_lines :: "string list \<Rightarrow> string \<times> string list \<Rightarrow> (string \<times> string list) list" where
  "split_lines [] current = [current]"
| "split_lines (line # lines) current =
     (case heading line of
        Some title \<Rightarrow> current # split_lines lines (title, [])
      | None \<Rightarrow> split_lines lines (fst current, snd current @ [line]))"

record release_section =
  sc_title :: string
  sc_kind :: section_kind
  sc_html :: string

definition splitSections :: "(string \<Rightarrow> string) \<Rightarrow> string \<Rightarrow> release_section list" where
  "splitSections markdown body =
     filter (\<lambda>s. sc_title s \<noteq> [] \<or> sc_html s \<noteq> [])
       (map (\<lambda>(title, lines).
              \<lparr>sc_title = title, sc_kind = kindOf title, sc_html = markdown (trim (join_with [CHR 0x0A] lines))\<rparr>)
          (split_lines (split_on (CHR 0x0A) body) ([], [])))"

text \<open>Splitting loses no line: the headings in order, and under each the lines up to the next.\<close>

definition is_heading :: "string \<Rightarrow> bool" where
  "is_heading line \<longleftrightarrow> heading line \<noteq> None"

lemma split_lines_whole:
  "map fst (split_lines lines c) = fst c # List.map_filter heading lines"
  "concat (map snd (split_lines lines c)) = snd c @ filter (\<lambda>l. \<not> is_heading l) lines"
  by (induction lines c rule: split_lines.induct)
    (auto simp: is_heading_def map_filter_def split: option.splits)

text \<open>The paragraph a release opens with is kept, and a heading with nothing under it too.\<close>

lemma titled_map:
  "filter (\<lambda>t. t \<noteq> []) (map sc_title (filter (\<lambda>s. sc_title s \<noteq> [] \<or> P s) (map f xs))) =
     filter (\<lambda>t. t \<noteq> []) (map (\<lambda>x. sc_title (f x)) xs)"
  by (induction xs) auto

lemma sections_titles:
  "filter (\<lambda>t. t \<noteq> []) (map sc_title (splitSections markdown body)) =
     filter (\<lambda>t. t \<noteq> []) (List.map_filter heading (split_on (CHR 0x0A) body))"
proof -
  have "filter (\<lambda>t. t \<noteq> []) (map sc_title (splitSections markdown body)) =
      filter (\<lambda>t. t \<noteq> []) (map fst (split_lines (split_on (CHR 0x0A) body) ([], [])))"
    unfolding splitSections_def titled_map by (simp add: case_prod_beta')
  then show ?thesis by (simp add: split_lines_whole)
qed

section \<open>A release\<close>

record site_release =
  re_slug :: string
  re_anchor :: string
  re_version :: string
  re_channel :: release_channel
  re_title :: string
  re_date :: string
  re_sections :: "release_section list"

text \<open>\<open>version.toLowerCase().replace(/[^a-z0-9]+/g, '-') || 'release'\<close>\<close>

fun dashed :: "bool \<Rightarrow> string \<Rightarrow> string" where
  "dashed inside [] = []"
| "dashed inside (c # s) =
     (if is_lower c \<or> is_digit c then c # dashed False s
      else if inside then dashed True s else CHR ''-'' # dashed True s)"

definition anchor_of :: "string \<Rightarrow> string" where
  "anchor_of version = (let a = dashed False (to_lower version) in if a = [] then ''release'' else a)"

definition strip_mdx :: "string \<Rightarrow> string" where
  "strip_mdx filename = (if ends_with ''.mdx'' filename then take (length filename - 4) filename else filename)"

text \<open>The front matter has been read: \<open>version\<close>, \<open>title\<close> and \<open>date\<close> as the strings they become.\<close>

definition readRelease :: "(string \<Rightarrow> string) \<Rightarrow> string \<Rightarrow> string \<Rightarrow> string \<Rightarrow> string \<Rightarrow> string \<Rightarrow> site_release" where
  "readRelease markdown filename version title date content =
     \<lparr>re_slug = strip_mdx filename, re_anchor = anchor_of version, re_version = version,
      re_channel = channelOf version, re_title = title, re_date = date,
      re_sections = splitSections markdown (trim content)\<rparr>"

lemma anchor_is_safe: "anchor_of v \<noteq> [] \<and> list_all (\<lambda>c. is_lower c \<or> is_digit c \<or> c = CHR ''-'') (anchor_of v)"
proof -
  have "list_all (\<lambda>c. is_lower c \<or> is_digit c \<or> c = CHR ''-'') (dashed b s)" for b s
    by (induction b s rule: dashed.induct) auto
  then show ?thesis by (simp add: anchor_of_def Let_def is_lower_def)
qed

section \<open>Newest first\<close>

text \<open>
  The comparison of two releases: \<open>time\<close> is a date's milliseconds, where it is one, and \<open>locale\<close>
  the sign of \<open>localeCompare\<close>. A release is kept before another when the result is not positive.
\<close>

definition time_of :: "(string \<Rightarrow> int option) \<Rightarrow> string \<Rightarrow> int" where
  "time_of time d = (case time d of Some ms \<Rightarrow> ms | None \<Rightarrow> 0)"

definition by_date :: "(string \<Rightarrow> int option) \<Rightarrow> (string \<Rightarrow> string \<Rightarrow> int) \<Rightarrow> site_release \<Rightarrow> site_release \<Rightarrow> int" where
  "by_date time locale a b =
     (let d = time_of time (re_date b) - time_of time (re_date a)
      in if d \<noteq> 0 then d else locale (re_slug b) (re_slug a))"

definition byNewestFirst :: "(string \<Rightarrow> int option) \<Rightarrow> (string \<Rightarrow> string \<Rightarrow> int) \<Rightarrow> site_release \<Rightarrow> site_release \<Rightarrow> int" where
  "byNewestFirst time locale a b =
     (case (parseVersion (re_version a), parseVersion (re_version b)) of
        (Some (a1, a2, a3), Some (b1, b2, b3)) \<Rightarrow>
          if a1 \<noteq> b1 then int b1 - int a1 else if a2 \<noteq> b2 then int b2 - int a2
          else if a3 \<noteq> b3 then int b3 - int a3 else by_date time locale a b
      | (None, None) \<Rightarrow> by_date time locale a b
      | (Some _, None) \<Rightarrow> -1
      | (None, Some _) \<Rightarrow> 1)"

definition getReleases :: "(string \<Rightarrow> int option) \<Rightarrow> (string \<Rightarrow> string \<Rightarrow> int) \<Rightarrow> site_release list \<Rightarrow> site_release list" where
  "getReleases time locale files = sort_by (\<lambda>a b. byNewestFirst time locale a b \<le> 0) files"

text \<open>What the order promises: a release of a version line before any other, and a higher version first.\<close>

fun version_lt :: "nat \<times> nat \<times> nat \<Rightarrow> nat \<times> nat \<times> nat \<Rightarrow> bool" where
  "version_lt (a1, a2, a3) (b1, b2, b3) \<longleftrightarrow> a1 < b1 \<or> a1 = b1 \<and> (a2 < b2 \<or> a2 = b2 \<and> a3 < b3)"

definition not_newer :: "site_release \<Rightarrow> site_release \<Rightarrow> bool" where
  "not_newer b a \<longleftrightarrow>
     (case (parseVersion (re_version a), parseVersion (re_version b)) of
        (Some u, Some v) \<Rightarrow> \<not> version_lt u v
      | (None, Some _) \<Rightarrow> False
      | _ \<Rightarrow> True)"

definition locale_order :: "(string \<Rightarrow> string \<Rightarrow> int) \<Rightarrow> bool" where
  "locale_order locale \<longleftrightarrow>
     (\<forall>a b. \<not> locale a b \<le> 0 \<longrightarrow> locale b a \<le> 0) \<and>
     (\<forall>a b c. locale a b \<le> 0 \<longrightarrow> locale b c \<le> 0 \<longrightarrow> locale a c \<le> 0)"

lemma by_date_iff:
  "by_date time locale a b \<le> 0 \<longleftrightarrow>
     time_of time (re_date b) < time_of time (re_date a) \<or>
     time_of time (re_date b) = time_of time (re_date a) \<and> locale (re_slug b) (re_slug a) \<le> 0"
  by (auto simp: by_date_def Let_def)

lemma by_date_trans:
  assumes "locale_order locale" and "by_date time locale a b \<le> 0" and "by_date time locale b c \<le> 0"
  shows "by_date time locale a c \<le> 0"
proof -
  have "locale (re_slug c) (re_slug a) \<le> 0"
    if "locale (re_slug b) (re_slug a) \<le> 0" "locale (re_slug c) (re_slug b) \<le> 0"
    using assms(1) that unfolding locale_order_def by blast
  then show ?thesis using assms(2,3) unfolding by_date_iff by linarith
qed

lemma by_date_total:
  assumes "locale_order locale" and "\<not> by_date time locale a b \<le> 0"
  shows "by_date time locale b a \<le> 0"
proof -
  have "locale (re_slug a) (re_slug b) \<le> 0" if "\<not> locale (re_slug b) (re_slug a) \<le> 0"
    using assms(1) that unfolding locale_order_def by blast
  then show ?thesis using assms(2) unfolding by_date_iff by linarith
qed

lemma version_lt_trans: "version_lt u v \<Longrightarrow> version_lt v w \<Longrightarrow> version_lt u w"
  by (cases u; cases v; cases w) auto

lemma version_lt_irrefl: "\<not> version_lt u u"
  by (cases u) auto

lemma version_lt_total: "\<not> version_lt u v \<Longrightarrow> u = v \<or> version_lt v u"
  by (cases u; cases v) auto

text \<open>The comparison, by what it says: the kept order is lexicographic in version, date and slug.\<close>

lemma newest_first_iff:
  "byNewestFirst time locale a b \<le> 0 \<longleftrightarrow>
     (case (parseVersion (re_version a), parseVersion (re_version b)) of
        (Some u, Some v) \<Rightarrow> version_lt v u \<or> u = v \<and> by_date time locale a b \<le> 0
      | (None, None) \<Rightarrow> by_date time locale a b \<le> 0
      | (Some _, None) \<Rightarrow> True
      | (None, Some _) \<Rightarrow> False)"
proof (cases "parseVersion (re_version a)"; cases "parseVersion (re_version b)")
  fix u v
  assume uv: "parseVersion (re_version a) = Some u" "parseVersion (re_version b) = Some v"
  obtain a1 a2 a3 b1 b2 b3 where c: "u = (a1, a2, a3)" "v = (b1, b2, b3)" by (cases u; cases v)
  show ?thesis unfolding byNewestFirst_def uv c by auto
qed (simp_all add: byNewestFirst_def)

lemma newest_first_trans:
  assumes "locale_order locale" and "byNewestFirst time locale a b \<le> 0" and "byNewestFirst time locale b c \<le> 0"
  shows "byNewestFirst time locale a c \<le> 0"
proof (cases "parseVersion (re_version b)")
  case None
  then show ?thesis using assms(2,3) by_date_trans [OF assms(1), of time a b c]
    unfolding newest_first_iff by (auto split: option.splits)
next
  case (Some v)
  then obtain u where u: "parseVersion (re_version a) = Some u" "version_lt v u \<or> u = v \<and> by_date time locale a b \<le> 0"
    using assms(2) unfolding newest_first_iff by (auto split: option.splits)
  show ?thesis
  proof (cases "parseVersion (re_version c)")
    case (Some w)
    then have "version_lt w v \<or> v = w \<and> by_date time locale b c \<le> 0"
      using assms(3) \<open>parseVersion (re_version b) = Some v\<close> unfolding newest_first_iff by simp
    then have "version_lt w u \<or> u = w \<and> by_date time locale a c \<le> 0"
      using u(2) by_date_trans [OF assms(1), of time a b c] version_lt_trans by blast
    then show ?thesis using u(1) Some unfolding newest_first_iff by simp
  qed (simp add: u(1) newest_first_iff)
qed

lemma newest_first_total:
  assumes "locale_order locale" and "\<not> byNewestFirst time locale a b \<le> 0"
  shows "byNewestFirst time locale b a \<le> 0"
proof (cases "parseVersion (re_version a)"; cases "parseVersion (re_version b)")
  fix u v
  assume uv: "parseVersion (re_version a) = Some u" "parseVersion (re_version b) = Some v"
  then have "\<not> version_lt v u" "u = v \<Longrightarrow> \<not> by_date time locale a b \<le> 0"
    using assms(2) unfolding newest_first_iff by auto
  then have "version_lt u v \<or> v = u \<and> by_date time locale b a \<le> 0"
    using version_lt_total [of v u] by_date_total [OF assms(1), of time a b] by blast
  then show ?thesis unfolding newest_first_iff uv by simp
qed (use assms(2) by_date_total [OF assms(1), of time a b] in \<open>simp_all add: newest_first_iff\<close>)

lemma newest_first_versions:
  assumes "byNewestFirst time locale a b \<le> 0"
  shows "not_newer b a"
proof (cases "parseVersion (re_version a)"; cases "parseVersion (re_version b)")
  fix u v
  assume uv: "parseVersion (re_version a) = Some u" "parseVersion (re_version b) = Some v"
  then have "version_lt v u \<or> u = v" using assms unfolding newest_first_iff by auto
  then have "\<not> version_lt u v" using version_lt_trans version_lt_irrefl by blast
  then show ?thesis using uv by (simp add: not_newer_def)
qed (use assms in \<open>simp_all add: newest_first_iff not_newer_def\<close>)

text \<open>
  whatever files there are and whatever their dates, the releases read are those files, each
  once, a higher version never after a lower one and those off the version line last.
\<close>

theorem releases_are_newest_first:
  assumes "locale_order locale"
  shows "mset (getReleases time locale files) = mset files
    \<and> sorted_wrt (\<lambda>a b. not_newer b a) (getReleases time locale files)"
proof -
  have "sorted_wrt (\<lambda>a b. byNewestFirst time locale a b \<le> 0) (getReleases time locale files)"
    unfolding getReleases_def using newest_first_trans [OF assms] newest_first_total [OF assms] by (intro sorted_sort_by) blast+
  then have "sorted_wrt (\<lambda>a b. not_newer b a) (getReleases time locale files)"
    by (rule sorted_wrt_mono_rel [rotated]) (rule newest_first_versions)
  then show ?thesis by (simp add: getReleases_def)
qed

definition same_slug_order :: "string \<Rightarrow> string \<Rightarrow> int" where
  "same_slug_order a b = int (length a) - int (length b)"

definition sample_release :: "string \<Rightarrow> string \<Rightarrow> site_release" where
  "sample_release v d =
     \<lparr>re_slug = v, re_anchor = anchor_of v, re_version = v, re_channel = channelOf v, re_title = v, re_date = d,
      re_sections = []\<rparr>"

lemma releases_are_newest_first_witness:
  "sorted_wrt (\<lambda>a b. not_newer b a)
     (getReleases (\<lambda>d. Some (int (length d))) same_slug_order
        [sample_release ''v0.9.2'' ''later'', sample_release ''v0.1.x'' ''latest yet'', sample_release ''v0.10.0'' ''old''])"
proof -
  have "locale_order same_slug_order" by (auto simp: locale_order_def same_slug_order_def)
  from releases_are_newest_first [OF this] show ?thesis by blast
qed

section \<open>The archive in parts\<close>

definition RELEASES_PER_CHUNK :: nat where
  "RELEASES_PER_CHUNK = 10"

record 'a chunk =
  ck_releases :: "'a list"
  ck_hasMore :: bool

definition getReleaseChunk :: "'a list \<Rightarrow> nat \<Rightarrow> 'a chunk" where
  "getReleaseChunk whole chunk =
     (let start = (chunk - 1) * RELEASES_PER_CHUNK;
          rs = take RELEASES_PER_CHUNK (drop start whole)
      in \<lparr>ck_releases = rs, ck_hasMore = start + length rs < length whole\<rparr>)"

text \<open>\<open>Math.max(1, Math.ceil(n / RELEASES_PER_CHUNK))\<close>\<close>

definition getChunkCount :: "'a list \<Rightarrow> nat" where
  "getChunkCount whole = max 1 ((length whole + RELEASES_PER_CHUNK - 1) div RELEASES_PER_CHUNK)"

text \<open>The parts the static route generates: every one after the first.\<close>

definition generateStaticParams :: "'a list \<Rightarrow> nat list" where
  "generateStaticParams whole = map (\<lambda>i. i + 2) [0..<getChunkCount whole - 1]"

lemma chunks_taken:
  "concat (map (\<lambda>c. ck_releases (getReleaseChunk whole c)) [1..<Suc n]) = take (n * RELEASES_PER_CHUNK) whole"
proof (induction n)
  case (Suc n)
  have "take (n * 10 + 10) whole = take (n * 10) whole @ take 10 (drop (n * 10) whole)" by (rule take_add)
  then show ?case using Suc
    by (simp add: getReleaseChunk_def Let_def RELEASES_PER_CHUNK_def add.commute)
qed simp

lemma chunk_count_covers: "length whole \<le> getChunkCount whole * RELEASES_PER_CHUNK"
proof -
  have "length whole \<le> ((length whole + 9) div 10) * 10" by presburger
  also have "\<dots> \<le> getChunkCount whole * 10" by (simp add: getChunkCount_def RELEASES_PER_CHUNK_def)
  finally show ?thesis by (simp add: RELEASES_PER_CHUNK_def)
qed

lemma chunk_has_more:
  assumes "1 \<le> c"
  shows "ck_hasMore (getReleaseChunk whole c) \<longleftrightarrow> c < getChunkCount whole"
proof -
  have "(c - 1) * 10 + min (length whole - (c - 1) * 10) 10 < length whole \<longleftrightarrow> c * 10 < length whole"
    using assms by (cases c) auto
  moreover have "c * 10 < length whole \<longleftrightarrow> c < (length whole + 9) div 10"
  proof -
    define q r where "q = (length whole + 9) div 10" and "r = (length whole + 9) mod 10"
    have "length whole + 9 = 10 * q + r" "r < 10" by (simp_all add: q_def r_def)
    then have "c * 10 < length whole \<longleftrightarrow> c < q" by linarith
    then show ?thesis by (simp add: q_def)
  qed
  ultimately show ?thesis using assms
    by (auto simp: getReleaseChunk_def Let_def getChunkCount_def RELEASES_PER_CHUNK_def min.commute)
qed

text \<open>
  the parts of the changelog put together are the changelog: the one the page holds and those
  the static route generates, in order, are every release once, and only the last of them says
  that nothing follows.
\<close>

theorem chunks_are_the_changelog:
  "ck_releases (getReleaseChunk whole 1) @ concat (map (\<lambda>c. ck_releases (getReleaseChunk whole c)) (generateStaticParams whole)) = whole
   \<and> list_all (\<lambda>c. ck_hasMore (getReleaseChunk whole c) \<longleftrightarrow> c < getChunkCount whole) (1 # generateStaticParams whole)"
proof -
  have pos: "1 \<le> getChunkCount whole" by (simp add: getChunkCount_def)
  have route: "1 # generateStaticParams whole = [1..<Suc (getChunkCount whole)]"
  proof -
    have "generateStaticParams whole = [2..<getChunkCount whole - 1 + 2]"
      unfolding generateStaticParams_def by (rule map_add_upt)
    then have "generateStaticParams whole = [2..<Suc (getChunkCount whole)]" using pos by (simp add: numeral_2_eq_2)
    then show ?thesis using pos upt_conv_Cons [of 1 "Suc (getChunkCount whole)"]
      by (simp add: numeral_2_eq_2 del: upt_Suc)
  qed
  have "concat (map (\<lambda>c. ck_releases (getReleaseChunk whole c)) (1 # generateStaticParams whole)) = whole"
    unfolding route chunks_taken using chunk_count_covers by simp
  moreover have "list_all (\<lambda>c. ck_hasMore (getReleaseChunk whole c) \<longleftrightarrow> c < getChunkCount whole) [1..<Suc (getChunkCount whole)]"
    by (auto simp: list_all_iff chunk_has_more)
  ultimately show ?thesis unfolding route [symmetric] by simp
qed

text \<open>Every release's anchors, mapped to the part it is in.\<close>

definition chunk_of_index :: "nat \<Rightarrow> nat" where
  "chunk_of_index index = index div RELEASES_PER_CHUNK + 1"

definition chunkByAnchor :: "site_release list \<Rightarrow> (string \<times> nat) list" where
  "chunkByAnchor releases =
     foldl (\<lambda>ps (index, r). obj_put (re_slug r) (chunk_of_index index) (obj_put (re_anchor r) (chunk_of_index index) ps))
       [] (enumerate 0 releases)"

text \<open>Whatever names the map holds, the release of that name is in the part it says.\<close>

definition on_page :: "site_release list \<Rightarrow> string \<Rightarrow> bool" where
  "on_page rs a \<longleftrightarrow> list_ex (\<lambda>r. re_anchor r = a \<or> re_slug r = a) rs"




section \<open>The strip\<close>

text \<open>\<open>html.match(/<tag[\s>]/g)\<close>: the matches of a tag's opening, none of which overlap.\<close>

fun count_tags :: "string \<Rightarrow> string \<Rightarrow> nat" where
  "count_tags tag [] = 0"
| "count_tags tag (c # s) =
     (if starts_with (CHR ''<'' # tag) (c # s)
         \<and> (case drop (length tag) s of d # _ \<Rightarrow> is_ws d \<or> d = CHR ''>'' | [] \<Rightarrow> False)
      then 1 else 0) + count_tags tag s"

definition countChanges :: "string \<Rightarrow> nat" where
  "countChanges html = (let items = count_tags ''li'' html in if items > 0 then items else count_tags ''p'' html)"

record pulse =
  pu_anchor :: string
  pu_date :: string
  pu_channel :: release_channel
  pu_counts :: "section_kind \<Rightarrow> nat"
  pu_total :: nat

definition pulseOf :: "site_release \<Rightarrow> pulse" where
  "pulseOf r =
     (let (counts, total_changes) =
        foldl (\<lambda>(counts, t) s. (counts(sc_kind s := counts (sc_kind s) + countChanges (sc_html s)), t + countChanges (sc_html s)))
          ((\<lambda>_. 0), 0) (re_sections r)
      in \<lparr>pu_anchor = re_anchor r, pu_date = re_date r, pu_channel = re_channel r, pu_counts = counts,
          pu_total = max 1 total_changes\<rparr>)"

definition SECTION_KINDS :: "section_kind list" where
  "SECTION_KINDS = [Shipped, Improved, Fixed, Documented]"

lemma kinds_add: "sum_list (map (counts(k := counts k + n)) SECTION_KINDS) = sum_list (map counts SECTION_KINDS) + (n :: nat)"
  by (cases k) (simp_all add: SECTION_KINDS_def)

lemma pulse_fold:
  "foldl (\<lambda>(counts, t) s. (counts(sc_kind s := counts (sc_kind s) + f s), t + f s)) (c, t0) ss = (c', t) \<Longrightarrow>
     (t0 :: nat) = sum_list (map c SECTION_KINDS) \<Longrightarrow> t = sum_list (map c' SECTION_KINDS)"
proof (induction ss arbitrary: c t0)
  case (Cons s ss)
  have "t0 + f s = sum_list (map (c(sc_kind s := c (sc_kind s) + f s)) SECTION_KINDS)"
    using Cons.prems(2) by (simp only: kinds_add)
  from Cons.IH [OF _ this] show ?case using Cons.prems(1) by (simp only: foldl_Cons case_prod_conv)
qed simp

text \<open>The counts of a release's kinds add up to its total, floored at one.\<close>

lemma pulse_adds_up: "pu_total (pulseOf r) = max 1 (sum_list (map (pu_counts (pulseOf r)) SECTION_KINDS))"
proof -
  obtain c t where f: "foldl (\<lambda>(counts, t) s. (counts(sc_kind s := counts (sc_kind s) + countChanges (sc_html s)), t + countChanges (sc_html s)))
      ((\<lambda>_. 0), 0) (re_sections r) = (c, t)" by fastforce
  moreover have "sum_list (map (\<lambda>_. 0) SECTION_KINDS) = (0 :: nat)" by (simp add: SECTION_KINDS_def)
  ultimately have "t = sum_list (map c SECTION_KINDS)"
    using pulse_fold [OF f] by simp
  then show ?thesis by (simp add: pulseOf_def f)
qed

text \<open>The bars, oldest first: as a percentage of the highest, never below six.\<close>

definition strip_peak :: "pulse list \<Rightarrow> nat" where
  "strip_peak pulses = foldl max 1 (map pu_total (rev pulses))"

definition strip_bars :: "pulse list \<Rightarrow> rat list" where
  "strip_bars pulses = map (\<lambda>p. max 6 (of_nat (pu_total p) / of_nat (strip_peak pulses) * 100)) (rev pulses)"

text \<open>The years under the bars: each once, under the first of a run of that year.\<close>

fun year_marks :: "string \<Rightarrow> string list \<Rightarrow> string option list" where
  "year_marks year [] = []"
| "year_marks year (d # ds) =
     (let y = take 4 d in (if y \<noteq> year then Some y else None) # year_marks y ds)"

definition strip_years :: "pulse list \<Rightarrow> string option list" where
  "strip_years pulses = year_marks [] (map pu_date (rev pulses))"

lemma foldl_max: "foldl max (m :: nat) xs = Max (insert m (set xs))"
proof (induction xs arbitrary: m)
  case (Cons x xs)
  then show ?case by (cases "xs = []") (simp_all add: max.assoc)
qed simp

lemma peak_bounds: "p \<in> set pulses \<Longrightarrow> pu_total p \<le> strip_peak pulses" "1 \<le> strip_peak pulses"
  by (auto simp: strip_peak_def foldl_max intro: Max_ge)

text \<open>
  every release of the history has one bar, its height is at least six percent and at most the
  whole strip, and the highest one fills the strip when there is a release.
\<close>

theorem strip_bars_fit:
  fixes releases :: "site_release list"
  shows "length (strip_bars (map pulseOf releases)) = length releases
    \<and> list_all (\<lambda>h. 6 \<le> h \<and> h \<le> 100) (strip_bars (map pulseOf releases))
    \<and> (if releases = [] then True else 100 \<in> set (strip_bars (map pulseOf releases)))"
proof -
  define ps where "ps = map pulseOf releases"
  have pos: "0 < (of_nat (strip_peak ps) :: rat)" using peak_bounds(2) [of ps] by simp
  have "(of_nat (pu_total p) :: rat) / of_nat (strip_peak ps) * 100 \<le> 100" if "p \<in> set ps" for p
    using peak_bounds(1) [OF that] pos by (simp add: field_simps)
  then have fit: "list_all (\<lambda>h. 6 \<le> h \<and> h \<le> 100) (strip_bars ps)"
    by (auto simp: strip_bars_def list_all_iff)
  have full: "100 \<in> set (strip_bars ps)" if ne: "ps \<noteq> []"
  proof -
    have "strip_peak ps \<in> insert 1 (pu_total ` set ps)"
      using Max_in [of "insert 1 (pu_total ` set ps)"] by (simp add: strip_peak_def foldl_max del: Max_insert)
    moreover have "1 \<le> pu_total p" if "p \<in> set ps" for p
      using that by (auto simp: ps_def pulse_adds_up)
    moreover have "hd ps \<in> set ps" using ne by simp
    ultimately have "strip_peak ps \<in> pu_total ` set ps"
      using peak_bounds(1) [of "hd ps" ps] by (metis insert_iff image_eqI le_antisym)
    then obtain p where p: "p \<in> set ps" "pu_total p = strip_peak ps" by (metis imageE)
    then have "max 6 (of_nat (pu_total p) / of_nat (strip_peak ps) * 100) = (100 :: rat)" using pos by simp
    then show ?thesis using p(1) by (force simp: strip_bars_def)
  qed
  then show ?thesis using fit unfolding ps_def [symmetric] by (auto simp: strip_bars_def ps_def)
qed

section \<open>The archive on the page\<close>

text \<open>
  The hook \<open>useReleaseArchive\<close>. The loop of \<open>loadThrough\<close> awaits one part at a time, and what comes
  back is an event; \<open>ar_flight\<close> is the part asked for. \<open>targetRef\<close> may become \<open>NaN\<close>, which is \<open>None\<close>.
\<close>

datatype archive_status = Archive_idle | Archive_loading | Archive_error

record archive =
  ar_releases :: "site_release list"
  ar_loadedChunks :: nat
  ar_status :: archive_status
  ar_pending :: "string option"
  ar_loaded :: nat              \<comment> \<open>\<open>loadedRef\<close>\<close>
  ar_busy :: bool               \<comment> \<open>\<open>busyRef\<close>\<close>
  ar_target :: "nat option"     \<comment> \<open>\<open>targetRef\<close>\<close>
  ar_flight :: "nat option"

definition open_archive :: "site_release list \<Rightarrow> archive" where
  "open_archive initial =
     \<lparr>ar_releases = initial, ar_loadedChunks = 1, ar_status = Archive_idle, ar_pending = None, ar_loaded = 1,
      ar_busy = False, ar_target = Some 1, ar_flight = None\<rparr>"

text \<open>\<open>Math.max\<close> and the comparisons, with \<open>None\<close> for \<open>NaN\<close>.\<close>

definition max_num :: "nat option \<Rightarrow> nat option \<Rightarrow> nat option" where
  "max_num a b = (case (a, b) of (Some x, Some y) \<Rightarrow> Some (max x y) | _ \<Rightarrow> None)"

definition number_le :: "nat option \<Rightarrow> nat \<Rightarrow> bool" where
  "number_le a n = (case a of Some x \<Rightarrow> x \<le> n | None \<Rightarrow> False)"

definition number_lt :: "nat \<Rightarrow> nat option \<Rightarrow> bool" where
  "number_lt n a = (case a of Some x \<Rightarrow> n < x | None \<Rightarrow> False)"

text \<open>The head of the loop: another part, or the end.\<close>

definition loop_on :: "archive \<Rightarrow> archive" where
  "loop_on s =
     (if number_lt (ar_loaded s) (ar_target s) then s\<lparr>ar_flight := Some (ar_loaded s + 1)\<rparr>
      else s\<lparr>ar_flight := None, ar_status := Archive_idle, ar_busy := False\<rparr>)"

definition loadThrough :: "nat option \<Rightarrow> archive \<Rightarrow> archive" where
  "loadThrough target s0 =
     (let s = s0\<lparr>ar_target := max_num (ar_target s0) target\<rparr>
      in if ar_busy s \<or> number_le (ar_target s) (ar_loaded s) then s
         else loop_on (s\<lparr>ar_busy := True, ar_status := Archive_loading\<rparr>))"

definition chunk_arrived :: "site_release list option \<Rightarrow> archive \<Rightarrow> archive" where
  "chunk_arrived answer s =
     (case ar_flight s of
        None \<Rightarrow> s
      | Some c \<Rightarrow>
          (case answer of
             Some rs \<Rightarrow> loop_on (s\<lparr>ar_loaded := c, ar_releases := ar_releases s @ rs, ar_loadedChunks := c\<rparr>)
           | None \<Rightarrow> s\<lparr>ar_flight := None, ar_status := Archive_error, ar_busy := False\<rparr>))"

text \<open>
  A name of the map: its part, an inherited property (a function or an object, which no comparison
  finds below anything and \<open>Math.max\<close> makes \<open>NaN\<close>), or nothing.
\<close>

definition anchor_chunk :: "(string \<times> nat) list \<Rightarrow> string \<Rightarrow> nat option option" where
  "anchor_chunk parts anchor =
     (case obj_lookup parts anchor of Own c \<Rightarrow> if c = 0 then None else Some (Some c) | Inherited \<Rightarrow> Some None | Missing \<Rightarrow> None)"

definition jumpTo :: "(string \<times> nat) list \<Rightarrow> string \<Rightarrow> archive \<Rightarrow> archive \<times> bool" where
  "jumpTo parts anchor s =
     (case anchor_chunk parts anchor of
        None \<Rightarrow> (s, False)
      | Some c \<Rightarrow> if number_le c (ar_loaded s) then (s, False)
                  else (loadThrough c (s\<lparr>ar_pending := Some anchor\<rparr>), True))"

text \<open>The hash, which may not decode: then the exception is thrown out of the effect.\<close>

definition resolve_hash :: "(string \<times> nat) list \<Rightarrow> string \<Rightarrow> archive \<Rightarrow> archive option" where
  "resolve_hash parts hash s =
     (case percent_decode False hash of
        None \<Rightarrow> None
      | Some anchor \<Rightarrow>
          (case (if anchor = [] then None else anchor_chunk parts anchor) of
             None \<Rightarrow> Some (s\<lparr>ar_pending := None\<rparr>)
           | Some c \<Rightarrow> if number_le c (ar_loaded s) then Some (s\<lparr>ar_pending := None\<rparr>)
                       else Some (loadThrough c (s\<lparr>ar_pending := Some anchor\<rparr>))))"

text \<open>The scroll, once the release is on the page.\<close>

definition scrolled :: "archive \<Rightarrow> archive" where
  "scrolled s =
     (case ar_pending s of Some a \<Rightarrow> if on_page (ar_releases s) a then s\<lparr>ar_pending := None\<rparr> else s | None \<Rightarrow> s)"

datatype archive_event =
    Load_more
  | Jump string
  | Hash string
  | Arrived "site_release list option"
  | Scrolled

text \<open>The button is there while parts are missing, and disabled while one is on its way.\<close>

definition archive_step :: "(string \<times> nat) list \<Rightarrow> nat \<Rightarrow> archive \<Rightarrow> archive_event \<Rightarrow> archive" where
  "archive_step parts chunkCount s e =
     (case e of
        Load_more \<Rightarrow> if ar_loadedChunks s < chunkCount \<and> ar_status s \<noteq> Archive_loading
                     then loadThrough (Some (ar_loadedChunks s + 1)) s else s
      | Jump a \<Rightarrow> fst (jumpTo parts a s)
      | Hash h \<Rightarrow> (case resolve_hash parts h s of Some s' \<Rightarrow> s' | None \<Rightarrow> s)
      | Arrived answer \<Rightarrow> chunk_arrived answer s
      | Scrolled \<Rightarrow> scrolled s)"

text \<open>The static route answers with the part that was asked for, or fails.\<close>

fun archive_run :: "site_release list \<Rightarrow> archive \<Rightarrow> archive_event list \<Rightarrow> archive" where
  "archive_run whole s [] = s"
| "archive_run whole s (e # es) =
     archive_run whole
       (archive_step (chunkByAnchor whole) (getChunkCount whole) s
          (case e of
             Arrived (Some _) \<Rightarrow>
               Arrived (map_option (\<lambda>c. ck_releases (getReleaseChunk whole c)) (ar_flight s))
           | _ \<Rightarrow> e)) es"


























text \<open>
  An address whose hash names a property every object inherits makes the target \<open>NaN\<close>: from then on
  nothing more of the archive is ever fetched.
\<close>

lemma wedged_step:
  "ar_target s = None \<Longrightarrow> ar_flight s = None \<Longrightarrow>
     ar_target (archive_step parts n s e) = None \<and> ar_flight (archive_step parts n s e) = None
     \<and> ar_releases (archive_step parts n s e) = ar_releases s"
  by (cases e) (auto simp: archive_step_def jumpTo_def resolve_hash_def chunk_arrived_def scrolled_def loadThrough_def
      Let_def max_num_def number_lt_def loop_on_def split: option.splits)

lemma wedged_run:
  "ar_target s = None \<Longrightarrow> ar_flight s = None \<Longrightarrow> ar_releases (archive_run whole s es) = ar_releases s"
  by (induction whole s es rule: archive_run.induct) (use wedged_step in \<open>simp_all add: Let_def\<close>)

lemma inherited_name_stops_archive:
  assumes "map_of (chunkByAnchor whole) ''constructor'' = None"
  shows "ar_releases (archive_run whole (open_archive rs) (Hash ''constructor'' # es)) = rs"
proof -
  have "obj_lookup (chunkByAnchor whole) ''constructor'' = Inherited"
    using assms by (simp add: obj_lookup_def OBJECT_PROTOTYPE_def)
  moreover have "percent_decode False ''constructor'' = Some ''constructor''" by code_simp
  ultimately have "archive_step (chunkByAnchor whole) (getChunkCount whole) (open_archive rs) (Hash ''constructor'')
      = (open_archive rs)\<lparr>ar_pending := Some ''constructor'', ar_target := None\<rparr>"
    by (simp add: archive_step_def resolve_hash_def anchor_chunk_def open_archive_def loadThrough_def max_num_def number_le_def
        number_lt_def loop_on_def Let_def)
  then have "ar_releases (archive_run whole (open_archive rs) (Hash ''constructor'' # es))
      = ar_releases (archive_run whole ((open_archive rs)\<lparr>ar_pending := Some ''constructor'', ar_target := None\<rparr>) es)"
    by simp
  also have "\<dots> = rs" by (subst wedged_run) (simp_all add: open_archive_def)
  finally show ?thesis .
qed

end
