(* ===== verification/DocsContent.thy ===== *)
theory DocsContent
  imports Changelog Json
begin

text \<open>
  The rest of the documentation site: the roadmap read from the public project (\<open>lib/roadmap.ts\<close>,
  the board of \<open>roadmap/overview.tsx\<close> and \<open>stages.tsx\<close>), the blog (\<open>lib/blog.ts\<close>), the rail beside a
  post (\<open>reading-rail.tsx\<close>), and the JSON put into a page (\<open>lib/seo.ts\<close>).
\<close>

section \<open>The roadmap\<close>

definition PREFIXES :: "string list" where
  "PREFIXES = [''feat'', ''fix'', ''chore'', ''docs'', ''refactor'', ''test'', ''perf'', ''build'', ''ci'', ''style'', ''revert'', ''rfc'']"

text \<open>\<open>(\([^)]*\))?\<close>, then \<open>!?:\s*\<close>: what is left after them, when they match.\<close>

definition after_scope :: "string \<Rightarrow> string" where
  "after_scope s =
     (if starts_with ''('' s \<and> CHR '')'' \<in> set s then drop 1 (dropWhile (\<lambda>c. c \<noteq> CHR '')'') s) else s)"

definition after_colon :: "string \<Rightarrow> string option" where
  "after_colon s =
     (let t = (if starts_with ''!'' s then drop 1 s else s)
      in if starts_with '':'' t then Some (dropWhile is_ws (drop 1 t)) else None)"

fun first_match :: "string list \<Rightarrow> string \<Rightarrow> string option" where
  "first_match [] s = None"
| "first_match (p # ps) s =
     (case (if starts_with p (to_lower s) then after_colon (after_scope (drop (length p) s)) else None) of
        Some rest \<Rightarrow> Some rest
      | None \<Rightarrow> first_match ps s)"

text \<open>\<open>toUpperCase\<close> of one letter; beyond ASCII it is left alone here.\<close>

definition char_upper :: "char \<Rightarrow> char" where
  "char_upper c = (if is_lower c then char_of ((of_char c :: nat) - 32) else c)"

definition cleanTitle :: "string \<Rightarrow> string" where
  "cleanTitle title =
     (let bare = (case first_match PREFIXES title of Some rest \<Rightarrow> rest | None \<Rightarrow> title)
      in case bare of c # s \<Rightarrow> char_upper c # s | [] \<Rightarrow> [])"

datatype horizon = Now | Next | Later

definition HORIZONS :: "horizon list" where
  "HORIZONS = [Now, Next, Later]"

fun horizon_name :: "horizon \<Rightarrow> string" where
  "horizon_name Now = ''Now''"
| "horizon_name Next = ''Next''"
| "horizon_name Later = ''Later''"

definition AREAS :: "(string \<times> string) list" where
  "AREAS = [(''server'', ''Server''), (''webview-ui'', ''Dashboard''), (''client'', ''Client''), (''mcp'', ''MCP''),
     (''docs'', ''Docs''), (''infra'', ''Infra'')]"

text \<open>A field of an item: its name, and its option's name where it is a select that is set.\<close>

type_synonym raw_field = "string \<times> string option"

record raw_item =
  rw_id :: int
  rw_title :: "string option"
  rw_number :: "int option"
  rw_url :: "string option"
  rw_closed :: "string option"
  rw_fields :: "raw_field list option"

record roadmap_item =
  rm_id :: int
  rm_title :: string
  rm_number :: "int option"
  rm_url :: string
  rm_status :: "string option"
  rm_horizon :: horizon
  rm_area :: "string lookup option"
  rm_closedAt :: "string option"

definition PROJECT_URL :: string where
  "PROJECT_URL = ''https://github.com/orgs/rustrak/projects/2''"

definition select_option :: "raw_field list \<Rightarrow> string \<Rightarrow> string option" where
  "select_option fs name = (case List.find (\<lambda>f. fst f = name) fs of Some f \<Rightarrow> snd f | None \<Rightarrow> None)"

text \<open>\<open>AREAS[area] ?? area\<close>: the name of a property every object has reads that property.\<close>

definition area_of :: "string option \<Rightarrow> string lookup option" where
  "area_of area =
     (case area of
        Some a \<Rightarrow> if a = [] then None else Some (case obj_lookup AREAS a of Missing \<Rightarrow> Own a | found \<Rightarrow> found)
      | None \<Rightarrow> None)"

definition horizon_of :: "string option \<Rightarrow> horizon" where
  "horizon_of h = (case List.find (\<lambda>x. Some (horizon_name x) = h) HORIZONS of Some x \<Rightarrow> x | None \<Rightarrow> Later)"

definition toItem :: "raw_item \<Rightarrow> roadmap_item" where
  "toItem raw =
     (let fs = (case rw_fields raw of Some f \<Rightarrow> f | None \<Rightarrow> [])
      in \<lparr>rm_id = rw_id raw, rm_title = cleanTitle (case rw_title raw of Some t \<Rightarrow> t | None \<Rightarrow> ''Untitled''),
          rm_number = rw_number raw, rm_url = (case rw_url raw of Some u \<Rightarrow> u | None \<Rightarrow> PROJECT_URL),
          rm_status = select_option fs ''Status'', rm_horizon = horizon_of (select_option fs ''Horizon''),
          rm_area = area_of (select_option fs ''Primary area''), rm_closedAt = rw_closed raw\<rparr>)"

section \<open>Reading the project\<close>

text \<open>\<open>/<([^>]+)>;\s*rel="next"/\<close>: the first place of the header it matches at.\<close>

definition link_at :: "string \<Rightarrow> string option" where
  "link_at s =
     (if starts_with ''<'' s then
        let url = takeWhile (\<lambda>c. c \<noteq> CHR ''>'') (drop 1 s); rest = dropWhile (\<lambda>c. c \<noteq> CHR ''>'') (drop 1 s)
        in if url \<noteq> [] \<and> starts_with ''>;'' rest
              \<and> starts_with (''rel='' @ [CHR 0x22] @ ''next'' @ [CHR 0x22]) (dropWhile is_ws (drop 2 rest))
           then Some url else None
      else None)"

fun next_link :: "string \<Rightarrow> string option" where
  "next_link [] = None"
| "next_link (c # s) = (case link_at (c # s) of Some u \<Rightarrow> Some u | None \<Rightarrow> next_link s)"

text \<open>
  The pages, one after the other: what the server answers at an address is a failure, or the items
  with the header. A server whose pages never end is read for ever, which is \<open>None\<close>.
\<close>

type_synonym project_server = "string \<Rightarrow> (raw_item list \<times> string option) option"

partial_function (option) fetch_pages :: "project_server \<Rightarrow> string \<Rightarrow> raw_item list \<Rightarrow> raw_item list option option" where
  "fetch_pages server url items =
     (case server url of
        None \<Rightarrow> Some None
      | Some (page, link) \<Rightarrow>
          (case Option.bind link next_link of
             None \<Rightarrow> Some (Some (items @ page))
           | Some u \<Rightarrow> fetch_pages server u (items @ page)))"

definition API :: string where
  "API = ''https://api.github.com/orgs/rustrak/projectsV2/2''"

definition items_url :: "(int \<times> string) list \<Rightarrow> string" where
  "items_url fs =
     API @ ''/items?per_page=100&fields='' @
       join_with '','' (map (\<lambda>f. int_str (fst f)) (filter (\<lambda>f. snd f \<in> {''Status'', ''Horizon'', ''Primary area''}) fs))"

definition fetchRoadmap :: "(int \<times> string) list option \<Rightarrow> project_server \<Rightarrow> roadmap_item list option option" where
  "fetchRoadmap field_list server =
     (case field_list of
        None \<Rightarrow> Some None
      | Some fs \<Rightarrow> map_option (map_option (map toItem)) (fetch_pages server (items_url fs) []))"

text \<open>A header of links, as GitHub writes it, gives its next one.\<close>

definition link_text :: "string \<times> string \<Rightarrow> string" where
  "link_text l = ''<'' @ fst l @ ''>; rel='' @ [CHR 0x22] @ snd l @ [CHR 0x22]"

definition link_header :: "(string \<times> string) list \<Rightarrow> string" where
  "link_header links = join_with '', '' (map link_text links)"

definition plain_link :: "string \<times> string \<Rightarrow> bool" where
  "plain_link l \<longleftrightarrow> fst l \<noteq> [] \<and> list_all (\<lambda>c. c \<noteq> CHR ''<'' \<and> c \<noteq> CHR ''>'') (fst l)
     \<and> list_all (\<lambda>c. c \<noteq> CHR ''<'' \<and> c \<noteq> CHR 0x22) (snd l)"

lemma no_link_inside: "CHR ''<'' \<notin> set w \<Longrightarrow> next_link (w @ s) = next_link s"
  by (induction w) (auto simp: link_at_def starts_with_def)

lemma url_taken:
  "list_all (\<lambda>c. c \<noteq> CHR ''<'' \<and> c \<noteq> CHR ''>'') u \<Longrightarrow> takeWhile (\<lambda>c. c \<noteq> CHR ''>'') (u @ CHR ''>'' # s) = u"
  "list_all (\<lambda>c. c \<noteq> CHR ''<'' \<and> c \<noteq> CHR ''>'') u \<Longrightarrow> dropWhile (\<lambda>c. c \<noteq> CHR ''>'') (u @ CHR ''>'' # s) = CHR ''>'' # s"
  by (induction u) auto

lemma quoted_same:
  "CHR 0x22 \<notin> set r \<Longrightarrow> CHR 0x22 \<notin> set q \<Longrightarrow> starts_with (q @ [CHR 0x22]) (r @ CHR 0x22 # s) \<longleftrightarrow> r = q"
proof (induction q arbitrary: r)
  case Nil
  then show ?case by (cases r) (auto simp: starts_with_def)
next
  case (Cons c q)
  then show ?case by (cases r) (auto simp: starts_with_def)
qed

lemma link_at_text:
  assumes "plain_link l"
  shows "link_at (link_text l @ s) = (if snd l = ''next'' then Some (fst l) else None)"
proof -
  have u: "list_all (\<lambda>c. c \<noteq> CHR ''<'' \<and> c \<noteq> CHR ''>'') (fst l)" and r: "CHR 0x22 \<notin> set (snd l)" and "fst l \<noteq> []"
    using assms by (auto simp: plain_link_def list_all_iff)
  then show ?thesis
    using url_taken [OF u] quoted_same [OF r, of "''next''" s]
    by (simp add: link_at_def link_text_def starts_with_def is_ws_def)
qed

lemma next_link_head:
  assumes "plain_link l"
  shows "next_link (link_text l @ s) = (if snd l = ''next'' then Some (fst l) else next_link s)"
proof -
  obtain w where w: "link_text l = CHR ''<'' # w" "CHR ''<'' \<notin> set w"
    using assms by (auto simp: link_text_def plain_link_def list_all_iff)
  show ?thesis using link_at_text [OF assms, of s] no_link_inside [OF w(2), of s] unfolding w(1) by simp
qed

lemma next_link_header:
  "list_all plain_link links \<Longrightarrow> next_link (link_header links) = map_of (map prod.swap links) ''next''"
proof (induction links)
  case (Cons l ls)
  have "next_link (link_header (l # ls)) = (if snd l = ''next'' then Some (fst l) else next_link (link_header ls))"
  proof (cases ls)
    case Nil
    then show ?thesis using next_link_head [of l "[]"] Cons.prems by (simp add: link_header_def)
  next
    case (Cons m ms)
    have "next_link ('', '' @ s) = next_link s" for s by (rule no_link_inside) simp
    then show ?thesis using next_link_head [of l "'', '' @ link_header ls"] \<open>list_all plain_link (l # ls)\<close>
      by (simp add: link_header_def Cons)
  qed
  then show ?case using Cons by (cases l) auto
qed (simp add: link_header_def)

text \<open>A project served in pages: each page's header names its neighbours, the last one no next.\<close>

fun serves_pages :: "project_server \<Rightarrow> string \<Rightarrow> raw_item list list \<Rightarrow> bool" where
  "serves_pages server url [] \<longleftrightarrow> False"
| "serves_pages server url [page] \<longleftrightarrow>
     (case server url of
        Some (items, link) \<Rightarrow> items = page \<and> Option.bind link next_link = None
      | None \<Rightarrow> False)"
| "serves_pages server url (page # rest) \<longleftrightarrow>
     (case server url of
        Some (items, link) \<Rightarrow> items = page \<and>
          (case Option.bind link next_link of Some u \<Rightarrow> serves_pages server u rest | None \<Rightarrow> False)
      | None \<Rightarrow> False)"

lemma fetch_pages_whole:
  "serves_pages server url pages \<Longrightarrow> fetch_pages server url items = Some (Some (items @ concat pages))"
proof (induction server url pages arbitrary: items rule: serves_pages.induct)
  case (2 server url page)
  then show ?case by (subst fetch_pages.simps) (auto split: option.splits)
next
  case (3 server url page p ps)
  then show ?case by (subst fetch_pages.simps) (auto split: option.splits)
qed simp

section \<open>The board\<close>

definition open_items :: "roadmap_item list \<Rightarrow> roadmap_item list" where
  "open_items items = filter (\<lambda>i. rm_status i \<noteq> Some ''Shipped'') items"

definition shipped_items :: "roadmap_item list \<Rightarrow> roadmap_item list" where
  "shipped_items items = filter (\<lambda>i. rm_status i = Some ''Shipped'') items"

definition horizon_column :: "roadmap_item list \<Rightarrow> horizon \<Rightarrow> roadmap_item list" where
  "horizon_column items h = filter (\<lambda>i. rm_horizon i = h) items"

definition PER_COLUMN :: nat where
  "PER_COLUMN = 4"

text \<open>The cards of a column, and how many more there are when some are folded.\<close>

definition column_cards :: "roadmap_item list \<Rightarrow> horizon \<Rightarrow> roadmap_item list \<times> nat option" where
  "column_cards items h =
     (let c = horizon_column items h
      in (take PER_COLUMN c, if length c > PER_COLUMN then Some (length c - PER_COLUMN) else None))"

definition SHIPPED :: nat where
  "SHIPPED = 6"

definition recent_items :: "(string \<Rightarrow> string \<Rightarrow> int) \<Rightarrow> roadmap_item list \<Rightarrow> roadmap_item list" where
  "recent_items locale shipped =
     (let closed = (\<lambda>i. case rm_closedAt i of Some d \<Rightarrow> d | None \<Rightarrow> [])
      in take SHIPPED (sort_by (\<lambda>a b. locale (closed b) (closed a) \<le> 0) shipped))"

text \<open>The page: what the build fetched, replaced by what the project says once that is read.\<close>

definition live_items :: "roadmap_item list \<Rightarrow> roadmap_item list option \<Rightarrow> roadmap_item list" where
  "live_items initial refreshed = (case refreshed of Some items \<Rightarrow> items | None \<Rightarrow> initial)"

lemma columns_partition: "mset (concat (map (horizon_column items) HORIZONS)) = mset items"
proof (induction items)
  case (Cons i items)
  then show ?case by (cases "rm_horizon i") (simp_all add: horizon_column_def HORIZONS_def)
qed (simp add: horizon_column_def HORIZONS_def)

text \<open>
  the roadmap is the project: all pages of it are read however many there are, and every item
  stands in exactly one place, among what is shipped or in the column of its horizon, an item nobody
  placed in the last; a column shows four at most and counts the rest.
\<close>

theorem roadmap_places_every_item:
  assumes "serves_pages server (items_url fs) pages"
  shows "\<exists>items. fetchRoadmap (Some fs) server = Some (Some items) \<and> items = map toItem (concat pages)
    \<and> mset (concat (map (horizon_column (open_items items)) HORIZONS)) + mset (shipped_items items) = mset items
    \<and> list_all (\<lambda>h. length (fst (column_cards items h)) \<le> 4
        \<and> length (fst (column_cards items h)) + (case snd (column_cards items h) of Some n \<Rightarrow> n | None \<Rightarrow> 0) = length (horizon_column items h))
       HORIZONS"
proof (intro exI conjI)
  show "fetchRoadmap (Some fs) server = Some (Some (map toItem (concat pages)))"
    using fetch_pages_whole [OF assms, of "[]"] by (simp add: fetchRoadmap_def)
  show "mset (concat (map (horizon_column (open_items (map toItem (concat pages)))) HORIZONS)) + mset (shipped_items (map toItem (concat pages)))
      = mset (map toItem (concat pages))"
    unfolding columns_partition open_items_def shipped_items_def
    by (metis mset_filter multiset_partition union_commute)
  show "list_all (\<lambda>h. length (fst (column_cards (map toItem (concat pages)) h)) \<le> 4
      \<and> length (fst (column_cards (map toItem (concat pages)) h)) +
          (case snd (column_cards (map toItem (concat pages)) h) of Some n \<Rightarrow> n | None \<Rightarrow> 0)
        = length (horizon_column (map toItem (concat pages)) h)) HORIZONS"
    by (auto simp: list_all_iff column_cards_def Let_def PER_COLUMN_def)
qed (rule refl)

definition roadmap_sample :: project_server where
  "roadmap_sample url =
     (if url = items_url [(7, ''Status'')]
      then Some ([\<lparr>rw_id = 1, rw_title = Some ''fix: a'', rw_number = None, rw_url = None, rw_closed = None, rw_fields = None\<rparr>],
             Some (link_header [(''u2'', ''next''), (''u9'', ''last'')]))
      else if url = ''u2''
      then Some ([\<lparr>rw_id = 2, rw_title = None, rw_number = None, rw_url = None, rw_closed = None,
             rw_fields = Some [(''Status'', Some ''Shipped'')]\<rparr>], Some (link_header [(''u1'', ''prev'')]))
      else None)"

lemma roadmap_places_every_item_witness:
  "\<exists>items. fetchRoadmap (Some [(7, ''Status'')]) roadmap_sample = Some (Some items) \<and> length items = 2
    \<and> mset (concat (map (horizon_column (open_items items)) HORIZONS)) + mset (shipped_items items) = mset items"
proof -
  have h: "next_link (link_header [(''u2'', ''next''), (''u9'', ''last'')]) = Some ''u2''"
    "next_link (link_header [(''u1'', ''prev'')]) = None"
    by (simp_all add: next_link_header plain_link_def)
  have "items_url [(7, ''Status'')] \<noteq> ''u2''" by (simp add: items_url_def API_def)
  then have "serves_pages roadmap_sample (items_url [(7, ''Status'')])
      [[\<lparr>rw_id = 1, rw_title = Some ''fix: a'', rw_number = None, rw_url = None, rw_closed = None, rw_fields = None\<rparr>],
       [\<lparr>rw_id = 2, rw_title = None, rw_number = None, rw_url = None, rw_closed = None,
         rw_fields = Some [(''Status'', Some ''Shipped'')]\<rparr>]]"
    using h by (simp add: roadmap_sample_def)
  from roadmap_places_every_item [OF this] show ?thesis by auto
qed

section \<open>Titles\<close>

lemma prefixes_distinct: "list_all (\<lambda>p. list_all (\<lambda>q. starts_with p q \<longrightarrow> p = q) PREFIXES) PREFIXES"
  by code_simp

lemma prefixes_letters: "list_all (list_all is_lower) PREFIXES"
  by code_simp

lemma prefix_of_word:
  assumes "starts_with p (w @ s)" and "list_all is_lower p" and "case s of c # _ \<Rightarrow> \<not> is_lower c | [] \<Rightarrow> True"
  shows "starts_with p w"
  using assms
proof (induction p arbitrary: w)
  case (Cons a p)
  then show ?case by (cases w; cases s) (auto simp: starts_with_def)
qed (simp add: starts_with_def)

lemma first_match_word:
  assumes "list_all (\<lambda>q. q = to_lower w \<or> \<not> starts_with q (to_lower (w @ s))) ps"
    and "to_lower w \<in> set ps" and "after_colon (after_scope s) = Some rest"
  shows "first_match ps (w @ s) = Some rest"
  using assms(1,2)
proof (induction ps)
  case (Cons p ps)
  have "starts_with (to_lower w) (to_lower (w @ s))" by (simp add: to_lower_def)
  moreover have "length (to_lower w) = length w" by (simp add: to_lower_def)
  ultimately show ?case using Cons assms(3) by (cases "p = to_lower w") auto
qed simp

lemma closed_scope: "d \<notin> set m \<Longrightarrow> dropWhile (\<lambda>c. c \<noteq> d) (m @ d # t) = d # t"
  by (induction m) auto

text \<open>
  A conventional prefix in any case, with its scope and its mark, comes off, and the title starts with a
  capital.
\<close>

lemma prefix_comes_off:
  assumes "to_lower w \<in> set PREFIXES" and "scope = [] \<or> scope = ''('' @ m @ '')'' \<and> CHR '')'' \<notin> set m"
    and "bang = [] \<or> bang = ''!''" and "\<not> is_ws c"
  shows "cleanTitle (w @ scope @ bang @ '': '' @ c # rest) = char_upper c # rest"
proof -
  define s where "s = scope @ bang @ '': '' @ c # rest"
  have first: "case to_lower s of d # _ \<Rightarrow> \<not> is_lower d | [] \<Rightarrow> True"
    using assms(2,3) by (auto simp: s_def to_lower_def char_lower_def is_lower_def is_upper_def)
  have "q = to_lower w \<or> \<not> starts_with q (to_lower (w @ s))" if "q \<in> set PREFIXES" for q
  proof (rule disjCI)
    assume "\<not> \<not> starts_with q (to_lower (w @ s))"
    then have "starts_with q (to_lower w @ to_lower s)" by (simp add: to_lower_def)
    then have "starts_with q (to_lower w)"
      using prefix_of_word [OF _ _ first] prefixes_letters that by (auto simp: list_all_iff)
    then show "q = to_lower w" using prefixes_distinct that assms(1) by (auto simp: list_all_iff)
  qed
  moreover have scope: "after_scope (scope @ t) = t" if "\<not> starts_with ''('' t" for t
    using assms(2) that closed_scope [of "CHR '')''" m t] by (auto simp: after_scope_def starts_with_def)
  have "after_colon (after_scope s) = Some (c # rest)"
    using assms(3,4) scope [of "bang @ '': '' @ c # rest"] unfolding s_def
    by (auto simp: after_colon_def starts_with_def is_ws_def)
  ultimately have "first_match PREFIXES (w @ s) = Some (c # rest)"
    using assms(1) by (intro first_match_word) (auto simp: list_all_iff)
  then show ?thesis by (simp add: cleanTitle_def s_def)
qed

section \<open>The outline of a post\<close>

definition is_fence :: "string \<Rightarrow> bool" where
  "is_fence line \<longleftrightarrow>
     (let t = dropWhile is_ws line in starts_with ''```'' t \<or> starts_with ''~~~'' t)"

text \<open>
  \<open>/^##\s+(.+?)\s*$/\<close>: the text without the blanks around it. Of nothing but blanks the expression
  gives one back, the last that is no line end, and needs another before it.
\<close>

definition outline_heading :: "string \<Rightarrow> string option" where
  "outline_heading line =
     (if starts_with ''##'' line
      then let rest = drop 2 line; blanks = takeWhile is_ws rest; body = dropWhile is_ws rest
           in if blanks = [] then None
              else if body = []
              then (case rev (filter (\<lambda>c. \<not> is_line_end c) (drop 1 blanks)) of c # _ \<Rightarrow> Some [c] | [] \<Rightarrow> None)
              else if list_ex is_line_end (trim_end body) then None else Some (trim_end body)
      else None)"

fun outline_lines :: "bool \<Rightarrow> string list \<Rightarrow> string list" where
  "outline_lines fenced [] = []"
| "outline_lines fenced (line # lines) =
     (if is_fence line then outline_lines (\<not> fenced) lines
      else if fenced then outline_lines fenced lines
      else case outline_heading line of
          Some h \<Rightarrow> h # outline_lines fenced lines
        | None \<Rightarrow> outline_lines fenced lines)"

definition readOutline :: "string \<Rightarrow> string list" where
  "readOutline body = outline_lines False (split_on (CHR 0x0A) body)"

text \<open>What the outline is: the headings with an even number of fences before them, in order.\<close>

definition fences_before :: "string list \<Rightarrow> nat \<Rightarrow> nat" where
  "fences_before lines i = length (filter is_fence (take i lines))"

definition listed_heading :: "string list \<Rightarrow> nat \<Rightarrow> string option" where
  "listed_heading lines i =
     (if is_fence (lines ! i) \<or> odd (fences_before lines i) then None else outline_heading (lines ! i))"

lemma outline_lines_parity:
  "outline_lines fenced lines =
     List.map_filter (\<lambda>i. if is_fence (lines ! i) \<or> (odd (fences_before lines i) \<noteq> fenced) then None
                          else outline_heading (lines ! i)) [0..<length lines]"
proof (induction fenced lines rule: outline_lines.induct)
  case (2 fenced line lines)
  have up: "[0..<length (line # lines)] = 0 # map Suc [0..<length lines]"
    by (simp add: map_Suc_upt upt_conv_Cons del: upt_Suc)
  have before: "fences_before (line # lines) (Suc i) = (if is_fence line then 1 else 0) + fences_before lines i" for i
    by (simp add: fences_before_def)
  have zero: "fences_before (line # lines) 0 = 0" by (simp add: fences_before_def)
  have mf: "List.map_filter f (x # xs) = (case f x of None \<Rightarrow> List.map_filter f xs | Some y \<Rightarrow> y # List.map_filter f xs)"
    for f :: "nat \<Rightarrow> string option" and x xs by (simp add: map_filter_simps)
  have mm: "List.map_filter f (map Suc xs) = List.map_filter (\<lambda>i. f (Suc i)) xs" for f :: "nat \<Rightarrow> string option" and xs
    by (simp add: map_filter_def comp_def filter_map)
  show ?case unfolding up mf mm before zero nth_Cons_Suc nth_Cons_0
    using 2 by (cases "is_fence line"; cases fenced) (auto split: option.split)
qed (simp add: map_filter_simps)

lemma outline_is_unfenced:
  "readOutline body =
     (let lines = split_on (CHR 0x0A) body in List.map_filter (listed_heading lines) [0..<length lines])"
  by (simp add: readOutline_def outline_lines_parity listed_heading_def [abs_def] Let_def)

text \<open>
  A line that opens a fence of one kind closes one of the other here: a heading-like line of a sample
  written between tildes is listed when a fence of backticks is shown before it.
\<close>

lemma nested_fence_leaks:
  "outline_lines False [''~~~'', ''```'', ''## a comment'', ''```'', ''~~~''] = [''a comment'']"
  by code_simp

section \<open>Posts\<close>

record post =
  po_slug :: string
  po_title :: string
  po_date :: string
  po_tags :: "string list"
  po_draft :: bool
  po_outline :: "string list"

text \<open>The front matter has been read: the fields it gives, each where it is there.\<close>

record front_matter =
  fm_title :: "string option"
  fm_date :: string
  fm_tags :: "string list option"
  fm_draft :: "bool option"

definition readPost :: "string \<Rightarrow> front_matter \<Rightarrow> string \<Rightarrow> post" where
  "readPost filename fm content =
     \<lparr>po_slug = strip_mdx filename, po_title = (case fm_title fm of Some t \<Rightarrow> t | None \<Rightarrow> ''Untitled''),
      po_date = fm_date fm, po_tags = (case fm_tags fm of Some ts \<Rightarrow> ts | None \<Rightarrow> []),
      po_draft = (case fm_draft fm of Some d \<Rightarrow> d | None \<Rightarrow> False), po_outline = readOutline content\<rparr>"

definition getPosts :: "bool \<Rightarrow> (string \<Rightarrow> int option) \<Rightarrow> (string \<times> front_matter \<times> string) list \<Rightarrow> post list" where
  "getPosts development time files =
     sort_by (\<lambda>a b. time_of time (po_date b) - time_of time (po_date a) \<le> 0)
       (filter (\<lambda>p. development \<or> \<not> po_draft p)
         (map (\<lambda>(name, fm, content). readPost name fm content) (filter (\<lambda>f. ends_with ''.mdx'' (fst f)) files)))"

definition getTagCounts :: "(string \<Rightarrow> string \<Rightarrow> int) \<Rightarrow> post list \<Rightarrow> (string \<times> nat) list" where
  "getTagCounts locale posts =
     sort_by (\<lambda>a b. snd b < snd a \<or> snd b = snd a \<and> locale (fst a) (fst b) \<le> 0)
       (foldl (\<lambda>counts tag. map_put tag ((case map_of counts tag of Some n \<Rightarrow> n | None \<Rightarrow> 0) + 1) counts) []
         (concat (map po_tags posts)))"

definition getNeighbourPosts :: "post list \<Rightarrow> string \<Rightarrow> post option \<times> post option" where
  "getNeighbourPosts posts slug =
     (case find_index (\<lambda>p. po_slug p = slug) posts of
        None \<Rightarrow> (None, None)
      | Some i \<Rightarrow> (at_index posts (i + 1), if i = 0 then None else at_index posts (i - 1)))"

text \<open>Each tag is counted as often as it is used, and none twice.\<close>

lemma tag_fold:
  "map_of (foldl (\<lambda>counts tag. map_put tag ((case map_of counts tag of Some n \<Rightarrow> n | None \<Rightarrow> 0) + 1) counts) c tags) t =
     (if t \<in> set tags \<or> map_of c t \<noteq> None
      then Some ((case map_of c t of Some n \<Rightarrow> n | None \<Rightarrow> 0) + count_list tags t) else (None :: nat option))"
  by (induction tags arbitrary: c) (auto simp: map_put_lookup split: option.splits)

lemma tag_fold_distinct:
  "distinct (map fst c) \<Longrightarrow>
     distinct (map fst (foldl (\<lambda>counts tag. map_put tag ((case map_of counts tag of Some n \<Rightarrow> n | None \<Rightarrow> (0::nat)) + 1) counts) c tags))"
  by (induction tags arbitrary: c) (auto simp: map_put_distinct)

lemma tags_counted:
  "distinct (map fst (getTagCounts locale posts))"
  "(tag, n) \<in> set (getTagCounts locale posts) \<longleftrightarrow> 0 < n \<and> n = count_list (concat (map po_tags posts)) tag"
proof -
  define cs where "cs = foldl (\<lambda>counts tag. map_put tag ((case map_of counts tag of Some n \<Rightarrow> n | None \<Rightarrow> (0::nat)) + 1) counts) []
      (concat (map po_tags posts))"
  have d: "distinct (map fst cs)" unfolding cs_def by (rule tag_fold_distinct) simp
  have perm: "mset (getTagCounts locale posts) = mset cs" by (simp add: getTagCounts_def cs_def)
  then show "distinct (map fst (getTagCounts locale posts))" using d by (metis mset_map mset_eq_imp_distinct_iff)
  have "(tag, n) \<in> set cs \<longleftrightarrow> map_of cs tag = Some n" using d by simp
  also have "\<dots> \<longleftrightarrow> 0 < n \<and> n = count_list (concat (map po_tags posts)) tag"
    using count_list_0_iff [of "concat (map po_tags posts)" tag]
    unfolding cs_def tag_fold neq0_conv [symmetric] by auto
  finally show "(tag, n) \<in> set (getTagCounts locale posts) \<longleftrightarrow> 0 < n \<and> n = count_list (concat (map po_tags posts)) tag"
    using perm by (metis set_mset_mset)
qed

lemma find_slug: "distinct (map po_slug posts) \<Longrightarrow> i < length posts \<Longrightarrow>
    find_index (\<lambda>p. po_slug p = po_slug (posts ! i)) posts = Some i"
proof (induction posts arbitrary: i)
  case (Cons p posts)
  then show ?case by (cases i) auto
qed simp

lemma posts_by_date:
  "sorted_wrt (\<lambda>a b. time_of time (po_date b) \<le> time_of time (po_date a)) (getPosts development time files)"
  unfolding getPosts_def
  using sorted_sort_by [of "\<lambda>a b. time_of time (po_date b) - time_of time (po_date a) \<le> 0"] by fastforce

text \<open>
  the two posts either side of one are named by time, as each other's neighbours: the older one
  is no newer, it calls the post it was reached from its newer one, and a post between them there is
  none. A draft is among them only in development.
\<close>

theorem neighbours_are_mutual:
  assumes "distinct (map po_slug (getPosts development time files))"
    and "a \<in> set (getPosts development time files)" and "b \<in> set (getPosts development time files)"
  shows "(fst (getNeighbourPosts (getPosts development time files) (po_slug a)) = Some b
       \<longleftrightarrow> snd (getNeighbourPosts (getPosts development time files) (po_slug b)) = Some a)
    \<and> (fst (getNeighbourPosts (getPosts development time files) (po_slug a)) = Some b
        \<longrightarrow> time_of time (po_date b) \<le> time_of time (po_date a))
    \<and> (development \<or> \<not> po_draft a)"
proof -
  define ps where "ps = getPosts development time files"
  have d: "distinct (map po_slug ps)" using assms(1) by (simp add: ps_def)
  then have dp: "distinct ps" by (simp add: distinct_map)
  obtain i j where i: "i < length ps" "ps ! i = a" and j: "j < length ps" "ps ! j = b"
    using assms(2,3) by (auto simp: ps_def in_set_conv_nth)
  have fi: "find_index (\<lambda>p. po_slug p = po_slug a) ps = Some i" using find_slug [OF d i(1)] i(2) by simp
  have fj: "find_index (\<lambda>p. po_slug p = po_slug b) ps = Some j" using find_slug [OF d j(1)] j(2) by simp
  have older: "fst (getNeighbourPosts ps (po_slug a)) = Some b \<longleftrightarrow> j = i + 1"
    using j nth_eq_iff_index_eq [OF dp, of "i + 1" j] by (auto simp: getNeighbourPosts_def fi at_index_def)
  have newer: "snd (getNeighbourPosts ps (po_slug b)) = Some a \<longleftrightarrow> j = i + 1"
    using i nth_eq_iff_index_eq [OF dp, of "j - 1" i] j(1) by (auto simp: getNeighbourPosts_def fj at_index_def)
  have "time_of time (po_date b) \<le> time_of time (po_date a)" if "j = i + 1"
    using posts_by_date [of time development files] i j that
    by (simp add: ps_def sorted_wrt_iff_nth_less) (metis lessI)
  moreover have "development \<or> \<not> po_draft a" using assms(2) by (auto simp: getPosts_def)
  ultimately show ?thesis unfolding ps_def [symmetric] older newer by blast
qed

definition sample_files :: "(string \<times> front_matter \<times> string) list" where
  "sample_files =
     [(''old.mdx'', \<lparr>fm_title = None, fm_date = ''1'', fm_tags = None, fm_draft = None\<rparr>, []),
      (''notes.txt'', \<lparr>fm_title = None, fm_date = ''1'', fm_tags = None, fm_draft = None\<rparr>, []),
      (''new.mdx'', \<lparr>fm_title = None, fm_date = ''22'', fm_tags = None, fm_draft = Some False\<rparr>, [])]"

lemma sample_posts:
  "map po_slug (getPosts False (\<lambda>d. Some (int (length d))) sample_files) = [''new'', ''old'']"
  by code_simp

lemma neighbours_are_mutual_witness:
  "let ps = getPosts False (\<lambda>d. Some (int (length d))) sample_files
   in fst (getNeighbourPosts ps ''new'') = Some (ps ! 1) \<and> snd (getNeighbourPosts ps ''old'') = Some (ps ! 0)"
proof -
  define ps where "ps = getPosts False (\<lambda>d. Some (int (length d))) sample_files"
  have slugs: "map po_slug ps = [''new'', ''old'']" unfolding ps_def by (rule sample_posts)
  then obtain a b where ab: "ps = [a, b]" "po_slug a = ''new''" "po_slug b = ''old''" by (auto simp: Cons_eq_map_conv)
  have "fst (getNeighbourPosts ps (po_slug a)) = Some b"
    by (simp add: getNeighbourPosts_def ab at_index_def)
  moreover have "fst (getNeighbourPosts ps (po_slug a)) = Some b \<longleftrightarrow> snd (getNeighbourPosts ps (po_slug b)) = Some a"
    using neighbours_are_mutual [of False "\<lambda>d. Some (int (length d))" sample_files a b] ab slugs
    unfolding ps_def [symmetric] by simp
  ultimately show ?thesis using ab unfolding ps_def [symmetric] by (simp add: Let_def)
qed

section \<open>Reading time and the rail\<close>

text \<open>\<open>value.replace(/\s*read$/i, '')\<close>\<close>

definition shortReadingTime :: "string \<Rightarrow> string" where
  "shortReadingTime value =
     (if ends_with ''read'' (to_lower value) then trim_end (take (length value - 4) value) else value)"

definition clamp :: "rat \<Rightarrow> rat" where
  "clamp value = min 1 (max 0 value)"

text \<open>How far the post has been read: from its box's top and height and the height of the window.\<close>

definition reading_progress :: "rat \<Rightarrow> rat \<Rightarrow> rat \<Rightarrow> rat" where
  "reading_progress top_edge height window = clamp (- top_edge / max 1 (height - window))"

definition ACTIVE_MARGIN :: rat where
  "ACTIVE_MARGIN = 96"

text \<open>The heading being read: the last listed one that is on the page and no lower than the margin.\<close>

definition activeId :: "(string \<Rightarrow> rat option) \<Rightarrow> string list \<Rightarrow> string" where
  "activeId heading_top items =
     foldl (\<lambda>current i. case heading_top i of Some t \<Rightarrow> if t \<le> ACTIVE_MARGIN then i else current | None \<Rightarrow> current) [] items"

lemma progress_bounds: "0 \<le> reading_progress t h w \<and> reading_progress t h w \<le> 1"
  by (simp add: reading_progress_def clamp_def)

text \<open>A post that fits the window is read at its top or not at all, never divided by nothing.\<close>

lemma progress_of_ends:
  "0 \<le> t \<Longrightarrow> reading_progress t h w = 0"
  "w + 1 \<le> h \<Longrightarrow> reading_progress (w - h) h w = 1"
proof -
  show "reading_progress t h w = 0" if "0 \<le> t"
  proof -
    have "- t / max 1 (h - w) \<le> 0" using that by (intro divide_nonpos_pos) auto
    then show ?thesis by (simp add: reading_progress_def clamp_def)
  qed
  show "w + 1 \<le> h \<Longrightarrow> reading_progress (w - h) h w = 1" by (simp add: reading_progress_def clamp_def max_def)
qed

definition reached :: "(string \<Rightarrow> rat option) \<Rightarrow> string \<Rightarrow> bool" where
  "reached heading_top i = (case heading_top i of Some t \<Rightarrow> t \<le> ACTIVE_MARGIN | None \<Rightarrow> False)"

lemma active_is_last:
  "activeId tops items = (let rs = filter (reached tops) items in if rs = [] then [] else last rs)"
proof (induction items rule: rev_induct)
  case (snoc i items)
  then show ?case by (auto simp: activeId_def reached_def Let_def split: option.split)
qed (simp add: activeId_def)

section \<open>The pages of the site\<close>

datatype dir_entry = Dir_file string | Dir_folder string "dir_entry list"

text \<open>\<open>rel.replace(/(\/index)?\.mdx$/, '')\<close>\<close>

definition page_path :: "string \<Rightarrow> string" where
  "page_path rel =
     (let bare = strip_mdx rel
      in CHR ''/'' # (if ends_with ''.mdx'' rel \<and> ends_with ''/index'' bare then take (length bare - 6) bare else bare))"

definition path_join :: "string \<Rightarrow> string \<Rightarrow> string" where
  "path_join dir name = (if dir = [] then name else dir @ ''/'' @ name)"

fun docsPaths :: "string \<Rightarrow> dir_entry \<Rightarrow> string list" where
  "docsPaths dir (Dir_folder name entries) =
     (let rel = path_join dir name
      in if rel = ''blog'' \<or> rel = ''changelog'' then [] else concat (map (docsPaths rel) entries))"
| "docsPaths dir (Dir_file name) = (if ends_with ''.mdx'' name then [page_path (path_join dir name)] else [])"

definition SITE :: string where
  "SITE = ''https://rustrak.dev''"

definition sitemap :: "(string list \<Rightarrow> string list) \<Rightarrow> dir_entry list \<Rightarrow> post list \<Rightarrow> string list" where
  "sitemap sort_paths entries posts =
     map (\<lambda>p. SITE @ (if p = ''/'' then [] else p)) [''/'', ''/blog'', ''/changelog'', ''/roadmap'', ''/api-reference'']
     @ map (\<lambda>p. SITE @ p) (sort_paths (concat (map (docsPaths []) entries)))
     @ map (\<lambda>p. SITE @ ''/blog/'' @ po_slug p) posts"

section \<open>Data in a script element\<close>

definition jsonLd :: "jv \<Rightarrow> string" where
  "jsonLd data = concat (map (\<lambda>c. if c = CHR ''<'' then CHR 0x5C # ''u003c'' else [c]) (json_text data))"

definition ld_esc :: "string \<Rightarrow> string" where
  "ld_esc s = concat (map (\<lambda>c. if c = CHR ''<'' then CHR 0x5C # ''u003c'' else [c]) s)"

lemma ld_esc_simps [simp]:
  "ld_esc [] = []" "ld_esc (c # s) = (if c = CHR ''<'' then CHR 0x5C # ''u003c'' @ ld_esc s else c # ld_esc s)"
  by (simp_all add: ld_esc_def)

lemma ld_esc_no_bracket: "CHR ''<'' \<notin> set (ld_esc s)"
  by (induction s) auto

lemma ld_esc_empty: "ld_esc s = [] \<longleftrightarrow> s = []"
  by (cases s) auto

text \<open>What the parser takes of a text outside its strings, it takes of the escaped text too.\<close>

lemma ld_esc_taken:
  assumes "\<not> P (CHR ''<'')" and "\<not> P (CHR 0x5C)"
  shows "takeWhile P (ld_esc s) = takeWhile P s" and "dropWhile P (ld_esc s) = ld_esc (dropWhile P s)"
  using assms by (induction s) auto

lemma ld_esc_ws: "json_ws (ld_esc s) = ld_esc (json_ws s)"
  unfolding json_ws_def by (rule ld_esc_taken) auto

lemma ld_esc_starts:
  "CHR ''<'' \<notin> set w \<Longrightarrow> CHR 0x5C \<notin> set w \<Longrightarrow> starts_with w (ld_esc s) = starts_with w s"
  "CHR ''<'' \<notin> set w \<Longrightarrow> CHR 0x5C \<notin> set w \<Longrightarrow> starts_with w s \<Longrightarrow> drop (length w) (ld_esc s) = ld_esc (drop (length w) s)"
proof -
  show "CHR ''<'' \<notin> set w \<Longrightarrow> CHR 0x5C \<notin> set w \<Longrightarrow> starts_with w (ld_esc s) = starts_with w s"
  proof (induction w arbitrary: s)
    case (Cons c w)
    then show ?case by (cases s) (auto simp: starts_with_def)
  qed (simp add: starts_with_def)
  show "CHR ''<'' \<notin> set w \<Longrightarrow> CHR 0x5C \<notin> set w \<Longrightarrow> starts_with w s \<Longrightarrow> drop (length w) (ld_esc s) = ld_esc (drop (length w) s)"
  proof (induction w arbitrary: s)
    case (Cons c w)
    then show ?case by (cases s) (auto simp: starts_with_def)
  qed simp
qed

lemma hex4_bracket: "hex4 (CHR ''0'') (CHR ''0'') (CHR ''3'') (CHR ''c'') = Some (CHR ''<'')"
  by code_simp

lemma hex4_no_bracket: "hex4 a b c d = Some x \<Longrightarrow> CHR ''<'' \<notin> {a, b, c, d}"
proof -
  have "hex_val (CHR ''<'') = None" by code_simp
  then show "hex4 a b c d = Some x \<Longrightarrow> CHR ''<'' \<notin> {a, b, c, d}"
    by (auto simp: hex4_def split: option.splits)
qed

lemma p_chars_cases:
  assumes "p_chars (c # r) = Some (t, r')"
  obtains (quote) "c = CHR 0x22" "t = []" "r' = r"
  | (unicode) h1 h2 h3 h4 s d u where "c = CHR 0x5C" "r = CHR ''u'' # h1 # h2 # h3 # h4 # s"
      "hex4 h1 h2 h3 h4 = Some d" "p_chars s = Some (u, r')" "t = d # u"
  | (escape) e s d u where "c = CHR 0x5C" "r = e # s" "e \<noteq> CHR ''u''" "escape_char e = Some d" "p_chars s = Some (u, r')" "t = d # u"
  | (plain) u where "c \<noteq> CHR 0x22" "c \<noteq> CHR 0x5C" "\<not> (of_char c :: nat) < 32" "p_chars r = Some (u, r')" "t = c # u"
proof -
  consider "c = CHR 0x22" | "c = CHR 0x5C" | "c \<noteq> CHR 0x22" "c \<noteq> CHR 0x5C" by blast
  then show thesis
  proof cases
    case 1
    then show ?thesis using assms quote by simp
  next
    case 3
    then show ?thesis using assms plain by (auto simp: cons_char_def split: if_splits)
  next
    case 2
    then obtain e s where r: "r = e # s" using assms by (cases r) auto
    show ?thesis
    proof (cases "e = CHR ''u''")
      case False
      then show ?thesis using assms escape 2 r by (auto simp: cons_char_def split: option.splits)
    next
      case True
      then show ?thesis using assms unicode 2 r by (auto simp: cons_char_def split: list.splits option.splits)
    qed
  qed
qed

lemma escape_not_bracket: "escape_char e = Some d \<Longrightarrow> e \<noteq> CHR ''<''"
  by (auto simp: escape_char_def)

lemma ld_esc_chars: "p_chars s = Some (t, r) \<Longrightarrow> p_chars (ld_esc s) = Some (t, ld_esc r)"
proof (induction "length s" arbitrary: s t r rule: less_induct)
  case less
  show ?case
  proof (cases s)
    case (Cons c s')
    from less.prems [unfolded Cons] show ?thesis
    proof (cases rule: p_chars_cases)
      case quote
      then show ?thesis by (simp add: Cons)
    next
      case (unicode h1 h2 h3 h4 w d u)
      have "p_chars (ld_esc w) = Some (u, ld_esc r)" by (rule less.hyps) (simp_all add: Cons unicode)
      moreover have "h1 \<noteq> CHR ''<''" "h2 \<noteq> CHR ''<''" "h3 \<noteq> CHR ''<''" "h4 \<noteq> CHR ''<''"
        using hex4_no_bracket [OF unicode(3)] by auto
      ultimately show ?thesis using unicode(1,2,3,5) by (simp add: Cons cons_char_def)
    next
      case (escape e w d u)
      have "p_chars (ld_esc w) = Some (u, ld_esc r)" by (rule less.hyps) (simp_all add: Cons escape)
      then show ?thesis using escape_not_bracket [OF escape(4)] escape by (simp add: Cons cons_char_def)
    next
      case (plain u)
      have w: "p_chars (ld_esc s') = Some (u, ld_esc r)" by (rule less.hyps) (simp_all add: Cons plain)
      show ?thesis
      proof (cases "c = CHR ''<''")
        case True
        have "p_chars (CHR 0x5C # ''u003c'' @ ld_esc s') = cons_char (CHR ''<'') (p_chars (ld_esc s'))"
          by (simp add: hex4_bracket)
        then show ?thesis using w True plain(5) by (simp add: Cons cons_char_def)
      next
        case False
        then show ?thesis using w plain by (simp add: Cons cons_char_def)
      qed
    qed
  qed (use less.prems in simp)
qed

lemma ld_esc_digits: "takeWhile is_digit (ld_esc s) = takeWhile is_digit s" "dropWhile is_digit (ld_esc s) = ld_esc (dropWhile is_digit s)"
  by (rule ld_esc_taken; simp add: is_digit_def)+

lemma ld_esc_fraction: "number_fraction (ld_esc s) = (fst (number_fraction s), ld_esc (snd (number_fraction s)))"
proof (cases "starts_with ''.'' s")
  case True
  then obtain t where "s = CHR ''.'' # t" by (cases s) (auto simp: starts_with_def)
  then show ?thesis by (simp add: number_fraction_def ld_esc_digits starts_with_def)
next
  case False
  moreover have "\<not> starts_with ''.'' (ld_esc s)" using False ld_esc_starts(1) [of "''.''" s] by simp
  ultimately show ?thesis by (simp add: number_fraction_def)
qed

lemma ld_esc_exponent: "number_exponent (ld_esc s) = (fst (number_exponent s), ld_esc (snd (number_exponent s)))"
proof (cases s)
  case (Cons e r)
  show ?thesis
  proof (cases "e = CHR ''<''")
    case True
    then show ?thesis by (simp add: Cons number_exponent_def Let_def)
  next
    case False
    define sign where "sign = (if starts_with ''-'' r \<or> starts_with ''+'' r then [hd r] else [])"
    define ds where "ds = takeWhile is_digit (drop (length sign) r)"
    have sg: "(if starts_with ''-'' (ld_esc r) \<or> starts_with ''+'' (ld_esc r) then [hd (ld_esc r)] else []) = sign"
      using ld_esc_starts(1) [of "''-''" r] ld_esc_starts(1) [of "''+''" r]
      by (cases r) (auto simp: sign_def starts_with_def)
    have dr: "drop (length sign) (ld_esc r) = ld_esc (drop (length sign) r)"
      by (cases r) (auto simp: sign_def starts_with_def)
    have dd: "drop (length ds) (ld_esc (drop (length sign) r)) = ld_esc (drop (length ds) (drop (length sign) r))"
      unfolding ds_def by (metis dropWhile_eq_drop ld_esc_digits)
    have "drop (1 + length sign + length ds) (e # ld_esc r) = ld_esc (drop (1 + length sign + length ds) (e # r))"
      using dd dr by (simp add: add.commute flip: drop_drop)
    then show ?thesis unfolding Cons
      using False sg dr
      by (simp add: number_exponent_def Let_def ld_esc_digits flip: sign_def ds_def)
  qed
qed (simp add: number_exponent_def)

lemma ld_esc_number: "p_number s = Some (v, r) \<Longrightarrow> p_number (ld_esc s) = Some (v, ld_esc r)"
proof -
  assume p: "p_number s = Some (v, r)"
  define sign where "sign = (if starts_with ''-'' s then ''-'' else [])"
  define s1 where "s1 = drop (length sign) s"
  define i where "i = (if starts_with ''0'' s1 then ''0'' else takeWhile is_digit s1)"
  have sg: "(if starts_with ''-'' (ld_esc s) then ''-'' else []) = sign" using ld_esc_starts(1) [of "''-''" s] by (simp add: sign_def)
  have s1: "drop (length sign) (ld_esc s) = ld_esc s1"
    using ld_esc_starts(2) [of "''-''" s] by (auto simp: sign_def s1_def)
  have i: "(if starts_with ''0'' (ld_esc s1) then ''0'' else takeWhile is_digit (ld_esc s1)) = i"
    using ld_esc_starts(1) [of "''0''" s1] by (simp add: i_def ld_esc_digits)
  have d: "drop (length i) (ld_esc s1) = ld_esc (drop (length i) s1)"
    using ld_esc_starts(2) [of "''0''" s1] by (auto simp: i_def) (metis dropWhile_eq_drop ld_esc_digits)
  show ?thesis using p unfolding p_number_def Let_def sg s1 i d
    unfolding sign_def [symmetric] s1_def [symmetric] i_def [symmetric]
    by (auto simp: ld_esc_fraction ld_esc_exponent split: if_splits prod.splits)
qed

lemma number_not_bracket: "p_number (CHR ''<'' # r) = None"
  by (simp add: p_number_def Let_def starts_with_def is_digit_def number_fraction_def number_exponent_def)

lemma ld_esc_tail: "starts_with [c] s \<Longrightarrow> c \<noteq> CHR ''<'' \<Longrightarrow> tl (ld_esc s) = ld_esc (tl s)"
  by (cases s) (auto simp: starts_with_def)

lemma ld_esc_value_step:
  assumes items: "\<And>r vs q. p_items n r = Some (vs, q) \<Longrightarrow> p_items n (ld_esc r) = Some (vs, ld_esc q)"
    and members: "\<And>acc r ps q. p_members n acc r = Some (ps, q) \<Longrightarrow> p_members n acc (ld_esc r) = Some (ps, ld_esc q)"
    and p: "p_value (Suc n) s = Some (v, rest)"
  shows "p_value (Suc n) (ld_esc s) = Some (v, ld_esc rest)"
proof (cases "json_ws s")
  case Nil
  then show ?thesis using p by simp
next
  case (Cons c r)
  have lit: "starts_with w (ld_esc (c # r)) = starts_with w (c # r)"
    "starts_with w (c # r) \<Longrightarrow> drop (length w) (ld_esc (c # r)) = ld_esc (drop (length w) (c # r))"
    if "CHR ''<'' \<notin> set w" "CHR 0x5C \<notin> set w" for w
    using ld_esc_starts [OF that, of "c # r"] by auto
  have nb: "c \<noteq> CHR ''<''" using p Cons by (auto simp: number_not_bracket starts_with_def)
  then have e: "json_ws (ld_esc s) = c # ld_esc r" "ld_esc (c # r) = c # ld_esc r" by (simp_all add: ld_esc_ws Cons)
  note lit4 = lit [of "''null''", unfolded e(2)] lit [of "''true''", unfolded e(2)] lit [of "''false''", unfolded e(2)]
  note ws = ld_esc_ws [of r] ld_esc_starts(1) [of "'']''" "json_ws r"] ld_esc_starts(1) [of "''}''" "json_ws r"]
    ld_esc_tail [of "CHR '']''" "json_ws r"] ld_esc_tail [of "CHR ''}''" "json_ws r"]
  consider "c = CHR 0x22" | "c = CHR ''[''" | "c = CHR ''{''" | "c \<noteq> CHR 0x22" "c \<noteq> CHR ''[''" "c \<noteq> CHR ''{''" by blast
  then show ?thesis
  proof cases
    case 1
    then show ?thesis using p ld_esc_chars [of r] by (auto simp: Cons e)
  next
    case 2
    then show ?thesis using p items [of r] ws by (auto simp: Cons e split: if_splits)
  next
    case 3
    then show ?thesis using p members [of "[]" r] ws by (auto simp: Cons e split: if_splits)
  next
    case 4
    then show ?thesis using p lit4 ld_esc_number [of "c # r", unfolded e(2)]
      unfolding p_value.simps Cons e by (simp add: eval_nat_numeral split: if_splits)
  qed
qed

lemma ld_esc_parsed:
  "p_value n s = Some (v, rest) \<Longrightarrow> p_value n (ld_esc s) = Some (v, ld_esc rest)"
  "p_items n s = Some (vs, rest) \<Longrightarrow> p_items n (ld_esc s) = Some (vs, ld_esc rest)"
  "p_members n acc s = Some (ps, rest) \<Longrightarrow> p_members n acc (ld_esc s) = Some (ps, ld_esc rest)"
proof (induction n arbitrary: s v vs acc ps rest)
  case (Suc n)
  {
    case 1
    show ?case by (rule ld_esc_value_step [OF Suc(2) Suc(3) 1])
  next
    case 2
    then obtain v r where v: "p_value n s = Some (v, r)" by (auto split: option.splits)
    then obtain c r' where c: "json_ws r = c # r'" using 2 by (cases "json_ws r") auto
    then have "c \<noteq> CHR ''<''" using 2 v by (auto split: if_splits)
    then have "json_ws (ld_esc r) = c # ld_esc r'" using c by (simp add: ld_esc_ws)
    then show ?case using 2 v c Suc(1) [OF v] Suc(2) [of r'] by (auto split: if_splits)
  next
    case 3
    then obtain r where q: "json_ws s = CHR 0x22 # r" by (cases "json_ws s") (auto split: if_splits)
    then obtain k r1 where k: "p_chars r = Some (k, r1)" using 3 by (auto split: option.splits)
    have colon: "starts_with '':'' (json_ws r1)" using 3 q k by (auto split: if_splits)
    then obtain v r2 where v: "p_value n (tl (json_ws r1)) = Some (v, r2)" using 3 q k by (auto split: option.splits)
    then obtain c r3 where c: "json_ws r2 = c # r3" using 3 q k colon by (cases "json_ws r2") auto
    then have "c \<noteq> CHR ''<''" using 3 q k colon v by (auto split: if_splits)
    then have e: "json_ws (ld_esc r2) = c # ld_esc r3" "json_ws (ld_esc s) = CHR 0x22 # ld_esc r"
      using c q by (simp_all add: ld_esc_ws)
    have "tl (json_ws (ld_esc r1)) = ld_esc (tl (json_ws r1))" "starts_with '':'' (json_ws (ld_esc r1))"
      using colon ld_esc_tail [of "CHR '':''" "json_ws r1"] ld_esc_starts(1) [of "'':''" "json_ws r1"] by (simp_all add: ld_esc_ws)
    then show ?case using 3 q k colon v c e ld_esc_chars [OF k] Suc(1) [OF v] Suc(3) [of _ r3] by (auto split: if_splits)
  }
qed simp_all

lemma jsonLd_escaped: "jsonLd data = ld_esc (json_text data)"
  by (simp add: jsonLd_def ld_esc_def)

lemma ld_esc_length: "length s \<le> length (ld_esc s)"
  by (induction s) auto

text \<open>
  C22: no data closes the script element it is written into, since its text holds no opening bracket,
  and what is read back from it is the data, brackets included.
\<close>

theorem script_data_is_contained:
  assumes "json_wf data"
  shows "CHR ''<'' \<notin> set (jsonLd data) \<and> json_parse (jsonLd data) = Some data"
proof -
  have "p_value (Suc (length (jsonLd data))) (json_text data) = Some (data, [])"
    using p_value_text [OF assms, of "[]" "Suc (length (jsonLd data))"] ld_esc_length [of "json_text data"]
    by (simp add: jsonLd_escaped)
  from ld_esc_parsed(1) [OF this] have "p_value (Suc (length (jsonLd data))) (jsonLd data) = Some (data, [])"
    by (simp add: jsonLd_escaped)
  then show ?thesis using ld_esc_no_bracket [of "json_text data"]
    by (simp add: json_parse_def jsonLd_escaped json_ws_def)
qed

lemma script_data_is_contained_witness:
  "json_parse (jsonLd (JObj [(''name'', JStr ''</script><b>'')])) = Some (JObj [(''name'', JStr ''</script><b>'')])"
proof -
  have "json_wf (JObj [(''name'', JStr ''</script><b>'')])" by simp
  from script_data_is_contained [OF this] show ?thesis by blast
qed

end
