(* ===== verification/Spec2Isabelle.thy ===== *)
theory Spec2Isabelle
  imports ClientHttp FilterQueryFacts QueryBar DialogStore ReaderCache Assignments AgentGraph Retention
    DataTable MessageTemplate AlertForms TransactionPayload Waterfall Events IssueTable Updates Monitors
    RuleEditor StorageJobs Charts Palette ProjectProducts ProjectForm Github QueryKeys ApiReads
    AppFrame IssueTriage StorageDelete IssuesRoute PerformanceRoute AgentsRoute LogsRoute AccessEditor Languages TemplateEditor Changelog DocsContent
begin

text \<open>
  Rustrak is a self-hosted error tracker: a Rust server that takes Sentry's envelopes, and a
  TypeScript side that reads them, which is what is modelled here: the client package
  (\<open>packages/client\<close>), the component library (\<open>packages/ui\<close>), the dashboard
  (\<open>apps/dashboard\<close>) and what the documentation site (\<open>apps/docs\<close>) computes. Paths below are under \<open>src/\<close>; \<open>features/\<close> and \<open>shared/\<close> are below
  \<open>apps/dashboard/src\<close>.

  How the parts meet. A request goes through \<open>packages/client/src/utils/http.ts\<close>, which
  retries it, turns a failure into one of the closed union of errors and never lets a server's
  message of a 5xx out. The dashboard reads who is asking from the session store, asks the
  permission questions of that reader, keeps its query cache for that reader only, and puts a
  refused request's reasons on the inputs of the form that sent it. Its lists are tables whose
  whole state is an URL: the query bar edits filters, the filter codec writes them as one
  string, the issue list turns them into the request the server understands. Its detail pages
  read stored JSON that no schema was enforced on: the payloads of an event, a transaction, an
  agent's trace; the waterfall draws the spans of the last two.

  The theories, in the order of the imports:
  \<^item> \<open>JsBase\<close> holds JavaScript: values (\<open>jv\<close>), numbers as exact rationals with the infinities
    and \<open>NaN\<close>, truthiness, \<open>Number\<close>, \<open>String\<close>, \<open>trim\<close>, \<open>split\<close>, maps in insertion order, and the
    lemmas on lists and words of text the components share; \<open>Json\<close> holds \<open>JSON.parse\<close> and
    \<open>JSON.stringify\<close>.
  \<^item> \<open>ClientErrors\<close> (\<open>packages/client/src/errors.ts\<close>, \<open>result.ts\<close>) and \<open>ClientHttp\<close>
    (\<open>utils/http.ts\<close>, \<open>toResult\<close> of \<open>client.ts\<close>): which error a response becomes, what is kept of its
    body, when a request is sent again, and that warnings are given once.
  \<^item> \<open>FilterQuery\<close>, \<open>FilterQueryFacts\<close> (\<open>packages/ui/.../data-table/query.ts\<close>): tokens, the three
    codecs behind the locale \<open>filter_codec\<close>, merging, the round trips. \<open>QueryBar\<close>
    (\<open>packages/ui/.../query-bar\<close>): the bar as a state machine, with the invariant of every state
    its events reach. \<open>DataTable\<close> (\<open>packages/ui/.../data-table\<close>): the gestures on a table, the
    panels of its filters, the rows ticked, its layout.
  \<^item> \<open>Observable\<close>: the locale of a store with listeners. \<open>DialogStore\<close>
    (\<open>packages/ui/.../dialog-store.ts\<close>) and \<open>Session\<close> (\<open>shared/api/session.ts\<close>) interpret it; the
    callbacks of promises are events, so a run is any order of answers and reactions, and a fair
    run settles every request. \<open>ReaderCache\<close> (\<open>shared/api/query.ts\<close>, \<open>return-path.ts\<close>) keeps the cache
    to one reader and the resumed address on this origin.
  \<^item> \<open>Permissions\<close> (\<open>shared/lib/permissions.ts\<close>, \<open>permission-matrix.ts\<close>) and \<open>Assignments\<close>
    (\<open>features/user/model/assignments.ts\<close>, \<open>shared/lib/scope-actions.ts\<close>): what the reader may do, and
    access as an editor shows and saves it.
  \<^item> \<open>FormErrors\<close> (\<open>shared/lib/error-copy.ts\<close>, \<open>form-errors.ts\<close>): the sentence of an error, and that
    every reason of a refused request is on screen.
  \<^item> \<open>GenAi\<close>, \<open>AgentTrace\<close>, \<open>AgentGraph\<close> (\<open>features/agent-trace/model\<close>): attributes, token counts,
    chat messages; the dashboard's window and buckets, the header and rows of a trace; turns, the
    graph of agents and handoffs.
  \<^item> \<open>Timestamps\<close> (\<open>shared/lib/protocol-timestamp.ts\<close>) over the calendar of ECMAScript;
    \<open>TransactionPayload\<close> (\<open>features/transaction/lib\<close>): rows and self time; \<open>Events\<close>
    (\<open>features/event/lib\<close>): sections, stack traces, threads, breadcrumbs, feedback.
  \<^item> \<open>Waterfall\<close> (\<open>packages/ui/.../waterfall.tsx\<close>): the tree built from parent links, the rows it is
    flattened to, bars, keys.
  \<^item> \<open>IssueTable\<close> (\<open>features/issue/model\<close>), \<open>Monitors\<close> (\<open>features/monitor\<close>), \<open>Retention\<close>
    (\<open>features/storage/model/retention.ts\<close>), \<open>Updates\<close> (\<open>shared/lib/version.ts\<close>,
    \<open>shared/api/version-check.ts\<close>).
  \<^item> \<open>AlertRouting\<close>, \<open>AlertForms\<close>, \<open>MessageTemplate\<close> (\<open>features/alert\<close>, \<open>shared/lib/rule-*.ts\<close>): the
    overrides of a rule, the forms of an integration and of a rule, the body of a webhook;
    \<open>AlertRouting\<close> also holds the server's check of an override, from its Rust, to hold the editor's
    against; \<open>RuleEditor\<close> composes them: a rule opened, edited, tested, saved and refused.
  \<^item> \<open>StorageJobs\<close> (\<open>features/storage/ui/hooks\<close>): the cleanup job a page follows by polling, and the
    retention settings saved and enforced.
  \<^item> \<open>CommandBar\<close>, \<open>Palette\<close> (\<open>shared/config/commands.ts\<close>, \<open>shared/lib/command-score.ts\<close>,
    \<open>command-bar\<close>): the rows of the command palette, how a search finds them, and its keyboard as a
    machine whose repaints are events of their own.
  \<^item> \<open>Charts\<close> (\<open>shared/lib/waterfall-geometry.ts\<close>, \<open>time-axis.ts\<close>, \<open>chart-format.ts\<close>, \<open>sizing.ts\<close>):
    where bars stand, and the width of every column.
  \<^item> \<open>ProjectProducts\<close>, \<open>ProjectForm\<close> (\<open>features/project\<close>): the products of a project, switched and
    ordered as they are saved; a project created, its slug following its name.
  \<^item> \<open>SearchParams\<close> (\<open>shared/lib/search-params.ts\<close>, \<open>use-table-url-state.ts\<close>, \<open>features/log/model\<close>)
    and \<open>Links\<close> (\<open>endpoints.ts\<close>, \<open>session-health.ts\<close>, \<open>href.ts\<close>): query parameters read, addresses
    written; the encoders of the URL standard are proved against their decoders.
  \<^item> \<open>Github\<close> (\<open>features/github\<close>): where a frame's file lives, as the server finds it too; a
    project's repository, its drafts and an issue's links as state machines.
  \<^item> \<open>QueryKeys\<close>, \<open>ApiReads\<close> (\<open>features/*/api\<close>, \<open>shared/api\<close>): every read with its cache key and its
    request, every write with what it makes stale, and the reads that walk pages.
  \<^item> \<open>IssuesRoute\<close> (\<open>routes/.../issues/index.tsx\<close> over the query codec and the issue list): the
    address as the state of the list. \<open>AccessEditor\<close> (\<open>features/user/ui\<close>): a member's access edited,
    saved, refused and read again. \<open>Languages\<close> (\<open>shared/i18n\<close>, \<open>shared/lib/time-zones.ts\<close>): the
    store of language, messages, formats and zone. \<open>TemplateEditor\<close> (\<open>json-template-editor.tsx\<close>,
    \<open>use-template-preview.ts\<close>): completion, pills, diagnostics, the preview of a body being typed.
  \<^item> \<open>Changelog\<close>, \<open>DocsContent\<close> (\<open>apps/docs/src\<close>): the releases read from files, their archive fetched
    chunk by chunk as the page is scrolled; the roadmap, the blog, the pages' addresses.
  \<^item> \<open>PerformanceRoute\<close>, \<open>AgentsRoute\<close>, \<open>LogsRoute\<close> (\<open>routes/.../performance\<close>, \<open>agents\<close>,
    \<open>logs.tsx\<close>): the pages of endpoints, agents and log lines as functions of their address: the reads
    it makes, which of them a tab draws, and what every gesture writes back.
  \<^item> \<open>AppFrame\<close> (\<open>routes/_authenticated\<close>, \<open>packages/ui\<close>'s shell): the navigation a reader may open, the
    breadcrumbs and the rail that is remembered. \<open>IssueTriage\<close> (\<open>features/issue/ui\<close>): the menus and
    requests of the issue list, and an issue's log. \<open>StorageDelete\<close> (\<open>features/storage/ui\<close>): the dialog
    that deletes what it has counted.

  State is passed explicitly: a store of the code is a record, each of its functions takes and
  returns it, and what React does in between is an event of a step function or an inductive
  relation. What the code mutates locally (a map being filled, a cursor) is a fold.

  Bounds and fuel. \<open>Json\<close> parses with as much fuel as the text is long, and each call eats a
  character. The retry loop's fuel is the number of retries left. The span tree is built with as
  many levels as there are spans: \<open>Waterfall.tree_is_built\<close> shows that a level more changes
  nothing, cyclic parent links included. Walks along parent links in \<open>AgentGraph\<close> and \<open>Waterfall\<close>
  carry the spans already seen and end by their number; empty buckets are stepped over by a
  measure on what is left of the window. The walk of an issue's events has the code's own cap of
  fifty pages, the rows of a release one of twenty, whatever the server says.

  What stands for code that is not in the repository, always as an argument: the engine's
  \<open>Date.parse\<close> outside the format of the standard (\<open>date_parse\<close>, \<open>other\<close>), \<open>localeCompare\<close>
  (\<open>collate_le\<close>), the URL parser (\<open>protocol\<close>, \<open>parse_url\<close>), zod's schemas (each \<open>safeParse\<close>, the
  email check), the translator (\<open>t\<close>), the network (a function of the try) and the browser's
  storage, and how the query cache hashes and matches keys. Where a property rests on such a thing, the hypothesis names what is used of it and a
  witness gives a concrete function for it.

  What the representation leaves out: characters beyond Latin-1, the rounding and overflow of
  doubles, the order of keys that look like array indices, object identity (objects are told
  apart by their contents, ids included) and the prototype of an object except where the code
  reads an object literal by a key it was handed, where the inherited names are modelled.

  Not modelled: markup, styles and focus of the components (\<open>.tsx\<close>) where they keep no state of their
  own, because it is React's to carry out; the generated client (types, zod schemas
  and one call per route) and route tree; tables of data (platforms and their snippets, icons,
  tokens, messages); canvas drawing; the documentation site's landing page, the test senders, benchmarks; and the Rust
  server, whose language is another, but for the two routines the dashboard has to agree with (where a
  frame's file lives, what an override may hold).
\<close>

end
